(* ===== verification/JsText.thy ===== *)
theory JsText
  imports Prelude "HOL-Library.Char_ord" "HOL-Library.List_Lexorder"
begin

text \<open>
  What the source uses of JavaScript strings. A string is the byte list of its (generalised)
  UTF-8 form, so that \<open>Buffer.from(text, "utf8")\<close> is the list itself wherever the string has a
  UTF-8 form; a lone surrogate code unit, which has none, is the three bytes \<open>ED A0..BF xx\<close> that
  generalised UTF-8 gives it. The regular expressions of the source accept ASCII text only, so
  they read the same on bytes.

  Also here: decimal and hexadecimal printing of \<open>bigint\<close>s, \<open>BigInt(text)\<close>, and the lemmas that
  reading back what was printed gives the number.
\<close>

named_theorems text_eval \<comment> \<open>digit characters as literals, for evaluation\<close>
named_theorems text_simps \<comment> \<open>character classes and their digit values\<close>

section \<open>Characters\<close>

abbreviation byte_of :: "char \<Rightarrow> nat" where
  "byte_of c \<equiv> of_char c"

definition is_digit :: "char \<Rightarrow> bool" where
  "is_digit c \<longleftrightarrow> 48 \<le> byte_of c \<and> byte_of c \<le> 57"

definition is_alpha :: "char \<Rightarrow> bool" where
  "is_alpha c \<longleftrightarrow> (65 \<le> byte_of c \<and> byte_of c \<le> 90) \<or> (97 \<le> byte_of c \<and> byte_of c \<le> 122)"

definition is_hex_digit :: "char \<Rightarrow> bool" where
  "is_hex_digit c \<longleftrightarrow> is_digit c \<or> (65 \<le> byte_of c \<and> byte_of c \<le> 70) \<or> (97 \<le> byte_of c \<and> byte_of c \<le> 102)"

definition to_lower_char :: "char \<Rightarrow> char" where
  "to_lower_char c = (if 65 \<le> byte_of c \<and> byte_of c \<le> 90 then char_of (byte_of c + 32) else c)"

text \<open>\<open>toLowerCase\<close>, for the ASCII text it is applied to.\<close>

definition to_lower :: "string \<Rightarrow> string" where
  "to_lower s = map to_lower_char s"

lemma length_to_lower [simp]: "length (to_lower s) = length s"
  by (simp add: to_lower_def)

lemma to_lower_char_idem [simp]: "to_lower_char (to_lower_char c) = to_lower_char c"
  by (auto simp: to_lower_char_def)

lemma to_lower_idem [simp]: "to_lower (to_lower s) = to_lower s"
  by (simp add: to_lower_def)

lemma is_digit_char_of [text_simps]: "d < 10 \<Longrightarrow> is_digit (char_of (48 + d :: nat))"
  by (auto simp: is_digit_def)

lemma to_lower_char_digit [text_simps]: "is_digit c \<Longrightarrow> to_lower_char c = c"
  by (simp add: is_digit_def to_lower_char_def)

section \<open>Positional digits\<close>

fun to_digits :: "nat \<Rightarrow> nat \<Rightarrow> nat list" where
  "to_digits b n = (if n < b \<or> b \<le> 1 then [n] else to_digits b (n div b) @ [n mod b])"

declare to_digits.simps [simp del]

definition from_digits :: "nat \<Rightarrow> nat list \<Rightarrow> nat" where
  "from_digits b ds = foldl (\<lambda>acc d. acc * b + d) 0 ds"

lemma from_digits_snoc: "from_digits b (ds @ [d]) = from_digits b ds * b + d"
  by (simp add: from_digits_def)

lemma from_digits_Nil [simp]: "from_digits b [] = 0"
  by (simp add: from_digits_def)

lemma from_digits_single [simp]: "from_digits b [d] = d"
  by (simp add: from_digits_def)

lemma from_digits_append: "from_digits b (xs @ ys) = from_digits b xs * b ^ length ys + from_digits b ys"
proof (induction ys rule: rev_induct)
  case Nil
  show ?case by simp
next
  case (snoc y ys)
  have "from_digits b (xs @ ys @ [y]) = from_digits b ((xs @ ys) @ [y])" by simp
  also have "\<dots> = from_digits b (xs @ ys) * b + y" by (rule from_digits_snoc)
  also have "\<dots> = from_digits b xs * b ^ length (ys @ [y]) + (from_digits b ys * b + y)"
    using snoc.IH by (simp add: algebra_simps)
  also have "from_digits b ys * b + y = from_digits b (ys @ [y])" by (rule from_digits_snoc [symmetric])
  finally show ?case by simp
qed

lemma from_digits_zeros [simp]: "from_digits b (replicate n 0) = 0"
proof (induction n)
  case 0
  show ?case by simp
next
  case (Suc n)
  have "replicate (Suc n) (0::nat) = replicate n 0 @ [0]" by (simp add: replicate_append_same)
  then show ?case using Suc.IH by (simp add: from_digits_snoc)
qed

lemma from_digits_less: "(\<forall>d \<in> set ds. d < b) \<Longrightarrow> from_digits b ds < b ^ length ds"
proof (induction ds rule: rev_induct)
  case Nil
  show ?case by simp
next
  case (snoc d ds)
  then have ih: "from_digits b ds + 1 \<le> b ^ length ds" and d: "d < b" by auto
  have "from_digits b (ds @ [d]) < (from_digits b ds + 1) * b"
    using d by (simp add: from_digits_snoc)
  also have "\<dots> \<le> b ^ length ds * b" using ih by (rule mult_le_mono1)
  finally show ?case by (simp add: mult.commute)
qed

lemma from_to_digits [simp]: "1 < b \<Longrightarrow> from_digits b (to_digits b n) = n"
proof (induction b n rule: to_digits.induct)
  case (1 b n)
  show ?case
  proof (cases "n < b")
    case True
    then show ?thesis by (subst to_digits.simps) simp
  next
    case False
    then have "to_digits b n = to_digits b (n div b) @ [n mod b]"
      using "1.prems" by (subst to_digits.simps) simp
    moreover have "from_digits b (to_digits b (n div b)) = n div b"
      using 1 False by simp
    ultimately show ?thesis by (simp add: from_digits_snoc)
  qed
qed

lemma to_digits_not_Nil [simp]: "to_digits b n \<noteq> []"
  by (subst to_digits.simps) simp

lemma to_digits_bounded: "1 < b \<Longrightarrow> d \<in> set (to_digits b n) \<Longrightarrow> d < b"
proof (induction b n rule: to_digits.induct)
  case (1 b n)
  show ?case
  proof (cases "n < b")
    case True
    then show ?thesis using "1.prems" by (subst (asm) to_digits.simps) simp
  next
    case False
    then have "to_digits b n = to_digits b (n div b) @ [n mod b]"
      using "1.prems" by (subst to_digits.simps) simp
    then show ?thesis using 1 False by auto
  qed
qed

lemma length_to_digits_le: "1 < b \<Longrightarrow> n < b ^ k \<Longrightarrow> 0 < k \<Longrightarrow> length (to_digits b n) \<le> k"
proof (induction k arbitrary: n)
  case 0
  then show ?case by simp
next
  case (Suc k)
  show ?case
  proof (cases "n < b")
    case True
    then show ?thesis by (subst to_digits.simps) simp
  next
    case False
    then have eq: "to_digits b n = to_digits b (n div b) @ [n mod b]"
      using Suc.prems by (subst to_digits.simps) simp
    have "n div b < b ^ k"
      using Suc.prems by (simp add: less_mult_imp_div_less mult.commute)
    moreover have "0 < k" using False Suc.prems by (cases k) auto
    ultimately show ?thesis using Suc.IH Suc.prems(1) eq by simp
  qed
qed

section \<open>Decimal text\<close>

definition digit_char :: "nat \<Rightarrow> char" where
  "digit_char d = char_of (48 + d)"

definition digit_val :: "char \<Rightarrow> nat" where
  "digit_val c = byte_of c - 48"

text \<open>\<open>/^\d+$/\<close>\<close>

definition all_digits :: "string \<Rightarrow> bool" where
  "all_digits s \<longleftrightarrow> s \<noteq> [] \<and> list_all is_digit s"

definition dec_val :: "string \<Rightarrow> nat" where
  "dec_val s = from_digits 10 (map digit_val s)"

definition nat_to_dec :: "nat \<Rightarrow> string" where
  "nat_to_dec n = map digit_char (to_digits 10 n)"

text \<open>\<open>BigInt.prototype.toString()\<close>\<close>

definition int_to_dec :: "int \<Rightarrow> string" where
  "int_to_dec i = (if i < 0 then CHR ''-'' # nat_to_dec (nat (- i)) else nat_to_dec (nat i))"

lemma digit_char_lits [text_eval]:
  "digit_char 0 = CHR ''0''" "digit_char (Suc 0) = CHR ''1''" "digit_char 1 = CHR ''1''"
  "digit_char 2 = CHR ''2''" "digit_char 3 = CHR ''3''" "digit_char 4 = CHR ''4''"
  "digit_char 5 = CHR ''5''" "digit_char 6 = CHR ''6''" "digit_char 7 = CHR ''7''"
  "digit_char 8 = CHR ''8''" "digit_char 9 = CHR ''9''"
  by (simp_all add: digit_char_def char_of_eq_iff)

lemma digit_val_char [simp, text_simps]: "d < 10 \<Longrightarrow> digit_val (digit_char d) = d"
  by (simp add: digit_val_def digit_char_def)

lemma is_digit_digit_char [simp, text_simps]: "d < 10 \<Longrightarrow> is_digit (digit_char d)"
  by (simp add: is_digit_def digit_char_def)

lemma digit_char_val [simp, text_simps]: "is_digit c \<Longrightarrow> digit_char (digit_val c) = c"
  by (simp add: is_digit_def digit_val_def digit_char_def)

lemma digit_val_less [simp, text_simps]: "is_digit c \<Longrightarrow> digit_val c < 10"
  by (auto simp: is_digit_def digit_val_def)

lemma map_digit_val_char: "(\<forall>d \<in> set ds. d < 10) \<Longrightarrow> map digit_val (map digit_char ds) = ds"
  by (induction ds) auto

lemma all_digits_nat_to_dec [simp]: "all_digits (nat_to_dec n)"
  using to_digits_bounded [of 10 _ n] by (auto simp: all_digits_def nat_to_dec_def list_all_iff)

lemma dec_val_nat_to_dec [simp]: "dec_val (nat_to_dec n) = n"
  using to_digits_bounded [of 10 _ n] map_digit_val_char [of "to_digits 10 n"]
  by (simp add: dec_val_def nat_to_dec_def)

lemma nat_to_dec_not_Nil [simp]: "nat_to_dec n \<noteq> []"
  by (simp add: nat_to_dec_def)

lemma nat_to_dec_inj: "nat_to_dec m = nat_to_dec n \<longleftrightarrow> m = n"
  by (metis dec_val_nat_to_dec)

lemma nat_to_dec_zero: "nat_to_dec 0 = ''0''"
  by (simp add: nat_to_dec_def digit_char_lits to_digits.simps)

lemma list_all_digit_nat_to_dec [simp]: "list_all is_digit (nat_to_dec n)"
  using all_digits_nat_to_dec [of n] by (simp only: all_digits_def)

lemma digit_not_special [simp, text_simps]:
  "is_digit c \<Longrightarrow> c \<noteq> CHR ''-''" "is_digit c \<Longrightarrow> c \<noteq> CHR ''+''" "is_digit c \<Longrightarrow> c \<noteq> CHR ''.''"
  "is_digit c \<Longrightarrow> c \<noteq> CHR ''x''" "is_digit c \<Longrightarrow> c \<noteq> CHR '':''"
  by (auto simp: is_digit_def)

text \<open>\<open>/^-?\d+$/\<close> and the value \<open>BigInt\<close> reads from such text.\<close>

fun signed_digits :: "string \<Rightarrow> bool" where
  "signed_digits [] = False"
| "signed_digits (c # s) = (if c = CHR ''-'' then all_digits s else all_digits (c # s))"

fun signed_val :: "string \<Rightarrow> int" where
  "signed_val [] = 0"
| "signed_val (c # s) = (if c = CHR ''-'' then - int (dec_val s) else int (dec_val (c # s)))"

lemma nat_to_dec_Cons: "\<exists>c s. nat_to_dec n = c # s \<and> is_digit c \<and> list_all is_digit s"
  using all_digits_nat_to_dec [of n] by (cases "nat_to_dec n") (auto simp: all_digits_def)

lemma signed_int_to_dec [simp]:
  "signed_digits (int_to_dec i)" "signed_val (int_to_dec i) = i"
proof -
  obtain c s where c: "nat_to_dec (nat i) = c # s" "is_digit c" "list_all is_digit s"
    using nat_to_dec_Cons by blast
  then have v: "dec_val (c # s) = nat i" by (metis dec_val_nat_to_dec)
  show "signed_digits (int_to_dec i)" using c by (auto simp: int_to_dec_def all_digits_def)
  show "signed_val (int_to_dec i) = i" using c v by (auto simp: int_to_dec_def)
qed

lemma dec_val_less: "list_all is_digit s \<Longrightarrow> dec_val s < 10 ^ length s"
  using from_digits_less [of "map digit_val s" 10] by (auto simp: dec_val_def list_all_iff)

lemma dec_val_append: "dec_val (s @ t) = dec_val s * 10 ^ length t + dec_val t"
  by (simp add: dec_val_def from_digits_append)

lemma dec_val_zeros [simp]: "dec_val (replicate n CHR ''0'') = 0"
  by (simp add: dec_val_def digit_val_def)

section \<open>Hexadecimal text\<close>

definition hex_char :: "nat \<Rightarrow> char" where
  "hex_char d = (if d < 10 then char_of (48 + d) else char_of (87 + d))"

definition hex_digit_val :: "char \<Rightarrow> nat" where
  "hex_digit_val c = (let b = byte_of c in if b \<le> 57 then b - 48 else if b \<le> 70 then b - 55 else b - 87)"

definition hex_val :: "string \<Rightarrow> nat" where
  "hex_val s = from_digits 16 (map hex_digit_val s)"

definition nat_to_hex :: "nat \<Rightarrow> string" where
  "nat_to_hex n = map hex_char (to_digits 16 n)"

definition all_hex :: "string \<Rightarrow> bool" where
  "all_hex s \<longleftrightarrow> s \<noteq> [] \<and> list_all is_hex_digit s"

lemma hex_char_lits [text_eval]:
  "hex_char 0 = CHR ''0''" "hex_char (Suc 0) = CHR ''1''" "hex_char 1 = CHR ''1''"
  "hex_char 2 = CHR ''2''" "hex_char 3 = CHR ''3''" "hex_char 4 = CHR ''4''"
  "hex_char 5 = CHR ''5''" "hex_char 6 = CHR ''6''" "hex_char 7 = CHR ''7''"
  "hex_char 8 = CHR ''8''" "hex_char 9 = CHR ''9''" "hex_char 10 = CHR ''a''"
  "hex_char 11 = CHR ''b''" "hex_char 12 = CHR ''c''" "hex_char 13 = CHR ''d''"
  "hex_char 14 = CHR ''e''" "hex_char 15 = CHR ''f''"
  by (simp_all add: hex_char_def char_of_eq_iff)

lemma hex_digit_val_char [simp, text_simps]: "d < 16 \<Longrightarrow> hex_digit_val (hex_char d) = d"
  by (simp add: hex_digit_val_def hex_char_def)

lemma is_hex_digit_char [simp, text_simps]: "d < 16 \<Longrightarrow> is_hex_digit (hex_char d)"
  by (simp add: is_hex_digit_def is_digit_def hex_char_def)

lemma to_lower_hex_char [simp, text_simps]: "d < 16 \<Longrightarrow> to_lower_char (hex_char d) = hex_char d"
  by (simp add: to_lower_char_def hex_char_def)

lemma map_hex_val_char: "(\<forall>d \<in> set ds. d < 16) \<Longrightarrow> map hex_digit_val (map hex_char ds) = ds"
  by (induction ds) auto

lemma all_hex_nat_to_hex [simp]: "all_hex (nat_to_hex n)"
  using to_digits_bounded [of 16 _ n] by (auto simp: all_hex_def nat_to_hex_def list_all_iff)

lemma hex_val_nat_to_hex [simp]: "hex_val (nat_to_hex n) = n"
  using to_digits_bounded [of 16 _ n] map_hex_val_char [of "to_digits 16 n"]
  by (simp add: hex_val_def nat_to_hex_def)

lemma to_lower_nat_to_hex [simp]: "to_lower (nat_to_hex n) = nat_to_hex n"
  using to_digits_bounded [of 16 _ n] by (auto simp: to_lower_def nat_to_hex_def)

text \<open>\<open>0x\<close> and a body; the source accepts \<open>0x\<close> only, in this spelling.\<close>

definition strip_0x :: "string \<Rightarrow> string option" where
  "strip_0x s = (if take 2 s = ''0x'' then Some (drop 2 s) else None)"

lemma strip_0x_Cons [simp]: "strip_0x (CHR ''0'' # CHR ''x'' # s) = Some s"
  by (simp add: strip_0x_def)

lemma strip_0x_Some: "strip_0x s = Some t \<longleftrightarrow> s = CHR ''0'' # CHR ''x'' # t"
  by (cases s; cases "tl s") (auto simp: strip_0x_def)

lemma is_hex_digit_lower: "is_hex_digit c \<Longrightarrow> is_hex_digit (to_lower_char c)"
  by (auto simp: is_hex_digit_def is_digit_def to_lower_char_def)

lemma hex_digit_val_lower: "is_hex_digit c \<Longrightarrow> hex_digit_val (to_lower_char c) = hex_digit_val c"
  by (auto simp: is_hex_digit_def is_digit_def to_lower_char_def hex_digit_val_def)

section \<open>Trimming\<close>

text \<open>JavaScript's white space and line terminators, as the bytes of each character.\<close>

definition is_ws1 :: "char \<Rightarrow> bool" where
  "is_ws1 a \<longleftrightarrow> byte_of a = 32 \<or> (9 \<le> byte_of a \<and> byte_of a \<le> 13)"

definition is_ws2 :: "char \<Rightarrow> char \<Rightarrow> bool" where
  "is_ws2 a b \<longleftrightarrow> byte_of a = 0xC2 \<and> byte_of b = 0xA0"

definition is_ws3 :: "char \<Rightarrow> char \<Rightarrow> char \<Rightarrow> bool" where
  "is_ws3 a b c \<longleftrightarrow>
     (byte_of a = 0xE1 \<and> byte_of b = 0x9A \<and> byte_of c = 0x80) \<or>
     (byte_of a = 0xE2 \<and> byte_of b = 0x80 \<and>
        ((0x80 \<le> byte_of c \<and> byte_of c \<le> 0x8A) \<or> byte_of c = 0xA8 \<or> byte_of c = 0xA9 \<or> byte_of c = 0xAF)) \<or>
     (byte_of a = 0xE2 \<and> byte_of b = 0x81 \<and> byte_of c = 0x9F) \<or>
     (byte_of a = 0xE3 \<and> byte_of b = 0x80 \<and> byte_of c = 0x80) \<or>
     (byte_of a = 0xEF \<and> byte_of b = 0xBB \<and> byte_of c = 0xBF)"

fun drop_ws :: "(char \<Rightarrow> char \<Rightarrow> bool) \<Rightarrow> (char \<Rightarrow> char \<Rightarrow> char \<Rightarrow> bool) \<Rightarrow> string \<Rightarrow> string" where
  "drop_ws w2 w3 (a # s) =
     (if is_ws1 a then drop_ws w2 w3 s
      else case s of
        [] \<Rightarrow> a # s
      | b # t \<Rightarrow>
          if w2 a b then drop_ws w2 w3 t
          else (case t of [] \<Rightarrow> a # s | c # u \<Rightarrow> if w3 a b c then drop_ws w2 w3 u else a # s))"
| "drop_ws w2 w3 [] = []"

text \<open>\<open>String.prototype.trim\<close>\<close>

definition trim_start :: "string \<Rightarrow> string" where
  "trim_start s = drop_ws is_ws2 is_ws3 s"

definition trim_end :: "string \<Rightarrow> string" where
  "trim_end s = rev (drop_ws (\<lambda>a b. is_ws2 b a) (\<lambda>a b c. is_ws3 c b a) (rev s))"

definition js_trim :: "string \<Rightarrow> string" where
  "js_trim s = trim_end (trim_start s)"

text \<open>Text whose first and last bytes are ASCII and not white space is its own trim.\<close>

definition plain_char :: "char \<Rightarrow> bool" where
  "plain_char c \<longleftrightarrow> 32 < byte_of c \<and> byte_of c < 127"

lemma drop_ws_plain:
  assumes "plain_char a" "\<And>x y. w2 x y \<Longrightarrow> 127 < byte_of x" "\<And>x y z. w3 x y z \<Longrightarrow> 127 < byte_of x"
  shows "drop_ws w2 w3 (a # s) = a # s"
proof -
  have "\<not> is_ws1 a" "\<not> w2 a b" "\<not> w3 a b c" for b c
    using assms(1) assms(2) [of a b] assms(3) [of a b c] by (auto simp: is_ws1_def plain_char_def)
  then show ?thesis by (auto split: list.splits)
qed

lemma js_trim_plain:
  assumes "s \<noteq> []" "plain_char (hd s)" "plain_char (last s)"
  shows "js_trim s = s"
proof -
  obtain a t where a: "s = a # t" "plain_char a" using assms by (cases s) auto
  have start: "trim_start s = s"
    unfolding trim_start_def a(1)
    by (rule drop_ws_plain [OF a(2)]) (auto simp: is_ws2_def is_ws3_def)
  obtain b u where b: "rev s = b # u" "plain_char b"
    using assms by (cases "rev s") (auto simp: hd_rev [symmetric])
  have "trim_end s = rev (rev s)"
    unfolding trim_end_def b(1)
    by (subst drop_ws_plain [OF b(2)]) (auto simp: is_ws2_def is_ws3_def)
  with start show ?thesis by (simp add: js_trim_def)
qed

lemma plain_digit [simp, text_simps]: "is_digit c \<Longrightarrow> plain_char c"
  by (simp add: is_digit_def plain_char_def)

lemma plain_hex_digit [simp, text_simps]: "is_hex_digit c \<Longrightarrow> plain_char c"
  by (auto simp: is_hex_digit_def is_digit_def plain_char_def)

section \<open>UTF-8\<close>

text \<open>\<open>/\p{Cs}/u\<close>: a lone surrogate somewhere in the text.\<close>

fun has_lone_surrogate :: "string \<Rightarrow> bool" where
  "has_lone_surrogate (a # b # s) = ((byte_of a = 0xED \<and> 0xA0 \<le> byte_of b) \<or> has_lone_surrogate (b # s))"
| "has_lone_surrogate _ = False"

text \<open>\<open>Buffer.from(text, "utf8")\<close> writes \<open>EF BF BD\<close> for each lone surrogate.\<close>

fun utf8_bytes :: "string \<Rightarrow> string" where
  "utf8_bytes (a # b # c # s) =
     (if byte_of a = 0xED \<and> 0xA0 \<le> byte_of b
      then char_of (0xEF :: nat) # char_of (0xBF :: nat) # char_of (0xBD :: nat) # utf8_bytes s
      else a # utf8_bytes (b # c # s))"
| "utf8_bytes s = s"

lemma utf8_bytes_id: "\<not> has_lone_surrogate s \<Longrightarrow> utf8_bytes s = s"
  by (induction s rule: utf8_bytes.induct) auto

text \<open>
  \<open>Buffer.toString("utf8")\<close>: well-formed sequences are kept, and each maximal part of an ill-formed
  one becomes the replacement character \<open>EF BF BD\<close>.
\<close>

definition replacement_char :: string where
  "replacement_char = [CHR 0xEF, CHR 0xBF, CHR 0xBD]"

definition is_cont :: "char \<Rightarrow> bool" where
  "is_cont c \<longleftrightarrow> 0x80 \<le> byte_of c \<and> byte_of c \<le> 0xBF"

definition second_ok :: "char \<Rightarrow> char \<Rightarrow> bool" where
  "second_ok a b \<longleftrightarrow> is_cont b \<and>
     (byte_of a = 0xE0 \<longrightarrow> 0xA0 \<le> byte_of b) \<and> (byte_of a = 0xED \<longrightarrow> byte_of b \<le> 0x9F) \<and>
     (byte_of a = 0xF0 \<longrightarrow> 0x90 \<le> byte_of b) \<and> (byte_of a = 0xF4 \<longrightarrow> byte_of b \<le> 0x8F)"

fun utf8_decode :: "string \<Rightarrow> string" where
  "utf8_decode [] = []"
| "utf8_decode (a # s) =
     (if byte_of a < 0x80 then a # utf8_decode s
      else if byte_of a < 0xC2 \<or> 0xF4 < byte_of a then replacement_char @ utf8_decode s
      else case s of
        [] \<Rightarrow> replacement_char
      | b # t \<Rightarrow>
          if \<not> second_ok a b then replacement_char @ utf8_decode s
          else if byte_of a < 0xE0 then a # b # utf8_decode t
          else (case t of
            [] \<Rightarrow> replacement_char
          | c # u \<Rightarrow>
              if \<not> is_cont c then replacement_char @ utf8_decode t
              else if byte_of a < 0xF0 then a # b # c # utf8_decode u
              else (case u of
                [] \<Rightarrow> replacement_char
              | d # v \<Rightarrow>
                  if \<not> is_cont d then replacement_char @ utf8_decode u
                  else a # b # c # d # utf8_decode v)))"

text \<open>The texts that have a UTF-8 form: those a decode gives back.\<close>

definition utf8_text :: "string \<Rightarrow> bool" where
  "utf8_text s \<longleftrightarrow> utf8_decode s = s"

lemma has_lone_surrogate_Cons:
  "has_lone_surrogate (a # s) \<longleftrightarrow>
     (byte_of a = 0xED \<and> (\<exists>b t. s = b # t \<and> 0xA0 \<le> byte_of b)) \<or> has_lone_surrogate s"
  by (cases s) auto

lemma cont_no_surrogate: "is_cont b \<Longrightarrow> has_lone_surrogate (b # s) \<longleftrightarrow> has_lone_surrogate s"
  by (auto simp: has_lone_surrogate_Cons is_cont_def)

declare utf8_decode.simps(2) [simp del]

lemma decoded_no_surrogate: "utf8_decode s = s \<Longrightarrow> \<not> has_lone_surrogate s"
proof (induction s rule: length_induct)
  case (1 s)
  have ih: "utf8_decode t = t \<Longrightarrow> length t < length s \<Longrightarrow> \<not> has_lone_surrogate t" for t
    using "1.IH" by blast
  show ?case
  proof (cases s)
    case s: (Cons a r)
    note step = "1.prems" [unfolded s utf8_decode.simps(2) [of a r] replacement_char_def]
    show ?thesis
    proof (cases "byte_of a < 0x80")
      case True
      then have "utf8_decode r = r" using step by simp
      then show ?thesis using ih [of r] s True by (simp add: has_lone_surrogate_Cons)
    next
      case ascii: False
      have lead: "\<not> (byte_of a < 0xC2 \<or> 0xF4 < byte_of a)"
        using step ascii by (auto split: if_splits)
      show ?thesis
      proof (cases r)
        case r: (Cons b t)
        note step = step [unfolded r, simplified ascii lead if_False list.case]
        have b: "second_ok a b"
          using step by (auto simp: second_ok_def is_cont_def split: if_splits)
        then have rest: "has_lone_surrogate s \<longleftrightarrow> has_lone_surrogate t"
          using s r by (auto simp: has_lone_surrogate_Cons [of a] cont_no_surrogate second_ok_def)
        note step = step [simplified b simp_thms if_False]
        show ?thesis
        proof (cases "byte_of a < 0xE0")
          case True
          then show ?thesis using step ih [of t] s r rest by simp
        next
          case three: False
          show ?thesis
          proof (cases t)
            case t: (Cons c u)
            note step = step [unfolded t, simplified three if_False list.case]
            have c: "is_cont c" using step by (auto simp: is_cont_def split: if_splits)
            note step = step [simplified c simp_thms if_False]
            show ?thesis
            proof (cases "byte_of a < 0xF0")
              case True
              then show ?thesis using step ih [of u] s r t rest c by (simp add: cont_no_surrogate)
            next
              case four: False
              show ?thesis
              proof (cases u)
                case u: (Cons d v)
                note step = step [unfolded u, simplified four if_False list.case]
                have d: "is_cont d" using step four by (auto split: if_splits)
                have "has_lone_surrogate s \<longleftrightarrow> has_lone_surrogate v"
                  unfolding rest t u by (simp only: cont_no_surrogate [OF c] cont_no_surrogate [OF d])
                moreover have "utf8_decode v = v" using step d by simp
                ultimately show ?thesis using ih [of v] s r t u by simp
              qed (use rest c t in \<open>simp add: cont_no_surrogate\<close>)
            qed
          qed (use rest in simp)
        qed
      qed (use s in simp)
    qed
  qed simp
qed

lemma utf8_text_bytes: "utf8_text s \<Longrightarrow> utf8_bytes s = s"
  by (simp add: utf8_text_def decoded_no_surrogate utf8_bytes_id)

text \<open>\<open>Buffer.compare\<close> on the UTF-8 forms.\<close>

fun compare_bytes :: "string \<Rightarrow> string \<Rightarrow> int" where
  "compare_bytes [] [] = 0"
| "compare_bytes [] (b # t) = - 1"
| "compare_bytes (a # s) [] = 1"
| "compare_bytes (a # s) (b # t) =
     (if byte_of a < byte_of b then - 1 else if byte_of b < byte_of a then 1 else compare_bytes s t)"

lemma byte_of_eq_iff [simp]: "byte_of a = byte_of b \<longleftrightarrow> a = b"
  by simp

lemma compare_bytes_zero_iff [simp]: "compare_bytes s t = 0 \<longleftrightarrow> s = t"
  by (induction s t rule: compare_bytes.induct) (auto simp: not_less_iff_gr_or_eq dest: antisym)

lemma compare_bytes_le_iff: "compare_bytes s t \<le> 0 \<longleftrightarrow> s \<le> t"
proof (induction s t rule: compare_bytes.induct)
  case (4 a s b t)
  have "byte_of a < byte_of b \<longleftrightarrow> a < b" "byte_of b < byte_of a \<longleftrightarrow> b < a"
    by (simp_all add: less_char_def)
  then show ?case using 4 by (auto simp: not_less)
qed auto

interpretation bytes_order: js_comparator compare_bytes
  by unfold_locales (auto simp: compare_bytes_le_iff)

section \<open>\<open>BigInt(text)\<close>\<close>

text \<open>
  \<open>BigInt\<close> of a string: white space around is dropped, the empty text is 0, a prefix names the
  radix, and anything else is a \<open>SyntaxError\<close> (\<open>None\<close>).
\<close>

definition is_oct_digit :: "char \<Rightarrow> bool" where
  "is_oct_digit c \<longleftrightarrow> 48 \<le> byte_of c \<and> byte_of c \<le> 55"

definition is_bin_digit :: "char \<Rightarrow> bool" where
  "is_bin_digit c \<longleftrightarrow> byte_of c = 48 \<or> byte_of c = 49"

definition radix_literal :: "string \<Rightarrow> int option" where
  "radix_literal t =
     (let p = take 2 t; body = drop 2 t in
      if body = [] then None
      else if p = ''0x'' \<or> p = ''0X'' then (if list_all is_hex_digit body then Some (int (hex_val body)) else None)
      else if p = ''0o'' \<or> p = ''0O'' then
        (if list_all is_oct_digit body then Some (int (from_digits 8 (map digit_val body))) else None)
      else if p = ''0b'' \<or> p = ''0B'' then
        (if list_all is_bin_digit body then Some (int (from_digits 2 (map digit_val body))) else None)
      else None)"

fun decimal_literal :: "string \<Rightarrow> int option" where
  "decimal_literal [] = Some 0"
| "decimal_literal (c # s) =
     (if c = CHR ''-'' then (if all_digits s then Some (- int (dec_val s)) else None)
      else if c = CHR ''+'' then (if all_digits s then Some (int (dec_val s)) else None)
      else if all_digits (c # s) then Some (int (dec_val (c # s))) else None)"

definition BigInt_of :: "string \<Rightarrow> int option" where
  "BigInt_of s =
     (let t = js_trim s in
      case decimal_literal t of Some i \<Rightarrow> Some i | None \<Rightarrow> radix_literal t)"

lemma decimal_literal_digits: "all_digits s \<Longrightarrow> decimal_literal s = Some (int (dec_val s))"
  by (cases s) (auto simp: all_digits_def)

lemma BigInt_of_dec: "BigInt_of (int_to_dec i) = Some i"
proof -
  obtain c s where c: "nat_to_dec (nat \<bar>i\<bar>) = c # s" "is_digit c" "list_all is_digit s"
    using nat_to_dec_Cons by blast
  have eq: "int_to_dec i = (if i < 0 then CHR ''-'' # c # s else c # s)"
    using c(1) by (auto simp: int_to_dec_def)
  have last: "plain_char (last (c # s))"
    using c by (cases s rule: rev_cases) auto
  have dash: "plain_char CHR ''-''" by (simp add: plain_char_def)
  have trim: "js_trim (int_to_dec i) = int_to_dec i"
    by (rule js_trim_plain) (use c last dash eq in auto)
  have v: "int (dec_val (c # s)) = \<bar>i\<bar>" by (simp flip: c(1))
  have d: "all_digits (c # s)" using c by (simp add: all_digits_def)
  have "decimal_literal (int_to_dec i) = Some i"
    using v d decimal_literal_digits [OF d] by (auto simp: eq abs_if split: if_splits)
  then show ?thesis by (simp add: BigInt_of_def trim)
qed

lemma BigInt_of_hex:
  assumes "all_hex body"
  shows "BigInt_of (CHR ''0'' # CHR ''x'' # body) = Some (int (hex_val body))"
proof -
  have body: "body \<noteq> []" "list_all is_hex_digit body" using assms by (simp_all add: all_hex_def)
  then have last: "plain_char (last body)" by (metis last_in_set list_all_iff plain_hex_digit)
  have trim: "js_trim (CHR ''0'' # CHR ''x'' # body) = CHR ''0'' # CHR ''x'' # body"
    by (rule js_trim_plain) (use body last in \<open>auto simp: plain_char_def\<close>)
  have "decimal_literal (CHR ''0'' # CHR ''x'' # body) = None"
    by (simp add: all_digits_def is_digit_def)
  then show ?thesis using body by (simp add: BigInt_of_def trim radix_literal_def)
qed

section \<open>\<open>startsWith\<close> and \<open>includes\<close>\<close>

fun starts_with :: "string \<Rightarrow> string \<Rightarrow> bool" where
  "starts_with [] s = True"
| "starts_with (c # p) [] = False"
| "starts_with (c # p) (d # s) = (c = d \<and> starts_with p s)"

fun includes_text :: "string \<Rightarrow> string \<Rightarrow> bool" where
  "includes_text p [] = starts_with p []"
| "includes_text p (c # s) = (starts_with p (c # s) \<or> includes_text p s)"

end
