(* ===== verification/EntityValues.thy ===== *)
theory EntityValues
  imports JsText
begin

text \<open>
  The attribute types and their value encodings (src/src/entityValues.ts): type ids, the stored
  form (\<open>valueText\<close> for equality, \<open>valueNum\<close> for order), the wire form of \<open>arkiv_query\<close>, and
  the conversions between them. \<open>keccak\<close> is viem's \<open>keccak256\<close>, a parameter.

  A JSON value is a \<open>jsval\<close>. A number is \<open>JInt\<close> when its value is an integer and \<open>JNonInt\<close>
  with its printed form otherwise (a fraction, \<open>NaN\<close>, an infinity); \<open>JUndef\<close> is a missing field.
\<close>

unbundle bit_operations_syntax

section \<open>JSON values\<close>

datatype jsval =
    JUndef
  | JNull
  | JBool bool
  | JInt int
  | JNonInt string
  | JStr string
  | JArr "jsval list"
  | JObj "(string \<times> jsval) list"

definition max_safe_integer :: int where
  "max_safe_integer = 2 ^ 53 - 1"

definition is_safe_integer :: "int \<Rightarrow> bool" where
  "is_safe_integer i \<longleftrightarrow> \<bar>i\<bar> \<le> max_safe_integer"

section \<open>Types\<close>

datatype attribute_type =
    TBool | TI32 | TU64 | TU256 | TDec | TBytes32 | TBytes | TStr | TAddr | TKey

fun TYPE_IDS :: "attribute_type \<Rightarrow> int" where
  "TYPE_IDS TBool = 1"
| "TYPE_IDS TI32 = 2"
| "TYPE_IDS TU64 = 3"
| "TYPE_IDS TU256 = 4"
| "TYPE_IDS TDec = 5"
| "TYPE_IDS TBytes32 = 6"
| "TYPE_IDS TBytes = 7"
| "TYPE_IDS TStr = 8"
| "TYPE_IDS TAddr = 9"
| "TYPE_IDS TKey = 10"

text \<open>The tags as the strings they are.\<close>

fun tag_name :: "attribute_type \<Rightarrow> string" where
  "tag_name TBool = ''bool''"
| "tag_name TI32 = ''i32''"
| "tag_name TU64 = ''u64''"
| "tag_name TU256 = ''u256''"
| "tag_name TDec = ''dec''"
| "tag_name TBytes32 = ''bytes32''"
| "tag_name TBytes = ''bytes''"
| "tag_name TStr = ''str''"
| "tag_name TAddr = ''addr''"
| "tag_name TKey = ''key''"

definition TOMBSTONE_TYPE_ID :: int where
  "TOMBSTONE_TYPE_ID = 0"

definition INDEXED_FLAG :: int where
  "INDEXED_FLAG = 0x80"

definition TYPE_TAGS_BY_ID :: "(int, attribute_type) jsmap" where
  "TYPE_TAGS_BY_ID =
     map (\<lambda>tag. (TYPE_IDS tag, tag)) [TBool, TI32, TU64, TU256, TDec, TBytes32, TBytes, TStr, TAddr, TKey]"

text \<open>A raw type id is a byte, so the 32-bit \<open>&\<close> of the source is the one on integers.\<close>

definition typeTagOfRawId :: "int \<Rightarrow> attribute_type option" where
  "typeTagOfRawId typeId = map_get TYPE_TAGS_BY_ID (typeId AND NOT INDEXED_FLAG)"

definition U64_MAX :: int where
  "U64_MAX = 2 ^ 64 - 1"

definition U256_MAX :: int where
  "U256_MAX = 2 ^ 256 - 1"

definition I256_MAX :: int where
  "I256_MAX = 2 ^ 255 - 1"

definition I256_MIN :: int where
  "I256_MIN = - (2 ^ 255)"

definition I32_MAX :: int where
  "I32_MAX = 2147483647"

definition I32_MIN :: int where
  "I32_MIN = - 2147483648"

definition isOrderedType :: "attribute_type \<Rightarrow> bool" where
  "isOrderedType tag \<longleftrightarrow> tag = TI32 \<or> tag = TU64 \<or> tag = TU256 \<or> tag = TDec"

section \<open>Decimals\<close>

definition DECIMAL_SCALE :: nat where
  "DECIMAL_SCALE = 18"

definition DECIMAL_UNIT :: int where
  "DECIMAL_UNIT = 10 ^ DECIMAL_SCALE"

definition pad_start :: "nat \<Rightarrow> char \<Rightarrow> string \<Rightarrow> string" where
  "pad_start n c s = replicate (n - length s) c @ s"

definition pad_end :: "nat \<Rightarrow> char \<Rightarrow> string \<Rightarrow> string" where
  "pad_end n c s = s @ replicate (n - length s) c"

text \<open>\<open>.replace(/0+$/, "")\<close>\<close>

definition strip_zeros :: "string \<Rightarrow> string" where
  "strip_zeros s = rev (dropWhile (\<lambda>c. c = CHR ''0'') (rev s))"

definition formatDecimalUnits :: "int \<Rightarrow> string" where
  "formatDecimalUnits units =
     (let negative = units < 0;
          magnitude = (if negative then - units else units);
          whole = magnitude div DECIMAL_UNIT;
          fraction = strip_zeros (pad_start DECIMAL_SCALE CHR ''0'' (int_to_dec (magnitude mod DECIMAL_UNIT)));
          sgn_text = (if negative then ''-'' else '''')
      in if fraction \<noteq> [] then sgn_text @ int_to_dec whole @ ''.'' @ fraction
         else sgn_text @ int_to_dec whole)"

text \<open>\<open>/^([+-]?)(\d+)(?:\.(\d{1,18}))?$/\<close>: whether the sign is \<open>-\<close>, the whole part, the fraction.\<close>

fun split_sign :: "string \<Rightarrow> bool \<times> string" where
  "split_sign (c # s) =
     (if c = CHR ''-'' then (True, s) else if c = CHR ''+'' then (False, s) else (False, c # s))"
| "split_sign [] = (False, [])"

definition match_decimal :: "string \<Rightarrow> (bool \<times> string \<times> string) option" where
  "match_decimal s =
     (let (negative, rest) = split_sign s;
          whole = takeWhile is_digit rest;
          after = dropWhile is_digit rest
      in if whole = [] then None
         else case after of
           [] \<Rightarrow> Some (negative, whole, [])
         | c # f \<Rightarrow>
             if c = CHR ''.'' \<and> all_digits f \<and> length f \<le> 18 then Some (negative, whole, f) else None)"

definition parseDecimalUnits :: "string \<Rightarrow> int option" where
  "parseDecimalUnits text =
     (case match_decimal (js_trim text) of
        None \<Rightarrow> None
      | Some (negative, whole, fraction) \<Rightarrow>
          let units = int (dec_val whole) * DECIMAL_UNIT + int (dec_val (pad_end DECIMAL_SCALE CHR ''0'' fraction))
          in Some (if negative then - units else units))"

definition hexQuantity :: "int \<Rightarrow> string" where
  "hexQuantity i = ''0x'' @ (if i < 0 then ''-'' @ nat_to_hex (nat (- i)) else nat_to_hex (nat i))"

definition isHexOfLength :: "string \<Rightarrow> nat \<Rightarrow> bool" where
  "isHexOfLength text digits \<longleftrightarrow>
     (case strip_0x text of None \<Rightarrow> False | Some body \<Rightarrow> length body = digits \<and> list_all is_hex_digit body)"

section \<open>Stored and wire values\<close>

record stored_value =
  valueText :: string
  valueNum :: "int option"

definition bool_text :: "bool \<Rightarrow> string" where
  "bool_text b = (if b then ''true'' else ''false'')"

fun toStoredAttributeValue :: "attribute_type \<Rightarrow> string \<Rightarrow> stored_value option" where
  "toStoredAttributeValue TBool text =
     (if text = ''true'' \<or> text = ''false'' then Some \<lparr>valueText = text, valueNum = None\<rparr> else None)"
| "toStoredAttributeValue TI32 text =
     (if \<not> signed_digits text then None
      else let v = signed_val text in
        if v < I32_MIN \<or> v > I32_MAX then None
        else Some \<lparr>valueText = int_to_dec v, valueNum = Some v\<rparr>)"
| "toStoredAttributeValue TU64 text =
     (if \<not> all_digits text then None
      else let v = int (dec_val text) in
        if v > U64_MAX then None else Some \<lparr>valueText = int_to_dec v, valueNum = Some v\<rparr>)"
| "toStoredAttributeValue TU256 text =
     (if \<not> all_digits text then None
      else let v = int (dec_val text) in
        if v > U256_MAX then None else Some \<lparr>valueText = int_to_dec v, valueNum = Some v\<rparr>)"
| "toStoredAttributeValue TDec text =
     (case parseDecimalUnits text of
        None \<Rightarrow> None
      | Some units \<Rightarrow>
          if units < I256_MIN \<or> units > I256_MAX then None
          else Some \<lparr>valueText = formatDecimalUnits units, valueNum = Some units\<rparr>)"
| "toStoredAttributeValue TStr text =
     (if has_lone_surrogate text then None else Some \<lparr>valueText = text, valueNum = None\<rparr>)"
| "toStoredAttributeValue TAddr text =
     (if isHexOfLength text 40 then Some \<lparr>valueText = to_lower text, valueNum = None\<rparr> else None)"
| "toStoredAttributeValue TKey text =
     (if isHexOfLength text 64 then Some \<lparr>valueText = to_lower text, valueNum = None\<rparr> else None)"
| "toStoredAttributeValue TBytes32 text =
     (if isHexOfLength text 64 then Some \<lparr>valueText = to_lower text, valueNum = None\<rparr> else None)"
| "toStoredAttributeValue TBytes text = None"

definition storedBytesValue :: "string \<Rightarrow> int \<Rightarrow> stored_value option" where
  "storedBytesValue keccak256 sz =
     (if \<not> isHexOfLength keccak256 64 \<or> \<not> is_safe_integer sz \<or> sz < 0 then None
      else Some \<lparr>valueText = to_lower keccak256, valueNum = Some sz\<rparr>)"

fun wireAttributeValue :: "attribute_type \<Rightarrow> stored_value \<Rightarrow> jsval" where
  "wireAttributeValue TBool stored = JBool (valueText stored = ''true'')"
| "wireAttributeValue TI32 stored = JInt (signed_val (valueText stored))"
| "wireAttributeValue TU64 stored =
     JStr (hexQuantity (case valueNum stored of Some v \<Rightarrow> v | None \<Rightarrow> signed_val (valueText stored)))"
| "wireAttributeValue TU256 stored =
     JStr (hexQuantity (case valueNum stored of Some v \<Rightarrow> v | None \<Rightarrow> signed_val (valueText stored)))"
| "wireAttributeValue TDec stored =
     JStr (case valueNum stored of None \<Rightarrow> valueText stored | Some units \<Rightarrow> formatDecimalUnits units)"
| "wireAttributeValue TStr stored = JStr (valueText stored)"
| "wireAttributeValue TAddr stored = JStr (valueText stored)"
| "wireAttributeValue TKey stored = JStr (valueText stored)"
| "wireAttributeValue TBytes32 stored = JStr (valueText stored)"
| "wireAttributeValue TBytes stored = JNull"

text \<open>\<open>/^0x[0-9a-fA-F]+$/\<close> and the number \<open>BigInt\<close> reads from it.\<close>

definition hex_literal :: "string \<Rightarrow> nat option" where
  "hex_literal s =
     (case strip_0x s of None \<Rightarrow> None | Some body \<Rightarrow> if all_hex body then Some (hex_val body) else None)"

definition from_wire_text :: "attribute_type \<Rightarrow> jsval \<Rightarrow> stored_value option" where
  "from_wire_text tag wire = (case wire of JStr s \<Rightarrow> toStoredAttributeValue tag s | _ \<Rightarrow> None)"

definition from_wire_quantity :: "attribute_type \<Rightarrow> jsval \<Rightarrow> stored_value option" where
  "from_wire_quantity tag wire =
     (case wire of
        JStr s \<Rightarrow> (case hex_literal s of None \<Rightarrow> None | Some n \<Rightarrow> toStoredAttributeValue tag (nat_to_dec n))
      | _ \<Rightarrow> None)"

fun fromWireAttributeValue :: "(string \<Rightarrow> string) \<Rightarrow> attribute_type \<Rightarrow> jsval \<Rightarrow> stored_value option" where
  "fromWireAttributeValue keccak TBool wire =
     (case wire of JBool b \<Rightarrow> toStoredAttributeValue TBool (bool_text b) | _ \<Rightarrow> None)"
| "fromWireAttributeValue keccak TI32 wire =
     (case wire of JInt i \<Rightarrow> toStoredAttributeValue TI32 (int_to_dec i) | _ \<Rightarrow> None)"
| "fromWireAttributeValue keccak TU64 wire = from_wire_quantity TU64 wire"
| "fromWireAttributeValue keccak TU256 wire = from_wire_quantity TU256 wire"
| "fromWireAttributeValue keccak TBytes wire =
     (case wire of
        JStr s \<Rightarrow>
          (case strip_0x s of
             None \<Rightarrow> None
           | Some body \<Rightarrow>
               if list_all is_hex_digit body \<and> even (length body)
               then storedBytesValue (keccak s) (int (length s - 2) div 2) else None)
      | _ \<Rightarrow> None)"
| "fromWireAttributeValue keccak tag wire = from_wire_text tag wire"

definition compareUtf8 :: "string \<Rightarrow> string \<Rightarrow> int" where
  "compareUtf8 a b = compare_bytes (utf8_bytes a) (utf8_bytes b)"

interpretation utf8_order: js_comparator compareUtf8
  by unfold_locales (auto simp: compareUtf8_def compare_bytes_le_iff)

definition bytes_hex :: "string \<Rightarrow> string" where
  "bytes_hex s = concat (map (\<lambda>c. [hex_char (byte_of c div 16), hex_char (byte_of c mod 16)]) s)"

definition byteaLiteral :: "string \<Rightarrow> string" where
  "byteaLiteral text = CHR 0x5C # CHR ''x'' # bytes_hex (utf8_bytes text)"

definition utf8Hex :: "string \<Rightarrow> string" where
  "utf8Hex text = ''0x'' @ bytes_hex (utf8_bytes text)"

text \<open>\<open>Buffer.from(hex, "hex")\<close> reads pairs of hex digits up to the first pair that is none.\<close>

fun hex_bytes :: "string \<Rightarrow> string" where
  "hex_bytes (a # b # s) =
     (if is_hex_digit a \<and> is_hex_digit b
      then char_of (16 * hex_digit_val a + hex_digit_val b) # hex_bytes s else [])"
| "hex_bytes _ = []"

definition fromUtf8Hex :: "string \<Rightarrow> string" where
  "fromUtf8Hex hex = utf8_decode (hex_bytes (drop 2 hex))"

definition bytesToText :: "string \<Rightarrow> string" where
  "bytesToText bytes = utf8_decode bytes"

section \<open>Decimals read back what was printed\<close>

lemma strip_zeros_pad: "strip_zeros s @ replicate (length s - length (strip_zeros s)) CHR ''0'' = s"
proof -
  let ?r = "rev s" and ?P = "\<lambda>c. c = CHR ''0''"
  let ?n = "length (takeWhile ?P ?r)"
  have "\<forall>c \<in> set (takeWhile ?P ?r). c = CHR ''0''" by (auto dest: set_takeWhileD)
  then have tw: "takeWhile ?P ?r = replicate ?n CHR ''0''"
    by (simp add: replicate_length_same)
  have "s = rev (takeWhile ?P ?r @ dropWhile ?P ?r)" by simp
  also have "\<dots> = strip_zeros s @ rev (takeWhile ?P ?r)"
    unfolding strip_zeros_def by (rule rev_append)
  also have "rev (takeWhile ?P ?r) = replicate ?n CHR ''0''"
    by (subst tw) (rule rev_replicate)
  finally have s: "s = strip_zeros s @ replicate ?n CHR ''0''" .
  then have "length s = length (strip_zeros s @ replicate ?n CHR ''0'')" by (rule arg_cong)
  then have "length s - length (strip_zeros s) = ?n" by simp
  with s show ?thesis by simp
qed

lemma strip_zeros_digits: "list_all is_digit s \<Longrightarrow> list_all is_digit (strip_zeros s)"
  by (auto simp: strip_zeros_def list_all_iff dest: set_dropWhileD)

lemma length_strip_zeros: "length (strip_zeros s) \<le> length s"
  by (metis length_dropWhile_le length_rev strip_zeros_def)

lemma int_to_dec_nonneg: "0 \<le> i \<Longrightarrow> int_to_dec i = nat_to_dec (nat i)"
  by (simp add: int_to_dec_def)

lemma length_dec_fraction: "0 \<le> i \<Longrightarrow> i < DECIMAL_UNIT \<Longrightarrow> length (int_to_dec i) \<le> DECIMAL_SCALE"
  using length_to_digits_le [of 10 "nat i" DECIMAL_SCALE]
  by (auto simp: int_to_dec_nonneg nat_to_dec_def DECIMAL_UNIT_def DECIMAL_SCALE_def nat_less_iff)

lemma match_decimal_whole:
  assumes "all_digits w"
  shows "match_decimal w = Some (False, w, [])"
    "match_decimal (CHR ''-'' # w) = Some (True, w, [])"
proof -
  obtain c v where w: "w = c # v" "is_digit c" using assms by (cases w) (auto simp: all_digits_def)
  have tw: "takeWhile is_digit w = w" "dropWhile is_digit w = []"
    using assms by (auto simp: all_digits_def list_all_iff)
  have "split_sign w = (False, w)" using w by auto
  then show "match_decimal w = Some (False, w, [])" using tw w(1) by (simp add: match_decimal_def)
  show "match_decimal (CHR ''-'' # w) = Some (True, w, [])" using tw w(1) by (simp add: match_decimal_def)
qed

lemma match_decimal_fraction:
  assumes "all_digits w" "all_digits f" "length f \<le> 18"
  shows "match_decimal (w @ CHR ''.'' # f) = Some (False, w, f)"
    "match_decimal (CHR ''-'' # w @ CHR ''.'' # f) = Some (True, w, f)"
proof -
  have dot: "\<not> is_digit CHR ''.''" by (simp add: is_digit_def)
  have tw: "takeWhile is_digit (w @ CHR ''.'' # f) = w" "dropWhile is_digit (w @ CHR ''.'' # f) = CHR ''.'' # f"
    using assms(1) dot by (simp_all add: all_digits_def list_all_iff)
  show "match_decimal (CHR ''-'' # w @ CHR ''.'' # f) = Some (True, w, f)"
    using assms tw by (simp add: match_decimal_def all_digits_def [of w])
  obtain c v where w: "w = c # v" "is_digit c" using assms(1) by (cases w) (auto simp: all_digits_def)
  then have "split_sign (w @ CHR ''.'' # f) = (False, w @ CHR ''.'' # f)" by auto
  then show "match_decimal (w @ CHR ''.'' # f) = Some (False, w, f)"
    using assms tw w by (simp add: match_decimal_def)
qed

text \<open>The parts of the printed form: digits, and a fraction that pads back to the remainder.\<close>

definition dec_fraction :: "int \<Rightarrow> string" where
  "dec_fraction m = strip_zeros (pad_start DECIMAL_SCALE CHR ''0'' (int_to_dec (m mod DECIMAL_UNIT)))"

lemma decimal_unit_pos [simp]: "0 < DECIMAL_UNIT"
  by (simp add: DECIMAL_UNIT_def)

lemma dec_fraction_digits: "list_all is_digit (dec_fraction m)"
  unfolding dec_fraction_def
  by (rule strip_zeros_digits) (use list_all_digit_nat_to_dec in \<open>auto simp: pad_start_def int_to_dec_nonneg list_all_iff is_digit_def [of "CHR ''0''"]\<close>)

lemma dec_fraction_pad: "0 \<le> m \<Longrightarrow>
    int (dec_val (pad_end DECIMAL_SCALE CHR ''0'' (dec_fraction m))) = m mod DECIMAL_UNIT"
proof -
  let ?p = "pad_start DECIMAL_SCALE CHR ''0'' (int_to_dec (m mod DECIMAL_UNIT))"
  have "length (int_to_dec (m mod DECIMAL_UNIT)) \<le> DECIMAL_SCALE"
    by (rule length_dec_fraction) simp_all
  then have "length ?p = DECIMAL_SCALE" by (simp add: pad_start_def)
  then have "pad_end DECIMAL_SCALE CHR ''0'' (dec_fraction m) = ?p"
    using strip_zeros_pad [of ?p] by (simp add: pad_end_def dec_fraction_def)
  then show ?thesis by (simp add: pad_start_def dec_val_append int_to_dec_nonneg)
qed

lemma dec_fraction_length: "length (dec_fraction m) \<le> 18"
proof -
  have "length (int_to_dec (m mod DECIMAL_UNIT)) \<le> DECIMAL_SCALE"
    by (rule length_dec_fraction) simp_all
  then have "length (pad_start DECIMAL_SCALE CHR ''0'' (int_to_dec (m mod DECIMAL_UNIT))) = 18"
    by (simp add: pad_start_def DECIMAL_SCALE_def)
  then show ?thesis using length_strip_zeros by (metis dec_fraction_def)
qed

lemma formatDecimalUnits_parts:
  "formatDecimalUnits u =
     (if u < 0 then ''-'' else []) @ nat_to_dec (nat (\<bar>u\<bar> div DECIMAL_UNIT)) @
     (if dec_fraction \<bar>u\<bar> = [] then [] else CHR ''.'' # dec_fraction \<bar>u\<bar>)"
  by (simp add: formatDecimalUnits_def dec_fraction_def Let_def int_to_dec_nonneg pos_imp_zdiv_nonneg_iff abs_if)

lemma plain_decimal_chars: "plain_char CHR ''-''" "plain_char CHR ''.''"
  by (simp_all add: plain_char_def)

lemma js_trim_formatDecimal: "js_trim (formatDecimalUnits u) = formatDecimalUnits u"
proof -
  obtain c s where w: "nat_to_dec (nat (\<bar>u\<bar> div DECIMAL_UNIT)) = c # s" "is_digit c" "list_all is_digit s"
    using nat_to_dec_Cons by blast
  have dig: "x \<in> set (dec_fraction \<bar>u\<bar>) \<Longrightarrow> plain_char x" for x
    using dec_fraction_digits [of "\<bar>u\<bar>"] by (simp add: list_all_iff)
  have last_s: "plain_char (last (c # s))"
    using w by (cases s rule: rev_cases) auto
  show ?thesis
    by (rule js_trim_plain)
       (use w dig last_s in \<open>auto simp: formatDecimalUnits_parts plain_decimal_chars\<close>)
qed

lemma parse_format_decimal: "parseDecimalUnits (formatDecimalUnits u) = Some u"
proof -
  let ?m = "\<bar>u\<bar>" and ?w = "nat_to_dec (nat (\<bar>u\<bar> div DECIMAL_UNIT))"
  have "match_decimal (formatDecimalUnits u) = Some (u < 0, ?w, dec_fraction ?m)"
    using match_decimal_whole [of ?w] match_decimal_fraction [of ?w "dec_fraction ?m"]
      dec_fraction_digits [of ?m] dec_fraction_length [of ?m]
    by (auto simp: formatDecimalUnits_parts all_digits_def)
  moreover have "int (dec_val ?w) * DECIMAL_UNIT
      + int (dec_val (pad_end DECIMAL_SCALE CHR ''0'' (dec_fraction ?m))) = ?m"
    unfolding dec_val_nat_to_dec by (subst dec_fraction_pad) (simp_all add: pos_imp_zdiv_nonneg_iff)
  ultimately show ?thesis
    unfolding parseDecimalUnits_def js_trim_formatDecimal by (simp add: Let_def abs_if split: if_splits)
qed

section \<open>Hex of bytes reads back\<close>

lemma hex_bytes_bytes_hex: "hex_bytes (bytes_hex s) = s"
proof (induction s)
  case Nil
  show ?case by (simp add: bytes_hex_def)
next
  case (Cons c s)
  have "byte_of c < 256" by (rule nat_of_char_less_256)
  then have lt: "byte_of c div 16 < 16" "byte_of c mod 16 < 16" by (auto intro: div_less_iff_less_mult [THEN iffD2])
  have "16 * (byte_of c div 16) + byte_of c mod 16 = byte_of c" by simp
  then show ?case using Cons lt by (simp add: bytes_hex_def)
qed

lemma from_utf8Hex: "utf8_text t \<Longrightarrow> fromUtf8Hex (utf8Hex t) = t"
  by (simp add: fromUtf8Hex_def utf8Hex_def hex_bytes_bytes_hex utf8_text_bytes)
     (simp add: utf8_text_def)

section \<open>Canonical stored values\<close>

text \<open>What a stored value of each type looks like; \<open>bytes\<close> has its own, see \<open>storedBytesValue\<close>.\<close>

fun stored_ok :: "attribute_type \<Rightarrow> stored_value \<Rightarrow> bool" where
  "stored_ok TBool v \<longleftrightarrow> valueNum v = None \<and> (valueText v = ''true'' \<or> valueText v = ''false'')"
| "stored_ok TI32 v \<longleftrightarrow> (\<exists>i. valueNum v = Some i \<and> I32_MIN \<le> i \<and> i \<le> I32_MAX \<and> valueText v = int_to_dec i)"
| "stored_ok TU64 v \<longleftrightarrow> (\<exists>i. valueNum v = Some i \<and> 0 \<le> i \<and> i \<le> U64_MAX \<and> valueText v = int_to_dec i)"
| "stored_ok TU256 v \<longleftrightarrow> (\<exists>i. valueNum v = Some i \<and> 0 \<le> i \<and> i \<le> U256_MAX \<and> valueText v = int_to_dec i)"
| "stored_ok TDec v \<longleftrightarrow>
     (\<exists>i. valueNum v = Some i \<and> I256_MIN \<le> i \<and> i \<le> I256_MAX \<and> valueText v = formatDecimalUnits i)"
| "stored_ok TStr v \<longleftrightarrow> valueNum v = None \<and> \<not> has_lone_surrogate (valueText v)"
| "stored_ok TAddr v \<longleftrightarrow>
     valueNum v = None \<and> isHexOfLength (valueText v) 40 \<and> to_lower (valueText v) = valueText v"
| "stored_ok TKey v \<longleftrightarrow>
     valueNum v = None \<and> isHexOfLength (valueText v) 64 \<and> to_lower (valueText v) = valueText v"
| "stored_ok TBytes32 v \<longleftrightarrow>
     valueNum v = None \<and> isHexOfLength (valueText v) 64 \<and> to_lower (valueText v) = valueText v"
| "stored_ok TBytes v \<longleftrightarrow>
     isHexOfLength (valueText v) 64 \<and> to_lower (valueText v) = valueText v \<and>
     (\<exists>n. valueNum v = Some n \<and> 0 \<le> n \<and> n \<le> max_safe_integer)"

lemma to_lower_0x: "to_lower (CHR ''0'' # CHR ''x'' # s) = CHR ''0'' # CHR ''x'' # to_lower s"
  by (simp add: to_lower_def to_lower_char_def)

lemma isHexOfLength_lower: "isHexOfLength t n \<Longrightarrow> isHexOfLength (to_lower t) n"
  by (auto simp: isHexOfLength_def strip_0x_Some to_lower_0x split: option.splits)
     (auto simp: to_lower_def list_all_iff is_hex_digit_lower)

lemma stored_value_eqI: "valueText v = t \<Longrightarrow> valueNum v = n \<Longrightarrow> \<lparr>valueText = t, valueNum = n\<rparr> = v"
  by simp

lemma toStored_ok: "toStoredAttributeValue tag text = Some v \<Longrightarrow> stored_ok tag v"
  by (cases tag) (auto simp: Let_def isHexOfLength_lower not_less split: if_splits option.splits)

lemma storedBytes_ok: "storedBytesValue k n = Some v \<Longrightarrow> stored_ok TBytes v"
  by (auto simp: storedBytesValue_def isHexOfLength_lower is_safe_integer_def split: if_splits)

lemma fromWire_ok: "fromWireAttributeValue keccak tag wire = Some v \<Longrightarrow> stored_ok tag v"
  by (cases tag)
     (auto simp: from_wire_quantity_def from_wire_text_def simp del: toStoredAttributeValue.simps
       split: jsval.splits option.splits if_splits dest: toStored_ok storedBytes_ok)

lemma all_digits_nonneg: "0 \<le> i \<Longrightarrow> all_digits (int_to_dec i) \<and> int (dec_val (int_to_dec i)) = i"
  by (simp add: int_to_dec_nonneg)

lemma toStored_canonical: "stored_ok tag v \<Longrightarrow> tag \<noteq> TBytes \<Longrightarrow> toStoredAttributeValue tag (valueText v) = Some v"
  by (cases tag)
     (auto simp: Let_def all_digits_nonneg parse_format_decimal not_less intro!: stored_value_eqI)

lemma hex_literal_quantity: "0 \<le> i \<Longrightarrow> hex_literal (hexQuantity i) = Some (nat i)"
  by (simp add: hex_literal_def hexQuantity_def)

lemma from_wire_quantity_hex:
  assumes "0 \<le> i" "tag = TU64 \<or> tag = TU256" "stored_ok tag v" "valueNum v = Some i"
  shows "from_wire_quantity tag (JStr (hexQuantity i)) = Some v"
proof -
  have "nat_to_dec (nat i) = valueText v" using assms by (auto simp: int_to_dec_nonneg)
  then show ?thesis using toStored_canonical [OF assms(3)] assms(1,2)
    by (auto simp: from_wire_quantity_def hex_literal_quantity simp del: toStoredAttributeValue.simps)
qed

lemma wire_roundtrip: "stored_ok tag v \<Longrightarrow> tag \<noteq> TBytes \<Longrightarrow>
    fromWireAttributeValue keccak tag (wireAttributeValue tag v) = Some v"
proof (cases tag)
  case TU64
  assume "stored_ok tag v"
  with TU64 show ?thesis by (auto simp: from_wire_quantity_hex)
next
  case TU256
  assume "stored_ok tag v"
  with TU256 show ?thesis by (auto simp: from_wire_quantity_hex)
next
  case TBool
  assume "stored_ok tag v"
  with TBool show ?thesis by (auto simp: bool_text_def intro!: stored_value_eqI)
next
  case TI32
  assume ok: "stored_ok tag v"
  then obtain i where "valueText v = int_to_dec i" using TI32 by auto
  with TI32 ok toStored_canonical [OF ok] show ?thesis by simp
next
  case TDec
  assume ok: "stored_ok tag v"
  then obtain i where i: "valueNum v = Some i" "valueText v = formatDecimalUnits i" using TDec by auto
  with TDec ok toStored_canonical [OF ok] show ?thesis by (simp add: from_wire_text_def)
qed (simp_all add: from_wire_text_def toStored_canonical del: toStoredAttributeValue.simps)

section \<open>Properties\<close>

text \<open>
  C21. The stored form of a value is canonical: what is accepted as a type is in that type's range and
  canonical spelling, and is its own stored form, so equal values have equal text.
\<close>

theorem stored_value_canonical:
  assumes "toStoredAttributeValue tag text = Some v"
  shows "stored_ok tag v \<and> toStoredAttributeValue tag (valueText v) = Some v"
proof -
  have "tag \<noteq> TBytes" using assms by auto
  then show ?thesis using toStored_ok [OF assms] toStored_canonical by blast
qed

theorem stored_value_canonical_witness:
  "toStoredAttributeValue TI32 (valueText \<lparr>valueText = ''-42'', valueNum = Some (- 42)\<rparr>) =
     Some \<lparr>valueText = ''-42'', valueNum = Some (- 42)\<rparr>"
  by (rule conjunct2 [OF stored_value_canonical [of TI32 "''-042''"]]) code_simp

text \<open>
  C22. The wire form loses nothing: a stored value of any type but bytes, whose content is not kept,
  reads back from the JSON value that \<open>arkiv_query\<close> gives for it.
\<close>

theorem wire_value_roundtrip:
  assumes "stored_ok tag v" "tag \<noteq> TBytes"
  shows "fromWireAttributeValue keccak tag (wireAttributeValue tag v) = Some v"
  by (rule wire_roundtrip [OF assms])

theorem wire_value_roundtrip_witness:
  "fromWireAttributeValue (\<lambda>_. []) TU64 (wireAttributeValue TU64 \<lparr>valueText = ''255'', valueNum = Some 255\<rparr>) =
     Some \<lparr>valueText = ''255'', valueNum = Some 255\<rparr>"
proof -
  have "stored_ok TU64 \<lparr>valueText = ''255'', valueNum = Some 255\<rparr>"
    unfolding stored_ok.simps by (intro exI [of _ 255]) code_simp
  then show ?thesis by (rule wire_value_roundtrip) simp
qed

text \<open>A decimal's printed form reads back as the same number of units, whatever its sign and size.\<close>

theorem decimal_roundtrip: "parseDecimalUnits (formatDecimalUnits units) = Some units"
  by (rule parse_format_decimal)

end
