(* ===== verification/RpcTypes.thy ===== *)
theory RpcTypes
  imports EntityValues
begin

text \<open>
  The JSON-RPC data the scanner reads (src/src/types.ts), the numbers in it (src/src/math.ts) and
  the system transactions that are left out of every statistic (src/src/transactionFilter.ts).
  A field the node may omit is an option; \<open>null\<close> and a missing field read the same here.
\<close>

type_synonym hex_text = string

record rpc_transaction =
  tx_hash :: hex_text
  tx_from :: "hex_text option"
  tx_to :: "hex_text option"
  tx_type :: "hex_text option"
  tx_nonce :: "hex_text option"
  tx_value :: "hex_text option"
  tx_gas :: "hex_text option"
  tx_gasPrice :: "hex_text option"
  tx_maxFeePerGas :: "hex_text option"
  tx_maxPriorityFeePerGas :: "hex_text option"
  tx_input :: "hex_text option"

record rpc_block =
  rb_number :: "hex_text option"
  rb_hash :: "hex_text option"
  rb_parentHash :: "hex_text option"
  rb_timestamp :: hex_text
  rb_baseFeePerGas :: "hex_text option"
  rb_gasUsed :: hex_text
  rb_gasLimit :: hex_text
  rb_transactions :: "rpc_transaction list"

record rpc_log =
  lg_address :: hex_text
  lg_topics :: "hex_text list"
  lg_data :: hex_text
  lg_logIndex :: "hex_text option"

record rpc_receipt =
  rc_transactionHash :: hex_text
  rc_gasUsed :: hex_text
  rc_cumulativeGasUsed :: "hex_text option"
  rc_effectiveGasPrice :: "hex_text option"
  rc_status :: "hex_text option"
  rc_contractAddress :: "hex_text option"
  rc_logs :: "rpc_log list option"
  rc_rentFee :: "hex_text option"

section \<open>Numbers\<close>

datatype rpc_error =
    BadNumber string                  \<comment> \<open>\<open>BigInt\<close>'s \<open>SyntaxError\<close>\<close>
  | PendingBlock
  | ReceiptCountLess nat nat
  | MissingReceipt string
  | OddHexData
  | NegativeBlockNumber

text \<open>A missing or empty quantity is 0.\<close>

definition hexToBigInt :: "hex_text option \<Rightarrow> rpc_error + int" where
  "hexToBigInt v =
     (case v of
        None \<Rightarrow> Inr 0
      | Some s \<Rightarrow> if s = [] then Inr 0 else (case BigInt_of s of Some i \<Rightarrow> Inr i | None \<Rightarrow> Inl (BadNumber s)))"

definition blockNumberToHex :: "int \<Rightarrow> rpc_error + hex_text" where
  "blockNumberToHex blockNumber =
     (if blockNumber < 0 then Inl NegativeBlockNumber else Inr (''0x'' @ nat_to_hex (nat blockNumber)))"

text \<open>\<open>bigint\<close> division truncates towards zero.\<close>

definition big_div :: "int \<Rightarrow> int \<Rightarrow> int" where
  "big_div a b = sgn a * sgn b * (\<bar>a\<bar> div \<bar>b\<bar>)"

definition big_mod :: "int \<Rightarrow> int \<Rightarrow> int" where
  "big_mod a b = a - big_div a b * b"

lemma big_div_nonneg: "0 \<le> a \<Longrightarrow> 0 \<le> b \<Longrightarrow> big_div a b = a div b"
  by (cases "a = 0"; cases "b = 0") (simp_all add: big_div_def)

lemma big_mod_nonneg: "0 \<le> a \<Longrightarrow> 0 \<le> b \<Longrightarrow> big_mod a b = a mod b"
  by (simp add: big_mod_def big_div_nonneg minus_div_mult_eq_mod)

definition average :: "int list \<Rightarrow> int" where
  "average values =
     (if values = [] then 0 else big_div (foldl (\<lambda>acc v. acc + v) 0 values) (int (length values)))"

lemma foldl_plus: "foldl (\<lambda>acc v. acc + v) a (xs :: int list) = a + sum_list xs"
  by (induction xs arbitrary: a) auto

lemma average_nonneg: "(\<forall>v \<in> set vs. 0 \<le> v) \<Longrightarrow> average vs = sum_list vs div int (length vs)"
  by (cases "vs = []") (auto simp: average_def foldl_plus big_div_nonneg sum_list_nonneg)

lemma hexToBigInt_hex: "all_hex body \<Longrightarrow> hexToBigInt (Some (CHR ''0'' # CHR ''x'' # body)) = Inr (int (hex_val body))"
  by (simp add: hexToBigInt_def BigInt_of_hex)

lemma blockNumberToHex_roundtrip: "blockNumberToHex n = Inr h \<Longrightarrow> hexToBigInt (Some h) = Inr n"
  by (auto simp: blockNumberToHex_def hexToBigInt_hex split: if_splits)

section \<open>Transactions left out\<close>

definition IGNORED_TRANSACTION_FROM_ADDRESS :: hex_text where
  "IGNORED_TRANSACTION_FROM_ADDRESS = ''0xDeaDDEaDDeAdDeAdDEAdDEaddeAddEAdDEAd0001''"

definition shouldIgnoreTransaction :: "rpc_transaction \<Rightarrow> bool" where
  "shouldIgnoreTransaction transaction =
     (map_option to_lower (tx_from transaction) = Some (to_lower IGNORED_TRANSACTION_FROM_ADDRESS))"

text \<open>\<open>new Map(receipts.map(...))\<close>: a later receipt of the same hash wins.\<close>

definition receiptsByHash :: "rpc_receipt list \<Rightarrow> (string, rpc_receipt) jsmap" where
  "receiptsByHash receipts = fold (\<lambda>r m. map_set (to_lower (rc_transactionHash r)) r m) receipts []"

lemma receiptsByHash_get:
  "map_get (receiptsByHash rs) h = Some r \<Longrightarrow> r \<in> set rs \<and> to_lower (rc_transactionHash r) = h"
proof -
  have "map_get (fold (\<lambda>r m. map_set (to_lower (rc_transactionHash r)) r m) rs m) h = Some r \<Longrightarrow>
      (r \<in> set rs \<and> to_lower (rc_transactionHash r) = h) \<or> map_get m h = Some r" for m
    by (induction rs arbitrary: m) (fastforce split: if_splits)+
  from this [of "[]"] show "map_get (receiptsByHash rs) h = Some r \<Longrightarrow>
      r \<in> set rs \<and> to_lower (rc_transactionHash r) = h"
    by (simp add: receiptsByHash_def)
qed

end
