(* ===== verification/ArkivOperations.thy ===== *)
theory ArkivOperations
  imports RpcTypes
begin

text \<open>
  Decoded registry operations (src/src/arkivOperations.ts): the attribute triples and operations as
  the decoder reports them, the strict reading of the decoder's answer, the stored form of str
  values, the expiry of a request, the schema tag, and the pairing of create operations with the
  \<open>EntityCreated\<close> logs of a receipt. The HTTP exchange with the decoder is the parameter \<open>post\<close>;
  \<open>keccak\<close> is viem's hash.
\<close>

section \<open>Data\<close>

definition ARKIV_REGISTRY_ADDRESS :: string where
  "ARKIV_REGISTRY_ADDRESS = ''0x4400000000000000000000000000000000000044''"

definition ENTITY_CREATED_TOPIC0 :: string where
  "ENTITY_CREATED_TOPIC0 = ''0xb282d7c494b8899aa8015cd07be621530beb03409eb8c5e8fdc1411ba64356a5''"

definition DECODER_FORMAT :: string where
  "DECODER_FORMAT = ''udc''"

definition SCHEMA_ATTRIBUTE_NAME :: string where
  "SCHEMA_ATTRIBUTE_NAME = ''arkiv.schema''"

definition INDEXED_TYPE_FLAG :: int where
  "INDEXED_TYPE_FLAG = 0x80"

definition CREATE_OPERATION_TYPE :: int where
  "CREATE_OPERATION_TYPE = 1"

record op_attribute =
  a_name :: string
  a_typeId :: int
  a_type :: string
  a_indexed :: bool
  a_value :: jsval
  a_size :: int
  a_keccak256 :: "string option"
  a_error :: "string option"

record arkiv_operation =
  o_opIndex :: int
  o_operationType :: int
  o_operation :: string
  o_entityKey :: "string option"
  o_salt :: "string option"
  o_creationFlags :: "int option"
  o_expiresAt :: "string option"
  o_minLifetime :: "string option"
  o_newOwner :: "string option"
  o_bytesSize :: int
  o_schemaName :: "string option"
  o_attributes :: "op_attribute list"
  o_error :: "string option"

record tx_operations =
  to_position :: nat
  to_hash :: string
  to_operations :: "arkiv_operation list"

section \<open>The stored form of str values\<close>

definition isStrValue :: "op_attribute \<Rightarrow> bool" where
  "isStrValue a \<longleftrightarrow> typeTagOfRawId (a_typeId a) = Some TStr \<and> (case a_value a of JStr _ \<Rightarrow> True | _ \<Rightarrow> False)"

definition str_of :: "jsval \<Rightarrow> string" where
  "str_of v = (case v of JStr s \<Rightarrow> s | _ \<Rightarrow> [])"

definition toStoredOperationAttributes :: "op_attribute list \<Rightarrow> op_attribute list" where
  "toStoredOperationAttributes attributes =
     map (\<lambda>a. if isStrValue a then a\<lparr>a_value := JStr (utf8Hex (str_of (a_value a)))\<rparr> else a) attributes"

definition fromStoredOperationAttributes :: "op_attribute list \<Rightarrow> op_attribute list" where
  "fromStoredOperationAttributes attributes =
     map (\<lambda>a. if isStrValue a then a\<lparr>a_value := JStr (fromUtf8Hex (str_of (a_value a)))\<rparr> else a) attributes"

section \<open>Expiry and schema\<close>

definition resolveOperationExpiry :: "int \<Rightarrow> string option \<Rightarrow> string option \<Rightarrow> string option" where
  "resolveOperationExpiry blockNumber expiresAt minLifetime =
     (case (expiresAt, minLifetime) of
        (Some e, Some l) \<Rightarrow>
          let expires = int (dec_val e);
              floor = blockNumber + int (dec_val l);
              resolved = (if expires > floor then expires else floor)
          in Some (int_to_dec (if resolved > U64_MAX then U64_MAX else resolved))
      | _ \<Rightarrow> None)"

definition is_schema_tag :: "op_attribute \<Rightarrow> bool" where
  "is_schema_tag a \<longleftrightarrow>
     a_name a = SCHEMA_ATTRIBUTE_NAME \<and> a_typeId a = (8 OR INDEXED_TYPE_FLAG) \<and>
     (case a_value a of JStr _ \<Rightarrow> True | _ \<Rightarrow> False)"

definition schemaNameOf :: "op_attribute list \<Rightarrow> string option" where
  "schemaNameOf attributes = map_option (\<lambda>a. str_of (a_value a)) (find is_schema_tag attributes)"

section \<open>Reading the decoder's answer\<close>

text \<open>Every way the answer can be outside the contract; the location of the fault rides along.\<close>

datatype contract_error =
    NotAnObject
  | WrongFormat
  | WrongFunction
  | OperationsNotArray
  | OperationNotObject nat
  | OperationLacks nat string
  | OperationField nat string
  | OperationError nat
  | AttributeNotObject nat nat
  | AttributeField nat nat string
  | IndexedMismatch nat nat
  | HoldsNul nat nat string
  | BytesWithValue nat nat
  | TripleFault nat nat

datatype decoder_error =
    RequestFailed
  | HttpStatus int
  | ContractBreak contract_error
  | MinedFault string nat

definition U128_MAX :: int where
  "U128_MAX = 2 ^ 128 - 1"

definition INT32_MAX :: int where
  "INT32_MAX = 2 ^ 31 - 1"

definition BYTES_TYPE_ID :: int where
  "BYTES_TYPE_ID = 7"

fun obj_fields :: "jsval \<Rightarrow> (string \<times> jsval) list option" where
  "obj_fields (JObj fs) = Some fs"
| "obj_fields _ = None"

definition obj_get :: "(string \<times> jsval) list \<Rightarrow> string \<Rightarrow> jsval" where
  "obj_get fs k = (case map_of fs k of None \<Rightarrow> JUndef | Some v \<Rightarrow> v)"

fun isString :: "jsval \<Rightarrow> bool" where
  "isString (JStr s) = True"
| "isString _ = False"

fun isBoolean :: "jsval \<Rightarrow> bool" where
  "isBoolean (JBool b) = True"
| "isBoolean _ = False"

fun isNonNegativeInteger :: "jsval \<Rightarrow> bool" where
  "isNonNegativeInteger (JInt i) = (is_safe_integer i \<and> 0 \<le> i)"
| "isNonNegativeInteger _ = False"

fun int_of :: "jsval \<Rightarrow> int" where
  "int_of (JInt i) = i"
| "int_of _ = 0"

definition isByte :: "jsval \<Rightarrow> bool" where
  "isByte v \<longleftrightarrow> isNonNegativeInteger v \<and> int_of v \<le> 255"

definition nullable :: "(jsval \<Rightarrow> bool) \<Rightarrow> jsval \<Rightarrow> bool" where
  "nullable check v \<longleftrightarrow> v = JNull \<or> check v"

definition isDecimalUpTo :: "int \<Rightarrow> jsval \<Rightarrow> bool" where
  "isDecimalUpTo bound v =
     (case v of JStr s \<Rightarrow> all_digits s \<and> length s \<le> 80 \<and> int (dec_val s) \<le> bound | _ \<Rightarrow> False)"

text \<open>\<open>/^0x[0-9a-f]*$/\<close>, of that many bytes.\<close>

definition is_lower_hex :: "char \<Rightarrow> bool" where
  "is_lower_hex c \<longleftrightarrow> is_digit c \<or> (97 \<le> byte_of c \<and> byte_of c \<le> 102)"

definition isHexOfBytes :: "nat \<Rightarrow> jsval \<Rightarrow> bool" where
  "isHexOfBytes bytes v =
     (case v of
        JStr s \<Rightarrow> (case strip_0x s of None \<Rightarrow> False
                  | Some body \<Rightarrow> list_all is_lower_hex body \<and> length s = 2 + bytes * 2)
      | _ \<Rightarrow> False)"

definition isFiniteNumber :: "jsval \<Rightarrow> bool" where
  "isFiniteNumber v =
     (case v of JInt _ \<Rightarrow> True | JNonInt s \<Rightarrow> s \<notin> {''NaN'', ''Infinity'', ''-Infinity''} | _ \<Rightarrow> False)"

fun opt_str :: "jsval \<Rightarrow> string option" where
  "opt_str (JStr s) = Some s"
| "opt_str _ = None"

fun opt_int :: "jsval \<Rightarrow> int option" where
  "opt_int (JInt i) = Some i"
| "opt_int _ = None"

definition has_nul :: "jsval \<Rightarrow> bool" where
  "has_nul v = (case v of JStr s \<Rightarrow> list_ex (\<lambda>c. byte_of c = 0) s | _ \<Rightarrow> False)"

text \<open>Why an unflagged triple cannot be one the node accepts; \<open>True\<close> is a fault.\<close>

definition unflaggedTripleFault :: "(string \<Rightarrow> string) \<Rightarrow> int \<Rightarrow> string \<Rightarrow> jsval \<Rightarrow> bool \<Rightarrow> jsval \<Rightarrow> bool" where
  "unflaggedTripleFault keccak typeId type value isBytes keccak256 =
     (if typeId = TOMBSTONE_TYPE_ID then \<not> (type = ''tombstone'' \<and> value = JNull)
      else case typeTagOfRawId typeId of
        None \<Rightarrow> True
      | Some tag \<Rightarrow>
          if type \<noteq> tag_name tag then True
          else if isBytes then
            (if typeId AND INDEXED_TYPE_FLAG \<noteq> 0 then True else keccak256 = JUndef)
          else (case fromWireAttributeValue keccak tag value of
                  None \<Rightarrow> True
                | Some stored \<Rightarrow> wireAttributeValue tag stored \<noteq> value))"

definition check :: "bool \<Rightarrow> 'e \<Rightarrow> 'e + unit" where
  "check ok e = (if ok then Inr () else Inl e)"

lemma check_eq_Inr [simp]: "check ok e = Inr u \<longleftrightarrow> ok"
  by (simp add: check_def)

text \<open>The first of name, type, error and (for another type than str) value that holds a NUL.\<close>

definition nul_field :: "int \<Rightarrow> jsval \<Rightarrow> jsval \<Rightarrow> jsval \<Rightarrow> jsval \<Rightarrow> string option" where
  "nul_field typeId name type error value =
     map_option fst (find (\<lambda>(_, v). has_nul v)
       ([(''name'', name), (''type'', type), (''error'', error)] @
        (if typeTagOfRawId typeId \<noteq> Some TStr then [(''value'', value)] else [])))"

definition triple_shape :: "nat \<Rightarrow> nat \<Rightarrow> (string \<times> jsval) list \<Rightarrow> contract_error + unit" where
  "triple_shape i j fs =
     bind_result (check (isString (obj_get fs ''name'')) (AttributeField i j ''name'')) (\<lambda>_.
     bind_result (check (isByte (obj_get fs ''typeId'')) (AttributeField i j ''typeId'')) (\<lambda>_.
     bind_result (check (isString (obj_get fs ''type'')) (AttributeField i j ''type'')) (\<lambda>_.
     bind_result (check (isBoolean (obj_get fs ''indexed'')) (AttributeField i j ''indexed'')) (\<lambda>_.
     bind_result (check (let v = obj_get fs ''value'' in
         v = JNull \<or> isString v \<or> isBoolean v \<or> isFiniteNumber v) (AttributeField i j ''value'')) (\<lambda>_.
     bind_result (check (isNonNegativeInteger (obj_get fs ''size'')) (AttributeField i j ''size'')) (\<lambda>_.
     bind_result (check (let k = obj_get fs ''keccak256'' in k = JUndef \<or> isHexOfBytes 32 k)
         (AttributeField i j ''keccak256'')) (\<lambda>_.
     check (let e = obj_get fs ''error'' in e = JUndef \<or> isString e) (AttributeField i j ''error''))))))))"

definition parseDecoderAttribute ::
    "(string \<Rightarrow> string) \<Rightarrow> nat \<Rightarrow> nat \<Rightarrow> jsval \<Rightarrow> contract_error + op_attribute" where
  "parseDecoderAttribute keccak i j attribute =
     (case obj_fields attribute of
        None \<Rightarrow> Inl (AttributeNotObject i j)
      | Some fs \<Rightarrow>
          bind_result (triple_shape i j fs) (\<lambda>_.
          let typeId = int_of (obj_get fs ''typeId''); value = obj_get fs ''value'';
              indexed = (obj_get fs ''indexed'' = JBool True); error = obj_get fs ''error'';
              isBytes = ((typeId AND NOT INDEXED_TYPE_FLAG) = BYTES_TYPE_ID)
          in
          bind_result (check (indexed = (typeId AND INDEXED_TYPE_FLAG \<noteq> 0)) (IndexedMismatch i j)) (\<lambda>_.
          bind_result (case nul_field typeId (obj_get fs ''name'') (obj_get fs ''type'') error value of
              None \<Rightarrow> Inr () | Some f \<Rightarrow> Inl (HoldsNul i j f)) (\<lambda>_.
          bind_result (check (\<not> (isBytes \<and> value \<noteq> JNull)) (BytesWithValue i j)) (\<lambda>_.
          bind_result (check (error \<noteq> JUndef \<or>
              \<not> unflaggedTripleFault keccak typeId (str_of (obj_get fs ''type'')) value isBytes
                  (obj_get fs ''keccak256'')) (TripleFault i j)) (\<lambda>_.
          Inr \<lparr>a_name = str_of (obj_get fs ''name''), a_typeId = typeId,
               a_type = str_of (obj_get fs ''type''), a_indexed = indexed, a_value = value,
               a_size = int_of (obj_get fs ''size''), a_keccak256 = opt_str (obj_get fs ''keccak256''),
               a_error = opt_str error\<rparr>))))))"

text \<open>One required field: present (\<open>name in operation\<close>) and of its kind.\<close>

definition field :: "nat \<Rightarrow> (string \<times> jsval) list \<Rightarrow> string \<Rightarrow> (jsval \<Rightarrow> bool) \<Rightarrow> contract_error + jsval" where
  "field i fs name ok =
     (case map_of fs name of
        None \<Rightarrow> Inl (OperationLacks i name)
      | Some v \<Rightarrow> if ok v then Inr v else Inl (OperationField i name))"

definition isArray :: "jsval \<Rightarrow> bool" where
  "isArray v = (case v of JArr _ \<Rightarrow> True | _ \<Rightarrow> False)"

definition arr_of :: "jsval \<Rightarrow> jsval list" where
  "arr_of v = (case v of JArr xs \<Rightarrow> xs | _ \<Rightarrow> [])"

text \<open>\<open>xs.map((x, index) => ...)\<close> with a callback that may throw.\<close>

definition map_index_result :: "(nat \<Rightarrow> 'a \<Rightarrow> 'e + 'b) \<Rightarrow> 'a list \<Rightarrow> 'e + 'b list" where
  "map_index_result f xs = map_result (\<lambda>(i, x). f i x) (zip [0..<length xs] xs)"

definition parseDecoderOperation ::
    "(string \<Rightarrow> string) \<Rightarrow> nat \<Rightarrow> jsval \<Rightarrow> contract_error + arkiv_operation" where
  "parseDecoderOperation keccak i operation =
     (case obj_fields operation of
        None \<Rightarrow> Inl (OperationNotObject i)
      | Some fs \<Rightarrow>
          bind_result (field i fs ''operationType'' isNonNegativeInteger) (\<lambda>operationType.
          bind_result (field i fs ''operation'' isString) (\<lambda>name.
          bind_result (field i fs ''entityKey'' (nullable (isHexOfBytes 32))) (\<lambda>entityKey.
          bind_result (field i fs ''salt'' (nullable (isDecimalUpTo U128_MAX))) (\<lambda>salt.
          bind_result (field i fs ''creationFlags'' (nullable isByte)) (\<lambda>creationFlags.
          bind_result (field i fs ''expiresAt'' (nullable (isDecimalUpTo U64_MAX))) (\<lambda>expiresAt.
          bind_result (field i fs ''minLifetime'' (nullable (isDecimalUpTo U64_MAX))) (\<lambda>minLifetime.
          bind_result (field i fs ''permanent'' (nullable isBoolean)) (\<lambda>_.
          bind_result (field i fs ''newOwner'' (nullable (isHexOfBytes 20))) (\<lambda>newOwner.
          bind_result (field i fs ''bytesSize'' (\<lambda>v. isNonNegativeInteger v \<and> int_of v \<le> INT32_MAX)) (\<lambda>bytesSize.
          bind_result (field i fs ''attributes'' isArray) (\<lambda>rawAttributes.
          bind_result (check (let e = obj_get fs ''error'' in e = JUndef \<or> isString e) (OperationError i)) (\<lambda>_.
          bind_result (map_index_result (parseDecoderAttribute keccak i) (arr_of rawAttributes)) (\<lambda>attributes.
          Inr \<lparr>o_opIndex = int i, o_operationType = int_of operationType, o_operation = str_of name,
               o_entityKey = opt_str entityKey, o_salt = opt_str salt, o_creationFlags = opt_int creationFlags,
               o_expiresAt = opt_str expiresAt, o_minLifetime = opt_str minLifetime,
               o_newOwner = opt_str newOwner, o_bytesSize = int_of bytesSize,
               o_schemaName = schemaNameOf attributes, o_attributes = attributes,
               o_error = opt_str (obj_get fs ''error'')\<rparr>))))))))))))))"

definition parseDecoderResponse :: "(string \<Rightarrow> string) \<Rightarrow> jsval \<Rightarrow> contract_error + arkiv_operation list" where
  "parseDecoderResponse keccak body =
     (case obj_fields body of
        None \<Rightarrow> Inl NotAnObject
      | Some fs \<Rightarrow>
          bind_result (check (obj_get fs ''format'' = JStr DECODER_FORMAT) WrongFormat) (\<lambda>_.
          bind_result (check (obj_get fs ''functionName'' = JStr ''execute'') WrongFunction) (\<lambda>_.
          bind_result (check (isArray (obj_get fs ''operations'')) OperationsNotArray) (\<lambda>_.
          map_index_result (parseDecoderOperation keccak) (arr_of (obj_get fs ''operations''))))))"

section \<open>The client and the block\<close>

text \<open>What \<open>fetch\<close> of \<open>/decode\<close> gives: no answer, or a status and the parsed JSON (\<open>JUndef\<close> if it is none).\<close>

datatype http_answer = NoAnswer | Answer int jsval

definition decodeCalldata ::
    "(string \<Rightarrow> string) \<Rightarrow> (string \<Rightarrow> http_answer) \<Rightarrow> string \<Rightarrow> decoder_error + arkiv_operation list option" where
  "decodeCalldata keccak post data =
     (case post data of
        NoAnswer \<Rightarrow> Inl RequestFailed
      | Answer status body \<Rightarrow>
          if status = 400 then Inr None
          else if \<not> (200 \<le> status \<and> status \<le> 299) then Inl (HttpStatus status)
          else (case parseDecoderResponse keccak body of
                  Inl e \<Rightarrow> Inl (ContractBreak e)
                | Inr ops \<Rightarrow> Inr (Some ops)))"

definition attribute_flagged :: "op_attribute \<Rightarrow> bool" where
  "attribute_flagged a \<longleftrightarrow> a_error a \<noteq> None"

text \<open>The first operation that is flagged, itself or through a triple.\<close>

definition operation_flagged :: "arkiv_operation \<Rightarrow> bool" where
  "operation_flagged oper \<longleftrightarrow> o_error oper \<noteq> None \<or> list_ex attribute_flagged (o_attributes oper)"

definition minedOperationFault :: "arkiv_operation list \<Rightarrow> nat option" where
  "minedOperationFault operations =
     map_option (\<lambda>oper. nat (o_opIndex oper)) (find operation_flagged operations)"

definition is_created_log :: "rpc_log \<Rightarrow> bool" where
  "is_created_log lg \<longleftrightarrow>
     to_lower (lg_address lg) = to_lower ARKIV_REGISTRY_ADDRESS \<and>
     (case lg_topics lg of [] \<Rightarrow> False | t # _ \<Rightarrow> to_lower t = ENTITY_CREATED_TOPIC0)"

definition createdKeys :: "rpc_receipt \<Rightarrow> string list" where
  "createdKeys receipt =
     List.map_filter (\<lambda>lg. case lg_topics lg of _ # k # _ \<Rightarrow> Some k | _ \<Rightarrow> None)
       (filter is_created_log (case rc_logs receipt of None \<Rightarrow> [] | Some ls \<Rightarrow> ls))"

definition is_create :: "arkiv_operation \<Rightarrow> bool" where
  "is_create oper \<longleftrightarrow> o_operationType oper = CREATE_OPERATION_TYPE"

text \<open>The n-th create takes the n-th key, unless it has one.\<close>

fun assign_keys :: "string list \<Rightarrow> arkiv_operation list \<Rightarrow> arkiv_operation list" where
  "assign_keys keys [] = []"
| "assign_keys keys (oper # ops) =
     (if is_create oper then
        (case keys of
           [] \<Rightarrow> oper # assign_keys [] ops
         | k # ks \<Rightarrow>
             (if o_entityKey oper = None then oper\<lparr>o_entityKey := Some (to_lower k)\<rparr> else oper) # assign_keys ks ops)
      else oper # assign_keys keys ops)"

definition fillCreateEntityKeys :: "arkiv_operation list \<Rightarrow> rpc_receipt option \<Rightarrow> arkiv_operation list" where
  "fillCreateEntityKeys operations receipt =
     (let creates = filter is_create operations in
      case receipt of
        None \<Rightarrow> operations
      | Some r \<Rightarrow>
          if creates = [] then operations
          else if length (createdKeys r) \<noteq> length creates then operations
          else assign_keys (createdKeys r) operations)"

definition bind_status :: "rpc_receipt option \<Rightarrow> string option" where
  "bind_status receipt = Option.bind receipt rc_status"

text \<open>One transaction of the block: skipped, or decoded, checked against its receipt and completed.\<close>

definition decode_transaction ::
    "(string \<Rightarrow> string) \<Rightarrow> (string \<Rightarrow> http_answer) \<Rightarrow> (string, rpc_receipt) jsmap \<Rightarrow>
      nat \<Rightarrow> rpc_transaction \<Rightarrow> decoder_error + tx_operations option" where
  "decode_transaction keccak post receipts position tx =
     (if shouldIgnoreTransaction tx then Inr None
      else if tx_to tx = None \<or> tx_to tx = Some [] \<or>
        map_option to_lower (tx_to tx) \<noteq> Some (to_lower ARKIV_REGISTRY_ADDRESS) then Inr None
      else case tx_input tx of
        None \<Rightarrow> Inr None
      | Some input \<Rightarrow>
          if input = [] \<or> input = ''0x'' then Inr None
          else bind_result (decodeCalldata keccak post input) (\<lambda>decoded.
            case decoded of
              None \<Rightarrow> Inr None
            | Some operations \<Rightarrow>
                if operations = [] then Inr None
                else
                  let receipt = map_get receipts (to_lower (tx_hash tx));
                      fault = (if bind_status receipt = Some ''0x1'' then minedOperationFault operations else None)
                  in case fault of
                       Some opIndex \<Rightarrow> Inl (MinedFault (tx_hash tx) opIndex)
                     | None \<Rightarrow> Inr (Some \<lparr>to_position = position, to_hash = tx_hash tx,
                         to_operations = fillCreateEntityKeys operations receipt\<rparr>)))"

definition decodeBlockArkivOperations ::
    "(string \<Rightarrow> string) \<Rightarrow> (string \<Rightarrow> http_answer) \<Rightarrow> rpc_block \<Rightarrow> rpc_receipt list \<Rightarrow>
      decoder_error + tx_operations list" where
  "decodeBlockArkivOperations keccak post blk receipts =
     bind_result
       (map_index_result (decode_transaction keccak post (receiptsByHash receipts)) (rb_transactions blk))
       (\<lambda>rs. Inr (List.map_filter (\<lambda>r. r) rs))"

end
