(* ===== verification/EntityIndex.thy ===== *)
theory EntityIndex
  imports ArkivOperations
begin

text \<open>
  Folding an entity's applied operations into the versions it went through, and pairing the
  operations of a transaction with the events of its receipt (src/src/entityIndex.ts).
  \<open>current\<close> of the source is always the version pushed last, so it is the last element of the list.
\<close>

section \<open>Data\<close>

definition OPERATION_CREATE :: int where
  "OPERATION_CREATE = 1"

definition OPERATION_PATCH :: int where
  "OPERATION_PATCH = 2"

definition OPERATION_EXTEND :: int where
  "OPERATION_EXTEND = 3"

definition OPERATION_TRANSFER :: int where
  "OPERATION_TRANSFER = 4"

definition OPERATION_DELETE :: int where
  "OPERATION_DELETE = 5"

lemmas operation_codes =
  OPERATION_CREATE_def OPERATION_PATCH_def OPERATION_EXTEND_def OPERATION_TRANSFER_def OPERATION_DELETE_def

record entity_op_event =
  ev_expiresAt :: "int option"
  ev_creationFlags :: "int option"
  ev_newOwner :: "string option"

record entity_op =
  r_blockNumber :: int
  r_position :: int
  r_opIndex :: int
  r_operationType :: int
  r_entityKey :: string
  r_sender :: string
  r_creationFlags :: "int option"
  r_attributes :: "op_attribute list"
  r_expiresAt :: "int option"
  r_minLifetime :: "int option"
  r_newOwner :: "string option"
  r_event :: "entity_op_event option"

record stored_attribute =
  sa_name :: string
  sa_typeId :: int
  sa_indexed :: bool
  sa_value :: stored_value

record entity_version =
  v_entityKey :: string
  v_version :: int
  v_fromBlock :: int
  v_fromPosition :: int
  v_fromOpIndex :: int
  v_toBlock :: "int option"
  v_deleted :: bool
  v_owner :: string
  v_creator :: string
  v_createdAt :: int
  v_createdPosition :: int
  v_createdOpIndex :: int
  v_updatedAt :: int
  v_expiresAt :: int
  v_creationFlags :: "int option"
  v_bytesSize :: int
  v_schemaName :: "string option"
  v_attributes :: "stored_attribute list"

datatype fold_error =
    DecoderErrorOn entity_op string
  | DoesNotRead entity_op string
  | WordExceeds int

section \<open>Expiry, order, attributes\<close>

definition PERMANENT_EXPIRY :: int where
  "PERMANENT_EXPIRY = U64_MAX"

definition resolveRequestedExpiry :: "int \<Rightarrow> int \<Rightarrow> int \<Rightarrow> int" where
  "resolveRequestedExpiry blockNumber expiresAt minLifetime =
     (let floor = blockNumber + minLifetime;
          resolved = (if expiresAt > floor then expiresAt else floor)
      in if resolved > U64_MAX then U64_MAX else resolved)"

definition or_zero :: "int option \<Rightarrow> int" where
  "or_zero x = (case x of None \<Rightarrow> 0 | Some i \<Rightarrow> i)"

definition resolveExpiry :: "entity_op \<Rightarrow> int" where
  "resolveExpiry oper =
     (case Option.bind (r_event oper) ev_expiresAt of
        Some e \<Rightarrow> e
      | None \<Rightarrow> resolveRequestedExpiry (r_blockNumber oper) (or_zero (r_expiresAt oper)) (or_zero (r_minLifetime oper)))"

definition compareOps :: "entity_op \<Rightarrow> entity_op \<Rightarrow> int" where
  "compareOps a b =
     (if r_blockNumber a \<noteq> r_blockNumber b then r_blockNumber a - r_blockNumber b
      else if r_position a \<noteq> r_position b then r_position a - r_position b
      else r_opIndex a - r_opIndex b)"

interpretation ops_order: js_comparator compareOps
  by unfold_locales (auto simp: compareOps_def split: if_splits)

definition compare_names :: "stored_attribute \<Rightarrow> stored_attribute \<Rightarrow> int" where
  "compare_names a b = compareUtf8 (sa_name a) (sa_name b)"

interpretation names_order: js_comparator compare_names
  by unfold_locales (auto simp: compare_names_def compareUtf8_def compare_bytes_le_iff)

type_synonym attribute_map = "(string, stored_attribute) jsmap"

definition sortedAttributes :: "attribute_map \<Rightarrow> stored_attribute list" where
  "sortedAttributes byName = js_sort compare_names (map snd byName)"

definition summary_step :: "stored_attribute \<Rightarrow> int \<times> string option \<Rightarrow> int \<times> string option" where
  "summary_step a acc =
     (fst acc + (if sa_typeId a = TYPE_IDS TBytes then or_zero (valueNum (sa_value a)) else 0),
      if sa_name a = SCHEMA_ATTRIBUTE_NAME \<and> sa_typeId a = TYPE_IDS TStr \<and> sa_indexed a
      then Some (valueText (sa_value a)) else snd acc)"

definition summarizeAttributes :: "stored_attribute list \<Rightarrow> int \<times> string option" where
  "summarizeAttributes attributes = fold summary_step attributes (0, None)"

definition storedAttributeOf :: "(string \<Rightarrow> string) \<Rightarrow> op_attribute \<Rightarrow> stored_attribute option" where
  "storedAttributeOf keccak cell =
     (if a_error cell \<noteq> None \<or> a_typeId cell = TOMBSTONE_TYPE_ID then None
      else case typeTagOfRawId (a_typeId cell) of
        None \<Rightarrow> None
      | Some tag \<Rightarrow>
          let indexed = (a_typeId cell AND INDEXED_FLAG \<noteq> 0) in
          if tag = TBytes then
            (if indexed then None
             else case a_keccak256 cell of
               None \<Rightarrow> None
             | Some k \<Rightarrow> map_option (\<lambda>v. \<lparr>sa_name = a_name cell, sa_typeId = TYPE_IDS TBytes,
                 sa_indexed = False, sa_value = v\<rparr>) (storedBytesValue k (a_size cell)))
          else map_option (\<lambda>v. \<lparr>sa_name = a_name cell, sa_typeId = TYPE_IDS tag,
                 sa_indexed = indexed, sa_value = v\<rparr>) (fromWireAttributeValue keccak tag (a_value cell)))"

definition apply_attribute ::
    "(string \<Rightarrow> string) \<Rightarrow> entity_op \<Rightarrow> op_attribute \<Rightarrow> attribute_map \<Rightarrow> fold_error + attribute_map" where
  "apply_attribute keccak oper cell byName =
     (if a_error cell \<noteq> None then Inl (DecoderErrorOn oper (a_name cell))
      else if a_typeId cell = TOMBSTONE_TYPE_ID then Inr (map_delete (a_name cell) byName)
      else case storedAttributeOf keccak cell of
        None \<Rightarrow> Inl (DoesNotRead oper (a_name cell))
      | Some stored \<Rightarrow> Inr (map_set (a_name cell) stored byName))"

definition applyAttributes ::
    "(string \<Rightarrow> string) \<Rightarrow> attribute_map \<Rightarrow> entity_op \<Rightarrow> fold_error + attribute_map" where
  "applyAttributes keccak byName oper = fold_result (apply_attribute keccak oper) (r_attributes oper) byName"

definition withAttributes :: "entity_version \<Rightarrow> stored_attribute list \<Rightarrow> entity_version" where
  "withAttributes version attributes =
     version\<lparr>v_bytesSize := fst (summarizeAttributes attributes),
             v_schemaName := snd (summarizeAttributes attributes),
             v_attributes := attributes\<rparr>"

section \<open>The fold\<close>

record fold_state =
  fs_versions :: "entity_version list"
  fs_attributes :: attribute_map

definition current :: "fold_state \<Rightarrow> entity_version option" where
  "current st = (if fs_versions st = [] then None else Some (last (fs_versions st)))"

text \<open>\<open>push\<close>: the version before ends where the new one starts.\<close>

definition push_version :: "entity_version list \<Rightarrow> entity_version \<Rightarrow> entity_version list" where
  "push_version versions nxt =
     (if versions = [] then [nxt]
      else butlast versions @ [(last versions)\<lparr>v_toBlock := Some (v_fromBlock nxt)\<rparr>, nxt])"

definition push :: "fold_state \<Rightarrow> attribute_map \<Rightarrow> entity_version \<Rightarrow> fold_state" where
  "push st attrs nxt = \<lparr>fs_versions = push_version (fs_versions st) nxt, fs_attributes = attrs\<rparr>"

definition created_version :: "string \<Rightarrow> entity_op \<Rightarrow> entity_version" where
  "created_version entityKey oper =
     \<lparr>v_entityKey = entityKey, v_version = 0, v_fromBlock = r_blockNumber oper,
      v_fromPosition = r_position oper, v_fromOpIndex = r_opIndex oper, v_toBlock = None,
      v_deleted = False, v_owner = r_sender oper, v_creator = r_sender oper,
      v_createdAt = r_blockNumber oper, v_createdPosition = r_position oper,
      v_createdOpIndex = r_opIndex oper, v_updatedAt = r_blockNumber oper,
      v_expiresAt = resolveExpiry oper,
      v_creationFlags = (case Option.bind (r_event oper) ev_creationFlags of
                           Some f \<Rightarrow> Some f | None \<Rightarrow> r_creationFlags oper),
      v_bytesSize = 0, v_schemaName = None, v_attributes = []\<rparr>"

text \<open>The \<open>base\<close> of the loop body: the current version moved on to the operation.\<close>

definition next_version :: "entity_version \<Rightarrow> entity_op \<Rightarrow> entity_version" where
  "next_version cur oper =
     cur\<lparr>v_version := v_version cur + 1, v_fromBlock := r_blockNumber oper,
         v_fromPosition := r_position oper, v_fromOpIndex := r_opIndex oper,
         v_toBlock := None, v_updatedAt := r_blockNumber oper\<rparr>"

definition new_owner_of :: "entity_op \<Rightarrow> string option" where
  "new_owner_of oper =
     (case Option.bind (r_event oper) ev_newOwner of
        Some w \<Rightarrow> Some w | None \<Rightarrow> map_option to_lower (r_newOwner oper))"

definition fold_step ::
    "(string \<Rightarrow> string) \<Rightarrow> string \<Rightarrow> entity_op \<Rightarrow> fold_state \<Rightarrow> fold_error + fold_state" where
  "fold_step keccak entityKey oper st =
     (case current st of
        None \<Rightarrow>
          if r_operationType oper \<noteq> OPERATION_CREATE then Inr st
          else bind_result (applyAttributes keccak [] oper) (\<lambda>attrs.
            Inr (push st attrs (withAttributes (created_version entityKey oper) (sortedAttributes attrs))))
      | Some cur \<Rightarrow>
          if v_deleted cur then Inr st
          else let nxt = next_version cur oper in
            if r_operationType oper = OPERATION_PATCH then
              bind_result (applyAttributes keccak (fs_attributes st) oper) (\<lambda>attrs.
                Inr (push st attrs (withAttributes nxt (sortedAttributes attrs))))
            else if r_operationType oper = OPERATION_EXTEND then
              Inr (push st (fs_attributes st) (nxt\<lparr>v_expiresAt := resolveExpiry oper\<rparr>))
            else if r_operationType oper = OPERATION_TRANSFER then
              (case new_owner_of oper of
                 None \<Rightarrow> Inr st
               | Some w \<Rightarrow> if w = [] then Inr st else Inr (push st (fs_attributes st) (nxt\<lparr>v_owner := w\<rparr>)))
            else if r_operationType oper = OPERATION_DELETE then
              Inr (push st (fs_attributes st) (nxt\<lparr>v_deleted := True\<rparr>))
            else Inr st)"

text \<open>The genesis state of a seeded entity is version 0.\<close>

definition base_attributes :: "entity_version \<Rightarrow> attribute_map" where
  "base_attributes bas = fold (\<lambda>a m. map_set (sa_name a) a m) (v_attributes bas) []"

definition fold_start :: "entity_version option \<Rightarrow> fold_state" where
  "fold_start base =
     (case base of
        None \<Rightarrow> \<lparr>fs_versions = [], fs_attributes = []\<rparr>
      | Some bas \<Rightarrow>
          push \<lparr>fs_versions = [], fs_attributes = []\<rparr> (base_attributes bas)
            (withAttributes (bas\<lparr>v_toBlock := None, v_deleted := False\<rparr>) (sortedAttributes (base_attributes bas))))"

definition foldEntityVersions ::
    "(string \<Rightarrow> string) \<Rightarrow> string \<Rightarrow> entity_op list \<Rightarrow> entity_version option \<Rightarrow> fold_error + entity_version list" where
  "foldEntityVersions keccak entityKey records base =
     bind_result (fold_result (fold_step keccak entityKey) (js_sort compareOps records) (fold_start base))
       (\<lambda>st. Inr (fs_versions st))"

section \<open>Receipt logs to per-operation events\<close>

definition ENTITY_EVENT_TOPICS_created :: string where
  "ENTITY_EVENT_TOPICS_created = ''0xb282d7c494b8899aa8015cd07be621530beb03409eb8c5e8fdc1411ba64356a5''"

definition ENTITY_EVENT_TOPICS_patched :: string where
  "ENTITY_EVENT_TOPICS_patched = ''0xe986ee220b2d7947a009d9389d8400b2ac82d3b430a9f72700a0975d3d5a34fe''"

definition ENTITY_EVENT_TOPICS_expiryExtended :: string where
  "ENTITY_EVENT_TOPICS_expiryExtended = ''0x10dc3526654c9ba4e2370b1bfcbc0de087d141a5694b3d3305d37df7e6705d4b''"

definition ENTITY_EVENT_TOPICS_ownershipTransferred :: string where
  "ENTITY_EVENT_TOPICS_ownershipTransferred =
     ''0x0b659dccc8eb950324170e8d9598af5ee04ee070883eb28651a96788721fbf83''"

definition ENTITY_EVENT_TOPICS_deleted :: string where
  "ENTITY_EVENT_TOPICS_deleted = ''0x4059b76c47e1ecc40ba88e649b654f716515eb358c3ce83c803820e3b3130cc3''"

definition EVENT_TOPIC_FOR_OPERATION :: "int \<Rightarrow> string option" where
  "EVENT_TOPIC_FOR_OPERATION operationType =
     map_of [(OPERATION_CREATE, ENTITY_EVENT_TOPICS_created),
             (OPERATION_PATCH, ENTITY_EVENT_TOPICS_patched),
             (OPERATION_EXTEND, ENTITY_EVENT_TOPICS_expiryExtended),
             (OPERATION_TRANSFER, ENTITY_EVENT_TOPICS_ownershipTransferred),
             (OPERATION_DELETE, ENTITY_EVENT_TOPICS_deleted)] operationType"

record event_log =
  el_logIndex :: int
  el_address :: string
  el_topic0 :: "string option"
  el_topic1 :: "string option"
  el_topic2 :: "string option"
  el_topic3 :: "string option"
  el_data :: string

definition wordAt :: "string \<Rightarrow> nat \<Rightarrow> int option" where
  "wordAt dat index =
     (let hex = (case strip_0x dat of Some b \<Rightarrow> b | None \<Rightarrow> dat);
          word = take 64 (drop (index * 64) hex)
      in if length word \<noteq> 64 \<or> \<not> list_all is_hex_digit word then None else Some (int (hex_val word)))"

definition boundedWord :: "event_log \<Rightarrow> nat \<Rightarrow> int \<Rightarrow> fold_error + int option" where
  "boundedWord lg index bound =
     (let value = wordAt (el_data lg) index in
      case value of
        Some w \<Rightarrow> if w > bound then Inl (WordExceeds (el_logIndex lg)) else Inr value
      | None \<Rightarrow> Inr value)"

definition empty_event :: entity_op_event where
  "empty_event = \<lparr>ev_expiresAt = None, ev_creationFlags = None, ev_newOwner = None\<rparr>"

definition last_n :: "nat \<Rightarrow> string \<Rightarrow> string" where
  "last_n n s = drop (length s - n) s"

definition decodeEvent :: "string \<Rightarrow> event_log \<Rightarrow> fold_error + entity_op_event option" where
  "decodeEvent topic0 lg =
     (if topic0 = ENTITY_EVENT_TOPICS_created then
        bind_result (boundedWord lg 0 U64_MAX) (\<lambda>expiresAt.
        bind_result (boundedWord lg 1 0xff) (\<lambda>flags.
        case expiresAt of
          None \<Rightarrow> Inr None
        | Some e \<Rightarrow> Inr (Some (empty_event\<lparr>ev_expiresAt := Some e, ev_creationFlags := flags\<rparr>))))
      else if topic0 = ENTITY_EVENT_TOPICS_expiryExtended then
        bind_result (boundedWord lg 0 U64_MAX) (\<lambda>expiresAt.
        case expiresAt of
          None \<Rightarrow> Inr None
        | Some e \<Rightarrow> Inr (Some (empty_event\<lparr>ev_expiresAt := Some e\<rparr>)))
      else if topic0 = ENTITY_EVENT_TOPICS_ownershipTransferred then
        (case map_option to_lower (el_topic3 lg) of
           None \<Rightarrow> Inr None
         | Some topic \<Rightarrow>
             if length topic \<noteq> 66 then Inr None
             else Inr (Some (empty_event\<lparr>ev_newOwner := Some (''0x'' @ last_n 40 topic)\<rparr>)))
      else Inr (Some empty_event))"

definition compare_logs :: "event_log \<Rightarrow> event_log \<Rightarrow> int" where
  "compare_logs a b = el_logIndex a - el_logIndex b"

type_synonym event_queues = "(string, event_log list) jsmap"

definition queue_log :: "event_log \<Rightarrow> event_queues \<Rightarrow> event_queues" where
  "queue_log lg queues =
     (case el_topic0 lg of
        None \<Rightarrow> queues
      | Some t \<Rightarrow>
          if to_lower (el_address lg) \<noteq> ARKIV_REGISTRY_ADDRESS \<or> t = [] then queues
          else let topic0 = to_lower t in
            case map_get queues topic0 of
              Some queue \<Rightarrow> map_set topic0 (queue @ [lg]) queues
            | None \<Rightarrow> map_set topic0 [lg] queues)"

definition event_queues :: "event_log list \<Rightarrow> event_queues" where
  "event_queues logs = fold queue_log (js_sort compare_logs logs) []"

text \<open>One operation of the walk; \<open>ops\<close> is the caller's array, written at the operation's index.\<close>

definition attach_step ::
    "nat \<times> entity_op \<Rightarrow> event_queues \<times> entity_op list \<Rightarrow> fold_error + event_queues \<times> entity_op list" where
  "attach_step iop st =
     (let (i, oper) = iop; (queues, ops) = st in
      case EVENT_TOPIC_FOR_OPERATION (r_operationType oper) of
        None \<Rightarrow> Inr st
      | Some topic0 \<Rightarrow>
          (case map_get queues topic0 of
             None \<Rightarrow> Inr st
           | Some [] \<Rightarrow> Inr st
           | Some (lg # rest) \<Rightarrow>
               let queues' = map_set topic0 rest queues in
               if map_option to_lower (el_topic1 lg) \<noteq> Some (to_lower (r_entityKey oper)) then Inr (queues', ops)
               else bind_result (decodeEvent topic0 lg) (\<lambda>event.
                 case event of
                   None \<Rightarrow> Inr (queues', ops)
                 | Some ev \<Rightarrow> Inr (queues', ops[i := oper\<lparr>r_event := Some ev\<rparr>]))))"

definition attachEventsToOps :: "entity_op list \<Rightarrow> event_log list \<Rightarrow> fold_error + entity_op list" where
  "attachEventsToOps ops logs =
     bind_result
       (fold_result attach_step
         (js_sort (\<lambda>a b. compareOps (snd a) (snd b)) (zip [0..<length ops] ops)) (event_queues logs, ops))
       (\<lambda>st. Inr (snd st))"

end
