(* ===== verification/EntityHistory.thy ===== *)
theory EntityHistory
  imports EntityIndex
begin

text \<open>
  What the fold of \<open>EntityIndex\<close> guarantees: the versions of an entity form one gapless chain, every
  version holds its attributes sorted, typed and without duplicates, the order the records arrive in
  does not matter, and the version valid at a block is the state the engine's rules (the header of
  src/src/entityIndex.ts) give after the operations up to that block. The engine's rules are written
  here as a small abstract machine over partial maps.
\<close>

named_theorems fold_defs \<comment> \<open>one step of the fold\<close>

section \<open>The chain of versions\<close>

definition op_position :: "entity_op \<Rightarrow> int \<times> int \<times> int" where
  "op_position oper = (r_blockNumber oper, r_position oper, r_opIndex oper)"

definition starts_before :: "entity_version \<Rightarrow> entity_op \<Rightarrow> bool" where
  "starts_before v oper \<longleftrightarrow>
     v_fromBlock v < r_blockNumber oper \<or>
     (v_fromBlock v = r_blockNumber oper \<and>
       (v_fromPosition v < r_position oper \<or>
         (v_fromPosition v = r_position oper \<and> v_fromOpIndex v \<le> r_opIndex oper)))"

text \<open>What never changes from one version to the next, and how the next one follows.\<close>

definition succeeds :: "entity_version \<Rightarrow> entity_version \<Rightarrow> bool" where
  "succeeds v w \<longleftrightarrow>
     v_version w = v_version v + 1 \<and> \<not> v_deleted v \<and> v_entityKey w = v_entityKey v \<and>
     v_creator w = v_creator v \<and> v_createdAt w = v_createdAt v \<and>
     v_createdPosition w = v_createdPosition v \<and> v_createdOpIndex w = v_createdOpIndex v \<and>
     v_creationFlags w = v_creationFlags v \<and> v_updatedAt w = v_fromBlock w \<and>
     v_fromBlock v \<le> v_fromBlock w"

fun linked :: "entity_version list \<Rightarrow> bool" where
  "linked [] = True"
| "linked [v] = (v_toBlock v = None)"
| "linked (v # w # vs) = (v_toBlock v = Some (v_fromBlock w) \<and> succeeds v w \<and> linked (w # vs))"

lemma succeeds_toBlock [simp]: "succeeds (v\<lparr>v_toBlock := t\<rparr>) w = succeeds v w"
  "succeeds v (w\<lparr>v_toBlock := t\<rparr>) = succeeds v w"
  by (simp_all add: succeeds_def)

lemma push_version_not_Nil [simp]: "push_version vs w \<noteq> []"
  by (simp add: push_version_def)

lemma last_push_version [simp]: "last (push_version vs w) = w"
  by (simp add: push_version_def)

lemma push_version_Cons: "push_version (v # u # vs) w = v # push_version (u # vs) w"
  by (simp add: push_version_def)

lemma linked_push:
  "linked vs \<Longrightarrow> v_toBlock w = None \<Longrightarrow> (vs \<noteq> [] \<Longrightarrow> succeeds (last vs) w) \<Longrightarrow> linked (push_version vs w)"
proof (induction vs rule: linked.induct)
  case (3 v u vs)
  have "linked (push_version (u # vs) w)" using 3 by simp
  moreover obtain x xs where x: "push_version (u # vs) w = x # xs" "v_fromBlock x = v_fromBlock u"
      "succeeds v x = succeeds v u"
    by (cases vs) (auto simp: push_version_def)
  ultimately show ?case using "3.prems" by (simp add: push_version_Cons)
qed (simp_all add: push_version_def)

text \<open>The versions of one entity have different numbers, and at most one is valid at a block.\<close>

lemma linked_versions:
  assumes "linked vs" "i < j" "j < length vs"
  shows "v_version (vs ! i) < v_version (vs ! j)"
  using assms
proof (induction vs arbitrary: i j rule: linked.induct)
  case (3 v u vs)
  have next_one: "v_version v < v_version u" using 3(2) by (simp add: succeeds_def)
  have rest: "linked (u # vs)" using 3(2) by simp
  show ?case
  proof (cases i)
    case 0
    then obtain j' where j: "j = Suc j'" using 3(3) by (cases j) auto
    show ?thesis
    proof (cases j')
      case 0
      then show ?thesis using next_one j \<open>i = 0\<close> by simp
    next
      case (Suc j'')
      then have "v_version ((u # vs) ! 0) < v_version ((u # vs) ! j')" using 3 j by (intro "3.IH") auto
      then show ?thesis using next_one j \<open>i = 0\<close> by simp
    qed
  next
    case (Suc i')
    then obtain j' where "j = Suc j'" "i' < j'" using 3(3) by (cases j) auto
    then show ?thesis using "3.IH" [of i' j'] rest 3(4) Suc by simp
  qed
qed auto

lemma linked_distinct: "linked vs \<Longrightarrow> distinct (map v_version vs)"
  unfolding distinct_conv_nth using linked_versions by (metis length_map less_irrefl linorder_neqE_nat nth_map)

lemma linked_starts: "linked (v # vs) \<Longrightarrow> u \<in> set vs \<Longrightarrow> \<exists>t. v_toBlock v = Some t \<and> t \<le> v_fromBlock u"
proof (induction vs arbitrary: v)
  case (Cons w vs)
  then have step: "v_toBlock v = Some (v_fromBlock w)" "linked (w # vs)" by simp_all
  show ?case
  proof (cases "u = w")
    case False
    then obtain x where x: "v_toBlock w = Some x" "x \<le> v_fromBlock u" using Cons step(2) by auto
    moreover obtain y ys where "vs = y # ys" using False Cons.prems(2) by (cases vs) auto
    ultimately show ?thesis using step by (auto simp: succeeds_def)
  qed (use step in simp)
qed simp

lemma linked_last_open: "linked vs \<Longrightarrow> vs \<noteq> [] \<Longrightarrow> v_toBlock (last vs) = None"
  by (induction vs rule: linked.induct) auto

lemma linked_nth:
  "linked vs \<Longrightarrow> Suc i < length vs \<Longrightarrow>
    v_toBlock (vs ! i) = Some (v_fromBlock (vs ! Suc i)) \<and> succeeds (vs ! i) (vs ! Suc i)"
proof (induction vs arbitrary: i rule: linked.induct)
  case (3 v w vs)
  then show ?case by (cases i) auto
qed simp_all

text \<open>One step either leaves the state or pushes a version that follows from the operation.\<close>

lemma withAttributes_frame [simp]:
  "v_toBlock (withAttributes v as) = v_toBlock v" "v_fromBlock (withAttributes v as) = v_fromBlock v"
  "v_fromPosition (withAttributes v as) = v_fromPosition v"
  "v_fromOpIndex (withAttributes v as) = v_fromOpIndex v"
  "v_version (withAttributes v as) = v_version v" "v_deleted (withAttributes v as) = v_deleted v"
  "v_attributes (withAttributes v as) = as" "v_owner (withAttributes v as) = v_owner v"
  "v_expiresAt (withAttributes v as) = v_expiresAt v" "v_updatedAt (withAttributes v as) = v_updatedAt v"
  "v_creator (withAttributes v as) = v_creator v" "v_createdAt (withAttributes v as) = v_createdAt v"
  "v_creationFlags (withAttributes v as) = v_creationFlags v"
  "v_createdPosition (withAttributes v as) = v_createdPosition v"
  "v_createdOpIndex (withAttributes v as) = v_createdOpIndex v"
  "v_entityKey (withAttributes v as) = v_entityKey v"
  "succeeds u (withAttributes v as) = succeeds u v"
  "starts_before (withAttributes v as) oper = starts_before v oper"
  by (simp_all add: withAttributes_def succeeds_def starts_before_def)

definition follows_op :: "fold_state \<Rightarrow> entity_op \<Rightarrow> entity_version \<Rightarrow> bool" where
  "follows_op st oper w \<longleftrightarrow>
     v_toBlock w = None \<and> v_fromBlock w = r_blockNumber oper \<and> v_fromPosition w = r_position oper \<and>
     v_fromOpIndex w = r_opIndex oper \<and>
     (\<forall>cur. current st = Some cur \<longrightarrow> starts_before cur oper \<longrightarrow> succeeds cur w)"

lemma follows_op_created: "current st = None \<Longrightarrow> follows_op st oper (withAttributes (created_version key oper) as)"
  by (simp add: follows_op_def created_version_def)

lemma follows_op_next:
  assumes "current st = Some cur" "\<not> v_deleted cur"
  shows "follows_op st oper (withAttributes (next_version cur oper) as)"
    "follows_op st oper ((next_version cur oper)\<lparr>v_expiresAt := e\<rparr>)"
    "follows_op st oper ((next_version cur oper)\<lparr>v_owner := ow\<rparr>)"
    "follows_op st oper ((next_version cur oper)\<lparr>v_deleted := d\<rparr>)"
  using assms by (auto simp: follows_op_def next_version_def succeeds_def starts_before_def)

lemma fold_step_cases:
  assumes "fold_step keccak key oper st = Inr st'"
  obtains (same) "st' = st"
  | (pushed) attrs w where "st' = push st attrs w" "follows_op st oper w"
proof (cases "current st")
  case None
  note created = follows_op_created [OF None]
  show ?thesis using assms None created same pushed
    by (auto simp: fold_step_def bind_result_eq_Inr split: if_splits)
next
  case (Some cur)
  show ?thesis
  proof (cases "v_deleted cur")
    case True
    then show ?thesis using assms Some same by (simp add: fold_step_def)
  next
    case False
    note nxt = follows_op_next [OF Some False]
    show ?thesis using assms Some False same pushed [OF _ nxt(1)] pushed [OF _ nxt(2)] pushed [OF _ nxt(3)]
        pushed [OF _ nxt(4)]
      by (auto simp: fold_step_def Let_def bind_result_eq_Inr split: if_splits option.splits)
  qed
qed

lemma follows_op_starts: "follows_op st oper w \<Longrightarrow> compareOps oper p \<le> 0 \<Longrightarrow> starts_before w p"
  by (auto simp: follows_op_def starts_before_def compareOps_def split: if_splits)

lemma current_push [simp]: "current (push st attrs w) = Some w"
  by (simp add: current_def push_def)

lemma fold_linked:
  assumes "fold_result (fold_step keccak key) ops st = Inr st'"
    and "sorted_wrt (\<lambda>a b. compareOps a b \<le> 0) ops" and "linked (fs_versions st)"
    and "\<forall>cur. current st = Some cur \<longrightarrow> (\<forall>oper \<in> set ops. starts_before cur oper)"
  shows "linked (fs_versions st')"
  using assms
proof (induction ops arbitrary: st)
  case Nil
  then show ?case by simp
next
  case (Cons oper ops)
  from Cons.prems(1) obtain s1
    where s1: "fold_step keccak key oper st = Inr s1" "fold_result (fold_step keccak key) ops s1 = Inr st'"
    by (auto simp: bind_result_eq_Inr)
  from s1(1) show ?case
  proof (cases rule: fold_step_cases)
    case same
    then show ?thesis using Cons.IH [OF s1(2)] Cons.prems by simp
  next
    case (pushed attrs w)
    have succ: "fs_versions st \<noteq> [] \<Longrightarrow> succeeds (last (fs_versions st)) w"
      using pushed(2) Cons.prems(4) by (auto simp: follows_op_def current_def)
    have "linked (fs_versions s1)"
      using linked_push [OF Cons.prems(3) _ succ] pushed by (simp add: push_def follows_op_def)
    moreover have "\<forall>p \<in> set ops. starts_before w p"
      using Cons.prems(2) follows_op_starts [OF pushed(2)] by simp
    ultimately show ?thesis using Cons.IH [OF s1(2)] Cons.prems(2) pushed(1) by simp
  qed
qed

definition base_ok :: "entity_version option \<Rightarrow> entity_op list \<Rightarrow> bool" where
  "base_ok base records \<longleftrightarrow>
     (case base of None \<Rightarrow> True | Some bas \<Rightarrow> \<forall>oper \<in> set records. starts_before bas oper)"

lemma starts_before_frame [simp]:
  "starts_before (v\<lparr>v_toBlock := t, v_deleted := d\<rparr>) oper = starts_before v oper"
  by (simp add: starts_before_def)

lemma fold_start_linked: "linked (fs_versions (fold_start base))"
  by (auto simp: fold_start_def push_def push_version_def split: option.splits)

lemma fold_start_current:
  "base_ok base records \<Longrightarrow> current (fold_start base) = Some cur \<Longrightarrow> oper \<in> set records \<Longrightarrow>
    starts_before cur oper"
  by (auto simp: fold_start_def base_ok_def current_def push_def push_version_def split: option.splits)

lemma versions_linked:
  assumes "foldEntityVersions keccak key records base = Inr vs" "base_ok base records"
  shows "linked vs"
proof -
  from assms(1) obtain st
    where st: "fold_result (fold_step keccak key) (js_sort compareOps records) (fold_start base) = Inr st"
      "vs = fs_versions st"
    by (auto simp: foldEntityVersions_def bind_result_eq_Inr)
  show ?thesis unfolding st(2)
    by (rule fold_linked [OF st(1) ops_order.sorted_js_sort fold_start_linked])
       (use fold_start_current [OF assms(2)] in auto)
qed

section \<open>The engine's rules as an abstract machine\<close>

record engine_entity =
  e_owner :: string
  e_creator :: string
  e_createdAt :: int
  e_updatedAt :: int
  e_expiresAt :: int
  e_creationFlags :: "int option"
  e_attributes :: "string \<rightharpoonup> stored_attribute"

datatype engine_state = Absent | Live engine_entity | Gone engine_entity

text \<open>A typed triple sets, a tombstone unsets; attributes not named stay.\<close>

definition engine_set :: "(string \<Rightarrow> string) \<Rightarrow> op_attribute \<Rightarrow> (string \<rightharpoonup> stored_attribute) \<Rightarrow> string \<rightharpoonup> stored_attribute" where
  "engine_set keccak cell m = m(a_name cell := storedAttributeOf keccak cell)"

definition engine_mutations ::
    "(string \<Rightarrow> string) \<Rightarrow> entity_op \<Rightarrow> (string \<rightharpoonup> stored_attribute) \<Rightarrow> string \<rightharpoonup> stored_attribute" where
  "engine_mutations keccak oper = fold (engine_set keccak) (r_attributes oper)"

definition engine_create :: "(string \<Rightarrow> string) \<Rightarrow> entity_op \<Rightarrow> engine_entity" where
  "engine_create keccak oper =
     \<lparr>e_owner = r_sender oper, e_creator = r_sender oper, e_createdAt = r_blockNumber oper,
      e_updatedAt = r_blockNumber oper, e_expiresAt = resolveExpiry oper,
      e_creationFlags = (case Option.bind (r_event oper) ev_creationFlags of
                           Some f \<Rightarrow> Some f | None \<Rightarrow> r_creationFlags oper),
      e_attributes = engine_mutations keccak oper Map.empty\<rparr>"

fun engine_step :: "(string \<Rightarrow> string) \<Rightarrow> entity_op \<Rightarrow> engine_state \<Rightarrow> engine_state" where
  "engine_step keccak oper Absent =
     (if r_operationType oper = OPERATION_CREATE then Live (engine_create keccak oper) else Absent)"
| "engine_step keccak oper (Gone e) = Gone e"
| "engine_step keccak oper (Live e) =
     (let touched = e\<lparr>e_updatedAt := r_blockNumber oper\<rparr> in
      if r_operationType oper = OPERATION_PATCH then
        Live (touched\<lparr>e_attributes := engine_mutations keccak oper (e_attributes e)\<rparr>)
      else if r_operationType oper = OPERATION_EXTEND then Live (touched\<lparr>e_expiresAt := resolveExpiry oper\<rparr>)
      else if r_operationType oper = OPERATION_TRANSFER then
        (case new_owner_of oper of
           None \<Rightarrow> Live e
         | Some w \<Rightarrow> if w = [] then Live e else Live (touched\<lparr>e_owner := w\<rparr>))
      else if r_operationType oper = OPERATION_DELETE then Gone touched
      else Live e)"

definition engine_run :: "(string \<Rightarrow> string) \<Rightarrow> entity_op list \<Rightarrow> engine_state \<Rightarrow> engine_state" where
  "engine_run keccak ops s = fold (engine_step keccak) ops s"

definition attrs_map :: "stored_attribute list \<Rightarrow> string \<rightharpoonup> stored_attribute" where
  "attrs_map as = map_of (map (\<lambda>a. (sa_name a, a)) as)"

text \<open>What a version says of the entity.\<close>

definition abs_entity :: "entity_version \<Rightarrow> engine_entity" where
  "abs_entity v =
     \<lparr>e_owner = v_owner v, e_creator = v_creator v, e_createdAt = v_createdAt v,
      e_updatedAt = v_updatedAt v, e_expiresAt = v_expiresAt v, e_creationFlags = v_creationFlags v,
      e_attributes = attrs_map (v_attributes v)\<rparr>"

definition abs_version :: "entity_version \<Rightarrow> engine_state" where
  "abs_version v = (if v_deleted v then Gone (abs_entity v) else Live (abs_entity v))"

definition abs_state :: "fold_state \<Rightarrow> engine_state" where
  "abs_state st = (case current st of None \<Rightarrow> Absent | Some v \<Rightarrow> abs_version v)"

section \<open>The attributes of the fold\<close>

definition attribute_ok :: "stored_attribute \<Rightarrow> bool" where
  "attribute_ok a \<longleftrightarrow>
     (\<exists>tag. sa_typeId a = TYPE_IDS tag \<and> stored_ok tag (sa_value a) \<and> (tag = TBytes \<longrightarrow> \<not> sa_indexed a))"

text \<open>The map from names to attributes: one entry per name, under its own name, well typed.\<close>

definition attributes_inv :: "attribute_map \<Rightarrow> bool" where
  "attributes_inv m \<longleftrightarrow> map_ok m \<and> (\<forall>(k, a) \<in> set m. sa_name a = k \<and> attribute_ok a)"

lemma attributes_inv_Nil [simp]: "attributes_inv []"
  by (simp add: attributes_inv_def)

lemma attributes_inv_get: "attributes_inv m \<Longrightarrow> map_get m k = Some a \<Longrightarrow> sa_name a = k \<and> attribute_ok a"
  by (auto simp: attributes_inv_def dest: map_of_SomeD)

lemma attributes_invI:
  "map_ok m \<Longrightarrow> (\<And>k a. map_get m k = Some a \<Longrightarrow> sa_name a = k \<and> attribute_ok a) \<Longrightarrow> attributes_inv m"
  by (auto simp: attributes_inv_def map_get_in_set [symmetric])

lemma attributes_inv_set [intro]:
  "attributes_inv m \<Longrightarrow> attribute_ok a \<Longrightarrow> sa_name a = k \<Longrightarrow> attributes_inv (map_set k a m)"
  by (rule attributes_invI)
     (auto simp: attributes_inv_def [of m] dest: attributes_inv_get [of m] split: if_splits dest!: map_of_SomeD)

lemma attributes_inv_delete [intro]: "attributes_inv m \<Longrightarrow> attributes_inv (map_delete k m)"
  by (rule attributes_invI)
     (auto simp: attributes_inv_def [of m] split: if_splits dest!: map_of_SomeD)

lemma attribute_okI:
  "sa_typeId a = TYPE_IDS tag \<Longrightarrow> stored_ok tag (sa_value a) \<Longrightarrow> (tag = TBytes \<Longrightarrow> \<not> sa_indexed a) \<Longrightarrow> attribute_ok a"
  by (auto simp: attribute_ok_def)

lemma storedAttributeOf_ok:
  assumes "storedAttributeOf keccak cell = Some a"
  shows "sa_name a = a_name cell" "attribute_ok a"
  using assms
  by (auto simp: storedAttributeOf_def Let_def simp del: TYPE_IDS.simps stored_ok.simps
      split: if_splits option.splits intro!: attribute_okI dest: fromWire_ok storedBytes_ok)

lemma apply_attribute_inv:
  "apply_attribute keccak oper c s = Inr t \<Longrightarrow> attributes_inv s \<Longrightarrow> attributes_inv t"
  by (auto simp: apply_attribute_def storedAttributeOf_ok split: if_splits option.splits)

lemma applyAttributes_inv:
  assumes "applyAttributes keccak m oper = Inr m'" "attributes_inv m"
  shows "attributes_inv m'"
  using fold_result_invariant [where P = attributes_inv, OF assms(1) [unfolded applyAttributes_def] assms(2)]
    apply_attribute_inv by blast

lemma applyAttributes_engine:
  assumes "applyAttributes keccak m oper = Inr m'"
  shows "map_get m' = engine_mutations keccak oper (map_get m)"
proof -
  have step: "apply_attribute keccak oper c s = Inr t \<Longrightarrow> map_get t = engine_set keccak c (map_get s)" for c s t
    by (auto simp: apply_attribute_def engine_set_def storedAttributeOf_def Let_def
        split: if_splits option.splits)
  have "fold_result (apply_attribute keccak oper) cs s = Inr t \<Longrightarrow>
      map_get t = fold (engine_set keccak) cs (map_get s)" for cs s t
    by (induction cs arbitrary: s) (auto simp: bind_result_eq_Inr dest!: step)
  with assms show ?thesis by (simp add: applyAttributes_def engine_mutations_def)
qed

text \<open>The list of a version is the map, sorted.\<close>

definition names_sorted :: "stored_attribute list \<Rightarrow> bool" where
  "names_sorted as \<longleftrightarrow>
     sorted_wrt (\<lambda>a b. compare_names a b \<le> 0) as \<and> distinct (map sa_name as) \<and> (\<forall>a \<in> set as. attribute_ok a)"

lemma map_fst_names: "attributes_inv m \<Longrightarrow> map (\<lambda>a. (sa_name a, a)) (map snd m) = m"
  by (induction m) (auto simp: attributes_inv_def map_ok_def)

lemma map_sa_name: "attributes_inv m \<Longrightarrow> map sa_name (map snd m) = map fst m"
  by (induction m) (auto simp: attributes_inv_def map_ok_def)

lemma sortedAttributes_ok:
  assumes "attributes_inv m"
  shows "names_sorted (sortedAttributes m)" "attrs_map (sortedAttributes m) = map_get m"
proof -
  have "mset (map sa_name (sortedAttributes m)) = mset (map sa_name (map snd m))"
    by (simp add: sortedAttributes_def multiset.map_comp)
  then have "mset (map sa_name (sortedAttributes m)) = mset (map fst m)"
    by (simp only: map_sa_name [OF assms])
  moreover have ok: "distinct (map fst m)" using assms by (simp add: attributes_inv_def map_ok_def)
  ultimately have dist: "distinct (map sa_name (sortedAttributes m))"
    by (metis mset_eq_imp_distinct_iff)
  have elems: "set (sortedAttributes m) = set (map snd m)" by (simp add: sortedAttributes_def)
  show "names_sorted (sortedAttributes m)"
    using dist names_order.sorted_js_sort [of "map snd m"] assms
    by (auto simp: names_sorted_def elems attributes_inv_def sortedAttributes_def)
  let ?l = "map (\<lambda>a. (sa_name a, a)) (sortedAttributes m)"
  have "set ?l = (\<lambda>a. (sa_name a, a)) ` set (map snd m)" by (simp only: set_map elems)
  also have "\<dots> = set m" by (subst (2) map_fst_names [OF assms, symmetric]) (simp only: set_map)
  finally have "set ?l = set m" .
  moreover have "distinct (map fst ?l)" using dist by (simp add: comp_def)
  ultimately show "attrs_map (sortedAttributes m) = map_get m"
    unfolding attrs_map_def using ok by (simp only: map_of_inject_set)
qed

section \<open>The fold implements the engine's rules\<close>

definition version_ok :: "entity_version \<Rightarrow> bool" where
  "version_ok v \<longleftrightarrow>
     names_sorted (v_attributes v) \<and> v_bytesSize v = fst (summarizeAttributes (v_attributes v)) \<and>
     v_schemaName v = snd (summarizeAttributes (v_attributes v))"

text \<open>The map the fold carries is the attributes of the current version, and every version is well formed.\<close>

definition fold_inv :: "fold_state \<Rightarrow> bool" where
  "fold_inv st \<longleftrightarrow>
     attributes_inv (fs_attributes st) \<and> (\<forall>v \<in> set (fs_versions st). version_ok v) \<and>
     (\<forall>cur. current st = Some cur \<longrightarrow> attrs_map (v_attributes cur) = map_get (fs_attributes st))"

lemma version_ok_frame [simp]:
  "version_ok (v\<lparr>v_toBlock := t\<rparr>) = version_ok v" "version_ok (v\<lparr>v_expiresAt := e\<rparr>) = version_ok v"
  "version_ok (v\<lparr>v_owner := w\<rparr>) = version_ok v" "version_ok (v\<lparr>v_deleted := d\<rparr>) = version_ok v"
  "version_ok (next_version v oper) = version_ok v"
  by (simp_all add: version_ok_def next_version_def)

lemma version_ok_withAttributes [simp]:
  "version_ok (withAttributes v as) \<longleftrightarrow> names_sorted as"
  by (simp add: version_ok_def withAttributes_def)

lemma set_push_version:
  "\<forall>v \<in> set vs. version_ok v \<Longrightarrow> version_ok w \<Longrightarrow> \<forall>v \<in> set (push_version vs w). version_ok v"
  by (auto simp: push_version_def dest: in_set_butlastD)

lemma fold_inv_push:
  "fold_inv st \<Longrightarrow> attributes_inv m \<Longrightarrow> version_ok w \<Longrightarrow> attrs_map (v_attributes w) = map_get m \<Longrightarrow>
    fold_inv (push st m w)"
  unfolding fold_inv_def current_push
  using set_push_version [of "fs_versions st" w] by (simp add: push_def)

lemma fold_inv_current:
  "fold_inv st \<Longrightarrow> current st = Some cur \<Longrightarrow>
    version_ok cur \<and> attributes_inv (fs_attributes st) \<and> attrs_map (v_attributes cur) = map_get (fs_attributes st)"
  by (auto simp: fold_inv_def current_def split: if_splits)

lemma abs_state_push [simp]: "abs_state (push st m w) = abs_version w"
  by (simp add: abs_state_def)

lemma abs_created:
  assumes "applyAttributes keccak [] oper = Inr m"
  shows "abs_version (withAttributes (created_version key oper) (sortedAttributes m)) = Live (engine_create keccak oper)"
proof -
  have inv: "attributes_inv m" using applyAttributes_inv [OF assms] by simp
  have m: "map_get m = engine_mutations keccak oper Map.empty" using applyAttributes_engine [OF assms] by simp
  show ?thesis
    by (simp add: abs_version_def abs_entity_def sortedAttributes_ok(2) [OF inv] m engine_create_def)
       (simp add: created_version_def)
qed

lemma abs_next:
  assumes "\<not> v_deleted cur"
  shows "attributes_inv m \<Longrightarrow> abs_version (withAttributes (next_version cur oper) (sortedAttributes m)) =
      Live ((abs_entity cur)\<lparr>e_updatedAt := r_blockNumber oper, e_attributes := map_get m\<rparr>)"
    "abs_version ((next_version cur oper)\<lparr>v_expiresAt := e\<rparr>) =
      Live ((abs_entity cur)\<lparr>e_updatedAt := r_blockNumber oper, e_expiresAt := e\<rparr>)"
    "abs_version ((next_version cur oper)\<lparr>v_owner := w\<rparr>) =
      Live ((abs_entity cur)\<lparr>e_updatedAt := r_blockNumber oper, e_owner := w\<rparr>)"
    "abs_version ((next_version cur oper)\<lparr>v_deleted := True\<rparr>) =
      Gone ((abs_entity cur)\<lparr>e_updatedAt := r_blockNumber oper\<rparr>)"
  using assms by (simp_all add: abs_version_def abs_entity_def sortedAttributes_ok(2) next_version_def)

lemma fold_step_engine:
  assumes "fold_step keccak key oper st = Inr st'" "fold_inv st"
  shows "fold_inv st' \<and> abs_state st' = engine_step keccak oper (abs_state st)"
proof (cases "current st")
  case None
  show ?thesis
  proof (cases "r_operationType oper = OPERATION_CREATE")
    case False
    then show ?thesis using assms None by (simp add: fold_step_def abs_state_def)
  next
    case True
    then obtain m where m: "applyAttributes keccak [] oper = Inr m"
      "st' = push st m (withAttributes (created_version key oper) (sortedAttributes m))"
      using assms(1) None by (auto simp: fold_step_def bind_result_eq_Inr)
    have inv: "attributes_inv m" using applyAttributes_inv [OF m(1)] by simp
    have "fold_inv st'" unfolding m(2)
      by (rule fold_inv_push [OF assms(2) inv]) (simp_all add: sortedAttributes_ok [OF inv])
    then show ?thesis using True None by (simp add: m(2) abs_created [OF m(1)] abs_state_def [of st])
  qed
next
  case (Some cur)
  note cur = fold_inv_current [OF assms(2) Some]
  have abs: "abs_state st = abs_version cur" using Some by (simp add: abs_state_def)
  show ?thesis
  proof (cases "v_deleted cur")
    case True
    then show ?thesis using assms Some abs by (simp add: fold_step_def abs_version_def)
  next
    case live: False
    then have abs: "abs_state st = Live (abs_entity cur)" using abs by (simp add: abs_version_def)
    have kept: "fold_inv (push st (fs_attributes st) (f (next_version cur oper)))"
      if "\<And>v. version_ok (f v) = version_ok v" "\<And>v. v_attributes (f v) = v_attributes v" for f
      by (rule fold_inv_push [OF assms(2)]) (use cur that in \<open>simp_all add: next_version_def [THEN arg_cong [of _ _ v_attributes]]\<close>)
    show ?thesis
    proof (cases "r_operationType oper = OPERATION_PATCH")
      case True
      then obtain m where m: "applyAttributes keccak (fs_attributes st) oper = Inr m"
        "st' = push st m (withAttributes (next_version cur oper) (sortedAttributes m))"
        using assms(1) Some live by (auto simp: fold_step_def bind_result_eq_Inr Let_def)
      have inv: "attributes_inv m" using applyAttributes_inv [OF m(1)] cur by simp
      have eng: "map_get m = engine_mutations keccak oper (e_attributes (abs_entity cur))"
        using applyAttributes_engine [OF m(1)] cur by (simp add: abs_entity_def)
      have "fold_inv st'" unfolding m(2)
        by (rule fold_inv_push [OF assms(2) inv]) (simp_all add: sortedAttributes_ok [OF inv])
      then show ?thesis using True
        by (simp add: abs m(2) abs_next(1) [OF live inv] eng Let_def)
    next
      case False
      then show ?thesis
        using assms Some live abs kept [of "v_expiresAt_update (\<lambda>_. resolveExpiry oper)"]
          kept [of "v_owner_update (\<lambda>_. the (new_owner_of oper))"] kept [of "v_deleted_update (\<lambda>_. True)"]
        by (auto simp: fold_step_def Let_def abs_next(2-4) [OF live] split: if_splits option.splits)
    qed
  qed
qed

lemma fold_engine:
  "fold_result (fold_step keccak key) ops st = Inr st' \<Longrightarrow> fold_inv st \<Longrightarrow>
    fold_inv st' \<and> abs_state st' = engine_run keccak ops (abs_state st)"
proof (induction ops arbitrary: st)
  case Nil
  then show ?case by (simp add: engine_run_def)
next
  case (Cons oper ops)
  then obtain s1 where s1: "fold_step keccak key oper st = Inr s1" "fold_result (fold_step keccak key) ops s1 = Inr st'"
    by (auto simp: bind_result_eq_Inr)
  then show ?case using Cons.IH [OF s1(2)] fold_step_engine [OF s1(1) Cons.prems(2)] by (simp add: engine_run_def)
qed

section \<open>Reading the entity at a block\<close>

definition valid_at :: "int \<Rightarrow> entity_version \<Rightarrow> bool" where
  "valid_at b v \<longleftrightarrow> v_fromBlock v \<le> b \<and> (case v_toBlock v of None \<Rightarrow> True | Some t \<Rightarrow> b < t)"

definition state_at :: "int \<Rightarrow> entity_version list \<Rightarrow> engine_state list" where
  "state_at b vs = map abs_version (filter (valid_at b) vs)"

definition engine_states :: "engine_state \<Rightarrow> engine_state list" where
  "engine_states s = (if s = Absent then [] else [s])"

lemma abs_version_toBlock [simp]: "abs_version (v\<lparr>v_toBlock := t\<rparr>) = abs_version v"
  by (simp add: abs_version_def abs_entity_def)

lemma abs_version_not_Absent [simp]: "abs_version v \<noteq> Absent"
  by (simp add: abs_version_def)

lemma linked_valid_last:
  "linked vs \<Longrightarrow> \<forall>v \<in> set vs. v_fromBlock v \<le> b \<Longrightarrow> vs \<noteq> [] \<Longrightarrow> filter (valid_at b) vs = [last vs]"
proof (induction vs rule: linked.induct)
  case (3 v w vs)
  have "\<not> valid_at b v" using "3.prems" by (simp add: valid_at_def)
  then show ?case using 3 by simp
qed (simp_all add: valid_at_def)

lemma state_at_current:
  "linked (fs_versions st) \<Longrightarrow> \<forall>v \<in> set (fs_versions st). v_fromBlock v \<le> b \<Longrightarrow>
    state_at b (fs_versions st) = engine_states (abs_state st)"
  by (simp add: state_at_def linked_valid_last engine_states_def abs_state_def current_def)

lemma state_at_push:
  assumes "linked vs" "b < v_fromBlock w"
  shows "state_at b (push_version vs w) = state_at b vs"
proof (cases vs rule: rev_cases)
  case Nil
  then show ?thesis using assms(2) by (simp add: push_version_def state_at_def valid_at_def)
next
  case (snoc us v)
  then have "v_toBlock v = None" using linked_last_open [OF assms(1)] by simp
  then show ?thesis using assms(2) snoc by (simp add: push_version_def state_at_def valid_at_def)
qed

lemma fold_state_at_later:
  assumes "fold_result (fold_step keccak key) ops st = Inr st'"
    and "sorted_wrt (\<lambda>a b. compareOps a b \<le> 0) ops" and "linked (fs_versions st)"
    and "\<forall>cur. current st = Some cur \<longrightarrow> (\<forall>oper \<in> set ops. starts_before cur oper)"
    and "\<forall>oper \<in> set ops. b < r_blockNumber oper"
  shows "state_at b (fs_versions st') = state_at b (fs_versions st)"
  using assms
proof (induction ops arbitrary: st)
  case Nil
  then show ?case by simp
next
  case (Cons oper ops)
  from Cons.prems(1) obtain s1
    where s1: "fold_step keccak key oper st = Inr s1" "fold_result (fold_step keccak key) ops s1 = Inr st'"
    by (auto simp: bind_result_eq_Inr)
  have linked1: "linked (fs_versions s1)"
    by (rule fold_linked [of keccak key "[oper]" st]) (use s1 Cons.prems in auto)
  from s1(1) show ?case
  proof (cases rule: fold_step_cases)
    case same
    then show ?thesis using Cons.IH [OF s1(2)] Cons.prems by simp
  next
    case (pushed attrs w)
    have "state_at b (fs_versions s1) = state_at b (fs_versions st)"
      using pushed Cons.prems(5) by (simp add: push_def state_at_push [OF Cons.prems(3)] follows_op_def)
    moreover have "\<forall>p \<in> set ops. starts_before w p"
      using Cons.prems(2) follows_op_starts [OF pushed(2)] by simp
    ultimately show ?thesis using Cons.IH [OF s1(2)] Cons.prems linked1 pushed(1) by simp
  qed
qed

lemma set_push_from: "\<forall>v \<in> set vs. v_fromBlock v \<le> b \<Longrightarrow> v_fromBlock w \<le> b \<Longrightarrow>
    \<forall>v \<in> set (push_version vs w). v_fromBlock v \<le> b"
  by (auto simp: push_version_def dest: in_set_butlastD split: if_splits)

lemma fold_from_bound:
  assumes "fold_result (fold_step keccak key) ops st = Inr st'" "\<forall>oper \<in> set ops. r_blockNumber oper \<le> b"
    and "\<forall>v \<in> set (fs_versions st). v_fromBlock v \<le> b"
  shows "\<forall>v \<in> set (fs_versions st'). v_fromBlock v \<le> b"
proof (rule fold_result_invariant [where P = "\<lambda>s. \<forall>v \<in> set (fs_versions s). v_fromBlock v \<le> b", OF assms(1,3)])
  fix oper s t
  assume *: "oper \<in> set ops" "\<forall>v \<in> set (fs_versions s). v_fromBlock v \<le> b" "fold_step keccak key oper s = Inr t"
  from *(3) show "\<forall>v \<in> set (fs_versions t). v_fromBlock v \<le> b"
  proof (cases rule: fold_step_cases)
    case (pushed attrs w)
    then have "v_fromBlock w \<le> b" using *(1) assms(2) by (simp add: follows_op_def)
    then show ?thesis using set_push_from [OF *(2)] pushed(1) by (simp add: push_def)
  qed (use *(2) in simp)
qed

text \<open>Sorted operations fall into those up to a block and those after it.\<close>

lemma sorted_ops_split:
  "sorted_wrt (\<lambda>x y. compareOps x y \<le> 0) ops \<Longrightarrow>
    ops = filter (\<lambda>oper. r_blockNumber oper \<le> b) ops @ filter (\<lambda>oper. b < r_blockNumber oper) ops"
proof (induction ops)
  case (Cons oper ops)
  show ?case
  proof (cases "r_blockNumber oper \<le> b")
    case True
    then show ?thesis using Cons by simp
  next
    case False
    have "b < r_blockNumber p" if "p \<in> set ops" for p
      using Cons.prems that False by (fastforce simp: compareOps_def split: if_splits)
    then have "filter (\<lambda>oper. r_blockNumber oper \<le> b) ops = []" "filter (\<lambda>oper. b < r_blockNumber oper) ops = ops"
      by (fastforce simp: filter_empty_conv filter_id_conv)+
    then show ?thesis using False by simp
  qed
qed simp

lemma fold_current_later:
  assumes "fold_result (fold_step keccak key) ops st = Inr st'" "current st' = Some cur"
  shows "current st = Some cur \<or>
    (\<exists>oper \<in> set ops. v_fromBlock cur = r_blockNumber oper \<and> v_fromPosition cur = r_position oper \<and>
       v_fromOpIndex cur = r_opIndex oper)"
  using assms
proof (induction ops arbitrary: st)
  case (Cons oper ops)
  from Cons.prems(1) obtain s1
    where s1: "fold_step keccak key oper st = Inr s1" "fold_result (fold_step keccak key) ops s1 = Inr st'"
    by (auto simp: bind_result_eq_Inr)
  from s1(1) Cons.IH [OF s1(2) Cons.prems(2)] show ?case
    by (cases rule: fold_step_cases) (auto simp: follows_op_def)
qed simp

text \<open>A seeded entity: its stored version 0 has well-typed attributes under distinct names.\<close>

definition base_valid :: "entity_version option \<Rightarrow> bool" where
  "base_valid base \<longleftrightarrow>
     (case base of None \<Rightarrow> True
      | Some bas \<Rightarrow> distinct (map sa_name (v_attributes bas)) \<and> (\<forall>a \<in> set (v_attributes bas). attribute_ok a))"

definition engine_start :: "entity_version option \<Rightarrow> engine_state" where
  "engine_start base = (case base of None \<Rightarrow> Absent | Some bas \<Rightarrow> Live (abs_entity bas))"

lemma fold_set_names:
  "distinct (map sa_name as) \<Longrightarrow> \<forall>a \<in> set as. map_get m (sa_name a) = None \<Longrightarrow>
    fold (\<lambda>a m. map_set (sa_name a) a m) as m = m @ map (\<lambda>a. (sa_name a, a)) as"
proof (induction as arbitrary: m)
  case (Cons a as)
  have "map_get (m @ [(sa_name a, a)]) (sa_name b) = None" if "b \<in> set as" for b
  proof -
    have "sa_name b \<noteq> sa_name a" "map_get m (sa_name b) = None"
      using Cons.prems that by (simp_all add: image_iff) metis
    then show ?thesis by (simp add: map_add_def)
  qed
  then show ?case using Cons by (simp add: map_set_absent)
qed simp

lemma base_attributes_eq:
  "distinct (map sa_name (v_attributes bas)) \<Longrightarrow> base_attributes bas = map (\<lambda>a. (sa_name a, a)) (v_attributes bas)"
  by (simp add: base_attributes_def fold_set_names)

lemma fold_start_inv:
  assumes "base_valid base"
  shows "fold_inv (fold_start base)" "abs_state (fold_start base) = engine_start base"
proof -
  have "fold_inv (fold_start base) \<and> abs_state (fold_start base) = engine_start base"
  proof (cases base)
    case None
    then show ?thesis by (simp add: fold_start_def fold_inv_def abs_state_def current_def engine_start_def)
  next
    case (Some bas)
    have inv: "attributes_inv (base_attributes bas)"
      using assms Some by (auto simp: base_valid_def base_attributes_eq attributes_inv_def map_ok_def comp_def)
    have start: "fold_inv \<lparr>fs_versions = [], fs_attributes = []\<rparr>"
      by (simp add: fold_inv_def current_def)
    have "map_get (base_attributes bas) = attrs_map (v_attributes bas)"
      using assms Some by (simp add: base_valid_def base_attributes_eq attrs_map_def)
    then show ?thesis
      using fold_inv_push [OF start inv] sortedAttributes_ok [OF inv]
      by (simp add: Some fold_start_def engine_start_def abs_version_def abs_entity_def)
  qed
  then show "fold_inv (fold_start base)" "abs_state (fold_start base) = engine_start base" by simp_all
qed

lemma foldEntityVersionsE:
  assumes "foldEntityVersions keccak key records base = Inr vs"
  obtains st where "fold_result (fold_step keccak key) (js_sort compareOps records) (fold_start base) = Inr st"
    "vs = fs_versions st"
  using assms by (auto simp: foldEntityVersions_def bind_result_eq_Inr)

lemma versions_well_formed:
  assumes "foldEntityVersions keccak key records base = Inr vs" "base_valid base"
  shows "\<forall>v \<in> set vs. version_ok v"
proof -
  obtain st where st: "fold_result (fold_step keccak key) (js_sort compareOps records) (fold_start base) = Inr st"
    "vs = fs_versions st"
    by (rule foldEntityVersionsE [OF assms(1)])
  show ?thesis using fold_engine [OF st(1) fold_start_inv(1) [OF assms(2)]] unfolding fold_inv_def st(2) by blast
qed

lemma versions_engine:
  assumes "foldEntityVersions keccak key records base = Inr vs" "base_valid base"
  shows "(if vs = [] then Absent else abs_version (last vs)) =
    engine_run keccak (js_sort compareOps records) (engine_start base)"
proof -
  obtain st where st: "fold_result (fold_step keccak key) (js_sort compareOps records) (fold_start base) = Inr st"
    "vs = fs_versions st"
    by (rule foldEntityVersionsE [OF assms(1)])
  have "(if vs = [] then Absent else abs_version (last vs)) = abs_state st"
    by (simp add: st(2) abs_state_def current_def)
  then show ?thesis using fold_engine [OF st(1)] fold_start_inv [OF assms(2)] by simp
qed

lemma versions_history:
  assumes "foldEntityVersions keccak key records base = Inr vs" "base_ok base records" "base_valid base"
    and "\<forall>bas. base = Some bas \<longrightarrow> v_fromBlock bas \<le> b"
  shows "state_at b vs = engine_states
    (engine_run keccak (filter (\<lambda>oper. r_blockNumber oper \<le> b) (js_sort compareOps records)) (engine_start base))"
proof -
  let ?ops = "js_sort compareOps records"
  let ?old = "filter (\<lambda>oper. r_blockNumber oper \<le> b) ?ops" and ?new = "filter (\<lambda>oper. b < r_blockNumber oper) ?ops"
  obtain st where st: "fold_result (fold_step keccak key) ?ops (fold_start base) = Inr st" "vs = fs_versions st"
    by (rule foldEntityVersionsE [OF assms(1)])
  have sorted: "sorted_wrt (\<lambda>x y. compareOps x y \<le> 0) ?ops" by (rule ops_order.sorted_js_sort)
  note split = sorted_ops_split [OF sorted, of b]
  have sorted2: "sorted_wrt (\<lambda>x y. compareOps x y \<le> 0) (?old @ ?new)" using sorted by (simp only: split [symmetric])
  have "fold_result (fold_step keccak key) (?old @ ?new) (fold_start base) = Inr st"
    using st(1) by (simp only: split [symmetric])
  then obtain s1 where s1: "fold_result (fold_step keccak key) ?old (fold_start base) = Inr s1"
    "fold_result (fold_step keccak key) ?new s1 = Inr st"
    by (auto simp only: fold_result_append bind_result_eq_Inr)
  have starts: "\<forall>cur. current (fold_start base) = Some cur \<longrightarrow> (\<forall>oper \<in> set ?ops. starts_before cur oper)"
    using fold_start_current [OF assms(2)] by auto
  have linked1: "linked (fs_versions s1)"
    by (rule fold_linked [OF s1(1) _ fold_start_linked])
       (use sorted2 starts in \<open>auto simp: sorted_wrt_append\<close>)
  have "\<forall>v \<in> set (fs_versions (fold_start base)). v_fromBlock v \<le> b"
    using assms(4) by (auto simp: fold_start_def push_def push_version_def split: option.splits)
  then have bound: "\<forall>v \<in> set (fs_versions s1). v_fromBlock v \<le> b"
    using fold_from_bound [OF s1(1)] by simp
  have later: "\<forall>cur. current s1 = Some cur \<longrightarrow> (\<forall>oper \<in> set ?new. starts_before cur oper)"
    using bound by (auto simp: current_def starts_before_def split: if_splits dest!: bspec [OF _ last_in_set])
  have "state_at b vs = state_at b (fs_versions s1)"
    unfolding st(2)
    by (rule fold_state_at_later [OF s1(2) _ linked1 later]) (use sorted2 in \<open>auto simp: sorted_wrt_append\<close>)
  also have "\<dots> = engine_states (abs_state s1)" by (rule state_at_current [OF linked1 bound])
  also have "abs_state s1 = engine_run keccak ?old (engine_start base)"
    using fold_engine [OF s1(1)] fold_start_inv [OF assms(3)] by simp
  finally show ?thesis .
qed

lemma versions_order_independent:
  assumes "mset records = mset records'" "inj_on op_position (set records)"
  shows "foldEntityVersions keccak key records base = foldEntityVersions keccak key records' base"
proof -
  have "js_sort compareOps records = js_sort compareOps records'"
    by (rule ops_order.js_sort_perm_unique [OF assms(1)])
       (use assms(2) in \<open>auto simp: inj_on_def op_position_def compareOps_def split: if_splits\<close>)
  then show ?thesis by (simp add: foldEntityVersions_def)
qed

text \<open>When every triple reads, the fold gives a history.\<close>

definition readable :: "(string \<Rightarrow> string) \<Rightarrow> entity_op \<Rightarrow> bool" where
  "readable keccak oper \<longleftrightarrow>
     list_all (\<lambda>c. a_error c = None \<and> (a_typeId c = TOMBSTONE_TYPE_ID \<or> storedAttributeOf keccak c \<noteq> None))
       (r_attributes oper)"

lemma applyAttributes_total: "readable keccak oper \<Longrightarrow> \<exists>m'. applyAttributes keccak m oper = Inr m'"
proof -
  have "list_all (\<lambda>c. a_error c = None \<and> (a_typeId c = TOMBSTONE_TYPE_ID \<or> storedAttributeOf keccak c \<noteq> None)) cs
      \<Longrightarrow> \<exists>m'. fold_result (apply_attribute keccak oper) cs m = Inr m'" for cs m
  proof (induction cs arbitrary: m)
    case (Cons c cs)
    then have "\<exists>m1. apply_attribute keccak oper c m = Inr m1" by (auto simp: apply_attribute_def)
    then obtain m1 where "apply_attribute keccak oper c m = Inr m1" ..
    then show ?case using Cons by simp
  qed simp
  then show "readable keccak oper \<Longrightarrow> ?thesis" by (simp add: applyAttributes_def readable_def)
qed

lemma fold_step_total: "readable keccak oper \<Longrightarrow> \<exists>st'. fold_step keccak key oper st = Inr st'"
proof -
  assume r: "readable keccak oper"
  obtain m1 m2 where "applyAttributes keccak [] oper = Inr m1"
    "applyAttributes keccak (fs_attributes st) oper = Inr m2"
    using applyAttributes_total [OF r] by blast
  then show ?thesis by (simp add: fold_step_def Let_def split: option.splits)
qed

lemma foldEntityVersions_total:
  assumes "\<forall>oper \<in> set records. readable keccak oper"
  shows "\<exists>vs. foldEntityVersions keccak key records base = Inr vs"
proof -
  have "\<forall>oper \<in> set ops. readable keccak oper \<Longrightarrow> \<exists>st'. fold_result (fold_step keccak key) ops st = Inr st'" for ops st
  proof (induction ops arbitrary: st)
    case (Cons oper ops)
    then obtain s1 where "fold_step keccak key oper st = Inr s1" using fold_step_total by fastforce
    then show ?case using Cons by simp
  qed simp
  from this [of "js_sort compareOps records"] assms
  obtain st where "fold_result (fold_step keccak key) (js_sort compareOps records) (fold_start base) = Inr st"
    by fastforce
  then show ?thesis by (simp add: foldEntityVersions_def)
qed

section \<open>Properties\<close>

text \<open>An entity that is created at block 5, patched at block 7 and deleted at block 9, out of order.\<close>

definition sample_attr :: "string \<Rightarrow> int \<Rightarrow> string \<Rightarrow> jsval \<Rightarrow> op_attribute" where
  "sample_attr n i t v =
     \<lparr>a_name = n, a_typeId = i, a_type = t, a_indexed = (i AND 0x80 \<noteq> 0), a_value = v, a_size = 0,
      a_keccak256 = None, a_error = None\<rparr>"

definition sample_op :: "int \<Rightarrow> int \<Rightarrow> op_attribute list \<Rightarrow> entity_op" where
  "sample_op b t as =
     \<lparr>r_blockNumber = b, r_position = 1, r_opIndex = 0, r_operationType = t, r_entityKey = ''0xk'',
      r_sender = ''0xs'', r_creationFlags = Some 0, r_attributes = as, r_expiresAt = Some 100,
      r_minLifetime = Some 10, r_newOwner = None, r_event = None\<rparr>"

definition sample_ops :: "entity_op list" where
  "sample_ops =
     [sample_op 9 5 [], sample_op 5 1 [sample_attr ''color'' 0x88 ''str'' (JStr ''red'')],
      sample_op 7 2 [sample_attr ''color'' 0 ''tombstone'' JNull, sample_attr ''n'' 2 ''i32'' (JInt 4)]]"

lemma sample_readable: "\<forall>oper \<in> set sample_ops. readable (\<lambda>_. []) oper"
  by code_simp

lemma sample_folds: "\<exists>vs. foldEntityVersions (\<lambda>_. []) ''0xk'' sample_ops None = Inr vs"
  by (rule foldEntityVersions_total [OF sample_readable])

lemma sample_base: "base_ok None sample_ops" "base_valid None"
  by (simp_all add: base_ok_def base_valid_def)

text \<open>
  C1. Reading an entity at a block is right: among the versions the fold gives, the ones valid at
  block \<open>b\<close> (from their own block up to, not including, the next version's) are exactly one version
  holding the state the engine's rules reach after the operations of the blocks up to \<open>b\<close>, taken in
  chain order, and none if the entity does not exist by then. The records may come in any order, and
  a seeded entity starts from its genesis state.
\<close>

theorem entity_history_is_engine_state:
  assumes "foldEntityVersions keccak key records base = Inr vs" "base_ok base records" "base_valid base"
    and "\<forall>bas. base = Some bas \<longrightarrow> v_fromBlock bas \<le> b"
  shows "map abs_version (filter (valid_at b) vs) = engine_states
    (engine_run keccak (filter (\<lambda>oper. r_blockNumber oper \<le> b) (js_sort compareOps records)) (engine_start base))"
  using versions_history [OF assms] by (simp add: state_at_def)

theorem entity_history_is_engine_state_witness:
  "\<exists>vs. foldEntityVersions (\<lambda>_. []) ''0xk'' sample_ops None = Inr vs \<and>
     map abs_version (filter (valid_at 8) vs) = engine_states
       (engine_run (\<lambda>_. []) (filter (\<lambda>oper. r_blockNumber oper \<le> 8) (js_sort compareOps sample_ops)) (engine_start None))"
  using sample_folds entity_history_is_engine_state [OF _ sample_base, of "\<lambda>_. []" "''0xk''" _ 8] by auto

text \<open>
  C7. The versions of an entity form one gapless chain: each ends at the block where the next one
  starts, only the last one is open, version numbers count up by one, blocks never go back, nothing
  follows a deletion, every later version was updated at its first block, and key, creator, creation block,
  position and operation index and creation flags never change.
\<close>

theorem entity_versions_chain:
  assumes "foldEntityVersions keccak key records base = Inr vs" "base_ok base records"
  shows "(\<forall>i. Suc i < length vs \<longrightarrow>
      v_toBlock (vs ! i) = Some (v_fromBlock (vs ! Suc i)) \<and> v_fromBlock (vs ! i) \<le> v_fromBlock (vs ! Suc i) \<and>
      v_version (vs ! Suc i) = v_version (vs ! i) + 1 \<and> \<not> v_deleted (vs ! i) \<and>
      v_entityKey (vs ! Suc i) = v_entityKey (vs ! i) \<and> v_creator (vs ! Suc i) = v_creator (vs ! i) \<and>
      v_createdAt (vs ! Suc i) = v_createdAt (vs ! i) \<and>
      v_createdPosition (vs ! Suc i) = v_createdPosition (vs ! i) \<and>
      v_createdOpIndex (vs ! Suc i) = v_createdOpIndex (vs ! i) \<and>
      v_updatedAt (vs ! Suc i) = v_fromBlock (vs ! Suc i) \<and>
      v_creationFlags (vs ! Suc i) = v_creationFlags (vs ! i)) \<and>
    (vs \<noteq> [] \<longrightarrow> v_toBlock (last vs) = None)"
  using linked_nth [OF versions_linked [OF assms]] linked_last_open [OF versions_linked [OF assms]]
  by (simp add: succeeds_def)

theorem entity_versions_chain_witness:
  "\<exists>vs. foldEntityVersions (\<lambda>_. []) ''0xk'' sample_ops None = Inr vs \<and>
     (vs \<noteq> [] \<longrightarrow> v_toBlock (last vs) = None)"
  using sample_folds entity_versions_chain [OF _ sample_base(1), of "\<lambda>_. []" "''0xk''"] by blast

text \<open>
  C8. Every version holds its attributes in the order of their name bytes, each name once, each value
  canonical for its type and a bytes attribute never indexed; its byte count and schema tag are those
  of its attributes.
\<close>

theorem entity_versions_well_formed:
  assumes "foldEntityVersions keccak key records base = Inr vs" "base_valid base" "v \<in> set vs"
  shows "sorted_wrt (\<lambda>a b. compareUtf8 (sa_name a) (sa_name b) \<le> 0) (v_attributes v) \<and>
    distinct (map sa_name (v_attributes v)) \<and> list_all attribute_ok (v_attributes v) \<and>
    (v_bytesSize v, v_schemaName v) = summarizeAttributes (v_attributes v)"
  using versions_well_formed [OF assms(1,2)] assms(3)
  by (auto simp: version_ok_def names_sorted_def compare_names_def list_all_iff)

theorem entity_versions_well_formed_witness:
  "\<exists>vs. foldEntityVersions (\<lambda>_. []) ''0xk'' sample_ops None = Inr vs \<and>
     (\<forall>v \<in> set vs. distinct (map sa_name (v_attributes v)))"
  using sample_folds entity_versions_well_formed [OF _ sample_base(2), of "\<lambda>_. []" "''0xk''" sample_ops] by blast

text \<open>
  C9. The versions depend on which operations were applied, not on the order the rows arrive in:
  two arrivals of the same rows, no two at one chain position, give the same result, error included.
\<close>

theorem entity_fold_order_independent:
  assumes "mset records = mset records'" "inj_on op_position (set records)"
  shows "foldEntityVersions keccak key records base = foldEntityVersions keccak key records' base"
  by (rule versions_order_independent [OF assms])

theorem entity_fold_order_independent_witness:
  "foldEntityVersions (\<lambda>_. []) ''0xk'' sample_ops None = foldEntityVersions (\<lambda>_. []) ''0xk'' (rev sample_ops) None"
  by (rule entity_fold_order_independent)
     (simp_all add: sample_ops_def sample_op_def op_position_def inj_on_def)

text \<open>
  C10. The fold stops only on a triple it cannot read: when every triple of every record is a
  tombstone or reads as a stored attribute, and none carries a decoder error, it returns versions.
\<close>

theorem entity_fold_total:
  assumes "\<forall>oper \<in> set records. readable keccak oper"
  shows "\<exists>vs. foldEntityVersions keccak key records base = Inr vs"
  by (rule foldEntityVersions_total [OF assms])

theorem entity_fold_total_witness: "\<exists>vs. foldEntityVersions (\<lambda>_. []) ''0xk'' sample_ops None = Inr vs"
  by (rule entity_fold_total [OF sample_readable])

end
