(* ===== verification/EntityEvents.thy ===== *)
theory EntityEvents
  imports EntityHistory
begin

text \<open>
  The pairing of operations with receipt events (\<open>attachEventsToOps\<close> of src/src/entityIndex.ts) against
  its contract: taken in chain order, the n-th operation of a kind reads the n-th registry log of that
  kind's topic in log order, and a log that names another entity changes nothing.
\<close>

section \<open>The queues\<close>

definition registry_topic :: "event_log \<Rightarrow> string option" where
  "registry_topic lg =
     (case el_topic0 lg of
        None \<Rightarrow> None
      | Some t \<Rightarrow> if to_lower (el_address lg) \<noteq> ARKIV_REGISTRY_ADDRESS \<or> t = [] then None else Some (to_lower t))"

definition topic_queue :: "event_log list \<Rightarrow> string \<Rightarrow> event_log list" where
  "topic_queue logs t = filter (\<lambda>lg. registry_topic lg = Some t) (js_sort compare_logs logs)"

definition queue_of :: "event_queues \<Rightarrow> string \<Rightarrow> event_log list" where
  "queue_of queues t = (case map_get queues t of None \<Rightarrow> [] | Some q \<Rightarrow> q)"

lemma queue_of_queue_log:
  "queue_of (queue_log lg queues) t = queue_of queues t @ (if registry_topic lg = Some t then [lg] else [])"
  by (auto simp: queue_log_def registry_topic_def queue_of_def Let_def split: option.splits if_splits)

lemma queue_of_event_queues: "queue_of (event_queues logs) t = topic_queue logs t"
proof -
  have "queue_of (fold queue_log ls queues) t =
      queue_of queues t @ filter (\<lambda>lg. registry_topic lg = Some t) ls" for ls queues
    by (induction ls arbitrary: queues) (simp_all add: queue_of_queue_log)
  then show ?thesis by (simp add: event_queues_def topic_queue_def queue_of_def)
qed

section \<open>The contract of the walk\<close>

definition topic_of :: "nat \<times> entity_op \<Rightarrow> string option" where
  "topic_of iop = EVENT_TOPIC_FOR_OPERATION (r_operationType (snd iop))"

text \<open>What the first log of a queue makes of an operation.\<close>

definition attached :: "event_log list \<Rightarrow> entity_op \<Rightarrow> fold_error + entity_op" where
  "attached queue oper =
     (case (EVENT_TOPIC_FOR_OPERATION (r_operationType oper), queue) of
        (Some topic0, lg # _) \<Rightarrow>
          if map_option to_lower (el_topic1 lg) \<noteq> Some (to_lower (r_entityKey oper)) then Inr oper
          else bind_result (decodeEvent topic0 lg) (\<lambda>event.
            Inr (case event of None \<Rightarrow> oper | Some ev \<Rightarrow> oper\<lparr>r_event := Some ev\<rparr>))
      | _ \<Rightarrow> Inr oper)"

text \<open>The logs left for the operation at place \<open>j\<close> of the walk.\<close>

definition remaining :: "(string \<Rightarrow> event_log list) \<Rightarrow> (nat \<times> entity_op) list \<Rightarrow> nat \<Rightarrow> event_log list" where
  "remaining Q walk j =
     (case topic_of (walk ! j) of
        None \<Rightarrow> []
      | Some t \<Rightarrow> drop (length (filter (\<lambda>p. topic_of p = Some t) (take j walk))) (Q t))"

lemma attach_step_attached:
  assumes "attach_step (i, oper) (queues, ops) = Inr (queues', ops')" "i < length ops" "ops ! i = oper"
  shows "attached (case topic_of (i, oper) of None \<Rightarrow> [] | Some t \<Rightarrow> queue_of queues t) oper = Inr (ops' ! i)"
    and "length ops' = length ops" and "k \<noteq> i \<Longrightarrow> ops' ! k = ops ! k"
    and "queue_of queues' t = (if topic_of (i, oper) = Some t then tl (queue_of queues t) else queue_of queues t)"
proof -
  have "attached (case topic_of (i, oper) of None \<Rightarrow> [] | Some t \<Rightarrow> queue_of queues t) oper = Inr (ops' ! i) \<and>
    length ops' = length ops \<and> (\<forall>k. k \<noteq> i \<longrightarrow> ops' ! k = ops ! k) \<and>
    (\<forall>t. queue_of queues' t = (if topic_of (i, oper) = Some t then tl (queue_of queues t) else queue_of queues t))"
  proof (cases "EVENT_TOPIC_FOR_OPERATION (r_operationType oper)")
    case None
    then show ?thesis using assms by (simp add: attach_step_def attached_def topic_of_def)
  next
    case (Some topic0)
    show ?thesis
    proof (cases "queue_of queues topic0")
      case Nil
      then have "queues' = queues" "ops' = ops" using assms(1) Some
        by (auto simp: attach_step_def queue_of_def split: option.splits)
      then show ?thesis using Some Nil assms(3) by (auto simp: attached_def topic_of_def)
    next
      case (Cons lg rest)
      then have get: "map_get queues topic0 = Some (lg # rest)" by (auto simp: queue_of_def split: option.splits)
      show ?thesis
      proof (cases "map_option to_lower (el_topic1 lg) = Some (to_lower (r_entityKey oper))")
        case False
        then show ?thesis using assms Some Cons get
          by (auto simp: attach_step_def attached_def topic_of_def queue_of_def)
      next
        case True
        then obtain event where ev: "decodeEvent topic0 lg = Inr event"
          using assms(1) Some get by (auto simp: attach_step_def bind_result_eq_Inr Let_def)
        then have "queues' = map_set topic0 rest queues"
          "ops' = (case event of None \<Rightarrow> ops | Some e \<Rightarrow> ops[i := oper\<lparr>r_event := Some e\<rparr>])"
          using assms(1) Some get True by (auto simp: attach_step_def Let_def split: option.splits)
        then show ?thesis using assms(2,3) Some Cons True ev
          by (auto simp: attached_def topic_of_def queue_of_def split: option.splits)
      qed
    qed
  qed
  then show "attached (case topic_of (i, oper) of None \<Rightarrow> [] | Some t \<Rightarrow> queue_of queues t) oper = Inr (ops' ! i)"
    "length ops' = length ops" "k \<noteq> i \<Longrightarrow> ops' ! k = ops ! k"
    "queue_of queues' t = (if topic_of (i, oper) = Some t then tl (queue_of queues t) else queue_of queues t)"
    by blast+
qed

lemma remaining_0: "remaining Q (p # walk) 0 = (case topic_of p of None \<Rightarrow> [] | Some t \<Rightarrow> Q t)"
  by (simp add: remaining_def split: option.splits)

lemma remaining_Cons:
  "remaining Q (p # walk) (Suc j) =
    remaining (\<lambda>t. if topic_of p = Some t then tl (Q t) else Q t) walk j"
  by (auto simp: remaining_def drop_Suc split: option.splits)

lemma attach_walk:
  assumes "fold_result attach_step walk (queues, ops) = Inr (queues', ops')"
    and "distinct (map fst walk)" and "\<forall>(i, oper) \<in> set walk. i < length ops \<and> ops ! i = oper"
  shows "length ops' = length ops \<and> (\<forall>k. k \<notin> fst ` set walk \<longrightarrow> ops' ! k = ops ! k) \<and>
    (\<forall>j < length walk. attached (remaining (queue_of queues) walk j) (snd (walk ! j)) = Inr (ops' ! fst (walk ! j)))"
  using assms
proof (induction walk arbitrary: queues ops)
  case Nil
  then show ?case by simp
next
  case (Cons p walk)
  obtain i oper where p: "p = (i, oper)" by (cases p)
  from Cons.prems(1) obtain q1 o1 where s1: "attach_step (i, oper) (queues, ops) = Inr (q1, o1)"
    "fold_result attach_step walk (q1, o1) = Inr (queues', ops')"
    by (auto simp: p bind_result_eq_Inr)
  have i: "i < length ops" "ops ! i = oper" "i \<notin> fst ` set walk" using Cons.prems p by auto
  note step = attach_step_attached [OF s1(1) i(1,2)]
  have rest: "\<forall>(k, opk) \<in> set walk. k < length o1 \<and> o1 ! k = opk"
  proof safe
    fix k opk assume "(k, opk) \<in> set walk"
    moreover from this have "k \<noteq> i" using i(3) by force
    ultimately show "k < length o1" "o1 ! k = opk" using Cons.prems(3) step(2,3) by auto
  qed
  have ih: "length ops' = length o1 \<and> (\<forall>k. k \<notin> fst ` set walk \<longrightarrow> ops' ! k = o1 ! k) \<and>
      (\<forall>j < length walk. attached (remaining (queue_of q1) walk j) (snd (walk ! j)) = Inr (ops' ! fst (walk ! j)))"
    by (rule Cons.IH [OF s1(2)]) (use Cons.prems rest in auto)
  have q1: "queue_of q1 = (\<lambda>t. if topic_of p = Some t then tl (queue_of queues t) else queue_of queues t)"
    using step(4) by (simp add: p fun_eq_iff)
  have first: "attached (remaining (queue_of queues) (p # walk) 0) oper = Inr (ops' ! i)"
    using step(1) ih i(3) by (simp add: remaining_0 p)
  have "attached (remaining (queue_of queues) (p # walk) j) (snd ((p # walk) ! j)) =
      Inr (ops' ! fst ((p # walk) ! j))" if "j < length (p # walk)" for j
    using that first ih by (cases j) (simp_all add: p remaining_Cons q1)
  moreover have "\<forall>k. k \<notin> fst ` set (p # walk) \<longrightarrow> ops' ! k = ops ! k" using ih step(3) p by auto
  ultimately show ?case using ih step(2) by simp
qed

definition chain_walk :: "entity_op list \<Rightarrow> (nat \<times> entity_op) list" where
  "chain_walk ops = js_sort (\<lambda>a b. compareOps (snd a) (snd b)) (zip [0..<length ops] ops)"

interpretation walk_order: js_comparator "\<lambda>a b. compareOps (snd a) (snd (b :: nat \<times> entity_op))"
  by unfold_locales (use ops_order.cmp_antisym ops_order.cmp_trans in blast)+

lemma chain_walk_indices: "mset (map fst (chain_walk ops)) = mset [0..<length ops]"
proof -
  have "mset (map fst (chain_walk ops)) = mset (map fst (zip [0..<length ops] ops))"
    by (simp only: chain_walk_def mset_map mset_js_sort)
  then show ?thesis by simp
qed

lemma chain_walk_distinct: "distinct (map fst (chain_walk ops))"
  using chain_walk_indices by (metis distinct_upt mset_eq_imp_distinct_iff)

lemma chain_walk_elements: "(i, oper) \<in> set (chain_walk ops) \<longleftrightarrow> i < length ops \<and> ops ! i = oper"
  by (force simp: chain_walk_def set_zip)

lemma length_chain_walk [simp]: "length (chain_walk ops) = length ops"
  by (simp add: chain_walk_def)

lemma chain_walk_sorted: "sorted_wrt (\<lambda>a b. compareOps (snd a) (snd b) \<le> 0) (chain_walk ops)"
  unfolding chain_walk_def by (rule walk_order.sorted_js_sort)

lemma attachEvents_pairs:
  assumes "attachEventsToOps ops logs = Inr ops'"
  shows "length ops' = length ops \<and>
    (\<forall>j < length ops. attached (remaining (topic_queue logs) (chain_walk ops) j) (snd (chain_walk ops ! j)) =
       Inr (ops' ! fst (chain_walk ops ! j)))"
proof -
  from assms obtain q where "fold_result attach_step (chain_walk ops) (event_queues logs, ops) = Inr (q, ops')"
    by (auto simp: attachEventsToOps_def chain_walk_def bind_result_eq_Inr)
  moreover have "\<forall>(i, oper) \<in> set (chain_walk ops). i < length ops \<and> ops ! i = oper"
    using chain_walk_elements by blast
  moreover have "queue_of (event_queues logs) = topic_queue logs" by (simp add: fun_eq_iff queue_of_event_queues)
  ultimately show ?thesis using attach_walk [OF _ chain_walk_distinct] by fastforce
qed

section \<open>What an event says\<close>

text \<open>The \<open>k\<close>-th 32-byte word of a log's data, and the number it writes.\<close>

definition data_word :: "event_log \<Rightarrow> nat \<Rightarrow> int \<Rightarrow> bool" where
  "data_word lg k v \<longleftrightarrow>
     (let body = (if take 2 (el_data lg) = ''0x'' then drop 2 (el_data lg) else el_data lg);
          word = take 64 (drop (64 * k) body)
      in length word = 64 \<and> list_all is_hex_digit word \<and> v = int (hex_val word))"

text \<open>The topic \<open>t\<close> as a word, and the address \<open>w\<close> in its lower 20 bytes.\<close>

definition address_in_topic :: "string \<Rightarrow> string \<Rightarrow> bool" where
  "address_in_topic t w \<longleftrightarrow>
     isHexOfLength w 40 \<and> to_lower w = w \<and> hex_val (drop 2 w) = hex_val (drop 2 t) mod 2 ^ 160"

text \<open>The log is one of the registry's, of the operation's kind, and names the operation's entity.\<close>

definition own_log :: "entity_op \<Rightarrow> event_log \<Rightarrow> bool" where
  "own_log oper lg \<longleftrightarrow>
     to_lower (el_address lg) = ARKIV_REGISTRY_ADDRESS \<and>
     EVENT_TOPIC_FOR_OPERATION (r_operationType oper) \<noteq> None \<and>
     map_option to_lower (el_topic0 lg) = EVENT_TOPIC_FOR_OPERATION (r_operationType oper) \<and>
     map_option to_lower (el_topic1 lg) = Some (to_lower (r_entityKey oper))"

lemma data_word_wordAt: "wordAt (el_data lg) k = Some v \<longleftrightarrow> data_word lg k v"
proof -
  have "(case strip_0x (el_data lg) of Some b \<Rightarrow> b | None \<Rightarrow> el_data lg) =
      (if take 2 (el_data lg) = ''0x'' then drop 2 (el_data lg) else el_data lg)"
    by (simp add: strip_0x_def)
  then show ?thesis by (simp only: wordAt_def data_word_def Let_def mult.commute) (auto split: if_splits)
qed

lemma hex_val_append: "hex_val (s @ u) = hex_val s * 16 ^ length u + hex_val u"
  by (simp add: hex_val_def from_digits_append)

lemma hex_val_less: "list_all is_hex_digit s \<Longrightarrow> hex_val s < 16 ^ length s"
proof -
  have "hex_digit_val c < 16" if "is_hex_digit c" for c
    using that by (auto simp: hex_digit_val_def is_hex_digit_def is_digit_def Let_def)
  then show "list_all is_hex_digit s \<Longrightarrow> ?thesis"
    using from_digits_less [of "map hex_digit_val s" 16] by (simp add: hex_val_def list_all_iff)
qed

lemma hex_val_lower: "list_all is_hex_digit s \<Longrightarrow> hex_val (to_lower s) = hex_val s"
  unfolding hex_val_def to_lower_def map_map
  by (rule arg_cong [where f = "from_digits 16"]) (simp add: list_all_iff hex_digit_val_lower)

lemma lower_20_bytes:
  assumes "isHexOfLength t 64"
  shows "address_in_topic t (''0x'' @ to_lower (drop 26 t))"
proof -
  obtain s where t: "t = ''0x'' @ s" "length s = 64" "list_all is_hex_digit s"
    using assms by (auto simp: isHexOfLength_def strip_0x_Some split: option.splits)
  let ?low = "drop 24 s"
  have low: "length ?low = 40" "list_all is_hex_digit ?low" using t by (auto simp: list_all_iff dest: in_set_dropD)
  have "hex_val s = hex_val (take 24 s @ ?low)" by simp
  then have "hex_val s mod 16 ^ 40 = hex_val ?low mod 16 ^ 40" unfolding hex_val_append low(1) by simp
  also have "\<dots> = hex_val ?low" using hex_val_less [OF low(2)] unfolding low(1) by simp
  finally have "hex_val ?low = hex_val s mod 2 ^ 160" by simp
  moreover have "isHexOfLength (''0x'' @ to_lower ?low) 40"
    using low by (simp add: isHexOfLength_def) (auto simp: to_lower_def list_all_iff is_hex_digit_lower)
  moreover have "drop 26 t = ?low" by (simp add: t(1))
  ultimately show ?thesis using hex_val_lower [OF low(2)] t(1) by (simp add: address_in_topic_def to_lower_0x)
qed

lemma decodeEvent_says:
  assumes "decodeEvent topic0 lg = Inr (Some ev)"
  shows "(\<forall>e. ev_expiresAt ev = Some e \<longrightarrow> 0 \<le> e \<and> e \<le> U64_MAX \<and> data_word lg 0 e)"
    "(\<forall>f. ev_creationFlags ev = Some f \<longrightarrow> 0 \<le> f \<and> f \<le> 255 \<and> data_word lg 1 f)"
    "(\<forall>w. ev_newOwner ev = Some w \<longrightarrow> (\<exists>t. el_topic3 lg = Some t \<and> length t = 66 \<and> w = ''0x'' @ to_lower (drop 26 t)))"
    "topic0 = ENTITY_EVENT_TOPICS_created \<or> topic0 = ENTITY_EVENT_TOPICS_expiryExtended \<longleftrightarrow> ev_expiresAt ev \<noteq> None"
    "topic0 = ENTITY_EVENT_TOPICS_ownershipTransferred \<longleftrightarrow> ev_newOwner ev \<noteq> None"
proof -
  have word: "0 \<le> w \<and> w \<le> b \<and> data_word lg i w" if "boundedWord lg i b = Inr (Some w)" for i b w
  proof -
    have "wordAt (el_data lg) i = Some w" "w \<le> b"
      using that by (auto simp: boundedWord_def Let_def split: option.splits if_splits)
    then show ?thesis using data_word_wordAt [of lg i w] by (auto simp: data_word_def Let_def)
  qed
  have topics: "ENTITY_EVENT_TOPICS_created \<noteq> ENTITY_EVENT_TOPICS_ownershipTransferred"
    "ENTITY_EVENT_TOPICS_expiryExtended \<noteq> ENTITY_EVENT_TOPICS_ownershipTransferred"
    by (simp_all add: ENTITY_EVENT_TOPICS_created_def ENTITY_EVENT_TOPICS_expiryExtended_def
        ENTITY_EVENT_TOPICS_ownershipTransferred_def)
  have "(\<forall>e. ev_expiresAt ev = Some e \<longrightarrow> 0 \<le> e \<and> e \<le> U64_MAX \<and> data_word lg 0 e) \<and>
    (\<forall>f. ev_creationFlags ev = Some f \<longrightarrow> 0 \<le> f \<and> f \<le> 255 \<and> data_word lg 1 f) \<and>
    (\<forall>w. ev_newOwner ev = Some w \<longrightarrow> (\<exists>t. el_topic3 lg = Some t \<and> length t = 66 \<and> w = ''0x'' @ to_lower (drop 26 t))) \<and>
    (topic0 = ENTITY_EVENT_TOPICS_created \<or> topic0 = ENTITY_EVENT_TOPICS_expiryExtended \<longleftrightarrow> ev_expiresAt ev \<noteq> None) \<and>
    (topic0 = ENTITY_EVENT_TOPICS_ownershipTransferred \<longleftrightarrow> ev_newOwner ev \<noteq> None)"
  proof (cases "topic0 = ENTITY_EVENT_TOPICS_created \<or> topic0 = ENTITY_EVENT_TOPICS_expiryExtended")
    case True
    then obtain e flags where "boundedWord lg 0 U64_MAX = Inr (Some e)"
      "flags = None \<or> boundedWord lg 1 0xff = Inr flags"
      "ev = empty_event\<lparr>ev_expiresAt := Some e, ev_creationFlags := flags\<rparr>"
      using assms
      by (fastforce simp: decodeEvent_def bind_result_eq_Inr empty_event_def split: if_splits option.splits)
    then show ?thesis using word [of 0 U64_MAX e] word [of 1 255] True topics by (auto simp: empty_event_def)
  next
    case False
    have "last_n 40 (to_lower t) = to_lower (drop 26 t)" if "length t = 66" for t
      using that by (simp add: last_n_def to_lower_def drop_map)
    then show ?thesis using False assms topics
      by (auto simp: decodeEvent_def empty_event_def split: if_splits option.splits)
  qed
  then show "(\<forall>e. ev_expiresAt ev = Some e \<longrightarrow> 0 \<le> e \<and> e \<le> U64_MAX \<and> data_word lg 0 e)"
    "(\<forall>f. ev_creationFlags ev = Some f \<longrightarrow> 0 \<le> f \<and> f \<le> 255 \<and> data_word lg 1 f)"
    "(\<forall>w. ev_newOwner ev = Some w \<longrightarrow> (\<exists>t. el_topic3 lg = Some t \<and> length t = 66 \<and> w = ''0x'' @ to_lower (drop 26 t)))"
    "topic0 = ENTITY_EVENT_TOPICS_created \<or> topic0 = ENTITY_EVENT_TOPICS_expiryExtended \<longleftrightarrow> ev_expiresAt ev \<noteq> None"
    "topic0 = ENTITY_EVENT_TOPICS_ownershipTransferred \<longleftrightarrow> ev_newOwner ev \<noteq> None"
    by blast+
qed

lemma event_topics:
  "EVENT_TOPIC_FOR_OPERATION t = Some ENTITY_EVENT_TOPICS_created \<longleftrightarrow> t = OPERATION_CREATE"
  "EVENT_TOPIC_FOR_OPERATION t = Some ENTITY_EVENT_TOPICS_expiryExtended \<longleftrightarrow> t = OPERATION_EXTEND"
  "EVENT_TOPIC_FOR_OPERATION t = Some ENTITY_EVENT_TOPICS_ownershipTransferred \<longleftrightarrow> t = OPERATION_TRANSFER"
  by (auto simp: EVENT_TOPIC_FOR_OPERATION_def operation_codes ENTITY_EVENT_TOPICS_created_def
      ENTITY_EVENT_TOPICS_expiryExtended_def ENTITY_EVENT_TOPICS_ownershipTransferred_def
      ENTITY_EVENT_TOPICS_patched_def ENTITY_EVENT_TOPICS_deleted_def split: if_splits)

lemma attached_log:
  assumes "attached q oper = Inr oper'"
    and "\<And>lg topic0. lg \<in> set q \<Longrightarrow> topic_of (i, oper) = Some topic0 \<Longrightarrow> lg \<in> set logs \<and> registry_topic lg = Some topic0"
  shows "oper' = oper \<or> (\<exists>ev topic0 lg. oper' = oper\<lparr>r_event := Some ev\<rparr> \<and> decodeEvent topic0 lg = Inr (Some ev) \<and>
    EVENT_TOPIC_FOR_OPERATION (r_operationType oper) = Some topic0 \<and> lg \<in> set logs \<and> own_log oper lg)"
proof (cases "oper' = oper")
  case False
  then obtain topic0 lg rest ev where step: "EVENT_TOPIC_FOR_OPERATION (r_operationType oper) = Some topic0" "q = lg # rest"
    "map_option to_lower (el_topic1 lg) = Some (to_lower (r_entityKey oper))"
    "decodeEvent topic0 lg = Inr (Some ev)" "oper' = oper\<lparr>r_event := Some ev\<rparr>"
    using assms(1) by (auto simp: attached_def bind_result_eq_Inr split: option.splits list.splits if_splits)
  have lg: "lg \<in> set logs" "registry_topic lg = Some topic0" using assms(2) [of lg topic0] step(1,2) by (simp_all add: topic_of_def)
  then have "to_lower (el_address lg) = ARKIV_REGISTRY_ADDRESS" "map_option to_lower (el_topic0 lg) = Some topic0"
    by (auto simp: registry_topic_def split: option.splits if_splits)
  then have "own_log oper lg" using step(1,3) by (simp add: own_log_def)
  then show ?thesis using step lg(1) by blast
qed simp

lemma remaining_logs:
  assumes "lg \<in> set (remaining (topic_queue logs) walk j)" "topic_of (walk ! j) = Some t"
  shows "lg \<in> set logs \<and> registry_topic lg = Some t"
  using assms by (auto simp: remaining_def topic_queue_def dest!: in_set_dropD)

section \<open>Properties\<close>

text \<open>Two creates and an extension in one transaction, with a log of another contract between.\<close>

definition sample_log :: "int \<Rightarrow> string \<Rightarrow> string \<Rightarrow> string \<Rightarrow> event_log" where
  "sample_log i addr topic key =
     \<lparr>el_logIndex = i, el_address = addr, el_topic0 = Some topic, el_topic1 = Some key, el_topic2 = None,
      el_topic3 = None, el_data = ''0x'' @ replicate 62 CHR ''0'' @ ''2a''\<rparr>"

definition sample_tx :: "entity_op list" where
  "sample_tx =
     [(sample_op 5 3 [])\<lparr>r_opIndex := 2\<rparr>, (sample_op 5 1 [])\<lparr>r_entityKey := ''0xa''\<rparr>,
      (sample_op 5 1 [])\<lparr>r_entityKey := ''0xb'', r_opIndex := 1\<rparr>]"

definition sample_logs :: "event_log list" where
  "sample_logs =
     [sample_log 7 ARKIV_REGISTRY_ADDRESS ENTITY_EVENT_TOPICS_created ''0xB'',
      sample_log 3 ARKIV_REGISTRY_ADDRESS ENTITY_EVENT_TOPICS_created ''0xA'',
      sample_log 5 ''0xother'' ENTITY_EVENT_TOPICS_created ''0xB'',
      sample_log 9 ARKIV_REGISTRY_ADDRESS ENTITY_EVENT_TOPICS_expiryExtended ''0xother'']"

lemma sample_attaches:
  "(case attachEventsToOps sample_tx sample_logs of
      Inl _ \<Rightarrow> False
    | Inr ops \<Rightarrow> map (\<lambda>oper. map_option ev_expiresAt (r_event oper)) ops = [None, Some (Some 42), Some (Some 42)])"
  by code_simp

lemma sample_attaches_ok: "\<exists>ops'. attachEventsToOps sample_tx sample_logs = Inr ops'"
  using sample_attaches by (auto split: sum.splits)

text \<open>
  C14. A transaction's operations pair with its receipt's events in order: walking the operations in
  chain order, each takes the registry log of its kind that as many earlier operations of that kind
  leave over, in log order; the operation keeps its place and carries the event decoded from that log
  if the log names its entity, and is left as it was otherwise.
\<close>

theorem events_pair_in_order:
  assumes "attachEventsToOps ops logs = Inr ops'"
  shows "length ops' = length ops \<and>
    (\<forall>j < length ops. attached (remaining (topic_queue logs) (chain_walk ops) j) (snd (chain_walk ops ! j)) =
       Inr (ops' ! fst (chain_walk ops ! j)))"
  by (rule attachEvents_pairs [OF assms])

theorem events_pair_in_order_witness:
  "\<exists>ops'. attachEventsToOps sample_tx sample_logs = Inr ops' \<and>
    (\<forall>j < 3. attached (remaining (topic_queue sample_logs) (chain_walk sample_tx) j) (snd (chain_walk sample_tx ! j)) =
       Inr (ops' ! fst (chain_walk sample_tx ! j)))"
proof -
  obtain ops' where "attachEventsToOps sample_tx sample_logs = Inr ops'" using sample_attaches_ok by blast
  moreover have "length sample_tx = 3" by (simp add: sample_tx_def)
  ultimately show ?thesis using events_pair_in_order [of sample_tx sample_logs ops'] by simp
qed

text \<open>
  C15. An operation changes in nothing but its event, and only a log of the receipt that the registry
  wrote, of the operation's kind, naming the operation's own entity sets it. What the event says is what
  that log says and within what the engine can say: an expiry is the first word of the data and a 64-bit
  value, the creation flags are the second and a byte, and a new owner is the lower 20 bytes of the fourth
  topic, which for a topic that is a 32-byte word is a lowercase address. The event of a create or an
  extension has an expiry, that of a transfer an owner, and no other event has one.
\<close>

theorem attached_events_bounded:
  assumes "attachEventsToOps ops logs = Inr ops'" "i < length ops"
  shows "ops' ! i = ops ! i \<or> (\<exists>ev lg. ops' ! i = (ops ! i)\<lparr>r_event := Some ev\<rparr> \<and>
    lg \<in> set logs \<and> own_log (ops ! i) lg \<and>
    (\<forall>e. ev_expiresAt ev = Some e \<longrightarrow> 0 \<le> e \<and> e \<le> U64_MAX \<and> data_word lg 0 e) \<and>
    (\<forall>f. ev_creationFlags ev = Some f \<longrightarrow> 0 \<le> f \<and> f \<le> 255 \<and> data_word lg 1 f) \<and>
    (\<forall>w. ev_newOwner ev = Some w \<longrightarrow>
       (\<exists>t. el_topic3 lg = Some t \<and> length t = 66 \<and> length w = 42 \<and> take 2 w = ''0x'' \<and>
          drop 2 w = to_lower (drop 26 t) \<and> (isHexOfLength t 64 \<longrightarrow> address_in_topic t w))) \<and>
    (r_operationType (ops ! i) \<in> {OPERATION_CREATE, OPERATION_EXTEND} \<longleftrightarrow> ev_expiresAt ev \<noteq> None) \<and>
    (r_operationType (ops ! i) = OPERATION_TRANSFER \<longleftrightarrow> ev_newOwner ev \<noteq> None))"
proof -
  have "(i, ops ! i) \<in> set (chain_walk ops)" using assms(2) by (simp add: chain_walk_elements)
  then obtain j where j: "j < length ops" "chain_walk ops ! j = (i, ops ! i)"
    by (metis in_set_conv_nth length_chain_walk)
  then have att: "attached (remaining (topic_queue logs) (chain_walk ops) j) (ops ! i) = Inr (ops' ! i)"
    using attachEvents_pairs [OF assms(1)] by fastforce
  show ?thesis
  proof (cases "ops' ! i = ops ! i")
    case False
    then obtain ev topic0 lg where ev: "ops' ! i = (ops ! i)\<lparr>r_event := Some ev\<rparr>" "decodeEvent topic0 lg = Inr (Some ev)"
      "EVENT_TOPIC_FOR_OPERATION (r_operationType (ops ! i)) = Some topic0" "lg \<in> set logs" "own_log (ops ! i) lg"
      using attached_log [OF att, of i logs] remaining_logs [of _ logs "chain_walk ops" j] j(2) by auto
    note says = decodeEvent_says [OF ev(2)]
    have kinds: "r_operationType (ops ! i) \<in> {OPERATION_CREATE, OPERATION_EXTEND} \<longleftrightarrow> ev_expiresAt ev \<noteq> None"
      "r_operationType (ops ! i) = OPERATION_TRANSFER \<longleftrightarrow> ev_newOwner ev \<noteq> None"
      using says(4,5) ev(3) event_topics [of "r_operationType (ops ! i)"] by auto
    have owner: "\<forall>w. ev_newOwner ev = Some w \<longrightarrow>
        (\<exists>t. el_topic3 lg = Some t \<and> length t = 66 \<and> length w = 42 \<and> take 2 w = ''0x'' \<and>
          drop 2 w = to_lower (drop 26 t) \<and> (isHexOfLength t 64 \<longrightarrow> address_in_topic t w))"
      using says(3) lower_20_bytes by fastforce
    show ?thesis using ev(1,4,5) says(1,2) owner kinds by blast
  qed simp
qed

text \<open>A transfer of \<open>0xk\<close>, whose log names the new owner in its fourth topic, and a log of another entity.\<close>

definition sample_owner :: string where
  "sample_owner = ''0x'' @ concat (replicate 20 ''bE'')"

definition sample_transfer_logs :: "string \<Rightarrow> event_log list" where
  "sample_transfer_logs key =
     [(sample_log 4 ARKIV_REGISTRY_ADDRESS ENTITY_EVENT_TOPICS_ownershipTransferred key)
        \<lparr>el_topic3 := Some (''0x'' @ replicate 24 CHR ''0'' @ drop 2 sample_owner)\<rparr>]"

lemma sample_transfer_attaches:
  "(case attachEventsToOps [sample_op 5 4 []] (sample_transfer_logs ''0xK'') of
      Inl _ \<Rightarrow> False
    | Inr ops \<Rightarrow> map (\<lambda>oper. map_option ev_newOwner (r_event oper)) ops = [Some (Some (to_lower sample_owner))])"
  "attachEventsToOps [sample_op 5 4 []] (sample_transfer_logs ''0xj'') = Inr [sample_op 5 4 []]"
  by code_simp+

theorem attached_events_bounded_witness:
  "\<exists>ops' w t. attachEventsToOps [sample_op 5 4 []] (sample_transfer_logs ''0xK'') = Inr ops' \<and>
    map_option ev_newOwner (r_event (ops' ! 0)) = Some (Some w) \<and> isHexOfLength t 64 \<and>
    address_in_topic t w \<and>
    attachEventsToOps [sample_op 5 4 []] (sample_transfer_logs ''0xj'') = Inr [sample_op 5 4 []]"
proof -
  let ?ops = "[sample_op 5 4 []]" and ?logs = "sample_transfer_logs ''0xK''"
  obtain ops' where run: "attachEventsToOps ?ops ?logs = Inr ops'"
    "map (\<lambda>oper. map_option ev_newOwner (r_event oper)) ops' = [Some (Some (to_lower sample_owner))]"
    using sample_transfer_attaches(1) by (auto split: sum.splits)
  have read: "map_option ev_newOwner (r_event (ops' ! 0)) = Some (Some (to_lower sample_owner))"
    using run(2) by (cases ops') auto
  have fresh: "r_event (?ops ! 0) = None" by (simp add: sample_op_def)
  have word: "isHexOfLength t 64" if "lg \<in> set ?logs" "el_topic3 lg = Some t" for lg t
  proof -
    have "list_all (\<lambda>lg. isHexOfLength (the (el_topic3 lg)) 64) ?logs" by code_simp
    then show ?thesis using that by (auto simp: list_all_iff)
  qed
  have "0 < length ?ops" by simp
  from attached_events_bounded [OF run(1) this] read fresh
  obtain ev lg where ev: "ops' ! 0 = (?ops ! 0)\<lparr>r_event := Some ev\<rparr>" "lg \<in> set ?logs"
    "\<forall>w. ev_newOwner ev = Some w \<longrightarrow>
       (\<exists>t. el_topic3 lg = Some t \<and> length t = 66 \<and> length w = 42 \<and> take 2 w = ''0x'' \<and>
          drop 2 w = to_lower (drop 26 t) \<and> (isHexOfLength t 64 \<longrightarrow> address_in_topic t w))"
    by auto
  have "ev_newOwner ev = Some (to_lower sample_owner)" using read ev(1) by simp
  then obtain t where "el_topic3 lg = Some t" "isHexOfLength t 64 \<longrightarrow> address_in_topic t (to_lower sample_owner)"
    using ev(3) by blast
  then show ?thesis using run(1) read word [OF ev(2)] sample_transfer_attaches(2) by blast
qed

end
