(* ===== verification/DecoderContract.thy ===== *)
theory DecoderContract
  imports EntityHistory
begin

text \<open>
  What the strict reading of the decoder's answer (src/src/arkivOperations.ts) guarantees to the code
  behind it: the shape of every accepted operation, that an unflagged triple can be folded, that the
  stored form of a triple reads back, and what completing and collecting a block's operations does.
\<close>

section \<open>Accepted triples\<close>

definition attribute_shape :: "op_attribute \<Rightarrow> bool" where
  "attribute_shape a \<longleftrightarrow>
     0 \<le> a_typeId a \<and> a_typeId a \<le> 255 \<and> a_indexed a = (a_typeId a AND INDEXED_TYPE_FLAG \<noteq> 0) \<and>
     0 \<le> a_size a \<and> a_size a \<le> max_safe_integer \<and>
     (\<forall>k. a_keccak256 a = Some k \<longrightarrow> isHexOfLength k 64 \<and> to_lower k = k) \<and>
     (a_typeId a AND NOT INDEXED_TYPE_FLAG = BYTES_TYPE_ID \<longrightarrow> a_value a = JNull)"

lemma lower_hex_char: "is_lower_hex c \<Longrightarrow> is_hex_digit c \<and> to_lower_char c = c"
  by (auto simp: is_lower_hex_def is_hex_digit_def is_digit_def to_lower_char_def)

lemma isHexOfBytes_text:
  "isHexOfBytes n v \<Longrightarrow> \<exists>k. v = JStr k \<and> isHexOfLength k (n * 2) \<and> to_lower k = k"
proof -
  assume h: "isHexOfBytes n v"
  then obtain k body where k: "v = JStr k" "strip_0x k = Some body" "list_all is_lower_hex body" "length k = 2 + n * 2"
    by (auto simp: isHexOfBytes_def split: jsval.splits option.splits)
  then have body: "k = CHR ''0'' # CHR ''x'' # body" by (simp add: strip_0x_Some)
  have "to_lower body = body" using k(3) lower_hex_char by (induction body) (auto simp: to_lower_def)
  moreover have "list_all is_hex_digit body" using k(3) lower_hex_char by (auto simp: list_all_iff)
  ultimately show ?thesis using k body by (auto simp: isHexOfLength_def to_lower_0x)
qed

lemma isNonNegativeInteger_int: "isNonNegativeInteger v \<Longrightarrow> v = JInt (int_of v) \<and> 0 \<le> int_of v \<and> int_of v \<le> max_safe_integer"
  by (cases v) (auto simp: is_safe_integer_def)

text \<open>The facts the shape check leaves.\<close>

lemma triple_shapeD:
  assumes "triple_shape i j fs = Inr ()"
  shows "isByte (obj_get fs ''typeId'')" "isNonNegativeInteger (obj_get fs ''size'')"
    "obj_get fs ''keccak256'' = JUndef \<or> isHexOfBytes 32 (obj_get fs ''keccak256'')"
    "obj_get fs ''error'' = JUndef \<or> isString (obj_get fs ''error'')"
  using assms by (auto simp: triple_shape_def bind_result_eq_Inr Let_def)

lemma parseDecoderAttributeE:
  assumes "parseDecoderAttribute keccak i j v = Inr a"
  obtains fs where "triple_shape i j fs = Inr ()"
    and "a_typeId a = int_of (obj_get fs ''typeId'')" "a_value a = obj_get fs ''value''"
    and "a_indexed a = (a_typeId a AND INDEXED_TYPE_FLAG \<noteq> 0)" "a_size a = int_of (obj_get fs ''size'')"
    and "a_keccak256 a = opt_str (obj_get fs ''keccak256'')" "a_error a = opt_str (obj_get fs ''error'')"
    and "a_typeId a AND NOT INDEXED_TYPE_FLAG = BYTES_TYPE_ID \<Longrightarrow> a_value a = JNull"
    and "obj_get fs ''error'' = JUndef \<Longrightarrow>
      \<not> unflaggedTripleFault keccak (a_typeId a) (str_of (obj_get fs ''type'')) (a_value a)
          (a_typeId a AND NOT INDEXED_TYPE_FLAG = BYTES_TYPE_ID) (obj_get fs ''keccak256'')"
proof -
  obtain fs where fs: "obj_fields v = Some fs" using assms by (auto simp: parseDecoderAttribute_def split: option.splits)
  show thesis
    by (rule that [of fs]; use assms fs in \<open>simp add: parseDecoderAttribute_def bind_result_eq_Inr Let_def\<close>)
       auto
qed

lemma opt_str_isString: "opt_str v = None \<Longrightarrow> v = JUndef \<or> isString v \<Longrightarrow> v = JUndef"
  by (cases v) auto

lemma attribute_accepted_shape:
  assumes "parseDecoderAttribute keccak i j v = Inr a"
  shows "attribute_shape a"
proof -
  obtain fs where fs: "triple_shape i j fs = Inr ()" "a_typeId a = int_of (obj_get fs ''typeId'')"
    "a_indexed a = (a_typeId a AND INDEXED_TYPE_FLAG \<noteq> 0)" "a_size a = int_of (obj_get fs ''size'')"
    "a_keccak256 a = opt_str (obj_get fs ''keccak256'')"
    "a_typeId a AND NOT INDEXED_TYPE_FLAG = BYTES_TYPE_ID \<Longrightarrow> a_value a = JNull"
    by (rule parseDecoderAttributeE [OF assms]) blast
  note shape = triple_shapeD [OF fs(1)]
  have "isHexOfLength k 64 \<and> to_lower k = k" if "a_keccak256 a = Some k" for k
    using shape(3) that fs(5) isHexOfBytes_text [of 32 "obj_get fs ''keccak256''"] by auto
  then show ?thesis
    using shape(1,2) fs isNonNegativeInteger_int unfolding attribute_shape_def isByte_def by metis
qed

lemma attribute_accepted_readable:
  assumes "parseDecoderAttribute keccak i j v = Inr a" "a_error a = None"
  shows "a_typeId a = TOMBSTONE_TYPE_ID \<or> storedAttributeOf keccak a \<noteq> None"
proof -
  obtain fs where fs: "triple_shape i j fs = Inr ()" "a_size a = int_of (obj_get fs ''size'')"
    "a_keccak256 a = opt_str (obj_get fs ''keccak256'')" "a_error a = opt_str (obj_get fs ''error'')"
    and ok: "obj_get fs ''error'' = JUndef \<Longrightarrow>
      \<not> unflaggedTripleFault keccak (a_typeId a) (str_of (obj_get fs ''type'')) (a_value a)
          (a_typeId a AND NOT INDEXED_TYPE_FLAG = BYTES_TYPE_ID) (obj_get fs ''keccak256'')"
    by (rule parseDecoderAttributeE [OF assms(1)]) blast
  note shape = triple_shapeD [OF fs(1)]
  have "obj_get fs ''error'' = JUndef" using opt_str_isString assms(2) fs(4) shape(4) by simp
  note ok = ok [OF this]
  show ?thesis
  proof (cases "a_typeId a = TOMBSTONE_TYPE_ID")
    case False
    then obtain tag where tag: "typeTagOfRawId (a_typeId a) = Some tag"
      using ok by (auto simp: unflaggedTripleFault_def split: option.splits)
    have flag: "INDEXED_FLAG = INDEXED_TYPE_FLAG" by (simp add: INDEXED_FLAG_def INDEXED_TYPE_FLAG_def)
    have bytes: "tag = TBytes \<longleftrightarrow> a_typeId a AND NOT INDEXED_TYPE_FLAG = BYTES_TYPE_ID"
      using tag by (auto simp: typeTagOfRawId_def TYPE_TAGS_BY_ID_def BYTES_TYPE_ID_def flag split: if_splits)
    show ?thesis
    proof (cases "tag = TBytes")
      case True
      then have fault: "a_typeId a AND INDEXED_TYPE_FLAG = 0" "obj_get fs ''keccak256'' \<noteq> JUndef"
        using ok False tag bytes by (auto simp: unflaggedTripleFault_def split: if_splits)
      then obtain k where k: "a_keccak256 a = Some k" "isHexOfLength k 64"
        using shape(3) fs(3) isHexOfBytes_text [of 32 "obj_get fs ''keccak256''"] by auto
      have "storedBytesValue k (a_size a) \<noteq> None"
        using k(2) isNonNegativeInteger_int [OF shape(2)] fs(2) by (auto simp: storedBytesValue_def is_safe_integer_def)
      then show ?thesis using False tag True assms(2) fault(1) k(1) flag
        by (auto simp: storedAttributeOf_def Let_def)
    next
      case other: False
      then have "fromWireAttributeValue keccak tag (a_value a) \<noteq> None"
        using ok False tag bytes by (auto simp: unflaggedTripleFault_def split: if_splits option.splits)
      then show ?thesis using False tag other assms(2) by (auto simp: storedAttributeOf_def Let_def)
    qed
  qed simp
qed

section \<open>Accepted operations\<close>

definition operation_shape :: "arkiv_operation \<Rightarrow> bool" where
  "operation_shape oper \<longleftrightarrow>
     0 \<le> o_operationType oper \<and> o_operationType oper \<le> max_safe_integer \<and>
     0 \<le> o_bytesSize oper \<and> o_bytesSize oper \<le> INT32_MAX \<and>
     (\<forall>k. o_entityKey oper = Some k \<longrightarrow> isHexOfLength k 64 \<and> to_lower k = k) \<and>
     (\<forall>w. o_newOwner oper = Some w \<longrightarrow> isHexOfLength w 40 \<and> to_lower w = w) \<and>
     (\<forall>f. o_creationFlags oper = Some f \<longrightarrow> 0 \<le> f \<and> f \<le> 255) \<and>
     (\<forall>e. o_expiresAt oper = Some e \<longrightarrow> all_digits e \<and> int (dec_val e) \<le> U64_MAX) \<and>
     (\<forall>l. o_minLifetime oper = Some l \<longrightarrow> all_digits l \<and> int (dec_val l) \<le> U64_MAX) \<and>
     (\<forall>s. o_salt oper = Some s \<longrightarrow> all_digits s \<and> int (dec_val s) \<le> U128_MAX) \<and>
     o_schemaName oper = schemaNameOf (o_attributes oper) \<and> list_all attribute_shape (o_attributes oper)"

lemma field_Inr: "field i fs name ok = Inr v \<Longrightarrow> ok v"
  by (auto simp: field_def split: option.splits if_splits)

lemma nullable_hex:
  "nullable (isHexOfBytes n) v \<Longrightarrow> opt_str v = Some k \<Longrightarrow> isHexOfLength k (n * 2) \<and> to_lower k = k"
  using isHexOfBytes_text [of n v] by (auto simp: nullable_def)

lemma nullable_decimal:
  "nullable (isDecimalUpTo b) v \<Longrightarrow> opt_str v = Some s \<Longrightarrow> all_digits s \<and> int (dec_val s) \<le> b"
  by (auto simp: nullable_def isDecimalUpTo_def split: jsval.splits)

lemma nullable_byte: "nullable isByte v \<Longrightarrow> opt_int v = Some f \<Longrightarrow> 0 \<le> f \<and> f \<le> 255"
  by (cases v) (auto simp: nullable_def isByte_def)

lemma map_index_result_set:
  "map_index_result f xs = Inr ys \<Longrightarrow> y \<in> set ys \<Longrightarrow> \<exists>i x. x \<in> set xs \<and> f i x = Inr y"
  unfolding map_index_result_def by (drule (1) map_result_set) (auto dest: set_zip_rightD)

lemma map_index_result_nth:
  "map_index_result f xs = Inr ys \<Longrightarrow> length ys = length xs \<and> (\<forall>i < length xs. f i (xs ! i) = Inr (ys ! i))"
  unfolding map_index_result_def using map_result_length map_result_nth by fastforce

lemma operation_accepted:
  assumes "parseDecoderOperation keccak i v = Inr oper"
  shows "operation_shape oper" "o_opIndex oper = int i"
    "\<forall>a \<in> set (o_attributes oper). \<exists>j w. parseDecoderAttribute keccak i j w = Inr a"
proof -
  from assms obtain fs ty nm key salt flags ex ml perm ow sz raw as where p:
    "field i fs ''operationType'' isNonNegativeInteger = Inr ty" "field i fs ''operation'' isString = Inr nm"
    "field i fs ''entityKey'' (nullable (isHexOfBytes 32)) = Inr key"
    "field i fs ''salt'' (nullable (isDecimalUpTo U128_MAX)) = Inr salt"
    "field i fs ''creationFlags'' (nullable isByte) = Inr flags"
    "field i fs ''expiresAt'' (nullable (isDecimalUpTo U64_MAX)) = Inr ex"
    "field i fs ''minLifetime'' (nullable (isDecimalUpTo U64_MAX)) = Inr ml"
    "field i fs ''permanent'' (nullable isBoolean) = Inr perm"
    "field i fs ''newOwner'' (nullable (isHexOfBytes 20)) = Inr ow"
    "field i fs ''bytesSize'' (\<lambda>v. isNonNegativeInteger v \<and> int_of v \<le> INT32_MAX) = Inr sz"
    "field i fs ''attributes'' isArray = Inr raw"
    "map_index_result (parseDecoderAttribute keccak i) (arr_of raw) = Inr as"
    and oper: "oper = \<lparr>o_opIndex = int i, o_operationType = int_of ty, o_operation = str_of nm,
       o_entityKey = opt_str key, o_salt = opt_str salt, o_creationFlags = opt_int flags,
       o_expiresAt = opt_str ex, o_minLifetime = opt_str ml, o_newOwner = opt_str ow, o_bytesSize = int_of sz,
       o_schemaName = schemaNameOf as, o_attributes = as, o_error = opt_str (obj_get fs ''error'')\<rparr>"
    by (auto simp: parseDecoderOperation_def bind_result_eq_Inr split: option.splits)
  note f = p(1-11) [THEN field_Inr]
  show attrs: "\<forall>a \<in> set (o_attributes oper). \<exists>j w. parseDecoderAttribute keccak i j w = Inr a"
    using map_index_result_set [OF p(12)] unfolding oper arkiv_operation.simps by blast
  show "o_opIndex oper = int i" by (simp add: oper)
  have "list_all attribute_shape as"
    using attrs attribute_accepted_shape oper by (auto simp: list_all_iff)
  then show "operation_shape oper"
    using isNonNegativeInteger_int [OF f(1)] isNonNegativeInteger_int [of sz] f(10)
      nullable_hex [OF f(3)] nullable_hex [OF f(9)] nullable_byte [OF f(5)] nullable_decimal [OF f(4)]
      nullable_decimal [OF f(6)] nullable_decimal [OF f(7)]
    by (simp add: operation_shape_def oper)
qed

lemma decodeCalldata_accepted:
  assumes "decodeCalldata keccak post data = Inr (Some ops)"
  shows "\<forall>oper \<in> set ops. operation_shape oper \<and>
    (\<forall>a \<in> set (o_attributes oper). \<exists>i j w. parseDecoderAttribute keccak i j w = Inr a)"
    and "map o_opIndex ops = map int [0..<length ops]"
proof -
  from assms obtain body where "parseDecoderResponse keccak body = Inr ops"
    by (auto simp: decodeCalldata_def split: http_answer.splits if_splits sum.splits)
  then obtain xs where xs: "map_index_result (parseDecoderOperation keccak) xs = Inr ops"
    by (auto simp: parseDecoderResponse_def bind_result_eq_Inr split: option.splits)
  note nth = map_index_result_nth [OF xs]
  show "\<forall>oper \<in> set ops. operation_shape oper \<and>
      (\<forall>a \<in> set (o_attributes oper). \<exists>i j w. parseDecoderAttribute keccak i j w = Inr a)"
    using map_index_result_set [OF xs] operation_accepted by metis
  show "map o_opIndex ops = map int [0..<length ops]"
    by (rule nth_equalityI) (use nth operation_accepted(2) in auto)
qed

lemma unflagged_readable:
  assumes "decodeCalldata keccak post data = Inr (Some ops)" "minedOperationFault ops = None"
    and "oper \<in> set ops" "a \<in> set (o_attributes oper)"
  shows "a_error a = None" "a_typeId a = TOMBSTONE_TYPE_ID \<or> storedAttributeOf keccak a \<noteq> None"
proof -
  have "\<not> operation_flagged oper" using assms(2,3) by (auto simp: minedOperationFault_def find_None_iff)
  then show err: "a_error a = None"
    using assms(4) by (auto simp: operation_flagged_def attribute_flagged_def list_ex_iff)
  obtain i j w where "parseDecoderAttribute keccak i j w = Inr a"
    using decodeCalldata_accepted(1) [OF assms(1)] assms(3,4) by blast
  then show "a_typeId a = TOMBSTONE_TYPE_ID \<or> storedAttributeOf keccak a \<noteq> None"
    using attribute_accepted_readable err by blast
qed

section \<open>Create keys\<close>

definition clear_key :: "arkiv_operation \<Rightarrow> arkiv_operation" where
  "clear_key oper = oper\<lparr>o_entityKey := None\<rparr>"

lemma assign_keys_frame:
  "map clear_key (assign_keys keys ops) = map clear_key ops"
  by (induction keys ops rule: assign_keys.induct) (auto simp: clear_key_def split: list.splits)

lemma fill_frame: "map clear_key (fillCreateEntityKeys ops receipt) = map clear_key ops"
  by (auto simp: fillCreateEntityKeys_def Let_def assign_keys_frame split: option.splits)

lemma clear_key_eq: "clear_key a = clear_key b \<longleftrightarrow> (\<exists>k. a = b\<lparr>o_entityKey := k\<rparr>)"
  by (cases a; cases b) (auto simp: clear_key_def)

lemma assign_keys_creates:
  "length keys = length (filter is_create ops) \<Longrightarrow>
    map o_entityKey (filter is_create (assign_keys keys ops)) =
      map2 (\<lambda>oper k. case o_entityKey oper of None \<Rightarrow> Some (to_lower k) | Some e \<Rightarrow> Some e) (filter is_create ops) keys"
proof (induction keys ops rule: assign_keys.induct)
  case (2 keys oper ops)
  then show ?case
    by (cases keys) (auto simp: is_create_def split: option.splits)
qed simp

lemma assign_keys_others:
  "filter (\<lambda>oper. \<not> is_create oper) (assign_keys keys ops) = filter (\<lambda>oper. \<not> is_create oper) ops"
  by (induction keys ops rule: assign_keys.induct) (auto simp: is_create_def split: list.splits)

section \<open>A block\<close>

definition registry_call :: "rpc_transaction \<Rightarrow> string \<Rightarrow> bool" where
  "registry_call tx input \<longleftrightarrow>
     \<not> shouldIgnoreTransaction tx \<and> map_option to_lower (tx_to tx) = Some (to_lower ARKIV_REGISTRY_ADDRESS) \<and>
     tx_input tx = Some input \<and> input \<noteq> [] \<and> input \<noteq> ''0x''"

definition succeeded :: "rpc_receipt list \<Rightarrow> string \<Rightarrow> bool" where
  "succeeded receipts hash \<longleftrightarrow> bind_status (map_get (receiptsByHash receipts) (to_lower hash)) = Some ''0x1''"

definition decoded_call ::
    "rpc_receipt option \<Rightarrow> nat \<Rightarrow> rpc_transaction \<Rightarrow> arkiv_operation list option \<Rightarrow> decoder_error + tx_operations option" where
  "decoded_call receipt p tx decoded =
     (case decoded of
        None \<Rightarrow> Inr None
      | Some operations \<Rightarrow>
          if operations = [] then Inr None
          else case (if bind_status receipt = Some ''0x1'' then minedOperationFault operations else None) of
            Some opIndex \<Rightarrow> Inl (MinedFault (tx_hash tx) opIndex)
          | None \<Rightarrow> Inr (Some \<lparr>to_position = p, to_hash = tx_hash tx,
              to_operations = fillCreateEntityKeys operations receipt\<rparr>))"

lemma decoded_call_eq:
  "decoded_call (map_get rs (to_lower (tx_hash tx))) p tx =
     (\<lambda>decoded.
        case decoded of
          None \<Rightarrow> Inr None
        | Some operations \<Rightarrow>
            if operations = [] then Inr None
            else
              let receipt = map_get rs (to_lower (tx_hash tx));
                  fault = (if bind_status receipt = Some ''0x1'' then minedOperationFault operations else None)
              in case fault of
                   Some opIndex \<Rightarrow> Inl (MinedFault (tx_hash tx) opIndex)
                 | None \<Rightarrow> Inr (Some \<lparr>to_position = p, to_hash = tx_hash tx,
                     to_operations = fillCreateEntityKeys operations receipt\<rparr>))"
  by (auto simp: fun_eq_iff decoded_call_def Let_def split: option.splits)

lemma registry_address_not_Nil: "to_lower ARKIV_REGISTRY_ADDRESS \<noteq> []"
  by (simp add: to_lower_def ARKIV_REGISTRY_ADDRESS_def)

lemma decode_transaction_call:
  assumes "registry_call tx input"
  shows "decode_transaction keccak post rs p tx =
    bind_result (decodeCalldata keccak post input) (decoded_call (map_get rs (to_lower (tx_hash tx))) p tx)"
proof -
  from assms obtain t where t: "\<not> shouldIgnoreTransaction tx" "tx_to tx = Some t"
    "to_lower t = to_lower ARKIV_REGISTRY_ADDRESS" "tx_input tx = Some input" "input \<noteq> []" "input \<noteq> ''0x''"
    by (auto simp: registry_call_def)
  then have "t \<noteq> []" using registry_address_not_Nil by (auto simp: to_lower_def)
  with t show ?thesis unfolding decode_transaction_def decoded_call_eq by simp
qed

lemma decode_transaction_other:
  "\<forall>input. \<not> registry_call tx input \<Longrightarrow> decode_transaction keccak post rs p tx = Inr None"
  by (auto simp: decode_transaction_def registry_call_def split: option.splits)

lemma decode_transaction_Some:
  assumes "decode_transaction keccak post rs p tx = Inr (Some e)"
  shows "\<exists>input ops. registry_call tx input \<and> decodeCalldata keccak post input = Inr (Some ops) \<and> ops \<noteq> [] \<and>
    e = \<lparr>to_position = p, to_hash = tx_hash tx,
         to_operations = fillCreateEntityKeys ops (map_get rs (to_lower (tx_hash tx)))\<rparr> \<and>
    (bind_status (map_get rs (to_lower (tx_hash tx))) = Some ''0x1'' \<longrightarrow> minedOperationFault ops = None)"
proof -
  obtain input where input: "registry_call tx input" using assms decode_transaction_other by fastforce
  then obtain d where d: "decodeCalldata keccak post input = Inr d"
    "decoded_call (map_get rs (to_lower (tx_hash tx))) p tx d = Inr (Some e)"
    using assms by (auto simp: decode_transaction_call bind_result_eq_Inr)
  then show ?thesis using input by (auto simp: decoded_call_def split: option.splits if_splits)
qed

lemma decode_transaction_registry:
  assumes "registry_call tx input" "decode_transaction keccak post rs p tx = Inr r"
  shows "\<exists>d. decodeCalldata keccak post input = Inr d \<and>
    (case d of None \<Rightarrow> True | Some ops \<Rightarrow> ops = [] \<or> (\<exists>e. r = Some e))"
proof -
  obtain d where d: "decodeCalldata keccak post input = Inr d"
    "decoded_call (map_get rs (to_lower (tx_hash tx))) p tx d = Inr r"
    using assms(2) unfolding decode_transaction_call [OF assms(1)] bind_result_eq_Inr by blast
  then show ?thesis by (auto simp: decoded_call_def split: option.splits if_splits)
qed

lemma decodeBlockE:
  assumes "decodeBlockArkivOperations keccak post blk receipts = Inr rs"
  obtains res where "rs = List.map_filter (\<lambda>r. r) res" "length res = length (rb_transactions blk)"
    "\<forall>p < length res. decode_transaction keccak post (receiptsByHash receipts) p (rb_transactions blk ! p) = Inr (res ! p)"
  using assms map_index_result_nth unfolding decodeBlockArkivOperations_def bind_result_eq_Inr
  by (metis sum.inject(2))

lemma in_map_filter_id: "e \<in> set (List.map_filter (\<lambda>r. r) res) \<longleftrightarrow> (\<exists>p < length res. res ! p = Some e)"
  by (auto simp: List.map_filter_def in_set_conv_nth image_iff)

lemma decodeBlock_sound:
  assumes "decodeBlockArkivOperations keccak post blk receipts = Inr rs" "e \<in> set rs"
  shows "\<exists>tx input ops. to_position e < length (rb_transactions blk) \<and> tx = rb_transactions blk ! to_position e \<and>
    to_hash e = tx_hash tx \<and> registry_call tx input \<and> decodeCalldata keccak post input = Inr (Some ops) \<and> ops \<noteq> [] \<and>
    to_operations e = fillCreateEntityKeys ops (map_get (receiptsByHash receipts) (to_lower (tx_hash tx))) \<and>
    (succeeded receipts (tx_hash tx) \<longrightarrow> minedOperationFault ops = None)"
proof -
  obtain res where res: "rs = List.map_filter (\<lambda>r. r) res" "length res = length (rb_transactions blk)"
    "\<forall>p < length res. decode_transaction keccak post (receiptsByHash receipts) p (rb_transactions blk ! p) = Inr (res ! p)"
    by (rule decodeBlockE [OF assms(1)])
  then obtain p where p: "p < length res" "res ! p = Some e" using assms(2) in_map_filter_id by metis
  then have "decode_transaction keccak post (receiptsByHash receipts) p (rb_transactions blk ! p) = Inr (Some e)"
    using res(3) by simp
  from decode_transaction_Some [OF this] show ?thesis using p(1) res(2) by (auto simp: succeeded_def)
qed

lemma decodeBlock_complete:
  assumes "decodeBlockArkivOperations keccak post blk receipts = Inr rs"
    and "p < length (rb_transactions blk)" "registry_call (rb_transactions blk ! p) input"
  shows "\<exists>d. decodeCalldata keccak post input = Inr d \<and>
    (case d of None \<Rightarrow> True | Some ops \<Rightarrow> ops = [] \<or> (\<exists>e \<in> set rs. to_position e = p))"
proof -
  obtain res where res: "rs = List.map_filter (\<lambda>r. r) res" "length res = length (rb_transactions blk)"
    "\<forall>p < length res. decode_transaction keccak post (receiptsByHash receipts) p (rb_transactions blk ! p) = Inr (res ! p)"
    by (rule decodeBlockE [OF assms(1)])
  then have dec: "decode_transaction keccak post (receiptsByHash receipts) p (rb_transactions blk ! p) = Inr (res ! p)"
    using assms(2) by simp
  from decode_transaction_registry [OF assms(3) dec] obtain d where d: "decodeCalldata keccak post input = Inr d"
    "case d of None \<Rightarrow> True | Some ops \<Rightarrow> ops = [] \<or> (\<exists>e. res ! p = Some e)" by blast
  have "e \<in> set rs \<and> to_position e = p" if "res ! p = Some e" for e
    using that res(1,2) assms(2) in_map_filter_id dec decode_transaction_Some [of keccak post "receiptsByHash receipts" p] by fastforce
  then show ?thesis using d by (fastforce split: option.splits)
qed

section \<open>The stored form of a triple\<close>

definition storable :: "op_attribute \<Rightarrow> bool" where
  "storable a \<longleftrightarrow> (isStrValue a \<longrightarrow> utf8_text (str_of (a_value a)))"

lemma stored_attributes_roundtrip:
  "list_all storable as \<Longrightarrow> fromStoredOperationAttributes (toStoredOperationAttributes as) = as"
proof (induction as)
  case (Cons a as)
  then have ih: "fromStoredOperationAttributes (toStoredOperationAttributes as) = as" "storable a" by simp_all
  have "(if isStrValue b then b\<lparr>a_value := JStr (fromUtf8Hex (str_of (a_value b)))\<rparr> else b) = a"
    if "b = (if isStrValue a then a\<lparr>a_value := JStr (utf8Hex (str_of (a_value a)))\<rparr> else a)" for b
    using that ih(2)
    by (cases a) (auto simp: isStrValue_def storable_def str_of_def from_utf8Hex split: jsval.splits if_splits)
  then show ?case using ih(1) by (simp add: fromStoredOperationAttributes_def toStoredOperationAttributes_def)
qed (simp add: fromStoredOperationAttributes_def toStoredOperationAttributes_def)

section \<open>Properties\<close>

text \<open>A registry transaction with one create of two triples, its decoder answer and its receipt.\<close>

definition sample_triple :: "string \<Rightarrow> int \<Rightarrow> string \<Rightarrow> jsval \<Rightarrow> jsval" where
  "sample_triple n i t v =
     JObj [(''name'', JStr n), (''typeId'', JInt i), (''type'', JStr t), (''indexed'', JBool (i AND 0x80 \<noteq> 0)),
           (''value'', v), (''size'', JInt 3)]"

definition sample_body :: jsval where
  "sample_body =
     JObj [(''format'', JStr ''udc''), (''functionName'', JStr ''execute''),
       (''operations'', JArr [JObj
         [(''operationType'', JInt 1), (''operation'', JStr ''create''), (''entityKey'', JNull), (''salt'', JStr ''7''),
          (''creationFlags'', JInt 0), (''expiresAt'', JStr ''100''), (''minLifetime'', JStr ''10''),
          (''permanent'', JBool False), (''newOwner'', JNull), (''bytesSize'', JInt 0),
          (''attributes'', JArr [sample_triple ''color'' 0x88 ''str'' (JStr ''red''),
             sample_triple ''n'' 2 ''i32'' (JInt 4)])]])]"

definition sample_post :: "string \<Rightarrow> http_answer" where
  "sample_post data = Answer 200 sample_body"

definition sample_block_tx :: rpc_transaction where
  "sample_block_tx =
     \<lparr>tx_hash = ''0xA1'', tx_from = Some ''0xs'', tx_to = Some ARKIV_REGISTRY_ADDRESS, tx_type = None, tx_nonce = None,
      tx_value = None, tx_gas = None, tx_gasPrice = None, tx_maxFeePerGas = None, tx_maxPriorityFeePerGas = None,
      tx_input = Some ''0xabcd''\<rparr>"

definition sample_block :: rpc_block where
  "sample_block =
     \<lparr>rb_number = Some ''0x5'', rb_hash = Some ''0xb'', rb_parentHash = None, rb_timestamp = ''0x10'',
      rb_baseFeePerGas = None, rb_gasUsed = ''0x1'', rb_gasLimit = ''0x2'', rb_transactions = [sample_block_tx]\<rparr>"

definition sample_receipts :: "rpc_receipt list" where
  "sample_receipts =
     [\<lparr>rc_transactionHash = ''0xa1'', rc_gasUsed = ''0x1'', rc_cumulativeGasUsed = None, rc_effectiveGasPrice = None,
       rc_status = Some ''0x1'', rc_contractAddress = None,
       rc_logs = Some [\<lparr>lg_address = ARKIV_REGISTRY_ADDRESS, lg_topics = [ENTITY_CREATED_TOPIC0, ''0xKEY''],
                        lg_data = ''0x'', lg_logIndex = None\<rparr>],
       rc_rentFee = None\<rparr>]"

definition sample_entries :: "decoder_error + tx_operations list" where
  "sample_entries = decodeBlockArkivOperations (\<lambda>_. []) sample_post sample_block sample_receipts"

lemma sample_entries_ok:
  "(case sample_entries of
      Inr [e] \<Rightarrow> to_position e = 0 \<and> map o_entityKey (to_operations e) = [Some ''0xkey''] \<and>
        succeeded sample_receipts (to_hash e)
    | _ \<Rightarrow> False)"
  by code_simp

lemma sample_entriesE:
  obtains e where "decodeBlockArkivOperations (\<lambda>_. []) sample_post sample_block sample_receipts = Inr [e]"
    "map o_entityKey (to_operations e) = [Some ''0xkey'']" "succeeded sample_receipts (to_hash e)"
  using sample_entries_ok unfolding sample_entries_def
  by (auto split: sum.splits list.splits)

lemma sample_decodes:
  "(case decodeCalldata (\<lambda>_. []) sample_post ''0xabcd'' of Inr (Some ops) \<Rightarrow> length ops = 1 | _ \<Rightarrow> False)"
  by code_simp

text \<open>
  C16. An answer of the decoder that is accepted is within the contract: operations are numbered as they
  are listed; keys, owners and hashes are lowercase hex of their length, flags a byte, expiry numbers
  64-bit, salts 128-bit; every triple's type id is a byte whose flag is \<open>indexed\<close>, a bytes triple
  carries no content, and the schema tag is the one of the triples.
\<close>

theorem decoder_answer_in_contract:
  assumes "decodeCalldata keccak post data = Inr (Some ops)"
  shows "list_all operation_shape ops \<and> map o_opIndex ops = map int [0..<length ops]"
  using decodeCalldata_accepted [OF assms] by (simp add: list_all_iff)

theorem decoder_answer_in_contract_witness:
  "\<exists>ops. decodeCalldata (\<lambda>_. []) sample_post ''0xabcd'' = Inr (Some ops) \<and> list_all operation_shape ops"
proof -
  obtain ops where "decodeCalldata (\<lambda>_. []) sample_post ''0xabcd'' = Inr (Some ops)"
    using sample_decodes by (auto split: sum.splits option.splits)
  then show ?thesis using decoder_answer_in_contract by blast
qed

text \<open>
  C17. What the scanner keeps of a successful transaction can be folded: every triple of every operation
  of an entry whose receipt reports success is a tombstone or reads as a stored attribute, so a record
  that carries it does not stop the fold.
\<close>

theorem applied_operations_fold:
  assumes "decodeBlockArkivOperations keccak post blk receipts = Inr rs" "e \<in> set rs"
    and "succeeded receipts (to_hash e)" "oper \<in> set (to_operations e)" "r_attributes rec = o_attributes oper"
  shows "readable keccak rec"
proof -
  obtain input ops where ops: "decodeCalldata keccak post input = Inr (Some ops)" "minedOperationFault ops = None"
    "\<exists>r. to_operations e = fillCreateEntityKeys ops r"
    using decodeBlock_sound [OF assms(1,2)] assms(3) by auto
  then have "clear_key oper \<in> clear_key ` set ops" using assms(4) fill_frame [of ops] by (metis image_eqI set_map)
  then obtain oper' where "oper' \<in> set ops" "o_attributes oper' = o_attributes oper"
    by (auto simp: clear_key_eq)
  then show ?thesis
    using unflagged_readable [OF ops(1,2)] assms(5) by (auto simp: readable_def list_all_iff)
qed

theorem applied_operations_fold_witness:
  "\<exists>e :: tx_operations. \<forall>oper \<in> set (to_operations e). o_entityKey oper = Some ''0xkey'' \<and>
     readable (\<lambda>_. []) (sample_op 5 1 (o_attributes oper))"
proof -
  obtain e where e: "decodeBlockArkivOperations (\<lambda>_. []) sample_post sample_block sample_receipts = Inr [e]"
    "map o_entityKey (to_operations e) = [Some ''0xkey'']" "succeeded sample_receipts (to_hash e)"
    by (rule sample_entriesE)
  have "readable (\<lambda>_. []) (sample_op 5 1 (o_attributes oper))" if "oper \<in> set (to_operations e)" for oper
    by (rule applied_operations_fold [OF e(1) _ e(3) that]) (simp_all add: sample_op_def)
  then have "\<forall>oper \<in> set (to_operations e). o_entityKey oper = Some ''0xkey'' \<and>
     readable (\<lambda>_. []) (sample_op 5 1 (o_attributes oper))"
    using e(2) by auto
  then show ?thesis by (rule exI [of _ e])
qed

text \<open>
  C18. A block's operations have no silent gap: when decoding the block succeeds, every transaction to
  the registry with calldata (system transactions aside) was answered by the decoder, and either its
  calldata is no batch, or holds no operation, or has an entry at its position; and every entry is of
  such a transaction, with the operations the decoder gave, only create keys filled in.
\<close>

theorem block_operations_complete:
  assumes "decodeBlockArkivOperations keccak post blk receipts = Inr rs"
    and "p < length (rb_transactions blk)" "registry_call (rb_transactions blk ! p) input"
  shows "(\<exists>d. decodeCalldata keccak post input = Inr d \<and>
    (case d of
       None \<Rightarrow> True
     | Some ops \<Rightarrow> ops = [] \<or> (\<exists>e \<in> set rs. to_position e = p \<and> to_hash e = tx_hash (rb_transactions blk ! p) \<and>
         map clear_key (to_operations e) = map clear_key ops))) \<and>
    (\<forall>e \<in> set rs. \<exists>input' ops. to_position e < length (rb_transactions blk) \<and>
       registry_call (rb_transactions blk ! to_position e) input' \<and>
       to_hash e = tx_hash (rb_transactions blk ! to_position e) \<and>
       decodeCalldata keccak post input' = Inr (Some ops) \<and> ops \<noteq> [] \<and>
       map clear_key (to_operations e) = map clear_key ops)"
proof -
  obtain d where d: "decodeCalldata keccak post input = Inr d"
    "case d of None \<Rightarrow> True | Some ops \<Rightarrow> ops = [] \<or> (\<exists>e \<in> set rs. to_position e = p)"
    using decodeBlock_complete [OF assms] by blast
  have same: "to_hash e = tx_hash (rb_transactions blk ! p) \<and> map clear_key (to_operations e) = map clear_key ops"
    if "e \<in> set rs" "to_position e = p" "d = Some ops" for e ops
    using decodeBlock_sound [OF assms(1) that(1)] assms(3) that(2,3) d(1) fill_frame
    by (auto simp: registry_call_def)
  have "case d of None \<Rightarrow> True | Some ops \<Rightarrow> ops = [] \<or> (\<exists>e \<in> set rs. to_position e = p \<and>
      to_hash e = tx_hash (rb_transactions blk ! p) \<and> map clear_key (to_operations e) = map clear_key ops)"
    using d(2) same by (fastforce split: option.splits)
  moreover have "\<exists>input' ops. to_position e < length (rb_transactions blk) \<and>
       registry_call (rb_transactions blk ! to_position e) input' \<and>
       to_hash e = tx_hash (rb_transactions blk ! to_position e) \<and>
       decodeCalldata keccak post input' = Inr (Some ops) \<and> ops \<noteq> [] \<and>
       map clear_key (to_operations e) = map clear_key ops" if "e \<in> set rs" for e
    using decodeBlock_sound [OF assms(1) that] fill_frame by metis
  ultimately show ?thesis using d(1) by blast
qed

theorem block_operations_complete_witness:
  "\<exists>d. decodeCalldata (\<lambda>_. []) sample_post ''0xabcd'' = Inr d"
proof -
  obtain e where e: "decodeBlockArkivOperations (\<lambda>_. []) sample_post sample_block sample_receipts = Inr [e]"
    by (rule sample_entriesE)
  have "registry_call (rb_transactions sample_block ! 0) ''0xabcd''" by code_simp
  moreover have "0 < length (rb_transactions sample_block)" by (simp add: sample_block_def)
  ultimately show ?thesis using block_operations_complete [OF e(1)] by blast
qed

text \<open>
  C19. Completing create keys touches nothing else: the operations stay the same but for the entity keys
  of creates; and when the receipt has one created log per create, the n-th create has the n-th log's
  key, lowercase, unless the decoder already gave one.
\<close>

theorem create_keys_filled:
  assumes "length (createdKeys receipt) = length (filter is_create ops)"
  shows "map clear_key (fillCreateEntityKeys ops (Some receipt)) = map clear_key ops \<and>
    filter (\<lambda>oper. \<not> is_create oper) (fillCreateEntityKeys ops (Some receipt)) = filter (\<lambda>oper. \<not> is_create oper) ops \<and>
    map o_entityKey (filter is_create (fillCreateEntityKeys ops (Some receipt))) =
      map2 (\<lambda>oper k. case o_entityKey oper of None \<Rightarrow> Some (to_lower k) | Some e \<Rightarrow> Some e)
        (filter is_create ops) (createdKeys receipt)"
  using assms assign_keys_creates [OF assms] assign_keys_others [of "createdKeys receipt" ops]
    fill_frame [of ops "Some receipt"]
  by (auto simp: fillCreateEntityKeys_def Let_def)

theorem create_keys_filled_witness:
  "\<exists>ops. length ops = 1 \<and> map o_entityKey (filter is_create (fillCreateEntityKeys ops (Some (hd sample_receipts)))) =
     map2 (\<lambda>oper k. case o_entityKey oper of None \<Rightarrow> Some (to_lower k) | Some e \<Rightarrow> Some e)
       (filter is_create ops) (createdKeys (hd sample_receipts))"
proof -
  let ?ops = "[\<lparr>o_opIndex = 0, o_operationType = 1, o_operation = ''create'', o_entityKey = None, o_salt = None,
    o_creationFlags = None, o_expiresAt = None, o_minLifetime = None, o_newOwner = None, o_bytesSize = 0,
    o_schemaName = None, o_attributes = [], o_error = None\<rparr>]"
  have "length (createdKeys (hd sample_receipts)) = length (filter is_create ?ops)" by code_simp
  from create_keys_filled [OF this] show ?thesis by (intro exI [of _ ?ops]) simp
qed

text \<open>
  C20. Triples survive storage: reading back the stored form of a list of triples gives the list, for
  str values that are text (a NUL, which the database would refuse, included).
\<close>

theorem stored_triples_roundtrip:
  assumes "list_all storable as"
  shows "fromStoredOperationAttributes (toStoredOperationAttributes as) = as"
  by (rule stored_attributes_roundtrip [OF assms])

theorem stored_triples_roundtrip_witness:
  "fromStoredOperationAttributes (toStoredOperationAttributes
     [sample_attr ''color'' 8 ''str'' (JStr [CHR ''r'', CHR 0x00, CHR 0xC3, CHR 0xA9]), sample_attr ''n'' 2 ''i32'' (JInt 4)]) =
     [sample_attr ''color'' 8 ''str'' (JStr [CHR ''r'', CHR 0x00, CHR 0xC3, CHR 0xA9]), sample_attr ''n'' 2 ''i32'' (JInt 4)]"
  by (rule stored_triples_roundtrip) code_simp

end
