(* ===== verification/EntityQueryLanguage.thy ===== *)
theory EntityQueryLanguage
  imports EntityValues
begin

text \<open>
  The entity query language, from text to syntax tree (src/src/entityQueryLanguage.ts): the lexer on the
  UTF-8 bytes of the query, the literals of each type, the recursive-descent parser with its limits, and
  the error a refused query reports. An error is its kind and byte position; the message texts are left
  out. The lexer's \<open>pos\<close> is the length of the query less the length of what is left, so its functions
  take the bytes left. The parser's functions take fuel, one unit per call; \<open>parseEntityQuery\<close> gives
  enough (lemma \<open>parseEntityQuery_fuel\<close> of \<open>EntityQueryFacts\<close>). \<open>keccak\<close> is viem's hash of bytes.
\<close>

section \<open>Limits and errors\<close>

definition MAX_QUERY_BYTES :: nat where
  "MAX_QUERY_BYTES = 8 * 1024"

definition MAX_PREDICATES :: nat where
  "MAX_PREDICATES = 64"

definition MAX_NESTING_DEPTH :: nat where
  "MAX_NESTING_DEPTH = 32"

definition MAX_ATTRIBUTE_NAME_BYTES :: nat where
  "MAX_ATTRIBUTE_NAME_BYTES = 32"

definition MAX_STR_BYTES :: nat where
  "MAX_STR_BYTES = 128"

datatype error_kind = Malformed | TypeKind | LiteralKind | LimitKind

fun QUERY_ERROR_CODES :: "error_kind \<Rightarrow> int" where
  "QUERY_ERROR_CODES Malformed = - 32001"
| "QUERY_ERROR_CODES TypeKind = - 32002"
| "QUERY_ERROR_CODES LiteralKind = - 32003"
| "QUERY_ERROR_CODES LimitKind = - 32004"

datatype query_error =
    QueryParseError (qe_kind: error_kind) (qe_position: "nat option")
  | OutOfFuel

definition syntaxError :: "nat \<Rightarrow> query_error" where
  "syntaxError position = QueryParseError Malformed (Some position)"

definition typeError :: "nat \<Rightarrow> query_error" where
  "typeError position = QueryParseError TypeKind (Some position)"

definition literalError :: "nat \<Rightarrow> query_error" where
  "literalError position = QueryParseError LiteralKind (Some position)"

lemmas query_errors = syntaxError_def typeError_def literalError_def

section \<open>Syntax trees\<close>

datatype query_value =
    VBool bool
  | VI32 int
  | VU64 int
  | VU256 int
  | VDec int
  | VStr string
  | VAddr string
  | VKey string
  | VBytes32 string

fun value_type :: "query_value \<Rightarrow> attribute_type" where
  "value_type (VBool _) = TBool"
| "value_type (VI32 _) = TI32"
| "value_type (VU64 _) = TU64"
| "value_type (VU256 _) = TU256"
| "value_type (VDec _) = TDec"
| "value_type (VStr _) = TStr"
| "value_type (VAddr _) = TAddr"
| "value_type (VKey _) = TKey"
| "value_type (VBytes32 _) = TBytes32"

datatype builtin_field = Owner | Creator | Key | ExpiresAt | CreatedAt

datatype attribute_ref = User string | Builtin builtin_field

datatype comparison_operator = OpEq | OpLt | OpLte | OpGt | OpGte

datatype query_ast =
    All
  | Compare comparison_operator attribute_ref query_value
  | StartsWith attribute_ref string
  | And query_ast query_ast
  | Or query_ast query_ast
  | Not query_ast

section \<open>Lexer\<close>

definition TYPE_TAGS :: "attribute_type list" where
  "TYPE_TAGS = [TI32, TU64, TU256, TDec, TStr, TAddr, TKey, TBytes32, TBool]"

definition typeTagFromName :: "string \<Rightarrow> attribute_type option" where
  "typeTagFromName name = find (\<lambda>tag. tag_name tag = to_lower name) TYPE_TAGS"

text \<open>
  The last token is no case of \<open>Token\<close>: \<open>KEYWORDS\<close> is an object literal, so looking up the word
  \<open>constructor\<close> finds \<open>Object.prototype.constructor\<close>, which the lexer returns as if it were a token.
\<close>

datatype token =
    TLparen | TRparen | TAnd | TOr | TNot | TStartswith | TExists | TTypeof
  | TEq | TNeq | TLt | TLte | TGt | TGte | TStar | TTrue | TFalse
  | TName string | TSysname string | TTagged attribute_type string nat | TInt string | TQuoted string
  | TPrototype

record spanned_token =
  st_token :: token
  st_start :: nat

definition KEYWORDS :: "(string \<times> token) list" where
  "KEYWORDS =
     [(''and'', TAnd), (''or'', TOr), (''not'', TNot), (''true'', TTrue), (''false'', TFalse),
      (''startswith'', TStartswith), (''exists'', TExists), (''typeof'', TTypeof),
      (''constructor'', TPrototype)]"

definition isNameChar :: "char \<Rightarrow> bool" where
  "isNameChar c \<longleftrightarrow> is_alpha c \<or> is_digit c \<or> byte_of c = 0x5f \<or> byte_of c = 0x2e \<or> byte_of c = 0x2d"

definition quote :: char where
  "quote = CHR 0x27"

text \<open>
  \<open>scanSingleQuoted\<close> from just past the opening quote: the bytes inside, two quotes for one, and what
  follows the closing quote; none if there is none.
\<close>

fun scan_quoted :: "string \<Rightarrow> (string \<times> string) option" where
  "scan_quoted [] = None"
| "scan_quoted (c # s) =
     (if c = quote then
        (case s of
           d # t \<Rightarrow> if d = quote then map_option (\<lambda>(p, r). (quote # p, r)) (scan_quoted t) else Some ([], s)
         | [] \<Rightarrow> Some ([], s))
      else map_option (\<lambda>(p, r). (c # p, r)) (scan_quoted s))"

lemma scan_quoted_length: "scan_quoted s = Some (p, r) \<Longrightarrow> length r < length s"
proof (induction s arbitrary: p rule: length_induct)
  case (1 s)
  show ?case
  proof (cases s)
    case Nil
    then show ?thesis using "1.prems" by simp
  next
    case s: (Cons c t)
    have ih: "scan_quoted u = Some (q, r) \<Longrightarrow> length u < length s \<Longrightarrow> length r < length u" for u q
      using "1.IH" by blast
    show ?thesis
    proof (cases "c = quote")
      case False
      then obtain q where "scan_quoted t = Some (q, r)" using "1.prems" s by auto
      then show ?thesis using ih [of t q] s by simp
    next
      case True
      show ?thesis
      proof (cases t)
        case Nil
        then show ?thesis using "1.prems" s True by simp
      next
        case t: (Cons d u)
        show ?thesis
        proof (cases "d = quote")
          case True
          then obtain q where "scan_quoted u = Some (q, r)" using "1.prems" s t \<open>c = quote\<close> by auto
          then show ?thesis using ih [of u q] s t by simp
        next
          case False
          then show ?thesis using "1.prems" s t True by simp
        qed
      qed
    qed
  qed
qed

text \<open>White space: JavaScript's \<open>\s\<close> less the byte order mark.\<close>

definition skip_space :: "string \<Rightarrow> string" where
  "skip_space s = drop_ws is_ws2 (\<lambda>a b c. is_ws3 a b c \<and> byte_of a \<noteq> 0xEF) s"

lemma length_drop_ws: "length (drop_ws w2 w3 s) \<le> length s"
proof (induction w2 w3 s rule: drop_ws.induct)
  case (1 w2 w3 a s)
  show ?case
  proof (cases "is_ws1 a")
    case True
    then show ?thesis using "1.IH"(1) by simp
  next
    case a: False
    show ?thesis
    proof (cases s)
      case s: (Cons b t)
      show ?thesis
      proof (cases "w2 a b")
        case True
        then show ?thesis using "1.IH"(2) a s by simp
      next
        case b: False
        show ?thesis
        proof (cases t)
          case t: (Cons c u)
          then show ?thesis using "1.IH"(3) [OF a s b] a s b by fastforce
        qed (use a s b in simp)
      qed
    qed (use a in simp)
  qed
qed simp

lemma length_skip_space: "length (skip_space s) \<le> length s"
  by (simp add: skip_space_def length_drop_ws)

definition skip_line :: "string \<Rightarrow> string" where
  "skip_line s = drop 1 (dropWhile (\<lambda>c. byte_of c \<noteq> 10) s)"

lemma length_skip_line: "length (skip_line s) \<le> length s"
  using length_dropWhile_le [of _ s] by (simp add: skip_line_def le_diff_conv le_SucI)

function skipTrivia :: "string \<Rightarrow> string" where
  "skipTrivia s =
     (let t = skip_space s in
      if take 2 t = ''--'' then skipTrivia (skip_line t) else t)"
  by pat_completeness auto
termination
proof (relation "measure length"; clarsimp)
  fix s
  assume dash: "take 2 (skip_space s) = ''--''"
  then obtain c d r where t: "skip_space s = c # d # r" "byte_of c \<noteq> 10"
    by (cases "skip_space s"; cases "tl (skip_space s)") auto
  then have "length (skip_line (skip_space s)) \<le> length (d # r)"
    using length_dropWhile_le [of "\<lambda>c. byte_of c \<noteq> 10" "d # r"] by (simp add: skip_line_def)
  then show "length (skip_line (skip_space s)) < length s" using length_skip_space [of s] t(1) by simp
qed

declare skipTrivia.simps [simp del]

lemma length_skipTrivia: "length (skipTrivia s) \<le> length s"
proof (induction s rule: skipTrivia.induct)
  case (1 s)
  show ?case
  proof (cases "take 2 (skip_space s) = ''--''")
    case True
    have "length (skipTrivia s) = length (skipTrivia (skip_line (skip_space s)))"
      using True by (subst skipTrivia.simps) simp
    also have "\<dots> \<le> length (skip_line (skip_space s))" using 1 True by simp
    finally show ?thesis using length_skip_line [of "skip_space s"] length_skip_space [of s] by simp
  next
    case False
    then show ?thesis using length_skip_space [of s] by (subst skipTrivia.simps) simp
  qed
qed

text \<open>\<open>takeTaggedBody\<close>: what is left from the closing parenthesis on.\<close>

function take_body :: "nat \<Rightarrow> nat \<Rightarrow> nat \<Rightarrow> string \<Rightarrow> query_error + string" where
  "take_body len literalStart depth [] = Inl (syntaxError literalStart)"
| "take_body len literalStart depth (c # s) =
     (if c = quote then
        (case scan_quoted s of
           None \<Rightarrow> Inl (syntaxError (len - length (c # s)))
         | Some (_, r) \<Rightarrow> take_body len literalStart depth r)
      else if c = CHR ''('' then take_body len literalStart (depth + 1) s
      else if c = CHR '')'' then (if depth = 1 then Inr (c # s) else take_body len literalStart (depth - 1) s)
      else take_body len literalStart depth s)"
  by pat_completeness auto
termination by (relation "measure (\<lambda>(_, _, _, s). length s)") (auto dest: scan_quoted_length)

lemma take_body_length: "take_body len ls depth s = Inr r \<Longrightarrow> r \<noteq> [] \<and> length r \<le> length s"
proof (induction len ls depth s rule: take_body.induct)
  case (2 len ls depth c s)
  show ?case
  proof (cases "c = quote")
    case True
    then obtain p q where q: "scan_quoted s = Some (p, q)" "take_body len ls depth q = Inr r"
      using "2.prems" by (auto split: option.splits)
    then show ?thesis using "2.IH"(1) [OF True q(1), of p q] scan_quoted_length [OF q(1)] by simp
  next
    case False
    then show ?thesis using "2.IH"(2-) "2.prems" by (fastforce split: if_splits)
  qed
qed simp

definition taggedBody :: "nat \<Rightarrow> nat \<Rightarrow> attribute_type \<Rightarrow> string \<Rightarrow> query_error + token \<times> string" where
  "taggedBody len literalStart tag s =
     bind_result (take_body len literalStart 1 s) (\<lambda>r.
       Inr (TTagged tag (bytesToText (take (length s - length r) s)) (len - length s), tl r))"

definition lexWord :: "nat \<Rightarrow> nat \<Rightarrow> string \<Rightarrow> query_error + token \<times> string" where
  "lexWord len start s =
     (let word = takeWhile isNameChar s; rest = dropWhile isNameChar s in
      case map_of KEYWORDS (to_lower word) of
        Some keyword \<Rightarrow> Inr (keyword, rest)
      | None \<Rightarrow>
          (case typeTagFromName word of
             None \<Rightarrow> Inr (TName word, rest)
           | Some tag \<Rightarrow>
               (case skipTrivia rest of
                  c # body \<Rightarrow> if c = CHR ''('' then taggedBody len start tag body else Inr (TName word, rest)
                | [] \<Rightarrow> Inr (TName word, rest))))"

fun takeIfEquals :: "token \<Rightarrow> token \<Rightarrow> string \<Rightarrow> token \<times> string" where
  "takeIfEquals withEquals bare (c # s) = (if c = CHR ''='' then (withEquals, s) else (bare, c # s))"
| "takeIfEquals withEquals bare [] = (bare, [])"

text \<open>\<open>takeIntChars\<close>: an optional sign and the digits after it.\<close>

fun takeIntChars :: "string \<Rightarrow> string \<times> string" where
  "takeIntChars [] = ([], [])"
| "takeIntChars (c # s) =
     (if c = CHR ''-'' \<or> c = CHR ''+'' then (c # takeWhile is_digit s, dropWhile is_digit s)
      else (takeWhile is_digit (c # s), dropWhile is_digit (c # s)))"

text \<open>The token that starts with byte \<open>c\<close>, \<open>s\<close> following it, at \<open>start\<close>.\<close>

definition lex_token :: "nat \<Rightarrow> nat \<Rightarrow> char \<Rightarrow> string \<Rightarrow> query_error + token \<times> string" where
  "lex_token len start c s =
     (if c = CHR ''('' then Inr (TLparen, s)
      else if c = CHR '')'' then Inr (TRparen, s)
      else if c = CHR ''*'' then Inr (TStar, s)
      else if c = CHR ''='' then Inr (TEq, s)
      else if c = CHR 0x21 then
        (case s of d # t \<Rightarrow> if d = CHR ''='' then Inr (TNeq, t) else Inl (syntaxError start)
         | [] \<Rightarrow> Inl (syntaxError start))
      else if c = CHR ''<'' then Inr (takeIfEquals TLte TLt s)
      else if c = CHR ''>'' then Inr (takeIfEquals TGte TGt s)
      else if c = quote then
        (case scan_quoted s of
           None \<Rightarrow> Inl (syntaxError start)
         | Some (content, r) \<Rightarrow> Inr (TQuoted (bytesToText content), r))
      else if c = CHR 0x24 then
        (let name = takeWhile isNameChar s in
         if name = [] then Inl (syntaxError start) else Inr (TSysname name, dropWhile isNameChar s))
      else if c = CHR 0x26 \<or> c = CHR 0x7C \<or> c = CHR 0x7E then Inl (syntaxError start)
      else if c = CHR ''-'' \<or> c = CHR ''+'' then
        (let (signed, r) = takeIntChars (c # s) in
         if length signed \<le> 1 then Inl (syntaxError start) else Inr (TInt signed, r))
      else if is_digit c then
        (if take 2 (c # s) = ''0x'' \<or> take 2 (c # s) = ''0X'' then Inl (syntaxError start)
         else let (digits, r) = takeIntChars (c # s) in Inr (TInt digits, r))
      else if is_alpha c then lexWord len start (c # s)
      else Inl (syntaxError start))"

definition nextToken :: "nat \<Rightarrow> string \<Rightarrow> query_error + (spanned_token \<times> string) option" where
  "nextToken len s =
     (case skipTrivia s of
        [] \<Rightarrow> Inr None
      | c # t \<Rightarrow>
          (let start = len - length (c # t) in
           bind_result (lex_token len start c t) (\<lambda>(tok, r).
             Inr (Some (\<lparr>st_token = tok, st_start = start\<rparr>, r)))))"

lemma takeIntChars_length: "takeIntChars s = (d, r) \<Longrightarrow> length r \<le> length s"
  by (cases s) (auto split: if_splits intro: le_SucI length_dropWhile_le)

lemma takeIfEquals_length: "takeIfEquals a b s = (tok, r) \<Longrightarrow> length r \<le> length s"
  by (cases s) (auto split: if_splits)

lemma lexWord_length:
  assumes "lexWord len start s = Inr (tok, r)" "s \<noteq> []" "isNameChar (hd s)"
  shows "length r < length s"
proof -
  let ?rest = "dropWhile isNameChar s"
  have rest: "length ?rest < length s"
    using assms(2,3) length_dropWhile_le [of isNameChar "tl s"] by (cases s) auto
  have tagged: "length q < length s" if "skipTrivia ?rest = c # body" "take_body len start 1 body = Inr (d # q)" for c body d q
    using length_skipTrivia [of ?rest] take_body_length [OF that(2)] that(1) rest by simp
  show ?thesis
  proof (cases "map_of KEYWORDS (to_lower (takeWhile isNameChar s))")
    case (Some k)
    then show ?thesis using assms(1) rest by (simp add: lexWord_def)
  next
    case None
    show ?thesis
    proof (cases "r = ?rest")
      case False
      then obtain c body q where "skipTrivia ?rest = c # body" "take_body len start 1 body = Inr q" "r = tl q"
        using assms(1) None
        by (auto simp: lexWord_def Let_def taggedBody_def bind_result_eq_Inr split: option.splits list.splits if_splits)
      moreover have "q \<noteq> []" using calculation(2) take_body_length by blast
      ultimately show ?thesis using tagged by (metis list.collapse)
    qed (use rest in simp)
  qed
qed

lemma digit_after_int: "is_digit c \<Longrightarrow> takeIntChars (c # s) = (d, r) \<Longrightarrow> length r < Suc (length s)"
  by (auto split: if_splits intro: le_imp_less_Suc length_dropWhile_le)

lemma lex_token_length: "lex_token len start c s = Inr (tok, r) \<Longrightarrow> length r \<le> length s"
proof -
  assume a: "lex_token len start c s = Inr (tok, r)"
  have name: "is_alpha c \<Longrightarrow> isNameChar c" by (simp add: isNameChar_def)
  have sign: "takeIntChars (c # s) = (d, q) \<Longrightarrow> c = CHR ''-'' \<or> c = CHR ''+'' \<Longrightarrow> length q \<le> length s" for d q
    by (auto intro: length_dropWhile_le)
  have word: "lexWord len start (c # s) = Inr (tok, r) \<Longrightarrow> is_alpha c \<Longrightarrow> length r \<le> length s"
    using lexWord_length [of len start "c # s" tok r] name by simp
  note a = a [unfolded lex_token_def Let_def]
  consider "c = CHR 0x21" | "c = CHR ''<''" | "c = CHR ''>''" | "c = quote" | "c = CHR 0x24"
    | "c = CHR ''-'' \<or> c = CHR ''+''" | "is_digit c" "c \<noteq> CHR ''-''" "c \<noteq> CHR ''+''" "c \<noteq> CHR ''<''" "c \<noteq> CHR ''>''"
        "c \<noteq> quote" "c \<noteq> CHR 0x21" "c \<noteq> CHR 0x24"
    | "\<not> is_digit c" "c \<notin> {CHR 0x21, CHR ''<'', CHR ''>'', quote, CHR 0x24, CHR ''-'', CHR ''+''}"
    by fastforce
  then show ?thesis
  proof cases
    case 1 with a show ?thesis by (auto simp: quote_def split: list.splits if_splits)
  next
    case 2 with a takeIfEquals_length show ?thesis by (simp add: quote_def)
  next
    case 3 with a takeIfEquals_length show ?thesis by (simp add: quote_def)
  next
    case 4 with a show ?thesis by (auto simp: quote_def split: option.splits dest: scan_quoted_length)
  next
    case 5 with a show ?thesis by (auto simp: quote_def split: if_splits intro: length_dropWhile_le)
  next
    case 6 with a sign show ?thesis by (auto simp: quote_def split: if_splits prod.splits simp del: takeIntChars.simps)
  next
    case 7 with a show ?thesis
      by (auto split: if_splits prod.splits dest: digit_after_int simp del: takeIntChars.simps)
  next
    case 8 with a word show ?thesis by (auto split: if_splits)
  qed
qed

lemma nextToken_length: "nextToken len s = Inr (Some (tok, r)) \<Longrightarrow> length r < length s"
proof -
  assume a: "nextToken len s = Inr (Some (tok, r))"
  then obtain c t where t: "skipTrivia s = c # t" by (cases "skipTrivia s") (auto simp: nextToken_def)
  then obtain k where "lex_token len (len - length (c # t)) c t = Inr (k, r)"
    using a by (auto simp: nextToken_def Let_def bind_result_eq_Inr)
  then show ?thesis using lex_token_length length_skipTrivia [of s] t by fastforce
qed

function tokenize :: "nat \<Rightarrow> string \<Rightarrow> query_error + spanned_token list" where
  "tokenize len s =
     (case nextToken len s of
        Inl e \<Rightarrow> Inl e
      | Inr None \<Rightarrow> Inr []
      | Inr (Some (tok, r)) \<Rightarrow> bind_result (tokenize len r) (\<lambda>toks. Inr (tok # toks)))"
  by pat_completeness auto
termination by (relation "measure (\<lambda>(_, s). length s)") (auto dest: nextToken_length)

declare tokenize.simps [simp del]

section \<open>Literals\<close>

fun splitSign :: "string \<Rightarrow> bool \<times> string" where
  "splitSign [] = (False, [])"
| "splitSign (c # s) =
     (if c = CHR ''-'' then (True, s) else if c = CHR ''+'' then (False, s) else (False, c # s))"

definition stripHexPrefix :: "string \<Rightarrow> string option" where
  "stripHexPrefix text = (if take 2 text = ''0x'' \<or> take 2 text = ''0X'' then Some (drop 2 text) else None)"

text \<open>One digit of \<open>decimalMagnitude\<close>'s loop.\<close>

definition magnitude_step :: "nat \<Rightarrow> int \<Rightarrow> char \<Rightarrow> int \<Rightarrow> query_error + int" where
  "magnitude_step position limit c value =
     (if \<not> is_digit c then Inl (literalError position)
      else let v = value * 10 + int (digit_val c) in
        if v > limit then Inl (literalError position) else Inr v)"

definition decimalMagnitude :: "string \<Rightarrow> nat \<Rightarrow> int \<Rightarrow> query_error + int" where
  "decimalMagnitude digits position limit =
     (if digits = [] then Inl (literalError position)
      else fold_result (magnitude_step position limit) digits 0)"

definition ensure :: "bool \<Rightarrow> query_error \<Rightarrow> query_error + unit" where
  "ensure ok e = (if ok then Inr () else Inl e)"

lemma ensure_eq_Inr [simp]: "ensure ok e = Inr u \<longleftrightarrow> ok"
  by (simp add: ensure_def)

definition checkHexDigits :: "string \<Rightarrow> nat \<Rightarrow> query_error + unit" where
  "checkHexDigits hex position = ensure (all_hex hex) (literalError position)"

definition parseI32 :: "string \<Rightarrow> nat \<Rightarrow> query_error + int" where
  "parseI32 body position =
     (let (negative, rest) = splitSign (js_trim body) in
      bind_result (decimalMagnitude rest position U64_MAX) (\<lambda>magnitude.
      bind_result (ensure (magnitude \<le> (if negative then I32_MAX + 1 else I32_MAX)) (literalError position)) (\<lambda>_.
      Inr (if negative then - magnitude else magnitude))))"

definition is_signed :: "string \<Rightarrow> bool" where
  "is_signed text \<longleftrightarrow> take 1 text = ''-'' \<or> take 1 text = ''+''"

definition parseU64 :: "string \<Rightarrow> nat \<Rightarrow> query_error + int" where
  "parseU64 body position =
     (let text = js_trim body in
      if is_signed text then Inl (literalError position)
      else case stripHexPrefix text of
        Some hex \<Rightarrow>
          if hex = [] \<or> length hex > 16 then Inl (literalError position)
          else bind_result (checkHexDigits hex position) (\<lambda>_. Inr (int (hex_val hex)))
      | None \<Rightarrow> decimalMagnitude text position U64_MAX)"

definition parseU256 :: "string \<Rightarrow> nat \<Rightarrow> query_error + int" where
  "parseU256 body position =
     (let text = js_trim body in
      if is_signed text then Inl (literalError position)
      else case stripHexPrefix text of
        Some hex \<Rightarrow>
          bind_result (checkHexDigits hex position) (\<lambda>_.
          if length (dropWhile (\<lambda>c. c = CHR ''0'') hex) > 64 then Inl (literalError position)
          else Inr (int (hex_val hex)))
      | None \<Rightarrow> decimalMagnitude text position U256_MAX)"

text \<open>The loop over the decimal places: a digit each, 0 past the end of the fraction.\<close>

fun dec_places :: "nat \<Rightarrow> nat \<Rightarrow> string \<Rightarrow> int \<Rightarrow> query_error + int" where
  "dec_places position 0 fraction value = Inr value"
| "dec_places position (Suc n) fraction value =
     (let digit = (case fraction of
                     [] \<Rightarrow> Inr 0
                   | c # _ \<Rightarrow> if is_digit c then Inr (int (digit_val c)) else Inl (literalError position)) in
      bind_result digit (\<lambda>d.
        let v = value * 10 + d in
        if v > U256_MAX then Inl (literalError position) else dec_places position n (tl fraction) v))"

definition parseDec :: "string \<Rightarrow> nat \<Rightarrow> query_error + int" where
  "parseDec body position =
     (let (negative, rest) = splitSign (js_trim body);
          whole = takeWhile (\<lambda>c. c \<noteq> CHR ''.'') rest;
          after = dropWhile (\<lambda>c. c \<noteq> CHR ''.'') rest;
          fraction = tl after
      in
      if whole = [] then Inl (literalError position)
      else if after \<noteq> [] \<and> fraction = [] then Inl (literalError position)
      else if length fraction > DECIMAL_SCALE then Inl (literalError position)
      else
        bind_result (decimalMagnitude whole position U256_MAX) (\<lambda>w.
        bind_result (dec_places position DECIMAL_SCALE fraction w) (\<lambda>value.
        if value > I256_MAX \<and> \<not> (negative \<and> value = - I256_MIN) then Inl (literalError position)
        else Inr (if negative then - value else value))))"

definition parseStr :: "string \<Rightarrow> nat \<Rightarrow> query_error + string" where
  "parseStr body position =
     (case utf8_bytes (js_trim body) of
        [] \<Rightarrow> Inl (literalError position)
      | c # s \<Rightarrow>
          if c \<noteq> quote then Inl (literalError position)
          else (case scan_quoted s of
             None \<Rightarrow> Inl (syntaxError 0)
           | Some (content, rest) \<Rightarrow>
               if rest \<noteq> [] then Inl (literalError position)
               else if length (utf8_bytes (bytesToText content)) > MAX_STR_BYTES then Inl (literalError position)
               else Inr (bytesToText content)))"

definition is_upper_hex :: "char \<Rightarrow> bool" where
  "is_upper_hex c \<longleftrightarrow> 65 \<le> byte_of c \<and> byte_of c \<le> 70"

definition is_lower_hex_letter :: "char \<Rightarrow> bool" where
  "is_lower_hex_letter c \<longleftrightarrow> 97 \<le> byte_of c \<and> byte_of c \<le> 102"

text \<open>\<open>digest\<close> is the hex of the hash, after its \<open>0x\<close>.\<close>

definition checkEip55 :: "(string \<Rightarrow> string) \<Rightarrow> string \<Rightarrow> nat \<Rightarrow> query_error + unit" where
  "checkEip55 keccak hex position =
     (if \<not> (list_ex is_upper_hex hex \<and> list_ex is_lower_hex_letter hex) then Inr ()
      else
        let digest = drop 2 (keccak (to_lower hex)) in
        ensure (list_all (\<lambda>(c, d). is_digit c \<or> is_upper_hex c = (8 \<le> hex_digit_val d)) (zip hex digest))
          (literalError position))"

definition parseAddr :: "(string \<Rightarrow> string) \<Rightarrow> string \<Rightarrow> nat \<Rightarrow> query_error + string" where
  "parseAddr keccak body position =
     (case stripHexPrefix (js_trim body) of
        None \<Rightarrow> Inl (literalError position)
      | Some hex \<Rightarrow>
          if length hex \<noteq> 40 then Inl (literalError position)
          else
            bind_result (checkHexDigits hex position) (\<lambda>_.
            bind_result (checkEip55 keccak hex position) (\<lambda>_.
            Inr (''0x'' @ to_lower hex))))"

definition parseWordHex :: "string \<Rightarrow> nat \<Rightarrow> query_error + string" where
  "parseWordHex body position =
     (case stripHexPrefix (js_trim body) of
        None \<Rightarrow> Inl (literalError position)
      | Some hex \<Rightarrow>
          if length hex \<noteq> 64 then Inl (literalError position)
          else bind_result (checkHexDigits hex position) (\<lambda>_. Inr (''0x'' @ to_lower hex)))"

fun parseTagged :: "(string \<Rightarrow> string) \<Rightarrow> attribute_type \<Rightarrow> string \<Rightarrow> nat \<Rightarrow> query_error + query_value" where
  "parseTagged keccak TI32 body position = map_sum id VI32 (parseI32 body position)"
| "parseTagged keccak TU64 body position = map_sum id VU64 (parseU64 body position)"
| "parseTagged keccak TU256 body position = map_sum id VU256 (parseU256 body position)"
| "parseTagged keccak TDec body position = map_sum id VDec (parseDec body position)"
| "parseTagged keccak TStr body position = map_sum id VStr (parseStr body position)"
| "parseTagged keccak TAddr body position = map_sum id VAddr (parseAddr keccak body position)"
| "parseTagged keccak TKey body position = map_sum id VKey (parseWordHex body position)"
| "parseTagged keccak TBytes32 body position = map_sum id VBytes32 (parseWordHex body position)"
| "parseTagged keccak TBool body position = Inl (literalError position)"
| "parseTagged keccak TBytes body position = Inl (literalError position)"

section \<open>Parser\<close>

fun builtinType :: "builtin_field \<Rightarrow> attribute_type" where
  "builtinType Owner = TAddr"
| "builtinType Creator = TAddr"
| "builtinType Key = TKey"
| "builtinType ExpiresAt = TU64"
| "builtinType CreatedAt = TU64"

definition builtinFromName :: "string \<Rightarrow> nat \<Rightarrow> query_error + builtin_field" where
  "builtinFromName name position =
     (case map_of [(''owner'', Owner), (''creator'', Creator), (''key'', Key), (''expiresAt'', ExpiresAt),
                   (''createdAt'', CreatedAt)] name of
        Some f \<Rightarrow> Inr f
      | None \<Rightarrow> Inl (typeError position))"

definition validateUserName :: "string \<Rightarrow> nat \<Rightarrow> query_error + unit" where
  "validateUserName name position =
     ensure (length (utf8_bytes name) \<le> MAX_ATTRIBUTE_NAME_BYTES \<and> typeTagFromName name = None) (syntaxError position)"

definition bareIntValue :: "attribute_ref \<Rightarrow> string \<Rightarrow> nat \<Rightarrow> query_error + query_value" where
  "bareIntValue key text position =
     (case key of
        Builtin _ \<Rightarrow> Inl (typeError position)
      | User _ \<Rightarrow> map_sum id VI32 (parseI32 text position))"

definition bareStrValue :: "(string \<Rightarrow> string) \<Rightarrow> attribute_ref \<Rightarrow> string \<Rightarrow> nat \<Rightarrow> query_error + query_value" where
  "bareStrValue keccak key content position =
     (case key of
        User _ \<Rightarrow> Inl (typeError position)
      | Builtin Owner \<Rightarrow> map_sum id VAddr (parseAddr keccak content position)
      | Builtin Creator \<Rightarrow> map_sum id VAddr (parseAddr keccak content position)
      | Builtin Key \<Rightarrow> map_sum id VKey (parseWordHex content position)
      | Builtin _ \<Rightarrow> Inl (typeError position))"

definition checkValueType :: "attribute_ref \<Rightarrow> query_value \<Rightarrow> nat \<Rightarrow> query_error + unit" where
  "checkValueType key value position =
     (case key of User _ \<Rightarrow> Inr () | Builtin f \<Rightarrow> ensure (value_type value = builtinType f) (typeError position))"

definition checkOperator :: "comparison_operator \<Rightarrow> query_value \<Rightarrow> nat \<Rightarrow> query_error + unit" where
  "checkOperator op value position =
     ensure (op = OpEq \<or> isOrderedType (value_type value)) (typeError position)"

record parse_state =
  ps_tokens :: "spanned_token list"
  ps_depth :: nat
  ps_predicates :: nat

text \<open>The tokens from \<open>pos\<close> on; \<open>advance\<close> past the last one stays there.\<close>

definition peek :: "parse_state \<Rightarrow> token option" where
  "peek st = (case ps_tokens st of [] \<Rightarrow> None | t # _ \<Rightarrow> Some (st_token t))"

definition advance :: "parse_state \<Rightarrow> spanned_token option \<times> parse_state" where
  "advance st =
     (case ps_tokens st of [] \<Rightarrow> (None, st) | t # ts \<Rightarrow> (Some t, st\<lparr>ps_tokens := ts\<rparr>))"

definition nextPosition :: "nat \<Rightarrow> parse_state \<Rightarrow> nat" where
  "nextPosition ending st = (case ps_tokens st of [] \<Rightarrow> ending | t # _ \<Rightarrow> st_start t)"

definition descend :: "nat \<Rightarrow> parse_state \<Rightarrow> query_error + parse_state" where
  "descend position st =
     (let st' = st\<lparr>ps_depth := ps_depth st + 1\<rparr> in
      if ps_depth st' > MAX_NESTING_DEPTH then Inl (QueryParseError LimitKind (Some position)) else Inr st')"

definition ascend :: "parse_state \<Rightarrow> parse_state" where
  "ascend st = st\<lparr>ps_depth := ps_depth st - 1\<rparr>"

definition parseAttrRef :: "nat \<Rightarrow> parse_state \<Rightarrow> query_error + attribute_ref \<times> parse_state" where
  "parseAttrRef ending st =
     (case advance st of
        (None, _) \<Rightarrow> Inl (syntaxError ending)
      | (Some t, st') \<Rightarrow>
          (case st_token t of
             TName text \<Rightarrow> bind_result (validateUserName text (st_start t)) (\<lambda>_. Inr (User text, st'))
           | TSysname text \<Rightarrow> bind_result (builtinFromName text (st_start t)) (\<lambda>f. Inr (Builtin f, st'))
           | TExists \<Rightarrow> Inl (typeError (st_start t))
           | TTypeof \<Rightarrow> Inl (typeError (st_start t))
           | _ \<Rightarrow> Inl (syntaxError (st_start t))))"

definition parseValue ::
    "(string \<Rightarrow> string) \<Rightarrow> nat \<Rightarrow> attribute_ref \<Rightarrow> parse_state \<Rightarrow> query_error + (query_value \<times> nat) \<times> parse_state" where
  "parseValue keccak ending key st =
     (case advance st of
        (None, _) \<Rightarrow> Inl (syntaxError ending)
      | (Some t, st') \<Rightarrow>
          let position = st_start t;
              value = (case st_token t of
                         TTagged tag body bodyStart \<Rightarrow> parseTagged keccak tag body bodyStart
                       | TTrue \<Rightarrow> Inr (VBool True)
                       | TFalse \<Rightarrow> Inr (VBool False)
                       | TInt text \<Rightarrow> bareIntValue key text position
                       | TQuoted text \<Rightarrow> bareStrValue keccak key text position
                       | _ \<Rightarrow> Inl (syntaxError position))
          in bind_result value (\<lambda>v.
             bind_result (checkValueType key v position) (\<lambda>_. Inr ((v, position), st'))))"

fun comparison_of :: "token \<Rightarrow> comparison_operator option" where
  "comparison_of TEq = Some OpEq"
| "comparison_of TLt = Some OpLt"
| "comparison_of TLte = Some OpLte"
| "comparison_of TGt = Some OpGt"
| "comparison_of TGte = Some OpGte"
| "comparison_of _ = None"

definition parsePredicate :: "(string \<Rightarrow> string) \<Rightarrow> nat \<Rightarrow> parse_state \<Rightarrow> query_error + query_ast \<times> parse_state" where
  "parsePredicate keccak ending st0 =
     (let st = st0\<lparr>ps_predicates := ps_predicates st0 + 1\<rparr> in
      if ps_predicates st > MAX_PREDICATES then Inl (QueryParseError LimitKind (Some (nextPosition ending st)))
      else bind_result (parseAttrRef ending st) (\<lambda>(key, st1).
        (case advance st1 of
           (None, _) \<Rightarrow> Inl (syntaxError ending)
         | (Some t, st2) \<Rightarrow>
             (case comparison_of (st_token t) of
                Some op \<Rightarrow>
                  bind_result (parseValue keccak ending key st2) (\<lambda>((value, position), st3).
                  bind_result (checkOperator op value position) (\<lambda>_. Inr (Compare op key value, st3)))
              | None \<Rightarrow>
                  if st_token t = TStartswith then
                    bind_result (parseValue keccak ending key st2) (\<lambda>((value, position), st3).
                      case value of VStr s \<Rightarrow> Inr (StartsWith key s, st3) | _ \<Rightarrow> Inl (typeError position))
                  else if st_token t = TNeq then Inl (typeError (st_start t))
                  else Inl (syntaxError (st_start t))))))"

text \<open>The four levels of the grammar and the loops of the two binary ones.\<close>

fun parseExpr :: "(string \<Rightarrow> string) \<Rightarrow> nat \<Rightarrow> nat \<Rightarrow> parse_state \<Rightarrow> query_error + query_ast \<times> parse_state"
  and or_loop :: "(string \<Rightarrow> string) \<Rightarrow> nat \<Rightarrow> nat \<Rightarrow> query_ast \<Rightarrow> parse_state \<Rightarrow> query_error + query_ast \<times> parse_state"
  and parseAnd :: "(string \<Rightarrow> string) \<Rightarrow> nat \<Rightarrow> nat \<Rightarrow> parse_state \<Rightarrow> query_error + query_ast \<times> parse_state"
  and and_loop :: "(string \<Rightarrow> string) \<Rightarrow> nat \<Rightarrow> nat \<Rightarrow> query_ast \<Rightarrow> parse_state \<Rightarrow> query_error + query_ast \<times> parse_state"
  and parseUnary :: "(string \<Rightarrow> string) \<Rightarrow> nat \<Rightarrow> nat \<Rightarrow> parse_state \<Rightarrow> query_error + query_ast \<times> parse_state"
  and parsePrimary :: "(string \<Rightarrow> string) \<Rightarrow> nat \<Rightarrow> nat \<Rightarrow> parse_state \<Rightarrow> query_error + query_ast \<times> parse_state" where
  "parseExpr keccak ending 0 st = Inl OutOfFuel"
| "parseExpr keccak ending (Suc n) st =
     bind_result (parseAnd keccak ending n st) (\<lambda>(query, st'). or_loop keccak ending n query st')"
| "or_loop keccak ending 0 query st = Inl OutOfFuel"
| "or_loop keccak ending (Suc n) query st =
     (if peek st = Some TOr then
        bind_result (parseAnd keccak ending n (snd (advance st))) (\<lambda>(right, st').
          or_loop keccak ending n (Or query right) st')
      else Inr (query, st))"
| "parseAnd keccak ending 0 st = Inl OutOfFuel"
| "parseAnd keccak ending (Suc n) st =
     bind_result (parseUnary keccak ending n st) (\<lambda>(query, st'). and_loop keccak ending n query st')"
| "and_loop keccak ending 0 query st = Inl OutOfFuel"
| "and_loop keccak ending (Suc n) query st =
     (if peek st = Some TAnd then
        bind_result (parseUnary keccak ending n (snd (advance st))) (\<lambda>(right, st').
          and_loop keccak ending n (And query right) st')
      else Inr (query, st))"
| "parseUnary keccak ending 0 st = Inl OutOfFuel"
| "parseUnary keccak ending (Suc n) st =
     (case ps_tokens st of
        [] \<Rightarrow> Inl (syntaxError ending)
      | t # _ \<Rightarrow>
          if st_token t \<noteq> TNot then parsePrimary keccak ending n st
          else bind_result (descend (st_start t) (snd (advance st))) (\<lambda>st1.
            bind_result (parseUnary keccak ending n st1) (\<lambda>(inner, st2). Inr (Not inner, ascend st2))))"
| "parsePrimary keccak ending 0 st = Inl OutOfFuel"
| "parsePrimary keccak ending (Suc n) st =
     (case ps_tokens st of
        [] \<Rightarrow> Inl (syntaxError ending)
      | t # _ \<Rightarrow>
          if st_token t \<noteq> TLparen then parsePredicate keccak ending st
          else bind_result (descend (st_start t) (snd (advance st))) (\<lambda>st1.
            bind_result (parseExpr keccak ending n st1) (\<lambda>(inner, st2).
              if peek st2 \<noteq> Some TRparen then Inl (syntaxError (st_start t))
              else Inr (inner, ascend (snd (advance st2))))))"

definition parse_start :: "spanned_token list \<Rightarrow> parse_state" where
  "parse_start tokens = \<lparr>ps_tokens = tokens, ps_depth = 0, ps_predicates = 0\<rparr>"

definition parser_fuel :: "spanned_token list \<Rightarrow> nat" where
  "parser_fuel tokens = 5 * length tokens + 5"

definition parseTopLevel :: "(string \<Rightarrow> string) \<Rightarrow> nat \<Rightarrow> spanned_token list \<Rightarrow> query_error + query_ast" where
  "parseTopLevel keccak ending tokens =
     (case tokens of
        [] \<Rightarrow> Inl (syntaxError 0)
      | t # ts \<Rightarrow>
          if st_token t = TStar then
            (case ts of [] \<Rightarrow> Inr All | u # _ \<Rightarrow> Inl (syntaxError (st_start u)))
          else bind_result (parseExpr keccak ending (parser_fuel tokens) (parse_start tokens)) (\<lambda>(query, st).
            case ps_tokens st of [] \<Rightarrow> Inr query | u # _ \<Rightarrow> Inl (syntaxError (st_start u))))"

definition parseEntityQuery :: "(string \<Rightarrow> string) \<Rightarrow> string \<Rightarrow> query_error + query_ast" where
  "parseEntityQuery keccak input =
     (let src = utf8_bytes input in
      if length src > MAX_QUERY_BYTES then Inl (QueryParseError LimitKind None)
      else bind_result (tokenize (length src) src) (parseTopLevel keccak (length src)))"

section \<open>The error a refused query reports\<close>

text \<open>The first \<open>n\<close> characters of UTF-8 text: a character starts at a byte that continues none.\<close>

fun take_chars :: "nat \<Rightarrow> string \<Rightarrow> string" where
  "take_chars n [] = []"
| "take_chars 0 (c # s) = []"
| "take_chars (Suc n) (c # s) = c # takeWhile is_cont s @ take_chars n (dropWhile is_cont s)"

text \<open>The text up to the first white space.\<close>

fun until_ws :: "string \<Rightarrow> string" where
  "until_ws [] = []"
| "until_ws (a # s) = (if drop_ws is_ws2 is_ws3 (a # s) \<noteq> a # s then [] else a # until_ws s)"

record query_error_body =
  qb_code :: int
  qb_position :: "nat option"
  qb_got :: "string option"

definition queryErrorBody :: "error_kind \<Rightarrow> nat option \<Rightarrow> string \<Rightarrow> query_error_body" where
  "queryErrorBody kind errorPosition source =
     (case errorPosition of
        None \<Rightarrow> \<lparr>qb_code = QUERY_ERROR_CODES kind, qb_position = None, qb_got = None\<rparr>
      | Some p \<Rightarrow>
          let bytes = utf8_bytes source; position = min p (length bytes);
              rest = bytesToText (drop position bytes); tok = until_ws (drop_ws is_ws2 is_ws3 rest)
          in \<lparr>qb_code = QUERY_ERROR_CODES kind, qb_position = Some position,
              qb_got = Some (if tok = [] then ''end of query'' else take_chars 32 tok)\<rparr>)"

end
