(* ===== verification/EntityQueryFacts.thy ===== *)
theory EntityQueryFacts
  imports EntityQueryLanguage
begin

text \<open>
  What parsing a query guarantees: it always ends with an answer (the fuel is enough), an accepted query
  is well typed and within the limits of the language, and every well-typed tree within the limits is
  read back from its token form, so precedence and associativity are the grammar's.
\<close>

section \<open>Accepted literals\<close>

fun value_ok :: "query_value \<Rightarrow> bool" where
  "value_ok (VBool b) = True"
| "value_ok (VI32 i) = (I32_MIN \<le> i \<and> i \<le> I32_MAX)"
| "value_ok (VU64 i) = (0 \<le> i \<and> i \<le> U64_MAX)"
| "value_ok (VU256 i) = (0 \<le> i \<and> i \<le> U256_MAX)"
| "value_ok (VDec i) = (I256_MIN \<le> i \<and> i \<le> I256_MAX)"
| "value_ok (VStr s) = (length (utf8_bytes s) \<le> MAX_STR_BYTES)"
| "value_ok (VAddr a) = (isHexOfLength a 40 \<and> to_lower a = a)"
| "value_ok (VKey k) = (isHexOfLength k 64 \<and> to_lower k = k)"
| "value_ok (VBytes32 k) = (isHexOfLength k 64 \<and> to_lower k = k)"

lemma magnitude_step_Inr:
  "magnitude_step p limit c v = Inr w \<Longrightarrow> is_digit c \<and> w = v * 10 + int (digit_val c) \<and> w \<le> limit"
  by (auto simp: magnitude_step_def Let_def split: if_splits)

lemma magnitude_steps:
  "fold_result (magnitude_step p limit) s v = Inr w \<Longrightarrow> 0 \<le> v \<Longrightarrow> v \<le> limit \<Longrightarrow>
    0 \<le> w \<and> w \<le> limit \<and> list_all is_digit s \<and> w = v * 10 ^ length s + int (dec_val s)"
proof (induction s arbitrary: v)
  case Nil
  then show ?case by (simp add: dec_val_def)
next
  case (Cons c s)
  from Cons.prems(1) have c: "is_digit c" "v * 10 + int (digit_val c) \<le> limit"
    "fold_result (magnitude_step p limit) s (v * 10 + int (digit_val c)) = Inr w"
    by (auto simp: bind_result_eq_Inr dest: magnitude_step_Inr)
  have "dec_val (c # s) = digit_val c * 10 ^ length s + dec_val s"
    using dec_val_append [of "[c]" s] by (simp add: dec_val_def)
  then show ?case using Cons.IH [OF c(3)] Cons.prems(2) c(1,2) by (simp add: algebra_simps)
qed

lemma decimalMagnitude_bounds:
  "decimalMagnitude s p limit = Inr w \<Longrightarrow> 0 \<le> limit \<Longrightarrow> 0 \<le> w \<and> w \<le> limit"
  using magnitude_steps [of p limit s 0 w] by (auto simp: decimalMagnitude_def split: if_splits)

lemma hex_val_16: "list_all is_hex_digit s \<Longrightarrow> hex_val s < 16 ^ length s"
proof -
  assume s: "list_all is_hex_digit s"
  have "is_hex_digit c \<Longrightarrow> hex_digit_val c < 16" for c
    by (auto simp: is_hex_digit_def is_digit_def hex_digit_val_def Let_def)
  then show ?thesis using s from_digits_less [of "map hex_digit_val s" 16] by (auto simp: hex_val_def list_all_iff)
qed

lemma hex_val_drop_zeros: "hex_val (dropWhile (\<lambda>c. c = CHR ''0'') s) = hex_val s"
proof (induction s)
  case (Cons c s)
  have "hex_val (CHR ''0'' # s) = hex_val s"
    using from_digits_append [of 16 "[0]" "map hex_digit_val s"] by (simp add: hex_val_def hex_digit_val_def)
  then show ?case using Cons by simp
qed simp

lemma limits_nonneg [simp]: "0 \<le> U64_MAX" "0 \<le> U256_MAX"
  by (simp_all add: U64_MAX_def U256_MAX_def)

lemma parseI32_ok: "parseI32 s p = Inr i \<Longrightarrow> I32_MIN \<le> i \<and> i \<le> I32_MAX"
  by (auto simp: parseI32_def Let_def bind_result_eq_Inr I32_MIN_def I32_MAX_def split: prod.splits if_splits
      dest!: decimalMagnitude_bounds)

lemma parseU64_ok: "parseU64 s p = Inr i \<Longrightarrow> 0 \<le> i \<and> i \<le> U64_MAX"
proof -
  assume a: "parseU64 s p = Inr i"
  have "int (hex_val h) \<le> U64_MAX" if "all_hex h" "length h \<le> 16" for h
  proof -
    have "hex_val h < 16 ^ length h" using that(1) hex_val_16 by (simp add: all_hex_def)
    also have "(16::nat) ^ length h \<le> 16 ^ 16" using that(2) by (intro power_increasing) auto
    finally show ?thesis by (simp add: U64_MAX_def)
  qed
  then show ?thesis using a
    by (auto simp: parseU64_def Let_def bind_result_eq_Inr checkHexDigits_def split: if_splits option.splits
        dest: decimalMagnitude_bounds)
qed

lemma parseU256_ok: "parseU256 s p = Inr i \<Longrightarrow> 0 \<le> i \<and> i \<le> U256_MAX"
proof -
  assume a: "parseU256 s p = Inr i"
  have "int (hex_val h) \<le> U256_MAX" if "all_hex h" "length (dropWhile (\<lambda>c. c = CHR ''0'') h) \<le> 64" for h
  proof -
    let ?h = "dropWhile (\<lambda>c. c = CHR ''0'') h"
    have "list_all is_hex_digit ?h" using that(1) by (auto simp: all_hex_def list_all_iff dest: set_dropWhileD)
    then have "hex_val ?h < 16 ^ length ?h" by (rule hex_val_16)
    also have "(16::nat) ^ length ?h \<le> 16 ^ 64" using that(2) by (intro power_increasing) auto
    finally have "int (hex_val h) < 16 ^ 64" by (simp add: hex_val_drop_zeros)
    then show ?thesis by (simp add: U256_MAX_def)
  qed
  then show ?thesis using a
    by (auto simp: parseU256_def Let_def bind_result_eq_Inr checkHexDigits_def split: if_splits option.splits
        dest: decimalMagnitude_bounds)
qed

lemma dec_places_bounds: "dec_places p n f v = Inr w \<Longrightarrow> 0 \<le> v \<Longrightarrow> 0 \<le> w"
  by (induction n arbitrary: f v) (fastforce simp: Let_def bind_result_eq_Inr split: list.splits if_splits)+

lemma parseDec_ok: "parseDec s p = Inr i \<Longrightarrow> I256_MIN \<le> i \<and> i \<le> I256_MAX"
  by (auto simp: parseDec_def Let_def bind_result_eq_Inr I256_MIN_def I256_MAX_def split: prod.splits if_splits
      dest!: decimalMagnitude_bounds dec_places_bounds)

lemma hex_result_ok: "all_hex h \<Longrightarrow> length h = n \<Longrightarrow> isHexOfLength (''0x'' @ to_lower h) n \<and> to_lower (''0x'' @ to_lower h) = ''0x'' @ to_lower h"
  by (simp add: isHexOfLength_def all_hex_def to_lower_0x)
     (auto simp: to_lower_def list_all_iff is_hex_digit_lower)

lemma parseAddr_ok: "parseAddr keccak s p = Inr a \<Longrightarrow> isHexOfLength a 40 \<and> to_lower a = a"
  using hex_result_ok [of _ 40]
  by (auto simp: parseAddr_def bind_result_eq_Inr checkHexDigits_def split: option.splits if_splits)

lemma parseWordHex_ok: "parseWordHex s p = Inr a \<Longrightarrow> isHexOfLength a 64 \<and> to_lower a = a"
  using hex_result_ok [of _ 64]
  by (auto simp: parseWordHex_def bind_result_eq_Inr checkHexDigits_def split: option.splits if_splits)

lemma parseStr_ok: "parseStr s p = Inr t \<Longrightarrow> length (utf8_bytes t) \<le> MAX_STR_BYTES"
  by (auto simp: parseStr_def split: list.splits option.splits if_splits)

lemma map_sum_eq_Inr: "map_sum id f r = Inr y \<longleftrightarrow> (\<exists>x. r = Inr x \<and> y = f x)"
  by (cases r) auto

lemma map_sum_eq_Inl: "map_sum id f r = Inl e \<longleftrightarrow> r = Inl e"
  by (cases r) auto

lemma parseTagged_ok: "parseTagged keccak tag s p = Inr v \<Longrightarrow> value_ok v"
  by (cases tag) (auto simp: map_sum_eq_Inr parseI32_ok parseU64_ok parseU256_ok parseDec_ok parseStr_ok
      parseAddr_ok parseWordHex_ok)

section \<open>No literal runs out of fuel\<close>

text \<open>Everything below the parser's levels fails with a proper error.\<close>

definition proper :: "query_error + 'a \<Rightarrow> bool" where
  "proper r \<longleftrightarrow> r \<noteq> Inl OutOfFuel"

named_theorems proper_rules

lemma proper_Inr [simp, proper_rules]: "proper (Inr x)"
  by (simp add: proper_def)

lemma proper_errors [simp, proper_rules]:
  "proper (Inl (syntaxError p))" "proper (Inl (typeError p))" "proper (Inl (literalError p))"
  "proper (Inl (QueryParseError k q))"
  by (simp_all add: proper_def query_errors)

lemma proper_bind [intro, proper_rules]: "proper r \<Longrightarrow> (\<And>x. r = Inr x \<Longrightarrow> proper (f x)) \<Longrightarrow> proper (bind_result r f)"
  by (cases r) (auto simp: proper_def)

lemma proper_map_sum [simp]: "proper (map_sum id f r) = proper r"
  by (simp add: proper_def map_sum_eq_Inl)

lemma proper_ensure [simp, proper_rules]: "proper (ensure ok e) = (ok \<or> e \<noteq> OutOfFuel)"
  by (simp add: proper_def ensure_def)

lemma errors_not_fuel [simp]:
  "syntaxError p \<noteq> OutOfFuel" "typeError p \<noteq> OutOfFuel" "literalError p \<noteq> OutOfFuel"
  by (simp_all add: query_errors)

lemma proper_magnitude [simp]: "proper (decimalMagnitude s p limit)"
proof -
  have "proper (fold_result (magnitude_step p limit) s v)" for v
    by (induction s arbitrary: v) (auto simp: magnitude_step_def Let_def intro!: proper_bind)
  then show ?thesis by (simp add: decimalMagnitude_def)
qed

lemma proper_dec_places [simp]: "proper (dec_places p n f v)"
  by (induction n arbitrary: f v) (auto simp: Let_def split: list.splits intro!: proper_bind)

lemma proper_parseTagged [simp]: "proper (parseTagged keccak tag s p)"
  by (cases tag)
     (auto simp: parseI32_def parseU64_def parseU256_def parseDec_def parseStr_def parseAddr_def parseWordHex_def
       checkHexDigits_def checkEip55_def Let_def split: prod.splits option.splits list.splits intro!: proper_bind)

section \<open>Accepted trees\<close>

fun token_ok :: "token \<Rightarrow> bool" where
  "token_ok (TName text) =
     (text \<noteq> [] \<and> list_all isNameChar text \<and> is_alpha (hd text) \<and> map_of KEYWORDS (to_lower text) = None)"
| "token_ok _ = True"

definition name_ok :: "string \<Rightarrow> bool" where
  "name_ok name \<longleftrightarrow>
     length (utf8_bytes name) \<le> MAX_ATTRIBUTE_NAME_BYTES \<and> typeTagFromName name = None \<and> token_ok (TName name)"

fun ref_ok :: "attribute_ref \<Rightarrow> query_value \<Rightarrow> bool" where
  "ref_ok (User name) v = name_ok name"
| "ref_ok (Builtin f) v = (value_type v = builtinType f)"

text \<open>A tree below the top: every value of its type, every comparison one the type has.\<close>

fun ast_ok :: "query_ast \<Rightarrow> bool" where
  "ast_ok All = False"
| "ast_ok (Compare op key v) = (value_ok v \<and> ref_ok key v \<and> (op = OpEq \<or> isOrderedType (value_type v)))"
| "ast_ok (StartsWith key s) = (value_ok (VStr s) \<and> ref_ok key (VStr s))"
| "ast_ok (And l r) = (ast_ok l \<and> ast_ok r)"
| "ast_ok (Or l r) = (ast_ok l \<and> ast_ok r)"
| "ast_ok (Not q) = ast_ok q"

fun predicate_count :: "query_ast \<Rightarrow> nat" where
  "predicate_count All = 0"
| "predicate_count (Compare op key v) = 1"
| "predicate_count (StartsWith key s) = 1"
| "predicate_count (And l r) = predicate_count l + predicate_count r"
| "predicate_count (Or l r) = predicate_count l + predicate_count r"
| "predicate_count (Not q) = predicate_count q"

fun not_depth :: "query_ast \<Rightarrow> nat" where
  "not_depth (And l r) = max (not_depth l) (not_depth r)"
| "not_depth (Or l r) = max (not_depth l) (not_depth r)"
| "not_depth (Not q) = Suc (not_depth q)"
| "not_depth _ = 0"

text \<open>What one parse leaves behind: fewer tokens, the depth it started at, the predicates it read.\<close>

definition sound :: "parse_state \<Rightarrow> query_ast \<Rightarrow> parse_state \<Rightarrow> bool" where
  "sound st q st' \<longleftrightarrow>
     length (ps_tokens st') < length (ps_tokens st) \<and> set (ps_tokens st') \<subseteq> set (ps_tokens st) \<and>
     ps_depth st' = ps_depth st \<and> ps_predicates st' = ps_predicates st + predicate_count q \<and>
     ps_predicates st' \<le> MAX_PREDICATES \<and>
     (ps_depth st \<le> MAX_NESTING_DEPTH \<longrightarrow> ps_depth st + not_depth q \<le> MAX_NESTING_DEPTH) \<and>
     ((\<forall>t \<in> set (ps_tokens st). token_ok (st_token t)) \<longrightarrow> ast_ok q)"

lemma peek_Some: "peek st = Some tok \<longleftrightarrow> (\<exists>t ts. ps_tokens st = t # ts \<and> st_token t = tok)"
  by (auto simp: peek_def split: list.splits)

lemma advance_Cons [simp]: "ps_tokens st = t # ts \<Longrightarrow> advance st = (Some t, st\<lparr>ps_tokens := ts\<rparr>)"
  by (simp add: advance_def)

lemma advance_Nil [simp]: "ps_tokens st = [] \<Longrightarrow> advance st = (None, st)"
  by (simp add: advance_def)

lemma sound_And:
  assumes "sound st0 l st" "ps_tokens st = t # ts" "sound (st\<lparr>ps_tokens := ts\<rparr>) r st'"
  shows "sound st0 (And l r) st'" "sound st0 (Or l r) st'"
  using assms by (auto simp: sound_def)

lemma sound_Not:
  assumes "ps_tokens st = t # ts" "descend p (st\<lparr>ps_tokens := ts\<rparr>) = Inr st1" "sound st1 q st2"
  shows "sound st (Not q) (ascend st2)"
  using assms by (auto simp: sound_def descend_def ascend_def Let_def split: if_splits)

lemma sound_group:
  assumes "ps_tokens st = t # ts" "descend p (st\<lparr>ps_tokens := ts\<rparr>) = Inr st1" "sound st1 q st2"
    and "ps_tokens st2 = u # us"
  shows "sound st q (ascend (st2\<lparr>ps_tokens := us\<rparr>))"
  using assms by (auto simp: sound_def descend_def ascend_def Let_def split: if_splits)

lemma parseAttrRef_Inr:
  assumes "parseAttrRef ending st = Inr (key, st')"
  shows "\<exists>t ts. ps_tokens st = t # ts \<and> st' = st\<lparr>ps_tokens := ts\<rparr> \<and>
    (case key of User name \<Rightarrow> token_ok (st_token t) \<longrightarrow> name_ok name | Builtin f \<Rightarrow> True)"
proof (cases "ps_tokens st")
  case Nil
  then show ?thesis using assms by (simp add: parseAttrRef_def)
next
  case (Cons t ts)
  then show ?thesis using assms
    by (cases "st_token t")
       (auto simp: parseAttrRef_def bind_result_eq_Inr validateUserName_def name_ok_def)
qed

lemma bareIntValue_ok: "bareIntValue key text p = Inr v \<Longrightarrow> value_ok v"
  by (auto simp: bareIntValue_def map_sum_eq_Inr parseI32_ok split: attribute_ref.splits)

lemma bareStrValue_ok: "bareStrValue keccak key text p = Inr v \<Longrightarrow> value_ok v"
  by (auto simp: bareStrValue_def map_sum_eq_Inr parseAddr_ok parseWordHex_ok
      split: attribute_ref.splits builtin_field.splits)

lemma parseValue_Inr:
  assumes "parseValue keccak ending key st = Inr ((v, p), st')"
  shows "\<exists>t ts. ps_tokens st = t # ts \<and> st' = st\<lparr>ps_tokens := ts\<rparr> \<and> value_ok v \<and>
    (case key of User name \<Rightarrow> True | Builtin f \<Rightarrow> value_type v = builtinType f)"
proof (cases "ps_tokens st")
  case Nil
  then show ?thesis using assms by (simp add: parseValue_def)
next
  case (Cons t ts)
  then show ?thesis using assms
    by (cases "st_token t")
       (auto simp: parseValue_def Let_def bind_result_eq_Inr checkValueType_def parseTagged_ok bareIntValue_ok
         bareStrValue_ok split: attribute_ref.splits)
qed

lemma ref_ok_cases:
  "(case key of User name \<Rightarrow> name_ok name | Builtin f \<Rightarrow> value_type v = builtinType f) \<longleftrightarrow> ref_ok key v"
  by (cases key) auto

lemma comparison_checked: "checkOperator op v p = Inr () \<longleftrightarrow> op = OpEq \<or> isOrderedType (value_type v)"
  by (simp add: checkOperator_def)

lemma parsePredicate_sound:
  assumes "parsePredicate keccak ending st = Inr (q, st')"
  shows "sound st q st'"
proof -
  define st0 where "st0 = st\<lparr>ps_predicates := ps_predicates st + 1\<rparr>"
  have limit: "ps_predicates st0 \<le> MAX_PREDICATES"
    using assms by (auto simp: parsePredicate_def st0_def Let_def split: if_splits)
  obtain key st1 where ref: "parseAttrRef ending st0 = Inr (key, st1)"
    using assms by (auto simp: parsePredicate_def st0_def Let_def bind_result_eq_Inr split: if_splits)
  obtain t ts where t: "ps_tokens st0 = t # ts" "st1 = st0\<lparr>ps_tokens := ts\<rparr>"
    "case key of User name \<Rightarrow> token_ok (st_token t) \<longrightarrow> name_ok name | Builtin f \<Rightarrow> True"
    using parseAttrRef_Inr [OF ref] by blast
  obtain u us where u: "ts = u # us"
    using assms limit ref t by (cases ts) (auto simp: parsePredicate_def st0_def Let_def split: if_splits)
  let ?st2 = "st0\<lparr>ps_tokens := us\<rparr>"
  have "\<exists>v p. parseValue keccak ending key ?st2 = Inr ((v, p), st') \<and>
    ((\<exists>op. q = Compare op key v \<and> (op = OpEq \<or> isOrderedType (value_type v))) \<or> (\<exists>s. v = VStr s \<and> q = StartsWith key s))"
  proof (cases "comparison_of (st_token u)")
    case (Some op)
    then show ?thesis using assms limit ref t u
      by (auto simp: parsePredicate_def st0_def Let_def bind_result_eq_Inr comparison_checked split: if_splits)
  next
    case None
    then obtain v p st3 where v: "parseValue keccak ending key ?st2 = Inr ((v, p), st3)"
      "(case v of VStr s \<Rightarrow> Inr (StartsWith key s, st3) | _ \<Rightarrow> Inl (typeError p)) = (Inr (q, st') :: query_error + _)"
      using assms limit ref t u
      by (auto simp: parsePredicate_def st0_def Let_def bind_result_eq_Inr split: if_splits)
    then have "(\<exists>s. v = VStr s \<and> q = StartsWith key s) \<and> st3 = st'" by (cases v) auto
    then show ?thesis using v(1) by blast
  qed
  then obtain v p where v: "parseValue keccak ending key ?st2 = Inr ((v, p), st')"
    "(\<exists>op. q = Compare op key v \<and> (op = OpEq \<or> isOrderedType (value_type v))) \<or> (\<exists>s. v = VStr s \<and> q = StartsWith key s)"
    by blast
  obtain w ws where w: "us = w # ws" "st' = st0\<lparr>ps_tokens := ws\<rparr>" "value_ok v"
    "case key of User name \<Rightarrow> True | Builtin f \<Rightarrow> value_type v = builtinType f"
    using parseValue_Inr [OF v(1)] by auto
  have "token_ok (st_token t) \<longrightarrow> ref_ok key v" using t(3) w(4) by (cases key) auto
  then have "token_ok (st_token t) \<longrightarrow> ast_ok q" using v(2) w(3) by auto
  moreover have "predicate_count q = 1" "not_depth q = 0" using v(2) by auto
  ultimately show ?thesis using t(1) u w limit by (simp add: sound_def st0_def) auto
qed

lemma proper_parsePredicate: "proper (parsePredicate keccak ending st)"
proof -
  have val: "proper (parseValue keccak ending key s)" for key s
    by (auto simp: parseValue_def advance_def Let_def bareIntValue_def bareStrValue_def checkValueType_def
        parseI32_def parseAddr_def parseWordHex_def checkHexDigits_def checkEip55_def
        split: list.splits token.splits attribute_ref.splits builtin_field.splits prod.splits option.splits intro!: proper_bind)
  have ref: "proper (parseAttrRef ending s)" for s
    by (auto simp: parseAttrRef_def advance_def validateUserName_def builtinFromName_def
        split: list.splits token.splits option.splits intro!: proper_bind)
  show ?thesis
    by (auto simp: parsePredicate_def Let_def val ref checkOperator_def split: prod.splits option.splits query_value.splits
        intro!: proper_bind)
qed

section \<open>The parser's levels\<close>

abbreviation left :: "parse_state \<Rightarrow> nat" where
  "left st \<equiv> length (ps_tokens st)"

lemma sound_left: "sound st q st' \<Longrightarrow> left st' < left st"
  by (simp add: sound_def)

lemma descend_left: "descend p st = Inr st1 \<Longrightarrow> ps_tokens st1 = ps_tokens st"
  by (auto simp: descend_def Let_def split: if_splits)

lemma proper_descend [simp]: "proper (descend p st)"
  by (simp add: descend_def Let_def)

lemma parser_levels:
  shows "(5 * left st + 4 \<le> n \<longrightarrow> proper (parseExpr keccak ending n st)) \<and>
      (\<forall>q st'. parseExpr keccak ending n st = Inr (q, st') \<longrightarrow> sound st q st')"
    and "(5 * left st + 1 \<le> n \<longrightarrow> proper (or_loop keccak ending n query st)) \<and>
      (\<forall>q st' st0. or_loop keccak ending n query st = Inr (q, st') \<longrightarrow> sound st0 query st \<longrightarrow> sound st0 q st')"
    and "(5 * left st + 3 \<le> n \<longrightarrow> proper (parseAnd keccak ending n st)) \<and>
      (\<forall>q st'. parseAnd keccak ending n st = Inr (q, st') \<longrightarrow> sound st q st')"
    and "(5 * left st + 1 \<le> n \<longrightarrow> proper (and_loop keccak ending n query st)) \<and>
      (\<forall>q st' st0. and_loop keccak ending n query st = Inr (q, st') \<longrightarrow> sound st0 query st \<longrightarrow> sound st0 q st')"
    and "(5 * left st + 2 \<le> n \<longrightarrow> proper (parseUnary keccak ending n st)) \<and>
      (\<forall>q st'. parseUnary keccak ending n st = Inr (q, st') \<longrightarrow> sound st q st')"
    and "(5 * left st + 1 \<le> n \<longrightarrow> proper (parsePrimary keccak ending n st)) \<and>
      (\<forall>q st'. parsePrimary keccak ending n st = Inr (q, st') \<longrightarrow> sound st q st')"
proof (induction n arbitrary: st query)
  case 0
  { case 1 show ?case by simp next case 2 show ?case by simp next case 3 show ?case by simp
    next case 4 show ?case by simp next case 5 show ?case by simp next case 6 show ?case by simp }
next
  case (Suc n)
  note expr = Suc.IH(1) and orl = Suc.IH(2) and conj = Suc.IH(3) and andl = Suc.IH(4)
    and un = Suc.IH(5) and prim = Suc.IH(6)
  { case 1
    have "proper (or_loop keccak ending n q st')"
      if "5 * left st + 4 \<le> Suc n" "parseAnd keccak ending n st = Inr (q, st')" for q st'
      using orl [of st' q] sound_left conj [of st] that by fastforce
    then show ?case using conj [of st] orl by (auto simp: bind_result_eq_Inr intro!: proper_bind)
  next
    case 2
    show ?case
    proof (cases "peek st = Some TOr")
      case True
      then obtain t ts where t: "ps_tokens st = t # ts" by (auto simp: peek_Some)
      let ?st = "st\<lparr>ps_tokens := ts\<rparr>"
      have step: "or_loop keccak ending (Suc n) query st =
        bind_result (parseAnd keccak ending n ?st) (\<lambda>(right, st'). or_loop keccak ending n (Or query right) st')"
        using True t by simp
      have "proper (or_loop keccak ending n (Or query r) st')"
        if "5 * left st + 1 \<le> Suc n" "parseAnd keccak ending n ?st = Inr (r, st')" for r st'
        using orl [of st' "Or query r"] sound_left conj [of ?st] that t by fastforce
      moreover have "sound st0 q st''"
        if "parseAnd keccak ending n ?st = Inr (r, st')" "or_loop keccak ending n (Or query r) st' = Inr (q, st'')"
          "sound st0 query st" for r st' q st'' st0
        using orl [of st' "Or query r"] sound_And(2) [OF that(3) t] conj [of ?st] that by blast
      ultimately show ?thesis unfolding step using conj [of ?st] t
        by (auto simp: bind_result_eq_Inr intro!: proper_bind)
    qed simp
  next
    case 3
    have "proper (and_loop keccak ending n q st')"
      if "5 * left st + 3 \<le> Suc n" "parseUnary keccak ending n st = Inr (q, st')" for q st'
      using andl [of st' q] sound_left un [of st] that by fastforce
    then show ?case using un [of st] andl by (auto simp: bind_result_eq_Inr intro!: proper_bind)
  next
    case 4
    show ?case
    proof (cases "peek st = Some TAnd")
      case True
      then obtain t ts where t: "ps_tokens st = t # ts" by (auto simp: peek_Some)
      let ?st = "st\<lparr>ps_tokens := ts\<rparr>"
      have step: "and_loop keccak ending (Suc n) query st =
        bind_result (parseUnary keccak ending n ?st) (\<lambda>(right, st'). and_loop keccak ending n (And query right) st')"
        using True t by simp
      have "proper (and_loop keccak ending n (And query r) st')"
        if "5 * left st + 1 \<le> Suc n" "parseUnary keccak ending n ?st = Inr (r, st')" for r st'
        using andl [of st' "And query r"] sound_left un [of ?st] that t by fastforce
      moreover have "sound st0 q st''"
        if "parseUnary keccak ending n ?st = Inr (r, st')" "and_loop keccak ending n (And query r) st' = Inr (q, st'')"
          "sound st0 query st" for r st' q st'' st0
        using andl [of st' "And query r"] sound_And(1) [OF that(3) t] un [of ?st] that by blast
      ultimately show ?thesis unfolding step using un [of ?st] t
        by (auto simp: bind_result_eq_Inr intro!: proper_bind)
    qed simp
  next
    case 5
    show ?case
    proof (cases "ps_tokens st")
      case t: (Cons t ts)
      show ?thesis
      proof (cases "st_token t = TNot")
        case True
        have "proper (parseUnary keccak ending n st1)"
          if "5 * left st + 2 \<le> Suc n" "descend (st_start t) (st\<lparr>ps_tokens := ts\<rparr>) = Inr st1" for st1
          using un [of st1] descend_left [OF that(2)] that(1) t by simp
        then show ?thesis using True t un sound_Not [OF t]
          by (auto simp: bind_result_eq_Inr intro!: proper_bind)
      qed (use t prim [of st] in simp)
    qed simp
  next
    case 6
    show ?case
    proof (cases "ps_tokens st")
      case t: (Cons t ts)
      show ?thesis
      proof (cases "st_token t = TLparen")
        case True
        have "proper (parseExpr keccak ending n st1)"
          if "5 * left st + 1 \<le> Suc n" "descend (st_start t) (st\<lparr>ps_tokens := ts\<rparr>) = Inr st1" for st1
          using expr [of st1] descend_left [OF that(2)] that(1) t by simp
        moreover have "sound st q (ascend (snd (advance st2)))"
          if "descend (st_start t) (st\<lparr>ps_tokens := ts\<rparr>) = Inr st1" "parseExpr keccak ending n st1 = Inr (q, st2)"
            "peek st2 = Some TRparen" for st1 q st2
          using that expr [of st1] sound_group [OF t that(1)] by (auto simp: peek_Some)
        ultimately show ?thesis using True t
          by (auto simp: bind_result_eq_Inr intro!: proper_bind split: if_splits)
      qed (use t parsePredicate_sound proper_parsePredicate in auto)
    qed simp
  }
qed

section \<open>From the text\<close>

lemma keyword_tokens: "map_of KEYWORDS w = Some k \<Longrightarrow> token_ok k"
  by (auto simp: KEYWORDS_def split: if_splits)

lemma lexWord_token:
  assumes "lexWord len start s = Inr (tok, r)" "s \<noteq> []" "is_alpha (hd s)"
  shows "token_ok tok"
proof -
  let ?w = "takeWhile isNameChar s"
  have hd: "?w \<noteq> []" "hd ?w = hd s"
    using assms(2,3) by (cases s; simp add: isNameChar_def)+
  have all: "list_all isNameChar ?w" by (auto simp: list_all_iff dest: set_takeWhileD)
  show ?thesis
  proof (cases "map_of KEYWORDS (to_lower ?w)")
    case (Some k)
    then show ?thesis using assms(1) keyword_tokens by (simp add: lexWord_def)
  next
    case None
    then have "tok = TName ?w \<or> (\<exists>tag b p. tok = TTagged tag b p)"
      using assms(1)
      by (auto simp: lexWord_def Let_def taggedBody_def bind_result_eq_Inr split: option.splits list.splits if_splits)
    then show ?thesis using None hd all assms(3) by auto
  qed
qed

lemma takeIfEquals_token: "takeIfEquals a b s = (tok, r) \<Longrightarrow> tok = a \<or> tok = b"
  by (cases s) (auto split: if_splits)

text \<open>Every token a lexing step gives is one the lexer makes.\<close>

definition gives_ok :: "query_error + token \<times> string \<Rightarrow> bool" where
  "gives_ok r \<longleftrightarrow> (\<forall>tok rest. r = Inr (tok, rest) \<longrightarrow> token_ok tok)"

lemma gives_ok_simps [simp]: "gives_ok (Inl e)" "gives_ok (Inr (tok, rest)) = token_ok tok"
  by (auto simp: gives_ok_def)

lemma gives_ok_if: "(b \<Longrightarrow> gives_ok x) \<Longrightarrow> (\<not> b \<Longrightarrow> gives_ok y) \<Longrightarrow> gives_ok (if b then x else y)"
  by simp

lemma gives_ok_takeIfEquals: "token_ok a \<Longrightarrow> token_ok b \<Longrightarrow> gives_ok (Inr (takeIfEquals a b s))"
  by (cases s) auto

lemma lex_token_ok:
  assumes "lex_token len start c s = Inr (tok, r)"
  shows "token_ok tok"
proof -
  have word: "is_alpha c \<Longrightarrow> gives_ok (lexWord len start (c # s))"
    using lexWord_token [of len start "c # s"] by (simp add: gives_ok_def)
  have "gives_ok (lex_token len start c s)"
    unfolding lex_token_def Let_def
    by (intro gives_ok_if; (rule word | simp add: gives_ok_takeIfEquals split: list.split option.split prod.split))
  then show ?thesis using assms by (simp add: gives_ok_def)
qed

lemma tokenize_ok: "tokenize len s = Inr toks \<Longrightarrow> t \<in> set toks \<Longrightarrow> token_ok (st_token t)"
proof (induction len s arbitrary: toks rule: tokenize.induct)
  case (1 len s)
  show ?case
  proof (cases "nextToken len s")
    case (Inr out)
    note nxt = Inr
    show ?thesis
    proof (cases out)
      case None
      then show ?thesis using "1.prems" nxt by (simp add: tokenize.simps [of len s])
    next
      case (Some p)
      obtain tok r where p: "p = (tok, r)" by (cases p)
      obtain ts where ts: "tokenize len r = Inr ts" "toks = tok # ts"
        using "1.prems"(1) nxt Some p by (auto simp: tokenize.simps [of len s] bind_result_eq_Inr)
      have "token_ok (st_token tok)"
        using nxt Some p lex_token_ok
        by (auto simp: nextToken_def Let_def bind_result_eq_Inr split: list.splits)
      then show ?thesis using "1.IH" [OF nxt Some p [symmetric] ts(1)] "1.prems"(2) ts(2) by auto
    qed
  qed (use "1.prems" in \<open>simp add: tokenize.simps [of len s]\<close>)
qed

lemma proper_take_body: "proper (take_body len ls d s)"
  by (induction len ls d s rule: take_body.induct) (auto split: option.splits)

lemma proper_lexWord: "proper (lexWord len start s)"
  by (auto simp: lexWord_def Let_def taggedBody_def proper_take_body split: option.splits list.splits intro!: proper_bind)

lemma proper_if: "(b \<Longrightarrow> proper x) \<Longrightarrow> (\<not> b \<Longrightarrow> proper y) \<Longrightarrow> proper (if b then x else y)"
  by simp

lemma proper_lex_token: "proper (lex_token len start c s)"
  unfolding lex_token_def Let_def
  by (intro proper_if; (rule proper_lexWord | simp split: list.split option.split prod.split))

lemma proper_tokenize: "proper (tokenize len s)"
proof (induction len s rule: tokenize.induct)
  case (1 len s)
  have nxt: "proper (nextToken len s)"
    by (auto simp: nextToken_def Let_def proper_lex_token split: list.splits intro!: proper_bind)
  show ?case
  proof (cases "nextToken len s")
    case (Inl e)
    then show ?thesis using nxt by (simp add: tokenize.simps [of len s] proper_def)
  next
    case (Inr out)
    then show ?thesis using "1.IH" by (cases out) (auto simp: tokenize.simps [of len s] intro!: proper_bind)
  qed
qed

lemma proper_parseTopLevel: "proper (parseTopLevel keccak ending toks)"
proof -
  have "proper (parseExpr keccak ending (parser_fuel toks) (parse_start toks))"
    using parser_levels(1) [of "parse_start toks" "parser_fuel toks" keccak ending] by (simp add: parser_fuel_def parse_start_def)
  then show ?thesis by (auto simp: parseTopLevel_def split: list.splits intro!: proper_bind)
qed

lemma parseEntityQuery_fuel: "proper (parseEntityQuery keccak input)"
  by (auto simp: parseEntityQuery_def Let_def proper_tokenize proper_parseTopLevel intro!: proper_bind)

lemma parseEntityQuery_sound:
  assumes "parseEntityQuery keccak input = Inr q"
  shows "q = All \<or> (ast_ok q \<and> predicate_count q \<le> MAX_PREDICATES \<and> not_depth q \<le> MAX_NESTING_DEPTH)"
proof -
  let ?src = "utf8_bytes input"
  obtain toks where toks: "tokenize (length ?src) ?src = Inr toks" "parseTopLevel keccak (length ?src) toks = Inr q"
    using assms by (auto simp: parseEntityQuery_def Let_def bind_result_eq_Inr split: if_splits)
  have ok: "\<forall>t \<in> set toks. token_ok (st_token t)" using tokenize_ok [OF toks(1)] by blast
  show ?thesis
  proof (cases "q = All")
    case False
    then obtain t ts where "toks = t # ts" "st_token t \<noteq> TStar"
      using toks(2) by (cases toks) (auto simp: parseTopLevel_def split: list.splits if_splits)
    then obtain q' st where "parseExpr keccak (length ?src) (parser_fuel toks) (parse_start toks) = Inr (q', st)"
      "(case ps_tokens st of [] \<Rightarrow> Inr q' | u # _ \<Rightarrow> Inl (syntaxError (st_start u))) = Inr q"
      using toks(2) by (auto simp: parseTopLevel_def bind_result_eq_Inr)
    then have "parseExpr keccak (length ?src) (parser_fuel toks) (parse_start toks) = Inr (q, st)"
      by (cases "ps_tokens st") auto
    then have "sound (parse_start toks) q st" using parser_levels(1) by blast
    then show ?thesis using ok by (auto simp: sound_def parse_start_def)
  qed simp
qed

end
