(* ===== verification/EntityQueryPrint.thy ===== *)
theory EntityQueryPrint
  imports EntityQueryFacts
begin

text \<open>
  The token form of a syntax tree, and that parsing it gives the tree back: the grammar's precedence
  (NOT over AND over OR), its left associativity and the literal of each type, within the limits.
\<close>

section \<open>Literals read back\<close>

lemma magnitude_complete:
  "list_all is_digit s \<Longrightarrow> 0 \<le> v \<Longrightarrow> v * 10 ^ length s + int (dec_val s) \<le> limit \<Longrightarrow>
    fold_result (magnitude_step p limit) s v = Inr (v * 10 ^ length s + int (dec_val s))"
proof (induction s arbitrary: v)
  case Nil
  then show ?case by (simp add: dec_val_def)
next
  case (Cons c s)
  let ?v = "v * 10 + int (digit_val c)"
  have eq: "v * 10 ^ length (c # s) + int (dec_val (c # s)) = ?v * 10 ^ length s + int (dec_val s)"
    using dec_val_append [of "[c]" s] by (simp add: dec_val_def algebra_simps)
  have "?v \<le> ?v * 10 ^ length s"
    using Cons.prems(2) by (simp add: mult_le_cancel_left1)
  then have "?v \<le> limit" using Cons.prems(3) unfolding eq by linarith
  then have "magnitude_step p limit c v = Inr ?v" using Cons.prems(1) by (simp add: magnitude_step_def)
  then show ?case using Cons.IH [of ?v] Cons.prems unfolding eq by simp
qed

lemma decimalMagnitude_complete:
  "all_digits s \<Longrightarrow> int (dec_val s) \<le> limit \<Longrightarrow> decimalMagnitude s p limit = Inr (int (dec_val s))"
  using magnitude_complete [of s 0 limit p] by (simp add: decimalMagnitude_def all_digits_def)

lemma js_trim_int_to_dec: "js_trim (int_to_dec i) = int_to_dec i"
proof -
  obtain c s where c: "nat_to_dec (nat \<bar>i\<bar>) = c # s" "is_digit c" "list_all is_digit s"
    using nat_to_dec_Cons by blast
  then have "int_to_dec i = (if i < 0 then CHR ''-'' # c # s else c # s)" by (auto simp: int_to_dec_def)
  moreover have "plain_char (last (c # s))" using c by (cases s rule: rev_cases) auto
  ultimately show ?thesis by (intro js_trim_plain) (use c in \<open>auto simp: plain_decimal_chars\<close>)
qed

lemma splitSign_int_to_dec: "splitSign (int_to_dec i) = (i < 0, nat_to_dec (nat \<bar>i\<bar>))"
proof -
  obtain c s where "nat_to_dec (nat \<bar>i\<bar>) = c # s" "is_digit c" using nat_to_dec_Cons by blast
  then show ?thesis by (auto simp: int_to_dec_def)
qed

lemma parseI32_print: "I32_MIN \<le> i \<Longrightarrow> i \<le> I32_MAX \<Longrightarrow> parseI32 (int_to_dec i) p = Inr i"
proof -
  assume i: "I32_MIN \<le> i" "i \<le> I32_MAX"
  have "decimalMagnitude (nat_to_dec (nat \<bar>i\<bar>)) p U64_MAX = Inr \<bar>i\<bar>"
    using i by (subst decimalMagnitude_complete) (auto simp: I32_MIN_def I32_MAX_def U64_MAX_def)
  then show ?thesis using i
    by (auto simp: parseI32_def js_trim_int_to_dec splitSign_int_to_dec I32_MIN_def I32_MAX_def ensure_def)
qed

lemma unsigned_text:
  assumes "0 \<le> i"
  shows "\<not> is_signed (int_to_dec i)" "stripHexPrefix (int_to_dec i) = None"
proof -
  obtain c s where c: "nat_to_dec (nat i) = c # s" "is_digit c" "list_all is_digit s" using nat_to_dec_Cons by blast
  have x: "\<not> is_digit CHR ''x''" "\<not> is_digit CHR ''X''" by (simp_all add: is_digit_def)
  show "\<not> is_signed (int_to_dec i)" using assms c by (auto simp: is_signed_def int_to_dec_nonneg)
  show "stripHexPrefix (int_to_dec i) = None"
    using assms c x by (cases s) (auto simp: stripHexPrefix_def int_to_dec_nonneg)
qed

lemma parseU64_print: "0 \<le> i \<Longrightarrow> i \<le> U64_MAX \<Longrightarrow> parseU64 (int_to_dec i) p = Inr i"
  by (simp add: parseU64_def js_trim_int_to_dec unsigned_text)
     (simp add: int_to_dec_nonneg decimalMagnitude_complete)

lemma parseU256_print: "0 \<le> i \<Longrightarrow> i \<le> U256_MAX \<Longrightarrow> parseU256 (int_to_dec i) p = Inr i"
  by (simp add: parseU256_def js_trim_int_to_dec unsigned_text)
     (simp add: int_to_dec_nonneg decimalMagnitude_complete)

lemma dec_places_complete:
  "list_all is_digit f \<Longrightarrow> length f \<le> n \<Longrightarrow> 0 \<le> v \<Longrightarrow>
    v * 10 ^ n + int (dec_val (pad_end n CHR ''0'' f)) \<le> U256_MAX \<Longrightarrow>
    dec_places p n f v = Inr (v * 10 ^ n + int (dec_val (pad_end n CHR ''0'' f)))"
proof (induction n arbitrary: f v)
  case 0
  then show ?case by (simp add: pad_end_def dec_val_def)
next
  case (Suc n)
  define d where "d = (case f of [] \<Rightarrow> CHR ''0'' | c # _ \<Rightarrow> c)"
  let ?v = "v * 10 + int (digit_val d)"
  have zero: "digit_val CHR ''0'' = 0" by (simp add: digit_val_def)
  have pad: "pad_end (Suc n) CHR ''0'' f = d # pad_end n CHR ''0'' (tl f)"
    using Suc.prems(2) by (cases f) (auto simp: pad_end_def d_def)
  have len: "length (pad_end n CHR ''0'' (tl f)) = n" using Suc.prems(2) by (cases f) (auto simp: pad_end_def)
  have eq: "v * 10 ^ Suc n + int (dec_val (pad_end (Suc n) CHR ''0'' f)) =
      ?v * 10 ^ n + int (dec_val (pad_end n CHR ''0'' (tl f)))"
    using dec_val_append [of "[d]" "pad_end n CHR ''0'' (tl f)"] len by (simp add: pad dec_val_def algebra_simps)
  have "?v \<le> ?v * 10 ^ n"
    using Suc.prems(3) by (simp add: mult_le_cancel_left1)
  then have "?v \<le> U256_MAX" using Suc.prems(4) unfolding eq by linarith
  then have "dec_places p (Suc n) f v = dec_places p n (tl f) ?v"
    using Suc.prems(1) zero by (cases f) (auto simp: d_def)
  also have "\<dots> = Inr (?v * 10 ^ n + int (dec_val (pad_end n CHR ''0'' (tl f))))"
    using Suc.IH [of "tl f" ?v] Suc.prems unfolding eq by (cases f) auto
  finally show ?case unfolding eq .
qed

lemma parseDec_print:
  assumes "I256_MIN \<le> u" "u \<le> I256_MAX"
  shows "parseDec (formatDecimalUnits u) p = Inr u"
proof -
  let ?w = "nat_to_dec (nat (\<bar>u\<bar> div DECIMAL_UNIT))" and ?f = "dec_fraction \<bar>u\<bar>"
  have split: "splitSign (formatDecimalUnits u) = (u < 0, ?w @ (if ?f = [] then [] else CHR ''.'' # ?f))"
  proof -
    obtain c s where "?w = c # s" "is_digit c" using nat_to_dec_Cons by blast
    then show ?thesis by (auto simp: formatDecimalUnits_parts)
  qed
  have nodot: "c \<in> set ?w \<Longrightarrow> c \<noteq> CHR ''.''" for c
    using list_all_digit_nat_to_dec by (auto simp: list_all_iff)
  have whole: "takeWhile (\<lambda>c. c \<noteq> CHR ''.'') (?w @ (if ?f = [] then [] else CHR ''.'' # ?f)) = ?w"
    "dropWhile (\<lambda>c. c \<noteq> CHR ''.'') (?w @ (if ?f = [] then [] else CHR ''.'' # ?f)) =
      (if ?f = [] then [] else CHR ''.'' # ?f)"
    using nodot by (auto simp: takeWhile_append dropWhile_append)
  have abs: "\<bar>u\<bar> \<le> 2 ^ 255" using assms by (auto simp: I256_MIN_def I256_MAX_def)
  have val: "int (dec_val ?w) * 10 ^ DECIMAL_SCALE + int (dec_val (pad_end DECIMAL_SCALE CHR ''0'' ?f)) = \<bar>u\<bar>"
    by (subst dec_fraction_pad)
       (simp_all add: pos_imp_zdiv_nonneg_iff DECIMAL_UNIT_def [symmetric])
  have "int (dec_val ?w) = \<bar>u\<bar> div DECIMAL_UNIT" by (simp add: pos_imp_zdiv_nonneg_iff)
  also have "\<dots> \<le> \<bar>u\<bar>" by (rule zdiv_mono2 [of "\<bar>u\<bar>" 1 DECIMAL_UNIT, simplified]) (simp add: DECIMAL_UNIT_def)
  finally have "int (dec_val ?w) \<le> U256_MAX" using abs by (simp add: U256_MAX_def)
  then have mag: "decimalMagnitude ?w p U256_MAX = Inr (int (dec_val ?w))" by (intro decimalMagnitude_complete) simp_all
  have places: "dec_places p DECIMAL_SCALE ?f (int (dec_val ?w)) = Inr \<bar>u\<bar>"
    using dec_places_complete [of ?f DECIMAL_SCALE "int (dec_val ?w)" p] val abs dec_fraction_digits dec_fraction_length
    by (simp add: U256_MAX_def DECIMAL_SCALE_def)
  have len: "\<not> DECIMAL_SCALE < length ?f" using dec_fraction_length [of "\<bar>u\<bar>"] by (simp add: DECIMAL_SCALE_def)
  have sign: "\<not> (\<bar>u\<bar> > I256_MAX \<and> \<not> (u < 0 \<and> \<bar>u\<bar> = - I256_MIN))"
    using assms by (auto simp: I256_MIN_def I256_MAX_def)
  have "tl (if ?f = [] then [] else CHR ''.'' # ?f) = ?f" by simp
  then show ?thesis
    using whole mag places len sign
    by (simp add: parseDec_def js_trim_formatDecimal split Let_def)
qed

lemma parseWordHex_print: "isHexOfLength k 64 \<Longrightarrow> to_lower k = k \<Longrightarrow> parseWordHex k p = Inr k"
proof -
  assume k: "isHexOfLength k 64" "to_lower k = k"
  then obtain b where b: "k = ''0x'' @ b" "length b = 64" "list_all is_hex_digit b"
    by (auto simp: isHexOfLength_def strip_0x_Some split: option.splits)
  then have "b \<noteq> []" by auto
  then have "plain_char (last b)" using b(3) by (metis last_in_set list_all_iff plain_hex_digit)
  then have "js_trim k = k" using b(1) \<open>b \<noteq> []\<close> by (intro js_trim_plain) (auto simp: plain_char_def)
  then show ?thesis using k b \<open>b \<noteq> []\<close>
    by (simp add: parseWordHex_def stripHexPrefix_def checkHexDigits_def all_hex_def to_lower_0x ensure_def)
qed

lemma parseAddr_print: "isHexOfLength k 40 \<Longrightarrow> to_lower k = k \<Longrightarrow> parseAddr keccak k p = Inr k"
proof -
  assume k: "isHexOfLength k 40" "to_lower k = k"
  then obtain b where b: "k = ''0x'' @ b" "length b = 40" "list_all is_hex_digit b"
    by (auto simp: isHexOfLength_def strip_0x_Some split: option.splits)
  then have "b \<noteq> []" by auto
  then have "plain_char (last b)" using b(3) by (metis last_in_set list_all_iff plain_hex_digit)
  then have trim: "js_trim k = k" using b(1) \<open>b \<noteq> []\<close> by (intro js_trim_plain) (auto simp: plain_char_def)
  have low: "to_lower b = b" using k(2) b(1) by (simp add: to_lower_0x)
  have "\<not> is_upper_hex c" if "c \<in> set (to_lower b)" for c
    using that by (auto simp: to_lower_def is_upper_hex_def to_lower_char_def split: if_splits)
  then have "\<not> list_ex is_upper_hex b" using low by (auto simp: list_ex_iff)
  then show ?thesis using trim b low \<open>b \<noteq> []\<close>
    by (simp add: parseAddr_def stripHexPrefix_def checkHexDigits_def checkEip55_def all_hex_def ensure_def)
qed

text \<open>A string with its quotes doubled.\<close>

fun escape_quotes :: "string \<Rightarrow> string" where
  "escape_quotes [] = []"
| "escape_quotes (c # s) = (if c = quote then [quote, quote] else [c]) @ escape_quotes s"

lemma scan_escaped: "scan_quoted (escape_quotes s @ [quote]) = Some (s, [])"
  by (induction s) auto

lemma escape_no_surrogate:
  "has_lone_surrogate (escape_quotes s @ [quote]) = has_lone_surrogate s"
proof (induction s)
  case (Cons c s)
  have q: "byte_of quote = 39" by (simp add: quote_def)
  show ?case
  proof (cases s)
    case Nil
    then show ?thesis using q by (auto simp: has_lone_surrogate_Cons)
  next
    case (Cons d t)
    then show ?thesis using Cons.IH q by (auto simp: has_lone_surrogate_Cons [of c] has_lone_surrogate_Cons [of quote])
  qed
qed (simp add: quote_def)

lemma parseStr_print:
  assumes "utf8_text s" "length (utf8_bytes s) \<le> MAX_STR_BYTES"
  shows "parseStr (quote # escape_quotes s @ [quote]) p = Inr s"
proof -
  have "js_trim (quote # escape_quotes s @ [quote]) = quote # escape_quotes s @ [quote]"
    by (rule js_trim_plain) (simp_all add: quote_def plain_char_def)
  moreover have "\<not> has_lone_surrogate s" using assms(1) by (simp add: utf8_text_def decoded_no_surrogate)
  then have "\<not> has_lone_surrogate (quote # escape_quotes s @ [quote])"
    using escape_no_surrogate [of s] by (simp add: has_lone_surrogate_Cons [of quote]) (simp add: quote_def)
  then have "utf8_bytes (quote # escape_quotes s @ [quote]) = quote # escape_quotes s @ [quote]"
    by (rule utf8_bytes_id)
  ultimately show ?thesis using assms by (simp add: parseStr_def scan_escaped bytesToText_def utf8_text_def)
qed

section \<open>The token form\<close>

definition at0 :: "token \<Rightarrow> spanned_token" where
  "at0 tok = \<lparr>st_token = tok, st_start = 0\<rparr>"

fun value_token :: "query_value \<Rightarrow> token" where
  "value_token (VBool b) = (if b then TTrue else TFalse)"
| "value_token (VI32 i) = TTagged TI32 (int_to_dec i) 0"
| "value_token (VU64 i) = TTagged TU64 (int_to_dec i) 0"
| "value_token (VU256 i) = TTagged TU256 (int_to_dec i) 0"
| "value_token (VDec u) = TTagged TDec (formatDecimalUnits u) 0"
| "value_token (VStr s) = TTagged TStr (quote # escape_quotes s @ [quote]) 0"
| "value_token (VAddr a) = TTagged TAddr a 0"
| "value_token (VKey k) = TTagged TKey k 0"
| "value_token (VBytes32 k) = TTagged TBytes32 k 0"

fun field_name :: "builtin_field \<Rightarrow> string" where
  "field_name Owner = ''owner''"
| "field_name Creator = ''creator''"
| "field_name Key = ''key''"
| "field_name ExpiresAt = ''expiresAt''"
| "field_name CreatedAt = ''createdAt''"

fun ref_token :: "attribute_ref \<Rightarrow> token" where
  "ref_token (User name) = TName name"
| "ref_token (Builtin f) = TSysname (field_name f)"

fun operator_token :: "comparison_operator \<Rightarrow> token" where
  "operator_token OpEq = TEq"
| "operator_token OpLt = TLt"
| "operator_token OpLte = TLte"
| "operator_token OpGt = TGt"
| "operator_token OpGte = TGte"

text \<open>At level 0 anything stands bare, at 1 no OR does, at 2 neither OR nor AND.\<close>

fun print_tokens :: "nat \<Rightarrow> query_ast \<Rightarrow> token list" where
  "print_tokens k All = [TStar]"
| "print_tokens k (Compare op key v) = [ref_token key, operator_token op, value_token v]"
| "print_tokens k (StartsWith key s) = [ref_token key, TStartswith, value_token (VStr s)]"
| "print_tokens k (And l r) =
     (let body = print_tokens 1 l @ [TAnd] @ print_tokens 2 r in
      if k \<le> 1 then body else [TLparen] @ body @ [TRparen])"
| "print_tokens k (Or l r) =
     (let body = print_tokens 0 l @ [TOr] @ print_tokens 1 r in
      if k = 0 then body else [TLparen] @ body @ [TRparen])"
| "print_tokens k (Not q) = TNot # print_tokens 2 q"

text \<open>How deep the printed form nests: groups and NOTs.\<close>

fun print_depth :: "nat \<Rightarrow> query_ast \<Rightarrow> nat" where
  "print_depth k (And l r) =
     (let d = max (print_depth 1 l) (print_depth 2 r) in if k \<le> 1 then d else Suc d)"
| "print_depth k (Or l r) =
     (let d = max (print_depth 0 l) (print_depth 1 r) in if k = 0 then d else Suc d)"
| "print_depth k (Not q) = Suc (print_depth 2 q)"
| "print_depth k _ = 0"

fun texts_ok :: "query_ast \<Rightarrow> bool" where
  "texts_ok (Compare op key (VStr s)) = utf8_text s"
| "texts_ok (StartsWith key s) = utf8_text s"
| "texts_ok (And l r) = (texts_ok l \<and> texts_ok r)"
| "texts_ok (Or l r) = (texts_ok l \<and> texts_ok r)"
| "texts_ok (Not q) = texts_ok q"
| "texts_ok _ = True"

definition printed :: "nat \<Rightarrow> query_ast \<Rightarrow> spanned_token list" where
  "printed k q = map at0 (print_tokens k q)"

text \<open>The state after a tree was read off the front.\<close>

definition read_off :: "parse_state \<Rightarrow> query_ast \<Rightarrow> spanned_token list \<Rightarrow> parse_state" where
  "read_off st q rest = st\<lparr>ps_tokens := rest, ps_predicates := ps_predicates st + predicate_count q\<rparr>"

lemma read_off_simps [simp]:
  "ps_tokens (read_off st q rest) = rest" "ps_depth (read_off st q rest) = ps_depth st"
  "ps_predicates (read_off st q rest) = ps_predicates st + predicate_count q"
  by (simp_all add: read_off_def)

lemma parse_state_eqI:
  "ps_tokens s = ps_tokens t \<Longrightarrow> ps_depth s = ps_depth t \<Longrightarrow> ps_predicates s = ps_predicates t \<Longrightarrow> s = (t :: parse_state)"
  by (cases s; cases t) simp

lemma parseValue_print:
  assumes "value_ok v" "\<And>s. v = VStr s \<Longrightarrow> utf8_text s" "case key of User _ \<Rightarrow> True | Builtin f \<Rightarrow> value_type v = builtinType f"
    and "ps_tokens st = at0 (value_token v) # rest"
  shows "parseValue keccak ending key st = Inr ((v, 0), st\<lparr>ps_tokens := rest\<rparr>)"
proof -
  have "checkValueType key v 0 = Inr ()" using assms(3) by (cases key) (auto simp: checkValueType_def)
  then show ?thesis using assms(1,2,4)
    by (cases v) (auto simp: parseValue_def at0_def parseI32_print parseU64_print parseU256_print parseDec_print
        parseStr_print parseAddr_print parseWordHex_print)
qed

lemma parseAttrRef_print:
  assumes "ps_tokens st = at0 (ref_token key) # rest" "case key of User n \<Rightarrow> name_ok n | Builtin f \<Rightarrow> True"
  shows "parseAttrRef ending st = Inr (key, st\<lparr>ps_tokens := rest\<rparr>)"
proof (cases key)
  case (User n)
  then show ?thesis using assms
    by (simp add: parseAttrRef_def at0_def validateUserName_def ensure_def name_ok_def)
next
  case (Builtin f)
  then show ?thesis using assms(1) by (cases f) (simp_all add: parseAttrRef_def at0_def builtinFromName_def)
qed

lemma parsePredicate_print:
  assumes "q = Compare op key v \<or> (q = StartsWith key s \<and> v = VStr s)" "ast_ok q" "texts_ok q"
    and "ps_tokens st = printed k q @ rest" "ps_predicates st < MAX_PREDICATES"
  shows "parsePredicate keccak ending st = Inr (q, read_off st q rest)"
proof -
  define st0 where "st0 = st\<lparr>ps_predicates := ps_predicates st + 1\<rparr>"
  obtain tok where toks: "ps_tokens st0 = at0 (ref_token key) # at0 tok # at0 (value_token v) # rest"
    and tok: "(\<exists>op. q = Compare op key v \<and> tok = operator_token op) \<or> (q = StartsWith key s \<and> tok = TStartswith \<and> v = VStr s)"
    using assms(1,4) by (auto simp: printed_def st0_def)
  have ref: "parseAttrRef ending st0 = Inr (key, st0\<lparr>ps_tokens := at0 tok # at0 (value_token v) # rest\<rparr>)"
    by (rule parseAttrRef_print [OF toks]) (use assms(1,2) in \<open>cases key; auto\<close>)
  have val: "parseValue keccak ending key (st0\<lparr>ps_tokens := at0 (value_token v) # rest\<rparr>) =
      Inr ((v, 0), st0\<lparr>ps_tokens := rest\<rparr>)"
    by (rule parseValue_print [THEN trans]) (use assms(1-3) in \<open>cases key; auto\<close>)+
  have "ps_predicates st0 \<le> MAX_PREDICATES" using assms(5) by (simp add: st0_def)
  moreover have "st0\<lparr>ps_tokens := rest\<rparr> = read_off st q rest"
    using assms(1) by (auto simp: st0_def read_off_def)
  ultimately have "parsePredicate keccak ending st =
    bind_result (Inr (key, st0\<lparr>ps_tokens := at0 tok # at0 (value_token v) # rest\<rparr>)) (\<lambda>_. Inr (q, read_off st q rest))"
    using tok assms(2)
  proof (elim disjE exE conjE)
    fix op' assume op': "q = Compare op' key v" "tok = operator_token op'" and lim: "ps_predicates st0 \<le> MAX_PREDICATES"
      and eq: "st0\<lparr>ps_tokens := rest\<rparr> = read_off st q rest"
    have "comparison_of tok = Some op'" using op'(2) by (cases op') auto
    moreover have "checkOperator op' v 0 = Inr ()" using assms(2) op'(1) by (simp add: checkOperator_def ensure_def)
    ultimately show ?thesis using lim ref val eq op'(1)
      by (simp add: parsePredicate_def Let_def st0_def at0_def [of tok])
  next
    assume s: "q = StartsWith key s" "tok = TStartswith" "v = VStr s" and lim: "ps_predicates st0 \<le> MAX_PREDICATES"
      and eq: "st0\<lparr>ps_tokens := rest\<rparr> = read_off st q rest"
    then show ?thesis using lim ref val eq
      by (simp add: parsePredicate_def Let_def st0_def at0_def [of TStartswith])
  qed
  then show ?thesis by simp
qed

section \<open>The levels read back\<close>

definition unary_reads :: "(string \<Rightarrow> string) \<Rightarrow> nat \<Rightarrow> query_ast \<Rightarrow> bool" where
  "unary_reads keccak ending q \<longleftrightarrow>
     (\<forall>st rest n. ps_tokens st = printed 2 q @ rest \<longrightarrow> 5 * left st + 2 \<le> n \<longrightarrow>
        ps_depth st + print_depth 2 q \<le> MAX_NESTING_DEPTH \<longrightarrow>
        ps_predicates st + predicate_count q \<le> MAX_PREDICATES \<longrightarrow>
        parseUnary keccak ending n st = Inr (q, read_off st q rest))"

definition and_reads :: "(string \<Rightarrow> string) \<Rightarrow> nat \<Rightarrow> query_ast \<Rightarrow> bool" where
  "and_reads keccak ending q \<longleftrightarrow>
     (\<forall>st rest n. ps_tokens st = printed 1 q @ rest \<longrightarrow> 5 * left st + 3 \<le> n \<longrightarrow>
        ps_depth st + print_depth 1 q \<le> MAX_NESTING_DEPTH \<longrightarrow>
        ps_predicates st + predicate_count q \<le> MAX_PREDICATES \<longrightarrow>
        (\<exists>m. 5 * length rest + 1 \<le> m \<and>
           parseAnd keccak ending n st = and_loop keccak ending m q (read_off st q rest)))"

definition starts_with :: "token \<Rightarrow> spanned_token list \<Rightarrow> bool" where
  "starts_with tok ts \<longleftrightarrow> (\<exists>t us. ts = t # us \<and> st_token t = tok)"

definition or_reads :: "(string \<Rightarrow> string) \<Rightarrow> nat \<Rightarrow> query_ast \<Rightarrow> bool" where
  "or_reads keccak ending q \<longleftrightarrow>
     (\<forall>st rest n. ps_tokens st = printed 0 q @ rest \<longrightarrow> \<not> starts_with TAnd rest \<longrightarrow> 5 * left st + 4 \<le> n \<longrightarrow>
        ps_depth st + print_depth 0 q \<le> MAX_NESTING_DEPTH \<longrightarrow>
        ps_predicates st + predicate_count q \<le> MAX_PREDICATES \<longrightarrow>
        (\<exists>m. 5 * length rest + 1 \<le> m \<and>
           parseExpr keccak ending n st = or_loop keccak ending m q (read_off st q rest)))"

lemma unary_readsD:
  "unary_reads keccak ending q \<Longrightarrow> ps_tokens st = printed 2 q @ rest \<Longrightarrow> 5 * left st + 2 \<le> n \<Longrightarrow>
    ps_depth st + print_depth 2 q \<le> MAX_NESTING_DEPTH \<Longrightarrow> ps_predicates st + predicate_count q \<le> MAX_PREDICATES \<Longrightarrow>
    parseUnary keccak ending n st = Inr (q, read_off st q rest)"
  unfolding unary_reads_def by blast

lemma and_readsD:
  "and_reads keccak ending q \<Longrightarrow> ps_tokens st = printed 1 q @ rest \<Longrightarrow> 5 * left st + 3 \<le> n \<Longrightarrow>
    ps_depth st + print_depth 1 q \<le> MAX_NESTING_DEPTH \<Longrightarrow> ps_predicates st + predicate_count q \<le> MAX_PREDICATES \<Longrightarrow>
    \<exists>m. 5 * length rest + 1 \<le> m \<and> parseAnd keccak ending n st = and_loop keccak ending m q (read_off st q rest)"
  unfolding and_reads_def by blast

lemma or_readsD:
  "or_reads keccak ending q \<Longrightarrow> ps_tokens st = printed 0 q @ rest \<Longrightarrow> \<not> starts_with TAnd rest \<Longrightarrow>
    5 * left st + 4 \<le> n \<Longrightarrow>
    ps_depth st + print_depth 0 q \<le> MAX_NESTING_DEPTH \<Longrightarrow> ps_predicates st + predicate_count q \<le> MAX_PREDICATES \<Longrightarrow>
    \<exists>m. 5 * length rest + 1 \<le> m \<and> parseExpr keccak ending n st = or_loop keccak ending m q (read_off st q rest)"
  unfolding or_reads_def by blast

lemma printed_not_Nil: "printed k q \<noteq> []"
  by (cases q) (auto simp: printed_def Let_def)

lemma and_loop_stops:
  "1 \<le> m \<Longrightarrow> \<not> starts_with TAnd (ps_tokens st) \<Longrightarrow> and_loop keccak ending m q st = Inr (q, st)"
  by (cases m) (auto simp: peek_Some starts_with_def)

lemma or_loop_stops:
  "1 \<le> m \<Longrightarrow> \<not> starts_with TOr (ps_tokens st) \<Longrightarrow> or_loop keccak ending m q st = Inr (q, st)"
  by (cases m) (auto simp: peek_Some starts_with_def)

lemma and_from_unary:
  assumes "printed 1 q = printed 2 q" "print_depth 1 q = print_depth 2 q" "unary_reads keccak ending q"
  shows "and_reads keccak ending q"
  unfolding and_reads_def
proof (intro allI impI)
  fix st rest n
  assume a: "ps_tokens st = printed 1 q @ rest" "5 * left st + 3 \<le> n"
    "ps_depth st + print_depth 1 q \<le> MAX_NESTING_DEPTH" "ps_predicates st + predicate_count q \<le> MAX_PREDICATES"
  then obtain m where m: "n = Suc m" by (cases n) auto
  have "parseUnary keccak ending m st = Inr (q, read_off st q rest)"
    using assms a m by (auto simp: unary_reads_def)
  then show "\<exists>m. 5 * length rest + 1 \<le> m \<and> parseAnd keccak ending n st = and_loop keccak ending m q (read_off st q rest)"
    using a(1,2) m by (intro exI [of _ m]) simp
qed

lemma or_from_and:
  assumes "printed 0 q = printed 1 q" "print_depth 0 q = print_depth 1 q" "and_reads keccak ending q"
  shows "or_reads keccak ending q"
  unfolding or_reads_def
proof (intro allI impI)
  fix st rest n
  assume a: "ps_tokens st = printed 0 q @ rest" "\<not> starts_with TAnd rest" "5 * left st + 4 \<le> n"
    "ps_depth st + print_depth 0 q \<le> MAX_NESTING_DEPTH" "ps_predicates st + predicate_count q \<le> MAX_PREDICATES"
  then obtain m where m: "n = Suc m" by (cases n) auto
  obtain k where "5 * length rest + 1 \<le> k" "parseAnd keccak ending m st = and_loop keccak ending k q (read_off st q rest)"
    using and_readsD [OF assms(3), of st rest m] assms(1,2) a m by auto
  then have "parseAnd keccak ending m st = Inr (q, read_off st q rest)"
    using a(2) by (simp add: and_loop_stops)
  then show "\<exists>m. 5 * length rest + 1 \<le> m \<and> parseExpr keccak ending n st = or_loop keccak ending m q (read_off st q rest)"
    using a(1,3) m by (intro exI [of _ m]) simp
qed

lemma descend_ok: "ps_depth st < MAX_NESTING_DEPTH \<Longrightarrow> descend p st = Inr (st\<lparr>ps_depth := ps_depth st + 1\<rparr>)"
  by (simp add: descend_def Let_def)

lemma unary_from_or:
  assumes "printed 2 q = [at0 TLparen] @ printed 0 q @ [at0 TRparen]" "print_depth 2 q = Suc (print_depth 0 q)"
    and "or_reads keccak ending q"
  shows "unary_reads keccak ending q"
  unfolding unary_reads_def
proof (intro allI impI)
  fix st rest n
  assume a: "ps_tokens st = printed 2 q @ rest" "5 * left st + 2 \<le> n"
    "ps_depth st + print_depth 2 q \<le> MAX_NESTING_DEPTH" "ps_predicates st + predicate_count q \<le> MAX_PREDICATES"
  then have "2 \<le> n" by simp
  then obtain m where m: "n = Suc (Suc m)" by (metis add_2_eq_Suc le_Suc_ex)
  let ?st1 = "st\<lparr>ps_tokens := printed 0 q @ at0 TRparen # rest, ps_depth := ps_depth st + 1\<rparr>"
  have toks: "ps_tokens st = at0 TLparen # printed 0 q @ at0 TRparen # rest" using a(1) assms(1) by simp
  have fuel: "5 * left ?st1 + 4 \<le> m" using a(2) m toks by simp
  have no: "\<not> starts_with TAnd (at0 TRparen # rest)" "\<not> starts_with TOr (at0 TRparen # rest)"
    by (auto simp: starts_with_def at0_def)
  have "\<exists>k. 5 * length (at0 TRparen # rest) + 1 \<le> k \<and>
      parseExpr keccak ending m ?st1 = or_loop keccak ending k q (read_off ?st1 q (at0 TRparen # rest))"
    by (rule or_readsD [OF assms(3)]) (use assms(2) fuel a(3,4) no(1) in simp_all)
  then have expr: "parseExpr keccak ending m ?st1 = Inr (q, read_off ?st1 q (at0 TRparen # rest))"
    using no(2) by (auto simp: or_loop_stops)
  have desc: "descend 0 (st\<lparr>ps_tokens := printed 0 q @ at0 TRparen # rest\<rparr>) = Inr ?st1"
    using a(3) assms(2) by (simp add: descend_ok)
  have "ascend ((read_off ?st1 q (at0 TRparen # rest))\<lparr>ps_tokens := rest\<rparr>) = read_off st q rest"
    by (rule parse_state_eqI) (simp_all add: ascend_def read_off_def)
  then show "parseUnary keccak ending n st = Inr (q, read_off st q rest)"
    using expr desc toks m by (simp add: at0_def peek_def)
qed

lemma starts_with_Cons [simp]: "starts_with tok (t # ts) \<longleftrightarrow> st_token t = tok"
  by (auto simp: starts_with_def)

lemma at0_token [simp]: "st_token (at0 tok) = tok" "st_start (at0 tok) = 0"
  by (simp_all add: at0_def)

lemma and_reads_And:
  assumes "and_reads keccak ending l" "unary_reads keccak ending r"
  shows "and_reads keccak ending (And l r)"
  unfolding and_reads_def
proof (intro allI impI)
  fix st rest n
  assume a: "ps_tokens st = printed 1 (And l r) @ rest" "5 * left st + 3 \<le> n"
    "ps_depth st + print_depth 1 (And l r) \<le> MAX_NESTING_DEPTH"
    "ps_predicates st + predicate_count (And l r) \<le> MAX_PREDICATES"
  let ?rest1 = "at0 TAnd # printed 2 r @ rest"
  have toks: "ps_tokens st = printed 1 l @ ?rest1" using a(1) by (simp add: printed_def Let_def)
  have "\<exists>m. 5 * length ?rest1 + 1 \<le> m \<and> parseAnd keccak ending n st = and_loop keccak ending m l (read_off st l ?rest1)"
    by (rule and_readsD [OF assms(1) toks a(2)]) (use a(3,4) in \<open>simp_all add: Let_def\<close>)
  then obtain m where m: "5 * length ?rest1 + 1 \<le> m"
    "parseAnd keccak ending n st = and_loop keccak ending m l (read_off st l ?rest1)" by blast
  then obtain k where k: "m = Suc k" by (cases m) auto
  let ?st2 = "(read_off st l ?rest1)\<lparr>ps_tokens := printed 2 r @ rest\<rparr>"
  have un: "parseUnary keccak ending k ?st2 = Inr (r, read_off ?st2 r rest)"
    by (rule unary_readsD [OF assms(2)]) (use m(1) k a(3,4) in \<open>simp_all add: Let_def\<close>)
  have eq: "read_off ?st2 r rest = read_off st (And l r) rest"
    by (rule parse_state_eqI) simp_all
  have "and_loop keccak ending m l (read_off st l ?rest1) = and_loop keccak ending k (And l r) (read_off st (And l r) rest)"
    using un unfolding eq by (simp add: k peek_def)
  then show "\<exists>m. 5 * length rest + 1 \<le> m \<and>
      parseAnd keccak ending n st = and_loop keccak ending m (And l r) (read_off st (And l r) rest)"
    using m k by (intro exI [of _ k]) simp
qed

lemma or_reads_Or:
  assumes "or_reads keccak ending l" "and_reads keccak ending r"
  shows "or_reads keccak ending (Or l r)"
  unfolding or_reads_def
proof (intro allI impI)
  fix st rest n
  assume a: "ps_tokens st = printed 0 (Or l r) @ rest" "\<not> starts_with TAnd rest" "5 * left st + 4 \<le> n"
    "ps_depth st + print_depth 0 (Or l r) \<le> MAX_NESTING_DEPTH"
    "ps_predicates st + predicate_count (Or l r) \<le> MAX_PREDICATES"
  let ?rest1 = "at0 TOr # printed 1 r @ rest"
  have toks: "ps_tokens st = printed 0 l @ ?rest1" using a(1) by (simp add: printed_def Let_def)
  have "\<exists>m. 5 * length ?rest1 + 1 \<le> m \<and> parseExpr keccak ending n st = or_loop keccak ending m l (read_off st l ?rest1)"
    by (rule or_readsD [OF assms(1) toks _ a(3)]) (use a(4,5) in \<open>simp_all add: Let_def\<close>)
  then obtain m where m: "5 * length ?rest1 + 1 \<le> m"
    "parseExpr keccak ending n st = or_loop keccak ending m l (read_off st l ?rest1)" by blast
  then obtain k where k: "m = Suc k" by (cases m) auto
  let ?st2 = "(read_off st l ?rest1)\<lparr>ps_tokens := printed 1 r @ rest\<rparr>"
  have "\<exists>j. 5 * length rest + 1 \<le> j \<and> parseAnd keccak ending k ?st2 = and_loop keccak ending j r (read_off ?st2 r rest)"
    by (rule and_readsD [OF assms(2)]) (use m(1) k a(4,5) in \<open>simp_all add: Let_def\<close>)
  then have con: "parseAnd keccak ending k ?st2 = Inr (r, read_off ?st2 r rest)"
    using a(2) by (auto simp: and_loop_stops)
  have eq: "read_off ?st2 r rest = read_off st (Or l r) rest"
    by (rule parse_state_eqI) simp_all
  have "or_loop keccak ending m l (read_off st l ?rest1) = or_loop keccak ending k (Or l r) (read_off st (Or l r) rest)"
    using con unfolding eq by (simp add: k peek_def)
  then show "\<exists>m. 5 * length rest + 1 \<le> m \<and>
      parseExpr keccak ending n st = or_loop keccak ending m (Or l r) (read_off st (Or l r) rest)"
    using m k by (intro exI [of _ k]) simp
qed

lemma unary_reads_Not:
  assumes "unary_reads keccak ending q"
  shows "unary_reads keccak ending (Not q)"
  unfolding unary_reads_def
proof (intro allI impI)
  fix st rest n
  assume a: "ps_tokens st = printed 2 (Not q) @ rest" "5 * left st + 2 \<le> n"
    "ps_depth st + print_depth 2 (Not q) \<le> MAX_NESTING_DEPTH"
    "ps_predicates st + predicate_count (Not q) \<le> MAX_PREDICATES"
  then obtain m where m: "n = Suc m" by (cases n) auto
  have toks: "ps_tokens st = at0 TNot # printed 2 q @ rest" using a(1) by (simp add: printed_def)
  let ?st1 = "st\<lparr>ps_tokens := printed 2 q @ rest, ps_depth := ps_depth st + 1\<rparr>"
  have un: "parseUnary keccak ending m ?st1 = Inr (q, read_off ?st1 q rest)"
    by (rule unary_readsD [OF assms]) (use a toks m in simp_all)
  have "descend 0 (st\<lparr>ps_tokens := printed 2 q @ rest\<rparr>) = Inr ?st1" using a(3) by (simp add: descend_ok)
  moreover have "ascend (read_off ?st1 q rest) = read_off st (Not q) rest"
    by (rule parse_state_eqI) (simp_all add: ascend_def)
  ultimately show "parseUnary keccak ending n st = Inr (Not q, read_off st (Not q) rest)"
    using un toks m by simp
qed

lemma unary_reads_leaf:
  assumes "q = Compare op key v \<or> (q = StartsWith key s \<and> v = VStr s)" "ast_ok q" "texts_ok q"
  shows "unary_reads keccak ending q"
  unfolding unary_reads_def
proof (intro allI impI)
  fix st rest n
  assume a: "ps_tokens st = printed 2 q @ rest" "5 * left st + 2 \<le> n"
    "ps_predicates st + predicate_count q \<le> MAX_PREDICATES"
  then have "2 \<le> n" by simp
  then obtain m where m: "n = Suc (Suc m)" by (metis add_2_eq_Suc le_Suc_ex)
  have "\<exists>ts. ps_tokens st = at0 (ref_token key) # ts" using a(1) assms(1) by (auto simp: printed_def)
  moreover have "ref_token key \<noteq> TNot \<and> ref_token key \<noteq> TLparen" by (cases key) auto
  moreover have "parsePredicate keccak ending st = Inr (q, read_off st q rest)"
    by (rule parsePredicate_print [OF assms a(1)]) (use a(3) assms(1) in auto)
  ultimately show "parseUnary keccak ending n st = Inr (q, read_off st q rest)" using m by auto
qed

lemma levels_read:
  "ast_ok q \<Longrightarrow> texts_ok q \<Longrightarrow>
    unary_reads keccak ending q \<and> and_reads keccak ending q \<and> or_reads keccak ending q"
proof (induction q)
  case (Compare op key v)
  have "unary_reads keccak ending (Compare op key v)" by (rule unary_reads_leaf) (use Compare in auto)
  then show ?case using and_from_unary or_from_and by (simp add: printed_def)
next
  case (StartsWith key s)
  have "unary_reads keccak ending (StartsWith key s)" by (rule unary_reads_leaf [where key = key and s = s]) (use StartsWith in auto)
  then show ?case using and_from_unary or_from_and by (simp add: printed_def)
next
  case (And l r)
  then have con: "and_reads keccak ending (And l r)" by (intro and_reads_And) auto
  have disj: "or_reads keccak ending (And l r)"
    by (rule or_from_and [OF _ _ con]) (simp_all add: printed_def)
  have "unary_reads keccak ending (And l r)"
    by (rule unary_from_or [OF _ _ disj]) (simp_all add: printed_def Let_def)
  then show ?case using con disj by blast
next
  case (Or l r)
  then have disj: "or_reads keccak ending (Or l r)" by (intro or_reads_Or) auto
  have un: "unary_reads keccak ending (Or l r)"
    by (rule unary_from_or [OF _ _ disj]) (simp_all add: printed_def Let_def)
  then have "and_reads keccak ending (Or l r)"
    by (intro and_from_unary) (simp_all add: printed_def)
  then show ?case using un disj by blast
next
  case (Not q)
  then have "unary_reads keccak ending (Not q)" by (intro unary_reads_Not) auto
  then show ?case using and_from_unary or_from_and by (simp add: printed_def)
qed simp

lemma print_starts: "ast_ok q \<Longrightarrow> \<exists>tok ts. print_tokens k q = tok # ts \<and> tok \<noteq> TStar"
proof (induction q arbitrary: k)
  case (Compare op key v)
  then show ?case by (cases key) auto
next
  case (StartsWith key s)
  then show ?case by (cases key) auto
next
  case (And l r)
  then obtain tok ts where "print_tokens 1 l = tok # ts \<and> tok \<noteq> TStar" by fastforce
  then show ?case by (auto simp: Let_def)
next
  case (Or l r)
  then obtain tok ts where "print_tokens 0 l = tok # ts \<and> tok \<noteq> TStar" by fastforce
  then show ?case by (auto simp: Let_def)
qed auto

lemma parse_printed:
  assumes "ast_ok q" "texts_ok q" "predicate_count q \<le> MAX_PREDICATES" "print_depth 0 q \<le> MAX_NESTING_DEPTH"
  shows "parseTopLevel keccak ending (printed 0 q) = Inr q"
proof -
  let ?st = "parse_start (printed 0 q)"
  have "\<exists>m. 5 * length ([] :: spanned_token list) + 1 \<le> m \<and>
      parseExpr keccak ending (parser_fuel (printed 0 q)) ?st = or_loop keccak ending m q (read_off ?st q [])"
    by (rule or_readsD) (use levels_read [OF assms(1,2)] assms in \<open>simp_all add: parse_start_def parser_fuel_def starts_with_def\<close>)
  then have "parseExpr keccak ending (parser_fuel (printed 0 q)) ?st = Inr (q, read_off ?st q [])"
    by (auto simp: or_loop_stops starts_with_def)
  moreover obtain tok ts where "printed 0 q = at0 tok # ts" "tok \<noteq> TStar"
    using print_starts [OF assms(1), of 0] by (auto simp: printed_def)
  ultimately show ?thesis by (simp add: parseTopLevel_def)
qed

section \<open>Properties\<close>

text \<open>
  \<open>NOT $key = key(0x00..00) AND (a = i32(7) OR s STARTSWITH str('it''s'))\<close>, and its text.
\<close>

definition sample_query :: query_ast where
  "sample_query =
     And (Not (Compare OpEq (Builtin Owner) (VAddr (''0x'' @ replicate 40 CHR ''0''))))
         (Or (Compare OpGte (User ''a'') (VI32 (- 7))) (StartsWith (User ''s'') [CHR ''i'', quote, CHR ''s'']))"

definition sample_query_text :: string where
  "sample_query_text = ''NOT ($owner = addr(0x'' @ replicate 40 CHR ''0'' @ '')) AND a >= -7 -- tail''"

lemma sample_query_parses:
  "(case parseEntityQuery (\<lambda>_. []) sample_query_text of
      Inr q \<Rightarrow> q = And (Not (Compare OpEq (Builtin Owner) (VAddr (''0x'' @ replicate 40 CHR ''0''))))
                      (Compare OpGte (User ''a'') (VI32 (- 7)))
    | Inl _ \<Rightarrow> False)"
  by code_simp

text \<open>
  C24. Parsing a query always ends with an answer: the recursion of the parser is bounded by the number
  of tokens, so the fuel given covers every call.
\<close>

theorem query_parsing_terminates: "parseEntityQuery keccak input \<noteq> Inl OutOfFuel"
  using parseEntityQuery_fuel by (simp add: proper_def)

text \<open>
  C25. An accepted query is well typed and within the limits: it is the star alone, or every predicate
  compares an attribute with a value in the range of its type, a system attribute only with its own
  type, an order only on an ordered type, and a user attribute has a legal name that is no type and no
  reserved word; there are at most 64 predicates and at most 32 nested negations, in at most 8 KiB.
\<close>

theorem accepted_query_well_typed:
  assumes "parseEntityQuery keccak input = Inr q"
  shows "length (utf8_bytes input) \<le> MAX_QUERY_BYTES \<and>
    (q = All \<or> (ast_ok q \<and> predicate_count q \<le> MAX_PREDICATES \<and> not_depth q \<le> MAX_NESTING_DEPTH))"
  using parseEntityQuery_sound [OF assms] assms
  by (auto simp: parseEntityQuery_def Let_def split: if_splits)

theorem accepted_query_well_typed_witness:
  "\<exists>q. parseEntityQuery (\<lambda>_. []) sample_query_text = Inr q \<and>
    (q = All \<or> (ast_ok q \<and> predicate_count q \<le> MAX_PREDICATES \<and> not_depth q \<le> MAX_NESTING_DEPTH))"
proof -
  obtain q where "parseEntityQuery (\<lambda>_. []) sample_query_text = Inr q"
    using sample_query_parses by (auto split: sum.splits)
  then show ?thesis using accepted_query_well_typed by blast
qed

text \<open>
  C26. Every well-typed tree can be written and means what it says: parsing its token form, with groups
  only where the grammar needs them, gives the tree back, so NOT binds before AND before OR, both
  operators associate to the left, and each type's literal reads as the value.
\<close>

theorem query_print_parse:
  assumes "ast_ok q" "texts_ok q" "predicate_count q \<le> MAX_PREDICATES" "print_depth 0 q \<le> MAX_NESTING_DEPTH"
  shows "parseTopLevel keccak ending (map at0 (print_tokens 0 q)) = Inr q"
  using parse_printed [OF assms] by (simp add: printed_def)

theorem query_print_parse_witness:
  "parseTopLevel (\<lambda>_. []) 90 (map at0 (print_tokens 0 sample_query)) = Inr sample_query"
  by (rule query_print_parse) code_simp+

text \<open>
  A legal attribute name the language refuses: \<open>constructor\<close>, which the lexer looks up in an object
  literal and finds there, inherited.
\<close>

lemma constructor_refused:
  "parseEntityQuery (\<lambda>_. []) ''constructor = 1'' = Inl (syntaxError 0)"
  "parseEntityQuery (\<lambda>_. []) ''constructors = 1'' = Inr (Compare OpEq (User ''constructors'') (VI32 1))"
  by code_simp+

end
