(* ===== verification/EntityQuerySql.thy ===== *)
theory EntityQuerySql
  imports EntityQueryFacts EntityIndex "HOL-Library.Sublist"
begin

text \<open>
  Compiling a query into a SQL condition (src/src/entityQuerySql.ts). The condition is built as a
  \<open>sql_expr\<close> and written out by \<open>render_sql\<close>; the parameters are numbered as they are added. What
  Postgres makes of the condition on one version and its attribute rows is \<open>eval_sql\<close>, where a failing
  cast is \<open>None\<close>; the section on correctness shows it is the query's meaning.
\<close>

section \<open>Compilation\<close>

datatype sql_param = ParamText string | ParamInt int | ParamBytes string

datatype sql_column = ColOwner | ColCreator | ColKey | ColExpiresAt | ColCreatedAt

text \<open>The condition on an attribute row; a number is the number of a parameter.\<close>

datatype sql_condition =
    NumCompare comparison_operator nat
  | BytesCompare comparison_operator nat
  | BytesFrom nat
  | BytesBetween nat nat

datatype sql_expr =
    SqlTrue
  | SqlFalse
  | SqlAnd sql_expr sql_expr
  | SqlOr sql_expr sql_expr
  | SqlNot sql_expr
  | SqlColumn sql_column comparison_operator nat
  | SqlExists nat nat sql_condition

datatype compile_error = StartsWithOnSystem

definition I64_MAX :: int where
  "I64_MAX = 2 ^ 63 - 1"

fun SQL_OPERATORS :: "comparison_operator \<Rightarrow> string" where
  "SQL_OPERATORS OpEq = ''=''"
| "SQL_OPERATORS OpLt = ''<''"
| "SQL_OPERATORS OpLte = ''<=''"
| "SQL_OPERATORS OpGt = ''>''"
| "SQL_OPERATORS OpGte = ''>=''"

definition max_byte :: char where
  "max_byte = CHR 0xFF"

definition next_byte :: "char \<Rightarrow> char" where
  "next_byte c = char_of (byte_of c + 1)"

definition nextBytePrefix :: "string \<Rightarrow> string option" where
  "nextBytePrefix p =
     (case dropWhile (\<lambda>c. c = max_byte) (rev p) of
        [] \<Rightarrow> None
      | c # cs \<Rightarrow> Some (rev cs @ [next_byte c]))"

fun queryValueOperand :: "query_value \<Rightarrow> string" where
  "queryValueOperand (VBool b) = bool_text b"
| "queryValueOperand (VI32 i) = int_to_dec i"
| "queryValueOperand (VU64 i) = int_to_dec i"
| "queryValueOperand (VU256 i) = int_to_dec i"
| "queryValueOperand (VDec u) = int_to_dec u"
| "queryValueOperand (VStr s) = s"
| "queryValueOperand (VAddr a) = a"
| "queryValueOperand (VKey k) = k"
| "queryValueOperand (VBytes32 k) = k"

fun builtinColumn :: "builtin_field \<Rightarrow> sql_column" where
  "builtinColumn Owner = ColOwner"
| "builtinColumn Creator = ColCreator"
| "builtinColumn Key = ColKey"
| "builtinColumn ExpiresAt = ColExpiresAt"
| "builtinColumn CreatedAt = ColCreatedAt"

text \<open>The number of the parameter added, and the parameters after.\<close>

definition add_param :: "nat \<Rightarrow> sql_param list \<Rightarrow> sql_param \<Rightarrow> nat \<times> sql_param list" where
  "add_param offset params p = (offset + length params + 1, params @ [p])"

fun numeric_value :: "query_value \<Rightarrow> int option" where
  "numeric_value (VI32 i) = Some i"
| "numeric_value (VU64 i) = Some i"
| "numeric_value (VU256 i) = Some i"
| "numeric_value (VDec u) = Some u"
| "numeric_value _ = None"

text \<open>A u64 or u256 above every block number.\<close>

definition above_i64 :: "query_value \<Rightarrow> bool" where
  "above_i64 v = (case v of VU64 i \<Rightarrow> i > I64_MAX | VU256 i \<Rightarrow> i > I64_MAX | _ \<Rightarrow> False)"

definition compile_compare ::
    "nat \<Rightarrow> comparison_operator \<Rightarrow> attribute_ref \<Rightarrow> query_value \<Rightarrow> sql_param list \<Rightarrow> sql_expr \<times> sql_param list" where
  "compile_compare offset op key v params =
     (case key of
        Builtin f \<Rightarrow>
          if f = CreatedAt \<and> above_i64 v then (if op = OpLt \<or> op = OpLte then SqlTrue else SqlFalse, params)
          else let (n, params1) = add_param offset params (ParamText (queryValueOperand v))
               in (SqlColumn (builtinColumn f) op n, params1)
      | User name \<Rightarrow>
          let (n, params1) = add_param offset params (ParamText name);
              (t, params2) = add_param offset params1 (ParamInt (TYPE_IDS (value_type v)))
          in if isOrderedType (value_type v) then
               let (x, params3) = add_param offset params2 (ParamText (queryValueOperand v))
               in (SqlExists n t (NumCompare op x), params3)
             else
               let (x, params3) = add_param offset params2 (ParamBytes (utf8_bytes (queryValueOperand v)))
               in (SqlExists n t (BytesCompare op x), params3))"

definition compile_prefix ::
    "nat \<Rightarrow> attribute_ref \<Rightarrow> string \<Rightarrow> sql_param list \<Rightarrow> compile_error + sql_expr \<times> sql_param list" where
  "compile_prefix offset key s params =
     (case key of
        Builtin f \<Rightarrow> Inl StartsWithOnSystem
      | User name \<Rightarrow>
          let (n, params1) = add_param offset params (ParamText name);
              (t, params2) = add_param offset params1 (ParamInt (TYPE_IDS TStr));
              p = utf8_bytes s;
              (lo, params3) = add_param offset params2 (ParamBytes p)
          in (case nextBytePrefix p of
                None \<Rightarrow> Inr (SqlExists n t (BytesFrom lo), params3)
              | Some q \<Rightarrow>
                  let (hi, params4) = add_param offset params3 (ParamBytes q)
                  in Inr (SqlExists n t (BytesBetween lo hi), params4)))"

fun compileNode :: "nat \<Rightarrow> query_ast \<Rightarrow> sql_param list \<Rightarrow> compile_error + sql_expr \<times> sql_param list" where
  "compileNode offset All params = Inr (SqlTrue, params)"
| "compileNode offset (And l r) params =
     bind_result (compileNode offset l params) (\<lambda>(a, params1).
     bind_result (compileNode offset r params1) (\<lambda>(b, params2). Inr (SqlAnd a b, params2)))"
| "compileNode offset (Or l r) params =
     bind_result (compileNode offset l params) (\<lambda>(a, params1).
     bind_result (compileNode offset r params1) (\<lambda>(b, params2). Inr (SqlOr a b, params2)))"
| "compileNode offset (Not q) params =
     bind_result (compileNode offset q params) (\<lambda>(a, params1). Inr (SqlNot a, params1))"
| "compileNode offset (Compare op key v) params = Inr (compile_compare offset op key v params)"
| "compileNode offset (StartsWith key s) params = compile_prefix offset key s params"

section \<open>The text\<close>

definition placeholder :: "nat \<Rightarrow> string" where
  "placeholder n = CHR 0x24 # nat_to_dec n"

fun column_text :: "sql_column \<Rightarrow> string \<times> string" where
  "column_text ColOwner = (''v.owner'', '''')"
| "column_text ColCreator = (''v.creator'', '''')"
| "column_text ColKey = (''v.entity_key'', '''')"
| "column_text ColExpiresAt = (''v.expires_at'', ''::numeric'')"
| "column_text ColCreatedAt = (''v.created_at'', ''::bigint'')"

fun render_condition :: "sql_condition \<Rightarrow> string" where
  "render_condition (NumCompare op n) = ''a.value_num '' @ SQL_OPERATORS op @ '' '' @ placeholder n @ ''::numeric''"
| "render_condition (BytesCompare op n) = ''a.value_bytes '' @ SQL_OPERATORS op @ '' '' @ placeholder n @ ''::bytea''"
| "render_condition (BytesFrom n) = ''a.value_bytes >= '' @ placeholder n @ ''::bytea''"
| "render_condition (BytesBetween lo hi) =
     ''a.value_bytes >= '' @ placeholder lo @ ''::bytea AND a.value_bytes < '' @ placeholder hi @ ''::bytea''"

fun render_sql :: "string \<Rightarrow> sql_expr \<Rightarrow> string" where
  "render_sql table SqlTrue = ''TRUE''"
| "render_sql table SqlFalse = ''FALSE''"
| "render_sql table (SqlAnd a b) = ''('' @ render_sql table a @ '' AND '' @ render_sql table b @ '')''"
| "render_sql table (SqlOr a b) = ''('' @ render_sql table a @ '' OR '' @ render_sql table b @ '')''"
| "render_sql table (SqlNot a) = ''(NOT '' @ render_sql table a @ '')''"
| "render_sql table (SqlColumn c op n) =
     ''('' @ fst (column_text c) @ '' '' @ SQL_OPERATORS op @ '' '' @ placeholder n @ snd (column_text c) @ '')''"
| "render_sql table (SqlExists n t cond) =
     ''(EXISTS (SELECT 1 FROM '' @ table @ '' a'' @
     '' WHERE a.entity_key = v.entity_key AND a.version = v.version AND a.indexed'' @
     '' AND a.name = '' @ placeholder n @
     '' AND a.type_id = '' @ placeholder t @ ''::smallint'' @
     '' AND '' @ render_condition cond @ ''))''"

definition compileEntityQuery ::
    "query_ast \<Rightarrow> string \<Rightarrow> nat \<Rightarrow> compile_error + string \<times> sql_param list" where
  "compileEntityQuery ast attributesTable paramOffset =
     bind_result (compileNode paramOffset ast []) (\<lambda>(e, params). Inr (render_sql attributesTable e, params))"

section \<open>What the condition means\<close>

fun compares :: "comparison_operator \<Rightarrow> 'a :: linorder \<Rightarrow> 'a \<Rightarrow> bool" where
  "compares OpEq a b = (a = b)"
| "compares OpLt a b = (a < b)"
| "compares OpLte a b = (a \<le> b)"
| "compares OpGt a b = (a > b)"
| "compares OpGte a b = (a \<ge> b)"

definition param_at :: "nat \<Rightarrow> sql_param list \<Rightarrow> nat \<Rightarrow> sql_param option" where
  "param_at offset params n =
     (if offset < n \<and> n - offset - 1 < length params then Some (params ! (n - offset - 1)) else None)"

definition text_param :: "nat \<Rightarrow> sql_param list \<Rightarrow> nat \<Rightarrow> string option" where
  "text_param offset params n = (case param_at offset params n of Some (ParamText s) \<Rightarrow> Some s | _ \<Rightarrow> None)"

definition bytes_param :: "nat \<Rightarrow> sql_param list \<Rightarrow> nat \<Rightarrow> string option" where
  "bytes_param offset params n = (case param_at offset params n of Some (ParamBytes s) \<Rightarrow> Some s | _ \<Rightarrow> None)"

definition int_param :: "nat \<Rightarrow> sql_param list \<Rightarrow> nat \<Rightarrow> int option" where
  "int_param offset params n = (case param_at offset params n of Some (ParamInt i) \<Rightarrow> Some i | _ \<Rightarrow> None)"

text \<open>\<open>$n::numeric\<close> and \<open>$n::bigint\<close> of the text of an integer; the latter fails outside 64 bits.\<close>

definition numeric_param :: "nat \<Rightarrow> sql_param list \<Rightarrow> nat \<Rightarrow> int option" where
  "numeric_param offset params n =
     Option.bind (text_param offset params n) (\<lambda>s. if signed_digits s then Some (signed_val s) else None)"

definition bigint_param :: "nat \<Rightarrow> sql_param list \<Rightarrow> nat \<Rightarrow> int option" where
  "bigint_param offset params n =
     Option.bind (numeric_param offset params n) (\<lambda>i. if - I64_MAX - 1 \<le> i \<and> i \<le> I64_MAX then Some i else None)"

fun eval_condition :: "nat \<Rightarrow> sql_param list \<Rightarrow> sql_condition \<Rightarrow> (stored_attribute \<Rightarrow> bool) option" where
  "eval_condition offset params (NumCompare op n) =
     map_option (\<lambda>x a. case valueNum (sa_value a) of None \<Rightarrow> False | Some m \<Rightarrow> compares op m x)
       (numeric_param offset params n)"
| "eval_condition offset params (BytesCompare op n) =
     map_option (\<lambda>x a. compares op (utf8_bytes (valueText (sa_value a))) x) (bytes_param offset params n)"
| "eval_condition offset params (BytesFrom n) =
     map_option (\<lambda>x a. utf8_bytes (valueText (sa_value a)) \<ge> x) (bytes_param offset params n)"
| "eval_condition offset params (BytesBetween lo hi) =
     (case (bytes_param offset params lo, bytes_param offset params hi) of
        (Some x, Some y) \<Rightarrow> Some (\<lambda>a. utf8_bytes (valueText (sa_value a)) \<ge> x \<and> utf8_bytes (valueText (sa_value a)) < y)
      | _ \<Rightarrow> None)"

definition eval_column :: "nat \<Rightarrow> sql_param list \<Rightarrow> entity_version \<Rightarrow> sql_column \<Rightarrow> comparison_operator \<Rightarrow> nat \<Rightarrow> bool option" where
  "eval_column offset params v c op n =
     (case c of
        ColOwner \<Rightarrow> map_option (compares op (v_owner v)) (text_param offset params n)
      | ColCreator \<Rightarrow> map_option (compares op (v_creator v)) (text_param offset params n)
      | ColKey \<Rightarrow> map_option (compares op (v_entityKey v)) (text_param offset params n)
      | ColExpiresAt \<Rightarrow> map_option (compares op (v_expiresAt v)) (numeric_param offset params n)
      | ColCreatedAt \<Rightarrow> map_option (compares op (v_createdAt v)) (bigint_param offset params n))"

definition map_option2 :: "('a \<Rightarrow> 'b \<Rightarrow> 'c) \<Rightarrow> 'a option \<Rightarrow> 'b option \<Rightarrow> 'c option" where
  "map_option2 f x y = (case (x, y) of (Some a, Some b) \<Rightarrow> Some (f a b) | _ \<Rightarrow> None)"

fun eval_sql :: "nat \<Rightarrow> sql_param list \<Rightarrow> entity_version \<Rightarrow> sql_expr \<Rightarrow> bool option" where
  "eval_sql offset params v SqlTrue = Some True"
| "eval_sql offset params v SqlFalse = Some False"
| "eval_sql offset params v (SqlAnd a b) = map_option2 (\<and>) (eval_sql offset params v a) (eval_sql offset params v b)"
| "eval_sql offset params v (SqlOr a b) = map_option2 (\<or>) (eval_sql offset params v a) (eval_sql offset params v b)"
| "eval_sql offset params v (SqlNot a) = map_option HOL.Not (eval_sql offset params v a)"
| "eval_sql offset params v (SqlColumn c op n) = eval_column offset params v c op n"
| "eval_sql offset params v (SqlExists n t cond) =
     (case (text_param offset params n, int_param offset params t, eval_condition offset params cond) of
        (Some name, Some typeId, Some holds) \<Rightarrow>
          Some (list_ex (\<lambda>a. sa_indexed a \<and> sa_name a = name \<and> sa_typeId a = typeId \<and> holds a) (v_attributes v))
      | _ \<Rightarrow> None)"

section \<open>The meaning of a query\<close>

text \<open>
  An indexed attribute of the predicate's name and type: an ordered type compares as a number, any other
  by its canonical form; a system attribute is the version's own field.
\<close>

definition value_matches :: "comparison_operator \<Rightarrow> query_value \<Rightarrow> stored_value \<Rightarrow> bool" where
  "value_matches op q s =
     (case numeric_value q of
        Some x \<Rightarrow> (case valueNum s of Some m \<Rightarrow> compares op m x | None \<Rightarrow> False)
      | None \<Rightarrow> utf8_bytes (valueText s) = utf8_bytes (queryValueOperand q))"

fun field_matches :: "comparison_operator \<Rightarrow> builtin_field \<Rightarrow> query_value \<Rightarrow> entity_version \<Rightarrow> bool" where
  "field_matches op Owner q v = (v_owner v = queryValueOperand q)"
| "field_matches op Creator q v = (v_creator v = queryValueOperand q)"
| "field_matches op Key q v = (v_entityKey v = queryValueOperand q)"
| "field_matches op ExpiresAt q v = (case numeric_value q of Some x \<Rightarrow> compares op (v_expiresAt v) x | None \<Rightarrow> False)"
| "field_matches op CreatedAt q v = (case numeric_value q of Some x \<Rightarrow> compares op (v_createdAt v) x | None \<Rightarrow> False)"

definition indexed_attribute :: "entity_version \<Rightarrow> string \<Rightarrow> attribute_type \<Rightarrow> (stored_value \<Rightarrow> bool) \<Rightarrow> bool" where
  "indexed_attribute v name tag P \<longleftrightarrow>
     (\<exists>a \<in> set (v_attributes v). sa_indexed a \<and> sa_name a = name \<and> sa_typeId a = TYPE_IDS tag \<and> P (sa_value a))"

fun matches :: "query_ast \<Rightarrow> entity_version \<Rightarrow> bool" where
  "matches All v = True"
| "matches (And l r) v = (matches l v \<and> matches r v)"
| "matches (Or l r) v = (matches l v \<or> matches r v)"
| "matches (Not q) v = (\<not> matches q v)"
| "matches (Compare op (User name) q) v = indexed_attribute v name (value_type q) (value_matches op q)"
| "matches (Compare op (Builtin f) q) v = field_matches op f q v"
| "matches (StartsWith (User name) s) v =
     indexed_attribute v name TStr (\<lambda>x. prefix (utf8_bytes s) (utf8_bytes (valueText x)))"
| "matches (StartsWith (Builtin f) s) v = False"

section \<open>The byte range of a prefix\<close>

lemma byte_of_max_byte: "byte_of max_byte = 255"
  by (simp add: max_byte_def)

lemma byte_le_255: "byte_of c \<le> 255"
proof -
  have "byte_of c < 256" by (rule nat_of_char_less_256)
  then show ?thesis by linarith
qed

lemma max_byte_greatest: "c \<le> max_byte"
  unfolding less_eq_char_def byte_of_max_byte by (rule byte_le_255)

lemma next_byte_between:
  assumes "c \<noteq> max_byte"
  shows "c < next_byte c" "d < next_byte c \<longleftrightarrow> d \<le> c"
proof -
  have "byte_of c \<noteq> byte_of max_byte" using assms by simp
  then have lt: "byte_of c + 1 < 256" using byte_le_255 [of c] unfolding byte_of_max_byte by linarith
  have "byte_of (next_byte c) = (byte_of c + 1) mod 256" unfolding next_byte_def by (rule of_char_of)
  then have "byte_of (next_byte c) = byte_of c + 1" using lt by simp
  then show "c < next_byte c" "d < next_byte c \<longleftrightarrow> d \<le> c"
    unfolding less_char_def less_eq_char_def by auto
qed

text \<open>Below a byte string that starts the same way, above and below.\<close>

lemma append_le_append: "(p @ x) \<le> (p @ y :: string) \<longleftrightarrow> x \<le> y"
  by (induction p) auto

lemma append_less_append: "(p @ x) < (p @ y :: string) \<longleftrightarrow> x < y"
  by (induction p) auto

lemma le_append_self: "(p :: string) \<le> p @ r"
  by (induction p) auto

lemma max_bytes_le: "\<forall>c \<in> set p. c = max_byte \<Longrightarrow> p \<le> (b :: string) \<Longrightarrow> prefix p b"
proof (induction p arbitrary: b)
  case (Cons c p)
  then obtain d t where b: "b = d # t" by (cases b) auto
  have "d = c" "p \<le> t" using Cons.prems b max_byte_greatest [of d] by auto
  then show ?case using Cons b by simp
qed simp

lemma nextBytePrefix_split:
  assumes "nextBytePrefix p = Some q"
  obtains u c fs where "p = u @ c # fs" "c \<noteq> max_byte" "\<forall>d \<in> set fs. d = max_byte" "q = u @ [next_byte c]"
proof -
  let ?P = "\<lambda>c. c = max_byte"
  from assms obtain c cs where c: "dropWhile ?P (rev p) = c # cs" "q = rev cs @ [next_byte c]"
    by (auto simp: nextBytePrefix_def split: list.splits)
  have "c \<noteq> max_byte" using c(1) hd_dropWhile [of ?P "rev p"] by auto
  moreover have "rev p = takeWhile ?P (rev p) @ c # cs" by (simp flip: c(1))
  then have "rev (rev p) = rev (takeWhile ?P (rev p) @ c # cs)" by (rule arg_cong)
  then have "p = rev cs @ c # rev (takeWhile ?P (rev p))" by simp
  moreover have "\<forall>d \<in> set (rev (takeWhile ?P (rev p))). d = max_byte" by (auto dest: set_takeWhileD)
  ultimately show thesis using that c(2) by blast
qed

lemma nextBytePrefix_none: "nextBytePrefix p = None \<Longrightarrow> \<forall>c \<in> set p. c = max_byte"
  by (auto simp: nextBytePrefix_def dropWhile_eq_Nil_conv split: list.splits)

lemma le_append_iff: "(u @ v) \<le> (b :: string) \<longleftrightarrow> (\<exists>t. b = u @ t \<and> v \<le> t) \<or> (u < b \<and> \<not> prefix u b)"
proof (induction u arbitrary: b)
  case Nil
  then show ?case by auto
next
  case (Cons c u)
  show ?case
  proof (cases b)
    case (Cons d t)
    then show ?thesis using Cons.IH [of t] by auto
  qed simp
qed

text \<open>\<open>[prefix, next prefix)\<close> holds exactly the strings that start with the prefix.\<close>

lemma prefix_range:
  "(p \<le> b \<and> (case nextBytePrefix p of None \<Rightarrow> True | Some q \<Rightarrow> b < q)) \<longleftrightarrow> prefix p b"
proof (cases "nextBytePrefix p")
  case None
  have "prefix p b \<Longrightarrow> p \<le> b" using le_append_self by (auto simp: prefix_def)
  then show ?thesis using None max_bytes_le [OF nextBytePrefix_none [OF None]] by auto
next
  case (Some q)
  then obtain u c fs where p: "p = u @ c # fs" "c \<noteq> max_byte" "\<forall>d \<in> set fs. d = max_byte" "q = u @ [next_byte c]"
    by (rule nextBytePrefix_split)
  note nb = next_byte_between [OF p(2)]
  have above: "p \<le> b \<and> b < q \<Longrightarrow> prefix p b"
  proof -
    assume b: "p \<le> b \<and> b < q"
    have "\<exists>t. b = u @ t"
    proof (rule ccontr)
      assume no: "\<nexists>t. b = u @ t"
      then have "u < b \<and> \<not> prefix u b" using b le_append_iff [of u "c # fs" b] p(1) by auto
      then have "q \<le> b" using le_append_iff [of u "[next_byte c]" b] p(4) by simp
      then show False using b by (meson leD)
    qed
    then obtain t where t: "b = u @ t" by blast
    have ct: "c # fs \<le> t" "t < [next_byte c]"
      using b unfolding p(1,4) t append_le_append append_less_append by simp_all
    then obtain d r where d: "t = d # r" by (cases t) auto
    have "d \<le> c" using ct(2) nb(2) [of d] unfolding d by auto
    moreover have "c \<le> d" using ct(1) unfolding d by auto
    ultimately have "d = c" by simp
    then have "fs \<le> r" using ct(1) unfolding d by simp
    then have "prefix fs r" by (rule max_bytes_le [OF p(3)])
    then show "prefix p b" unfolding p(1) t d \<open>d = c\<close> by (simp add: prefix_def)
  qed
  moreover have "prefix p b \<Longrightarrow> p \<le> b \<and> b < q"
  proof -
    assume "prefix p b"
    then obtain r where r: "b = u @ c # fs @ r" unfolding p(1) by (auto simp: prefix_def)
    show ?thesis unfolding r p(1,4) append_le_append append_less_append using nb(1) le_append_self by simp
  qed
  ultimately have "(p \<le> b \<and> b < q) \<longleftrightarrow> prefix p b" by blast
  then show ?thesis by (simp add: Some)
qed

section \<open>The condition is the query's meaning\<close>

lemma param_at_added:
  "add_param offset params p = (n, params1) \<Longrightarrow> param_at offset (params1 @ behind) n = Some p"
  by (auto simp: add_param_def param_at_def nth_append)

lemma param_at_kept:
  "param_at offset params n = Some p \<Longrightarrow> param_at offset (params @ behind) n = Some p"
  by (auto simp: param_at_def nth_append split: if_splits)


lemma value_operand_numeric:
  "numeric_value v = Some i \<Longrightarrow> queryValueOperand v = int_to_dec i"
  by (cases v) auto

lemma numeric_value_ordered: "isOrderedType (value_type v) \<longleftrightarrow> numeric_value v \<noteq> None"
  by (cases v) (auto simp: isOrderedType_def)

lemma numeric_param_operand:
  "param_at offset params n = Some (ParamText (int_to_dec i)) \<Longrightarrow> numeric_param offset params n = Some i"
  by (simp add: numeric_param_def text_param_def)

lemma list_ex_indexed:
  "list_ex (\<lambda>a. sa_indexed a \<and> sa_name a = name \<and> sa_typeId a = TYPE_IDS tag \<and> P (sa_value a)) (v_attributes v) =
    indexed_attribute v name tag P"
  by (simp add: list_ex_iff indexed_attribute_def)

text \<open>Three parameters in a row, later ones behind them.\<close>

lemma three_params:
  "param_at offset (params @ a # b # c # behind) (Suc (offset + length params)) = Some a"
  "param_at offset (params @ a # b # c # behind) (Suc (Suc (offset + length params))) = Some b"
  "param_at offset (params @ a # b # c # behind) (offset + length params + 3) = Some c"
  by (simp_all add: param_at_def nth_append)

lemma eval_compare:
  assumes "ast_ok (Compare op key q)" "compile_compare offset op key q params = (e, params1)"
    and "v_createdAt v \<le> I64_MAX"
  shows "\<exists>ext. params1 = params @ ext \<and> (\<forall>behind. eval_sql offset (params1 @ behind) v e = Some (matches (Compare op key q) v))"
proof (cases key)
  case (User name)
  show ?thesis
  proof (cases "numeric_value q")
    case (Some i)
    then have "isOrderedType (value_type q)" by (simp add: numeric_value_ordered)
    then have e: "params1 = params @ [ParamText name, ParamInt (TYPE_IDS (value_type q)), ParamText (int_to_dec i)]"
      "e = SqlExists (offset + length params + 1) (offset + length params + 2) (NumCompare op (offset + length params + 3))"
      using assms(2) User value_operand_numeric [OF Some] by (auto simp: compile_compare_def add_param_def)
    then show ?thesis
      by (auto simp: User text_param_def int_param_def three_params numeric_param_operand value_matches_def Some
          list_ex_indexed [symmetric] indexed_attribute_def list_ex_iff split: option.splits)
  next
    case None
    then have no: "\<not> isOrderedType (value_type q)" by (simp add: numeric_value_ordered)
    then have e: "params1 = params @ [ParamText name, ParamInt (TYPE_IDS (value_type q)), ParamBytes (utf8_bytes (queryValueOperand q))]"
      "e = SqlExists (offset + length params + 1) (offset + length params + 2) (BytesCompare op (offset + length params + 3))"
      using assms(2) User by (auto simp: compile_compare_def add_param_def)
    moreover have "op = OpEq" using assms(1) no by simp
    ultimately show ?thesis
      by (auto simp: User text_param_def int_param_def bytes_param_def three_params value_matches_def None
          indexed_attribute_def list_ex_iff)
  qed
next
  case (Builtin f)
  have type: "value_type q = builtinType f" using assms(1) Builtin by simp
  show ?thesis
  proof (cases "f = CreatedAt \<and> above_i64 q")
    case True
    then obtain i where i: "q = VU64 i" "i > I64_MAX" using type by (cases q) (auto simp: above_i64_def)
    then have "params1 = params" "e = (if op = OpLt \<or> op = OpLte then SqlTrue else SqlFalse)"
      using assms(2) Builtin True by (auto simp: compile_compare_def)
    moreover have "compares op (v_createdAt v) i = (op = OpLt \<or> op = OpLte)"
      using i(2) assms(3) by (cases op) auto
    ultimately show ?thesis using True i Builtin by auto
  next
    case False
    then have e: "params1 = params @ [ParamText (queryValueOperand q)]"
      "e = SqlColumn (builtinColumn f) op (offset + length params + 1)"
      using assms(2) Builtin by (auto simp: compile_compare_def add_param_def)
    have at: "param_at offset (params @ ParamText x # behind) (Suc (offset + length params)) = Some (ParamText x)" for x behind
      by (simp add: param_at_def nth_append)
    show ?thesis
    proof (cases "numeric_value q")
      case None
      then have "f = Owner \<or> f = Creator \<or> f = Key" using type by (cases f; cases q) auto
      moreover have "op = OpEq" using assms(1) None numeric_value_ordered by auto
      ultimately show ?thesis using e at Builtin
        by (auto simp: eval_column_def text_param_def)
    next
      case (Some i)
      then have q: "q = VU64 i" "f = ExpiresAt \<or> f = CreatedAt" using type by (cases f; cases q; auto)+
      have op: "queryValueOperand q = int_to_dec i" by (rule value_operand_numeric [OF Some])
      have "0 \<le> i" using assms(1) q by simp
      then have "f = CreatedAt \<Longrightarrow> - I64_MAX - 1 \<le> i \<and> i \<le> I64_MAX"
        using False q by (auto simp: above_i64_def I64_MAX_def)
      then show ?thesis using e at q op Builtin
        by (auto simp: eval_column_def numeric_param_operand bigint_param_def)
    qed
  qed
qed

lemma eval_prefix:
  assumes "compile_prefix offset (User name) s params = Inr (e, params1)"
  shows "\<exists>ext. params1 = params @ ext \<and>
    (\<forall>behind. eval_sql offset (params1 @ behind) v e = Some (matches (StartsWith (User name) s) v))"
proof -
  let ?p = "utf8_bytes s"
  let ?n = "offset + length params"
  show ?thesis
  proof (cases "nextBytePrefix ?p")
    case None
    then have e: "params1 = params @ [ParamText name, ParamInt 8, ParamBytes ?p]"
      "e = SqlExists (?n + 1) (?n + 2) (BytesFrom (?n + 3))"
      using assms by (auto simp: compile_prefix_def add_param_def Let_def)
    then show ?thesis using prefix_range [of ?p] None
      by (auto simp: text_param_def int_param_def bytes_param_def three_params indexed_attribute_def list_ex_iff)
  next
    case (Some q)
    then have e: "params1 = params @ [ParamText name, ParamInt 8, ParamBytes ?p] @ [ParamBytes q]"
      "e = SqlExists (?n + 1) (?n + 2) (BytesBetween (?n + 3) (?n + 4))"
      using assms by (auto simp: compile_prefix_def add_param_def Let_def)
    have last: "param_at offset (params @ a # b # c # d # behind) (?n + 4) = Some d" for a b c d behind
      by (simp add: param_at_def nth_append)
    show ?thesis using prefix_range [of ?p] Some e last
      by (auto simp: text_param_def int_param_def bytes_param_def three_params indexed_attribute_def list_ex_iff)
  qed
qed

lemma compileNode_correct:
  assumes "v_createdAt v \<le> I64_MAX"
  shows "ast_ok q \<Longrightarrow> \<exists>e params1 ext. compileNode offset q params = Inr (e, params1) \<and> params1 = params @ ext \<and>
    (\<forall>behind. eval_sql offset (params1 @ behind) v e = Some (matches q v))"
proof (induction q arbitrary: params)
  case (Compare op key x)
  obtain e params1 where c: "compile_compare offset op key x params = (e, params1)" by fastforce
  show ?case using eval_compare [OF Compare c assms] c by auto
next
  case (StartsWith key s)
  have "TStr \<noteq> builtinType f" for f by (cases f) simp_all
  with StartsWith obtain name where key: "key = User name" by (cases key) auto
  obtain e params1 where "compile_prefix offset key s params = Inr (e, params1)"
    by (cases "nextBytePrefix (utf8_bytes s)") (auto simp: key compile_prefix_def add_param_def Let_def)
  then show ?case using eval_prefix [of offset name s params e params1] by (auto simp: key)
next
  case (And l r)
  then have ok: "ast_ok l" "ast_ok r" by simp_all
  from And.IH(1) [OF ok(1), of params] obtain a p1 x1 where a: "compileNode offset l params = Inr (a, p1)"
    "p1 = params @ x1" "\<forall>behind. eval_sql offset (p1 @ behind) v a = Some (matches l v)" by blast
  from And.IH(2) [OF ok(2), of p1] obtain b p2 x2 where b: "compileNode offset r p1 = Inr (b, p2)" "p2 = p1 @ x2"
    "\<forall>behind. eval_sql offset (p2 @ behind) v b = Some (matches r v)" by blast
  then show ?case using a by (simp add: map_option2_def)
next
  case (Or l r)
  then have ok: "ast_ok l" "ast_ok r" by simp_all
  from Or.IH(1) [OF ok(1), of params] obtain a p1 x1 where a: "compileNode offset l params = Inr (a, p1)"
    "p1 = params @ x1" "\<forall>behind. eval_sql offset (p1 @ behind) v a = Some (matches l v)" by blast
  from Or.IH(2) [OF ok(2), of p1] obtain b p2 x2 where b: "compileNode offset r p1 = Inr (b, p2)" "p2 = p1 @ x2"
    "\<forall>behind. eval_sql offset (p2 @ behind) v b = Some (matches r v)" by blast
  then show ?case using a by (simp add: map_option2_def)
next
  case (Not q)
  then have ok: "ast_ok q" by simp
  from Not.IH [OF ok, of params] obtain a p1 x1 where "compileNode offset q params = Inr (a, p1)" "p1 = params @ x1"
    "\<forall>behind. eval_sql offset (p1 @ behind) v a = Some (matches q v)" by blast
  then show ?case by simp
qed simp

section \<open>Properties\<close>

text \<open>
  C27. The condition compiled from an accepted query selects what the query means: compiling never
  throws, the condition refers to the parameters by their numbers wherever the statement's own end,
  no cast of a parameter fails, and on any version (whose block is a 64-bit number) it is true exactly
  when the query matches: indexed attributes of the predicate's name and type, numbers by value, other
  types by the bytes of their canonical form, prefixes by their bytes, negation as complement.
\<close>

theorem compiled_query_selects_matches:
  assumes "parseEntityQuery keccak input = Inr q" "v_createdAt v \<le> I64_MAX"
  shows "\<exists>e params. compileNode offset q [] = Inr (e, params) \<and>
    compileEntityQuery q table offset = Inr (render_sql table e, params) \<and>
    eval_sql offset params v e = Some (matches q v)"
proof (cases "q = All")
  case False
  then have "ast_ok q" using parseEntityQuery_sound [OF assms(1)] by blast
  then obtain e params where e: "compileNode offset q [] = Inr (e, params)"
    "\<forall>behind. eval_sql offset (params @ behind) v e = Some (matches q v)"
    using compileNode_correct [OF assms(2)] by blast
  then have "eval_sql offset params v e = Some (matches q v)" by (metis append_Nil2)
  then show ?thesis using e(1) by (simp add: compileEntityQuery_def)
qed (simp add: compileEntityQuery_def)

definition sample_version :: entity_version where
  "sample_version =
     (created_version ''0xk'' (undefined\<lparr>r_blockNumber := 5\<rparr>))
       \<lparr>v_createdAt := 5, v_attributes := [\<lparr>sa_name = ''a'', sa_typeId = 2, sa_indexed = True,
          sa_value = \<lparr>valueText = ''4'', valueNum = Some 4\<rparr>\<rparr>]\<rparr>"

lemma sample_text_parses:
  "parseEntityQuery (\<lambda>_. []) ''a > 3'' = Inr (Compare OpGt (User ''a'') (VI32 3))"
  by code_simp

theorem compiled_query_selects_matches_witness:
  "\<exists>e params. compileNode 2 (Compare OpGt (User ''a'') (VI32 3)) [] = Inr (e, params) \<and>
    compileEntityQuery (Compare OpGt (User ''a'') (VI32 3)) ''t'' 2 = Inr (render_sql ''t'' e, params) \<and>
    eval_sql 2 params sample_version e = Some (matches (Compare OpGt (User ''a'') (VI32 3)) sample_version)"
  by (rule compiled_query_selects_matches [OF sample_text_parses]) (simp add: sample_version_def I64_MAX_def)

text \<open>
  The byte range of STARTSWITH is exact: a byte string lies from the prefix up to, not including, the
  next prefix (with no upper end when there is none) exactly when it starts with the prefix.
\<close>

theorem prefix_range_exact:
  "(p \<le> b \<and> (case nextBytePrefix p of None \<Rightarrow> True | Some q \<Rightarrow> b < q)) \<longleftrightarrow> prefix p b"
  by (rule prefix_range)

end
