(* ===== verification/JsDate.thy ===== *)
theory JsDate
  imports JsText
begin

text \<open>
  The part of JavaScript's \<open>Date\<close> and \<open>Number\<close> the program uses: \<open>new Date(ms).toISOString()\<close>
  over the proleptic Gregorian calendar, \<open>Number(bigint)\<close>, which rounds to 53 bits, and the order
  \<open><\<close> of two texts.
\<close>

section \<open>\<open>Number\<close> of a bigint\<close>

text \<open>
  A double holds 53 significant bits; an integer with more is rounded to nearest, ties to even.
  (Magnitudes from \<open>2 ^ 1024\<close> on, which would be \<open>Infinity\<close>, keep their rounded value here.)
\<close>

definition bit_length :: "nat \<Rightarrow> nat" where
  "bit_length n = (if n = 0 then 0 else length (to_digits 2 n))"

definition round_half_even :: "int \<Rightarrow> nat \<Rightarrow> int" where
  "round_half_even n s =
     (let q = n div 2 ^ s; r = n mod 2 ^ s in
      if 2 * r < 2 ^ s \<or> (2 * r = 2 ^ s \<and> even q) then q * 2 ^ s else (q + 1) * 2 ^ s)"

definition Number_of :: "int \<Rightarrow> int" where
  "Number_of i =
     (if \<bar>i\<bar> < 9007199254740992 then i
      else sgn i * round_half_even \<bar>i\<bar> (bit_length (nat \<bar>i\<bar>) - 53))"

lemma Number_of_exact: "\<bar>i\<bar> < 2 ^ 53 \<Longrightarrow> Number_of i = i"
  by (simp add: Number_of_def)

section \<open>Dates\<close>

definition MAX_TIME_MS :: int where
  "MAX_TIME_MS = 8640000000000000"

definition MS_PER_DAY :: int where
  "MS_PER_DAY = 86400000"

text \<open>The calendar date of a day counted from 1970-01-01, by 400-year eras that start in March.\<close>

definition civil_from_days :: "int \<Rightarrow> int \<times> int \<times> int" where
  "civil_from_days days =
     (let z = days + 719468;
          era = z div 146097;
          doe = z mod 146097;
          yoe = (doe - doe div 1460 + doe div 36524 - doe div 146096) div 365;
          doy = doe - (365 * yoe + yoe div 4 - yoe div 100);
          mp = (5 * doy + 2) div 153;
          d = doy - (153 * mp + 2) div 5 + 1;
          m = (if mp < 10 then mp + 3 else mp - 9);
          y = yoe + era * 400 + (if m \<le> 2 then 1 else 0) in
      (y, m, d))"

text \<open>\<open>padStart(n, "0")\<close>\<close>

definition pad_start0 :: "nat \<Rightarrow> string \<Rightarrow> string" where
  "pad_start0 n s = replicate (n - length s) CHR ''0'' @ s"

definition dec_pad :: "nat \<Rightarrow> int \<Rightarrow> string" where
  "dec_pad n i = pad_start0 n (nat_to_dec (nat i))"

definition iso_year :: "int \<Rightarrow> string" where
  "iso_year y =
     (if 0 \<le> y \<and> y \<le> 9999 then dec_pad 4 y
      else if y < 0 then CHR ''-'' # dec_pad 6 (- y) else CHR ''+'' # dec_pad 6 y)"

text \<open>\<open>new Date(ms).toISOString()\<close>; \<open>None\<close> is its \<open>RangeError\<close>.\<close>

definition toISOString :: "int \<Rightarrow> string option" where
  "toISOString ms =
     (if MAX_TIME_MS < \<bar>ms\<bar> then None
      else
        let (y, m, d) = civil_from_days (ms div MS_PER_DAY); t = ms mod MS_PER_DAY in
        Some (iso_year y @ ''-'' @ dec_pad 2 m @ ''-'' @ dec_pad 2 d @ ''T'' @
              dec_pad 2 (t div 3600000) @ '':'' @ dec_pad 2 (t div 60000 mod 60) @ '':'' @
              dec_pad 2 (t div 1000 mod 60) @ ''.'' @ dec_pad 3 (t mod 1000) @ ''Z''))"

lemma iso_epoch: "toISOString 0 = Some ''1970-01-01T00:00:00.000Z''"
  by code_simp

lemma iso_leap_day: "toISOString 1709210096789 = Some ''2024-02-29T12:34:56.789Z''"
  by code_simp

lemma iso_before_epoch: "toISOString (- 1) = Some ''1969-12-31T23:59:59.999Z''"
  by code_simp

section \<open>Order of texts\<close>

text \<open>\<open>a < b\<close> on two ASCII texts.\<close>

definition text_less :: "string \<Rightarrow> string \<Rightarrow> bool" where
  "text_less a b \<longleftrightarrow> compare_bytes a b < 0"

lemma text_less_iff: "text_less a b \<longleftrightarrow> a < b"
proof -
  have "compare_bytes a b \<le> 0 \<longleftrightarrow> a \<le> b" by (rule compare_bytes_le_iff)
  moreover have "compare_bytes a b = 0 \<longleftrightarrow> a = b" by simp
  ultimately show ?thesis unfolding text_less_def by (auto simp: order.strict_iff_order)
qed

end
