(* ===== verification/BlockInspector.thy ===== *)
theory BlockInspector
  imports RpcTypes JsDate
begin

text \<open>
  What the scanner keeps of each transaction of a block (src/src/blockInspector.ts): the transaction
  and its receipt as decimal texts, with the fees derived from them. The length of compressed input
  data is Bun's \<open>zstdCompressSync\<close>, a parameter \<open>zstd\<close> from the bytes to the compressed length.
  Texts of the node (hashes, addresses, data) are ASCII.
\<close>

section \<open>Errors\<close>

datatype inspect_error =
    Rpc rpc_error
  | InvalidDate                     \<comment> \<open>the \<open>RangeError\<close> of \<open>toISOString\<close>\<close>

definition lift_rpc :: "rpc_error + 'a \<Rightarrow> inspect_error + 'a" where
  "lift_rpc r = (case r of Inl e \<Rightarrow> Inl (Rpc e) | Inr a \<Rightarrow> Inr a)"

lemma lift_rpc_simps [simp, result_simps]:
  "lift_rpc (Inl e) = Inl (Rpc e)" "lift_rpc (Inr a) = Inr a"
  by (simp_all add: lift_rpc_def)

lemma lift_rpc_eq_Inr [simp, result_simps]: "lift_rpc r = Inr a \<longleftrightarrow> r = Inr a"
  by (cases r) simp_all

abbreviation big :: "hex_text option \<Rightarrow> inspect_error + int" where
  "big v \<equiv> lift_rpc (hexToBigInt v)"

section \<open>Hex data\<close>

text \<open>\<open>Number.parseInt\<close> of a two-character slice in radix 16, stored in a byte: \<open>NaN\<close> becomes 0.\<close>

definition parse_hex_byte :: "char \<Rightarrow> char \<Rightarrow> nat" where
  "parse_hex_byte a b =
     (if is_hex_digit a then (if is_hex_digit b then 16 * hex_digit_val a + hex_digit_val b else hex_digit_val a)
      else if \<not> is_hex_digit b then 0
      else if is_ws1 a \<or> a = CHR ''+'' then hex_digit_val b
      else if a = CHR ''-'' then (256 - hex_digit_val b) mod 256
      else 0)"

fun hex_byte_pairs :: "string \<Rightarrow> nat list" where
  "hex_byte_pairs (a # b # s) = parse_hex_byte a b # hex_byte_pairs s"
| "hex_byte_pairs _ = []"

definition hexDataToBytes :: "hex_text option \<Rightarrow> rpc_error + nat list" where
  "hexDataToBytes value =
     (case value of
        None \<Rightarrow> Inr []
      | Some v \<Rightarrow>
          if v = ''0x'' then Inr []
          else let hex = drop 2 v in
            if length hex mod 2 \<noteq> 0 then Inl OddHexData else Inr (hex_byte_pairs hex))"

definition hexDataByteLength :: "hex_text option \<Rightarrow> rpc_error + int" where
  "hexDataByteLength value = bind_result (hexDataToBytes value) (\<lambda>bytes. Inr (int (length bytes)))"

definition compressedHexDataByteLength :: "(nat list \<Rightarrow> nat) \<Rightarrow> hex_text option \<Rightarrow> rpc_error + int" where
  "compressedHexDataByteLength zstd value =
     bind_result (hexDataToBytes value) (\<lambda>bytes. Inr (int (zstd bytes)))"

lemma length_hex_byte_pairs: "length (hex_byte_pairs s) = length s div 2"
  by (induction s rule: hex_byte_pairs.induct) auto

lemma parse_hex_byte_bound: "parse_hex_byte a b < 256"
proof -
  have "is_hex_digit c \<Longrightarrow> hex_digit_val c < 16" for c
    by (auto simp: is_hex_digit_def is_digit_def hex_digit_val_def Let_def)
  from this [of a] this [of b] show ?thesis by (auto simp: parse_hex_byte_def)
qed

lemma hexDataByteLength_nonneg: "hexDataByteLength v = Inr n \<Longrightarrow> 0 \<le> n"
  by (auto simp: hexDataByteLength_def bind_result_eq_Inr)

lemma compressedHexDataByteLength_nonneg: "compressedHexDataByteLength z v = Inr n \<Longrightarrow> 0 \<le> n"
  by (auto simp: compressedHexDataByteLength_def bind_result_eq_Inr)

definition hexToDecimalString :: "hex_text option \<Rightarrow> rpc_error + string option" where
  "hexToDecimalString value =
     (case value of None \<Rightarrow> Inr None | Some v \<Rightarrow> bind_result (hexToBigInt (Some v)) (\<lambda>i. Inr (Some (int_to_dec i))))"

section \<open>Inspected data\<close>

record inspected_log =
  il_logIndex :: int
  il_address :: hex_text
  il_topics :: "hex_text list"
  il_data :: hex_text

record inspected_transaction =
  it_position :: nat
  it_hash :: hex_text
  it_from :: "hex_text option"
  it_to :: "hex_text option"
  it_type :: "string option"
  it_nonce :: "string option"
  it_valueWei :: string
  it_gasLimit :: string
  it_gasUsed :: string
  it_inputDataSizeBytes :: string
  it_inputDataCompressedSizeBytes :: string
  it_cumulativeGasUsed :: "string option"
  it_gasPriceWei :: "string option"
  it_maxFeePerGasWei :: "string option"
  it_maxPriorityFeePerGasWei :: "string option"
  it_effectiveGasPriceWei :: string
  it_priorityFeeWei :: string
  it_transactionFeeWei :: string
  it_rentFeeWei :: string
  it_status :: "string option"
  it_contractAddress :: "hex_text option"
  it_logs :: "inspected_log list option"

text \<open>The fields of a block that are filled when it is read; the optional statistics are added from storage.\<close>

record inspected_block =
  ib_blockNumber :: int
  ib_blockNumberDecimal :: string
  ib_blockDate :: string
  ib_blockTimeSeconds :: string
  ib_baseBlockFeeWei :: string
  ib_totalGasUsed :: string
  ib_maxGasInBlock :: string
  ib_transactionCount :: nat
  ib_transactions :: "inspected_transaction list"

definition inspect_log :: "nat \<Rightarrow> rpc_log \<Rightarrow> rpc_error + inspected_log" where
  "inspect_log index log =
     bind_result (case lg_logIndex log of
                    None \<Rightarrow> Inr (int index)
                  | Some v \<Rightarrow> bind_result (hexToBigInt (Some v)) (\<lambda>i. Inr (Number_of i))) (\<lambda>logIndex.
     Inr \<lparr>il_logIndex = logIndex, il_address = to_lower (lg_address log),
          il_topics = map to_lower (lg_topics log),
          il_data = (if lg_data log \<noteq> [] then to_lower (lg_data log) else ''0x'')\<rparr>)"

definition inspectLogs :: "rpc_log list \<Rightarrow> rpc_error + inspected_log list" where
  "inspectLogs logs = map_result (\<lambda>(index, log). inspect_log index log) (enumerate 0 logs)"

text \<open>\<open>a ?? b\<close>\<close>

definition nullish :: "'a option \<Rightarrow> 'a option \<Rightarrow> 'a option" where
  "nullish a b = (case a of Some x \<Rightarrow> Some x | None \<Rightarrow> b)"

definition priority_fee :: "int \<Rightarrow> int \<Rightarrow> int" where
  "priority_fee effectiveGasPrice baseFee =
     (if effectiveGasPrice > baseFee then effectiveGasPrice - baseFee else 0)"

definition inspectTransaction ::
  "(nat list \<Rightarrow> nat) \<Rightarrow> rpc_transaction \<Rightarrow> (string, rpc_receipt) jsmap \<Rightarrow> nat \<Rightarrow> int \<Rightarrow> rpc_error + inspected_transaction" where
  "inspectTransaction zstd tr receipts position baseFee =
     (case map_get receipts (to_lower (tx_hash tr)) of
        None \<Rightarrow> Inl (MissingReceipt (tx_hash tr))
      | Some receipt \<Rightarrow>
          bind_result (hexToBigInt (Some (rc_gasUsed receipt))) (\<lambda>gasUsed.
          bind_result (hexToBigInt (nullish (rc_effectiveGasPrice receipt) (tx_gasPrice tr))) (\<lambda>effectiveGasPrice.
          bind_result (hexToDecimalString (tx_type tr)) (\<lambda>type.
          bind_result (hexToDecimalString (tx_nonce tr)) (\<lambda>nonce.
          bind_result (hexToBigInt (tx_value tr)) (\<lambda>val.
          bind_result (hexToBigInt (tx_gas tr)) (\<lambda>gas.
          bind_result (hexDataByteLength (tx_input tr)) (\<lambda>size.
          bind_result (compressedHexDataByteLength zstd (tx_input tr)) (\<lambda>compressed.
          bind_result (hexToDecimalString (rc_cumulativeGasUsed receipt)) (\<lambda>cumulative.
          bind_result (hexToDecimalString (tx_gasPrice tr)) (\<lambda>gasPrice.
          bind_result (hexToDecimalString (tx_maxFeePerGas tr)) (\<lambda>maxFee.
          bind_result (hexToDecimalString (tx_maxPriorityFeePerGas tr)) (\<lambda>maxPriority.
          bind_result (hexToBigInt (rc_rentFee receipt)) (\<lambda>rentFee.
          bind_result (hexToDecimalString (rc_status receipt)) (\<lambda>status.
          bind_result (case rc_logs receipt of None \<Rightarrow> Inr None
                       | Some ls \<Rightarrow> bind_result (inspectLogs ls) (\<lambda>l. Inr (Some l))) (\<lambda>logs.
          Inr \<lparr>it_position = position, it_hash = tx_hash tr, it_from = tx_from tr, it_to = tx_to tr,
               it_type = type, it_nonce = nonce, it_valueWei = int_to_dec val,
               it_gasLimit = int_to_dec gas, it_gasUsed = int_to_dec gasUsed,
               it_inputDataSizeBytes = int_to_dec size,
               it_inputDataCompressedSizeBytes = int_to_dec compressed,
               it_cumulativeGasUsed = cumulative, it_gasPriceWei = gasPrice,
               it_maxFeePerGasWei = maxFee, it_maxPriorityFeePerGasWei = maxPriority,
               it_effectiveGasPriceWei = int_to_dec effectiveGasPrice,
               it_priorityFeeWei = int_to_dec (priority_fee effectiveGasPrice baseFee),
               it_transactionFeeWei = int_to_dec (gasUsed * effectiveGasPrice),
               it_rentFeeWei = int_to_dec rentFee, it_status = status,
               it_contractAddress = rc_contractAddress receipt, it_logs = logs\<rparr>))))))))))))))))"

text \<open>\<open>new Date(Number(seconds) * 1000).toISOString()\<close>\<close>

definition block_date :: "int \<Rightarrow> inspect_error + string" where
  "block_date seconds =
     (case toISOString (Number_of seconds * 1000) of None \<Rightarrow> Inl InvalidDate | Some d \<Rightarrow> Inr d)"

definition included_positions :: "rpc_block \<Rightarrow> (nat \<times> rpc_transaction) list" where
  "included_positions block =
     filter (\<lambda>(index, tr). \<not> shouldIgnoreTransaction tr) (enumerate 0 (rb_transactions block))"

definition inspectBlockFromRpc ::
  "(nat list \<Rightarrow> nat) \<Rightarrow> rpc_block \<Rightarrow> rpc_receipt list \<Rightarrow> inspect_error + inspected_block" where
  "inspectBlockFromRpc zstd block receipts =
     (case rb_number block of
        None \<Rightarrow> Inl (Rpc PendingBlock)
      | Some number \<Rightarrow>
          let transactions = included_positions block in
          if length receipts < length transactions
          then Inl (Rpc (ReceiptCountLess (length receipts) (length transactions)))
          else
          bind_result (big (Some number)) (\<lambda>blockNumber.
          bind_result (big (Some (rb_timestamp block))) (\<lambda>timestamp.
          bind_result (big (rb_baseFeePerGas block)) (\<lambda>baseFee.
          bind_result (block_date timestamp) (\<lambda>date.
          bind_result (big (Some (rb_gasUsed block))) (\<lambda>gasUsed.
          bind_result (big (Some (rb_gasLimit block))) (\<lambda>gasLimit.
          bind_result (lift_rpc (map_result (\<lambda>(index, tr).
              inspectTransaction zstd tr (receiptsByHash receipts) index baseFee) transactions)) (\<lambda>inspected.
          Inr \<lparr>ib_blockNumber = Number_of blockNumber, ib_blockNumberDecimal = int_to_dec blockNumber,
               ib_blockDate = date, ib_blockTimeSeconds = ''2'',
               ib_baseBlockFeeWei = int_to_dec baseFee, ib_totalGasUsed = int_to_dec gasUsed,
               ib_maxGasInBlock = int_to_dec gasLimit, ib_transactionCount = length transactions,
               ib_transactions = inspected\<rparr>))))))))"

end
