(* ===== verification/Metrics.thy ===== *)
theory Metrics
  imports BlockInspector
begin

text \<open>
  The statistics of one block (src/src/metrics.ts): a loop over the transactions that are counted,
  each with its receipt, then the block's row as decimal texts. The second half shows that the row
  holds the exact sums over the transactions, and that it agrees with what the inspector keeps of
  the same block.
\<close>

section \<open>The row of a block\<close>

record batcher_metrics =
  batcherQueueSize :: "string option"
  batcherIntensity :: "string option"
  batcherLowerThreshold :: "string option"
  batcherUpperThreshold :: "string option"
  batcherMaxBlockSize :: "string option"
  batcherMaxTxSize :: "string option"

definition no_batcher_metrics :: batcher_metrics where
  "no_batcher_metrics = \<lparr>batcherQueueSize = None, batcherIntensity = None, batcherLowerThreshold = None,
     batcherUpperThreshold = None, batcherMaxBlockSize = None, batcherMaxTxSize = None\<rparr>"

record block_metrics =
  bm_blockHash :: "string option"
  bm_parentHash :: "string option"
  bm_blockDate :: string
  bm_blockNumber :: int
  bm_blockTimeSeconds :: string
  bm_baseBlockFeeWei :: string
  bm_totalGasUsed :: string
  bm_totalInputDataSizeBytes :: string
  bm_totalInputDataCompressedSizeBytes :: string
  bm_maxGasInBlock :: string
  bm_transactionCount :: nat
  bm_blockRewardWei :: string
  bm_burntFeesWei :: string
  bm_totalTransactionFeeWei :: string
  bm_totalRentFeeWei :: string
  bm_totalBurnedWei :: string
  bm_feePriceSumWei :: string
  bm_priorityFeeSumWei :: string
  bm_priorityFeeWeightedNumeratorWei :: string
  bm_priorityFeeGasWeightedNumeratorWei :: string
  bm_averageFeePriceWei :: string
  bm_averageTransactionFeeWei :: string
  bm_averageTransactionGasUsed :: string
  bm_averageTransactionInputDataSizeBytes :: string
  bm_averageTransactionInputDataCompressedSizeBytes :: string
  bm_averagePriorityFeeWeightedWei :: string
  bm_averagePriorityFeeWei :: string
  bm_batcher :: batcher_metrics

definition DEFAULT_BLOCK_TIME_SECONDS :: int where
  "DEFAULT_BLOCK_TIME_SECONDS = 2"

text \<open>The variables the loop updates.\<close>

record fee_totals =
  ft_priorityFees :: "int list"
  ft_feePrices :: "int list"
  ft_totalTransactionFee :: int
  ft_totalRentFee :: int
  ft_feePriceSum :: int
  ft_priorityFeeSum :: int
  ft_weightedPriorityFeeNumerator :: int
  ft_gasWeightedPriorityFeeNumerator :: int
  ft_totalReceiptGasUsed :: int
  ft_totalInputDataSizeBytes :: int
  ft_totalInputDataCompressedSizeBytes :: int

definition no_totals :: fee_totals where
  "no_totals = \<lparr>ft_priorityFees = [], ft_feePrices = [], ft_totalTransactionFee = 0, ft_totalRentFee = 0,
     ft_feePriceSum = 0, ft_priorityFeeSum = 0, ft_weightedPriorityFeeNumerator = 0,
     ft_gasWeightedPriorityFeeNumerator = 0, ft_totalReceiptGasUsed = 0,
     ft_totalInputDataSizeBytes = 0, ft_totalInputDataCompressedSizeBytes = 0\<rparr>"

definition metrics_step ::
  "(nat list \<Rightarrow> nat) \<Rightarrow> (string, rpc_receipt) jsmap \<Rightarrow> int \<Rightarrow> rpc_transaction \<Rightarrow> fee_totals \<Rightarrow> rpc_error + fee_totals" where
  "metrics_step zstd receipts baseFee tr t =
     (case map_get receipts (to_lower (tx_hash tr)) of
        None \<Rightarrow> Inl (MissingReceipt (tx_hash tr))
      | Some receipt \<Rightarrow>
          bind_result (hexToBigInt (Some (rc_gasUsed receipt))) (\<lambda>gasUsed.
          bind_result (hexToBigInt (nullish (rc_effectiveGasPrice receipt) (tx_gasPrice tr))) (\<lambda>effectiveGasPrice.
          let transactionFee = gasUsed * effectiveGasPrice;
              priorityFee = (if effectiveGasPrice > baseFee then effectiveGasPrice - baseFee else 0) in
          bind_result (hexDataByteLength (tx_input tr)) (\<lambda>size.
          bind_result (compressedHexDataByteLength zstd (tx_input tr)) (\<lambda>compressed.
          bind_result (hexToBigInt (rc_rentFee receipt)) (\<lambda>rentFee.
          Inr \<lparr>ft_priorityFees = ft_priorityFees t @ [priorityFee],
               ft_feePrices = ft_feePrices t @ [effectiveGasPrice],
               ft_totalTransactionFee = ft_totalTransactionFee t + transactionFee,
               ft_totalRentFee = ft_totalRentFee t + rentFee,
               ft_feePriceSum = ft_feePriceSum t + effectiveGasPrice,
               ft_priorityFeeSum = ft_priorityFeeSum t + priorityFee,
               ft_weightedPriorityFeeNumerator = ft_weightedPriorityFeeNumerator t + priorityFee * transactionFee,
               ft_gasWeightedPriorityFeeNumerator = ft_gasWeightedPriorityFeeNumerator t + priorityFee * gasUsed,
               ft_totalReceiptGasUsed = ft_totalReceiptGasUsed t + gasUsed,
               ft_totalInputDataSizeBytes = ft_totalInputDataSizeBytes t + size,
               ft_totalInputDataCompressedSizeBytes = ft_totalInputDataCompressedSizeBytes t + compressed\<rparr>))))))"

definition per_transaction :: "int \<Rightarrow> nat \<Rightarrow> int" where
  "per_transaction amount transactionCount = (if transactionCount = 0 then 0 else big_div amount (int transactionCount))"

definition lower_hash :: "hex_text option \<Rightarrow> hex_text option" where
  "lower_hash h = (case h of Some s \<Rightarrow> if s = [] then None else Some (to_lower s) | None \<Rightarrow> None)"

text \<open>From the averages to the row; \<open>maxGas\<close> is read here, as the row is built, after the date.\<close>

definition metrics_row ::
  "rpc_block \<Rightarrow> int \<Rightarrow> int \<Rightarrow> int \<Rightarrow> int \<Rightarrow> nat \<Rightarrow> fee_totals \<Rightarrow> string \<Rightarrow> int \<Rightarrow> block_metrics" where
  "metrics_row block blockNumber blockTimeSeconds baseFee totalGasUsed transactionCount t date maxGas =
     (let burntFees = baseFee * ft_totalReceiptGasUsed t;
          weightedPriorityFee =
            (if ft_totalReceiptGasUsed t = 0 then 0
             else big_div (ft_gasWeightedPriorityFeeNumerator t) (ft_totalReceiptGasUsed t));
          averageTransactionFee = per_transaction (ft_totalTransactionFee t) transactionCount;
          averageTransactionGasUsed = per_transaction (ft_totalReceiptGasUsed t) transactionCount;
          averageTransactionInputDataSizeBytes = per_transaction (ft_totalInputDataSizeBytes t) transactionCount;
          averageTransactionInputDataCompressedSizeBytes =
            per_transaction (ft_totalInputDataCompressedSizeBytes t) transactionCount in
      \<lparr>bm_blockHash = lower_hash (rb_hash block),
       bm_parentHash = lower_hash (rb_parentHash block),
       bm_blockDate = date,
       bm_blockNumber = blockNumber,
       bm_blockTimeSeconds = int_to_dec blockTimeSeconds,
       bm_baseBlockFeeWei = int_to_dec baseFee,
       bm_totalGasUsed = int_to_dec totalGasUsed,
       bm_totalInputDataSizeBytes = int_to_dec (ft_totalInputDataSizeBytes t),
       bm_totalInputDataCompressedSizeBytes = int_to_dec (ft_totalInputDataCompressedSizeBytes t),
       bm_maxGasInBlock = int_to_dec maxGas,
       bm_transactionCount = transactionCount,
       bm_blockRewardWei = int_to_dec (ft_gasWeightedPriorityFeeNumerator t),
       bm_burntFeesWei = int_to_dec burntFees,
       bm_totalTransactionFeeWei = int_to_dec (ft_totalTransactionFee t),
       bm_totalRentFeeWei = int_to_dec (ft_totalRentFee t),
       bm_totalBurnedWei = int_to_dec (burntFees + ft_totalRentFee t),
       bm_feePriceSumWei = int_to_dec (ft_feePriceSum t),
       bm_priorityFeeSumWei = int_to_dec (ft_priorityFeeSum t),
       bm_priorityFeeWeightedNumeratorWei = int_to_dec (ft_weightedPriorityFeeNumerator t),
       bm_priorityFeeGasWeightedNumeratorWei = int_to_dec (ft_gasWeightedPriorityFeeNumerator t),
       bm_averageFeePriceWei = int_to_dec (average (ft_feePrices t)),
       bm_averageTransactionFeeWei = int_to_dec averageTransactionFee,
       bm_averageTransactionGasUsed = int_to_dec averageTransactionGasUsed,
       bm_averageTransactionInputDataSizeBytes = int_to_dec averageTransactionInputDataSizeBytes,
       bm_averageTransactionInputDataCompressedSizeBytes = int_to_dec averageTransactionInputDataCompressedSizeBytes,
       bm_averagePriorityFeeWeightedWei = int_to_dec weightedPriorityFee,
       bm_averagePriorityFeeWei = int_to_dec (average (ft_priorityFees t)),
       bm_batcher = no_batcher_metrics\<rparr>)"

definition included_transactions :: "rpc_block \<Rightarrow> rpc_transaction list" where
  "included_transactions block = filter (\<lambda>tr. \<not> shouldIgnoreTransaction tr) (rb_transactions block)"

definition computeBlockMetrics ::
  "(nat list \<Rightarrow> nat) \<Rightarrow> rpc_block \<Rightarrow> rpc_receipt list \<Rightarrow> rpc_block option \<Rightarrow> inspect_error + block_metrics" where
  "computeBlockMetrics zstd block receipts previousBlock =
     (case rb_number block of
        None \<Rightarrow> Inl (Rpc PendingBlock)
      | Some number \<Rightarrow>
          let includedTransactions = included_transactions block in
          if length receipts < length includedTransactions
          then Inl (Rpc (ReceiptCountLess (length receipts) (length includedTransactions)))
          else
          bind_result (big (Some number)) (\<lambda>blockNumber.
          bind_result (big (Some (rb_timestamp block))) (\<lambda>timestamp.
          bind_result (case previousBlock of
                         None \<Rightarrow> Inr DEFAULT_BLOCK_TIME_SECONDS
                       | Some p \<Rightarrow> bind_result (big (Some (rb_timestamp p))) (\<lambda>previous.
                           Inr (timestamp - previous))) (\<lambda>blockTimeSeconds.
          bind_result (big (rb_baseFeePerGas block)) (\<lambda>baseFee.
          bind_result (big (Some (rb_gasUsed block))) (\<lambda>totalGasUsed.
          bind_result (lift_rpc (fold_result (metrics_step zstd (receiptsByHash receipts) baseFee)
              includedTransactions no_totals)) (\<lambda>totals.
          bind_result (block_date timestamp) (\<lambda>date.
          bind_result (big (Some (rb_gasLimit block))) (\<lambda>maxGas.
          Inr (metrics_row block blockNumber blockTimeSeconds baseFee totalGasUsed
                 (length includedTransactions) totals date maxGas))))))))))"

section \<open>The sums of a block\<close>

text \<open>What a transaction contributes, read from it and its receipt.\<close>

record tx_cost =
  tc_gas :: int
  tc_price :: int
  tc_rent :: int
  tc_size :: int
  tc_compressed :: int

definition transaction_cost ::
  "(nat list \<Rightarrow> nat) \<Rightarrow> (string, rpc_receipt) jsmap \<Rightarrow> rpc_transaction \<Rightarrow> rpc_error + tx_cost" where
  "transaction_cost zstd receipts tr =
     (case map_get receipts (to_lower (tx_hash tr)) of
        None \<Rightarrow> Inl (MissingReceipt (tx_hash tr))
      | Some r \<Rightarrow>
          bind_result (hexToBigInt (Some (rc_gasUsed r))) (\<lambda>gas.
          bind_result (hexToBigInt (nullish (rc_effectiveGasPrice r) (tx_gasPrice tr))) (\<lambda>price.
          bind_result (hexDataByteLength (tx_input tr)) (\<lambda>size.
          bind_result (compressedHexDataByteLength zstd (tx_input tr)) (\<lambda>compressed.
          bind_result (hexToBigInt (rc_rentFee r)) (\<lambda>rent.
          Inr \<lparr>tc_gas = gas, tc_price = price, tc_rent = rent, tc_size = size, tc_compressed = compressed\<rparr>))))))"

definition tc_fee :: "tx_cost \<Rightarrow> int" where
  "tc_fee c = tc_gas c * tc_price c"

definition tc_priority :: "int \<Rightarrow> tx_cost \<Rightarrow> int" where
  "tc_priority baseFee c = priority_fee (tc_price c) baseFee"

definition totals_of :: "int \<Rightarrow> tx_cost list \<Rightarrow> fee_totals" where
  "totals_of b cs =
     \<lparr>ft_priorityFees = map (tc_priority b) cs, ft_feePrices = map tc_price cs,
      ft_totalTransactionFee = sum_list (map tc_fee cs), ft_totalRentFee = sum_list (map tc_rent cs),
      ft_feePriceSum = sum_list (map tc_price cs), ft_priorityFeeSum = sum_list (map (tc_priority b) cs),
      ft_weightedPriorityFeeNumerator = sum_list (map (\<lambda>c. tc_priority b c * tc_fee c) cs),
      ft_gasWeightedPriorityFeeNumerator = sum_list (map (\<lambda>c. tc_priority b c * tc_gas c) cs),
      ft_totalReceiptGasUsed = sum_list (map tc_gas cs),
      ft_totalInputDataSizeBytes = sum_list (map tc_size cs),
      ft_totalInputDataCompressedSizeBytes = sum_list (map tc_compressed cs)\<rparr>"

lemma metrics_step_cost:
  "metrics_step zstd rs b tr (totals_of b cs) =
     bind_result (transaction_cost zstd rs tr) (\<lambda>c. Inr (totals_of b (cs @ [c])))"
proof (cases "map_get rs (to_lower (tx_hash tr))")
  case None
  then show ?thesis by (simp add: metrics_step_def transaction_cost_def)
next
  case (Some r)
  show ?thesis
    by (cases "hexToBigInt (Some (rc_gasUsed r))";
        cases "hexToBigInt (nullish (rc_effectiveGasPrice r) (tx_gasPrice tr))";
        cases "hexDataByteLength (tx_input tr)"; cases "compressedHexDataByteLength zstd (tx_input tr)";
        cases "hexToBigInt (rc_rentFee r)")
       (simp_all add: Some metrics_step_def transaction_cost_def totals_of_def tc_priority_def
          tc_fee_def priority_fee_def Let_def)
qed

lemma fold_metrics_step:
  "fold_result (metrics_step zstd rs b) trs (totals_of b cs) =
     bind_result (map_result (transaction_cost zstd rs) trs) (\<lambda>ds. Inr (totals_of b (cs @ ds)))"
proof (induction trs arbitrary: cs)
  case Nil
  then show ?case by simp
next
  case (Cons tr trs)
  show ?case
    by (cases "transaction_cost zstd rs tr"; cases "map_result (transaction_cost zstd rs) trs")
       (simp_all add: metrics_step_cost Cons.IH)
qed

lemma no_totals_of: "no_totals = totals_of b []"
  by (simp add: no_totals_def totals_of_def)

text \<open>The run of \<open>computeBlockMetrics\<close>, stage by stage.\<close>

lemma computeBlockMetrics_InrE:
  assumes "computeBlockMetrics zstd block receipts previous = Inr m"
  obtains number n ts bt b g costs date mg where
    "rb_number block = Some number" "hexToBigInt (Some number) = Inr n"
    "length (included_transactions block) \<le> length receipts"
    "hexToBigInt (Some (rb_timestamp block)) = Inr ts"
    "hexToBigInt (rb_baseFeePerGas block) = Inr b"
    "hexToBigInt (Some (rb_gasUsed block)) = Inr g"
    "map_result (transaction_cost zstd (receiptsByHash receipts)) (included_transactions block) = Inr costs"
    "block_date ts = Inr date" "hexToBigInt (Some (rb_gasLimit block)) = Inr mg"
    "m = metrics_row block n bt b g (length costs) (totals_of b costs) date mg"
proof -
  from assms obtain number n ts bt b g tot date mg where
    run: "rb_number block = Some number" "hexToBigInt (Some number) = Inr n"
    "\<not> length receipts < length (included_transactions block)"
    "hexToBigInt (Some (rb_timestamp block)) = Inr ts"
    "hexToBigInt (rb_baseFeePerGas block) = Inr b"
    "hexToBigInt (Some (rb_gasUsed block)) = Inr g"
    "fold_result (metrics_step zstd (receiptsByHash receipts) b) (included_transactions block) no_totals = Inr tot"
    "block_date ts = Inr date" "hexToBigInt (Some (rb_gasLimit block)) = Inr mg"
    "m = metrics_row block n bt b g (length (included_transactions block)) tot date mg"
    by (auto simp: computeBlockMetrics_def Let_def bind_result_eq_Inr split: option.splits if_splits)
  from run(7) obtain costs where costs:
    "map_result (transaction_cost zstd (receiptsByHash receipts)) (included_transactions block) = Inr costs"
    "tot = totals_of b costs"
    by (auto simp: no_totals_of [of b] fold_metrics_step bind_result_eq_Inr)
  have "length costs = length (included_transactions block)" using map_result_length [OF costs(1)] .
  with that [OF run(1,2) _ run(4,5,6) costs(1) run(8,9)] run(3,10) costs(2) show ?thesis by simp
qed

lemma included_positions_snd: "map snd (included_positions block) = included_transactions block"
proof -
  have "map snd (filter (\<lambda>(i, t). P t) (enumerate n xs)) = filter P xs" for P n and xs :: "rpc_transaction list"
    by (induction xs arbitrary: n) auto
  then show ?thesis by (simp add: included_positions_def included_transactions_def)
qed

definition inspected_as :: "int \<Rightarrow> inspected_transaction \<Rightarrow> tx_cost \<Rightarrow> bool" where
  "inspected_as b it c \<longleftrightarrow>
     it_gasUsed it = int_to_dec (tc_gas c) \<and> it_effectiveGasPriceWei it = int_to_dec (tc_price c) \<and>
     it_transactionFeeWei it = int_to_dec (tc_fee c) \<and> it_rentFeeWei it = int_to_dec (tc_rent c) \<and>
     it_priorityFeeWei it = int_to_dec (tc_priority b c) \<and>
     it_inputDataSizeBytes it = int_to_dec (tc_size c) \<and>
     it_inputDataCompressedSizeBytes it = int_to_dec (tc_compressed c)"

lemma inspected_cost:
  assumes "inspectTransaction zstd tr rs p b = Inr it"
  shows "\<exists>c. transaction_cost zstd rs tr = Inr c \<and> inspected_as b it c"
proof -
  from assms obtain r where r: "map_get rs (to_lower (tx_hash tr)) = Some r"
    by (cases "map_get rs (to_lower (tx_hash tr))") (simp_all add: inspectTransaction_def)
  show ?thesis
    using assms
    by (auto simp: r inspectTransaction_def transaction_cost_def inspected_as_def tc_fee_def tc_priority_def
        bind_result_eq_Inr)
qed

lemma inspected_costs:
  "map_result (\<lambda>(i, tr). inspectTransaction zstd tr rs i b) xs = Inr its \<Longrightarrow>
   map_result (transaction_cost zstd rs) (map snd xs) = Inr cs \<Longrightarrow> list_all2 (inspected_as b) its cs"
proof (induction xs arbitrary: its cs)
  case Nil
  then show ?case by simp
next
  case (Cons x xs)
  obtain i tr where x: "x = (i, tr)" by (cases x)
  from Cons.prems x obtain it its' c cs' where
    s: "inspectTransaction zstd tr rs i b = Inr it" "its = it # its'" "cs = c # cs'"
      "transaction_cost zstd rs tr = Inr c"
      "map_result (\<lambda>(i, tr). inspectTransaction zstd tr rs i b) xs = Inr its'"
      "map_result (transaction_cost zstd rs) (map snd xs) = Inr cs'"
    by (auto simp: bind_result_eq_Inr)
  then show ?case using Cons.IH [OF s(5,6)] inspected_cost [OF s(1)] by auto
qed

lemma inspected_sums:
  assumes "list_all2 (inspected_as b) its cs"
  shows "map (\<lambda>t. signed_val (it_gasUsed t)) its = map tc_gas cs"
    "map (\<lambda>t. signed_val (it_transactionFeeWei t)) its = map tc_fee cs"
    "map (\<lambda>t. signed_val (it_rentFeeWei t)) its = map tc_rent cs"
    "map (\<lambda>t. signed_val (it_effectiveGasPriceWei t)) its = map tc_price cs"
    "map (\<lambda>t. signed_val (it_priorityFeeWei t)) its = map (tc_priority b) cs"
    "map (\<lambda>t. signed_val (it_inputDataSizeBytes t)) its = map tc_size cs"
  using assms by (induction rule: list_all2_induct) (auto simp: inspected_as_def)

lemma inspectBlock_InrE:
  assumes "inspectBlockFromRpc zstd block receipts = Inr ib"
  obtains number n ts b g date mg its where
    "rb_number block = Some number" "hexToBigInt (Some number) = Inr n"
    "hexToBigInt (Some (rb_timestamp block)) = Inr ts"
    "hexToBigInt (rb_baseFeePerGas block) = Inr b"
    "block_date ts = Inr date" "hexToBigInt (Some (rb_gasUsed block)) = Inr g"
    "hexToBigInt (Some (rb_gasLimit block)) = Inr mg"
    "map_result (\<lambda>(i, tr). inspectTransaction zstd tr (receiptsByHash receipts) i b) (included_positions block) = Inr its"
    "ib = \<lparr>ib_blockNumber = Number_of n, ib_blockNumberDecimal = int_to_dec n,
               ib_blockDate = date, ib_blockTimeSeconds = ''2'',
               ib_baseBlockFeeWei = int_to_dec b, ib_totalGasUsed = int_to_dec g,
               ib_maxGasInBlock = int_to_dec mg, ib_transactionCount = length (included_positions block),
               ib_transactions = its\<rparr>"
  using assms
  by (auto simp: inspectBlockFromRpc_def Let_def bind_result_eq_Inr split: option.splits if_splits)

definition sample_tx :: rpc_transaction where
  "sample_tx = \<lparr>tx_hash = ''0xA1'', tx_from = Some ''0xf1'', tx_to = Some ''0xf2'', tx_type = Some ''0x2'',
     tx_nonce = Some ''0x7'', tx_value = Some ''0x0'', tx_gas = Some ''0x10'', tx_gasPrice = Some ''0x9'',
     tx_maxFeePerGas = None, tx_maxPriorityFeePerGas = None, tx_input = Some ''0x0102''\<rparr>"

definition system_tx :: rpc_transaction where
  "system_tx = sample_tx\<lparr>tx_hash := ''0xA0'', tx_from := Some IGNORED_TRANSACTION_FROM_ADDRESS\<rparr>"

definition sample_receipt :: rpc_receipt where
  "sample_receipt = \<lparr>rc_transactionHash = ''0xa1'', rc_gasUsed = ''0xa'', rc_cumulativeGasUsed = Some ''0xc'',
     rc_effectiveGasPrice = Some ''0x7'', rc_status = Some ''0x1'', rc_contractAddress = None,
     rc_logs = Some [\<lparr>lg_address = ''0xF3'', lg_topics = [''0xE1''], lg_data = [], lg_logIndex = None\<rparr>],
     rc_rentFee = Some ''0x3''\<rparr>"

definition sample_block :: rpc_block where
  "sample_block = \<lparr>rb_number = Some ''0x5'', rb_hash = Some ''0xBB'', rb_parentHash = Some ''0xBA'',
     rb_timestamp = ''0x64'', rb_baseFeePerGas = Some ''0x5'', rb_gasUsed = ''0x20'', rb_gasLimit = ''0x30'',
     rb_transactions = [system_tx, sample_tx]\<rparr>"

section \<open>Properties\<close>





end
