(* ===== verification/Ranges.thy ===== *)
theory Ranges
  imports RpcTypes JsDate
begin

text \<open>
  The statistics of a range of blocks (src/src/ranges.ts): the supported sizes, the range a block
  belongs to, and the row computed from a complete range of stored blocks. The mean of the batcher
  intensities is double arithmetic, which is not modelled: \<open>number\<close> (\<open>Number\<close> of a text, \<open>None\<close> for
  \<open>NaN\<close>) and \<open>mean\<close> (the text of the average of a non-empty list) are parameters. Every
  other number is a bigint.
\<close>

section \<open>Range sizes\<close>

datatype range_error =
    UnsupportedRangeSize int
  | RangeSizeText string
  | NegativeBlock
  | BadRangeStart int
  | WrongBlockCount nat
  | MissingBlocks "int list"
  | BadBigInt string

definition SUPPORTED_RANGE_SIZES :: "int list" where
  "SUPPORTED_RANGE_SIZES = [2, 5, 10, 20, 50, 100, 150, 200, 300, 500, 1000]"

definition DEFAULT_RANGE_SIZE :: int where
  "DEFAULT_RANGE_SIZE = 100"

definition isSupportedRangeSize :: "int \<Rightarrow> bool" where
  "isSupportedRangeSize rangeSize \<longleftrightarrow> rangeSize \<in> set SUPPORTED_RANGE_SIZES"

definition assertSupportedRangeSize :: "int \<Rightarrow> range_error + unit" where
  "assertSupportedRangeSize rangeSize =
     (if isSupportedRangeSize rangeSize then Inr () else Inl (UnsupportedRangeSize rangeSize))"

definition parseRangeSize :: "string \<Rightarrow> range_error + int" where
  "parseRangeSize text =
     (if \<not> all_digits text then Inl (RangeSizeText text)
      else
        let parsed = int (dec_val text) in
        bind_result (assertSupportedRangeSize parsed) (\<lambda>_. Inr parsed))"

definition rangeStartFor :: "int \<Rightarrow> int \<Rightarrow> range_error + int" where
  "rangeStartFor blockNumber rangeSize =
     (if blockNumber < 0 then Inl NegativeBlock
      else bind_result (assertSupportedRangeSize rangeSize) (\<lambda>_.
        Inr (blockNumber - big_mod blockNumber rangeSize)))"

definition rangeEndFor :: "int \<Rightarrow> int \<Rightarrow> range_error + int" where
  "rangeEndFor rangeStart rangeSize =
     bind_result (assertSupportedRangeSize rangeSize) (\<lambda>_. Inr (rangeStart + rangeSize - 1))"

section \<open>Rows\<close>

text \<open>A block as storage returns it (src/src/storage.ts).\<close>

record stored_block =
  sb_blockNumber :: int
  sb_blockHash :: "string option"
  sb_parentHash :: "string option"
  sb_blockDate :: string
  sb_blockTimeSeconds :: string
  sb_baseBlockFeeWei :: string
  sb_totalGasUsed :: string
  sb_totalInputDataSizeBytes :: "string option"
  sb_totalInputDataCompressedSizeBytes :: "string option"
  sb_maxGasInBlock :: string
  sb_transactionCount :: nat
  sb_blockRewardWei :: "string option"
  sb_burntFeesWei :: "string option"
  sb_totalTransactionFeeWei :: "string option"
  sb_totalRentFeeWei :: string
  sb_totalBurnedWei :: string
  sb_feePriceSumWei :: "string option"
  sb_priorityFeeSumWei :: "string option"
  sb_priorityFeeWeightedNumeratorWei :: "string option"
  sb_priorityFeeGasWeightedNumeratorWei :: "string option"
  sb_averageFeePriceWei :: string
  sb_averageTransactionFeeWei :: string
  sb_averageTransactionGasUsed :: string
  sb_averageTransactionInputDataSizeBytes :: "string option"
  sb_averageTransactionInputDataCompressedSizeBytes :: "string option"
  sb_averagePriorityFeeWeightedWei :: string
  sb_averagePriorityFeeWei :: string
  sb_batcherQueueSize :: "string option"
  sb_batcherIntensity :: "string option"
  sb_batcherLowerThreshold :: "string option"
  sb_batcherUpperThreshold :: "string option"
  sb_batcherMaxBlockSize :: "string option"
  sb_batcherMaxTxSize :: "string option"

record block_range_metrics =
  rm_rangeSize :: int
  rm_rangeStart :: int
  rm_rangeEnd :: int
  rm_minBlockDate :: string
  rm_maxBlockDate :: string
  rm_averageBlockTimeSeconds :: string
  rm_minBlockTimeSeconds :: string
  rm_maxBlockTimeSeconds :: string
  rm_minBaseFeeWei :: string
  rm_maxBaseFeeWei :: string
  rm_averageBaseFeeWei :: string
  rm_totalGasUsed :: string
  rm_averageTotalGasUsed :: string
  rm_minTotalGasUsed :: string
  rm_maxTotalGasUsed :: string
  rm_totalInputDataSizeBytes :: string
  rm_averageTotalInputDataSizeBytes :: string
  rm_minTotalInputDataSizeBytes :: string
  rm_maxTotalInputDataSizeBytes :: string
  rm_totalInputDataCompressedSizeBytes :: string
  rm_averageTotalInputDataCompressedSizeBytes :: string
  rm_minTotalInputDataCompressedSizeBytes :: string
  rm_maxTotalInputDataCompressedSizeBytes :: string
  rm_totalMaxGas :: string
  rm_minMaxGasInBlock :: string
  rm_maxMaxGasInBlock :: string
  rm_transactionCount :: nat
  rm_totalBlockRewardWei :: string
  rm_totalBurntFeesWei :: string
  rm_totalRentFeeWei :: string
  rm_totalBurnedWei :: string
  rm_averageBlockRewardWei :: string
  rm_averageBurntFeesWei :: string
  rm_averageRentFeeWei :: string
  rm_averageBurnedWei :: string
  rm_averageFeePriceWei :: string
  rm_averageTransactionGasUsed :: string
  rm_averageTransactionInputDataSizeBytes :: string
  rm_averageTransactionInputDataCompressedSizeBytes :: string
  rm_averagePriorityFeeWeightedWei :: string
  rm_averagePriorityFeeWei :: string
  rm_minBatcherQueueSize :: "string option"
  rm_maxBatcherQueueSize :: "string option"
  rm_averageBatcherQueueSize :: "string option"
  rm_averageBatcherIntensity :: "string option"
  rm_averageBatcherLowerThreshold :: "string option"
  rm_averageBatcherUpperThreshold :: "string option"
  rm_averageBatcherMaxBlockSize :: "string option"
  rm_averageBatcherMaxTxSize :: "string option"

section \<open>Readings\<close>

definition big_text :: "string \<Rightarrow> range_error + int" where
  "big_text s = (case BigInt_of s of Some i \<Rightarrow> Inr i | None \<Rightarrow> Inl (BadBigInt s))"

text \<open>\<open>BigInt(value ?? d)\<close>\<close>

definition big_or :: "string \<Rightarrow> string option \<Rightarrow> range_error + int" where
  "big_or d v = big_text (case v of Some s \<Rightarrow> s | None \<Rightarrow> d)"

definition optional_big :: "string option \<Rightarrow> range_error + int option" where
  "optional_big v = (case v of None \<Rightarrow> Inr None | Some s \<Rightarrow> bind_result (big_text s) (\<lambda>i. Inr (Some i)))"

definition blockRewardFor :: "stored_block \<Rightarrow> range_error + int" where
  "blockRewardFor block =
     bind_result (big_or ''0'' (sb_blockRewardWei block)) (\<lambda>stored.
       if stored > 0 \<or> sb_transactionCount block = 0 then Inr stored
       else big_or ''0'' (sb_priorityFeeGasWeightedNumeratorWei block))"

definition burntFeesFor :: "stored_block \<Rightarrow> range_error + int" where
  "burntFeesFor block = big_or ''0'' (sb_burntFeesWei block)"

definition priorityFeeGasWeightFor :: "stored_block \<Rightarrow> range_error + int" where
  "priorityFeeGasWeightFor block =
     bind_result (big_or ''0'' (sb_priorityFeeGasWeightedNumeratorWei block)) (\<lambda>storedNumerator.
       if storedNumerator > 0 \<or> sb_transactionCount block = 0 then Inr storedNumerator
       else bind_result (big_text (sb_averagePriorityFeeWeightedWei block)) (\<lambda>average.
            bind_result (big_text (sb_totalGasUsed block)) (\<lambda>gas. Inr (average * gas))))"

definition exactOrAverageSum :: "string option \<Rightarrow> string \<Rightarrow> nat \<Rightarrow> range_error + int" where
  "exactOrAverageSum exactSum averageValue transactions =
     bind_result (big_or ''0'' exactSum) (\<lambda>stored.
       if stored > 0 \<or> transactions = 0 then Inr stored
       else bind_result (big_text averageValue) (\<lambda>average. Inr (average * int transactions)))"

definition text_or :: "string \<Rightarrow> string option \<Rightarrow> string" where
  "text_or d v = (case v of Some s \<Rightarrow> s | None \<Rightarrow> d)"

text \<open>The numbers one pass of the loop reads from a block, in the order it reads them.\<close>

record block_reading =
  br_date :: string
  br_blockTime :: int
  br_baseFee :: int
  br_gasUsed :: int
  br_inputSize :: int
  br_inputCompressed :: int
  br_maxGas :: int
  br_transactionCount :: nat
  br_gasWeight :: int
  br_reward :: int
  br_burnt :: int
  br_rent :: int
  br_feePriceSum :: int
  br_transactionInput :: int
  br_transactionCompressed :: int
  br_priorityFeeSum :: int
  br_queueSize :: "int option"
  br_intensity :: "string option"
  br_lowerThreshold :: "int option"
  br_upperThreshold :: "int option"
  br_maxBlockSize :: "int option"
  br_maxTxSize :: "int option"

definition read_block :: "stored_block \<Rightarrow> range_error + block_reading" where
  "read_block block =
     bind_result (big_text (sb_blockTimeSeconds block)) (\<lambda>blockTime.
     bind_result (big_text (sb_baseBlockFeeWei block)) (\<lambda>baseFee.
     bind_result (big_text (sb_totalGasUsed block)) (\<lambda>gasUsed.
     bind_result (big_or ''0'' (sb_totalInputDataSizeBytes block)) (\<lambda>inputSize.
     bind_result (big_or ''0'' (sb_totalInputDataCompressedSizeBytes block)) (\<lambda>inputCompressed.
     bind_result (big_text (sb_maxGasInBlock block)) (\<lambda>maxGas.
     bind_result (priorityFeeGasWeightFor block) (\<lambda>gasWeight.
     bind_result (blockRewardFor block) (\<lambda>reward.
     bind_result (burntFeesFor block) (\<lambda>burnt.
     bind_result (big_text (sb_totalRentFeeWei block)) (\<lambda>rent.
     bind_result (exactOrAverageSum (sb_feePriceSumWei block) (sb_averageFeePriceWei block)
         (sb_transactionCount block)) (\<lambda>feePriceSum.
     bind_result (exactOrAverageSum (sb_totalInputDataSizeBytes block)
         (text_or ''0'' (sb_averageTransactionInputDataSizeBytes block)) (sb_transactionCount block)) (\<lambda>transactionInput.
     bind_result (exactOrAverageSum (sb_totalInputDataCompressedSizeBytes block)
         (text_or ''0'' (sb_averageTransactionInputDataCompressedSizeBytes block)) (sb_transactionCount block)) (\<lambda>transactionCompressed.
     bind_result (exactOrAverageSum (sb_priorityFeeSumWei block) (sb_averagePriorityFeeWei block)
         (sb_transactionCount block)) (\<lambda>priorityFeeSum.
     bind_result (optional_big (sb_batcherQueueSize block)) (\<lambda>queueSize.
     bind_result (optional_big (sb_batcherLowerThreshold block)) (\<lambda>lowerThreshold.
     bind_result (optional_big (sb_batcherUpperThreshold block)) (\<lambda>upperThreshold.
     bind_result (optional_big (sb_batcherMaxBlockSize block)) (\<lambda>maxBlockSize.
     bind_result (optional_big (sb_batcherMaxTxSize block)) (\<lambda>maxTxSize.
     Inr \<lparr>br_date = sb_blockDate block, br_blockTime = blockTime, br_baseFee = baseFee,
          br_gasUsed = gasUsed, br_inputSize = inputSize, br_inputCompressed = inputCompressed,
          br_maxGas = maxGas, br_transactionCount = sb_transactionCount block, br_gasWeight = gasWeight,
          br_reward = reward, br_burnt = burnt, br_rent = rent, br_feePriceSum = feePriceSum,
          br_transactionInput = transactionInput, br_transactionCompressed = transactionCompressed,
          br_priorityFeeSum = priorityFeeSum, br_queueSize = queueSize,
          br_intensity = sb_batcherIntensity block, br_lowerThreshold = lowerThreshold,
          br_upperThreshold = upperThreshold, br_maxBlockSize = maxBlockSize,
          br_maxTxSize = maxTxSize\<rparr>)))))))))))))))))))"

section \<open>The loop\<close>

text \<open>A sum with the least and the greatest value seen.\<close>

record series =
  se_sum :: int
  se_min :: int
  se_max :: int

definition series_start :: "int \<Rightarrow> series" where
  "series_start v = \<lparr>se_sum = 0, se_min = v, se_max = v\<rparr>"

definition series_add :: "int \<Rightarrow> series \<Rightarrow> series" where
  "series_add v s =
     \<lparr>se_sum = se_sum s + v, se_min = (if v < se_min s then v else se_min s),
      se_max = (if v > se_max s then v else se_max s)\<rparr>"

text \<open>The variables of the loop; the six series with their minimum and maximum are records.\<close>

record 'n range_totals =
  rt_minDate :: string
  rt_maxDate :: string
  rt_blockTime :: series
  rt_baseFee :: series
  rt_gasUsed :: series
  rt_inputSize :: series
  rt_inputCompressed :: series
  rt_maxGas :: series
  rt_reward :: int
  rt_burnt :: int
  rt_rent :: int
  rt_transactionCount :: nat
  rt_gasWeight :: int
  rt_feePrice :: int
  rt_transactionGas :: int
  rt_transactionInput :: int
  rt_transactionCompressed :: int
  rt_priorityFee :: int
  rt_queueSizes :: "int list"
  rt_intensities :: "'n list"
  rt_lowerThresholds :: "int list"
  rt_upperThresholds :: "int list"
  rt_maxBlockSizes :: "int list"
  rt_maxTxSizes :: "int list"

definition range_start_totals :: "stored_block \<Rightarrow> range_error + 'n range_totals" where
  "range_start_totals block =
     bind_result (big_text (sb_blockTimeSeconds block)) (\<lambda>blockTime.
     bind_result (big_text (sb_baseBlockFeeWei block)) (\<lambda>baseFee.
     bind_result (big_text (sb_totalGasUsed block)) (\<lambda>gasUsed.
     bind_result (big_or ''0'' (sb_totalInputDataSizeBytes block)) (\<lambda>inputSize.
     bind_result (big_or ''0'' (sb_totalInputDataCompressedSizeBytes block)) (\<lambda>inputCompressed.
     bind_result (big_text (sb_maxGasInBlock block)) (\<lambda>maxGas.
     Inr \<lparr>rt_minDate = sb_blockDate block, rt_maxDate = sb_blockDate block,
          rt_blockTime = series_start blockTime, rt_baseFee = series_start baseFee,
          rt_gasUsed = series_start gasUsed, rt_inputSize = series_start inputSize,
          rt_inputCompressed = series_start inputCompressed, rt_maxGas = series_start maxGas,
          rt_reward = 0, rt_burnt = 0, rt_rent = 0, rt_transactionCount = 0, rt_gasWeight = 0,
          rt_feePrice = 0, rt_transactionGas = 0, rt_transactionInput = 0,
          rt_transactionCompressed = 0, rt_priorityFee = 0, rt_queueSizes = [], rt_intensities = [],
          rt_lowerThresholds = [], rt_upperThresholds = [], rt_maxBlockSizes = [], rt_maxTxSizes = []\<rparr>))))))"

definition pushOptionalBigInt :: "int list \<Rightarrow> int option \<Rightarrow> int list" where
  "pushOptionalBigInt values v = (case v of None \<Rightarrow> values | Some i \<Rightarrow> values @ [i])"

definition pushOptionalNumber :: "(string \<Rightarrow> 'n option) \<Rightarrow> 'n list \<Rightarrow> string option \<Rightarrow> 'n list" where
  "pushOptionalNumber number values v =
     (case v of
        None \<Rightarrow> values
      | Some s \<Rightarrow> (case number s of None \<Rightarrow> values | Some parsed \<Rightarrow> values @ [parsed]))"

definition add_reading :: "(string \<Rightarrow> 'n option) \<Rightarrow> block_reading \<Rightarrow> 'n range_totals \<Rightarrow> 'n range_totals" where
  "add_reading number r t =
     \<lparr>rt_minDate = (if text_less (br_date r) (rt_minDate t) then br_date r else rt_minDate t),
      rt_maxDate = (if text_less (rt_maxDate t) (br_date r) then br_date r else rt_maxDate t),
      rt_blockTime = series_add (br_blockTime r) (rt_blockTime t),
      rt_baseFee = series_add (br_baseFee r) (rt_baseFee t),
      rt_gasUsed = series_add (br_gasUsed r) (rt_gasUsed t),
      rt_inputSize = series_add (br_inputSize r) (rt_inputSize t),
      rt_inputCompressed = series_add (br_inputCompressed r) (rt_inputCompressed t),
      rt_maxGas = series_add (br_maxGas r) (rt_maxGas t),
      rt_reward = rt_reward t + br_reward r,
      rt_burnt = rt_burnt t + br_burnt r,
      rt_rent = rt_rent t + br_rent r,
      rt_transactionCount = rt_transactionCount t + br_transactionCount r,
      rt_gasWeight = rt_gasWeight t + br_gasWeight r,
      rt_feePrice = rt_feePrice t + br_feePriceSum r,
      rt_transactionGas = rt_transactionGas t + br_gasUsed r,
      rt_transactionInput = rt_transactionInput t + br_transactionInput r,
      rt_transactionCompressed = rt_transactionCompressed t + br_transactionCompressed r,
      rt_priorityFee = rt_priorityFee t + br_priorityFeeSum r,
      rt_queueSizes = pushOptionalBigInt (rt_queueSizes t) (br_queueSize r),
      rt_intensities = pushOptionalNumber number (rt_intensities t) (br_intensity r),
      rt_lowerThresholds = pushOptionalBigInt (rt_lowerThresholds t) (br_lowerThreshold r),
      rt_upperThresholds = pushOptionalBigInt (rt_upperThresholds t) (br_upperThreshold r),
      rt_maxBlockSizes = pushOptionalBigInt (rt_maxBlockSizes t) (br_maxBlockSize r),
      rt_maxTxSizes = pushOptionalBigInt (rt_maxTxSizes t) (br_maxTxSize r)\<rparr>"

definition range_step ::
  "(string \<Rightarrow> 'n option) \<Rightarrow> stored_block \<Rightarrow> 'n range_totals \<Rightarrow> range_error + 'n range_totals" where
  "range_step number block t = bind_result (read_block block) (\<lambda>r. Inr (add_reading number r t))"

section \<open>The row of a range\<close>

definition range_average :: "int list \<Rightarrow> string option" where
  "range_average values =
     (if values = [] then None
      else Some (int_to_dec (big_div (foldl (\<lambda>acc v. acc + v) 0 values) (int (length values)))))"

definition range_min :: "int list \<Rightarrow> string option" where
  "range_min values =
     (if values = [] then None
      else Some (int_to_dec (foldl (\<lambda>acc v. if v < acc then v else acc) (hd values) values)))"

definition range_max :: "int list \<Rightarrow> string option" where
  "range_max values =
     (if values = [] then None
      else Some (int_to_dec (foldl (\<lambda>acc v. if v > acc then v else acc) (hd values) values)))"

definition numberAverageStat :: "('n list \<Rightarrow> string) \<Rightarrow> 'n list \<Rightarrow> string option" where
  "numberAverageStat mean values = (if values = [] then None else Some (mean values))"

definition over_transactions :: "int \<Rightarrow> nat \<Rightarrow> int" where
  "over_transactions numerator transactionCount =
     (if transactionCount = 0 then 0 else big_div numerator (int transactionCount))"

definition range_row ::
  "('n list \<Rightarrow> string) \<Rightarrow> int \<Rightarrow> int \<Rightarrow> int \<Rightarrow> 'n range_totals \<Rightarrow> block_range_metrics" where
  "range_row mean rangeSize rangeStart rangeEnd t =
     \<lparr>rm_rangeSize = rangeSize, rm_rangeStart = rangeStart, rm_rangeEnd = rangeEnd,
      rm_minBlockDate = rt_minDate t, rm_maxBlockDate = rt_maxDate t,
      rm_averageBlockTimeSeconds = int_to_dec (big_div (se_sum (rt_blockTime t)) rangeSize),
      rm_minBlockTimeSeconds = int_to_dec (se_min (rt_blockTime t)),
      rm_maxBlockTimeSeconds = int_to_dec (se_max (rt_blockTime t)),
      rm_minBaseFeeWei = int_to_dec (se_min (rt_baseFee t)),
      rm_maxBaseFeeWei = int_to_dec (se_max (rt_baseFee t)),
      rm_averageBaseFeeWei = int_to_dec (big_div (se_sum (rt_baseFee t)) rangeSize),
      rm_totalGasUsed = int_to_dec (se_sum (rt_gasUsed t)),
      rm_averageTotalGasUsed = int_to_dec (big_div (se_sum (rt_gasUsed t)) rangeSize),
      rm_minTotalGasUsed = int_to_dec (se_min (rt_gasUsed t)),
      rm_maxTotalGasUsed = int_to_dec (se_max (rt_gasUsed t)),
      rm_totalInputDataSizeBytes = int_to_dec (se_sum (rt_inputSize t)),
      rm_averageTotalInputDataSizeBytes = int_to_dec (big_div (se_sum (rt_inputSize t)) rangeSize),
      rm_minTotalInputDataSizeBytes = int_to_dec (se_min (rt_inputSize t)),
      rm_maxTotalInputDataSizeBytes = int_to_dec (se_max (rt_inputSize t)),
      rm_totalInputDataCompressedSizeBytes = int_to_dec (se_sum (rt_inputCompressed t)),
      rm_averageTotalInputDataCompressedSizeBytes = int_to_dec (big_div (se_sum (rt_inputCompressed t)) rangeSize),
      rm_minTotalInputDataCompressedSizeBytes = int_to_dec (se_min (rt_inputCompressed t)),
      rm_maxTotalInputDataCompressedSizeBytes = int_to_dec (se_max (rt_inputCompressed t)),
      rm_totalMaxGas = int_to_dec (se_sum (rt_maxGas t)),
      rm_minMaxGasInBlock = int_to_dec (se_min (rt_maxGas t)),
      rm_maxMaxGasInBlock = int_to_dec (se_max (rt_maxGas t)),
      rm_transactionCount = rt_transactionCount t,
      rm_totalBlockRewardWei = int_to_dec (rt_reward t),
      rm_totalBurntFeesWei = int_to_dec (rt_burnt t),
      rm_totalRentFeeWei = int_to_dec (rt_rent t),
      rm_totalBurnedWei = int_to_dec (rt_burnt t + rt_rent t),
      rm_averageBlockRewardWei = int_to_dec (big_div (rt_reward t) rangeSize),
      rm_averageBurntFeesWei = int_to_dec (big_div (rt_burnt t) rangeSize),
      rm_averageRentFeeWei = int_to_dec (big_div (rt_rent t) rangeSize),
      rm_averageBurnedWei = int_to_dec (big_div (rt_burnt t + rt_rent t) rangeSize),
      rm_averageFeePriceWei = int_to_dec (over_transactions (rt_feePrice t) (rt_transactionCount t)),
      rm_averageTransactionGasUsed = int_to_dec (over_transactions (rt_transactionGas t) (rt_transactionCount t)),
      rm_averageTransactionInputDataSizeBytes =
        int_to_dec (over_transactions (rt_transactionInput t) (rt_transactionCount t)),
      rm_averageTransactionInputDataCompressedSizeBytes =
        int_to_dec (over_transactions (rt_transactionCompressed t) (rt_transactionCount t)),
      rm_averagePriorityFeeWeightedWei =
        int_to_dec (if se_sum (rt_gasUsed t) = 0 then 0 else big_div (rt_gasWeight t) (se_sum (rt_gasUsed t))),
      rm_averagePriorityFeeWei = int_to_dec (over_transactions (rt_priorityFee t) (rt_transactionCount t)),
      rm_minBatcherQueueSize = range_min (rt_queueSizes t),
      rm_maxBatcherQueueSize = range_max (rt_queueSizes t),
      rm_averageBatcherQueueSize = range_average (rt_queueSizes t),
      rm_averageBatcherIntensity = numberAverageStat mean (rt_intensities t),
      rm_averageBatcherLowerThreshold = range_average (rt_lowerThresholds t),
      rm_averageBatcherUpperThreshold = range_average (rt_upperThresholds t),
      rm_averageBatcherMaxBlockSize = range_average (rt_maxBlockSizes t),
      rm_averageBatcherMaxTxSize = range_average (rt_maxTxSizes t)\<rparr>"

text \<open>The guards before the loop: size, start, count, and every expected number among the blocks.\<close>

definition missing_numbers :: "int \<Rightarrow> int \<Rightarrow> stored_block list \<Rightarrow> int list" where
  "missing_numbers rangeStart rangeEnd blocks =
     fold (\<lambda>block expected. removeAll (sb_blockNumber block) expected) blocks [rangeStart..rangeEnd]"

definition check_range :: "int \<Rightarrow> int \<Rightarrow> stored_block list \<Rightarrow> range_error + int" where
  "check_range rangeStart rangeSize blocks =
     bind_result (assertSupportedRangeSize rangeSize) (\<lambda>_.
       if rangeStart < 0 \<or> big_mod rangeStart rangeSize \<noteq> 0 then Inl (BadRangeStart rangeStart)
       else if int (length blocks) \<noteq> rangeSize then Inl (WrongBlockCount (length blocks))
       else bind_result (rangeEndFor rangeStart rangeSize) (\<lambda>rangeEnd.
         let expected = missing_numbers rangeStart rangeEnd blocks in
         if expected \<noteq> [] then Inl (MissingBlocks expected) else Inr rangeEnd))"

definition computeBlockRange ::
  "(string \<Rightarrow> 'n option) \<Rightarrow> ('n list \<Rightarrow> string) \<Rightarrow> int \<Rightarrow> int \<Rightarrow> stored_block list \<Rightarrow> range_error + block_range_metrics" where
  "computeBlockRange number mean rangeStart rangeSize blocks =
     bind_result (check_range rangeStart rangeSize blocks) (\<lambda>rangeEnd.
     bind_result (range_start_totals (hd blocks)) (\<lambda>start.
     bind_result (fold_result (range_step number) blocks start) (\<lambda>t.
     Inr (range_row mean rangeSize rangeStart rangeEnd t))))"

section \<open>Which blocks a range takes\<close>

lemma supported_positive: "isSupportedRangeSize n \<Longrightarrow> 2 \<le> n"
  by (auto simp: isSupportedRangeSize_def SUPPORTED_RANGE_SIZES_def)

lemma assertSupported_Inr [simp]: "assertSupportedRangeSize n = Inr u \<longleftrightarrow> isSupportedRangeSize n"
  by (simp add: assertSupportedRangeSize_def)

lemma missing_numbers_filter:
  "missing_numbers s e blocks = filter (\<lambda>i. i \<notin> sb_blockNumber ` set blocks) [s..e]"
proof -
  have "fold (\<lambda>block expected. removeAll (sb_blockNumber block) expected) blocks xs =
      filter (\<lambda>i. i \<notin> sb_blockNumber ` set blocks) xs" for xs
  proof (induction blocks arbitrary: xs)
    case Nil
    then show ?case by simp
  next
    case (Cons b bs)
    have "filter (\<lambda>i. i \<notin> sb_blockNumber ` set bs) (removeAll (sb_blockNumber b) xs) =
        filter (\<lambda>i. i \<notin> sb_blockNumber ` set (b # bs)) xs"
      by (induction xs) auto
    then show ?case by (simp add: Cons.IH)
  qed
  then show ?thesis by (simp add: missing_numbers_def)
qed

lemma exact_cover:
  assumes "int (length blocks) = n" "0 \<le> n"
  shows "missing_numbers s (s + n - 1) blocks = [] \<longleftrightarrow>
    mset (map sb_blockNumber blocks) = mset [s..s + n - 1]"
proof
  assume "missing_numbers s (s + n - 1) blocks = []"
  then have sub: "set [s..s + n - 1] \<subseteq> set (map sb_blockNumber blocks)"
    by (auto simp: missing_numbers_filter filter_empty_conv)
  have card: "card (set [s..s + n - 1]) = length blocks" using assms by simp
  have "card (set (map sb_blockNumber blocks)) \<le> length blocks"
    by (metis card_length length_map)
  with sub card have eq: "set [s..s + n - 1] = set (map sb_blockNumber blocks)"
    by (metis List.finite_set card_seteq)
  then have "distinct (map sb_blockNumber blocks)" using card by (metis card_distinct length_map)
  moreover have "distinct [s..s + n - 1]" by simp
  ultimately show "mset (map sb_blockNumber blocks) = mset [s..s + n - 1]"
    using eq set_eq_iff_mset_eq_distinct by blast
next
  assume "mset (map sb_blockNumber blocks) = mset [s..s + n - 1]"
  then have "set (map sb_blockNumber blocks) = set [s..s + n - 1]" by (rule mset_eq_setD)
  then show "missing_numbers s (s + n - 1) blocks = []"
    by (auto simp: missing_numbers_filter filter_empty_conv)
qed

lemma check_range_Inr:
  "check_range s n blocks = Inr e \<longleftrightarrow>
     isSupportedRangeSize n \<and> 0 \<le> s \<and> n dvd s \<and> e = s + n - 1 \<and>
     mset (map sb_blockNumber blocks) = mset [s..s + n - 1]"
proof (cases "isSupportedRangeSize n")
  case True
  have n: "0 \<le> n" using supported_positive [OF True] by simp
  have len: "int (length blocks) = n" if "mset (map sb_blockNumber blocks) = mset [s..s + n - 1]"
  proof -
    have "size (mset (map sb_blockNumber blocks)) = size (mset [s..s + n - 1])" using that by simp
    then show ?thesis using n by simp
  qed
  have start: "\<not> (s < 0 \<or> big_mod s n \<noteq> 0) \<longleftrightarrow> 0 \<le> s \<and> n dvd s"
    using n by (auto simp: big_mod_nonneg dvd_eq_mod_eq_0)
  show ?thesis
    using exact_cover [of blocks n s] n len start True
    by (auto simp: check_range_def assertSupportedRangeSize_def rangeEndFor_def Let_def)
next
  case False
  then show ?thesis by (auto simp: check_range_def assertSupportedRangeSize_def)
qed

section \<open>What the loop computes\<close>

definition series_of :: "int list \<Rightarrow> series" where
  "series_of vs = \<lparr>se_sum = sum_list vs, se_min = Min (set vs), se_max = Max (set vs)\<rparr>"

lemma Min_snoc:
  fixes x :: "'a :: linorder"
  assumes "xs \<noteq> []"
  shows "(if x < Min (set xs) then x else Min (set xs)) = Min (set (xs @ [x]))"
proof -
  have "Min (set (xs @ [x])) = min x (Min (set xs))" using assms by simp
  then show ?thesis unfolding min_def by (simp only:) (metis less_le not_le order.order_iff_strict)
qed

lemma Max_snoc:
  fixes x :: "'a :: linorder"
  assumes "xs \<noteq> []"
  shows "(if Max (set xs) < x then x else Max (set xs)) = Max (set (xs @ [x]))"
proof -
  have "Max (set (xs @ [x])) = max x (Max (set xs))" using assms by simp
  then show ?thesis unfolding max_def by (simp only:) (metis less_le not_le order.order_iff_strict)
qed

lemma series_add_of:
  assumes "vs \<noteq> []"
  shows "series_add v (series_of vs) = series_of (vs @ [v])"
  unfolding series_add_def series_of_def series.simps Min_snoc [OF assms] Max_snoc [OF assms] by simp

lemma series_add_start: "series_add v (series_start v) = series_of [v]"
  by (simp add: series_add_def series_start_def series_of_def)

definition present :: "('a \<Rightarrow> 'b option) \<Rightarrow> 'a list \<Rightarrow> 'b list" where
  "present f xs = List.map_filter f xs"

lemma present_simps [simp]: "present f [] = []"
  "present f (xs @ ys) = present f xs @ present f ys"
  "present f (x # xs) = (case f x of None \<Rightarrow> present f xs | Some y \<Rightarrow> y # present f xs)"
  by (induction xs) (auto simp: present_def map_filter_simps split: option.splits)

definition numbers_in :: "(string \<Rightarrow> 'n option) \<Rightarrow> block_reading list \<Rightarrow> 'n list" where
  "numbers_in number rs = present (\<lambda>r. Option.bind (br_intensity r) number) rs"

lemma pushOptionalBigInt_present:
  "pushOptionalBigInt (present f xs) (f x) = present f (xs @ [x])"
  by (simp add: pushOptionalBigInt_def split: option.splits)

lemma pushOptionalNumber_present:
  "pushOptionalNumber number (numbers_in number rs) (br_intensity r) = numbers_in number (rs @ [r])"
  by (simp add: pushOptionalNumber_def numbers_in_def split: option.splits)

definition readings_totals :: "(string \<Rightarrow> 'n option) \<Rightarrow> block_reading list \<Rightarrow> 'n range_totals" where
  "readings_totals number rs =
     \<lparr>rt_minDate = Min (set (map br_date rs)), rt_maxDate = Max (set (map br_date rs)),
      rt_blockTime = series_of (map br_blockTime rs), rt_baseFee = series_of (map br_baseFee rs),
      rt_gasUsed = series_of (map br_gasUsed rs), rt_inputSize = series_of (map br_inputSize rs),
      rt_inputCompressed = series_of (map br_inputCompressed rs), rt_maxGas = series_of (map br_maxGas rs),
      rt_reward = sum_list (map br_reward rs), rt_burnt = sum_list (map br_burnt rs),
      rt_rent = sum_list (map br_rent rs), rt_transactionCount = sum_list (map br_transactionCount rs),
      rt_gasWeight = sum_list (map br_gasWeight rs), rt_feePrice = sum_list (map br_feePriceSum rs),
      rt_transactionGas = sum_list (map br_gasUsed rs),
      rt_transactionInput = sum_list (map br_transactionInput rs),
      rt_transactionCompressed = sum_list (map br_transactionCompressed rs),
      rt_priorityFee = sum_list (map br_priorityFeeSum rs),
      rt_queueSizes = present br_queueSize rs, rt_intensities = numbers_in number rs,
      rt_lowerThresholds = present br_lowerThreshold rs, rt_upperThresholds = present br_upperThreshold rs,
      rt_maxBlockSizes = present br_maxBlockSize rs, rt_maxTxSizes = present br_maxTxSize rs\<rparr>"

lemma add_reading_totals:
  assumes "rs \<noteq> []"
  shows "add_reading number r (readings_totals number rs) = readings_totals number (rs @ [r])"
proof -
  have lo: "(if text_less d (Min (set ds)) then d else Min (set ds)) = Min (set (ds @ [d]))" if "ds \<noteq> []" for d ds
    unfolding text_less_iff using that by (rule Min_snoc)
  have hi: "(if text_less (Max (set ds)) d then d else Max (set ds)) = Max (set (ds @ [d]))" if "ds \<noteq> []" for d ds
    unfolding text_less_iff using that by (rule Max_snoc)
  show ?thesis
    unfolding add_reading_def readings_totals_def
    by (simp only: range_totals.simps lo hi series_add_of pushOptionalBigInt_present pushOptionalNumber_present
        assms map_is_Nil_conv simp_thms if_False if_True map_append list.map sum_list.append sum_list.Cons sum_list.Nil
        add_0_right not_False_eq_True)
qed

definition start_of :: "block_reading \<Rightarrow> 'n range_totals" where
  "start_of r =
     \<lparr>rt_minDate = br_date r, rt_maxDate = br_date r,
          rt_blockTime = series_start (br_blockTime r), rt_baseFee = series_start (br_baseFee r),
          rt_gasUsed = series_start (br_gasUsed r), rt_inputSize = series_start (br_inputSize r),
          rt_inputCompressed = series_start (br_inputCompressed r), rt_maxGas = series_start (br_maxGas r),
          rt_reward = 0, rt_burnt = 0, rt_rent = 0, rt_transactionCount = 0, rt_gasWeight = 0,
          rt_feePrice = 0, rt_transactionGas = 0, rt_transactionInput = 0,
          rt_transactionCompressed = 0, rt_priorityFee = 0, rt_queueSizes = [], rt_intensities = [],
          rt_lowerThresholds = [], rt_upperThresholds = [], rt_maxBlockSizes = [], rt_maxTxSizes = []\<rparr>"

lemma range_start_reading: "read_block b = Inr r \<Longrightarrow> range_start_totals b = Inr (start_of r)"
  by (auto simp: read_block_def range_start_totals_def bind_result_eq_Inr start_of_def)

lemma add_reading_start: "add_reading number r (start_of r) = readings_totals number [r]"
  by (cases "br_queueSize r"; cases "br_intensity r"; cases "br_lowerThreshold r"; cases "br_upperThreshold r";
      cases "br_maxBlockSize r"; cases "br_maxTxSize r")
     (simp_all add: add_reading_def start_of_def readings_totals_def series_add_start pushOptionalBigInt_def
        pushOptionalNumber_def numbers_in_def text_less_iff split: option.split)

lemma range_step_reading: "read_block b = Inr r \<Longrightarrow> range_step number b t = Inr (add_reading number r t)"
  by (simp add: range_step_def)

lemma fold_range_step:
  "rs \<noteq> [] \<Longrightarrow> fold_result (range_step number) blocks (readings_totals number rs) =
     bind_result (map_result read_block blocks) (\<lambda>rs'. Inr (readings_totals number (rs @ rs')))"
proof (induction blocks arbitrary: rs)
  case Nil
  then show ?case by simp
next
  case (Cons b bs)
  show ?case
  proof (cases "read_block b")
    case (Inl e)
    then show ?thesis by (simp add: range_step_def)
  next
    case (Inr r)
    then show ?thesis
      by (cases "map_result read_block bs")
         (simp_all add: range_step_reading [OF Inr] add_reading_totals [OF Cons.prems] Cons.IH)
  qed
qed

lemma computeBlockRange_Inr:
  "computeBlockRange number mean s n blocks = Inr m \<longleftrightarrow>
     (\<exists>rs. check_range s n blocks = Inr (s + n - 1) \<and> map_result read_block blocks = Inr rs \<and>
       m = range_row mean n s (s + n - 1) (readings_totals number rs))"
proof (cases "check_range s n blocks")
  case (Inl e)
  then show ?thesis by (simp add: computeBlockRange_def)
next
  case (Inr e)
  then have e: "e = s + n - 1" and n: "2 \<le> n" and "mset (map sb_blockNumber blocks) = mset [s..s + n - 1]"
    by (simp_all add: check_range_Inr supported_positive)
  then have "blocks \<noteq> []" by (auto dest!: mset_eq_setD)
  then obtain b bs where blocks: "blocks = b # bs" by (cases blocks) auto
  show ?thesis
  proof (cases "read_block b")
    case (Inl x)
    then have "\<exists>y. bind_result (range_start_totals b) (\<lambda>start. bind_result (range_step number b start) k) = Inl y" for k
      by (cases "range_start_totals b :: range_error + 'a range_totals") (simp_all add: range_step_def)
    then show ?thesis using Inr Inl
      by (auto simp: computeBlockRange_def blocks bind_result_eq_Inr range_step_def)
  next
    case r: (Inr r)
    show ?thesis
      using fold_range_step [of "[r]" number bs]
      by (cases "map_result read_block bs")
         (auto simp: computeBlockRange_def blocks Inr [unfolded blocks] e r range_start_reading [OF r]
            range_step_reading [OF r] add_reading_start)
  qed
qed

section \<open>Order of the blocks\<close>

lemma map_result_mset:
  assumes "map_result f xs = Inr ys" "mset xs = mset xs'"
  shows "\<exists>ys'. map_result f xs' = Inr ys' \<and> mset ys' = mset ys"
proof -
  from assms(1) have "list_all2 (\<lambda>x y. f x = Inr y) xs ys" by (simp add: map_result_Inr_iff)
  then have "ys = map (\<lambda>x. projr (f x)) xs" and all: "\<forall>x \<in> set xs. f x = Inr (projr (f x))"
    by (induction rule: list_all2_induct) auto
  moreover have "\<forall>x \<in> set xs'. f x = Inr (projr (f x))" using all assms(2) by (metis mset_eq_setD)
  then have "map_result f xs' = Inr (map (\<lambda>x. projr (f x)) xs')"
    by (simp add: map_result_Inr_iff list_all2_map2 list_all2_same)
  ultimately show ?thesis using assms(2) by (metis mset_map)
qed

lemma sum_list_mset:
  fixes f :: "'a \<Rightarrow> 'b :: comm_monoid_add"
  shows "mset rs = mset rs' \<Longrightarrow> sum_list (map f rs) = sum_list (map f rs')"
  by (metis mset_map sum_mset_sum_list)

lemma mset_present: "mset rs = mset rs' \<Longrightarrow> mset (present f rs) = mset (present f rs')"
proof -
  have "present f xs = map (\<lambda>x. the (f x)) (filter (\<lambda>x. f x \<noteq> None) xs)" for xs
    by (induction xs) (auto split: option.splits)
  then show "mset rs = mset rs' \<Longrightarrow> ?thesis" by (metis mset_filter mset_map)
qed

lemma foldl_min_Min: "foldl (\<lambda>acc v. if v < acc then v else acc) a vs = Min (insert a (set vs))" for a :: int
proof (induction vs arbitrary: a)
  case (Cons v vs)
  have "Min (insert (if v < a then v else a) (set vs)) = Min (insert a (insert v (set vs)))"
    by (cases "vs = []") (auto simp: min_def)
  then show ?case by (simp add: Cons.IH)
qed simp

lemma foldl_max_Max: "foldl (\<lambda>acc v. if v > acc then v else acc) a vs = Max (insert a (set vs))" for a :: int
proof (induction vs arbitrary: a)
  case (Cons v vs)
  have "Max (insert (if v > a then v else a) (set vs)) = Max (insert a (insert v (set vs)))"
    by (cases "vs = []") (auto simp: max_def)
  then show ?case by (simp add: Cons.IH)
qed simp

lemma range_stats_mset:
  assumes "mset vs = mset vs'"
  shows "range_average vs = range_average vs'" "range_min vs = range_min vs'" "range_max vs = range_max vs'"
proof -
  have "set vs = set vs'" "length vs = length vs'" "sum_list vs = sum_list vs'"
    using assms by (metis mset_eq_setD, metis mset_eq_length, metis sum_mset_sum_list)
  moreover have "range_min ws = (if ws = [] then None else Some (int_to_dec (Min (set ws))))"
    "range_max ws = (if ws = [] then None else Some (int_to_dec (Max (set ws))))" for ws
    by (cases ws; simp only: range_min_def range_max_def foldl_min_Min foldl_max_Max; simp)+
  moreover have "vs = [] \<longleftrightarrow> vs' = []" using assms by auto
  ultimately show "range_average vs = range_average vs'" "range_min vs = range_min vs'" "range_max vs = range_max vs'"
    by (auto simp: range_average_def foldl_plus)
qed

lemma readings_totals_mset:
  assumes "mset rs = mset rs'"
  shows "(range_row mean n s e (readings_totals number rs))\<lparr>rm_averageBatcherIntensity := None\<rparr> =
    (range_row mean n s e (readings_totals number rs'))\<lparr>rm_averageBatcherIntensity := None\<rparr>"
proof -
  have series: "series_of (map f rs) = series_of (map f rs')" for f
    using assms by (simp add: series_of_def sum_list_mset [OF assms] mset_eq_setD [OF assms])
  have sets: "set rs = set rs'" using assms by (rule mset_eq_setD)
  note stats = range_stats_mset [OF mset_present [OF assms]]
  show ?thesis
    by (simp add: range_row_def readings_totals_def series sets sum_list_mset [OF assms, of br_reward]
        sum_list_mset [OF assms, of br_burnt] sum_list_mset [OF assms, of br_rent]
        sum_list_mset [OF assms, of br_transactionCount] sum_list_mset [OF assms, of br_gasWeight]
        sum_list_mset [OF assms, of br_feePriceSum] sum_list_mset [OF assms, of br_gasUsed]
        sum_list_mset [OF assms, of br_transactionInput] sum_list_mset [OF assms, of br_transactionCompressed]
        sum_list_mset [OF assms, of br_priorityFeeSum] stats)
qed

section \<open>Bounds\<close>

lemma big_div_between:
  assumes "0 < n" "n * lo \<le> s" "s \<le> n * hi"
  shows "lo \<le> big_div s n \<and> big_div s n \<le> hi"
proof (cases "0 \<le> s")
  case True
  then have eq: "big_div s n = s div n" using assms by (simp add: big_div_nonneg)
  have "lo \<le> s div n"
    using assms zdiv_mono1 [of "n * lo" s n] by simp
  moreover have "s div n \<le> hi"
    using assms zdiv_mono1 [of s "n * hi" n] by simp
  ultimately show ?thesis by (simp add: eq)
next
  case False
  then have eq: "big_div s n = - ((- s) div n)" using assms by (simp add: big_div_def sgn_if)
  have "(- s) div n \<le> - lo"
    using assms zdiv_mono1 [of "- s" "n * (- lo)" n] nonzero_mult_div_cancel_left [of n "- lo"] by simp
  moreover have "- hi \<le> (- s) div n"
    using assms zdiv_mono1 [of "n * (- hi)" "- s" n] nonzero_mult_div_cancel_left [of n "- hi"] by simp
  ultimately show ?thesis by (simp add: eq)
qed

lemma series_average_between:
  assumes "vs \<noteq> []"
  shows "se_min (series_of vs) \<le> big_div (se_sum (series_of vs)) (int (length vs)) \<and>
    big_div (se_sum (series_of vs)) (int (length vs)) \<le> se_max (series_of vs)"
proof (rule big_div_between)
  show "0 < int (length vs)" using assms by simp
  have lo: "(\<And>v. v \<in> set ws \<Longrightarrow> a \<le> v) \<Longrightarrow> int (length ws) * a \<le> sum_list ws" for a ws
    by (induction ws) (auto simp: algebra_simps add_mono)
  have hi: "(\<And>v. v \<in> set ws \<Longrightarrow> v \<le> a) \<Longrightarrow> sum_list ws \<le> int (length ws) * a" for a ws
    by (induction ws) (auto simp: algebra_simps add_mono)
  show "int (length vs) * se_min (series_of vs) \<le> se_sum (series_of vs)"
    by (simp add: series_of_def lo)
  show "se_sum (series_of vs) \<le> int (length vs) * se_max (series_of vs)"
    by (simp add: series_of_def hi)
qed

lemma range_average_between:
  assumes "vs \<noteq> []"
  shows "\<exists>a. range_average vs = Some a \<and> Min (set vs) \<le> signed_val a \<and> signed_val a \<le> Max (set vs)"
  using series_average_between [OF assms] assms by (simp add: range_average_def foldl_plus series_of_def)

lemma range_extremes:
  assumes "vs \<noteq> []"
  shows "range_min vs = Some (int_to_dec (Min (set vs)))" "range_max vs = Some (int_to_dec (Max (set vs)))"
  using assms by (cases vs; simp only: range_min_def range_max_def foldl_min_Min foldl_max_Max; simp)+

text \<open>
  The texts of a minimum, an average and a maximum over the values blocks have: absent when no block has
  one, and otherwise the extremes of the values with the average between them.
\<close>

definition stats_of :: "int list \<Rightarrow> string option \<Rightarrow> string option \<Rightarrow> string option \<Rightarrow> bool" where
  "stats_of vs lo avg hi \<longleftrightarrow>
     (if vs = [] then lo = None \<and> avg = None \<and> hi = None
      else \<exists>l a h. lo = Some l \<and> avg = Some a \<and> hi = Some h \<and> signed_val l = Min (set vs) \<and> signed_val h = Max (set vs) \<and>
        signed_val l \<le> signed_val a \<and> signed_val a \<le> signed_val h)"

text \<open>An average the row has without its extremes: absent, or between two of the values.\<close>

definition average_of :: "int list \<Rightarrow> string option \<Rightarrow> bool" where
  "average_of vs avg \<longleftrightarrow>
     (case avg of
        None \<Rightarrow> vs = []
      | Some a \<Rightarrow> \<exists>lo \<in> set vs. \<exists>hi \<in> set vs. lo \<le> signed_val a \<and> signed_val a \<le> hi)"

lemma stats_of_range: "stats_of vs (range_min vs) (range_average vs) (range_max vs)"
proof (cases "vs = []")
  case False
  then show ?thesis using range_average_between [OF False] by (auto simp: stats_of_def range_extremes)
qed (simp add: stats_of_def range_min_def range_max_def range_average_def)

lemma stats_of_series:
  assumes "vs \<noteq> []"
  shows "stats_of vs (Some (int_to_dec (se_min (series_of vs))))
    (Some (int_to_dec (big_div (se_sum (series_of vs)) (int (length vs))))) (Some (int_to_dec (se_max (series_of vs))))"
  using series_average_between [OF assms] assms by (simp add: stats_of_def series_of_def)

lemma average_of_range: "average_of vs (range_average vs)"
proof (cases "vs = []")
  case False
  then have "Min (set vs) \<in> set vs" "Max (set vs) \<in> set vs" by simp_all
  then show ?thesis using range_average_between [OF False] unfolding average_of_def by fastforce
qed (simp add: average_of_def range_average_def)

lemma average_of_sum: "vs \<noteq> [] \<Longrightarrow> average_of vs (Some (int_to_dec (big_div (sum_list vs) (int (length vs)))))"
  using average_of_range [of vs] by (simp add: range_average_def foldl_plus)

lemma sum_list_plus: "sum_list (map f rs) + sum_list (map g rs) = sum_list (map (\<lambda>r. f r + g r) rs)"
  for f g :: "'a \<Rightarrow> int"
  by (induction rs) simp_all

section \<open>Properties\<close>

definition sample_stored :: "int \<Rightarrow> string \<Rightarrow> string \<Rightarrow> stored_block" where
  "sample_stored n date gas =
     \<lparr>sb_blockNumber = n, sb_blockHash = None, sb_parentHash = None, sb_blockDate = date,
      sb_blockTimeSeconds = ''2'', sb_baseBlockFeeWei = ''5'', sb_totalGasUsed = gas,
      sb_totalInputDataSizeBytes = Some ''4'', sb_totalInputDataCompressedSizeBytes = None,
      sb_maxGasInBlock = ''30'', sb_transactionCount = 1, sb_blockRewardWei = Some ''7'',
      sb_burntFeesWei = Some ''9'', sb_totalTransactionFeeWei = None, sb_totalRentFeeWei = ''2'',
      sb_totalBurnedWei = ''11'', sb_feePriceSumWei = Some ''8'', sb_priorityFeeSumWei = Some ''3'',
      sb_priorityFeeWeightedNumeratorWei = None, sb_priorityFeeGasWeightedNumeratorWei = Some ''6'',
      sb_averageFeePriceWei = ''8'', sb_averageTransactionFeeWei = ''8'', sb_averageTransactionGasUsed = gas,
      sb_averageTransactionInputDataSizeBytes = None, sb_averageTransactionInputDataCompressedSizeBytes = None,
      sb_averagePriorityFeeWeightedWei = ''1'', sb_averagePriorityFeeWei = ''3'',
      sb_batcherQueueSize = Some ''12'', sb_batcherIntensity = None, sb_batcherLowerThreshold = None,
      sb_batcherUpperThreshold = None, sb_batcherMaxBlockSize = None, sb_batcherMaxTxSize = None\<rparr>"

definition sample_pair :: "stored_block list" where
  "sample_pair = [sample_stored 5 ''2024-01-01T00:00:02.000Z'' ''20'', sample_stored 4 ''2024-01-01T00:00:00.000Z'' ''10'']"

lemma sample_range:
  obtains m where "computeBlockRange Some concat 4 2 sample_pair = Inr m"
    "rm_totalGasUsed m = ''30''" "rm_averageTotalGasUsed m = ''15''"
    "rm_minBlockDate m = ''2024-01-01T00:00:00.000Z''"
proof -
  have "case map_result read_block sample_pair of Inl e \<Rightarrow> False
      | Inr rs \<Rightarrow> map br_gasUsed rs = [20, 10] \<and>
          map br_date rs = [''2024-01-01T00:00:02.000Z'', ''2024-01-01T00:00:00.000Z'']"
    by code_simp
  then obtain rs where rs: "map_result read_block sample_pair = Inr rs" "map br_gasUsed rs = [20, 10]"
    "map br_date rs = [''2024-01-01T00:00:02.000Z'', ''2024-01-01T00:00:00.000Z'']"
    by (cases "map_result read_block sample_pair") simp_all
  have check: "check_range 4 2 sample_pair = Inr (4 + 2 - 1)" by code_simp
  have texts: "int_to_dec 30 = ''30''" "int_to_dec (big_div 30 2) = ''15''" by code_simp+
  have less: "min ''2024-01-01T00:00:02.000Z'' ''2024-01-01T00:00:00.000Z'' = (''2024-01-01T00:00:00.000Z'' :: string)"
    by (simp add: min_def)
  let ?m = "range_row concat 2 4 (4 + 2 - 1) (readings_totals Some rs)"
  have run: "computeBlockRange Some concat 4 2 sample_pair = Inr ?m"
    using rs(1) check by (auto simp: computeBlockRange_Inr)
  have "set (map br_date rs) = {''2024-01-01T00:00:02.000Z'', ''2024-01-01T00:00:00.000Z''}"
    by (simp only: rs(3) list.set)
  then have dates: "Min (br_date ` set rs) = ''2024-01-01T00:00:00.000Z''"
    by (simp only: set_map) (simp add: less)
  have "rm_totalGasUsed ?m = ''30''" "rm_averageTotalGasUsed ?m = ''15''"
    "rm_minBlockDate ?m = ''2024-01-01T00:00:00.000Z''"
    by (simp_all add: range_row_def readings_totals_def series_of_def rs(2) texts dates)
  with run show thesis by (rule that)
qed

text \<open>
  C30. The ranges of a supported size partition the blocks: the range found for a block starts at a
  non-negative multiple of the size, contains the block, and is the only such range that does.
\<close>

theorem ranges_partition:
  assumes "isSupportedRangeSize rangeSize" and "0 \<le> block"
  shows "\<exists>rangeStart rangeEnd. rangeStartFor block rangeSize = Inr rangeStart \<and> rangeEndFor rangeStart rangeSize = Inr rangeEnd \<and>
    0 \<le> rangeStart \<and> rangeSize dvd rangeStart \<and> rangeStart \<le> block \<and> block \<le> rangeEnd \<and> rangeEnd - rangeStart + 1 = rangeSize \<and>
    (\<forall>other. rangeSize dvd other \<and> other \<le> block \<and> block \<le> other + rangeSize - 1 \<longrightarrow> other = rangeStart)"
proof -
  have n: "0 < rangeSize" using supported_positive [OF assms(1)] by simp
  let ?s = "block - block mod rangeSize"
  have unique: "other = ?s" if "rangeSize dvd other" "other \<le> block" "block \<le> other + rangeSize - 1" for other
  proof -
    have "(block - other) mod rangeSize = block mod rangeSize" using that(1) by (metis dvd_imp_mod_0 diff_zero mod_diff_right_eq)
    moreover have "(block - other) mod rangeSize = block - other" using that by (intro mod_pos_pos_trivial) auto
    ultimately show ?thesis by simp
  qed
  show ?thesis
    by (rule exI [of _ ?s], rule exI [of _ "?s + rangeSize - 1"])
       (use assms n unique in \<open>auto simp: rangeStartFor_def rangeEndFor_def assertSupportedRangeSize_def big_mod_nonneg
          dvd_minus_mod pos_mod_bound pos_mod_sign zmod_le_nonneg_dividend\<close>)
qed

theorem ranges_partition_witness:
  "isSupportedRangeSize 150 \<and>
   (\<exists>rangeStart rangeEnd. rangeStartFor 1234 150 = Inr rangeStart \<and> rangeEndFor rangeStart 150 = Inr rangeEnd \<and> rangeStart \<le> 1234 \<and> 1234 \<le> rangeEnd)"
proof -
  have "isSupportedRangeSize 150" by code_simp
  then show ?thesis using ranges_partition [of 150 1234] by auto
qed

text \<open>
  C31. A range is computed exactly when its size is supported, its start is a non-negative multiple
  of the size and the blocks are those of the range, each once, in any order.
\<close>

theorem range_needs_its_blocks:
  assumes "map_result read_block blocks = Inr readings"
  shows "(\<exists>m. computeBlockRange number mean rangeStart rangeSize blocks = Inr m) \<longleftrightarrow>
    isSupportedRangeSize rangeSize \<and> 0 \<le> rangeStart \<and> rangeSize dvd rangeStart \<and>
    mset (map sb_blockNumber blocks) = mset [rangeStart..rangeStart + rangeSize - 1]"
  using assms by (auto simp: computeBlockRange_Inr check_range_Inr)

theorem range_needs_its_blocks_witness:
  "(\<exists>m. computeBlockRange Some concat 4 2 sample_pair = Inr m) \<and>
   \<not> (\<exists>m. computeBlockRange Some concat 6 2 sample_pair = Inr m)"
proof -
  obtain rs where rs: "map_result read_block sample_pair = Inr rs"
  proof -
    have "case map_result read_block sample_pair of Inl e \<Rightarrow> False | Inr rs \<Rightarrow> True" by code_simp
    then show thesis using that by (cases "map_result read_block sample_pair") simp_all
  qed
  have rangeSize: "isSupportedRangeSize 2" by code_simp
  have yes: "mset (map sb_blockNumber sample_pair) = mset [4..4 + 2 - 1]"
    by (simp add: sample_pair_def sample_stored_def upto.simps)
  have no: "mset (map sb_blockNumber sample_pair) \<noteq> mset [6..6 + 2 - 1]"
  proof
    assume "mset (map sb_blockNumber sample_pair) = mset [6..6 + 2 - 1]"
    then have "set (map sb_blockNumber sample_pair) = set [6..6 + 2 - 1]" by (rule mset_eq_setD)
    then show False by (simp add: sample_pair_def sample_stored_def upto.simps insert_eq_iff)
  qed
  show ?thesis
    using range_needs_its_blocks [OF rs, of Some concat 4 2] range_needs_its_blocks [OF rs, of Some concat 6 2]
      rangeSize yes no
    by auto
qed



text \<open>
  The order storage returns the blocks in does not matter: the same blocks in another order
  give the same row, up to the mean of the batcher intensities, which is floating point.
\<close>

theorem range_order_independent:
  assumes "computeBlockRange number mean rangeStart rangeSize blocks = Inr m"
    and "mset blocks' = mset blocks"
  shows "\<exists>m'. computeBlockRange number mean rangeStart rangeSize blocks' = Inr m' \<and>
    m'\<lparr>rm_averageBatcherIntensity := None\<rparr> = m\<lparr>rm_averageBatcherIntensity := None\<rparr>"
proof -
  from assms(1) obtain rs where rs: "check_range rangeStart rangeSize blocks = Inr (rangeStart + rangeSize - 1)"
    "map_result read_block blocks = Inr rs" "m = range_row mean rangeSize rangeStart (rangeStart + rangeSize - 1) (readings_totals number rs)"
    by (auto simp: computeBlockRange_Inr)
  obtain rs' where rs': "map_result read_block blocks' = Inr rs'" "mset rs' = mset rs"
    using map_result_mset [OF rs(2) assms(2) [symmetric]] by auto
  have "mset (map sb_blockNumber blocks') = mset (map sb_blockNumber blocks)"
    using assms(2) by simp
  then have "check_range rangeStart rangeSize blocks' = Inr (rangeStart + rangeSize - 1)"
    using rs(1) unfolding check_range_Inr by metis
  then show ?thesis
    using rs' rs(3) readings_totals_mset [OF rs'(2), of mean rangeSize rangeStart _ number]
    by (auto simp: computeBlockRange_Inr)
qed

theorem range_order_independent_witness:
  "case computeBlockRange Some concat 4 2 sample_pair of
     Inl e \<Rightarrow> False
   | Inr m \<Rightarrow> (\<exists>m'. computeBlockRange Some concat 4 2 (rev sample_pair) = Inr m' \<and>
       m'\<lparr>rm_averageBatcherIntensity := None\<rparr> = m\<lparr>rm_averageBatcherIntensity := None\<rparr>)"
proof -
  obtain m where m: "computeBlockRange Some concat 4 2 sample_pair = Inr m"
    by (rule sample_range)
  then show ?thesis using range_order_independent [OF m, of "rev sample_pair"] by simp
qed

text \<open>
  C33. Every bigint average a range's row takes over its blocks lies within the blocks' values. For block
  time, base fee, gas used, both input sizes and the batcher queue size the row also has the minimum and
  the maximum: they are the extremes of the values and the average lies between them. The averages of
  reward, burnt fees, rent, burned wei and the four batcher limits lie between two blocks' values. A batcher
  statistic is missing exactly when no block has a value. (The mean of the intensities is floating point.)
\<close>

theorem range_averages_bounded:
  assumes "computeBlockRange number mean rangeStart rangeSize blocks = Inr m"
  shows "\<exists>rs. map_result read_block blocks = Inr rs \<and>
    stats_of (map br_blockTime rs) (Some (rm_minBlockTimeSeconds m)) (Some (rm_averageBlockTimeSeconds m))
      (Some (rm_maxBlockTimeSeconds m)) \<and>
    stats_of (map br_baseFee rs) (Some (rm_minBaseFeeWei m)) (Some (rm_averageBaseFeeWei m)) (Some (rm_maxBaseFeeWei m)) \<and>
    stats_of (map br_gasUsed rs) (Some (rm_minTotalGasUsed m)) (Some (rm_averageTotalGasUsed m)) (Some (rm_maxTotalGasUsed m)) \<and>
    stats_of (map br_inputSize rs) (Some (rm_minTotalInputDataSizeBytes m)) (Some (rm_averageTotalInputDataSizeBytes m))
      (Some (rm_maxTotalInputDataSizeBytes m)) \<and>
    stats_of (map br_inputCompressed rs) (Some (rm_minTotalInputDataCompressedSizeBytes m))
      (Some (rm_averageTotalInputDataCompressedSizeBytes m)) (Some (rm_maxTotalInputDataCompressedSizeBytes m)) \<and>
    stats_of (present br_queueSize rs) (rm_minBatcherQueueSize m) (rm_averageBatcherQueueSize m) (rm_maxBatcherQueueSize m) \<and>
    average_of (map br_reward rs) (Some (rm_averageBlockRewardWei m)) \<and>
    average_of (map br_burnt rs) (Some (rm_averageBurntFeesWei m)) \<and>
    average_of (map br_rent rs) (Some (rm_averageRentFeeWei m)) \<and>
    average_of (map (\<lambda>r. br_burnt r + br_rent r) rs) (Some (rm_averageBurnedWei m)) \<and>
    average_of (present br_lowerThreshold rs) (rm_averageBatcherLowerThreshold m) \<and>
    average_of (present br_upperThreshold rs) (rm_averageBatcherUpperThreshold m) \<and>
    average_of (present br_maxBlockSize rs) (rm_averageBatcherMaxBlockSize m) \<and>
    average_of (present br_maxTxSize rs) (rm_averageBatcherMaxTxSize m)"
proof -
  from assms obtain rs where rs: "check_range rangeStart rangeSize blocks = Inr (rangeStart + rangeSize - 1)"
    "map_result read_block blocks = Inr rs" "m = range_row mean rangeSize rangeStart (rangeStart + rangeSize - 1) (readings_totals number rs)"
    by (auto simp: computeBlockRange_Inr)
  have n: "2 \<le> rangeSize" and "mset (map sb_blockNumber blocks) = mset [rangeStart..rangeStart + rangeSize - 1]"
    using rs(1) by (auto simp: check_range_Inr dest: supported_positive)
  then have "length blocks = length [rangeStart..rangeStart + rangeSize - 1]" by (metis length_map mset_eq_length)
  then have len: "int (length rs) = rangeSize" using map_result_length [OF rs(2)] n by simp
  then have ne: "rs \<noteq> []" using n by auto
  have series: "stats_of (map f rs) (Some (int_to_dec (se_min (series_of (map f rs)))))
      (Some (int_to_dec (big_div (se_sum (series_of (map f rs))) rangeSize))) (Some (int_to_dec (se_max (series_of (map f rs)))))" for f
    using stats_of_series [of "map f rs"] ne len by simp
  have sums: "average_of (map f rs) (Some (int_to_dec (big_div (sum_list (map f rs)) rangeSize)))" for f
    using average_of_sum [of "map f rs"] ne len by simp
  show ?thesis
    by (rule exI [of _ rs])
       (simp add: rs(2,3) range_row_def readings_totals_def series sums sum_list_plus stats_of_range average_of_range)
qed

theorem range_averages_bounded_witness:
  "case computeBlockRange Some concat 4 2 sample_pair of
     Inl e \<Rightarrow> False
   | Inr m \<Rightarrow> signed_val (rm_minTotalGasUsed m) \<le> signed_val (rm_averageTotalGasUsed m) \<and>
       rm_averageTotalGasUsed m = ''15'' \<and>
       (\<exists>lo avg hi. rm_minBatcherQueueSize m = Some lo \<and> rm_averageBatcherQueueSize m = Some avg \<and>
          rm_maxBatcherQueueSize m = Some hi \<and> signed_val lo \<le> signed_val avg \<and> signed_val avg \<le> signed_val hi)"
proof -
  obtain m where m: "computeBlockRange Some concat 4 2 sample_pair = Inr m" "rm_averageTotalGasUsed m = ''15''"
    by (rule sample_range)
  have queue: "case map_result read_block sample_pair of Inl e \<Rightarrow> False | Inr rs \<Rightarrow> rs \<noteq> [] \<and> present br_queueSize rs \<noteq> []"
    by code_simp
  obtain rs where rs: "map_result read_block sample_pair = Inr rs"
    "stats_of (map br_gasUsed rs) (Some (rm_minTotalGasUsed m)) (Some (rm_averageTotalGasUsed m)) (Some (rm_maxTotalGasUsed m))"
    "stats_of (present br_queueSize rs) (rm_minBatcherQueueSize m) (rm_averageBatcherQueueSize m) (rm_maxBatcherQueueSize m)"
    using range_averages_bounded [OF m(1)] by blast
  then have "rs \<noteq> []" "present br_queueSize rs \<noteq> []" using queue by simp_all
  then show ?thesis using rs(2,3) m by (auto simp: stats_of_def)
qed

end
