(* ===== verification/Storage.thy ===== *)
theory Storage
  imports Metrics Ranges ArkivOperations
begin

text \<open>
  The writer's side of the database (src/src/storage.ts): what one \<open>saveBlockMetrics\<close> transaction
  does to the tables, the scanner's cursors, the genesis binding, and the queries the gap filler and
  the aggregator rest on. Each table is a list of its rows; \<open>blocks\<close> and \<open>scanner_state\<close>, which
  are written by key, are maps. The statements are read as Postgres executes them: an insert whose
  primary key exists is an error that rolls the transaction back, \<open>ON CONFLICT DO UPDATE\<close> replaces,
  \<open>COALESCE(a, b)\<close> keeps the old value when the new one is NULL, and a NOTIFY is delivered when the
  transaction commits. Column types are assumed to take the values written. The columns that only
  record the time of a write are left out.
\<close>

section \<open>Tables\<close>

record tx_row =
  tr_blockNumber :: int
  tr_blockDate :: string
  tr_baseBlockFeeWei :: string
  tr_transaction :: inspected_transaction  \<comment> \<open>without its logs, which have their own table\<close>
  tr_logCount :: "nat option"

record log_row =
  lr_blockNumber :: int
  lr_position :: nat
  lr_logIndex :: int
  lr_hash :: string
  lr_address :: string
  lr_topic0 :: "string option"
  lr_topic1 :: "string option"
  lr_topic2 :: "string option"
  lr_topic3 :: "string option"
  lr_data :: string

record op_row =
  or_blockNumber :: int
  or_position :: nat
  or_hash :: string
  or_blockDate :: string
  or_operation :: arkiv_operation          \<comment> \<open>the stored form of its columns\<close>

record balance_row =
  bw_blockNumber :: int
  bw_blockDate :: string
  bw_address :: string
  bw_balanceWei :: string

datatype record_category = GasUsed | TransactionFee | EffectiveFee

record record_row =
  rr_category :: record_category
  rr_value :: string
  rr_blockNumber :: int
  rr_blockDate :: string
  rr_baseBlockFeeWei :: string
  rr_transaction :: inspected_transaction

datatype notification = EntityChanged string | BlockStored int

record store =
  st_blocks :: "(int, stored_block) jsmap"
  st_state :: "(string, string) jsmap"
  st_transactions :: "tx_row list"
  st_logs :: "log_row list"
  st_operations :: "op_row list"
  st_balances :: "balance_row list"
  st_records :: "record_row list"
  st_ranges :: "(int \<times> int, block_range_metrics) jsmap"
  st_notified :: "notification list"

definition empty_store :: store where
  "empty_store = \<lparr>st_blocks = [], st_state = [], st_transactions = [], st_logs = [], st_operations = [],
     st_balances = [], st_records = [], st_ranges = [], st_notified = []\<rparr>"

datatype storage_error =
    DuplicateKey
  | BadStateNumber string
  | IncompatibleDatabase

text \<open>\<open>INSERT INTO\<close> a table with a primary key and no conflict clause.\<close>

definition insert_rows :: "('r \<Rightarrow> 'k) \<Rightarrow> 'r list \<Rightarrow> 'r list \<Rightarrow> storage_error + 'r list" where
  "insert_rows key rows table =
     (if distinct (map key rows) \<and> set (map key rows) \<inter> set (map key table) = {}
      then Inr (table @ rows) else Inl DuplicateKey)"

section \<open>The blocks table\<close>

definition new_row :: "block_metrics \<Rightarrow> stored_block" where
  "new_row m =
     \<lparr>sb_blockNumber = bm_blockNumber m, sb_blockHash = bm_blockHash m, sb_parentHash = bm_parentHash m,
      sb_blockDate = bm_blockDate m, sb_blockTimeSeconds = bm_blockTimeSeconds m,
      sb_baseBlockFeeWei = bm_baseBlockFeeWei m, sb_totalGasUsed = bm_totalGasUsed m,
      sb_totalInputDataSizeBytes = Some (bm_totalInputDataSizeBytes m),
      sb_totalInputDataCompressedSizeBytes = Some (bm_totalInputDataCompressedSizeBytes m),
      sb_maxGasInBlock = bm_maxGasInBlock m, sb_transactionCount = bm_transactionCount m,
      sb_blockRewardWei = Some (bm_blockRewardWei m), sb_burntFeesWei = Some (bm_burntFeesWei m),
      sb_totalTransactionFeeWei = Some (bm_totalTransactionFeeWei m),
      sb_totalRentFeeWei = bm_totalRentFeeWei m, sb_totalBurnedWei = bm_totalBurnedWei m,
      sb_feePriceSumWei = Some (bm_feePriceSumWei m), sb_priorityFeeSumWei = Some (bm_priorityFeeSumWei m),
      sb_priorityFeeWeightedNumeratorWei = Some (bm_priorityFeeWeightedNumeratorWei m),
      sb_priorityFeeGasWeightedNumeratorWei = Some (bm_priorityFeeGasWeightedNumeratorWei m),
      sb_averageFeePriceWei = bm_averageFeePriceWei m, sb_averageTransactionFeeWei = bm_averageTransactionFeeWei m,
      sb_averageTransactionGasUsed = bm_averageTransactionGasUsed m,
      sb_averageTransactionInputDataSizeBytes = Some (bm_averageTransactionInputDataSizeBytes m),
      sb_averageTransactionInputDataCompressedSizeBytes = Some (bm_averageTransactionInputDataCompressedSizeBytes m),
      sb_averagePriorityFeeWeightedWei = bm_averagePriorityFeeWeightedWei m,
      sb_averagePriorityFeeWei = bm_averagePriorityFeeWei m,
      sb_batcherQueueSize = batcherQueueSize (bm_batcher m), sb_batcherIntensity = batcherIntensity (bm_batcher m),
      sb_batcherLowerThreshold = batcherLowerThreshold (bm_batcher m),
      sb_batcherUpperThreshold = batcherUpperThreshold (bm_batcher m),
      sb_batcherMaxBlockSize = batcherMaxBlockSize (bm_batcher m),
      sb_batcherMaxTxSize = batcherMaxTxSize (bm_batcher m)\<rparr>"

definition coalesce_row :: "stored_block \<Rightarrow> stored_block \<Rightarrow> stored_block" where
  "coalesce_row new old =
     new\<lparr>sb_blockHash := nullish (sb_blockHash new) (sb_blockHash old),
         sb_parentHash := nullish (sb_parentHash new) (sb_parentHash old),
         sb_batcherQueueSize := nullish (sb_batcherQueueSize new) (sb_batcherQueueSize old),
         sb_batcherIntensity := nullish (sb_batcherIntensity new) (sb_batcherIntensity old),
         sb_batcherLowerThreshold := nullish (sb_batcherLowerThreshold new) (sb_batcherLowerThreshold old),
         sb_batcherUpperThreshold := nullish (sb_batcherUpperThreshold new) (sb_batcherUpperThreshold old),
         sb_batcherMaxBlockSize := nullish (sb_batcherMaxBlockSize new) (sb_batcherMaxBlockSize old),
         sb_batcherMaxTxSize := nullish (sb_batcherMaxTxSize new) (sb_batcherMaxTxSize old)\<rparr>"

definition upsert_block :: "block_metrics \<Rightarrow> (int, stored_block) jsmap \<Rightarrow> (int, stored_block) jsmap" where
  "upsert_block m blocks =
     (case map_get blocks (bm_blockNumber m) of
        None \<Rightarrow> map_set (bm_blockNumber m) (new_row m) blocks
      | Some old \<Rightarrow> map_set (bm_blockNumber m) (coalesce_row (new_row m) old) blocks)"

text \<open>The later fill of missing batcher metrics: an update of one row, true when the row exists.\<close>

definition saveBatcherMetricsForBlock :: "int \<Rightarrow> batcher_metrics \<Rightarrow> store \<Rightarrow> bool \<times> store" where
  "saveBatcherMetricsForBlock blockNumber m s =
     (case map_get (st_blocks s) blockNumber of
        None \<Rightarrow> (False, s)
      | Some old \<Rightarrow>
          (True, s\<lparr>st_blocks := map_set blockNumber
             (old\<lparr>sb_batcherQueueSize := nullish (batcherQueueSize m) (sb_batcherQueueSize old),
                  sb_batcherIntensity := nullish (batcherIntensity m) (sb_batcherIntensity old),
                  sb_batcherLowerThreshold := nullish (batcherLowerThreshold m) (sb_batcherLowerThreshold old),
                  sb_batcherUpperThreshold := nullish (batcherUpperThreshold m) (sb_batcherUpperThreshold old),
                  sb_batcherMaxBlockSize := nullish (batcherMaxBlockSize m) (sb_batcherMaxBlockSize old),
                  sb_batcherMaxTxSize := nullish (batcherMaxTxSize m) (sb_batcherMaxTxSize old)\<rparr>)
             (st_blocks s)\<rparr>))"

section \<open>Rows that live with their block\<close>

definition log_row_of :: "int \<Rightarrow> inspected_transaction \<Rightarrow> inspected_log \<Rightarrow> log_row" where
  "log_row_of n t l =
     \<lparr>lr_blockNumber = n, lr_position = it_position t, lr_logIndex = il_logIndex l,
      lr_hash = to_lower (it_hash t), lr_address = to_lower (il_address l),
      lr_topic0 = (if 0 < length (il_topics l) then Some (to_lower (il_topics l ! 0)) else None),
      lr_topic1 = (if 1 < length (il_topics l) then Some (to_lower (il_topics l ! 1)) else None),
      lr_topic2 = (if 2 < length (il_topics l) then Some (to_lower (il_topics l ! 2)) else None),
      lr_topic3 = (if 3 < length (il_topics l) then Some (to_lower (il_topics l ! 3)) else None),
      lr_data = to_lower (il_data l)\<rparr>"

text \<open>The chunks of the loop insert all rows in one transaction.\<close>

definition replaceLogsForBlock :: "int \<Rightarrow> inspected_transaction list \<Rightarrow> log_row list \<Rightarrow> storage_error + log_row list" where
  "replaceLogsForBlock n ts table =
     insert_rows (\<lambda>r. (lr_blockNumber r, lr_position r, lr_logIndex r))
       (concat (map (\<lambda>t. map (log_row_of n t) (case it_logs t of None \<Rightarrow> [] | Some ls \<Rightarrow> ls)) ts))
       (filter (\<lambda>r. lr_blockNumber r \<noteq> n) table)"

definition tx_row_of :: "block_metrics \<Rightarrow> inspected_transaction \<Rightarrow> tx_row" where
  "tx_row_of m t =
     \<lparr>tr_blockNumber = bm_blockNumber m, tr_blockDate = bm_blockDate m,
      tr_baseBlockFeeWei = bm_baseBlockFeeWei m, tr_transaction = t\<lparr>it_logs := None\<rparr>,
      tr_logCount = map_option length (it_logs t)\<rparr>"

definition replaceTransactionsForBlock ::
  "block_metrics \<Rightarrow> inspected_transaction list \<Rightarrow> store \<Rightarrow> storage_error + store" where
  "replaceTransactionsForBlock m ts s =
     bind_result (replaceLogsForBlock (bm_blockNumber m) ts (st_logs s)) (\<lambda>logs.
     bind_result (insert_rows (\<lambda>r. (tr_blockNumber r, it_position (tr_transaction r))) (map (tx_row_of m) ts)
         (filter (\<lambda>r. tr_blockNumber r \<noteq> bm_blockNumber m) (st_transactions s))) (\<lambda>transactions.
     Inr (s\<lparr>st_logs := logs, st_transactions := transactions\<rparr>)))"

definition op_row_of :: "block_metrics \<Rightarrow> tx_operations \<Rightarrow> arkiv_operation \<Rightarrow> op_row" where
  "op_row_of m t oper =
     \<lparr>or_blockNumber = bm_blockNumber m, or_position = to_position t, or_hash = to_hash t,
      or_blockDate = bm_blockDate m,
      or_operation = oper\<lparr>o_entityKey := map_option to_lower (o_entityKey oper),
        o_schemaName := map_option utf8_bytes (o_schemaName oper),
        o_attributes := toStoredOperationAttributes (o_attributes oper), o_error := None\<rparr>\<rparr>"

text \<open>A non-empty key, lowercased, as the set of changed keys takes it.\<close>

definition changed_key :: "string option \<Rightarrow> string list" where
  "changed_key k = (case k of Some e \<Rightarrow> if e \<noteq> [] then [to_lower e] else [] | None \<Rightarrow> [])"

definition changed_keys :: "string option list \<Rightarrow> string list" where
  "changed_keys ks = fold (\<lambda>k acc. if k \<in> set acc then acc else acc @ [k]) (concat (map changed_key ks)) []"

definition notifyEntityOperationChanges :: "string list \<Rightarrow> store \<Rightarrow> store" where
  "notifyEntityOperationChanges keys s = s\<lparr>st_notified := st_notified s @ map EntityChanged keys\<rparr>"

definition replaceOperationsForBlock ::
  "block_metrics \<Rightarrow> tx_operations list option \<Rightarrow> store \<Rightarrow> storage_error + store" where
  "replaceOperationsForBlock m operations s =
     (let n = bm_blockNumber m;
          deleted = filter (\<lambda>r. or_blockNumber r = n) (st_operations s);
          rest = filter (\<lambda>r. or_blockNumber r \<noteq> n) (st_operations s);
          rows = concat (map (\<lambda>t. map (\<lambda>oper. (t, oper)) (to_operations t))
                   (case operations of None \<Rightarrow> [] | Some ts \<Rightarrow> ts));
          keys = changed_keys (map (\<lambda>r. o_entityKey (or_operation r)) deleted @
                   map (\<lambda>(t, oper). o_entityKey oper) rows) in
      bind_result (insert_rows (\<lambda>r. (or_blockNumber r, or_position r, o_opIndex (or_operation r)))
          (map (\<lambda>(t, oper). op_row_of m t oper) rows) rest) (\<lambda>table.
      Inr (notifyEntityOperationChanges keys (s\<lparr>st_operations := table\<rparr>))))"

definition replaceBalancesForBlock ::
  "block_metrics \<Rightarrow> (string, int) jsmap \<Rightarrow> store \<Rightarrow> storage_error + store" where
  "replaceBalancesForBlock m balances s =
     bind_result (insert_rows (\<lambda>r. (bw_blockNumber r, bw_address r))
         (map (\<lambda>(a, w). \<lparr>bw_blockNumber = bm_blockNumber m, bw_blockDate = bm_blockDate m,
                bw_address = to_lower a, bw_balanceWei = int_to_dec w\<rparr>) balances)
         (filter (\<lambda>r. bw_blockNumber r \<noteq> bm_blockNumber m) (st_balances s))) (\<lambda>table.
     Inr (s\<lparr>st_balances := table\<rparr>))"

section \<open>Transaction records\<close>

definition MAX_TRANSACTION_RECORDS_PER_CATEGORY :: nat where
  "MAX_TRANSACTION_RECORDS_PER_CATEGORY = 100"

definition TRANSACTION_RECORD_CATEGORIES :: "record_category list" where
  "TRANSACTION_RECORD_CATEGORIES = [GasUsed, TransactionFee, EffectiveFee]"

definition recordValueForCategory :: "record_category \<Rightarrow> inspected_transaction \<Rightarrow> string" where
  "recordValueForCategory c t =
     (case c of GasUsed \<Rightarrow> it_gasUsed t | TransactionFee \<Rightarrow> it_transactionFeeWei t
      | EffectiveFee \<Rightarrow> it_effectiveGasPriceWei t)"

text \<open>Record values are decimal texts; \<open>signed_val\<close> is their number.\<close>

definition compareTransactionRecordCandidates :: "record_row \<Rightarrow> record_row \<Rightarrow> int" where
  "compareTransactionRecordCandidates a b =
     (let leftValue = signed_val (rr_value a); rightValue = signed_val (rr_value b) in
      if leftValue > rightValue then - 1
      else if leftValue < rightValue then 1
      else int (it_position (rr_transaction b)) - int (it_position (rr_transaction a)))"

text \<open>\<open>ORDER BY record_value::numeric DESC, block_number DESC, position DESC\<close>\<close>

definition record_order :: "record_row \<Rightarrow> record_row \<Rightarrow> int" where
  "record_order a b =
     (if signed_val (rr_value a) \<noteq> signed_val (rr_value b)
      then (if signed_val (rr_value b) < signed_val (rr_value a) then - 1 else 1)
      else if rr_blockNumber a \<noteq> rr_blockNumber b
      then (if rr_blockNumber b < rr_blockNumber a then - 1 else 1)
      else int (it_position (rr_transaction b)) - int (it_position (rr_transaction a)))"

definition in_category :: "record_category \<Rightarrow> record_row list \<Rightarrow> record_row list" where
  "in_category c rows = filter (\<lambda>r. rr_category r = c) rows"

definition deleteTransactionRecordsForBlock :: "int \<Rightarrow> record_row list \<Rightarrow> record_row list" where
  "deleteTransactionRecordsForBlock n rows = filter (\<lambda>r. rr_blockNumber r \<noteq> n) rows"

definition getCurrentRecordMinimum :: "record_category \<Rightarrow> record_row list \<Rightarrow> int option" where
  "getCurrentRecordMinimum c table =
     (let sorted = js_sort record_order (in_category c table) in
      if MAX_TRANSACTION_RECORDS_PER_CATEGORY - 1 < length sorted
      then Some (signed_val (rr_value (sorted ! (MAX_TRANSACTION_RECORDS_PER_CATEGORY - 1))))
      else None)"

definition record_key :: "record_row \<Rightarrow> record_category \<times> int \<times> nat" where
  "record_key r = (rr_category r, rr_blockNumber r, it_position (rr_transaction r))"

text \<open>
  \<open>INSERT ... ON CONFLICT DO UPDATE\<close>: a row of the table with the key of a new one is replaced; a
  statement that would touch the same row twice is an error.
\<close>

definition insertTransactionRecordRows :: "record_row list \<Rightarrow> record_row list \<Rightarrow> storage_error + record_row list" where
  "insertTransactionRecordRows rows table =
     (if distinct (map record_key rows)
      then Inr (filter (\<lambda>r. record_key r \<notin> set (map record_key rows)) table @ rows)
      else Inl DuplicateKey)"

definition pruneTransactionRecords :: "record_category \<Rightarrow> record_row list \<Rightarrow> record_row list" where
  "pruneTransactionRecords c table =
     (let kept = take MAX_TRANSACTION_RECORDS_PER_CATEGORY (js_sort record_order (in_category c table)) in
      filter (\<lambda>r. rr_category r = c \<longrightarrow> record_key r \<in> set (map record_key kept)) table)"

definition record_row_of :: "block_metrics \<Rightarrow> record_category \<Rightarrow> inspected_transaction \<Rightarrow> record_row" where
  "record_row_of m c t =
     \<lparr>rr_category = c, rr_value = recordValueForCategory c t, rr_blockNumber = bm_blockNumber m,
      rr_blockDate = bm_blockDate m, rr_baseBlockFeeWei = bm_baseBlockFeeWei m,
      rr_transaction = t\<lparr>it_logs := None\<rparr>\<rparr>"

definition upsert_category ::
  "block_metrics \<Rightarrow> inspected_transaction list \<Rightarrow> record_category \<Rightarrow> record_row list \<Rightarrow> storage_error + record_row list" where
  "upsert_category m ts c table =
     (let rows = take MAX_TRANSACTION_RECORDS_PER_CATEGORY
                   (js_sort compareTransactionRecordCandidates (map (record_row_of m c) ts));
          candidates = (case getCurrentRecordMinimum c table of
             None \<Rightarrow> rows
           | Some currentMinimum \<Rightarrow> filter (\<lambda>r. currentMinimum \<le> signed_val (rr_value r)) rows) in
      if candidates = [] then Inr table
      else bind_result (insertTransactionRecordRows candidates table) (\<lambda>inserted.
           Inr (pruneTransactionRecords c inserted)))"

definition upsertTransactionRecords ::
  "block_metrics \<Rightarrow> inspected_transaction list \<Rightarrow> record_row list \<Rightarrow> storage_error + record_row list" where
  "upsertTransactionRecords m ts table =
     (if ts = [] then Inr table
      else fold_result (upsert_category m ts) TRANSACTION_RECORD_CATEGORIES table)"

section \<open>The scanner's state\<close>

definition LAST_SUCCESSFUL_BLOCK_KEY :: string where
  "LAST_SUCCESSFUL_BLOCK_KEY = ''last_successful_block''"

definition BACKFILL_NEXT_BLOCK_KEY :: string where
  "BACKFILL_NEXT_BLOCK_KEY = ''backfill_next_block''"

definition LATEST_OBSERVED_BLOCK_KEY :: string where
  "LATEST_OBSERVED_BLOCK_KEY = ''latest_observed_block''"

definition SAFE_HEAD_BLOCK_KEY :: string where
  "SAFE_HEAD_BLOCK_KEY = ''safe_head_block''"

definition LATEST_OBSERVED_AT_KEY :: string where
  "LATEST_OBSERVED_AT_KEY = ''latest_observed_at''"

definition GENESIS_HASH_KEY :: string where
  "GENESIS_HASH_KEY = ''genesis_hash''"

definition getStateValue :: "string \<Rightarrow> store \<Rightarrow> string option" where
  "getStateValue key s = map_get (st_state s) key"

definition getStateBigInt :: "string \<Rightarrow> store \<Rightarrow> storage_error + int option" where
  "getStateBigInt key s =
     (case getStateValue key s of
        None \<Rightarrow> Inr None
      | Some v \<Rightarrow> (case BigInt_of v of Some i \<Rightarrow> Inr (Some i) | None \<Rightarrow> Inl (BadStateNumber v)))"

definition upsertStateValue :: "string \<Rightarrow> string \<Rightarrow> store \<Rightarrow> store" where
  "upsertStateValue key v s = s\<lparr>st_state := map_set key v (st_state s)\<rparr>"

definition getLastSuccessfulBlock :: "store \<Rightarrow> storage_error + int option" where
  "getLastSuccessfulBlock s = getStateBigInt LAST_SUCCESSFUL_BLOCK_KEY s"

definition getBackfillNextBlock :: "store \<Rightarrow> storage_error + int option" where
  "getBackfillNextBlock s = getStateBigInt BACKFILL_NEXT_BLOCK_KEY s"

definition saveChainProgress :: "int \<Rightarrow> int \<Rightarrow> string \<Rightarrow> store \<Rightarrow> store" where
  "saveChainProgress latestObservedBlock safeHeadBlock observedAtIso s =
     upsertStateValue LATEST_OBSERVED_AT_KEY observedAtIso
       (upsertStateValue SAFE_HEAD_BLOCK_KEY (int_to_dec safeHeadBlock)
         (upsertStateValue LATEST_OBSERVED_BLOCK_KEY (int_to_dec latestObservedBlock) s))"

datatype progress_update =
    LastSuccessfulBlock
  | BackfillNextBlock int
  | NoProgress

definition applyProgressUpdate :: "block_metrics \<Rightarrow> progress_update \<Rightarrow> store \<Rightarrow> store" where
  "applyProgressUpdate m progressUpdate s =
     (case progressUpdate of
        LastSuccessfulBlock \<Rightarrow> upsertStateValue LAST_SUCCESSFUL_BLOCK_KEY (int_to_dec (bm_blockNumber m)) s
      | BackfillNextBlock nextBlock \<Rightarrow> upsertStateValue BACKFILL_NEXT_BLOCK_KEY (int_to_dec nextBlock) s
      | NoProgress \<Rightarrow> s)"

text \<open>
  One transaction: on an error nothing of it remains. \<open>transactions\<close> and \<open>balances\<close> are \<open>None\<close> where
  their tracking is off.
\<close>

definition saveBlockMetrics ::
  "block_metrics \<Rightarrow> progress_update \<Rightarrow> inspected_transaction list option \<Rightarrow> inspected_transaction list \<Rightarrow>
   tx_operations list option \<Rightarrow> (string, int) jsmap option \<Rightarrow> store \<Rightarrow> storage_error + store" where
  "saveBlockMetrics m progressUpdate transactions recordCandidates operations balances s =
     (let s1 = s\<lparr>st_blocks := upsert_block m (st_blocks s)\<rparr> in
      bind_result (case transactions of
          None \<Rightarrow> Inr s1
        | Some ts \<Rightarrow> bind_result (replaceTransactionsForBlock m ts s1) (replaceOperationsForBlock m operations)) (\<lambda>s2.
      bind_result (case balances of None \<Rightarrow> Inr s2 | Some bs \<Rightarrow> replaceBalancesForBlock m bs s2) (\<lambda>s3.
      bind_result (upsertTransactionRecords m recordCandidates
          (deleteTransactionRecordsForBlock (bm_blockNumber m) (st_records s3))) (\<lambda>records.
      let s4 = applyProgressUpdate m progressUpdate (s3\<lparr>st_records := records\<rparr>) in
      Inr (s4\<lparr>st_notified := st_notified s4 @ [BlockStored (bm_blockNumber m)]\<rparr>)))))"

section \<open>The genesis binding\<close>

text \<open>The node's hash, the recorded one and that of the stored block 0: those present must agree.\<close>

definition assertStoredGenesisHash :: "string option \<Rightarrow> store \<Rightarrow> storage_error + unit" where
  "assertStoredGenesisHash expected s =
     (let recorded = getStateValue GENESIS_HASH_KEY s;
          stored = map_option to_lower (Option.bind (map_get (st_blocks s) 0) sb_blockHash);
          claims = List.map_filter id [expected, recorded, stored] in
      case claims of
        [] \<Rightarrow> Inr ()
      | first # rest \<Rightarrow> if list_all (\<lambda>h. h = first) rest then Inr () else Inl IncompatibleDatabase)"

definition bindGenesisHash :: "string \<Rightarrow> store \<Rightarrow> storage_error + store" where
  "bindGenesisHash genesisHash s =
     (let expected = to_lower genesisHash in
      bind_result (assertStoredGenesisHash (Some expected) s) (\<lambda>_.
      let s' = (case getStateValue GENESIS_HASH_KEY s of
                  Some _ \<Rightarrow> s | None \<Rightarrow> upsertStateValue GENESIS_HASH_KEY expected s) in
      bind_result (assertStoredGenesisHash (Some expected) s') (\<lambda>_. Inr s')))"

section \<open>Stored block numbers\<close>

definition MAX_BLOCKS_PER_QUERY :: int where
  "MAX_BLOCKS_PER_QUERY = 10000"

definition resolveLimit :: "int option \<Rightarrow> int \<Rightarrow> int" where
  "resolveLimit requested hardMax =
     (case requested of None \<Rightarrow> hardMax | Some r \<Rightarrow> if r < 1 then 1 else min r hardMax)"

definition stored_numbers :: "store \<Rightarrow> int list" where
  "stored_numbers s = sort (map fst (st_blocks s))"

definition getMinStoredBlock :: "store \<Rightarrow> int option" where
  "getMinStoredBlock s = (case stored_numbers s of [] \<Rightarrow> None | n # ns \<Rightarrow> Some n)"

definition getMaxStoredBlock :: "store \<Rightarrow> int option" where
  "getMaxStoredBlock s = (if stored_numbers s = [] then None else Some (last (stored_numbers s)))"

record block_gap =
  gapStart :: int
  gapEnd :: int
  missingCount :: int

text \<open>\<open>LEAD\<close>: each stored number with the next one.\<close>

fun adjacent_gaps :: "int list \<Rightarrow> block_gap list" where
  "adjacent_gaps (a # b # ns) =
     (if b > a + 1
      then \<lparr>gapStart = a + 1, gapEnd = b - 1, missingCount = (b - 1) - (a + 1) + 1\<rparr> # adjacent_gaps (b # ns)
      else adjacent_gaps (b # ns))"
| "adjacent_gaps _ = []"

definition findBlockGaps :: "int \<Rightarrow> store \<Rightarrow> block_gap list" where
  "findBlockGaps limit s =
     take (nat (resolveLimit (Some limit) MAX_BLOCKS_PER_QUERY)) (adjacent_gaps (stored_numbers s))"

section \<open>Queries on blocks and balances\<close>

text \<open>An absent order is descending. ISO dates are ASCII, so their order in SQL is that of their bytes.\<close>

datatype query_order = Asc | Desc

record block_query_filter =
  bf_blockGt :: "int option"
  bf_blockLt :: "int option"
  bf_dateGt :: "string option"
  bf_dateLt :: "string option"
  bf_limit :: "int option"
  bf_order :: "query_order option"

definition no_block_filter :: block_query_filter where
  "no_block_filter = \<lparr>bf_blockGt = None, bf_blockLt = None, bf_dateGt = None, bf_dateLt = None,
     bf_limit = None, bf_order = None\<rparr>"

definition resolveQueryOrder :: "query_order option \<Rightarrow> query_order" where
  "resolveQueryOrder order = (if order = Some Asc then Asc else Desc)"

text \<open>A clause that is present must hold.\<close>

definition clause :: "'a option \<Rightarrow> ('a \<Rightarrow> bool) \<Rightarrow> bool" where
  "clause v p = (case v of None \<Rightarrow> True | Some x \<Rightarrow> p x)"

definition queryBlocks :: "block_query_filter \<Rightarrow> store \<Rightarrow> stored_block list" where
  "queryBlocks f s =
     (let rows = map (\<lambda>n. the (map_get (st_blocks s) n)) (stored_numbers s);
          found = filter (\<lambda>b. clause (bf_blockGt f) (\<lambda>v. sb_blockNumber b > v) \<and>
                    clause (bf_blockLt f) (\<lambda>v. sb_blockNumber b < v) \<and>
                    clause (bf_dateGt f) (\<lambda>v. text_less v (sb_blockDate b)) \<and>
                    clause (bf_dateLt f) (\<lambda>v. text_less (sb_blockDate b) v)) rows in
      take (nat (resolveLimit (bf_limit f) MAX_BLOCKS_PER_QUERY))
        (if resolveQueryOrder (bf_order f) = Asc then found else rev found))"

definition getBlocksForRange :: "int \<Rightarrow> int \<Rightarrow> store \<Rightarrow> range_error + stored_block list" where
  "getBlocksForRange rangeStart rangeSize s =
     bind_result (assertSupportedRangeSize rangeSize) (\<lambda>_.
       if rangeStart < 0 \<or> big_mod rangeStart rangeSize \<noteq> 0 then Inl (BadRangeStart rangeStart)
       else bind_result (rangeEndFor rangeStart rangeSize) (\<lambda>rangeEnd.
         Inr (queryBlocks (no_block_filter\<lparr>bf_blockGt := Some (rangeStart - 1), bf_blockLt := Some (rangeEnd + 1)\<rparr>) s)))"

definition balances_of :: "string \<Rightarrow> store \<Rightarrow> balance_row list" where
  "balances_of address s =
     js_sort (\<lambda>a b. bw_blockNumber b - bw_blockNumber a)
       (filter (\<lambda>r. bw_address r = to_lower address) (st_balances s))"

definition getBalanceAt :: "string \<Rightarrow> int \<Rightarrow> store \<Rightarrow> balance_row option" where
  "getBalanceAt address upToBlock s =
     (case filter (\<lambda>r. bw_blockNumber r \<le> upToBlock) (balances_of address s) of
        [] \<Rightarrow> None | r # rs \<Rightarrow> Some r)"

definition getMinBalanceBlock :: "store \<Rightarrow> int option" where
  "getMinBalanceBlock s =
     (if st_balances s = [] then None else Some (Min (set (map bw_blockNumber (st_balances s)))))"

section \<open>Stored ranges\<close>

definition saveBlockRange :: "block_range_metrics \<Rightarrow> store \<Rightarrow> range_error + store" where
  "saveBlockRange m s =
     bind_result (assertSupportedRangeSize (rm_rangeSize m)) (\<lambda>_.
       Inr (s\<lparr>st_ranges := map_set (rm_rangeSize m, rm_rangeStart m) m (st_ranges s)\<rparr>))"

definition isBlockRangeComplete :: "int \<Rightarrow> int \<Rightarrow> store \<Rightarrow> range_error + bool" where
  "isBlockRangeComplete rangeStart rangeSize s =
     bind_result (assertSupportedRangeSize rangeSize) (\<lambda>_.
       if rangeStart < 0 \<or> big_mod rangeStart rangeSize \<noteq> 0 then Inl (BadRangeStart rangeStart)
       else Inr (map_get (st_ranges s) (rangeSize, rangeStart) \<noteq> None))"

definition complete_starts :: "int \<Rightarrow> store \<Rightarrow> int list" where
  "complete_starts rangeSize s =
     sort (map (\<lambda>(k, m). snd k) (filter (\<lambda>(k, m). fst k = rangeSize) (st_ranges s)))"

text \<open>The rows whose place in the order is where an unbroken run from the first start would put them.\<close>

definition contiguous_starts :: "int \<Rightarrow> int \<Rightarrow> int list \<Rightarrow> int list" where
  "contiguous_starts rangeSize from starts =
     map snd (filter (\<lambda>(i, start). start = from + int i * rangeSize) (enumerate 0 starts))"

definition last_option :: "'a list \<Rightarrow> 'a option" where
  "last_option xs = (if xs = [] then None else Some (last xs))"

definition getLatestCompleteRangeStart :: "int \<Rightarrow> int option \<Rightarrow> store \<Rightarrow> range_error + int option" where
  "getLatestCompleteRangeStart rangeSize fromRangeStart s =
     bind_result (assertSupportedRangeSize rangeSize) (\<lambda>_.
       case fromRangeStart of
         None \<Rightarrow> Inr (last_option (complete_starts rangeSize s))
       | Some from \<Rightarrow>
           if from < 0 \<or> big_mod from rangeSize \<noteq> 0 then Inl (BadRangeStart from)
           else Inr (last_option (contiguous_starts rangeSize from
                  (filter (\<lambda>start. from \<le> start) (complete_starts rangeSize s)))))"

definition aggregateRangeIfComplete ::
  "(string \<Rightarrow> 'n option) \<Rightarrow> ('n list \<Rightarrow> string) \<Rightarrow> int \<Rightarrow> int \<Rightarrow> store \<Rightarrow> range_error + (block_range_metrics option \<times> store)" where
  "aggregateRangeIfComplete number mean rangeStart rangeSize s =
     bind_result (assertSupportedRangeSize rangeSize) (\<lambda>_.
     bind_result (getBlocksForRange rangeStart rangeSize s) (\<lambda>blocks.
       if int (length blocks) \<noteq> rangeSize then Inr (None, s)
       else bind_result (computeBlockRange number mean rangeStart rangeSize blocks) (\<lambda>m.
            bind_result (saveBlockRange m s) (\<lambda>s'. Inr (Some m, s')))))"

section \<open>Blocks whose batcher metrics are missing\<close>

text \<open>\<open>new Date(now - age).toISOString()\<close>; a clock outside the range of dates does not occur.\<close>

definition date_before :: "int \<Rightarrow> int \<Rightarrow> string" where
  "date_before now age = (case toISOString (now - age) of Some d \<Rightarrow> d | None \<Rightarrow> [])"

definition queryRecentBlocksMissingBatcherMetrics :: "int \<Rightarrow> int \<Rightarrow> store \<Rightarrow> stored_block list" where
  "queryRecentBlocksMissingBatcherMetrics now limit s =
     (let newestEligible = date_before now 2000;
          oldestEligible = date_before now 3600000;
          numbers = take (nat (resolveLimit (Some limit) MAX_BLOCKS_PER_QUERY))
            (filter (\<lambda>n. case map_get (st_blocks s) n of
                None \<Rightarrow> False
              | Some b \<Rightarrow> text_less oldestEligible (sb_blockDate b) \<and> text_less (sb_blockDate b) newestEligible \<and>
                  sb_batcherQueueSize b = None) (rev (stored_numbers s))) in
      concat (map (\<lambda>n. queryBlocks (no_block_filter\<lparr>bf_blockGt := Some (n - 1), bf_blockLt := Some (n + 1),
                          bf_limit := Some 1\<rparr>) s) numbers))"

end
