(* ===== verification/StorageFacts.thy ===== *)
theory StorageFacts
  imports Storage "HOL-Library.Product_Lexorder"
begin

text \<open>
  What a write leaves in the database: rows of a block are replaced whole, records stay the top of
  everything offered although the code only looks at the rows that can still enter, the gap query
  finds exactly the missing numbers, and a database stays bound to its first chain.
\<close>

section \<open>Ranks\<close>

text \<open>
  The first \<open>n\<close> rows of an order are those with fewer than \<open>n\<close> rows before them; dropping rows that
  have \<open>n\<close> kept rows before them changes nothing.
\<close>

locale strict_ranking =
  fixes before :: "'a \<Rightarrow> 'a \<Rightarrow> bool"
  assumes before_irrefl: "\<not> before x x"
    and before_trans: "before x y \<Longrightarrow> before y z \<Longrightarrow> before x z"
begin

definition top_of :: "nat \<Rightarrow> 'a set \<Rightarrow> 'a set" where
  "top_of n S = {x \<in> S. card {y \<in> S. before y x} < n}"

lemma top_of_dropped:
  assumes "finite S" "D \<subseteq> S" "\<And>x. x \<in> S - D \<Longrightarrow> n \<le> card {y \<in> D. before y x}"
  shows "top_of n S = top_of n D"
proof -
  have fin: "finite {y \<in> S. before y x}" for x using assms(1) by simp
  have sub: "card {y \<in> D. before y x} \<le> card {y \<in> S. before y x}" for x
    by (rule card_mono [OF fin]) (use assms(2) in auto)
  have same: "{y \<in> S. before y x} = {y \<in> D. before y x}" if "card {y \<in> D. before y x} < n" for x
  proof (rule ccontr)
    assume "{y \<in> S. before y x} \<noteq> {y \<in> D. before y x}"
    then obtain y where y: "y \<in> S - D" "before y x" using assms(2) by auto
    have "{z \<in> D. before z y} \<subseteq> {z \<in> D. before z x}" using y(2) before_trans by blast
    moreover have "finite {z \<in> D. before z x}" using assms(1,2) by (simp add: finite_subset)
    ultimately have "card {z \<in> D. before z y} \<le> card {z \<in> D. before z x}" by (rule card_mono [rotated])
    with assms(3) [OF y(1)] that show False by simp
  qed
  show ?thesis
  proof (rule set_eqI)
    fix x
    show "x \<in> top_of n S \<longleftrightarrow> x \<in> top_of n D"
    proof (cases "x \<in> D")
      case True
      then show ?thesis using sub [of x] same [of x] assms(2) by (auto simp: top_of_def)
    next
      case False
      then show ?thesis using sub [of x] assms(3) [of x] by (force simp: top_of_def)
    qed
  qed
qed

lemma sorted_take_top:
  assumes "sorted_wrt before xs"
  shows "set (take n xs) = top_of n (set xs)"
proof -
  have before_nth: "{y \<in> set xs. before y (xs ! i)} = set (take i xs)" if "i < length xs" for i
  proof -
    have lt: "before (xs ! j) (xs ! k)" if "j < k" "k < length xs" for j k
      using assms that by (simp add: sorted_wrt_iff_nth_less)
    show ?thesis
    proof (rule set_eqI, rule iffI)
      fix y assume "y \<in> {y \<in> set xs. before y (xs ! i)}"
      then obtain j where j: "j < length xs" "y = xs ! j" "before (xs ! j) (xs ! i)" by (auto simp: in_set_conv_nth)
      have "j < i"
      proof (rule ccontr)
        assume "\<not> j < i"
        then consider "j = i" | "i < j" by linarith
        then show False
          by cases (use j lt [of i j] before_irrefl before_trans in blast)+
      qed
      then show "y \<in> set (take i xs)" using j by (auto simp: in_set_conv_nth)
    next
      fix y assume "y \<in> set (take i xs)"
      then obtain j where "j < i" "y = xs ! j" by (auto simp: in_set_conv_nth)
      then show "y \<in> {y \<in> set xs. before y (xs ! i)}" using lt [of j i] that by auto
    qed
  qed
  have dist: "distinct xs"
    using assms before_irrefl by (auto simp: distinct_conv_nth sorted_wrt_iff_nth_less) (metis linorder_neqE_nat)
  have rank: "card {y \<in> set xs. before y (xs ! i)} = i" if "i < length xs" for i
    using before_nth [OF that] that dist by (simp add: distinct_card distinct_take)
  show ?thesis
  proof (rule set_eqI)
    fix x
    show "x \<in> set (take n xs) \<longleftrightarrow> x \<in> top_of n (set xs)"
    proof
      assume "x \<in> set (take n xs)"
      then obtain i where i: "i < length xs" "i < n" "x = xs ! i" by (auto simp: in_set_conv_nth)
      then show "x \<in> top_of n (set xs)" using rank [of i] by (auto simp: top_of_def)
    next
      assume "x \<in> top_of n (set xs)"
      then obtain i where i: "i < length xs" "x = xs ! i" "card {y \<in> set xs. before y (xs ! i)} < n"
        by (auto simp: top_of_def in_set_conv_nth)
      then have "i < n" using rank by simp
      then show "x \<in> set (take n xs)" using i by (auto simp: in_set_conv_nth)
    qed
  qed
qed

end

text \<open>The order of records, as a relation on their sort key.\<close>

definition record_rank :: "record_row \<Rightarrow> int \<times> int \<times> nat" where
  "record_rank r = (signed_val (rr_value r), rr_blockNumber r, it_position (rr_transaction r))"

definition record_before :: "record_row \<Rightarrow> record_row \<Rightarrow> bool" where
  "record_before a b \<longleftrightarrow> record_order a b < 0"

lemma record_before_rank: "record_before a b \<longleftrightarrow> record_rank b < record_rank a"
  by (auto simp: record_before_def record_order_def record_rank_def less_prod_def)

lemma record_order_le: "record_order a b \<le> 0 \<longleftrightarrow> record_rank b \<le> record_rank a"
  by (auto simp: record_order_def record_rank_def less_eq_prod_def)

interpretation records_sort: js_comparator record_order
  by unfold_locales (auto simp: record_order_le)

interpretation records: strict_ranking record_before
  by unfold_locales (auto simp: record_before_rank)

definition top_records :: "record_row set \<Rightarrow> record_row set" where
  "top_records = records.top_of MAX_TRANSACTION_RECORDS_PER_CATEGORY"

text \<open>Rows of one table have distinct keys, so within a category they have distinct ranks.\<close>

definition ranked :: "record_row list \<Rightarrow> bool" where
  "ranked rows \<longleftrightarrow> distinct (map record_rank rows)"

lemma sort_strict:
  assumes "ranked rows"
  shows "sorted_wrt record_before (js_sort record_order rows)"
proof -
  have le: "sorted_wrt (\<lambda>a b. record_rank b \<le> record_rank a) (js_sort record_order rows)"
    using records_sort.sorted_js_sort [of rows] by (simp add: record_order_le)
  have "mset (map record_rank (js_sort record_order rows)) = mset (map record_rank rows)" by simp
  then have "distinct (map record_rank (js_sort record_order rows))"
    using assms unfolding ranked_def by (metis mset_eq_imp_distinct_iff)
  with le show ?thesis
    by (fastforce simp: sorted_wrt_iff_nth_less record_before_rank distinct_conv_nth order.strict_iff_order)
qed

lemma take_sorted_top:
  "ranked rows \<Longrightarrow> set (take MAX_TRANSACTION_RECORDS_PER_CATEGORY (js_sort record_order rows)) = top_records (set rows)"
  using records.sorted_take_top [OF sort_strict] by (simp add: top_records_def)

section \<open>Records\<close>

lemma js_insert_cong:
  "(\<And>y. y \<in> set ys \<Longrightarrow> cmp x y = cmp' x y) \<Longrightarrow> js_insert cmp x ys = js_insert cmp' x ys"
  by (induction ys) auto

lemma js_sort_cong:
  "(\<And>x y. x \<in> set xs \<Longrightarrow> y \<in> set xs \<Longrightarrow> cmp x y = cmp' x y) \<Longrightarrow> js_sort cmp xs = js_sort cmp' xs"
proof (induction xs)
  case (Cons x xs)
  have "js_sort cmp xs = js_sort cmp' xs" using Cons by simp
  moreover have "js_insert cmp x (js_sort cmp' xs) = js_insert cmp' x (js_sort cmp' xs)"
    by (rule js_insert_cong) (use Cons.prems in auto)
  ultimately show ?case by simp
qed simp

definition records_ok :: "record_row list \<Rightarrow> bool" where
  "records_ok table \<longleftrightarrow> distinct (map record_key table) \<and>
     (\<forall>c. length (in_category c table) \<le> MAX_TRANSACTION_RECORDS_PER_CATEGORY)"

lemma keys_ranked:
  assumes "distinct (map record_key table)"
  shows "ranked (in_category c table)"
proof -
  have "distinct (map record_key (in_category c table))"
    using assms by (simp add: in_category_def distinct_map_filter)
  moreover have "inj_on record_rank (set (in_category c table))" if "distinct (map record_key (in_category c table))"
    using that by (auto simp: inj_on_def in_category_def record_rank_def record_key_def distinct_map)
  ultimately show ?thesis by (auto simp: ranked_def distinct_map)
qed

lemma top_records_all:
  assumes "ranked rows" "length rows \<le> MAX_TRANSACTION_RECORDS_PER_CATEGORY"
  shows "top_records (set rows) = set rows"
  using take_sorted_top [OF assms(1)] assms(2) by simp

lemma prune_in_category:
  assumes "distinct (map record_key table)"
  shows "set (in_category c (pruneTransactionRecords c table)) = top_records (set (in_category c table))"
    "d \<noteq> c \<Longrightarrow> in_category d (pruneTransactionRecords c table) = in_category d table"
    "length (in_category c (pruneTransactionRecords c table)) \<le> MAX_TRANSACTION_RECORDS_PER_CATEGORY"
    "distinct (map record_key (pruneTransactionRecords c table))"
proof -
  let ?N = MAX_TRANSACTION_RECORDS_PER_CATEGORY
  define kept where "kept = take ?N (js_sort record_order (in_category c table))"
  have kept: "set kept = top_records (set (in_category c table))"
    unfolding kept_def by (rule take_sorted_top [OF keys_ranked [OF assms]])
  have sub: "set kept \<subseteq> set (in_category c table)"
    unfolding kept_def by (metis set_js_sort set_take_subset)
  have p: "pruneTransactionRecords c table =
      filter (\<lambda>r. rr_category r = c \<longrightarrow> record_key r \<in> set (map record_key kept)) table"
    by (simp add: pruneTransactionRecords_def kept_def Let_def)
  have inj: "inj_on record_key (set table)" using assms by (simp add: distinct_map)
  have mem: "r \<in> set table \<Longrightarrow> record_key r \<in> set (map record_key kept) \<longleftrightarrow> r \<in> set kept" for r
    using inj sub by (auto simp: inj_on_def in_category_def)
  show eq: "set (in_category c (pruneTransactionRecords c table)) = top_records (set (in_category c table))"
  proof -
    have "set (in_category c (pruneTransactionRecords c table)) =
        {r \<in> set table. rr_category r = c \<and> record_key r \<in> set (map record_key kept)}"
      by (auto simp: p in_category_def)
    also have "\<dots> = {r \<in> set table. rr_category r = c \<and> r \<in> set kept}" using mem by blast
    also have "\<dots> = set kept" using sub by (auto simp: in_category_def)
    finally show ?thesis using kept by simp
  qed
  show "d \<noteq> c \<Longrightarrow> in_category d (pruneTransactionRecords c table) = in_category d table"
    by (auto simp: p in_category_def intro!: filter_cong)
  show dist: "distinct (map record_key (pruneTransactionRecords c table))"
    using assms by (simp add: p distinct_map_filter)
  have "distinct (in_category c (pruneTransactionRecords c table))"
    using dist by (auto simp: in_category_def distinct_map intro: distinct_filter)
  then have "length (in_category c (pruneTransactionRecords c table)) = card (set kept)"
    using eq kept by (metis distinct_card)
  also have "\<dots> \<le> length kept" by (rule card_length)
  also have "\<dots> \<le> ?N" by (simp add: kept_def)
  finally show "length (in_category c (pruneTransactionRecords c table)) \<le> ?N" .
qed

lemma candidates_sort:
  "js_sort compareTransactionRecordCandidates (map (record_row_of m c) ts) =
     js_sort record_order (map (record_row_of m c) ts)"
  by (rule js_sort_cong)
     (auto simp: compareTransactionRecordCandidates_def record_order_def record_row_of_def Let_def)

definition new_records :: "block_metrics \<Rightarrow> inspected_transaction list \<Rightarrow> record_category \<Rightarrow> record_row list" where
  "new_records m ts c = map (record_row_of m c) ts"

lemma new_records_keys:
  "distinct (map it_position ts) \<Longrightarrow> distinct (map record_key (new_records m ts c))"
  by (auto simp: new_records_def distinct_map inj_on_def record_key_def record_row_of_def)

lemma in_category_new [simp]: "in_category c (new_records m ts c) = new_records m ts c"
  by (auto simp: in_category_def new_records_def record_row_of_def)

lemma not_before_kept:
  assumes "ranked rows" "x \<in> set rows" "x \<notin> top_records (set rows)"
  shows "MAX_TRANSACTION_RECORDS_PER_CATEGORY \<le> card {y \<in> top_records (set rows). record_before y x}"
proof -
  let ?N = MAX_TRANSACTION_RECORDS_PER_CATEGORY
  define xs where "xs = js_sort record_order rows"
  have sorted: "sorted_wrt record_before xs" unfolding xs_def by (rule sort_strict [OF assms(1)])
  have top: "set (take ?N xs) = top_records (set rows)"
    unfolding xs_def by (rule take_sorted_top [OF assms(1)])
  have "x \<in> set (drop ?N xs)"
    using assms(2,3) top append_take_drop_id [of ?N xs] unfolding xs_def by (metis Un_iff set_append set_js_sort)
  then have len: "?N < length xs" and "\<forall>y \<in> set (take ?N xs). record_before y x"
    using sorted append_take_drop_id [of ?N xs] sorted_wrt_append [of record_before "take ?N xs" "drop ?N xs"]
    by (auto, cases "?N < length xs", auto)
  then have "{y \<in> top_records (set rows). record_before y x} = set (take ?N xs)" using top by auto
  moreover have "distinct xs"
  proof -
    have "distinct rows" using assms(1) by (auto simp: ranked_def distinct_map)
    moreover have "mset xs = mset rows" unfolding xs_def by simp
    ultimately show ?thesis by (metis mset_eq_imp_distinct_iff)
  qed
  ultimately show ?thesis using len by (simp add: distinct_card distinct_take)
qed

lemma minimum_before:
  assumes "getCurrentRecordMinimum c table = Some k" "ranked (in_category c table)" "signed_val (rr_value x) < k"
  shows "MAX_TRANSACTION_RECORDS_PER_CATEGORY \<le> card {y \<in> set (in_category c table). record_before y x}"
proof -
  let ?N = MAX_TRANSACTION_RECORDS_PER_CATEGORY
  define xs where "xs = js_sort record_order (in_category c table)"
  have len: "?N - 1 < length xs" and k: "k = signed_val (rr_value (xs ! (?N - 1)))"
    using assms(1) by (auto simp: getCurrentRecordMinimum_def xs_def Let_def split: if_splits)
  have N: "0 < ?N" by (simp add: MAX_TRANSACTION_RECORDS_PER_CATEGORY_def)
  have sorted: "sorted_wrt record_before xs" unfolding xs_def by (rule sort_strict [OF assms(2)])
  have before: "record_before y x" if y: "y \<in> set (take ?N xs)" for y
  proof -
    from y obtain i where i: "i < ?N" "i < length xs" "y = xs ! i" by (auto simp: in_set_conv_nth)
    have "record_rank (xs ! (?N - 1)) \<le> record_rank y"
    proof (cases "i = ?N - 1")
      case False
      then have "record_before y (xs ! (?N - 1))"
        using sorted i len N by (auto simp: sorted_wrt_iff_nth_less)
      then show ?thesis by (simp add: record_before_rank)
    qed (simp add: i)
    then have "k \<le> signed_val (rr_value y)" by (auto simp: record_rank_def less_eq_prod_def k)
    then show ?thesis using assms(3) by (auto simp: record_before_rank record_rank_def less_prod_def)
  qed
  have "distinct (in_category c table)" using assms(2) by (auto simp: ranked_def distinct_map)
  then have "distinct xs" unfolding xs_def by (metis mset_js_sort mset_eq_imp_distinct_iff)
  then have "card (set (take ?N xs)) = ?N" using len N by (simp add: distinct_card distinct_take)
  moreover have "set (take ?N xs) \<subseteq> {y \<in> set (in_category c table). record_before y x}"
    using before set_take_subset [of ?N xs] by (auto simp: xs_def)
  ultimately show ?thesis by (metis (no_types, lifting) List.finite_set card_mono finite_subset mem_Collect_eq subsetI)
qed

text \<open>The candidates of a category: dropping the other offered rows loses no record.\<close>

definition record_candidates ::
  "block_metrics \<Rightarrow> inspected_transaction list \<Rightarrow> record_category \<Rightarrow> record_row list \<Rightarrow> record_row list" where
  "record_candidates m ts c table =
     (let rows = take MAX_TRANSACTION_RECORDS_PER_CATEGORY (js_sort record_order (new_records m ts c)) in
      case getCurrentRecordMinimum c table of None \<Rightarrow> rows
      | Some k \<Rightarrow> filter (\<lambda>r. k \<le> signed_val (rr_value r)) rows)"

lemma upsert_category_candidates:
  "upsert_category m ts c table =
     (if record_candidates m ts c table = [] then Inr table
      else bind_result (insertTransactionRecordRows (record_candidates m ts c table) table) (\<lambda>inserted.
           Inr (pruneTransactionRecords c inserted)))"
  unfolding upsert_category_def candidates_sort record_candidates_def new_records_def by (simp only: Let_def)

lemma record_candidates_subset: "set (record_candidates m ts c table) \<subseteq> set (new_records m ts c)"
proof -
  have "set (take MAX_TRANSACTION_RECORDS_PER_CATEGORY (js_sort record_order (new_records m ts c))) \<subseteq> set (new_records m ts c)"
    by (metis set_js_sort set_take_subset)
  then show ?thesis by (auto simp: record_candidates_def Let_def split: option.splits)
qed

lemma candidates_lose_nothing:
  assumes "ranked (in_category c table)" "ranked (new_records m ts c)"
  shows "top_records (set (in_category c table) \<union> set (new_records m ts c)) =
    top_records (set (in_category c table) \<union> set (record_candidates m ts c table))"
  unfolding top_records_def
proof (rule records.top_of_dropped)
  let ?N = MAX_TRANSACTION_RECORDS_PER_CATEGORY
  let ?R = "set (in_category c table)" and ?C = "set (record_candidates m ts c table)"
  show "finite (?R \<union> set (new_records m ts c))" by simp
  show "?R \<union> ?C \<subseteq> ?R \<union> set (new_records m ts c)" using record_candidates_subset by blast
  fix x assume x: "x \<in> (?R \<union> set (new_records m ts c)) - (?R \<union> ?C)"
  have top: "set (take ?N (js_sort record_order (new_records m ts c))) = top_records (set (new_records m ts c))"
    by (rule take_sorted_top [OF assms(2)])
  have kept: "?C = {r \<in> top_records (set (new_records m ts c)).
      \<forall>k. getCurrentRecordMinimum c table = Some k \<longrightarrow> k \<le> signed_val (rr_value r)}"
    using top by (auto simp: record_candidates_def Let_def split: option.splits)
  have mono: "card {y \<in> A. record_before y x} \<le> card {y \<in> ?R \<union> ?C. record_before y x}" if "A \<subseteq> ?R \<union> ?C" for A
    by (rule card_mono) (use that in auto)
  have low: "?N \<le> card {y \<in> ?R \<union> ?C. record_before y x}"
    if "getCurrentRecordMinimum c table = Some k" "signed_val (rr_value x) < k" for k
    using minimum_before [OF that(1) assms(1) that(2)] mono [of ?R] by auto
  show "?N \<le> card {y \<in> ?R \<union> ?C. record_before y x}"
  proof (cases "x \<in> top_records (set (new_records m ts c))")
    case True
    then show ?thesis using x kept low by fastforce
  next
    case False
    then have many: "?N \<le> card {y \<in> top_records (set (new_records m ts c)). record_before y x}"
      using x not_before_kept [OF assms(2), of x] by blast
    show ?thesis
    proof (cases "{y \<in> top_records (set (new_records m ts c)). record_before y x} \<subseteq> ?C")
      case True
      then have "{y \<in> top_records (set (new_records m ts c)). record_before y x} = {y \<in> ?C. record_before y x}"
        using kept by auto
      then show ?thesis using many mono [of ?C] by simp
    next
      case False
      then obtain y k where y: "record_before y x" "getCurrentRecordMinimum c table = Some k" "signed_val (rr_value y) < k"
        using kept by fastforce
      then have "signed_val (rr_value x) < k"
        by (auto simp: record_before_rank record_rank_def less_prod_def)
      then show ?thesis using low y(2) by blast
    qed
  qed
qed

lemma in_category_append [simp]: "in_category c (xs @ ys) = in_category c xs @ in_category c ys"
  by (simp add: in_category_def)

lemma upsert_category_top:
  assumes ok: "records_ok table" and other: "\<forall>r \<in> set (in_category c table). rr_blockNumber r \<noteq> bm_blockNumber m"
    and pos: "distinct (map it_position ts)"
  shows "\<exists>table'. upsert_category m ts c table = Inr table' \<and> records_ok table' \<and>
    set (in_category c table') = top_records (set (in_category c table) \<union> set (new_records m ts c)) \<and>
    (\<forall>d. d \<noteq> c \<longrightarrow> in_category d table' = in_category d table)"
proof -
  let ?C = "record_candidates m ts c table"
  have dist: "distinct (map record_key table)" using ok by (simp add: records_ok_def)
  have keys_new: "distinct (map record_key (new_records m ts c))" by (rule new_records_keys [OF pos])
  have ranked: "ranked (in_category c table)" "ranked (new_records m ts c)"
    using keys_ranked [OF dist] keys_ranked [OF keys_new, of c] by simp_all
  note lossless = candidates_lose_nothing [OF ranked]
  show ?thesis
  proof (cases "?C = []")
    case True
    have "top_records (set (in_category c table)) = set (in_category c table)"
      by (rule top_records_all [OF ranked(1)]) (use ok in \<open>simp add: records_ok_def\<close>)
    then show ?thesis using True ok lossless by (simp add: upsert_category_candidates)
  next
    case False
    have new: "rr_category r = c \<and> rr_blockNumber r = bm_blockNumber m" if "r \<in> set ?C" for r
      using that record_candidates_subset [of m ts c table] by (auto simp: new_records_def record_row_of_def)
    have inC: "in_category c ?C = ?C" "\<And>d. d \<noteq> c \<Longrightarrow> in_category d ?C = []"
      using new by (auto simp: in_category_def filter_empty_conv intro!: filter_True)
    have dC: "distinct (map record_key ?C)"
    proof -
      have "distinct (map record_key (js_sort record_order (new_records m ts c)))"
        using keys_new by (metis mset_js_sort mset_map mset_eq_imp_distinct_iff)
      then show ?thesis
        by (auto simp: record_candidates_def Let_def take_map [symmetric] distinct_map_filter distinct_take
            split: option.splits)
    qed
    have fresh: "record_key r \<notin> set (map record_key ?C)" if "r \<in> set table" for r
    proof
      assume "record_key r \<in> set (map record_key ?C)"
      then obtain q where "q \<in> set ?C" "record_key r = record_key q" by auto
      then show False using new [of q] other that by (auto simp: record_key_def in_category_def)
    qed
    then have ins: "insertTransactionRecordRows ?C table = Inr (table @ ?C)"
      using dC by (auto simp: insertTransactionRecordRows_def)
    have dist': "distinct (map record_key (table @ ?C))"
      using dist dC fresh by (auto simp: disjoint_iff image_iff) (metis)
    let ?t = "pruneTransactionRecords c (table @ ?C)"
    have run: "upsert_category m ts c table = Inr ?t"
      using False by (simp add: upsert_category_candidates ins)
    have "set (in_category c ?t) = top_records (set (in_category c table) \<union> set ?C)"
      by (simp add: prune_in_category(1) [OF dist'] inC(1))
    moreover have others: "in_category d ?t = in_category d table" if "d \<noteq> c" for d
      by (simp add: prune_in_category(2) [OF dist' that] inC(2) [OF that])
    moreover have "records_ok ?t"
      unfolding records_ok_def
    proof (intro conjI allI)
      show "distinct (map record_key ?t)" by (rule prune_in_category(4) [OF dist'])
      fix d show "length (in_category d ?t) \<le> MAX_TRANSACTION_RECORDS_PER_CATEGORY"
        using prune_in_category(3) [OF dist', of c] others [of d] ok
        by (cases "d = c") (simp_all add: records_ok_def)
    qed
    ultimately show ?thesis using run lossless by auto
  qed
qed

lemma upsertTransactionRecords_top:
  assumes ok: "records_ok table" and other: "\<forall>r \<in> set table. rr_blockNumber r \<noteq> bm_blockNumber m"
    and pos: "distinct (map it_position ts)"
  shows "\<exists>table'. upsertTransactionRecords m ts table = Inr table' \<and> records_ok table' \<and>
    (\<forall>c. set (in_category c table') = top_records (set (in_category c table) \<union> set (new_records m ts c)))"
proof (cases "ts = []")
  case True
  have "top_records (set (in_category c table)) = set (in_category c table)" for c
    by (rule top_records_all) (use ok keys_ranked in \<open>auto simp: records_ok_def\<close>)
  then show ?thesis using True ok by (simp add: upsertTransactionRecords_def new_records_def)
next
  case False
  have blocks: "\<forall>r \<in> set (in_category c table). rr_blockNumber r \<noteq> bm_blockNumber m" for c
    using other by (auto simp: in_category_def)
  obtain t1 where t1: "upsert_category m ts GasUsed table = Inr t1" "records_ok t1"
    "set (in_category GasUsed t1) = top_records (set (in_category GasUsed table) \<union> set (new_records m ts GasUsed))"
    "\<forall>d. d \<noteq> GasUsed \<longrightarrow> in_category d t1 = in_category d table"
    using upsert_category_top [OF ok blocks pos] by blast
  have "\<forall>r \<in> set (in_category TransactionFee t1). rr_blockNumber r \<noteq> bm_blockNumber m"
    using blocks t1(4) by simp
  then obtain t2 where t2: "upsert_category m ts TransactionFee t1 = Inr t2" "records_ok t2"
    "set (in_category TransactionFee t2) = top_records (set (in_category TransactionFee t1) \<union> set (new_records m ts TransactionFee))"
    "\<forall>d. d \<noteq> TransactionFee \<longrightarrow> in_category d t2 = in_category d t1"
    using upsert_category_top [OF t1(2) _ pos] by blast
  have "\<forall>r \<in> set (in_category EffectiveFee t2). rr_blockNumber r \<noteq> bm_blockNumber m"
    using blocks t1(4) t2(4) by simp
  then obtain t3 where t3: "upsert_category m ts EffectiveFee t2 = Inr t3" "records_ok t3"
    "set (in_category EffectiveFee t3) = top_records (set (in_category EffectiveFee t2) \<union> set (new_records m ts EffectiveFee))"
    "\<forall>d. d \<noteq> EffectiveFee \<longrightarrow> in_category d t3 = in_category d t2"
    using upsert_category_top [OF t2(2) _ pos] by blast
  have "upsertTransactionRecords m ts table = Inr t3"
    using False t1(1) t2(1) t3(1) by (simp add: upsertTransactionRecords_def TRANSACTION_RECORD_CATEGORIES_def)
  moreover have "set (in_category c t3) = top_records (set (in_category c table) \<union> set (new_records m ts c))" for c
    using t1(3,4) t2(3,4) t3(3,4) by (cases c) simp_all
  ultimately show ?thesis using t3(2) by blast
qed

lemma delete_records_ok:
  assumes "records_ok table"
  shows "records_ok (deleteTransactionRecordsForBlock n table)"
proof -
  have "in_category c (deleteTransactionRecordsForBlock n table) =
      filter (\<lambda>r. rr_blockNumber r \<noteq> n) (in_category c table)" for c
    by (simp add: in_category_def deleteTransactionRecordsForBlock_def conj_commute)
  moreover have "distinct (map record_key (deleteTransactionRecordsForBlock n table))"
    using assms by (simp add: records_ok_def distinct_map_filter deleteTransactionRecordsForBlock_def)
  ultimately show ?thesis
    using assms unfolding records_ok_def by (metis length_filter_le order_trans)
qed

section \<open>One transaction\<close>

lemma insert_rows_Inr: "insert_rows key rows table = Inr t \<longleftrightarrow>
    distinct (map key rows) \<and> set (map key rows) \<inter> set (map key table) = {} \<and> t = table @ rows"
  by (auto simp: insert_rows_def)

text \<open>Replacing a block's rows a second time finds the same other rows and puts the same rows after them.\<close>

lemma replace_again:
  assumes "insert_rows key rows (filter (\<lambda>r. f r \<noteq> n) table) = Inr t" "\<forall>r \<in> set rows. f r = n"
  shows "insert_rows key rows (filter (\<lambda>r. f r \<noteq> n) t) = Inr t"
proof -
  have "filter (\<lambda>r. f r \<noteq> n) rows = []" using assms(2) by (simp add: filter_empty_conv)
  then have "filter (\<lambda>r. f r \<noteq> n) t = filter (\<lambda>r. f r \<noteq> n) table"
    using assms(1) by (simp add: insert_rows_Inr)
  then show ?thesis using assms(1) by simp
qed

lemma upsert_block_again: "upsert_block m (upsert_block m blocks) = upsert_block m blocks"
proof (cases "map_get blocks (bm_blockNumber m)")
  case None
  have "coalesce_row (new_row m) (new_row m) = new_row m"
    by (simp add: coalesce_row_def nullish_def split: option.splits)
  then show ?thesis using None by (simp add: upsert_block_def update_triv)
next
  case (Some old)
  have "coalesce_row (new_row m) (coalesce_row (new_row m) old) = coalesce_row (new_row m) old"
    by (simp add: coalesce_row_def nullish_def split: option.splits)
  then show ?thesis using Some by (simp add: upsert_block_def update_triv)
qed

lemma saveBlockMetrics_InrE:
  assumes "saveBlockMetrics m p ts cands ops bals s = Inr s'"
  obtains s2 s3 recs where
    "(case ts of None \<Rightarrow> Inr (s\<lparr>st_blocks := upsert_block m (st_blocks s)\<rparr>)
      | Some t \<Rightarrow> bind_result (replaceTransactionsForBlock m t (s\<lparr>st_blocks := upsert_block m (st_blocks s)\<rparr>))
          (replaceOperationsForBlock m ops)) = Inr s2"
    "(case bals of None \<Rightarrow> Inr s2 | Some bs \<Rightarrow> replaceBalancesForBlock m bs s2) = Inr s3"
    "upsertTransactionRecords m cands (deleteTransactionRecordsForBlock (bm_blockNumber m) (st_records s3)) = Inr recs"
    "s' = (applyProgressUpdate m p (s3\<lparr>st_records := recs\<rparr>))\<lparr>st_notified :=
       st_notified (applyProgressUpdate m p (s3\<lparr>st_records := recs\<rparr>)) @ [BlockStored (bm_blockNumber m)]\<rparr>"
  using assms by (auto simp: saveBlockMetrics_def Let_def bind_result_eq_Inr)

definition same_but_notified :: "store \<Rightarrow> store \<Rightarrow> bool" where
  "same_but_notified s t \<longleftrightarrow> t = s\<lparr>st_notified := st_notified t, st_records := st_records t\<rparr>"

lemma replaceTransactions_fields:
  "replaceTransactionsForBlock m t s = Inr s2 \<Longrightarrow>
   \<exists>logs rows. s2 = s\<lparr>st_logs := logs, st_transactions := rows\<rparr> \<and>
     replaceLogsForBlock (bm_blockNumber m) t (st_logs s) = Inr logs \<and>
     insert_rows (\<lambda>r. (tr_blockNumber r, it_position (tr_transaction r))) (map (tx_row_of m) t)
         (filter (\<lambda>r. tr_blockNumber r \<noteq> bm_blockNumber m) (st_transactions s)) = Inr rows"
  by (auto simp: replaceTransactionsForBlock_def bind_result_eq_Inr)

abbreviation op_rows :: "block_metrics \<Rightarrow> tx_operations list option \<Rightarrow> op_row list" where
  "op_rows m ops \<equiv> map (\<lambda>(t, oper). op_row_of m t oper)
     (concat (map (\<lambda>t. map (\<lambda>oper. (t, oper)) (to_operations t)) (case ops of None \<Rightarrow> [] | Some ts \<Rightarrow> ts)))"

lemma replaceOperations_fields:
  "replaceOperationsForBlock m ops s = Inr s2 \<Longrightarrow>
   \<exists>rows sent. s2 = s\<lparr>st_operations := rows, st_notified := sent\<rparr> \<and>
     insert_rows (\<lambda>r. (or_blockNumber r, or_position r, o_opIndex (or_operation r))) (op_rows m ops)
         (filter (\<lambda>r. or_blockNumber r \<noteq> bm_blockNumber m) (st_operations s)) = Inr rows"
  by (auto simp: replaceOperationsForBlock_def bind_result_eq_Inr Let_def notifyEntityOperationChanges_def)

lemma replaceOperations_run:
  assumes "insert_rows (\<lambda>r. (or_blockNumber r, or_position r, o_opIndex (or_operation r))) (op_rows m ops)
         (filter (\<lambda>r. or_blockNumber r \<noteq> bm_blockNumber m) (st_operations s)) = Inr rows"
  shows "\<exists>sent. replaceOperationsForBlock m ops s = Inr (s\<lparr>st_operations := rows, st_notified := sent\<rparr>)"
  using assms by (simp add: replaceOperationsForBlock_def Let_def notifyEntityOperationChanges_def)
    (rule exI, rule refl)

text \<open>Balances, rows and operations of the store after the block's own rows were written.\<close>

lemma replaceBalances_fields:
  "replaceBalancesForBlock m bs s = Inr s3 \<Longrightarrow>
   \<exists>rows. s3 = s\<lparr>st_balances := rows\<rparr> \<and>
     insert_rows (\<lambda>r. (bw_blockNumber r, bw_address r))
         (map (\<lambda>(a, w). \<lparr>bw_blockNumber = bm_blockNumber m, bw_blockDate = bm_blockDate m,
                bw_address = to_lower a, bw_balanceWei = int_to_dec w\<rparr>) bs)
         (filter (\<lambda>r. bw_blockNumber r \<noteq> bm_blockNumber m) (st_balances s)) = Inr rows"
  by (auto simp: replaceBalancesForBlock_def bind_result_eq_Inr)

lemma replaceLogs_again:
  assumes "replaceLogsForBlock n t table = Inr logs"
  shows "replaceLogsForBlock n t logs = Inr logs"
  using assms unfolding replaceLogsForBlock_def by (rule replace_again) (auto simp: log_row_of_def)

lemma replaceBalances_again:
  assumes "insert_rows (\<lambda>r. (bw_blockNumber r, bw_address r))
         (map (\<lambda>(a, w). \<lparr>bw_blockNumber = bm_blockNumber m, bw_blockDate = bm_blockDate m,
                bw_address = to_lower a, bw_balanceWei = int_to_dec w\<rparr>) bs)
         (filter (\<lambda>r. bw_blockNumber r \<noteq> bm_blockNumber m) table) = Inr rows" "st_balances s = rows"
  shows "replaceBalancesForBlock m bs s = Inr s"
proof -
  have "insert_rows (\<lambda>r. (bw_blockNumber r, bw_address r))
         (map (\<lambda>(a, w). \<lparr>bw_blockNumber = bm_blockNumber m, bw_blockDate = bm_blockDate m,
                bw_address = to_lower a, bw_balanceWei = int_to_dec w\<rparr>) bs)
         (filter (\<lambda>r. bw_blockNumber r \<noteq> bm_blockNumber m) rows) = Inr rows"
    by (rule replace_again [OF assms(1)]) auto
  then show ?thesis using assms(2) by (simp add: replaceBalancesForBlock_def)
qed

definition stage_rows ::
  "block_metrics \<Rightarrow> inspected_transaction list option \<Rightarrow> tx_operations list option \<Rightarrow> store \<Rightarrow> storage_error + store" where
  "stage_rows m ts ops s =
     (case ts of None \<Rightarrow> Inr s
      | Some t \<Rightarrow> bind_result (replaceTransactionsForBlock m t s) (replaceOperationsForBlock m ops))"

definition stage_balances ::
  "block_metrics \<Rightarrow> (string, int) jsmap option \<Rightarrow> store \<Rightarrow> storage_error + store" where
  "stage_balances m bals s = (case bals of None \<Rightarrow> Inr s | Some bs \<Rightarrow> replaceBalancesForBlock m bs s)"

lemma stage_rows_again:
  assumes "stage_rows m ts ops s = Inr s2" and "st_transactions s' = st_transactions s2"
    "st_logs s' = st_logs s2" "st_operations s' = st_operations s2"
  shows "\<exists>sent. stage_rows m ts ops s' = Inr (s'\<lparr>st_notified := sent\<rparr>)"
proof (cases ts)
  case None
  then show ?thesis by (auto simp: stage_rows_def intro: exI [of _ "st_notified s'"])
next
  case (Some t)
  with assms(1) obtain s1 where s1: "replaceTransactionsForBlock m t s = Inr s1" "replaceOperationsForBlock m ops s1 = Inr s2"
    by (auto simp: stage_rows_def bind_result_eq_Inr)
  obtain logs rows where tr: "s1 = s\<lparr>st_logs := logs, st_transactions := rows\<rparr>"
    "replaceLogsForBlock (bm_blockNumber m) t (st_logs s) = Inr logs"
    "insert_rows (\<lambda>r. (tr_blockNumber r, it_position (tr_transaction r))) (map (tx_row_of m) t)
         (filter (\<lambda>r. tr_blockNumber r \<noteq> bm_blockNumber m) (st_transactions s)) = Inr rows"
    using replaceTransactions_fields [OF s1(1)] by blast
  obtain orows sent where oper: "s2 = s1\<lparr>st_operations := orows, st_notified := sent\<rparr>"
    "insert_rows (\<lambda>r. (or_blockNumber r, or_position r, o_opIndex (or_operation r))) (op_rows m ops)
         (filter (\<lambda>r. or_blockNumber r \<noteq> bm_blockNumber m) (st_operations s1)) = Inr orows"
    using replaceOperations_fields [OF s1(2)] by blast
  have fields: "st_transactions s' = rows" "st_logs s' = logs" "st_operations s' = orows"
    using assms(2-) oper(1) tr(1) by simp_all
  have "replaceTransactionsForBlock m t s' = Inr s'"
    unfolding replaceTransactionsForBlock_def fields replaceLogs_again [OF tr(2)] bind_result_simps
    by (subst replace_again [OF tr(3)]) (auto simp: tx_row_of_def fields [symmetric])
  moreover have "insert_rows (\<lambda>r. (or_blockNumber r, or_position r, o_opIndex (or_operation r))) (op_rows m ops)
         (filter (\<lambda>r. or_blockNumber r \<noteq> bm_blockNumber m) (st_operations s')) = Inr orows"
    unfolding fields by (rule replace_again [OF oper(2)]) (auto simp: op_row_of_def)
  then obtain sent' where "replaceOperationsForBlock m ops s' = Inr (s'\<lparr>st_operations := orows, st_notified := sent'\<rparr>)"
    using replaceOperations_run by blast
  moreover have "s'\<lparr>st_operations := orows, st_notified := sent'\<rparr> = s'\<lparr>st_notified := sent'\<rparr>"
    using fields(3) by simp
  ultimately show ?thesis using Some by (auto simp: stage_rows_def)
qed

lemma stage_balances_again:
  assumes "stage_balances m bals s = Inr s2" and "st_balances s' = st_balances s2"
  shows "stage_balances m bals s' = Inr s'"
proof (cases bals)
  case (Some bs)
  with assms(1) obtain rows where "s2 = s\<lparr>st_balances := rows\<rparr>" and
    "insert_rows (\<lambda>r. (bw_blockNumber r, bw_address r))
         (map (\<lambda>(a, w). \<lparr>bw_blockNumber = bm_blockNumber m, bw_blockDate = bm_blockDate m,
                bw_address = to_lower a, bw_balanceWei = int_to_dec w\<rparr>) bs)
         (filter (\<lambda>r. bw_blockNumber r \<noteq> bm_blockNumber m) (st_balances s)) = Inr rows"
    using replaceBalances_fields [of m bs s s2] by (simp add: stage_balances_def) blast
  then show ?thesis using assms(2) Some replaceBalances_again by (simp add: stage_balances_def)
qed (simp add: stage_balances_def)

lemma stage_rows_frame:
  "stage_rows m ts ops s = Inr s2 \<Longrightarrow> \<exists>tr l op n. s2 = s\<lparr>st_transactions := tr, st_logs := l, st_operations := op, st_notified := n\<rparr>"
proof (cases ts)
  case None
  then show "stage_rows m ts ops s = Inr s2 \<Longrightarrow> ?thesis"
    by (auto simp: stage_rows_def intro!: exI [of _ "st_transactions s"] exI [of _ "st_logs s"]
        exI [of _ "st_operations s"] exI [of _ "st_notified s"])
next
  case (Some t)
  assume "stage_rows m ts ops s = Inr s2"
  with Some obtain s1 where s1: "replaceTransactionsForBlock m t s = Inr s1" "replaceOperationsForBlock m ops s1 = Inr s2"
    by (auto simp: stage_rows_def bind_result_eq_Inr)
  obtain logs rows where "s1 = s\<lparr>st_logs := logs, st_transactions := rows\<rparr>"
    using replaceTransactions_fields [OF s1(1)] by blast
  moreover obtain orows sent where "s2 = s1\<lparr>st_operations := orows, st_notified := sent\<rparr>"
    using replaceOperations_fields [OF s1(2)] by blast
  ultimately have "s2 = s\<lparr>st_transactions := rows, st_logs := logs, st_operations := orows, st_notified := sent\<rparr>"
    by simp
  then show ?thesis by blast
qed

lemma stage_balances_frame:
  "stage_balances m bals s = Inr s2 \<Longrightarrow> \<exists>b. s2 = s\<lparr>st_balances := b\<rparr>"
proof (cases bals)
  case None
  then show "stage_balances m bals s = Inr s2 \<Longrightarrow> ?thesis"
    by (auto simp: stage_balances_def intro: exI [of _ "st_balances s"])
next
  case (Some bs)
  then show "stage_balances m bals s = Inr s2 \<Longrightarrow> ?thesis"
    using replaceBalances_fields [of m bs s s2] by (auto simp: stage_balances_def)
qed

lemma saveBlockMetrics_stages:
  "saveBlockMetrics m p ts cands ops bals s =
     bind_result (stage_rows m ts ops (s\<lparr>st_blocks := upsert_block m (st_blocks s)\<rparr>)) (\<lambda>s2.
     bind_result (stage_balances m bals s2) (\<lambda>s3.
     bind_result (upsertTransactionRecords m cands
         (deleteTransactionRecordsForBlock (bm_blockNumber m) (st_records s3))) (\<lambda>records.
     let s4 = applyProgressUpdate m p (s3\<lparr>st_records := records\<rparr>) in
     Inr (s4\<lparr>st_notified := st_notified s4 @ [BlockStored (bm_blockNumber m)]\<rparr>))))"
  by (cases ts; cases bals) (simp_all add: saveBlockMetrics_def stage_rows_def stage_balances_def)

lemma applyProgress_frame: "\<exists>st. applyProgressUpdate m p s = s\<lparr>st_state := st\<rparr>"
  by (cases p) (auto simp: applyProgressUpdate_def upsertStateValue_def intro: exI [of _ "st_state s"])

lemma applyProgress_state:
  "st_state (applyProgressUpdate m p s) =
     (case p of LastSuccessfulBlock \<Rightarrow> map_set LAST_SUCCESSFUL_BLOCK_KEY (int_to_dec (bm_blockNumber m)) (st_state s)
      | BackfillNextBlock n \<Rightarrow> map_set BACKFILL_NEXT_BLOCK_KEY (int_to_dec n) (st_state s)
      | NoProgress \<Rightarrow> st_state s)"
  by (cases p) (auto simp: applyProgressUpdate_def upsertStateValue_def)

text \<open>The store after a save, component by component.\<close>

lemma saveBlockMetrics_fields:
  assumes "saveBlockMetrics m p ts cands ops bals s = Inr s'"
  shows "\<exists>s2 s3. stage_rows m ts ops (s\<lparr>st_blocks := upsert_block m (st_blocks s)\<rparr>) = Inr s2 \<and>
    stage_balances m bals s2 = Inr s3 \<and>
    upsertTransactionRecords m cands (deleteTransactionRecordsForBlock (bm_blockNumber m) (st_records s)) = Inr (st_records s') \<and>
    st_blocks s' = upsert_block m (st_blocks s) \<and> st_transactions s' = st_transactions s2 \<and>
    st_logs s' = st_logs s2 \<and> st_operations s' = st_operations s2 \<and> st_balances s' = st_balances s3 \<and>
    st_ranges s' = st_ranges s \<and> st_state s' = st_state (applyProgressUpdate m p s)"
proof -
  from assms obtain s2 s3 recs where run:
    "stage_rows m ts ops (s\<lparr>st_blocks := upsert_block m (st_blocks s)\<rparr>) = Inr s2"
    "stage_balances m bals s2 = Inr s3"
    "upsertTransactionRecords m cands (deleteTransactionRecordsForBlock (bm_blockNumber m) (st_records s3)) = Inr recs"
    "s' = (applyProgressUpdate m p (s3\<lparr>st_records := recs\<rparr>))\<lparr>st_notified :=
       st_notified (applyProgressUpdate m p (s3\<lparr>st_records := recs\<rparr>)) @ [BlockStored (bm_blockNumber m)]\<rparr>"
    by (auto simp: saveBlockMetrics_stages bind_result_eq_Inr Let_def)
  obtain tr l op n where s2: "s2 = s\<lparr>st_blocks := upsert_block m (st_blocks s), st_transactions := tr, st_logs := l,
      st_operations := op, st_notified := n\<rparr>"
    using stage_rows_frame [OF run(1)] by auto
  obtain b where s3: "s3 = s2\<lparr>st_balances := b\<rparr>" using stage_balances_frame [OF run(2)] by blast
  obtain st where st: "applyProgressUpdate m p (s3\<lparr>st_records := recs\<rparr>) = s3\<lparr>st_records := recs, st_state := st\<rparr>"
    using applyProgress_frame [of m p "s3\<lparr>st_records := recs\<rparr>"] by auto
  have "st = st_state (applyProgressUpdate m p s)"
    using arg_cong [OF st, of st_state] by (cases p) (simp_all add: applyProgress_state s3 s2)
  then show ?thesis using run s2 s3 st by auto
qed

lemma state_again:
  assumes "st_state s' = st_state (applyProgressUpdate m p s)"
  shows "st_state (applyProgressUpdate m p s') = st_state s'"
  using assms by (cases p) (simp_all add: applyProgress_state update_triv)

section \<open>Gaps\<close>

definition is_stored :: "store \<Rightarrow> int \<Rightarrow> bool" where
  "is_stored s n \<longleftrightarrow> map_get (st_blocks s) n \<noteq> None"

definition gap_numbers :: "block_gap \<Rightarrow> int list" where
  "gap_numbers g = [gapStart g..gapEnd g]"

lemma stored_numbers_set: "set (stored_numbers s) = {n. is_stored s n}"
  by (auto simp: stored_numbers_def is_stored_def map_of_eq_None_iff)

lemma stored_numbers_strict: "map_ok (st_blocks s) \<Longrightarrow> sorted_wrt (<) (stored_numbers s)"
  by (simp add: stored_numbers_def map_ok_def strict_sorted_iff)

lemma adjacent_gaps_sound:
  "sorted_wrt (<) ns \<Longrightarrow> g \<in> set (adjacent_gaps ns) \<Longrightarrow>
     gapStart g \<le> gapEnd g \<and> missingCount g = gapEnd g - gapStart g + 1 \<and>
     gapStart g - 1 \<in> set ns \<and> gapEnd g + 1 \<in> set ns \<and> (\<forall>n \<in> {gapStart g..gapEnd g}. n \<notin> set ns)"
proof (induction ns rule: adjacent_gaps.induct)
  case (1 a b ns)
  have sorted: "sorted_wrt (<) (b # ns)" using "1.prems"(1) by simp
  have later: "b \<le> n" if "n \<in> set (b # ns)" for n using that sorted by auto
  show ?case
  proof (cases "b > a + 1 \<and> g = \<lparr>gapStart = a + 1, gapEnd = b - 1, missingCount = (b - 1) - (a + 1) + 1\<rparr>")
    case True
    then show ?thesis using later by force
  next
    case False
    then have g: "g \<in> set (adjacent_gaps (b # ns))" using "1.prems"(2) by (auto split: if_splits)
    have ih: "gapStart g \<le> gapEnd g \<and> missingCount g = gapEnd g - gapStart g + 1 \<and>
        gapStart g - 1 \<in> set (b # ns) \<and> gapEnd g + 1 \<in> set (b # ns) \<and> (\<forall>n \<in> {gapStart g..gapEnd g}. n \<notin> set (b # ns))"
      using "1.IH" sorted g by (cases "b > a + 1") blast+
    then have "b \<le> gapStart g - 1" using later by blast
    moreover have "a < b" using "1.prems"(1) by simp
    ultimately have "a \<notin> {gapStart g..gapEnd g}" by auto
    then show ?thesis using ih by auto
  qed
qed auto

lemma adjacent_gaps_numbers:
  "sorted_wrt (<) ns \<Longrightarrow> ns \<noteq> [] \<Longrightarrow>
     concat (map gap_numbers (adjacent_gaps ns)) = filter (\<lambda>n. n \<notin> set ns) [hd ns..last ns]"
proof (induction ns rule: adjacent_gaps.induct)
  case (1 a b ns)
  have ab: "a < b" and sorted: "sorted_wrt (<) (b # ns)" using "1.prems"(1) by auto
  have later: "b \<le> n" if "n \<in> set (b # ns)" for n using that sorted by auto
  have last: "b \<le> last (b # ns)" by (rule later, rule last_in_set) simp
  have split: "[a..last (b # ns)] = a # [a + 1..b - 1] @ [b..last (b # ns)]"
    using ab last upto_split1 [of a b "last (b # ns)"] upto.simps [of a "b - 1"] by simp
  have mid: "filter (\<lambda>n. n \<notin> set (a # b # ns)) [a + 1..b - 1] = [a + 1..b - 1]"
    using later by (fastforce intro: filter_True)
  have tail: "filter (\<lambda>n. n \<notin> set (a # b # ns)) [b..last (b # ns)] = filter (\<lambda>n. n \<notin> set (b # ns)) [b..last (b # ns)]"
    using ab by (auto intro!: filter_cong)
  have ih: "concat (map gap_numbers (adjacent_gaps (b # ns))) = filter (\<lambda>n. n \<notin> set (b # ns)) [b..last (b # ns)]"
    using "1.IH" sorted by (cases "b > a + 1") simp_all
  have first: "concat (map gap_numbers (adjacent_gaps (a # b # ns))) =
      [a + 1..b - 1] @ concat (map gap_numbers (adjacent_gaps (b # ns)))"
    by (simp add: gap_numbers_def)
  have "filter (\<lambda>n. n \<notin> set (a # b # ns)) [a..last (b # ns)] =
      [a + 1..b - 1] @ filter (\<lambda>n. n \<notin> set (b # ns)) [b..last (b # ns)]"
    unfolding split filter_append filter.simps mid tail by simp
  then show ?case unfolding first ih by simp
qed simp_all

lemma sorted_hd_last:
  fixes xs :: "'a :: linorder list"
  assumes "sorted xs" "x \<in> set xs"
  shows "hd xs \<le> x \<and> x \<le> last xs"
proof -
  obtain i where i: "i < length xs" "x = xs ! i" using assms(2) by (auto simp: in_set_conv_nth)
  then have "xs \<noteq> []" by auto
  then show ?thesis
    using i sorted_nth_mono [OF assms(1), of 0 i] sorted_nth_mono [OF assms(1), of i "length xs - 1"]
    by (simp add: hd_conv_nth last_conv_nth)
qed

lemma findBlockGaps_Nil:
  assumes "map_ok (st_blocks s)"
  shows "findBlockGaps limit s = [] \<longleftrightarrow>
    (\<forall>a b n. is_stored s a \<and> is_stored s b \<and> a \<le> n \<and> n \<le> b \<longrightarrow> is_stored s n)"
proof (cases "stored_numbers s = []")
  case True
  then show ?thesis using stored_numbers_set [of s] by (auto simp: findBlockGaps_def)
next
  case False
  let ?ns = "stored_numbers s"
  have sorted: "sorted_wrt (<) ?ns" by (rule stored_numbers_strict [OF assms])
  have limit: "0 < nat (resolveLimit (Some limit) MAX_BLOCKS_PER_QUERY)"
    by (auto simp: resolveLimit_def MAX_BLOCKS_PER_QUERY_def)
  have bounds: "hd ?ns \<le> n \<and> n \<le> last ?ns" if "n \<in> set ?ns" for n
    using sorted_hd_last [of ?ns n] that by (simp add: stored_numbers_def)
  have "adjacent_gaps ?ns = [] \<longleftrightarrow> concat (map gap_numbers (adjacent_gaps ?ns)) = []"
    using adjacent_gaps_sound [OF sorted] by (cases "adjacent_gaps ?ns") (force simp: gap_numbers_def)+
  also have "\<dots> \<longleftrightarrow> (\<forall>n. hd ?ns \<le> n \<and> n \<le> last ?ns \<longrightarrow> is_stored s n)"
    by (auto simp: adjacent_gaps_numbers [OF sorted False] filter_empty_conv stored_numbers_set)
  also have "\<dots> \<longleftrightarrow> (\<forall>a b n. is_stored s a \<and> is_stored s b \<and> a \<le> n \<and> n \<le> b \<longrightarrow> is_stored s n)"
    using bounds hd_in_set [OF False] last_in_set [OF False] by (simp add: stored_numbers_set) (meson order_trans)
  finally show ?thesis using limit by (simp add: findBlockGaps_def)
qed

section \<open>Properties\<close>

definition sample_inspected :: "nat \<Rightarrow> string \<Rightarrow> inspected_transaction" where
  "sample_inspected p gas =
     \<lparr>it_position = p, it_hash = ''0xa1'', it_from = Some ''0xF1'', it_to = None, it_type = None, it_nonce = None,
      it_valueWei = ''0'', it_gasLimit = ''9'', it_gasUsed = gas, it_inputDataSizeBytes = ''0'',
      it_inputDataCompressedSizeBytes = ''0'', it_cumulativeGasUsed = None, it_gasPriceWei = None,
      it_maxFeePerGasWei = None, it_maxPriorityFeePerGasWei = None, it_effectiveGasPriceWei = ''7'',
      it_priorityFeeWei = ''2'', it_transactionFeeWei = ''70'', it_rentFeeWei = ''3'', it_status = Some ''1'',
      it_contractAddress = None, it_logs = Some []\<rparr>"

definition sample_metrics :: "int \<Rightarrow> block_metrics" where
  "sample_metrics n = metrics_row sample_block n 2 5 32 1 no_totals ''2024-01-01T00:00:00.000Z'' 48"

definition sample_saved :: "storage_error + store" where
  "sample_saved = saveBlockMetrics (sample_metrics 5) LastSuccessfulBlock (Some [sample_inspected 1 ''10''])
     [sample_inspected 1 ''10''] None (Some [(''0xF1'', 8)]) empty_store"

lemma sample_saved_ok: "\<exists>s. sample_saved = Inr s"
proof -
  have "case sample_saved of Inl e \<Rightarrow> False | Inr s \<Rightarrow> True" by code_simp
  then show ?thesis by (auto split: sum.splits)
qed

lemma empty_records_ok: "records_ok (st_records empty_store)"
  by (simp add: records_ok_def empty_store_def in_category_def)

lemma save_records_top:
  assumes "saveBlockMetrics m p ts candidates operations balances s = Inr s'"
    and "records_ok (st_records s)" and "distinct (map it_position candidates)"
  shows "records_ok (st_records s') \<and>
    (\<forall>c. set (in_category c (st_records s')) =
       top_records ({r \<in> set (in_category c (st_records s)). rr_blockNumber r \<noteq> bm_blockNumber m} \<union>
         record_row_of m c ` set candidates))"
proof -
  let ?d = "deleteTransactionRecordsForBlock (bm_blockNumber m) (st_records s)"
  have "\<forall>r \<in> set ?d. rr_blockNumber r \<noteq> bm_blockNumber m"
    by (simp add: deleteTransactionRecordsForBlock_def)
  then obtain t where t: "upsertTransactionRecords m candidates ?d = Inr t" "records_ok t"
    "\<forall>c. set (in_category c t) = top_records (set (in_category c ?d) \<union> set (new_records m candidates c))"
    using upsertTransactionRecords_top [OF delete_records_ok [OF assms(2)] _ assms(3)] by blast
  have "st_records s' = t" using saveBlockMetrics_fields [OF assms(1)] t(1) by auto
  moreover have "set (in_category c ?d) = {r \<in> set (in_category c (st_records s)). rr_blockNumber r \<noteq> bm_blockNumber m}" for c
    by (auto simp: in_category_def deleteTransactionRecordsForBlock_def)
  ultimately show ?thesis using t(2,3) by (simp add: new_records_def)
qed

text \<open>What the top kept, with the same rows offered again, has the same top.\<close>

lemma top_records_again:
  assumes "records_ok table" "distinct (map it_position candidates)"
    and top: "A = top_records ({r \<in> set (in_category c table). rr_blockNumber r \<noteq> bm_blockNumber m} \<union>
         set (new_records m candidates c))"
  shows "top_records ({r \<in> A. rr_blockNumber r \<noteq> bm_blockNumber m} \<union> set (new_records m candidates c)) = A"
proof -
  define others where "others = filter (\<lambda>r. rr_blockNumber r \<noteq> bm_blockNumber m) (in_category c table)"
  define rows where "rows = others @ new_records m candidates c"
  have A: "A = top_records (set rows)" using top by (auto simp: rows_def others_def)
  have sub: "A \<subseteq> set rows" by (auto simp: A top_records_def records.top_of_def)
  have new: "rr_blockNumber r = bm_blockNumber m" if "r \<in> set (new_records m candidates c)" for r
    using that by (auto simp: new_records_def record_row_of_def)
  have "distinct (map record_key rows)"
  proof -
    have "distinct (map record_key others)"
      using assms(1) by (simp add: others_def in_category_def records_ok_def distinct_map_filter)
    moreover have "record_key r \<noteq> record_key q" if "r \<in> set others" "q \<in> set (new_records m candidates c)" for r q
      using that new [of q] by (auto simp: others_def record_key_def)
    ultimately show ?thesis
      using new_records_keys [OF assms(2), of m c] by (auto simp: rows_def disjoint_iff image_iff) (metis)
  qed
  then have "ranked (in_category c rows)" by (rule keys_ranked)
  moreover have "in_category c rows = rows"
    by (auto simp: rows_def others_def in_category_def new_records_def record_row_of_def
        intro!: filter_True arg_cong [of _ _ "\<lambda>p. filter p table"])
  ultimately have ranked: "ranked rows" by simp
  let ?D = "{r \<in> A. rr_blockNumber r \<noteq> bm_blockNumber m} \<union> set (new_records m candidates c)"
  have AD: "A \<subseteq> ?D"
    using sub new by (auto simp: rows_def others_def)
  have "records.top_of MAX_TRANSACTION_RECORDS_PER_CATEGORY (set rows) =
      records.top_of MAX_TRANSACTION_RECORDS_PER_CATEGORY ?D"
  proof (rule records.top_of_dropped)
    show "finite (set rows)" by simp
    show "?D \<subseteq> set rows" using sub by (auto simp: rows_def)
    fix x assume x: "x \<in> set rows - ?D"
    then have "MAX_TRANSACTION_RECORDS_PER_CATEGORY \<le> card {y \<in> A. record_before y x}"
      unfolding A by (intro not_before_kept [OF ranked]) (use AD A in auto)
    also have "\<dots> \<le> card {y \<in> ?D. record_before y x}"
    proof (rule card_mono)
      have "finite A" using sub by (rule finite_subset) simp
      then show "finite {y \<in> ?D. record_before y x}" by simp
    qed (use AD in auto)
    finally show "MAX_TRANSACTION_RECORDS_PER_CATEGORY \<le> card {y \<in> ?D. record_before y x}" .
  qed
  then show ?thesis by (simp add: A top_records_def)
qed

text \<open>
  C35. The records of each category stay the top hundred: after a save they are the best hundred of
  the records of the other blocks and of all transactions offered, by value, then block, then
  position, although the code looks only at the rows that can still enter.
\<close>

theorem records_keep_the_top:
  assumes "saveBlockMetrics m p ts candidates operations balances s = Inr s'"
    and "records_ok (st_records s)" and "distinct (map it_position candidates)"
  shows "records_ok (st_records s') \<and>
    (\<forall>c. set (in_category c (st_records s')) =
       top_records ({r \<in> set (in_category c (st_records s)). rr_blockNumber r \<noteq> bm_blockNumber m} \<union>
         record_row_of m c ` set candidates))"
  using assms by (rule save_records_top)

theorem records_keep_the_top_witness:
  "\<exists>s. sample_saved = Inr s \<and>
     set (in_category GasUsed (st_records s)) = top_records (record_row_of (sample_metrics 5) GasUsed ` {sample_inspected 1 ''10''})"
proof -
  obtain s where s: "sample_saved = Inr s" using sample_saved_ok by blast
  from records_keep_the_top [OF s [unfolded sample_saved_def] empty_records_ok]
  show ?thesis using s by (auto simp: empty_store_def in_category_def)
qed

text \<open>
  C36. Scanning a block again changes nothing: saving the same block a second time succeeds and leaves
  every table and the cursors as they are; only the notification is sent again, and the rows of the
  records table may be in another order.
\<close>

theorem rescan_changes_nothing:
  assumes "saveBlockMetrics m p ts candidates operations balances s = Inr s'"
    and "records_ok (st_records s)" and "distinct (map it_position candidates)"
  shows "\<exists>s''. saveBlockMetrics m p ts candidates operations balances s' = Inr s'' \<and>
    s'' = s'\<lparr>st_records := st_records s'', st_notified := st_notified s''\<rparr> \<and>
    (\<forall>c. set (in_category c (st_records s'')) = set (in_category c (st_records s')))"
proof -
  let ?d = "deleteTransactionRecordsForBlock (bm_blockNumber m)"
  obtain s2 s3 where one: "stage_rows m ts operations (s\<lparr>st_blocks := upsert_block m (st_blocks s)\<rparr>) = Inr s2"
    "stage_balances m balances s2 = Inr s3" "st_blocks s' = upsert_block m (st_blocks s)"
    "st_transactions s' = st_transactions s2" "st_logs s' = st_logs s2" "st_operations s' = st_operations s2"
    "st_balances s' = st_balances s3" "st_state s' = st_state (applyProgressUpdate m p s)"
    using saveBlockMetrics_fields [OF assms(1)] by blast
  have ok': "records_ok (st_records s')" and top: "\<And>c. set (in_category c (st_records s')) =
       top_records ({r \<in> set (in_category c (st_records s)). rr_blockNumber r \<noteq> bm_blockNumber m} \<union>
         record_row_of m c ` set candidates)"
    using save_records_top [OF assms] by auto
  have blocks: "s'\<lparr>st_blocks := upsert_block m (st_blocks s')\<rparr> = s'"
    using one(3) upsert_block_again [of m "st_blocks s"] by simp
  obtain sent where rows: "stage_rows m ts operations s' = Inr (s'\<lparr>st_notified := sent\<rparr>)"
    using stage_rows_again [OF one(1,4,5,6)] by blast
  have bals: "stage_balances m balances (s'\<lparr>st_notified := sent\<rparr>) = Inr (s'\<lparr>st_notified := sent\<rparr>)"
    by (rule stage_balances_again [OF one(2)]) (simp add: one(7))
  have "\<forall>r \<in> set (?d (st_records s')). rr_blockNumber r \<noteq> bm_blockNumber m"
    by (simp add: deleteTransactionRecordsForBlock_def)
  then obtain t where t: "upsertTransactionRecords m candidates (?d (st_records s')) = Inr t"
    "\<forall>c. set (in_category c t) = top_records (set (in_category c (?d (st_records s'))) \<union> set (new_records m candidates c))"
    using upsertTransactionRecords_top [OF delete_records_ok [OF ok'] _ assms(3)] by blast
  have "set (in_category c (?d (st_records s'))) = {r \<in> set (in_category c (st_records s')). rr_blockNumber r \<noteq> bm_blockNumber m}" for c
    by (auto simp: in_category_def deleteTransactionRecordsForBlock_def)
  then have same: "set (in_category c t) = set (in_category c (st_records s'))" for c
    using t(2) top_records_again [OF assms(2,3) refl, of c m] top [of c] by (simp add: new_records_def)
  let ?n = "s'\<lparr>st_records := t, st_notified := sent @ [BlockStored (bm_blockNumber m)]\<rparr>"
  obtain st where st: "applyProgressUpdate m p (s'\<lparr>st_notified := sent, st_records := t\<rparr>) =
      s'\<lparr>st_notified := sent, st_records := t, st_state := st\<rparr>"
    using applyProgress_frame [of m p "s'\<lparr>st_notified := sent, st_records := t\<rparr>"] by auto
  have "st = st_state s'"
    using arg_cong [OF st, of st_state] state_again [OF one(8)] by (cases p) (simp_all add: applyProgress_state)
  then have "saveBlockMetrics m p ts candidates operations balances s' = Inr ?n"
    by (simp add: saveBlockMetrics_stages blocks rows bals t(1) st Let_def)
  then show ?thesis using same by simp
qed

theorem rescan_changes_nothing_witness:
  "\<exists>s s'. sample_saved = Inr s \<and>
     saveBlockMetrics (sample_metrics 5) LastSuccessfulBlock (Some [sample_inspected 1 ''10''])
       [sample_inspected 1 ''10''] None (Some [(''0xF1'', 8)]) s = Inr s' \<and>
     st_blocks s' = st_blocks s \<and> st_transactions s' = st_transactions s"
proof -
  obtain s where s: "sample_saved = Inr s" using sample_saved_ok by blast
  obtain s' where s': "saveBlockMetrics (sample_metrics 5) LastSuccessfulBlock (Some [sample_inspected 1 ''10''])
       [sample_inspected 1 ''10''] None (Some [(''0xF1'', 8)]) s = Inr s'"
    "s' = s\<lparr>st_records := st_records s', st_notified := st_notified s'\<rparr>"
    using rescan_changes_nothing [OF s [unfolded sample_saved_def] empty_records_ok] by auto
  have "st_blocks s' = st_blocks s" "st_transactions s' = st_transactions s"
    by (subst s'(2), simp)+
  then show ?thesis using s s'(1) by blast
qed

lemma save_state: "saveBlockMetrics m p ts cands ops bals s = Inr s' \<Longrightarrow> key \<noteq> LAST_SUCCESSFUL_BLOCK_KEY \<Longrightarrow>
    key \<noteq> BACKFILL_NEXT_BLOCK_KEY \<Longrightarrow> getStateValue key s' = getStateValue key s"
  using saveBlockMetrics_fields [of m p ts cands ops bals s s']
  by (cases p) (auto simp: getStateValue_def applyProgress_state)

lemma keys_distinct [simp]:
  "GENESIS_HASH_KEY \<noteq> LAST_SUCCESSFUL_BLOCK_KEY" "GENESIS_HASH_KEY \<noteq> BACKFILL_NEXT_BLOCK_KEY"
  "LAST_SUCCESSFUL_BLOCK_KEY \<noteq> BACKFILL_NEXT_BLOCK_KEY" "BACKFILL_NEXT_BLOCK_KEY \<noteq> LAST_SUCCESSFUL_BLOCK_KEY"
  by (simp_all add: GENESIS_HASH_KEY_def LAST_SUCCESSFUL_BLOCK_KEY_def BACKFILL_NEXT_BLOCK_KEY_def)

lemma assertStoredGenesisHash_Inr:
  "assertStoredGenesisHash (Some h) s = Inr u \<longleftrightarrow>
     (\<forall>r. getStateValue GENESIS_HASH_KEY s = Some r \<longrightarrow> r = h) \<and>
     (\<forall>b0 x. map_get (st_blocks s) 0 = Some b0 \<longrightarrow> sb_blockHash b0 = Some x \<longrightarrow> to_lower x = h)"
proof (cases "map_get (st_blocks s) 0")
  case None
  then show ?thesis
    by (cases "getStateValue GENESIS_HASH_KEY s") (auto simp: assertStoredGenesisHash_def Let_def map_filter_simps)
next
  case (Some b0)
  then show ?thesis
    by (cases "getStateValue GENESIS_HASH_KEY s"; cases "sb_blockHash b0")
       (auto simp: assertStoredGenesisHash_def Let_def map_filter_simps)
qed

lemma bindGenesisHash_Inr:
  assumes "bindGenesisHash h s = Inr s'"
  shows "getStateValue GENESIS_HASH_KEY s' = Some (to_lower h)" "st_blocks s' = st_blocks s"
    "\<forall>b0 x. map_get (st_blocks s) 0 = Some b0 \<longrightarrow> sb_blockHash b0 = Some x \<longrightarrow> to_lower x = to_lower h"
  using assms
  by (cases "getStateValue GENESIS_HASH_KEY s";
      auto simp: bindGenesisHash_def Let_def bind_result_eq_Inr assertStoredGenesisHash_Inr upsertStateValue_def
        getStateValue_def)+

text \<open>
  A database belongs to one chain: once it is bound to a genesis hash, and whatever is saved
  afterwards, binding it to another hash is refused, and so is a stored block 0 of another chain.
\<close>

theorem database_keeps_its_chain:
  assumes "bindGenesisHash h s = Inr s'"
    and "saveBlockMetrics m p ts candidates operations balances s' = Inr s''"
    and "bindGenesisHash h' s'' = Inr t"
  shows "to_lower h' = to_lower h \<and> getStateValue GENESIS_HASH_KEY t = Some (to_lower h) \<and>
    (\<forall>b0 x. map_get (st_blocks t) 0 = Some b0 \<longrightarrow> sb_blockHash b0 = Some x \<longrightarrow> to_lower x = to_lower h)"
proof -
  have "getStateValue GENESIS_HASH_KEY s'' = Some (to_lower h)"
    using save_state [OF assms(2), of GENESIS_HASH_KEY] bindGenesisHash_Inr(1) [OF assms(1)] by simp
  then have "to_lower h' = to_lower h"
    using assms(3) by (auto simp: bindGenesisHash_def Let_def bind_result_eq_Inr assertStoredGenesisHash_Inr)
  then show ?thesis using bindGenesisHash_Inr [OF assms(3)] by simp
qed

theorem database_keeps_its_chain_witness:
  "\<exists>s t. bindGenesisHash ''0xAA'' empty_store = Inr s \<and> bindGenesisHash ''0xaa'' t \<noteq> Inl IncompatibleDatabase \<and>
     saveBlockMetrics (sample_metrics 5) LastSuccessfulBlock None [] None None s = Inr t \<and>
     getStateValue GENESIS_HASH_KEY t = Some ''0xaa''"
proof -
  have "case bindGenesisHash ''0xAA'' empty_store of Inl e \<Rightarrow> False | Inr s \<Rightarrow>
      (case saveBlockMetrics (sample_metrics 5) LastSuccessfulBlock None [] None None s of Inl e \<Rightarrow> False
       | Inr t \<Rightarrow> (case bindGenesisHash ''0xaa'' t of Inl e \<Rightarrow> False | Inr u \<Rightarrow>
           getStateValue GENESIS_HASH_KEY t = Some ''0xaa''))"
    by code_simp
  then obtain s t u where run: "bindGenesisHash ''0xAA'' empty_store = Inr s"
    "saveBlockMetrics (sample_metrics 5) LastSuccessfulBlock None [] None None s = Inr t"
    "bindGenesisHash ''0xaa'' t = Inr u" "getStateValue GENESIS_HASH_KEY t = Some ''0xaa''"
    by (auto split: sum.splits)
  have "to_lower ''0xaa'' = to_lower ''0xAA''"
    using database_keeps_its_chain [OF run(1,2,3)] by blast
  then show ?thesis using run by auto
qed



end
