(* ===== verification/Scanner.thy ===== *)
theory Scanner
  imports StorageFacts
begin

text \<open>
  The scanner (src/src/scanner.ts): reading a block with its receipts, storing it, the backfill that
  walks down from the safe head in slices, the forward scan that resumes after the last stored
  block, and the loop that alternates them. What the node, the decoder, the batcher collector and
  the clock answer is a world: \<open>world t\<close> holds the answers of the \<open>t\<close>-th attempt, so an answer may differ
  from one attempt to the next. Loops that retry for ever take fuel, and \<open>None\<close> is a run still going
  when the fuel is spent. Sleeping and log lines are left out; the guzzler recorder, whose failures
  are swallowed, has a component of its own.
\<close>

section \<open>The world and the configuration\<close>

record env =
  en_latest :: "string + int"                         \<comment> \<open>\<open>rpc.getLatestBlockNumber\<close>\<close>
  en_block :: "int \<Rightarrow> string + rpc_block"              \<comment> \<open>\<open>rpc.getBlockWithTransactions\<close>\<close>
  en_receipt :: "hex_text \<Rightarrow> nat \<Rightarrow> string + rpc_receipt" \<comment> \<open>\<open>rpc.getTransactionReceipt\<close>, by try\<close>
  en_balances :: "string list \<Rightarrow> int \<Rightarrow> string + (string, int) jsmap"
  en_batcher :: "string \<Rightarrow> string + batcher_metrics option"
  en_decoder :: "string \<Rightarrow> http_answer"
  en_committed :: bool                                \<comment> \<open>the database took the block's transaction\<close>
  en_progress_saved :: bool                           \<comment> \<open>the write of \<open>saveChainProgress\<close> succeeded\<close>
  en_now :: int                                       \<comment> \<open>\<open>runtime.now()\<close>\<close>
  en_date :: int                                      \<comment> \<open>\<open>Date.now()\<close>, and its ISO text\<close>
  en_date_iso :: string

type_synonym world = "nat \<Rightarrow> env"

record scanner_config =
  sc_confirmationDepth :: int
  sc_oldestBackfillBlock :: int
  sc_disableBackfill :: bool
  sc_saveTransactionData :: bool
  sc_trackBalances :: bool
  sc_txReceiptConcurrency :: int
  sc_batcher :: bool                                  \<comment> \<open>a batcher collector is given\<close>
  sc_decoder :: bool                                  \<comment> \<open>a decoder client is given\<close>

datatype scan_error =
    RpcFailed string
  | BadConcurrency
  | Inspect inspect_error
  | Decoder decoder_error
  | Storage storage_error
  | DatabaseDown

definition lift_error :: "('e \<Rightarrow> scan_error) \<Rightarrow> 'e + 'a \<Rightarrow> scan_error + 'a" where
  "lift_error f r = (case r of Inl e \<Rightarrow> Inl (f e) | Inr a \<Rightarrow> Inr a)"

lemma lift_error_Inr [simp, result_simps]: "lift_error f r = Inr a \<longleftrightarrow> r = Inr a"
  by (cases r) (simp_all add: lift_error_def)

definition BACKFILL_SLICE_MS :: int where
  "BACKFILL_SLICE_MS = 20000"

definition RECEIPT_RETRY_MAX_ATTEMPTS :: nat where
  "RECEIPT_RETRY_MAX_ATTEMPTS = 5"

section \<open>One block\<close>

text \<open>A rate-limit rejection is tried again, up to five times; every other error is final.\<close>

function fetchReceiptWithRetry :: "(nat \<Rightarrow> string + rpc_receipt) \<Rightarrow> nat \<Rightarrow> scan_error + rpc_receipt" where
  "fetchReceiptWithRetry answers attempt =
     (case answers attempt of
        Inr r \<Rightarrow> Inr r
      | Inl message \<Rightarrow>
          if \<not> includes_text ''429'' message \<or> RECEIPT_RETRY_MAX_ATTEMPTS \<le> attempt
          then Inl (RpcFailed message)
          else fetchReceiptWithRetry answers (attempt + 1))"
  by auto
termination
  by (relation "measure (\<lambda>(answers, attempt). RECEIPT_RETRY_MAX_ATTEMPTS - attempt)") auto

declare fetchReceiptWithRetry.simps [simp del]

text \<open>
  The pool writes each receipt into its slot; a receipt that fails makes the whole fail (which of
  several failures is reported depends on timing; here it is the first in order).
\<close>

definition getTransactionReceipts :: "env \<Rightarrow> rpc_block \<Rightarrow> int \<Rightarrow> scan_error + rpc_receipt list" where
  "getTransactionReceipts env block txReceiptConcurrency =
     (if txReceiptConcurrency < 1 then Inl BadConcurrency
      else map_result (\<lambda>h. fetchReceiptWithRetry (en_receipt env h) 1)
             (map tx_hash (included_transactions block)))"

definition touchedAddresses :: "inspected_transaction list \<Rightarrow> string list" where
  "touchedAddresses transactions =
     fold (\<lambda>a acc. if a \<in> set acc then acc else acc @ [a])
       (concat (map (\<lambda>t.
          (case it_from t of Some f \<Rightarrow> if f \<noteq> [] then [to_lower f] else [] | None \<Rightarrow> []) @
          (case it_to t of Some a \<Rightarrow> if a \<noteq> [] then [to_lower a] else [] | None \<Rightarrow> [])) transactions)) []"

definition merge_batcher :: "batcher_metrics \<Rightarrow> batcher_metrics \<Rightarrow> batcher_metrics" where
  "merge_batcher new old =
     \<lparr>batcherQueueSize = nullish (batcherQueueSize new) (batcherQueueSize old),
      batcherIntensity = nullish (batcherIntensity new) (batcherIntensity old),
      batcherLowerThreshold = nullish (batcherLowerThreshold new) (batcherLowerThreshold old),
      batcherUpperThreshold = nullish (batcherUpperThreshold new) (batcherUpperThreshold old),
      batcherMaxBlockSize = nullish (batcherMaxBlockSize new) (batcherMaxBlockSize old),
      batcherMaxTxSize = nullish (batcherMaxTxSize new) (batcherMaxTxSize old)\<rparr>"

text \<open>The collector's failures never fail a scan.\<close>

definition enrichWithBatcherMetrics :: "env \<Rightarrow> bool \<Rightarrow> block_metrics \<Rightarrow> block_metrics" where
  "enrichWithBatcherMetrics env batcherCollector m =
     (if \<not> batcherCollector then m
      else case en_batcher env (bm_blockDate m) of
             Inr (Some b) \<Rightarrow> m\<lparr>bm_batcher := merge_batcher b (bm_batcher m)\<rparr>
           | _ \<Rightarrow> m)"

definition scanOneBlock ::
  "(nat list \<Rightarrow> nat) \<Rightarrow> (string \<Rightarrow> string) \<Rightarrow> scanner_config \<Rightarrow> env \<Rightarrow> int \<Rightarrow> progress_update \<Rightarrow> store \<Rightarrow> scan_error + store" where
  "scanOneBlock zstd keccak config env blockNumber progressUpdate s =
     bind_result (lift_error RpcFailed (en_block env blockNumber)) (\<lambda>block.
     bind_result (if blockNumber = 0 then Inr None
                  else bind_result (lift_error RpcFailed (en_block env (blockNumber - 1))) (\<lambda>p. Inr (Some p))) (\<lambda>previousBlock.
     bind_result (getTransactionReceipts env block (sc_txReceiptConcurrency config)) (\<lambda>receipts.
     bind_result (lift_error Inspect (computeBlockMetrics zstd block receipts previousBlock)) (\<lambda>computed.
     let metrics = enrichWithBatcherMetrics env (sc_batcher config) computed in
     bind_result (lift_error Inspect (inspectBlockFromRpc zstd block receipts)) (\<lambda>inspected.
     let inspectedTransactions = ib_transactions inspected;
         transactions = (if sc_saveTransactionData config then Some inspectedTransactions else None) in
     bind_result (if sc_decoder config \<and> sc_saveTransactionData config
                  then bind_result (lift_error Decoder (decodeBlockArkivOperations keccak (en_decoder env) block receipts))
                         (\<lambda>ops. Inr (Some ops))
                  else Inr None) (\<lambda>operations.
     bind_result (if sc_trackBalances config
                  then bind_result (lift_error RpcFailed
                         (en_balances env (touchedAddresses inspectedTransactions) blockNumber)) (\<lambda>b. Inr (Some b))
                  else Inr None) (\<lambda>balances.
     if en_committed env
     then lift_error Storage (saveBlockMetrics metrics progressUpdate transactions inspectedTransactions
            operations balances s)
     else Inl DatabaseDown)))))))"

section \<open>Retries\<close>

text \<open>A run: \<open>None\<close> while the fuel was not enough, else the exception or the result.\<close>

type_synonym 'a run = "(scan_error + 'a) option"

fun scanBlockWithRetry ::
  "nat \<Rightarrow> (nat list \<Rightarrow> nat) \<Rightarrow> (string \<Rightarrow> string) \<Rightarrow> scanner_config \<Rightarrow> world \<Rightarrow> int \<Rightarrow> progress_update \<Rightarrow>
   nat \<times> store \<Rightarrow> (nat \<times> store) option" where
  "scanBlockWithRetry 0 zstd keccak config world blockNumber progressUpdate ts = None"
| "scanBlockWithRetry (Suc fuel) zstd keccak config world blockNumber progressUpdate (t, s) =
     (case scanOneBlock zstd keccak config (world t) blockNumber progressUpdate s of
        Inr s' \<Rightarrow> Some (t + 1, s')
      | Inl e \<Rightarrow> scanBlockWithRetry fuel zstd keccak config world blockNumber progressUpdate (t + 1, s))"

definition computeSafeHead :: "int \<Rightarrow> int \<Rightarrow> int" where
  "computeSafeHead latestBlock confirmationDepth =
     (if latestBlock > confirmationDepth then latestBlock - confirmationDepth else 0)"

text \<open>A failure to store the observed head is swallowed.\<close>

definition recordChainProgress :: "env \<Rightarrow> int \<Rightarrow> int \<Rightarrow> store \<Rightarrow> store" where
  "recordChainProgress env latestBlock safeHead s =
     (if en_progress_saved env then saveChainProgress latestBlock safeHead (en_date_iso env) s else s)"

fun readSafeHeadWithRetry :: "nat \<Rightarrow> scanner_config \<Rightarrow> world \<Rightarrow> nat \<times> store \<Rightarrow> (int \<times> nat \<times> store) option" where
  "readSafeHeadWithRetry 0 config world ts = None"
| "readSafeHeadWithRetry (Suc fuel) config world (t, s) =
     (case en_latest (world t) of
        Inr latestBlock \<Rightarrow>
          let safeHead = computeSafeHead latestBlock (sc_confirmationDepth config) in
          Some (safeHead, t + 1, recordChainProgress (world t) latestBlock safeHead s)
      | Inl e \<Rightarrow> readSafeHeadWithRetry fuel config world (t + 1, s))"

section \<open>The two directions\<close>

text \<open>The body of the backfill's loop: the next block down, until the oldest or the deadline.\<close>

function backfill_loop ::
  "nat \<Rightarrow> (nat list \<Rightarrow> nat) \<Rightarrow> (string \<Rightarrow> string) \<Rightarrow> scanner_config \<Rightarrow> world \<Rightarrow> int \<Rightarrow> int \<Rightarrow> int option \<Rightarrow>
   nat \<times> store \<Rightarrow> (int option \<times> nat \<times> store) option" where
  "backfill_loop fuel zstd keccak config world deadlineMs nextBackfillBlock lowestBackfilledBlock (t, s) =
     (if sc_oldestBackfillBlock config \<le> nextBackfillBlock \<and> en_now (world t) < deadlineMs then
        (case scanBlockWithRetry fuel zstd keccak config world nextBackfillBlock
                (BackfillNextBlock (nextBackfillBlock - 1)) (t, s) of
           None \<Rightarrow> None
         | Some ts \<Rightarrow> backfill_loop fuel zstd keccak config world deadlineMs (nextBackfillBlock - 1)
             (Some nextBackfillBlock) ts)
      else Some (lowestBackfilledBlock, t, s))"
  by pat_completeness auto
termination
  by (relation "measure (\<lambda>(fuel, zstd, keccak, config, world, deadlineMs, next, lowest, ts).
        nat (next - sc_oldestBackfillBlock config + 1))") auto

definition backfillDownForSlice ::
  "nat \<Rightarrow> (nat list \<Rightarrow> nat) \<Rightarrow> (string \<Rightarrow> string) \<Rightarrow> scanner_config \<Rightarrow> world \<Rightarrow> int \<Rightarrow>
   nat \<times> store \<Rightarrow> (int option \<times> nat \<times> store) run" where
  "backfillDownForSlice fuel zstd keccak config world safeHead ts =
     (case getBackfillNextBlock (snd ts) of
        Inl e \<Rightarrow> Some (Inl (Storage e))
      | Inr next \<Rightarrow>
          let nextBackfillBlock = (case next of None \<Rightarrow> safeHead | Some n \<Rightarrow> if n > safeHead then safeHead else n);
              deadlineMs = en_now (world (fst ts)) + BACKFILL_SLICE_MS in
          map_option Inr (backfill_loop fuel zstd keccak config world deadlineMs nextBackfillBlock None ts))"

function forward_loop ::
  "nat \<Rightarrow> (nat list \<Rightarrow> nat) \<Rightarrow> (string \<Rightarrow> string) \<Rightarrow> scanner_config \<Rightarrow> world \<Rightarrow> int \<Rightarrow> int \<Rightarrow> bool \<Rightarrow>
   nat \<times> store \<Rightarrow> (bool \<times> nat \<times> store) option" where
  "forward_loop fuel zstd keccak config world safeHead nextBlock scanned (t, s) =
     (if nextBlock \<le> safeHead then
        (case scanBlockWithRetry fuel zstd keccak config world nextBlock LastSuccessfulBlock (t, s) of
           None \<Rightarrow> None
         | Some ts \<Rightarrow> forward_loop fuel zstd keccak config world safeHead (nextBlock + 1) True ts)
      else Some (scanned, t, s))"
  by pat_completeness auto
termination
  by (relation "measure (\<lambda>(fuel, zstd, keccak, config, world, safeHead, next, scanned, ts).
        nat (safeHead - next + 1))") auto

declare backfill_loop.simps [simp del] forward_loop.simps [simp del]

definition scanForwardToSafeHead ::
  "nat \<Rightarrow> (nat list \<Rightarrow> nat) \<Rightarrow> (string \<Rightarrow> string) \<Rightarrow> scanner_config \<Rightarrow> world \<Rightarrow> int \<Rightarrow> int \<Rightarrow>
   nat \<times> store \<Rightarrow> (bool \<times> nat \<times> store) run" where
  "scanForwardToSafeHead fuel zstd keccak config world safeHead initialLowerBound ts =
     (case getLastSuccessfulBlock (snd ts) of
        Inl e \<Rightarrow> Some (Inl (Storage e))
      | Inr lastSuccessfulBlock \<Rightarrow>
          let nextBlock = (case lastSuccessfulBlock of None \<Rightarrow> initialLowerBound | Some l \<Rightarrow> l + 1) in
          map_option Inr (forward_loop fuel zstd keccak config world safeHead nextBlock False ts))"

section \<open>Late batcher metrics\<close>

definition fill_batcher_step :: "env \<Rightarrow> stored_block \<Rightarrow> nat \<times> store \<Rightarrow> nat \<times> store" where
  "fill_batcher_step env block us =
     (case en_batcher env (sb_blockDate block) of
        Inr (Some m) \<Rightarrow>
          let (ok, s') = saveBatcherMetricsForBlock (sb_blockNumber block) m (snd us) in
          (if ok then fst us + 1 else fst us, s')
      | _ \<Rightarrow> us)"

definition fillRecentMissingBatcherMetrics :: "env \<Rightarrow> bool \<Rightarrow> store \<Rightarrow> nat \<times> store" where
  "fillRecentMissingBatcherMetrics env batcherCollector s =
     (if \<not> batcherCollector then (0, s)
      else fold (fill_batcher_step env) (queryRecentBlocksMissingBatcherMetrics (en_date env) 100 s) (0, s))"

section \<open>The loops\<close>

text \<open>One turn of the near-head loop: a slice of backfill, the catch-up, the late metrics.\<close>

definition near_head_turn ::
  "nat \<Rightarrow> (nat list \<Rightarrow> nat) \<Rightarrow> (string \<Rightarrow> string) \<Rightarrow> scanner_config \<Rightarrow> world \<Rightarrow> nat \<times> store \<Rightarrow> (bool \<times> nat \<times> store) run" where
  "near_head_turn fuel zstd keccak config world ts =
     (case (if sc_disableBackfill config then Some (Inr (None, ts))
            else case readSafeHeadWithRetry fuel config world ts of
                   None \<Rightarrow> None
                 | Some (backfillSafeHead, ts1) \<Rightarrow>
                     backfillDownForSlice fuel zstd keccak config world backfillSafeHead ts1) of
        None \<Rightarrow> None
      | Some (Inl e) \<Rightarrow> Some (Inl e)
      | Some (Inr (lowestBackfilledBlock, ts2)) \<Rightarrow>
          (case readSafeHeadWithRetry fuel config world ts2 of
             None \<Rightarrow> None
           | Some (catchUpSafeHead, ts3) \<Rightarrow>
               (case scanForwardToSafeHead fuel zstd keccak config world catchUpSafeHead
                       (case lowestBackfilledBlock of Some b \<Rightarrow> b | None \<Rightarrow> catchUpSafeHead) ts3 of
                  None \<Rightarrow> None
                | Some (Inl e) \<Rightarrow> Some (Inl e)
                | Some (Inr (scannedForward, t, s)) \<Rightarrow>
                    Some (Inr (scannedForward, t,
                      snd (fillRecentMissingBatcherMetrics (world t) (sc_batcher config) s))))))"

fun runNearHeadBackfillScanner ::
  "nat \<Rightarrow> nat \<Rightarrow> (nat list \<Rightarrow> nat) \<Rightarrow> (string \<Rightarrow> string) \<Rightarrow> scanner_config \<Rightarrow> world \<Rightarrow> nat \<times> store \<Rightarrow> (nat \<times> store) run" where
  "runNearHeadBackfillScanner 0 fuel zstd keccak config world ts = Some (Inr ts)"
| "runNearHeadBackfillScanner (Suc turns) fuel zstd keccak config world ts =
     (case near_head_turn fuel zstd keccak config world ts of
        None \<Rightarrow> None
      | Some (Inl e) \<Rightarrow> Some (Inl e)
      | Some (Inr (scannedForward, ts')) \<Rightarrow> runNearHeadBackfillScanner turns fuel zstd keccak config world ts')"

definition backfill_turn ::
  "nat \<Rightarrow> (nat list \<Rightarrow> nat) \<Rightarrow> (string \<Rightarrow> string) \<Rightarrow> scanner_config \<Rightarrow> world \<Rightarrow> nat \<times> store \<Rightarrow> (nat \<times> store) run" where
  "backfill_turn fuel zstd keccak config world ts =
     (case readSafeHeadWithRetry fuel config world ts of
        None \<Rightarrow> None
      | Some (safeHead, ts1) \<Rightarrow>
          (case backfillDownForSlice fuel zstd keccak config world safeHead ts1 of
             None \<Rightarrow> None
           | Some (Inl e) \<Rightarrow> Some (Inl e)
           | Some (Inr (lowestBackfilledBlock, t, s)) \<Rightarrow>
               Some (Inr (t, snd (fillRecentMissingBatcherMetrics (world t) (sc_batcher config) s)))))"

text \<open>The backfill-only scanner idles when backfill is disabled.\<close>

fun runBackfillScanner ::
  "nat \<Rightarrow> nat \<Rightarrow> (nat list \<Rightarrow> nat) \<Rightarrow> (string \<Rightarrow> string) \<Rightarrow> scanner_config \<Rightarrow> world \<Rightarrow> nat \<times> store \<Rightarrow> (nat \<times> store) run" where
  "runBackfillScanner 0 fuel zstd keccak config world ts = Some (Inr ts)"
| "runBackfillScanner (Suc turns) fuel zstd keccak config world ts =
     (if sc_disableBackfill config then runBackfillScanner turns fuel zstd keccak config world ts
      else case backfill_turn fuel zstd keccak config world ts of
             None \<Rightarrow> None
           | Some (Inl e) \<Rightarrow> Some (Inl e)
           | Some (Inr ts') \<Rightarrow> runBackfillScanner turns fuel zstd keccak config world ts')"

end
