(* ===== verification/ScannerFacts.thy ===== *)
theory ScannerFacts
  imports Scanner
begin

text \<open>
  What the scanner's loops do to the stored blocks and the cursors. The loops only save blocks one
  after the other; the locale states what a save promises, and its lemmas what a walk down or up of
  saves adds up to. The model's store is its interpretation, and the turns of the scanner keep the
  stored blocks without a hole.
\<close>

section \<open>Walks\<close>

text \<open>Saving \<open>n\<close>, \<open>n - 1\<close>, ... down to \<open>b + 1\<close>; saving \<open>n\<close>, \<open>n + 1\<close>, ... up to \<open>h\<close>.\<close>

inductive saves_down :: "(int \<Rightarrow> progress_update \<Rightarrow> 's \<Rightarrow> 's \<Rightarrow> bool) \<Rightarrow> int \<Rightarrow> int \<Rightarrow> 's \<Rightarrow> 's \<Rightarrow> bool"
  for saved where
  down_stop: "saves_down saved n n s s"
| down_step: "saved n (BackfillNextBlock (n - 1)) s s1 \<Longrightarrow> saves_down saved (n - 1) b s1 s2 \<Longrightarrow> saves_down saved n b s s2"

inductive saves_up :: "(int \<Rightarrow> progress_update \<Rightarrow> 's \<Rightarrow> 's \<Rightarrow> bool) \<Rightarrow> int \<Rightarrow> int \<Rightarrow> 's \<Rightarrow> 's \<Rightarrow> bool"
  for saved where
  up_stop: "h < n \<Longrightarrow> saves_up saved n h s s"
| up_step: "n \<le> h \<Longrightarrow> saved n LastSuccessfulBlock s s1 \<Longrightarrow> saves_up saved (n + 1) h s1 s2 \<Longrightarrow> saves_up saved n h s s2"

locale progress_store =
  fixes stored :: "'s \<Rightarrow> int \<Rightarrow> bool"
    and last_cursor next_cursor :: "'s \<Rightarrow> int option"
    and saved :: "int \<Rightarrow> progress_update \<Rightarrow> 's \<Rightarrow> 's \<Rightarrow> bool"
  assumes saved_stored: "saved n p s s' \<Longrightarrow> stored s' m \<longleftrightarrow> stored s m \<or> m = n"
    and saved_last: "saved n p s s' \<Longrightarrow>
      last_cursor s' = (case p of LastSuccessfulBlock \<Rightarrow> Some n | _ \<Rightarrow> last_cursor s)"
    and saved_next: "saved n p s s' \<Longrightarrow>
      next_cursor s' = (case p of BackfillNextBlock b \<Rightarrow> Some b | _ \<Rightarrow> next_cursor s)"
begin

lemma down_le: "saves_down saved n b s s' \<Longrightarrow> b \<le> n"
  by (induction rule: saves_down.induct) simp_all

lemma down_stored: "saves_down saved n b s s' \<Longrightarrow> stored s' m \<longleftrightarrow> stored s m \<or> (b < m \<and> m \<le> n)"
proof (induction rule: saves_down.induct)
  case (down_step n s s1 b s2)
  then show ?case using saved_stored [OF down_step.hyps(1), of m] down_le [OF down_step.hyps(2)] by auto
qed auto

lemma down_cursors:
  "saves_down saved n b s s' \<Longrightarrow> last_cursor s' = last_cursor s \<and>
     next_cursor s' = (if b < n then Some b else next_cursor s)"
proof (induction rule: saves_down.induct)
  case (down_step n s s1 b s2)
  then show ?case
    using saved_last [OF down_step.hyps(1)] saved_next [OF down_step.hyps(1)] down_le [OF down_step.hyps(2)]
    by auto
qed simp

lemma up_stored: "saves_up saved n h s s' \<Longrightarrow> stored s' m \<longleftrightarrow> stored s m \<or> (n \<le> m \<and> m \<le> h)"
proof (induction rule: saves_up.induct)
  case (up_step n h s s1 s2)
  then show ?case using saved_stored [OF up_step.hyps(2), of m] by auto
qed auto

lemma up_cursors:
  "saves_up saved n h s s' \<Longrightarrow> next_cursor s' = next_cursor s \<and>
     last_cursor s' = (if n \<le> h then Some h else last_cursor s)"
proof (induction rule: saves_up.induct)
  case (up_step n h s s1 s2)
  then show ?case
    using saved_last [OF up_step.hyps(2)] saved_next [OF up_step.hyps(2)] by auto
qed simp

text \<open>
  No hole: nothing is stored, or exactly the blocks from some \<open>lo\<close> up to the last one, with the
  backfill cursor not below \<open>lo - 1\<close>.
\<close>

definition hole_free :: "'s \<Rightarrow> int \<Rightarrow> bool" where
  "hole_free s h \<longleftrightarrow>
     (last_cursor s = None \<and> next_cursor s = None \<and> (\<forall>n. \<not> stored s n)) \<or>
     (\<exists>lo \<le> h. last_cursor s = Some h \<and> (\<forall>n. stored s n \<longleftrightarrow> lo \<le> n \<and> n \<le> h) \<and>
       (\<forall>b. next_cursor s = Some b \<longrightarrow> lo - 1 \<le> b \<and> b \<le> h))"

text \<open>A slice of backfill from \<open>h1\<close> and the catch-up to \<open>h2\<close> keep it, while the head does not fall.\<close>

lemma turn_hole_free:
  assumes inv: "hole_free s h" and heads: "h \<le> h1" "h1 \<le> h2"
    and start: "start = (case next_cursor s of None \<Rightarrow> h1 | Some n \<Rightarrow> if n > h1 then h1 else n)"
    and down: "saves_down saved start b s s1'"
    and between: "stored s1 = stored s1'" "last_cursor s1 = last_cursor s1'" "next_cursor s1 = next_cursor s1'"
    and up: "saves_up saved (case last_cursor s1 of None \<Rightarrow> (if b < start then b + 1 else h2) | Some l \<Rightarrow> l + 1) h2 s1 s2"
  shows "hole_free s2 h2 \<and> last_cursor s2 = Some h2"
proof -
  note le = down_le [OF down]
  note st1 = down_stored [OF down, folded between] and c1 = down_cursors [OF down, folded between]
  note st2 = up_stored [OF up] and c2 = up_cursors [OF up]
  show ?thesis
  proof (cases "last_cursor s")
    case None
    then have fresh: "next_cursor s = None" "\<And>n. \<not> stored s n" using inv by (auto simp: hole_free_def)
    then have h1: "start = h1" by (simp add: start)
    let ?lo = "if b < start then b + 1 else h2"
    have "last_cursor s1 = None" using c1 None by simp
    then have "\<forall>n. stored s2 n \<longleftrightarrow> ?lo \<le> n \<and> n \<le> h2"
      using st1 st2 fresh(2) le h1 heads(2) by auto
    moreover have "last_cursor s2 = Some h2" using c2 \<open>last_cursor s1 = None\<close> h1 heads(2) by auto
    moreover have "\<forall>b'. next_cursor s2 = Some b' \<longrightarrow> ?lo - 1 \<le> b' \<and> b' \<le> h2"
      using c1 c2 fresh(1) h1 heads(2) by auto
    moreover have "?lo \<le> h2" using h1 heads(2) by auto
    ultimately show ?thesis unfolding hole_free_def by blast
  next
    case (Some l)
    then obtain lo where lo: "lo \<le> h" "l = h" "\<And>n. stored s n \<longleftrightarrow> lo \<le> n \<and> n \<le> h"
      "\<And>b. next_cursor s = Some b \<Longrightarrow> lo - 1 \<le> b \<and> b \<le> h"
      using inv by (auto simp: hole_free_def)
    have last1: "last_cursor s1 = Some h" using c1 Some lo(2) by simp
    have start': "lo - 1 \<le> start" "start \<le> h1"
      using start lo(1) lo(4) heads(1) by (auto split: option.splits if_splits)
    let ?lo = "min lo (b + 1)"
    have "\<forall>n. stored s2 n \<longleftrightarrow> ?lo \<le> n \<and> n \<le> h2"
    proof
      fix n
      have "stored s2 n \<longleftrightarrow> (lo \<le> n \<and> n \<le> h) \<or> (b < n \<and> n \<le> start) \<or> (h + 1 \<le> n \<and> n \<le> h2)"
        using st1 [of n] st2 [of n] lo(3) [of n] last1 by auto
      also have "\<dots> \<longleftrightarrow> ?lo \<le> n \<and> n \<le> h2"
        using lo(1) start' le heads by (cases "lo \<le> b + 1"; cases "n \<le> h"; cases "n \<le> b") auto
      finally show "stored s2 n \<longleftrightarrow> ?lo \<le> n \<and> n \<le> h2" .
    qed
    moreover have "last_cursor s2 = Some h2" using c2 last1 heads by auto
    moreover have "\<forall>b'. next_cursor s2 = Some b' \<longrightarrow> ?lo - 1 \<le> b' \<and> b' \<le> h2"
      using c1 c2 lo(4) start' heads by (auto simp: min_def split: if_splits)
    moreover have "?lo \<le> h2" using lo(1) heads by (auto simp: min_def)
    ultimately show ?thesis unfolding hole_free_def by blast
  qed
qed

end

section \<open>The store keeps the promise\<close>

definition block_saved :: "int \<Rightarrow> progress_update \<Rightarrow> store \<Rightarrow> store \<Rightarrow> bool" where
  "block_saved n p s s' \<longleftrightarrow>
     (\<exists>m ts candidates operations balances. bm_blockNumber m = n \<and>
        saveBlockMetrics m p ts candidates operations balances s = Inr s')"

definition last_of :: "store \<Rightarrow> int option" where
  "last_of s = (case getLastSuccessfulBlock s of Inr v \<Rightarrow> v | Inl e \<Rightarrow> None)"

definition next_of :: "store \<Rightarrow> int option" where
  "next_of s = (case getBackfillNextBlock s of Inr v \<Rightarrow> v | Inl e \<Rightarrow> None)"

lemma upsert_block_get:
  "map_get (upsert_block m bs) n \<noteq> None \<longleftrightarrow> n = bm_blockNumber m \<or> map_get bs n \<noteq> None"
  by (auto simp: upsert_block_def split: option.splits)

lemma upsert_block_ok: "map_ok bs \<Longrightarrow> map_ok (upsert_block m bs)"
  by (auto simp: upsert_block_def split: option.splits)

interpretation store_progress: progress_store is_stored last_of next_of block_saved
proof unfold_locales
  fix n p s s' m
  assume "block_saved n p s s'"
  then obtain bm ts c ops bals where m: "bm_blockNumber bm = n" "saveBlockMetrics bm p ts c ops bals s = Inr s'"
    by (auto simp: block_saved_def)
  have f: "st_blocks s' = upsert_block bm (st_blocks s)" "st_state s' = st_state (applyProgressUpdate bm p s)"
    using saveBlockMetrics_fields [OF m(2)] by auto
  show "is_stored s' m \<longleftrightarrow> is_stored s m \<or> m = n"
    using f(1) m(1) upsert_block_get [of bm "st_blocks s" m] by (auto simp: is_stored_def)
  show "last_of s' = (case p of LastSuccessfulBlock \<Rightarrow> Some n | _ \<Rightarrow> last_of s)"
    using f(2) m(1) by (cases p)
      (simp_all add: last_of_def getLastSuccessfulBlock_def getStateBigInt_def getStateValue_def applyProgress_state BigInt_of_dec)
  show "next_of s' = (case p of BackfillNextBlock b \<Rightarrow> Some b | _ \<Rightarrow> next_of s)"
    using f(2) m(1) by (cases p)
      (simp_all add: next_of_def getBackfillNextBlock_def getStateBigInt_def getStateValue_def applyProgress_state BigInt_of_dec)
qed

text \<open>Both cursors are readable numbers, and the blocks table has one row per number.\<close>

definition store_ok :: "store \<Rightarrow> bool" where
  "store_ok s \<longleftrightarrow> map_ok (st_blocks s) \<and> getLastSuccessfulBlock s = Inr (last_of s) \<and>
     getBackfillNextBlock s = Inr (next_of s)"

lemma store_ok_saved: "block_saved n p s s' \<Longrightarrow> store_ok s \<Longrightarrow> store_ok s'"
proof -
  assume "block_saved n p s s'" and ok: "store_ok s"
  then obtain bm ts c ops bals where m: "bm_blockNumber bm = n" "saveBlockMetrics bm p ts c ops bals s = Inr s'"
    by (auto simp: block_saved_def)
  have f: "st_blocks s' = upsert_block bm (st_blocks s)" "st_state s' = st_state (applyProgressUpdate bm p s)"
    using saveBlockMetrics_fields [OF m(2)] by auto
  show "store_ok s'"
    using ok f by (cases p) (auto simp: store_ok_def last_of_def next_of_def getLastSuccessfulBlock_def getBackfillNextBlock_def
        getStateBigInt_def getStateValue_def applyProgress_state BigInt_of_dec upsert_block_ok split: option.splits)
qed

lemma store_ok_down: "saves_down block_saved n b s s' \<Longrightarrow> store_ok s \<Longrightarrow> store_ok s'"
  by (induction rule: saves_down.induct) (auto dest: store_ok_saved)

lemma store_ok_up: "saves_up block_saved n h s s' \<Longrightarrow> store_ok s \<Longrightarrow> store_ok s'"
  by (induction rule: saves_up.induct) (auto dest: store_ok_saved)

lemma store_ok_empty: "store_ok empty_store"
  by (simp add: store_ok_def empty_store_def last_of_def next_of_def getLastSuccessfulBlock_def
      getBackfillNextBlock_def getStateBigInt_def getStateValue_def)

text \<open>Steps that touch neither the set of stored blocks nor the cursors.\<close>

definition same_progress :: "store \<Rightarrow> store \<Rightarrow> bool" where
  "same_progress s s' \<longleftrightarrow> is_stored s' = is_stored s \<and> last_of s' = last_of s \<and> next_of s' = next_of s \<and>
     (store_ok s \<longrightarrow> store_ok s')"

lemma same_progress_refl [simp]: "same_progress s s"
  by (simp add: same_progress_def)

lemma same_progress_trans: "same_progress s s1 \<Longrightarrow> same_progress s1 s2 \<Longrightarrow> same_progress s s2"
  by (simp add: same_progress_def)

lemma recordChainProgress_same: "same_progress s (recordChainProgress env a b s)"
proof -
  have "is_stored (upsertStateValue k v s) = is_stored s" for k v s
    by (rule ext) (simp add: is_stored_def upsertStateValue_def)
  moreover have "getStateValue k (saveChainProgress a b d s) = getStateValue k s"
    if "k = LAST_SUCCESSFUL_BLOCK_KEY \<or> k = BACKFILL_NEXT_BLOCK_KEY" for k d
    using that
    by (auto simp: saveChainProgress_def upsertStateValue_def getStateValue_def LAST_SUCCESSFUL_BLOCK_KEY_def
        BACKFILL_NEXT_BLOCK_KEY_def LATEST_OBSERVED_AT_KEY_def SAFE_HEAD_BLOCK_KEY_def LATEST_OBSERVED_BLOCK_KEY_def)
  moreover have "st_blocks (saveChainProgress a b d s) = st_blocks s" for d
    by (simp add: saveChainProgress_def upsertStateValue_def)
  ultimately show ?thesis
    by (simp add: recordChainProgress_def same_progress_def saveChainProgress_def last_of_def next_of_def
        getLastSuccessfulBlock_def getBackfillNextBlock_def getStateBigInt_def store_ok_def)
qed

lemma saveBatcherMetrics_same: "same_progress s (snd (saveBatcherMetricsForBlock n m s))"
proof (cases "map_get (st_blocks s) n")
  case None
  then show ?thesis by (simp add: saveBatcherMetricsForBlock_def)
next
  case (Some old)
  have "is_stored (snd (saveBatcherMetricsForBlock n m s)) = is_stored s"
    by (rule ext) (simp add: saveBatcherMetricsForBlock_def Some is_stored_def)
  then show ?thesis
    by (simp add: saveBatcherMetricsForBlock_def Some same_progress_def last_of_def next_of_def
        getLastSuccessfulBlock_def getBackfillNextBlock_def getStateBigInt_def getStateValue_def store_ok_def)
qed

lemma fillRecent_same: "same_progress s (snd (fillRecentMissingBatcherMetrics env c s))"
proof -
  have step: "same_progress (snd us) (snd (fill_batcher_step env b us))" for b us
    using saveBatcherMetrics_same [of "snd us" "sb_blockNumber b"]
    by (auto simp: fill_batcher_step_def Let_def split: sum.splits option.splits prod.splits)
       (metis snd_conv)
  have "same_progress (snd us) (snd (fold (fill_batcher_step env) bs us))" for bs us
  proof (induction bs arbitrary: us)
    case (Cons b bs)
    show ?case using same_progress_trans [OF step Cons.IH, of us b] by simp
  qed simp
  from this [of "(0, s)"] show ?thesis by (simp add: fillRecentMissingBatcherMetrics_def)
qed

section \<open>The loops are walks\<close>

text \<open>A node that answers with the block it was asked for, as JSON-RPC documents.\<close>

definition answers_what_is_asked :: "world \<Rightarrow> bool" where
  "answers_what_is_asked world \<longleftrightarrow>
     (\<forall>t n block. en_block (world t) n = Inr block \<longrightarrow>
        (\<exists>number. rb_number block = Some number \<and> hexToBigInt (Some number) = Inr n))"

lemma scanOneBlock_saves:
  assumes "answers_what_is_asked world" "scanOneBlock zstd keccak config (world t) n p s = Inr s'"
  shows "block_saved n p s s'"
proof -
  from assms(2) obtain block previous receipts computed transactions inspected ops balances where run:
    "en_block (world t) n = Inr block"
    "computeBlockMetrics zstd block receipts previous = Inr computed"
    "saveBlockMetrics (enrichWithBatcherMetrics (world t) (sc_batcher config) computed) p transactions inspected ops balances s = Inr s'"
    by (auto simp: scanOneBlock_def bind_result_eq_Inr Let_def split: if_splits)
  from run(2) obtain number m where "rb_number block = Some number" "hexToBigInt (Some number) = Inr m"
    "bm_blockNumber computed = m"
    by (rule computeBlockMetrics_InrE) (simp add: metrics_row_def Let_def)
  then have "bm_blockNumber computed = n" using assms(1) run(1) by (force simp: answers_what_is_asked_def)
  then have "bm_blockNumber (enrichWithBatcherMetrics (world t) (sc_batcher config) computed) = n"
    by (auto simp: enrichWithBatcherMetrics_def split: sum.splits option.splits)
  then show ?thesis using run(3) unfolding block_saved_def by blast
qed

lemma scanBlockWithRetry_saves:
  "answers_what_is_asked world \<Longrightarrow>
   scanBlockWithRetry fuel zstd keccak config world n p (t, s) = Some (t', s') \<Longrightarrow> t < t' \<and> block_saved n p s s'"
proof (induction fuel arbitrary: t)
  case (Suc fuel)
  show ?case
  proof (cases "scanOneBlock zstd keccak config (world t) n p s")
    case (Inl e)
    then show ?thesis using Suc.IH [of "t + 1"] Suc.prems by auto
  next
    case (Inr s1)
    then show ?thesis using Suc.prems scanOneBlock_saves [OF Suc.prems(1) Inr] by simp
  qed
qed simp

lemma backfill_loop_walk:
  "answers_what_is_asked world \<Longrightarrow>
   backfill_loop fuel zstd keccak config world deadline nxt low (t, s) = Some (low', t', s') \<Longrightarrow>
   t \<le> t' \<and> (\<exists>b. saves_down block_saved nxt b s s' \<and> low' = (if b < nxt then Some (b + 1) else low) \<and>
     (b < nxt \<longrightarrow> sc_oldestBackfillBlock config \<le> b + 1))"
proof (induction fuel zstd keccak config world deadline nxt low "(t, s)" arbitrary: t s rule: backfill_loop.induct)
  case (1 fuel zstd keccak config world deadline nxt low t s)
  show ?case
  proof (cases "sc_oldestBackfillBlock config \<le> nxt \<and> en_now (world t) < deadline")
    case True
    then obtain t1 s1 where one: "scanBlockWithRetry fuel zstd keccak config world nxt (BackfillNextBlock (nxt - 1)) (t, s) = Some (t1, s1)"
      "backfill_loop fuel zstd keccak config world deadline (nxt - 1) (Some nxt) (t1, s1) = Some (low', t', s')"
      using "1.prems"(2) by (subst (asm) backfill_loop.simps) (auto split: option.splits)
    from "1.hyps" [OF True one(1) "1.prems"(1) one(2)] obtain b where b: "t1 \<le> t'"
      "saves_down block_saved (nxt - 1) b s1 s'" "low' = (if b < nxt - 1 then Some (b + 1) else Some nxt)" "b < nxt - 1 \<longrightarrow> sc_oldestBackfillBlock config \<le> b + 1"
      by blast
    from scanBlockWithRetry_saves [OF "1.prems"(1) one(1)] have s: "t < t1" "block_saved nxt (BackfillNextBlock (nxt - 1)) s s1"
      by simp_all
    have "saves_down block_saved nxt b s s'" using s(2) b(2) by (rule down_step)
    moreover have "b \<le> nxt - 1" by (rule store_progress.down_le [OF b(2)])
    ultimately show ?thesis using b s(1) True by (intro conjI exI [of _ b]) auto
  next
    case False
    then have "(low', t', s') = (low, t, s)"
      using "1.prems"(2) by (subst (asm) backfill_loop.simps) auto
    then show ?thesis by (auto intro!: exI [of _ nxt] down_stop)
  qed
qed

lemma forward_loop_walk:
  "answers_what_is_asked world \<Longrightarrow>
   forward_loop fuel zstd keccak config world h nxt sc (t, s) = Some (sc', t', s') \<Longrightarrow>
   t \<le> t' \<and> saves_up block_saved nxt h s s' \<and> (sc' \<longleftrightarrow> sc \<or> nxt \<le> h)"
proof (induction fuel zstd keccak config world h nxt sc "(t, s)" arbitrary: t s rule: forward_loop.induct)
  case (1 fuel zstd keccak config world h nxt sc t s)
  show ?case
  proof (cases "nxt \<le> h")
    case True
    then obtain t1 s1 where one: "scanBlockWithRetry fuel zstd keccak config world nxt LastSuccessfulBlock (t, s) = Some (t1, s1)"
      "forward_loop fuel zstd keccak config world h (nxt + 1) True (t1, s1) = Some (sc', t', s')"
      using "1.prems"(2) by (subst (asm) forward_loop.simps) (auto split: option.splits)
    from "1.hyps" [OF True one(1) "1.prems"(1) one(2)] have rest: "t1 \<le> t'" "saves_up block_saved (nxt + 1) h s1 s'" "sc'"
      by simp_all
    from scanBlockWithRetry_saves [OF "1.prems"(1) one(1)] have s: "t < t1" "block_saved nxt LastSuccessfulBlock s s1"
      by simp_all
    have "saves_up block_saved nxt h s s'" using True s(2) rest(2) by (rule up_step)
    then show ?thesis using rest s(1) True by auto
  next
    case False
    then have "(sc', t', s') = (sc, t, s)"
      using "1.prems"(2) by (subst (asm) forward_loop.simps) auto
    then show ?thesis using False by (auto intro: up_stop)
  qed
qed

section \<open>Turns\<close>

text \<open>The node's latest block never falls (no reorganisation behind it, no endpoint that lags).\<close>

definition heads_never_fall :: "world \<Rightarrow> bool" where
  "heads_never_fall world \<longleftrightarrow>
     (\<forall>t u a b. t \<le> u \<longrightarrow> en_latest (world t) = Inr a \<longrightarrow> en_latest (world u) = Inr b \<longrightarrow> a \<le> b)"

definition below_heads :: "world \<Rightarrow> scanner_config \<Rightarrow> nat \<Rightarrow> int \<Rightarrow> bool" where
  "below_heads world config t h \<longleftrightarrow>
     (\<forall>u a. t \<le> u \<longrightarrow> en_latest (world u) = Inr a \<longrightarrow> h \<le> computeSafeHead a (sc_confirmationDepth config))"

lemma computeSafeHead_nonneg: "0 \<le> computeSafeHead a d"
  by (simp add: computeSafeHead_def)

lemma computeSafeHead_mono: "a \<le> b \<Longrightarrow> computeSafeHead a d \<le> computeSafeHead b d"
  by (simp add: computeSafeHead_def)

lemma below_heads_later: "below_heads world config t h \<Longrightarrow> t \<le> t' \<Longrightarrow> below_heads world config t' h"
  unfolding below_heads_def by (meson order_trans)

lemma readSafeHead_effect:
  "readSafeHeadWithRetry fuel config world (t, s) = Some (h, t', s') \<Longrightarrow> heads_never_fall world \<Longrightarrow>
   t < t' \<and> same_progress s s' \<and> (\<forall>g. below_heads world config t g \<longrightarrow> g \<le> h) \<and> below_heads world config t' h \<and> 0 \<le> h"
proof (induction fuel arbitrary: t)
  case (Suc fuel)
  show ?case
  proof (cases "en_latest (world t)")
    case (Inl e)
    then have "readSafeHeadWithRetry fuel config world (t + 1, s) = Some (h, t', s')" using Suc.prems by simp
    from Suc.IH [OF this Suc.prems(2)] show ?thesis
      using below_heads_later [of world config t _ "t + 1"] by auto
  next
    case (Inr a)
    then have eq: "h = computeSafeHead a (sc_confirmationDepth config)" "t' = t + 1"
      "s' = recordChainProgress (world t) a h s"
      using Suc.prems by (auto simp: Let_def)
    have "below_heads world config t' h"
      unfolding below_heads_def eq
    proof (intro allI impI)
      fix u b assume "t + 1 \<le> u" "en_latest (world u) = Inr b"
      then have "a \<le> b" using Suc.prems(2) Inr unfolding heads_never_fall_def by (metis add_leD1)
      then show "computeSafeHead a (sc_confirmationDepth config) \<le> computeSafeHead b (sc_confirmationDepth config)"
        by (rule computeSafeHead_mono)
    qed
    then show ?thesis
      using recordChainProgress_same Inr by (auto simp: eq below_heads_def computeSafeHead_nonneg)
  qed
qed simp

definition turn_inv :: "world \<Rightarrow> scanner_config \<Rightarrow> nat \<Rightarrow> store \<Rightarrow> bool" where
  "turn_inv world config t s \<longleftrightarrow> store_ok s \<and> (\<exists>h. 0 \<le> h \<and> store_progress.hole_free s h \<and> below_heads world config t h)"

lemma hole_free_same:
  "same_progress s s' \<Longrightarrow> store_progress.hole_free s h \<Longrightarrow> store_progress.hole_free s' h"
  by (simp add: store_progress.hole_free_def same_progress_def)

lemma backfill_effect:
  assumes "backfillDownForSlice fuel zstd keccak config world h1 (t, s) = Some r" "answers_what_is_asked world" "store_ok s"
  shows "\<exists>low t' s' b start. r = Inr (low, t', s') \<and> t \<le> t' \<and> store_ok s' \<and>
    start = (case next_of s of None \<Rightarrow> h1 | Some n \<Rightarrow> if n > h1 then h1 else n) \<and>
    saves_down block_saved start b s s' \<and> low = (if b < start then Some (b + 1) else None) \<and>
    (b < start \<longrightarrow> sc_oldestBackfillBlock config \<le> b + 1)"
proof -
  let ?start = "case next_of s of None \<Rightarrow> h1 | Some n \<Rightarrow> if n > h1 then h1 else n"
  have "getBackfillNextBlock s = Inr (next_of s)" using assms(3) by (simp add: store_ok_def)
  with assms(1) obtain low t' s' where run: "r = Inr (low, t', s')"
    "backfill_loop fuel zstd keccak config world (en_now (world t) + BACKFILL_SLICE_MS) ?start None (t, s) = Some (low, t', s')"
    by (auto simp: backfillDownForSlice_def Let_def)
  from backfill_loop_walk [OF assms(2) run(2)] obtain b where "t \<le> t'" "saves_down block_saved ?start b s s'"
    "low = (if b < ?start then Some (b + 1) else None)" "b < ?start \<longrightarrow> sc_oldestBackfillBlock config \<le> b + 1" by blast
  then show ?thesis using run(1) store_ok_down assms(3) by blast
qed

lemma forward_effect:
  assumes "scanForwardToSafeHead fuel zstd keccak config world h2 lower (t, s) = Some r" "answers_what_is_asked world" "store_ok s"
  shows "\<exists>sc t' s'. r = Inr (sc, t', s') \<and> t \<le> t' \<and> store_ok s' \<and>
    saves_up block_saved (case last_of s of None \<Rightarrow> lower | Some l \<Rightarrow> l + 1) h2 s s'"
proof -
  let ?from = "case last_of s of None \<Rightarrow> lower | Some l \<Rightarrow> l + 1"
  have "getLastSuccessfulBlock s = Inr (last_of s)" using assms(3) by (simp add: store_ok_def)
  with assms(1) obtain sc t' s' where run: "r = Inr (sc, t', s')"
    "forward_loop fuel zstd keccak config world h2 ?from False (t, s) = Some (sc, t', s')"
    by (auto simp: scanForwardToSafeHead_def Let_def)
  from forward_loop_walk [OF assms(2) run(2)] have "t \<le> t'" "saves_up block_saved ?from h2 s s'" by simp_all
  then show ?thesis using run(1) store_ok_up assms(3) by blast
qed

lemma near_head_turn_inv:
  assumes turn: "near_head_turn fuel zstd keccak config world (t, s) = Some r"
    and node: "answers_what_is_asked world" and heads: "heads_never_fall world" and inv: "turn_inv world config t s"
  shows "\<exists>sc t' s' h. r = Inr (sc, t', s') \<and> t < t' \<and> turn_inv world config t' s' \<and>
    store_progress.hole_free s' h \<and> last_of s' = Some h \<and> 0 \<le> h \<and>
    (\<forall>g. below_heads world config t g \<longrightarrow> g \<le> h)"
proof -
  from inv obtain h where ok: "store_ok s" and h: "store_progress.hole_free s h" "below_heads world config t h"
    by (auto simp: turn_inv_def)
  \<comment> \<open>the slice of backfill, or none\<close>
  obtain low t2 s2 h1 b start s1 where down: "t \<le> t2" "store_ok s2" "same_progress s s1" "h \<le> h1"
    "below_heads world config t2 h1 \<or> (h1 = h \<and> below_heads world config t2 h)"
    "start = (case next_of s1 of None \<Rightarrow> h1 | Some n \<Rightarrow> if n > h1 then h1 else n)"
    "saves_down block_saved start b s1 s2" "low = (if b < start then Some (b + 1) else None)"
    and rest: "(case readSafeHeadWithRetry fuel config world (t2, s2) of
             None \<Rightarrow> None
           | Some (catchUpSafeHead, ts3) \<Rightarrow>
               (case scanForwardToSafeHead fuel zstd keccak config world catchUpSafeHead
                       (case low of Some b \<Rightarrow> b | None \<Rightarrow> catchUpSafeHead) ts3 of
                  None \<Rightarrow> None
                | Some (Inl e) \<Rightarrow> Some (Inl e)
                | Some (Inr (scannedForward, t, s)) \<Rightarrow>
                    Some (Inr (scannedForward, t,
                      snd (fillRecentMissingBatcherMetrics (world t) (sc_batcher config) s))))) = Some r"
  proof (cases "sc_disableBackfill config")
    case True
    let ?start = "case next_of s of None \<Rightarrow> h | Some n \<Rightarrow> if n > h then h else n"
    show ?thesis
      by (rule that [of t s s h ?start ?start None]) (use turn True ok h in \<open>auto simp: near_head_turn_def intro: down_stop\<close>)
  next
    case False
    with turn obtain h1 t1 s1 r1 where one: "readSafeHeadWithRetry fuel config world (t, s) = Some (h1, t1, s1)"
      "backfillDownForSlice fuel zstd keccak config world h1 (t1, s1) = Some r1"
      by (auto simp: near_head_turn_def split: option.splits prod.splits)
    from readSafeHead_effect [OF one(1) heads] have head: "t < t1" "same_progress s s1" "h \<le> h1" "below_heads world config t1 h1"
      using h(2) by auto
    have ok1: "store_ok s1" using head(2) ok by (simp add: same_progress_def)
    from backfill_effect [OF one(2) node ok1] obtain low t2 s2 b start where
      d: "r1 = Inr (low, t2, s2)" "t1 \<le> t2" "store_ok s2"
      "start = (case next_of s1 of None \<Rightarrow> h1 | Some n \<Rightarrow> if n > h1 then h1 else n)"
      "saves_down block_saved start b s1 s2" "low = (if b < start then Some (b + 1) else None)"
      by blast
    show ?thesis
      by (rule that [of t2 s2 s1 h1 start b low])
         (use turn False one head d in \<open>auto simp: near_head_turn_def intro: below_heads_later\<close>)
  qed
  \<comment> \<open>the catch-up\<close>
  from rest obtain h2 t3 s3 r3 where two: "readSafeHeadWithRetry fuel config world (t2, s2) = Some (h2, t3, s3)"
    "scanForwardToSafeHead fuel zstd keccak config world h2 (case low of Some b \<Rightarrow> b | None \<Rightarrow> h2) (t3, s3) = Some r3"
    by (auto split: option.splits prod.splits)
  from readSafeHead_effect [OF two(1) heads] have head2: "t2 < t3" "same_progress s2 s3"
    "below_heads world config t3 h2" "h1 \<le> h2" "0 \<le> h2"
    "\<And>g. below_heads world config t g \<Longrightarrow> g \<le> h2"
    using down(5) below_heads_later [OF _ down(1)] by auto
  have ok3: "store_ok s3" using head2(2) down(2) by (simp add: same_progress_def)
  from forward_effect [OF two(2) node ok3] obtain sc t4 s4 where f: "r3 = Inr (sc, t4, s4)" "t3 \<le> t4" "store_ok s4"
    "saves_up block_saved (case last_of s3 of None \<Rightarrow> (case low of Some b \<Rightarrow> b | None \<Rightarrow> h2) | Some l \<Rightarrow> l + 1) h2 s3 s4"
    by blast
  let ?s5 = "snd (fillRecentMissingBatcherMetrics (world t4) (sc_batcher config) s4)"
  have r: "r = Inr (sc, t4, ?s5)" using rest two f(1) by simp
  have low: "(case low of Some b \<Rightarrow> b | None \<Rightarrow> h2) = (if b < start then b + 1 else h2)" using down(8) by simp
  have both: "store_progress.hole_free s4 h2 \<and> last_of s4 = Some h2"
  proof (rule store_progress.turn_hole_free)
    show "store_progress.hole_free s1 h" using hole_free_same [OF down(3) h(1)] .
    show "saves_up block_saved (case last_of s3 of None \<Rightarrow> (if b < start then b + 1 else h2) | Some l \<Rightarrow> l + 1) h2 s3 s4"
      using f(4) unfolding low .
  qed (use down head2 in \<open>simp_all add: same_progress_def\<close>)
  have free: "store_progress.hole_free ?s5 h2" "store_ok ?s5" "last_of ?s5 = Some h2"
    using hole_free_same [OF fillRecent_same] fillRecent_same both f(3) by (auto simp: same_progress_def)
  moreover have "below_heads world config t4 h2" by (rule below_heads_later [OF head2(3) f(2)])
  moreover have "t < t4" using down(1) head2(1) f(2) by simp
  ultimately show ?thesis unfolding r turn_inv_def using head2(5,6) by blast
qed

lemma turn_inv_empty: "turn_inv world config t empty_store"
proof -
  have "store_progress.hole_free empty_store 0"
    by (simp add: store_progress.hole_free_def is_stored_def last_of_def next_of_def getLastSuccessfulBlock_def
        getBackfillNextBlock_def getStateBigInt_def getStateValue_def empty_store_def)
  moreover have "below_heads world config t 0" by (simp add: below_heads_def computeSafeHead_nonneg)
  ultimately show ?thesis using store_ok_empty by (auto simp: turn_inv_def)
qed

lemma turns_inv:
  "runNearHeadBackfillScanner turns fuel zstd keccak config world (t, s) = Some r \<Longrightarrow>
   answers_what_is_asked world \<Longrightarrow> heads_never_fall world \<Longrightarrow> turn_inv world config t s \<Longrightarrow>
   \<exists>t' s'. r = Inr (t', s') \<and> t \<le> t' \<and> turn_inv world config t' s' \<and>
     (0 < turns \<longrightarrow> (\<exists>l. last_of s' = Some l \<and> (\<forall>g. below_heads world config t g \<longrightarrow> g \<le> l)))"
proof (induction turns arbitrary: t s)
  case (Suc turns)
  obtain r1 where r1: "near_head_turn fuel zstd keccak config world (t, s) = Some r1"
    using Suc.prems(1) by (auto split: option.splits)
  from near_head_turn_inv [OF r1 Suc.prems(2,3,4)] obtain sc t1 s1 h where one: "r1 = Inr (sc, t1, s1)" "t < t1"
    "turn_inv world config t1 s1" "last_of s1 = Some h" "\<forall>g. below_heads world config t g \<longrightarrow> g \<le> h"
    by blast
  have "runNearHeadBackfillScanner turns fuel zstd keccak config world (t1, s1) = Some r"
    using Suc.prems(1) r1 one(1) by simp
  from Suc.IH [OF this Suc.prems(2,3) one(3)] obtain t' s' where two: "r = Inr (t', s')" "t1 \<le> t'"
    "turn_inv world config t' s'"
    "0 < turns \<longrightarrow> (\<exists>l. last_of s' = Some l \<and> (\<forall>g. below_heads world config t1 g \<longrightarrow> g \<le> l))"
    by blast
  show ?case
  proof (cases "turns = 0")
    case True
    then have "s' = s1"
      using \<open>runNearHeadBackfillScanner turns fuel zstd keccak config world (t1, s1) = Some r\<close> two(1) by simp
    then show ?thesis using one two by auto
  next
    case False
    then show ?thesis using one(2) two below_heads_later [of world config t _ t1] by auto
  qed
qed auto

section \<open>Runs return\<close>

text \<open>Within \<open>fuel\<close> attempts, at any time, the node gives its head and every block can be scanned.\<close>

definition responsive :: "nat \<Rightarrow> (nat list \<Rightarrow> nat) \<Rightarrow> (string \<Rightarrow> string) \<Rightarrow> scanner_config \<Rightarrow> world \<Rightarrow> bool" where
  "responsive fuel zstd keccak config world \<longleftrightarrow>
     (\<forall>t. \<exists>k < fuel. \<exists>a. en_latest (world (t + k)) = Inr a) \<and>
     (\<forall>t n p s. 0 \<le> n \<longrightarrow> (\<exists>k < fuel. \<exists>s'. scanOneBlock zstd keccak config (world (t + k)) n p s = Inr s'))"

lemma scanBlockWithRetry_returns:
  "\<exists>k < fuel. \<exists>s'. scanOneBlock zstd keccak config (world (t + k)) n p s = Inr s' \<Longrightarrow>
   scanBlockWithRetry fuel zstd keccak config world n p (t, s) \<noteq> None"
proof (induction fuel arbitrary: t)
  case (Suc fuel)
  show ?case
  proof (cases "scanOneBlock zstd keccak config (world t) n p s")
    case (Inl e)
    obtain k s' where k: "k < Suc fuel" "scanOneBlock zstd keccak config (world (t + k)) n p s = Inr s'"
      using Suc.prems by blast
    then obtain j where "k = Suc j" using Inl by (cases k) auto
    then have "\<exists>k < fuel. \<exists>s'. scanOneBlock zstd keccak config (world (t + 1 + k)) n p s = Inr s'"
      using k by (intro exI [of _ j]) auto
    then show ?thesis using Suc.IH Inl by simp
  qed simp
qed simp

lemma readSafeHead_returns:
  "\<exists>k < fuel. \<exists>a. en_latest (world (t + k)) = Inr a \<Longrightarrow> readSafeHeadWithRetry fuel config world (t, s) \<noteq> None"
proof (induction fuel arbitrary: t)
  case (Suc fuel)
  show ?case
  proof (cases "en_latest (world t)")
    case (Inl e)
    obtain k a where k: "k < Suc fuel" "en_latest (world (t + k)) = Inr a" using Suc.prems by blast
    then obtain j where "k = Suc j" using Inl by (cases k) auto
    then have "\<exists>k < fuel. \<exists>a. en_latest (world (t + 1 + k)) = Inr a" using k by (intro exI [of _ j]) auto
    then show ?thesis using Suc.IH Inl by simp
  qed (simp add: Let_def)
qed simp

lemma backfill_loop_returns:
  "responsive fuel zstd keccak config world \<Longrightarrow> 0 \<le> sc_oldestBackfillBlock config \<Longrightarrow>
   backfill_loop fuel zstd keccak config world deadline nxt low (t, s) \<noteq> None"
proof (induction fuel zstd keccak config world deadline nxt low "(t, s)" arbitrary: t s rule: backfill_loop.induct)
  case (1 fuel zstd keccak config world deadline nxt low t s)
  show ?case
  proof (cases "sc_oldestBackfillBlock config \<le> nxt \<and> en_now (world t) < deadline")
    case True
    then have "scanBlockWithRetry fuel zstd keccak config world nxt (BackfillNextBlock (nxt - 1)) (t, s) \<noteq> None"
      using "1.prems" by (intro scanBlockWithRetry_returns) (auto simp: responsive_def)
    then obtain t1 s1 where one: "scanBlockWithRetry fuel zstd keccak config world nxt (BackfillNextBlock (nxt - 1)) (t, s) = Some (t1, s1)"
      by auto
    show ?thesis using "1.hyps" [OF True one "1.prems"] True one by (subst backfill_loop.simps) simp
  next
    case False
    then show ?thesis by (subst backfill_loop.simps) auto
  qed
qed

lemma forward_loop_returns:
  "responsive fuel zstd keccak config world \<Longrightarrow> 0 \<le> nxt \<Longrightarrow>
   forward_loop fuel zstd keccak config world h nxt sc (t, s) \<noteq> None"
proof (induction fuel zstd keccak config world h nxt sc "(t, s)" arbitrary: t s rule: forward_loop.induct)
  case (1 fuel zstd keccak config world h nxt sc t s)
  show ?case
  proof (cases "nxt \<le> h")
    case True
    then have "scanBlockWithRetry fuel zstd keccak config world nxt LastSuccessfulBlock (t, s) \<noteq> None"
      using "1.prems" by (intro scanBlockWithRetry_returns) (auto simp: responsive_def)
    then obtain t1 s1 where one: "scanBlockWithRetry fuel zstd keccak config world nxt LastSuccessfulBlock (t, s) = Some (t1, s1)"
      by auto
    show ?thesis using "1.hyps" [OF True one] "1.prems" True one by (subst forward_loop.simps) simp
  next
    case False
    then show ?thesis by (subst forward_loop.simps) simp
  qed
qed

lemma near_head_turn_returns:
  assumes ready: "responsive fuel zstd keccak config world" "0 \<le> sc_oldestBackfillBlock config"
    and node: "answers_what_is_asked world" and heads: "heads_never_fall world" and inv: "turn_inv world config t s"
  shows "near_head_turn fuel zstd keccak config world (t, s) \<noteq> None"
proof -
  from inv obtain h where ok: "store_ok s" and h: "store_progress.hole_free s h" "0 \<le> h"
    by (auto simp: turn_inv_def)
  have last: "l = h" if "last_of s = Some l" for l using h(1) that by (auto simp: store_progress.hole_free_def)
  have read: "\<exists>g t1 s1. readSafeHeadWithRetry fuel config world (u, s0) = Some (g, t1, s1) \<and> same_progress s0 s1 \<and> 0 \<le> g" for u s0
  proof -
    have "readSafeHeadWithRetry fuel config world (u, s0) \<noteq> None"
      by (rule readSafeHead_returns) (use ready(1) in \<open>simp add: responsive_def\<close>)
    then obtain g t1 s1 where "readSafeHeadWithRetry fuel config world (u, s0) = Some (g, t1, s1)" by auto
    then show ?thesis using readSafeHead_effect [OF _ heads] by blast
  qed
  have catch_up: "(case readSafeHeadWithRetry fuel config world (u, s2) of
             None \<Rightarrow> None
           | Some (catchUpSafeHead, ts3) \<Rightarrow>
               (case scanForwardToSafeHead fuel zstd keccak config world catchUpSafeHead
                       (case low of Some b \<Rightarrow> b | None \<Rightarrow> catchUpSafeHead) ts3 of
                  None \<Rightarrow> None
                | Some (Inl e) \<Rightarrow> Some (Inl e)
                | Some (Inr (scannedForward, t, s)) \<Rightarrow>
                    Some (Inr (scannedForward, t,
                      snd (fillRecentMissingBatcherMetrics (world t) (sc_batcher config) s))))) \<noteq> None"
    if s2: "store_ok s2" "last_of s2 = last_of s" and low: "\<And>b. low = Some b \<Longrightarrow> 0 \<le> b" for u s2 low
  proof -
    obtain g t3 s3 where g: "readSafeHeadWithRetry fuel config world (u, s2) = Some (g, t3, s3)"
      "same_progress s2 s3" "0 \<le> g" using read by blast
    let ?lower = "case low of Some b \<Rightarrow> b | None \<Rightarrow> g"
    let ?from = "case last_of s3 of None \<Rightarrow> ?lower | Some l \<Rightarrow> l + 1"
    have s3: "getLastSuccessfulBlock s3 = Inr (last_of s3)" "last_of s3 = last_of s"
      using g(2) s2 by (auto simp: same_progress_def store_ok_def)
    have "0 \<le> ?from" using low last h(2) g(3) s3(2) by (auto split: option.splits)
    then obtain sc t4 s4 where "forward_loop fuel zstd keccak config world g ?from False (t3, s3) = Some (sc, t4, s4)"
      using forward_loop_returns [OF ready(1)] by (metis not_None_eq prod_cases3)
    then have "scanForwardToSafeHead fuel zstd keccak config world g ?lower (t3, s3) = Some (Inr (sc, t4, s4))"
      by (simp add: scanForwardToSafeHead_def s3(1) Let_def)
    then show ?thesis using g(1) by simp
  qed
  show ?thesis
  proof (cases "sc_disableBackfill config")
    case True
    then show ?thesis using catch_up [OF ok refl, of None] by (simp add: near_head_turn_def)
  next
    case False
    obtain h1 t1 s1 where one: "readSafeHeadWithRetry fuel config world (t, s) = Some (h1, t1, s1)" "same_progress s s1"
      using read by blast
    have s1: "store_ok s1" "last_of s1 = last_of s" using one(2) ok by (auto simp: same_progress_def)
    have "backfillDownForSlice fuel zstd keccak config world h1 (t1, s1) \<noteq> None"
      using s1(1) backfill_loop_returns [OF ready]
      by (auto simp: backfillDownForSlice_def store_ok_def Let_def)
    then obtain r where r: "backfillDownForSlice fuel zstd keccak config world h1 (t1, s1) = Some r" by blast
    from backfill_effect [OF r node s1(1)] obtain low t2 s2 b start where d: "r = Inr (low, t2, s2)" "store_ok s2"
      "saves_down block_saved start b s1 s2" "low = (if b < start then Some (b + 1) else None)"
      "b < start \<longrightarrow> sc_oldestBackfillBlock config \<le> b + 1" by blast
    have "last_of s2 = last_of s" using store_progress.down_cursors [OF d(3)] s1(2) by simp
    moreover have "0 \<le> x" if "low = Some x" for x using that d(4,5) ready(2) by (auto split: if_splits)
    ultimately show ?thesis using catch_up [OF d(2)] one(1) r d(1) False by (simp add: near_head_turn_def)
  qed
qed

lemma turns_return:
  "responsive fuel zstd keccak config world \<Longrightarrow> 0 \<le> sc_oldestBackfillBlock config \<Longrightarrow>
   answers_what_is_asked world \<Longrightarrow> heads_never_fall world \<Longrightarrow> turn_inv world config t s \<Longrightarrow>
   runNearHeadBackfillScanner turns fuel zstd keccak config world (t, s) \<noteq> None"
proof (induction turns arbitrary: t s)
  case (Suc turns)
  obtain r where r: "near_head_turn fuel zstd keccak config world (t, s) = Some r"
    using near_head_turn_returns [OF Suc.prems] by blast
  from near_head_turn_inv [OF r Suc.prems(3,4,5)] obtain sc t' s' where "r = Inr (sc, t', s')" "turn_inv world config t' s'"
    by blast
  then show ?case using r Suc.IH [OF Suc.prems(1-4)] by simp
qed simp

section \<open>Properties\<close>

definition quiet_block :: "int \<Rightarrow> rpc_block" where
  "quiet_block n = \<lparr>rb_number = Some (''0x'' @ nat_to_hex (nat n)), rb_hash = None, rb_parentHash = None,
     rb_timestamp = ''0x64'', rb_baseFeePerGas = None, rb_gasUsed = ''0x0'', rb_gasLimit = ''0x30'',
     rb_transactions = []\<rparr>"

definition quiet_env :: env where
  "quiet_env = \<lparr>en_latest = Inr 3,
     en_block = (\<lambda>n. if n < 0 then Inl ''no such block'' else Inr (quiet_block n)),
     en_receipt = (\<lambda>h k. Inl ''no receipt''), en_balances = (\<lambda>as n. Inr []), en_batcher = (\<lambda>d. Inr None),
     en_decoder = (\<lambda>body. NoAnswer), en_committed = True, en_progress_saved = True, en_now = 0,
     en_date = 0, en_date_iso = ''''\<rparr>"

definition quiet_config :: scanner_config where
  "quiet_config = \<lparr>sc_confirmationDepth = 1, sc_oldestBackfillBlock = 0, sc_disableBackfill = False,
     sc_saveTransactionData = False, sc_trackBalances = False, sc_txReceiptConcurrency = 1,
     sc_batcher = False, sc_decoder = False\<rparr>"

lemma quiet_metrics: "\<exists>m. computeBlockMetrics zstd (quiet_block n) [] previous = Inr m"
  if "previous = None \<or> (\<exists>k. previous = Some (quiet_block k))"
proof -
  have date: "block_date 100 = Inr ''1970-01-01T00:01:40.000Z''" by code_simp
  have texts: "hexToBigInt (Some ''0x64'') = Inr 100" "hexToBigInt (Some ''0x0'') = Inr 0" "hexToBigInt (Some ''0x30'') = Inr 48"
    by code_simp+
  have number: "hexToBigInt (Some (''0x'' @ nat_to_hex (nat n))) = Inr (int (nat n))"
    by (simp add: hexToBigInt_hex)
  have none: "hexToBigInt None = Inr 0" by (simp add: hexToBigInt_def)
  show ?thesis
    using that number
    by (auto simp: computeBlockMetrics_def quiet_block_def included_transactions_def Let_def texts none date)
qed

lemma quiet_scan: "0 \<le> n \<Longrightarrow> \<exists>s'. scanOneBlock zstd keccak quiet_config quiet_env n p s = Inr s'"
proof -
  assume n: "0 \<le> n"
  let ?prev = "if n = 0 then None else Some (quiet_block (n - 1))"
  obtain m where m: "computeBlockMetrics zstd (quiet_block n) [] ?prev = Inr m"
    using quiet_metrics [of ?prev zstd n] by (cases "n = 0") auto
  have date: "block_date 100 = Inr ''1970-01-01T00:01:40.000Z''" by code_simp
  have texts: "hexToBigInt (Some ''0x64'') = Inr 100" "hexToBigInt (Some ''0x0'') = Inr 0" "hexToBigInt (Some ''0x30'') = Inr 48"
    by code_simp+
  have none: "hexToBigInt None = Inr 0" by (simp add: hexToBigInt_def)
  obtain i where i: "inspectBlockFromRpc zstd (quiet_block n) [] = Inr i" "ib_transactions i = []"
    by (auto simp: inspectBlockFromRpc_def quiet_block_def included_positions_def Let_def texts none date hexToBigInt_hex)
  have receipts: "getTransactionReceipts quiet_env (quiet_block n) 1 = Inr []"
    by (simp add: getTransactionReceipts_def quiet_block_def included_transactions_def)
  have env: "0 \<le> k \<Longrightarrow> en_block quiet_env k = Inr (quiet_block k)" "en_committed quiet_env" for k
    by (simp_all add: quiet_env_def)
  have config: "sc_txReceiptConcurrency quiet_config = 1" "\<not> sc_batcher quiet_config" "\<not> sc_decoder quiet_config"
    "\<not> sc_saveTransactionData quiet_config" "\<not> sc_trackBalances quiet_config"
    by (simp_all add: quiet_config_def)
  obtain s' where s': "saveBlockMetrics m p None [] None None s = Inr s'"
    by (auto simp: saveBlockMetrics_def upsertTransactionRecords_def Let_def)
  have "scanOneBlock zstd keccak quiet_config quiet_env n p s = Inr s'"
  proof (cases "n = 0")
    case True
    then show ?thesis
      using m receipts i
      by (simp add: scanOneBlock_def env config s' enrichWithBatcherMetrics_def lift_error_def Let_def)
  next
    case False
    then show ?thesis
      using n m receipts i
      by (simp add: scanOneBlock_def env config s' enrichWithBatcherMetrics_def lift_error_def Let_def)
  qed
  then show ?thesis by blast
qed

lemma quiet_world:
  "responsive 1 zstd keccak quiet_config (\<lambda>t. quiet_env)" "answers_what_is_asked (\<lambda>t. quiet_env)"
  "heads_never_fall (\<lambda>t. quiet_env)" "0 \<le> sc_oldestBackfillBlock quiet_config"
proof -
  show "responsive 1 zstd keccak quiet_config (\<lambda>t. quiet_env)"
    using quiet_scan by (auto simp: responsive_def quiet_env_def)
  show "answers_what_is_asked (\<lambda>t. quiet_env)"
    by (auto simp: answers_what_is_asked_def quiet_env_def quiet_block_def hexToBigInt_hex split: if_splits)
  show "heads_never_fall (\<lambda>t. quiet_env)" by (simp add: heads_never_fall_def)
  show "0 \<le> sc_oldestBackfillBlock quiet_config" by (simp add: quiet_config_def)
qed

text \<open>
  C11. The scanner leaves no hole: started on an empty database, with a node that answers what it is
  asked and whose head does not fall, after any number of turns -- whatever failed and was
  retried on the way, with or without backfill -- the stored blocks are exactly those from
  some block up to the last successful one, and the gap query finds nothing.
\<close>

theorem scanner_leaves_no_hole:
  assumes "runNearHeadBackfillScanner turns fuel zstd keccak config world (t, empty_store) = Some r"
    and "answers_what_is_asked world" and "heads_never_fall world"
  shows "\<exists>t' s. r = Inr (t', s) \<and> findBlockGaps limit s = [] \<and>
    (0 < turns \<longrightarrow> (\<exists>lo l. getLastSuccessfulBlock s = Inr (Some l) \<and> lo \<le> l \<and>
       (\<forall>n. is_stored s n \<longleftrightarrow> lo \<le> n \<and> n \<le> l)))"
proof -
  from turns_inv [OF assms turn_inv_empty] obtain t' s where s: "r = Inr (t', s)" "turn_inv world config t' s"
    "0 < turns \<longrightarrow> (\<exists>l. last_of s = Some l)" by blast
  then obtain h where h: "store_ok s" "store_progress.hole_free s h" by (auto simp: turn_inv_def)
  have "\<forall>a b n. is_stored s a \<and> is_stored s b \<and> a \<le> n \<and> n \<le> b \<longrightarrow> is_stored s n"
    using h(2) by (auto simp: store_progress.hole_free_def)
  moreover have "map_ok (st_blocks s)" using h(1) by (simp add: store_ok_def)
  ultimately have "findBlockGaps limit s = []" using findBlockGaps_Nil [of s limit] by blast
  moreover have "\<exists>lo l. getLastSuccessfulBlock s = Inr (Some l) \<and> lo \<le> l \<and> (\<forall>n. is_stored s n \<longleftrightarrow> lo \<le> n \<and> n \<le> l)"
    if "0 < turns"
    using s(3) that h by (auto simp: store_progress.hole_free_def store_ok_def)
  ultimately show ?thesis using s(1) by blast
qed

theorem scanner_leaves_no_hole_witness:
  "\<exists>t s. runNearHeadBackfillScanner 2 1 length (\<lambda>_. []) quiet_config (\<lambda>t. quiet_env) (0, empty_store) = Some (Inr (t, s)) \<and>
     findBlockGaps 500 s = []"
proof -
  have "runNearHeadBackfillScanner 2 1 length (\<lambda>_. []) quiet_config (\<lambda>t. quiet_env) (0, empty_store) \<noteq> None"
    using turns_return [OF quiet_world(1) quiet_world(4,2,3) turn_inv_empty] .
  then obtain r where r: "runNearHeadBackfillScanner 2 1 length (\<lambda>_. []) quiet_config (\<lambda>t. quiet_env) (0, empty_store) = Some r"
    by blast
  show ?thesis using scanner_leaves_no_hole [OF r quiet_world(2,3), of 500] r by blast
qed

text \<open>
  C12. The scanner keeps up: when, within a bounded number of attempts, the node gives its head and
  every block can be scanned, any number of turns from an empty database returns without an
  exception, and after at least one turn the last successful block is not behind the safe head
  seen at the start.
\<close>

theorem scanner_keeps_up:
  assumes "responsive fuel zstd keccak config world" and "0 \<le> sc_oldestBackfillBlock config"
    and "answers_what_is_asked world" and "heads_never_fall world"
  shows "\<exists>t s. runNearHeadBackfillScanner turns fuel zstd keccak config world (0, empty_store) = Some (Inr (t, s)) \<and>
    (0 < turns \<longrightarrow> (\<exists>l. getLastSuccessfulBlock s = Inr (Some l) \<and>
       (\<forall>latest. en_latest (world 0) = Inr latest \<longrightarrow>
          computeSafeHead latest (sc_confirmationDepth config) \<le> l)))"
proof -
  obtain r where r: "runNearHeadBackfillScanner turns fuel zstd keccak config world (0, empty_store) = Some r"
    using turns_return [OF assms turn_inv_empty] by blast
  from turns_inv [OF r assms(3,4) turn_inv_empty] obtain t s where s: "r = Inr (t, s)" "turn_inv world config t s"
    "0 < turns \<longrightarrow> (\<exists>l. last_of s = Some l \<and> (\<forall>g. below_heads world config 0 g \<longrightarrow> g \<le> l))" by blast
  have ok: "getLastSuccessfulBlock s = Inr (last_of s)" using s(2) by (simp add: turn_inv_def store_ok_def)
  have "below_heads world config 0 (computeSafeHead latest (sc_confirmationDepth config))"
    if "en_latest (world 0) = Inr latest" for latest
    using assms(4) that computeSafeHead_mono unfolding below_heads_def heads_never_fall_def by blast
  then show ?thesis using r s(1,3) ok by auto
qed

theorem scanner_keeps_up_witness:
  "\<exists>t s l. runNearHeadBackfillScanner 3 1 length (\<lambda>_. []) quiet_config (\<lambda>t. quiet_env) (0, empty_store) = Some (Inr (t, s)) \<and>
     getLastSuccessfulBlock s = Inr (Some l) \<and> 2 \<le> l"
  using scanner_keeps_up [OF quiet_world(1) quiet_world(4,2,3), of 3 length "\<lambda>_. []"]
  by (auto simp: quiet_env_def computeSafeHead_def quiet_config_def)

end
