(* ===== verification/GapFiller.thy ===== *)
theory GapFiller
  imports ScannerFacts
begin

text \<open>
  The gap filler (src/src/fillGaps.ts): the holes the gap query finds are laid out as block numbers, up
  to a cap, and each is scanned again with a bounded number of tries and without moving a cursor.
  As in the scanner, \<open>world t\<close> answers the \<open>t\<close>-th attempt; \<open>stopping t\<close> tells whether a stop was asked
  for by then.
\<close>

section \<open>Laying out the gaps\<close>

function expand_gap :: "int \<Rightarrow> int \<Rightarrow> nat \<Rightarrow> int list \<Rightarrow> int list \<times> bool" where
  "expand_gap block stop maxBlocks blocks =
     (if block \<le> stop then
        (if maxBlocks \<le> length blocks then (blocks, True)
         else expand_gap (block + 1) stop maxBlocks (blocks @ [block]))
      else (blocks, False))"
  by auto
termination
  by (relation "measure (\<lambda>(block, stop, maxBlocks, blocks). nat (stop - block + 1))") auto

declare expand_gap.simps [simp del]

fun expand_gaps :: "block_gap list \<Rightarrow> nat \<Rightarrow> int list \<Rightarrow> int list \<times> bool" where
  "expand_gaps [] maxBlocks blocks = (blocks, False)"
| "expand_gaps (gap # gaps) maxBlocks blocks =
     (let (blocks', full) = expand_gap (gapStart gap) (gapEnd gap) maxBlocks blocks in
      if full then (blocks', True) else expand_gaps gaps maxBlocks blocks')"

definition expandGaps :: "block_gap list \<Rightarrow> nat \<Rightarrow> int list \<times> bool" where
  "expandGaps gaps maxBlocks = expand_gaps gaps maxBlocks []"

section \<open>Filling\<close>

record fill_config =
  fc_maxBlocksPerCycle :: nat
  fc_maxRetries :: nat
  fc_scan :: scanner_config     \<comment> \<open>what \<open>scanOneBlock\<close> is called with; no batcher collector\<close>

text \<open>Up to \<open>maxRetries\<close> attempts; false when all failed.\<close>

function fill_attempts ::
  "(nat list \<Rightarrow> nat) \<Rightarrow> (string \<Rightarrow> string) \<Rightarrow> fill_config \<Rightarrow> world \<Rightarrow> int \<Rightarrow> nat \<Rightarrow> nat \<times> store \<Rightarrow> bool \<times> nat \<times> store" where
  "fill_attempts zstd keccak config world blockNumber attempt (t, s) =
     (if attempt \<le> fc_maxRetries config then
        (case scanOneBlock zstd keccak (fc_scan config) (world t) blockNumber NoProgress s of
           Inr s' \<Rightarrow> (True, t + 1, s')
         | Inl e \<Rightarrow>
             if fc_maxRetries config \<le> attempt then (False, t + 1, s)
             else fill_attempts zstd keccak config world blockNumber (attempt + 1) (t + 1, s))
      else (False, t, s))"
  by pat_completeness auto
termination
  by (relation "measure (\<lambda>(zstd, keccak, config, world, blockNumber, attempt, ts).
        fc_maxRetries config + 1 - attempt)") auto

declare fill_attempts.simps [simp del]

definition fillBlockWithRetry ::
  "(nat list \<Rightarrow> nat) \<Rightarrow> (string \<Rightarrow> string) \<Rightarrow> fill_config \<Rightarrow> world \<Rightarrow> int \<Rightarrow> nat \<times> store \<Rightarrow> bool \<times> nat \<times> store" where
  "fillBlockWithRetry zstd keccak config world blockNumber ts =
     fill_attempts zstd keccak config world blockNumber 1 ts"

record cycle_summary =
  cy_gaps :: nat
  cy_missing :: nat
  cy_filled :: nat
  cy_failed :: nat
  cy_truncated :: bool

fun fill_loop ::
  "(nat list \<Rightarrow> nat) \<Rightarrow> (string \<Rightarrow> string) \<Rightarrow> fill_config \<Rightarrow> world \<Rightarrow> (nat \<Rightarrow> bool) \<Rightarrow> int list \<Rightarrow> nat \<Rightarrow> nat \<Rightarrow>
   nat \<times> store \<Rightarrow> nat \<times> nat \<times> nat \<times> store" where
  "fill_loop zstd keccak config world stopping [] filled failed (t, s) = (filled, failed, t, s)"
| "fill_loop zstd keccak config world stopping (block # blocks) filled failed (t, s) =
     (if stopping t then (filled, failed, t, s)
      else
        let (ok, ts) = fillBlockWithRetry zstd keccak config world block (t, s) in
        if ok then fill_loop zstd keccak config world stopping blocks (filled + 1) failed ts
        else fill_loop zstd keccak config world stopping blocks filled (failed + 1) ts)"

definition runCycle ::
  "(nat list \<Rightarrow> nat) \<Rightarrow> (string \<Rightarrow> string) \<Rightarrow> fill_config \<Rightarrow> world \<Rightarrow> (nat \<Rightarrow> bool) \<Rightarrow> nat \<times> store \<Rightarrow>
   cycle_summary \<times> nat \<times> store" where
  "runCycle zstd keccak config world stopping ts =
     (let gaps = findBlockGaps (int (fc_maxBlocksPerCycle config)) (snd ts) in
      if gaps = [] then (\<lparr>cy_gaps = 0, cy_missing = 0, cy_filled = 0, cy_failed = 0, cy_truncated = False\<rparr>, ts)
      else
        let (blocks, truncated) = expandGaps gaps (fc_maxBlocksPerCycle config);
            (filled, failed, t, s) = fill_loop zstd keccak config world stopping blocks 0 0 ts in
        (\<lparr>cy_gaps = length gaps, cy_missing = length blocks, cy_filled = filled, cy_failed = failed,
          cy_truncated = truncated\<rparr>, t, s))"

section \<open>Facts\<close>

lemma expand_gap_take:
  "length blocks \<le> maxBlocks \<Longrightarrow>
   expand_gap block stop maxBlocks blocks =
     (blocks @ take (maxBlocks - length blocks) [block..stop], maxBlocks < length blocks + length [block..stop])"
proof (induction block stop maxBlocks blocks rule: expand_gap.induct)
  case (1 block stop maxBlocks blocks)
  show ?case
  proof (cases "block \<le> stop \<and> length blocks < maxBlocks")
    case True
    then have unroll: "[block..stop] = block # [block + 1..stop]" by (simp add: upto_rec1)
    have "expand_gap block stop maxBlocks blocks = expand_gap (block + 1) stop maxBlocks (blocks @ [block])"
      using True by (subst expand_gap.simps) simp
    also have "\<dots> = ((blocks @ [block]) @ take (maxBlocks - length (blocks @ [block])) [block + 1..stop],
        maxBlocks < length (blocks @ [block]) + length [block + 1..stop])"
      by (rule "1.IH") (use True in auto)
    also have "\<dots> = (blocks @ take (maxBlocks - length blocks) [block..stop],
        maxBlocks < length blocks + length [block..stop])"
    proof -
      obtain k where "maxBlocks - length blocks = Suc k" using True by (cases "maxBlocks - length blocks") auto
      moreover from this have "maxBlocks - Suc (length blocks) = k" by simp
      ultimately show ?thesis using True by (simp add: unroll del: length_upto)
    qed
    finally show ?thesis .
  next
    case False
    then show ?thesis using "1.prems" by (subst expand_gap.simps) auto
  qed
qed

lemma expand_gaps_take:
  "length blocks \<le> maxBlocks \<Longrightarrow>
   expand_gaps gaps maxBlocks blocks =
     (blocks @ take (maxBlocks - length blocks) (concat (map gap_numbers gaps)),
      maxBlocks < length blocks + length (concat (map gap_numbers gaps)))"
proof (induction gaps arbitrary: blocks)
  case Nil
  then show ?case by simp
next
  case (Cons g gs)
  let ?n = "[gapStart g..gapEnd g]"
  show ?case
  proof (cases "maxBlocks < length blocks + length ?n")
    case True
    then show ?thesis by (simp add: expand_gap_take [OF Cons.prems] gap_numbers_def del: length_upto)
  next
    case False
    then have "length (blocks @ ?n) \<le> maxBlocks" by simp
    from Cons.IH [OF this] show ?thesis using False
      by (simp add: expand_gap_take [OF Cons.prems] gap_numbers_def add.assoc del: length_upto)
  qed
qed

lemma fill_attempts_effect:
  "answers_what_is_asked world \<Longrightarrow> fill_attempts zstd keccak config world n a (t, s) = (ok, t', s') \<Longrightarrow>
   (if ok then block_saved n NoProgress s s' else s' = s)"
proof (induction zstd keccak config world n a "(t, s)" arbitrary: t rule: fill_attempts.induct)
  case (1 zstd keccak config world n a t)
  show ?case
  proof (cases "a \<le> fc_maxRetries config")
    case True
    show ?thesis
    proof (cases "scanOneBlock zstd keccak (fc_scan config) (world t) n NoProgress s")
      case (Inr s1)
      then show ?thesis
        using "1.prems" True scanOneBlock_saves [OF "1.prems"(1) Inr] by (subst (asm) fill_attempts.simps) simp
    next
      case (Inl e)
      show ?thesis
      proof (cases "fc_maxRetries config \<le> a")
        case True
        then show ?thesis using "1.prems"(2) Inl \<open>a \<le> fc_maxRetries config\<close> by (subst (asm) fill_attempts.simps) simp
      next
        case False
        then have "fill_attempts zstd keccak config world n (a + 1) (t + 1, s) = (ok, t', s')"
          using "1.prems"(2) Inl True by (subst (asm) fill_attempts.simps) simp
        then show ?thesis using "1.hyps" [OF True Inl False] "1.prems"(1) by simp
      qed
    qed
  next
    case False
    then show ?thesis using "1.prems"(2) by (subst (asm) fill_attempts.simps) simp
  qed
qed

text \<open>A cycle stores some of the missing numbers and moves no cursor; all of them if none failed.\<close>

lemma fill_loop_effect:
  assumes "answers_what_is_asked world"
    and "fill_loop zstd keccak config world stopping blocks a b (t, s) = (filled, failed, t', s')"
  shows "b \<le> failed \<and> last_of s' = last_of s \<and> next_of s' = next_of s \<and> (store_ok s \<longrightarrow> store_ok s') \<and>
    (\<forall>n. is_stored s' n \<longrightarrow> is_stored s n \<or> n \<in> set blocks) \<and> (\<forall>n. is_stored s n \<longrightarrow> is_stored s' n) \<and>
    ((\<forall>u. \<not> stopping u) \<and> failed = b \<longrightarrow> (\<forall>n \<in> set blocks. is_stored s' n))"
  using assms(2)
proof (induction blocks arbitrary: a b t s)
  case Nil
  then show ?case by simp
next
  case (Cons n ns)
  show ?case
  proof (cases "stopping t")
    case True
    then show ?thesis using Cons.prems by auto
  next
    case False
    obtain ok t1 s1 where one: "fillBlockWithRetry zstd keccak config world n (t, s) = (ok, t1, s1)"
      by (cases "fillBlockWithRetry zstd keccak config world n (t, s)") auto
    from fill_attempts_effect [OF assms(1) one [unfolded fillBlockWithRetry_def]]
    have eff: "if ok then block_saved n NoProgress s s1 else s1 = s" .
    show ?thesis
    proof (cases ok)
      case True
      with eff have saved: "block_saved n NoProgress s s1" by simp
      have "fill_loop zstd keccak config world stopping ns (a + 1) b (t1, s1) = (filled, failed, t', s')"
        using Cons.prems False one True by simp
      from Cons.IH [OF this] show ?thesis
        using store_progress.saved_stored [OF saved] store_progress.saved_last [OF saved]
          store_progress.saved_next [OF saved] store_ok_saved [OF saved]
        by auto
    next
      case notok: False
      then have "fill_loop zstd keccak config world stopping ns a (b + 1) (t1, s1) = (filled, failed, t', s')"
        using Cons.prems False one by simp
      from Cons.IH [OF this] show ?thesis using eff notok by auto
    qed
  qed
qed

section \<open>Properties\<close>

text \<open>
  Laying out the gaps gives the missing numbers in ascending order of the gaps, cut after
  \<open>maxBlocks\<close> of them, and says that it was cut exactly when some are left.
\<close>

theorem gaps_are_laid_out:
  "expandGaps gaps maxBlocks =
     (take maxBlocks (concat (map (\<lambda>g. [gapStart g..gapEnd g]) gaps)),
      maxBlocks < length (concat (map (\<lambda>g. [gapStart g..gapEnd g]) gaps)))"
  using expand_gaps_take [of "[]" maxBlocks gaps] by (simp add: expandGaps_def gap_numbers_def [abs_def])

lemma adjacent_gaps_few:
  "sorted_wrt (<) ns \<Longrightarrow> length (adjacent_gaps ns) \<le> length (concat (map gap_numbers (adjacent_gaps ns)))"
proof -
  assume "sorted_wrt (<) ns"
  then have "\<forall>g \<in> set (adjacent_gaps ns). gap_numbers g \<noteq> []"
    using adjacent_gaps_sound [of ns] by (fastforce simp: gap_numbers_def)
  moreover have "(\<forall>g \<in> set gs. gap_numbers g \<noteq> []) \<Longrightarrow> length gs \<le> length (concat (map gap_numbers gs))" for gs
  proof (induction gs)
    case (Cons g gs)
    then have "0 < length (gap_numbers g)" by simp
    then show ?case using Cons by (simp del: length_greater_0_conv)
  qed simp
  ultimately show ?thesis by blast
qed

lemma expandGaps_numbers:
  "expandGaps gaps n = (take n (concat (map gap_numbers gaps)), n < length (concat (map gap_numbers gaps)))"
  using expand_gaps_take [of "[]" n gaps] by (simp add: expandGaps_def)

text \<open>
  C13. A gap-fill cycle repairs: it moves neither cursor, removes no block and stores only blocks that
  were missing between stored ones; and when the cap leaves nothing out, no stop is asked for and no
  block fails, the gap query finds nothing afterwards.
\<close>

theorem gap_cycle_repairs:
  assumes "runCycle zstd keccak config world stopping (t, s) = (summary, t', s')"
    and "answers_what_is_asked world" and "store_ok s"
  shows "getLastSuccessfulBlock s' = getLastSuccessfulBlock s \<and> getBackfillNextBlock s' = getBackfillNextBlock s \<and>
    (\<forall>n. is_stored s n \<longrightarrow> is_stored s' n) \<and>
    (\<forall>n. is_stored s' n \<and> \<not> is_stored s n \<longrightarrow> (\<exists>a b. is_stored s a \<and> is_stored s b \<and> a < n \<and> n < b)) \<and>
    (cy_failed summary = 0 \<and> \<not> cy_truncated summary \<and> (\<forall>u. \<not> stopping u) \<and>
       cy_gaps summary < fc_maxBlocksPerCycle config \<and> fc_maxBlocksPerCycle config \<le> 10000 \<longrightarrow>
     findBlockGaps limit s' = [])"
proof -
  let ?N = "fc_maxBlocksPerCycle config"
  let ?gaps = "findBlockGaps (int ?N) s"
  let ?ns = "stored_numbers s"
  have mok: "map_ok (st_blocks s)" using assms(3) by (simp add: store_ok_def)
  note sorted = stored_numbers_strict [OF mok]
  show ?thesis
  proof (cases "?gaps = []")
    case True
    then have "summary = \<lparr>cy_gaps = 0, cy_missing = 0, cy_filled = 0, cy_failed = 0, cy_truncated = False\<rparr>" "s' = s"
      using assms(1) by (auto simp: runCycle_def)
    moreover have "findBlockGaps limit s = []" using True findBlockGaps_Nil [OF mok] by blast
    ultimately show ?thesis by simp
  next
    case False
    let ?blocks = "take ?N (concat (map gap_numbers ?gaps))"
    obtain filled failed where run: "fill_loop zstd keccak config world stopping ?blocks 0 0 (t, s) = (filled, failed, t', s')"
      and sum: "cy_failed summary = failed" "cy_gaps summary = length ?gaps"
        "cy_truncated summary \<longleftrightarrow> ?N < length (concat (map gap_numbers ?gaps))"
      using assms(1) False
      by (cases "fill_loop zstd keccak config world stopping ?blocks 0 0 (t, s)")
         (auto simp: runCycle_def Let_def expandGaps_numbers)
    from fill_loop_effect [OF assms(2) run] assms(3) have eff: "last_of s' = last_of s" "next_of s' = next_of s"
      "store_ok s'" "\<And>n. is_stored s' n \<Longrightarrow> is_stored s n \<or> n \<in> set ?blocks" "\<And>n. is_stored s n \<Longrightarrow> is_stored s' n"
      "(\<forall>u. \<not> stopping u) \<and> failed = 0 \<longrightarrow> (\<forall>n \<in> set ?blocks. is_stored s' n)"
      by auto
    have gap: "\<exists>a b. is_stored s a \<and> is_stored s b \<and> a < n \<and> n < b" if n: "n \<in> set ?blocks" for n
    proof -
      obtain g where g: "g \<in> set ?gaps" "n \<in> set (gap_numbers g)"
        using in_set_takeD [OF n] by auto
      then have "g \<in> set (adjacent_gaps ?ns)" unfolding findBlockGaps_def by (blast dest: in_set_takeD)
      from adjacent_gaps_sound [OF sorted this] g(2) show ?thesis
        by (intro exI [of _ "gapStart g - 1"] exI [of _ "gapEnd g + 1"])
           (auto simp: stored_numbers_set gap_numbers_def)
    qed
    have last: "findBlockGaps limit s' = []"
      if cyc: "failed = 0" "\<not> ?N < length (concat (map gap_numbers ?gaps))" "\<forall>u. \<not> stopping u" "length ?gaps < ?N" "?N \<le> 10000"
    proof -
      have "length ?gaps < nat (resolveLimit (Some (int ?N)) MAX_BLOCKS_PER_QUERY)"
        using cyc(4,5) by (auto simp: resolveLimit_def MAX_BLOCKS_PER_QUERY_def)
      then have all: "?gaps = adjacent_gaps ?ns"
        by (simp add: findBlockGaps_def min_def split: if_splits)
      have stored: "is_stored s' n" if n: "a \<le> n" "n \<le> b" "is_stored s a" "is_stored s b" for a b n
      proof (cases "is_stored s n")
        case missing: False
        have "?ns \<noteq> []" using n(3) stored_numbers_set [of s] by auto
        moreover have "hd ?ns \<le> a" "b \<le> last ?ns"
          using sorted_hd_last [of ?ns a] sorted_hd_last [of ?ns b] n(3,4) stored_numbers_set [of s]
          by (auto simp: stored_numbers_def)
        ultimately have "n \<in> set (concat (map gap_numbers ?gaps))"
          unfolding all using n(1,2) missing by (subst adjacent_gaps_numbers [OF sorted]) (auto simp: stored_numbers_set)
        then have "n \<in> set ?blocks" using cyc(2) by (simp add: not_less)
        then show ?thesis using eff(6) cyc(1,3) by blast
      qed (rule eff(5))
      have "\<forall>a b n. is_stored s' a \<and> is_stored s' b \<and> a \<le> n \<and> n \<le> b \<longrightarrow> is_stored s' n"
      proof (intro allI impI, elim conjE)
        fix a b n assume ab: "is_stored s' a" "is_stored s' b" "a \<le> n" "n \<le> b"
        have ends: "\<exists>x y. is_stored s x \<and> is_stored s y \<and> x \<le> m \<and> m \<le> y" if "is_stored s' m" for m
        proof (cases "is_stored s m")
          case True
          then show ?thesis by blast
        next
          case False
          then have "m \<in> set ?blocks" using eff(4) [OF that] by simp
          from gap [OF this] show ?thesis using less_imp_le by blast
        qed
        obtain x where "is_stored s x" "x \<le> a" using ends [OF ab(1)] by blast
        moreover obtain y where "is_stored s y" "b \<le> y" using ends [OF ab(2)] by blast
        ultimately show "is_stored s' n" using ab(3,4) by (intro stored [of x n y]) linarith+
      qed
      moreover have "map_ok (st_blocks s')" using eff(3) by (simp add: store_ok_def)
      ultimately show ?thesis using findBlockGaps_Nil [of s' limit] by blast
    qed
    have cursors: "getLastSuccessfulBlock s' = getLastSuccessfulBlock s" "getBackfillNextBlock s' = getBackfillNextBlock s"
      using eff(1,2,3) assms(3) by (simp_all add: store_ok_def)
    have "\<forall>n. is_stored s n \<longrightarrow> is_stored s' n" using eff(5) by blast
    moreover have "\<forall>n. is_stored s' n \<and> \<not> is_stored s n \<longrightarrow> (\<exists>a b. is_stored s a \<and> is_stored s b \<and> a < n \<and> n < b)"
      using eff(4) gap by blast
    ultimately show ?thesis using cursors last unfolding sum by blast
  qed
qed

definition sample_hole :: store where
  "sample_hole = empty_store\<lparr>st_blocks := [(1, new_row (sample_metrics 1)), (3, new_row (sample_metrics 3))]\<rparr>"

definition sample_fill :: fill_config where
  "sample_fill = \<lparr>fc_maxBlocksPerCycle = 5, fc_maxRetries = 1, fc_scan = quiet_config\<rparr>"

lemma sample_hole_facts:
  "store_ok sample_hole" "findBlockGaps 5 sample_hole = [\<lparr>gapStart = 2, gapEnd = 2, missingCount = 1\<rparr>]"
  by (simp_all add: sample_hole_def store_ok_def map_ok_def last_of_def next_of_def getLastSuccessfulBlock_def
      getBackfillNextBlock_def getStateBigInt_def getStateValue_def empty_store_def findBlockGaps_def
      stored_numbers_def resolveLimit_def MAX_BLOCKS_PER_QUERY_def)

lemma sample_fill_run:
  "\<exists>s'. fillBlockWithRetry length (\<lambda>_. []) sample_fill (\<lambda>t. quiet_env) 2 (0, sample_hole) = (True, 1, s')"
proof -
  obtain s' where "scanOneBlock length (\<lambda>_. []) quiet_config quiet_env 2 NoProgress sample_hole = Inr s'"
    using quiet_scan [of 2 length "\<lambda>_. []" NoProgress sample_hole] by auto
  then have "fillBlockWithRetry length (\<lambda>_. []) sample_fill (\<lambda>t. quiet_env) 2 (0, sample_hole) = (True, 1, s')"
    unfolding fillBlockWithRetry_def by (subst fill_attempts.simps) (simp add: sample_fill_def)
  then show ?thesis by blast
qed

theorem gap_cycle_repairs_witness:
  "\<exists>summary t s. runCycle length (\<lambda>_. []) sample_fill (\<lambda>t. quiet_env) (\<lambda>t. False) (0, sample_hole) = (summary, t, s) \<and>
     is_stored s 1 \<and> is_stored s 3 \<and> findBlockGaps 100 s = [] \<and> findBlockGaps 5 sample_hole \<noteq> []"
proof -
  obtain s' where one: "fillBlockWithRetry length (\<lambda>_. []) sample_fill (\<lambda>t. quiet_env) 2 (0, sample_hole) = (True, 1, s')"
    using sample_fill_run by blast
  have cap: "fc_maxBlocksPerCycle sample_fill = 5" by (simp add: sample_fill_def)
  let ?sum = "\<lparr>cy_gaps = 1, cy_missing = 1, cy_filled = 1, cy_failed = 0, cy_truncated = False\<rparr>"
  have run: "runCycle length (\<lambda>_. []) sample_fill (\<lambda>t. quiet_env) (\<lambda>t. False) (0, sample_hole) = (?sum, 1, s')"
    using one cap by (simp add: runCycle_def sample_hole_facts(2) expandGaps_numbers gap_numbers_def)
  have "is_stored sample_hole 1" "is_stored sample_hole 3" "fc_maxBlocksPerCycle sample_fill = 5"
    by (simp_all add: is_stored_def sample_hole_def cap)
  then show ?thesis
    using gap_cycle_repairs [OF run quiet_world(2) sample_hole_facts(1), of 100] run sample_hole_facts(2) by simp
qed

end
