(* ===== verification/Aggregator.thy ===== *)
theory Aggregator
  imports StorageFacts
begin

text \<open>
  The range aggregator (src/src/aggregator.ts): the windows of a size between two stored blocks, skipping
  those already complete when asked, each aggregated when all its blocks are there. The callback
  \<open>onWindow\<close> is the trace of its calls: a start with true for written, false for incomplete.
\<close>

section \<open>The run\<close>

record aggregate_options =
  ao_rangeSize :: int
  ao_fromBlock :: "int option"
  ao_toBlock :: "int option"
  ao_skipCompleted :: bool
  ao_stopAfterIncomplete :: bool

record aggregate_result =
  ar_written :: nat
  ar_incomplete :: nat
  ar_skippedComplete :: int
  ar_firstRangeStart :: "int option"
  ar_lastRangeStart :: "int option"
  ar_processedFirstRangeStart :: "int option"
  ar_processedLastRangeStart :: "int option"

definition nothing_aggregated :: "int option \<Rightarrow> int option \<Rightarrow> aggregate_result" where
  "nothing_aggregated firstRangeStart lastRangeStart =
     \<lparr>ar_written = 0, ar_incomplete = 0, ar_skippedComplete = 0, ar_firstRangeStart = firstRangeStart,
      ar_lastRangeStart = lastRangeStart, ar_processedFirstRangeStart = None, ar_processedLastRangeStart = None\<rparr>"

record window_state =
  ws_written :: nat
  ws_incomplete :: nat
  ws_processedLast :: "int option"
  ws_trace :: "(int \<times> bool) list"
  ws_store :: store

text \<open>Supported sizes are positive, so the condition on the size, which the code does not test, is true.\<close>

function aggregate_windows ::
  "(string \<Rightarrow> 'n option) \<Rightarrow> ('n list \<Rightarrow> string) \<Rightarrow> int \<Rightarrow> bool \<Rightarrow> int \<Rightarrow> int \<Rightarrow> window_state \<Rightarrow> range_error + window_state" where
  "aggregate_windows number mean rangeSize stopAfterIncomplete lastRangeStart rangeStart w =
     (if rangeStart \<le> lastRangeStart \<and> 0 < rangeSize then
        (case aggregateRangeIfComplete number mean rangeStart rangeSize (ws_store w) of
           Inl e \<Rightarrow> Inl e
         | Inr (Some m, s) \<Rightarrow>
             aggregate_windows number mean rangeSize stopAfterIncomplete lastRangeStart (rangeStart + rangeSize)
               (w\<lparr>ws_written := ws_written w + 1, ws_processedLast := Some rangeStart,
                  ws_trace := ws_trace w @ [(rangeStart, True)], ws_store := s\<rparr>)
         | Inr (None, s) \<Rightarrow>
             let w' = w\<lparr>ws_incomplete := ws_incomplete w + 1, ws_processedLast := Some rangeStart,
                        ws_trace := ws_trace w @ [(rangeStart, False)], ws_store := s\<rparr> in
             if stopAfterIncomplete then Inr w'
             else aggregate_windows number mean rangeSize stopAfterIncomplete lastRangeStart (rangeStart + rangeSize) w')
      else Inr w)"
  by pat_completeness auto
termination
  by (relation "measure (\<lambda>(number, mean, size, stop, last, start, w). nat (last - start + 1))") auto

declare aggregate_windows.simps [simp del]

text \<open>The start after the complete ranges, and how many they are.\<close>

definition skip_complete :: "int \<Rightarrow> int \<Rightarrow> int \<Rightarrow> store \<Rightarrow> range_error + int \<times> int" where
  "skip_complete rangeSize processedFirstRangeStart lastRangeStart s =
     bind_result (getLatestCompleteRangeStart rangeSize (Some processedFirstRangeStart) s) (\<lambda>latest.
       case latest of
         None \<Rightarrow> Inr (processedFirstRangeStart, 0)
       | Some l \<Rightarrow>
           if processedFirstRangeStart \<le> l then
             let latestSkipped = (if l < lastRangeStart then l else lastRangeStart) in
             Inr (l + rangeSize, big_div (latestSkipped - processedFirstRangeStart) rangeSize + 1)
           else Inr (processedFirstRangeStart, 0))"

definition aggregateRanges ::
  "(string \<Rightarrow> 'n option) \<Rightarrow> ('n list \<Rightarrow> string) \<Rightarrow> aggregate_options \<Rightarrow> store \<Rightarrow>
   range_error + aggregate_result \<times> (int \<times> bool) list \<times> store" where
  "aggregateRanges number mean opts s =
     (let rangeSize = ao_rangeSize opts in
      bind_result (assertSupportedRangeSize rangeSize) (\<lambda>_.
      case (getMinStoredBlock s, getMaxStoredBlock s) of
        (Some minBlock, Some maxBlock) \<Rightarrow>
          let lowerBound = (case ao_fromBlock opts of Some f \<Rightarrow> if minBlock < f then f else minBlock | None \<Rightarrow> minBlock);
              upperBound = (case ao_toBlock opts of Some t \<Rightarrow> if t < maxBlock then t else maxBlock | None \<Rightarrow> maxBlock) in
          if upperBound < lowerBound then Inr (nothing_aggregated None None, [], s)
          else
            bind_result (rangeStartFor lowerBound rangeSize) (\<lambda>start.
            let firstRangeStart = (if start < minBlock then start + rangeSize else start) in
            bind_result (rangeStartFor upperBound rangeSize) (\<lambda>lastRangeStart.
            if lastRangeStart < firstRangeStart
            then Inr (nothing_aggregated (Some firstRangeStart) (Some lastRangeStart), [], s)
            else
              bind_result (if ao_skipCompleted opts then skip_complete rangeSize firstRangeStart lastRangeStart s
                           else Inr (firstRangeStart, 0)) (\<lambda>(processedFirst, skippedComplete).
              bind_result (aggregate_windows number mean rangeSize (ao_stopAfterIncomplete opts) lastRangeStart processedFirst
                  \<lparr>ws_written = 0, ws_incomplete = 0, ws_processedLast = None, ws_trace = [], ws_store = s\<rparr>) (\<lambda>w.
              Inr (\<lparr>ar_written = ws_written w, ar_incomplete = ws_incomplete w, ar_skippedComplete = skippedComplete,
                    ar_firstRangeStart = Some firstRangeStart, ar_lastRangeStart = Some lastRangeStart,
                    ar_processedFirstRangeStart = (if ws_processedLast w = None then None else Some processedFirst),
                    ar_processedLastRangeStart = ws_processedLast w\<rparr>, ws_trace w, ws_store w)))))
      | _ \<Rightarrow> Inr (nothing_aggregated None None, [], s)))"

section \<open>Windows\<close>

text \<open>Each row is stored under its own number.\<close>

definition rows_keyed :: "store \<Rightarrow> bool" where
  "rows_keyed s \<longleftrightarrow> map_ok (st_blocks s) \<and> (\<forall>n b. map_get (st_blocks s) n = Some b \<longrightarrow> sb_blockNumber b = n)"

definition window_complete :: "int \<Rightarrow> store \<Rightarrow> int \<Rightarrow> bool" where
  "window_complete rangeSize s start \<longleftrightarrow> (\<forall>n. start \<le> n \<and> n < start + rangeSize \<longrightarrow> is_stored s n)"

lemma supported_small: "isSupportedRangeSize n \<Longrightarrow> n \<le> 1000"
  by (auto simp: isSupportedRangeSize_def SUPPORTED_RANGE_SIZES_def)

definition window_numbers :: "int \<Rightarrow> store \<Rightarrow> int \<Rightarrow> int list" where
  "window_numbers rangeSize s rangeStart = filter (\<lambda>n. rangeStart - 1 < n \<and> n < rangeStart + rangeSize) (stored_numbers s)"

lemma window_numbers_distinct: "rows_keyed s \<Longrightarrow> distinct (window_numbers rangeSize s rangeStart)"
  by (simp add: window_numbers_def rows_keyed_def stored_numbers_def map_ok_def)

lemma window_numbers_set:
  "set (window_numbers rangeSize s rangeStart) = {n. is_stored s n} \<inter> {rangeStart..<rangeStart + rangeSize}"
  using stored_numbers_set [of s] by (auto simp: window_numbers_def)

lemma window_numbers_length:
  assumes "rows_keyed s" "2 \<le> rangeSize"
  shows "length (window_numbers rangeSize s rangeStart) \<le> nat rangeSize"
    "int (length (window_numbers rangeSize s rangeStart)) = rangeSize \<longleftrightarrow> window_complete rangeSize s rangeStart"
proof -
  let ?ns = "window_numbers rangeSize s rangeStart" and ?w = "{rangeStart..<rangeStart + rangeSize}"
  note dist = window_numbers_distinct [OF assms(1), of rangeSize rangeStart] and ns = window_numbers_set [of rangeSize s rangeStart]
  have "card (set ?ns) \<le> card ?w" unfolding ns by (rule card_mono) auto
  then show "length ?ns \<le> nat rangeSize" by (simp only: distinct_card [OF dist]) simp
  have "int (length ?ns) = rangeSize \<longleftrightarrow> card (set ?ns) = card ?w"
    using assms(2) unfolding distinct_card [OF dist] by auto
  also have "\<dots> \<longleftrightarrow> set ?ns = ?w"
    using card_subset_eq [of ?w "set ?ns"] unfolding ns by auto
  also have "\<dots> \<longleftrightarrow> window_complete rangeSize s rangeStart"
    unfolding ns window_complete_def inf.absorb_iff2 [symmetric] subset_iff atLeastLessThan_iff mem_Collect_eq ..
  finally show "int (length ?ns) = rangeSize \<longleftrightarrow> window_complete rangeSize s rangeStart" .
qed

lemma window_blocks:
  assumes "rows_keyed s" "isSupportedRangeSize rangeSize" "0 \<le> rangeStart" "rangeSize dvd rangeStart"
  shows "getBlocksForRange rangeStart rangeSize s =
    Inr (rev (map (\<lambda>n. the (map_get (st_blocks s) n)) (window_numbers rangeSize s rangeStart)))"
proof -
  let ?row = "\<lambda>n. the (map_get (st_blocks s) n)"
  have sz: "2 \<le> rangeSize" "rangeSize \<le> 1000" using supported_positive supported_small assms(2) by auto
  have row: "\<forall>n \<in> set (stored_numbers s). sb_blockNumber (?row n) = n"
    using assms(1) by (auto simp: stored_numbers_set is_stored_def rows_keyed_def)
  have "filter (\<lambda>b. sb_blockNumber b > rangeStart - 1 \<and> sb_blockNumber b < rangeStart + rangeSize) (map ?row ns) =
      map ?row (filter (\<lambda>n. rangeStart - 1 < n \<and> n < rangeStart + rangeSize) ns)" if "\<forall>n \<in> set ns. sb_blockNumber (?row n) = n" for ns
    using that by (induction ns) auto
  from this [OF row] have rows: "filter (\<lambda>b. sb_blockNumber b > rangeStart - 1 \<and> sb_blockNumber b < rangeStart + rangeSize)
      (map ?row (stored_numbers s)) = map ?row (window_numbers rangeSize s rangeStart)"
    by (simp only: window_numbers_def)
  have "length (window_numbers rangeSize s rangeStart) \<le> 10000"
    using window_numbers_length(1) [OF assms(1) sz(1), of rangeStart] sz(2) by simp
  then have "queryBlocks (no_block_filter\<lparr>bf_blockGt := Some (rangeStart - 1), bf_blockLt := Some (rangeStart + rangeSize)\<rparr>) s =
      rev (map ?row (window_numbers rangeSize s rangeStart))"
    using rows by (simp add: queryBlocks_def no_block_filter_def clause_def resolveQueryOrder_def resolveLimit_def MAX_BLOCKS_PER_QUERY_def)
  then show ?thesis
    using assms(2-4) sz by (simp add: getBlocksForRange_def assertSupportedRangeSize_def rangeEndFor_def dvd_eq_mod_eq_0 big_mod_nonneg)
qed

text \<open>Every stored row has texts the aggregation can read.\<close>

definition rows_readable :: "store \<Rightarrow> bool" where
  "rows_readable s \<longleftrightarrow> (\<forall>n b. map_get (st_blocks s) n = Some b \<longrightarrow> (\<exists>r. read_block b = Inr r))"

lemma aggregate_one:
  assumes "rows_keyed s" "rows_readable s" "isSupportedRangeSize rangeSize" "0 \<le> rangeStart" "rangeSize dvd rangeStart"
  shows "if window_complete rangeSize s rangeStart
    then \<exists>m. rm_rangeStart m = rangeStart \<and> rm_rangeSize m = rangeSize \<and>
      aggregateRangeIfComplete number mean rangeStart rangeSize s =
        Inr (Some m, s\<lparr>st_ranges := map_set (rangeSize, rangeStart) m (st_ranges s)\<rparr>)
    else aggregateRangeIfComplete number mean rangeStart rangeSize s = Inr (None, s)"
proof -
  let ?row = "\<lambda>n. the (map_get (st_blocks s) n)" and ?ns = "window_numbers rangeSize s rangeStart"
  let ?blocks = "rev (map ?row ?ns)"
  have sz: "2 \<le> rangeSize" by (rule supported_positive [OF assms(3)])
  note complete = window_numbers_length(2) [OF assms(1) sz, of rangeStart]
  have got: "getBlocksForRange rangeStart rangeSize s = Inr ?blocks" by (rule window_blocks [OF assms(1,3-5)])
  show ?thesis
  proof (cases "window_complete rangeSize s rangeStart")
    case False
    then show ?thesis using got complete assms(3) by (simp add: aggregateRangeIfComplete_def assertSupportedRangeSize_def)
  next
    case True
    have "\<forall>n \<in> set ?ns. sb_blockNumber (?row n) = n \<and> (\<exists>r. read_block (?row n) = Inr r)"
      using assms(1,2) by (auto simp: window_numbers_set is_stored_def rows_keyed_def rows_readable_def)
    then have ids: "map (\<lambda>n. sb_blockNumber (?row n)) ?ns = ?ns" and "\<exists>rs. map_result read_block ?blocks = Inr rs"
      by (auto intro: map_idI intro!: map_result_total)
    then obtain rs where rs: "map_result read_block ?blocks = Inr rs" by blast
    have "set ?ns = set [rangeStart..rangeStart + rangeSize - 1]"
      using True by (auto simp: window_numbers_set window_complete_def)
    then have "mset ?ns = mset [rangeStart..rangeStart + rangeSize - 1]"
      using window_numbers_distinct [OF assms(1), of rangeSize rangeStart] by (simp only: set_eq_iff_mset_eq_distinct [symmetric] distinct_upto)
    then have "mset (map sb_blockNumber ?blocks) = mset [rangeStart..rangeStart + rangeSize - 1]"
      using ids by (simp add: rev_map [symmetric] comp_def flip: mset_map)
    then have "check_range rangeStart rangeSize ?blocks = Inr (rangeStart + rangeSize - 1)"
      using assms(3-5) by (simp add: check_range_Inr)
    then have "computeBlockRange number mean rangeStart rangeSize ?blocks =
        Inr (range_row mean rangeSize rangeStart (rangeStart + rangeSize - 1) (readings_totals number rs))" (is "_ = Inr ?m")
      using rs computeBlockRange_Inr by blast
    moreover have "rm_rangeStart ?m = rangeStart" "rm_rangeSize ?m = rangeSize" by (simp_all add: range_row_def)
    ultimately show ?thesis
      using got complete True assms(3)
      by (simp add: aggregateRangeIfComplete_def saveBlockRange_def assertSupportedRangeSize_def)
  qed
qed

text \<open>
  The windows a run from one start on writes: the complete ones, and none behind an incomplete one when it
  stops there. What such a run leaves: the rows there were and those.
\<close>

definition reached :: "bool \<Rightarrow> int \<Rightarrow> int \<Rightarrow> int \<Rightarrow> store \<Rightarrow> int \<Rightarrow> bool" where
  "reached stop rangeSize from until s0 a \<longleftrightarrow>
     from \<le> a \<and> a \<le> until \<and> rangeSize dvd a \<and> window_complete rangeSize s0 a \<and>
     (stop \<longrightarrow> (\<forall>e. from \<le> e \<and> e < a \<and> rangeSize dvd e \<longrightarrow> window_complete rangeSize s0 e))"

definition windows_done :: "bool \<Rightarrow> int \<Rightarrow> int \<Rightarrow> int \<Rightarrow> store \<Rightarrow> window_state \<Rightarrow> window_state \<Rightarrow> bool" where
  "windows_done stop rangeSize from until s0 w w' \<longleftrightarrow>
     st_blocks (ws_store w') = st_blocks s0 \<and>
     ws_written w' + ws_incomplete w' + length (ws_trace w) = ws_written w + ws_incomplete w + length (ws_trace w') \<and>
     (\<forall>key. map_get (st_ranges (ws_store w')) key \<noteq> None \<longleftrightarrow>
        map_get (st_ranges (ws_store w)) key \<noteq> None \<or>
        fst key = rangeSize \<and> reached stop rangeSize from until s0 (snd key))"

lemma window_complete_blocks: "st_blocks s = st_blocks s' \<Longrightarrow> window_complete rangeSize s = window_complete rangeSize s'"
  by (auto simp: window_complete_def is_stored_def fun_eq_iff)

lemma aligned_step:
  assumes "0 < rangeSize" "rangeSize dvd a" "rangeSize dvd b"
  shows "a \<le> b \<longleftrightarrow> b = a \<or> a + rangeSize \<le> (b :: int)"
  using assms zdvd_imp_le [of rangeSize "b - a"] by (cases "b = a") (auto simp: dvd_diff)

lemma reached_step:
  assumes "0 < rangeSize" "rangeSize dvd from" "from \<le> until"
  shows "reached stop rangeSize from until s0 a \<longleftrightarrow>
    (if window_complete rangeSize s0 from then a = from \<or> reached stop rangeSize (from + rangeSize) until s0 a
     else \<not> stop \<and> reached stop rangeSize (from + rangeSize) until s0 a)"
proof -
  note step = aligned_step [OF assms(1,2)]
  have later: "(from \<le> e \<and> e < a \<and> rangeSize dvd e) \<longleftrightarrow>
      (from < a \<and> e = from) \<or> (from + rangeSize \<le> e \<and> e < a \<and> rangeSize dvd e)" for e
    using step [of e] assms(1,2) by auto
  show ?thesis
  proof (cases "rangeSize dvd a")
    case True
    then show ?thesis using step [of a] assms unfolding reached_def later by (cases "a = from") auto
  next
    case False
    then show ?thesis using assms(2) by (auto simp: reached_def)
  qed
qed

lemma aggregate_windows_done:
  assumes "isSupportedRangeSize rangeSize" "0 \<le> rangeStart" "rangeSize dvd rangeStart"
    "rows_keyed s0" "rows_readable s0" "st_blocks (ws_store w) = st_blocks s0"
  shows "\<exists>w'. aggregate_windows number mean rangeSize stop lastRangeStart rangeStart w = Inr w' \<and>
    windows_done stop rangeSize rangeStart lastRangeStart s0 w w'"
  using assms
proof (induction number mean rangeSize stop lastRangeStart rangeStart w rule: aggregate_windows.induct)
  case (1 number mean rangeSize stop lastRangeStart rangeStart w)
  note IH = "1.IH" and prems = "1.prems"
  have sz: "2 \<le> rangeSize" by (rule supported_positive [OF prems(1)])
  show ?case
  proof (cases "rangeStart \<le> lastRangeStart")
    case False
    then have "aggregate_windows number mean rangeSize stop lastRangeStart rangeStart w = Inr w" by (simp add: aggregate_windows.simps)
    moreover have "windows_done stop rangeSize rangeStart lastRangeStart s0 w w"
      using prems(6) False by (auto simp: windows_done_def reached_def)
    ultimately show ?thesis by blast
  next
    case True
    have cond: "rangeStart \<le> lastRangeStart \<and> 0 < rangeSize" using True sz by simp
    have keyed: "rows_keyed (ws_store w)" and readable: "rows_readable (ws_store w)"
      using prems(4-6) by (simp_all add: rows_keyed_def rows_readable_def)
    have complete: "window_complete rangeSize (ws_store w) = window_complete rangeSize s0"
      by (rule window_complete_blocks [OF prems(6)])
    note one = aggregate_one [OF keyed readable prems(1-3), of number mean, unfolded complete]
    have next_start: "0 \<le> rangeStart + rangeSize" "rangeSize dvd rangeStart + rangeSize" using prems(2,3) sz by auto
    note step = reached_step [OF conjunct2 [OF cond] prems(3) True, of stop s0]
    show ?thesis
    proof (cases "window_complete rangeSize s0 rangeStart")
      case complete: True
      with one obtain m where m: "aggregateRangeIfComplete number mean rangeStart rangeSize (ws_store w) =
          Inr (Some m, (ws_store w)\<lparr>st_ranges := map_set (rangeSize, rangeStart) m (st_ranges (ws_store w))\<rparr>)" by auto
      let ?w = "w\<lparr>ws_written := ws_written w + 1, ws_processedLast := Some rangeStart, ws_trace := ws_trace w @ [(rangeStart, True)],
          ws_store := (ws_store w)\<lparr>st_ranges := map_set (rangeSize, rangeStart) m (st_ranges (ws_store w))\<rparr>\<rparr>"
      obtain w' where w': "aggregate_windows number mean rangeSize stop lastRangeStart (rangeStart + rangeSize) ?w = Inr w'"
          "windows_done stop rangeSize (rangeStart + rangeSize) lastRangeStart s0 ?w w'"
        using IH(2) [OF cond m refl refl prems(1) next_start prems(4,5)] prems(6) by auto
      have "windows_done stop rangeSize rangeStart lastRangeStart s0 w w'"
        using w'(2) complete step unfolding windows_done_def by (auto split: if_splits)
      moreover have "aggregate_windows number mean rangeSize stop lastRangeStart rangeStart w = Inr w'"
        using w'(1) m True sz by (subst aggregate_windows.simps) simp
      ultimately show ?thesis by blast
    next
      case incomplete: False
      then have m: "aggregateRangeIfComplete number mean rangeStart rangeSize (ws_store w) = Inr (None, ws_store w)" using one by simp
      let ?w = "w\<lparr>ws_incomplete := ws_incomplete w + 1, ws_processedLast := Some rangeStart,
          ws_trace := ws_trace w @ [(rangeStart, False)], ws_store := ws_store w\<rparr>"
      show ?thesis
      proof (cases stop)
        case True
        have "aggregate_windows number mean rangeSize stop lastRangeStart rangeStart w = Inr ?w"
          using m cond True by (subst aggregate_windows.simps) (simp add: Let_def)
        moreover have "windows_done stop rangeSize rangeStart lastRangeStart s0 w ?w"
          using prems(6) incomplete step True unfolding windows_done_def by simp
        ultimately show ?thesis by blast
      next
        case False
        obtain w' where w': "aggregate_windows number mean rangeSize stop lastRangeStart (rangeStart + rangeSize) ?w = Inr w'"
            "windows_done stop rangeSize (rangeStart + rangeSize) lastRangeStart s0 ?w w'"
          using IH(1) [OF cond m refl refl refl False prems(1) next_start prems(4,5)] prems(6) by auto
        have "windows_done stop rangeSize rangeStart lastRangeStart s0 w w'"
          using w'(2) incomplete step False unfolding windows_done_def by (auto split: if_splits)
        moreover have "aggregate_windows number mean rangeSize stop lastRangeStart rangeStart w = Inr w'"
          using w'(1) m cond False by (subst aggregate_windows.simps) (simp add: Let_def)
        ultimately show ?thesis by blast
      qed
    qed
  qed
qed

section \<open>Skipping what is complete\<close>

definition ranges_ok :: "store \<Rightarrow> bool" where
  "ranges_ok s \<longleftrightarrow> map_ok (st_ranges s) \<and> (\<forall>key. map_get (st_ranges s) key \<noteq> None \<longrightarrow> fst key dvd snd key)"

lemma aligned_rows_apart:
  fixes n :: int
  assumes "sorted_wrt (<) xs" "\<forall>x \<in> set xs. n dvd x" "0 < n" "j + k < length xs"
  shows "xs ! j + int k * n \<le> xs ! (j + k)"
  using assms(4)
proof (induction k)
  case 0
  then show ?case by simp
next
  case (Suc k)
  let ?a = "xs ! (j + k)" and ?b = "xs ! (j + Suc k)"
  have "?a < ?b" using Suc.prems by (intro sorted_wrt_nth_less [OF assms(1)]) simp_all
  moreover have "n dvd ?a" "n dvd ?b" using Suc.prems assms(2) by simp_all
  ultimately have "?a + n \<le> ?b" using aligned_step [OF assms(3), of ?a ?b] by simp
  moreover have "xs ! j + int k * n \<le> ?a" using Suc by simp
  moreover have "int (Suc k) * n = int k * n + n" by (simp add: distrib_right)
  ultimately show ?case by linarith
qed

lemma contiguous_run:
  assumes "sorted_wrt (<) xs" "\<forall>x \<in> set xs. n dvd x \<and> from \<le> x" "0 < n" "n dvd from"
    "last_option (contiguous_starts n from xs) = Some l"
  shows "from \<le> l \<and> n dvd l \<and> (\<forall>a. from \<le> a \<and> a \<le> l \<and> n dvd a \<longrightarrow> a \<in> set xs)"
proof -
  have "l \<in> set (contiguous_starts n from xs)" using assms(5) by (auto simp: last_option_def split: if_splits)
  then obtain i where i: "i < length xs" "xs ! i = l" "l = from + int i * n"
    by (auto simp: contiguous_starts_def in_set_enumerate_eq)
  have "a \<in> set xs" if a: "from \<le> a" "a \<le> l" "n dvd a" for a
  proof -
    obtain q where q: "a - from = n * q" using a(3) assms(4) by (metis dvd_diff dvdE)
    define k where "k = nat q"
    have "0 \<le> q" using q a(1) assms(3) by (metis diff_ge_0_iff_ge zero_le_mult_iff not_less)
    then have k: "a = from + int k * n" using q by (simp add: k_def mult.commute)
    then have le: "k \<le> i" using a(2) i(3) assms(3) by simp
    have "from + int k * n \<le> xs ! k"
      using aligned_rows_apart [OF assms(1) _ assms(3), of 0 k] assms(2) i(1) le nth_mem [of 0 xs] by fastforce
    moreover have "xs ! k + int (i - k) * n \<le> l"
      using aligned_rows_apart [OF assms(1) _ assms(3), of k "i - k"] assms(2) i(1,2) le by auto
    moreover have "int (i - k) * n = int i * n - int k * n" using le by (simp add: of_nat_diff left_diff_distrib)
    ultimately have "xs ! k = a" using i(3) k by linarith
    then show ?thesis using i(1) le nth_mem [of k xs] by simp
  qed
  moreover have "from \<le> l \<and> n dvd l" using assms(2) i(1,2) nth_mem by blast
  ultimately show ?thesis by blast
qed

lemma complete_starts_set: "a \<in> set (complete_starts rangeSize s) \<longleftrightarrow> map_get (st_ranges s) (rangeSize, a) \<noteq> None"
  by (force simp: complete_starts_def map_of_eq_None_iff)

lemma complete_starts_strict:
  assumes "ranges_ok s"
  shows "sorted_wrt (<) (complete_starts rangeSize s)"
proof -
  let ?rows = "filter (\<lambda>(k, m). fst k = rangeSize) (st_ranges s)"
  have "distinct (map fst ?rows)"
    using assms by (simp add: ranges_ok_def map_ok_def distinct_map_filter)
  moreover have "inj_on snd (set (map fst ?rows))" by (rule inj_onI) auto
  ultimately have "distinct (map snd (map fst ?rows))" by (simp only: distinct_map [of snd])
  then have "distinct (map (\<lambda>(k, m). snd k) ?rows)" by (simp add: comp_def case_prod_unfold)
  then show ?thesis by (simp add: complete_starts_def strict_sorted_iff)
qed

lemma skip_complete_Inr:
  assumes "ranges_ok s" "isSupportedRangeSize rangeSize" "0 \<le> from" "rangeSize dvd from"
  shows "\<exists>next skipped. skip_complete rangeSize from last_start s = Inr (next, skipped) \<and> from \<le> next \<and> rangeSize dvd next \<and>
    (\<forall>a. from \<le> a \<and> a < next \<and> rangeSize dvd a \<longrightarrow> map_get (st_ranges s) (rangeSize, a) \<noteq> None)"
proof -
  have n: "2 \<le> rangeSize" by (rule supported_positive [OF assms(2)])
  let ?xs = "filter (\<lambda>start. from \<le> start) (complete_starts rangeSize s)"
  have latest: "getLatestCompleteRangeStart rangeSize (Some from) s = Inr (last_option (contiguous_starts rangeSize from ?xs))"
    using assms n by (simp add: getLatestCompleteRangeStart_def assertSupportedRangeSize_def big_mod_nonneg dvd_eq_mod_eq_0)
  show ?thesis
  proof (cases "last_option (contiguous_starts rangeSize from ?xs)")
    case None
    then have "skip_complete rangeSize from last_start s = Inr (from, 0)" using latest by (simp add: skip_complete_def)
    then show ?thesis using assms(4) by auto
  next
    case (Some l)
    have "sorted_wrt (<) ?xs" by (rule sorted_wrt_filter [OF complete_starts_strict [OF assms(1)]])
    moreover have "\<forall>x \<in> set ?xs. rangeSize dvd x \<and> from \<le> x"
      using assms(1) by (auto simp: complete_starts_set ranges_ok_def)
    ultimately have run: "from \<le> l \<and> rangeSize dvd l \<and> (\<forall>a. from \<le> a \<and> a \<le> l \<and> rangeSize dvd a \<longrightarrow> a \<in> set ?xs)"
      by (rule contiguous_run [OF _ _ _ assms(4) Some]) (use n in simp)
    have below: "a \<le> l" if "a < l + rangeSize" "rangeSize dvd a" for a
      using aligned_step [of rangeSize a l] aligned_step [of rangeSize l a] that run n by linarith
    have "map_get (st_ranges s) (rangeSize, a) \<noteq> None" if a: "from \<le> a" "a < l + rangeSize" "rangeSize dvd a" for a
    proof -
      have "a \<in> set ?xs" using run a below by blast
      then show ?thesis using complete_starts_set [of a rangeSize s] by simp
    qed
    then have "\<forall>a. from \<le> a \<and> a < l + rangeSize \<and> rangeSize dvd a \<longrightarrow> map_get (st_ranges s) (rangeSize, a) \<noteq> None" by blast
    moreover have "skip_complete rangeSize from last_start s =
        Inr (l + rangeSize, big_div ((if l < last_start then l else last_start) - from) rangeSize + 1)"
      using latest Some run by (simp add: skip_complete_def)
    moreover have "from \<le> l + rangeSize" "rangeSize dvd l + rangeSize" using run n by simp_all
    ultimately show ?thesis by blast
  qed
qed

section \<open>Properties\<close>

text \<open>The blocks the options ask for, and a store with rows the aggregation can read.\<close>

definition requested :: "aggregate_options \<Rightarrow> int \<Rightarrow> bool" where
  "requested opts n \<longleftrightarrow> clause (ao_fromBlock opts) (\<lambda>f. f \<le> n) \<and> clause (ao_toBlock opts) (\<lambda>t. n \<le> t)"

definition aggregatable :: "store \<Rightarrow> bool" where
  "aggregatable s \<longleftrightarrow> rows_keyed s \<and> rows_readable s \<and> ranges_ok s \<and> (\<forall>n. is_stored s n \<longrightarrow> 0 \<le> n)"

lemma rangeStartFor_floor:
  "isSupportedRangeSize n \<Longrightarrow> 0 \<le> b \<Longrightarrow> rangeStartFor b n = Inr (b - b mod n)"
  using supported_positive [of n] by (simp add: rangeStartFor_def assertSupportedRangeSize_def big_mod_nonneg)

lemma stored_bounds:
  assumes "is_stored s n"
  obtains a b where "getMinStoredBlock s = Some a" "getMaxStoredBlock s = Some b" "a \<le> n" "n \<le> b" "is_stored s a" "is_stored s b"
proof -
  have n: "n \<in> set (stored_numbers s)" using assms by (simp add: stored_numbers_set)
  then have ne: "stored_numbers s \<noteq> []" by auto
  have "sorted (stored_numbers s)" by (simp add: stored_numbers_def)
  from sorted_hd_last [OF this n] have "hd (stored_numbers s) \<le> n" "n \<le> last (stored_numbers s)" by simp_all
  moreover have "is_stored s (hd (stored_numbers s))" "is_stored s (last (stored_numbers s))"
    using hd_in_set [OF ne] last_in_set [OF ne] by (simp_all add: stored_numbers_set)
  ultimately show thesis
    using ne that [of "hd (stored_numbers s)" "last (stored_numbers s)"]
    by (cases "stored_numbers s") (simp_all add: getMinStoredBlock_def getMaxStoredBlock_def)
qed

text \<open>
  A requested window is aligned and holds a requested number. When the run stops at the first incomplete
  window, an incomplete requested window from the first stored block on blocks those after it.
\<close>

definition requested_window :: "aggregate_options \<Rightarrow> int \<Rightarrow> bool" where
  "requested_window opts start \<longleftrightarrow>
     ao_rangeSize opts dvd start \<and> (\<exists>n. start \<le> n \<and> n < start + ao_rangeSize opts \<and> requested opts n)"

definition blocking :: "aggregate_options \<Rightarrow> store \<Rightarrow> int \<Rightarrow> bool" where
  "blocking opts s e \<longleftrightarrow>
     ao_stopAfterIncomplete opts \<and> requested_window opts e \<and> (\<exists>k \<le> e. is_stored s k) \<and>
     \<not> window_complete (ao_rangeSize opts) s e"

definition covers :: "aggregate_options \<Rightarrow> store \<Rightarrow> store \<Rightarrow> bool" where
  "covers opts s s' \<longleftrightarrow>
     (\<forall>start. requested_window opts start \<and> window_complete (ao_rangeSize opts) s start \<and> \<not> (\<exists>e < start. blocking opts s e) \<longrightarrow>
        map_get (st_ranges s') (ao_rangeSize opts, start) \<noteq> None)"

definition sound_rows :: "aggregate_options \<Rightarrow> store \<Rightarrow> store \<Rightarrow> bool" where
  "sound_rows opts s s' \<longleftrightarrow>
     (\<forall>key. map_get (st_ranges s) key \<noteq> None \<longrightarrow> map_get (st_ranges s') key \<noteq> None) \<and>
     (\<forall>key. map_get (st_ranges s') key \<noteq> None \<and> map_get (st_ranges s) key = None \<longrightarrow>
        fst key = ao_rangeSize opts \<and> requested_window opts (snd key) \<and> window_complete (ao_rangeSize opts) s (snd key) \<and>
        (\<forall>e < snd key. blocking opts s e \<longrightarrow>
           ao_skipCompleted opts \<and> map_get (st_ranges s) (ao_rangeSize opts, e) \<noteq> None))"

text \<open>The bounds a run works with, and what they say of single numbers.\<close>

definition lower_bound :: "aggregate_options \<Rightarrow> int \<Rightarrow> int" where
  "lower_bound opts lo = (case ao_fromBlock opts of Some f \<Rightarrow> if lo < f then f else lo | None \<Rightarrow> lo)"

definition upper_bound :: "aggregate_options \<Rightarrow> int \<Rightarrow> int" where
  "upper_bound opts hi = (case ao_toBlock opts of Some t \<Rightarrow> if t < hi then t else hi | None \<Rightarrow> hi)"

lemma bounds_requested:
  "lower_bound opts lo \<le> n \<Longrightarrow> n \<le> upper_bound opts hi \<Longrightarrow> requested opts n"
  "requested opts n \<Longrightarrow> lo \<le> n \<Longrightarrow> lower_bound opts lo \<le> n"
  "requested opts n \<Longrightarrow> n \<le> hi \<Longrightarrow> n \<le> upper_bound opts hi"
  "lo \<le> lower_bound opts lo" "upper_bound opts hi \<le> hi"
  by (auto simp: lower_bound_def upper_bound_def requested_def clause_def split: option.splits if_splits)

lemma stored_between:
  assumes "getMinStoredBlock s = Some lo" "getMaxStoredBlock s = Some hi" "is_stored s n"
  shows "lo \<le> n" "n \<le> hi"
  using stored_bounds [OF assms(3)] assms(1,2) by (metis option.inject)+

lemma floor_reaches:
  fixes n :: int
  assumes "2 \<le> n" "n dvd start"
  shows "lower < start + n \<Longrightarrow> lower - lower mod n \<le> start" "start \<le> upper \<Longrightarrow> start \<le> upper - upper mod n"
proof -
  have n: "0 < n" using assms(1) by simp
  have fl: "n dvd b - b mod n" "b - b mod n \<le> b" "b < b - b mod n + n" for b :: int
    using n by (simp_all add: dvd_minus_mod)
  show "lower - lower mod n \<le> start" if "lower < start + n"
    using aligned_step [OF n assms(2) fl(1) [of lower]] fl(2) [of lower] that by linarith
  show "start \<le> upper - upper mod n" if "start \<le> upper"
    using aligned_step [OF n fl(1) [of upper] assms(2)] fl(3) [of upper] that by linarith
qed

text \<open>The windows a run starts from: those requested, from the first that does not start before the stored blocks.\<close>

definition first_window :: "aggregate_options \<Rightarrow> int \<Rightarrow> int" where
  "first_window opts lo =
     (let start = lower_bound opts lo - lower_bound opts lo mod ao_rangeSize opts
      in if start < lo then start + ao_rangeSize opts else start)"

definition last_window :: "aggregate_options \<Rightarrow> int \<Rightarrow> int" where
  "last_window opts hi = upper_bound opts hi - upper_bound opts hi mod ao_rangeSize opts"

lemma first_window_aligned:
  assumes "2 \<le> ao_rangeSize opts" "0 \<le> lo"
  shows "ao_rangeSize opts dvd first_window opts lo" "lo \<le> first_window opts lo" "0 \<le> first_window opts lo"
proof -
  let ?n = "ao_rangeSize opts" and ?l = "lower_bound opts lo"
  have "?l < ?l - ?l mod ?n + ?n" "lo \<le> ?l" using assms(1) by (simp_all add: bounds_requested)
  then show "lo \<le> first_window opts lo" by (auto simp: first_window_def Let_def)
  then show "0 \<le> first_window opts lo" using assms(2) by simp
  show "?n dvd first_window opts lo" using assms(1) by (simp add: first_window_def Let_def dvd_minus_mod)
qed

lemma first_window_least:
  assumes "2 \<le> ao_rangeSize opts" "ao_rangeSize opts dvd a" "lo \<le> a" "lower_bound opts lo < a + ao_rangeSize opts"
  shows "first_window opts lo \<le> a"
proof -
  let ?n = "ao_rangeSize opts" and ?l = "lower_bound opts lo"
  have "?n dvd ?l - ?l mod ?n" by (simp add: dvd_minus_mod)
  then show ?thesis
    using floor_reaches(1) [OF assms(1,2,4)] aligned_step [OF _ _ assms(2), of "?l - ?l mod ?n"] assms(1,3)
    by (auto simp: first_window_def Let_def)
qed

lemma run_window_requested:
  assumes "2 \<le> ao_rangeSize opts" "ao_rangeSize opts dvd a" "first_window opts lo \<le> a" "a \<le> last_window opts hi"
    "lower_bound opts lo \<le> upper_bound opts hi"
  shows "requested_window opts a"
proof -
  let ?n = "ao_rangeSize opts" and ?l = "lower_bound opts lo" and ?u = "upper_bound opts hi"
  have "?l mod ?n < ?n" "0 \<le> ?u mod ?n" using assms(1) by simp_all
  moreover have "?l - ?l mod ?n \<le> first_window opts lo" using assms(1) by (simp add: first_window_def Let_def)
  moreover have "last_window opts hi = ?u - ?u mod ?n" by (simp add: last_window_def)
  ultimately have "?l < a + ?n" "a \<le> ?u" using assms(3,4) by linarith+
  then have "requested opts (max a ?l)" using bounds_requested(1) [of opts lo "max a ?l" hi] assms(5) by auto
  then show ?thesis using assms(1,2) \<open>?l < a + ?n\<close> unfolding requested_window_def
    by (intro conjI exI [of _ "max a ?l"]) auto
qed

lemma requested_in_run:
  assumes "2 \<le> ao_rangeSize opts" "requested_window opts a" "lo \<le> a"
  shows "first_window opts lo \<le> a" "a + ao_rangeSize opts - 1 \<le> hi \<Longrightarrow> a \<le> last_window opts hi"
    "a + ao_rangeSize opts - 1 \<le> hi \<Longrightarrow> lower_bound opts lo \<le> upper_bound opts hi"
proof -
  from assms(2) obtain n where n: "ao_rangeSize opts dvd a" "a \<le> n" "n < a + ao_rangeSize opts" "requested opts n"
    by (auto simp: requested_window_def)
  have low: "lower_bound opts lo \<le> n" using bounds_requested(2) [OF n(4)] assms(3) n(2) by simp
  then show "first_window opts lo \<le> a" using first_window_least [OF assms(1) n(1) assms(3)] n(3) by simp
  assume "a + ao_rangeSize opts - 1 \<le> hi"
  then have up: "n \<le> upper_bound opts hi" using bounds_requested(3) [OF n(4)] n(3) by simp
  then show "lower_bound opts lo \<le> upper_bound opts hi" using low by simp
  show "a \<le> last_window opts hi"
    using floor_reaches(2) [OF assms(1) n(1), of "upper_bound opts hi"] up n(2) by (simp add: last_window_def)
qed

lemma complete_inside:
  assumes "2 \<le> rangeSize" "window_complete rangeSize s a" "getMinStoredBlock s = Some lo" "getMaxStoredBlock s = Some hi"
  shows "lo \<le> a" "a + rangeSize - 1 \<le> hi"
  using assms stored_between [OF assms(3,4), of a] stored_between [OF assms(3,4), of "a + rangeSize - 1"]
  by (simp_all add: window_complete_def)

lemma run_covers:
  assumes n: "2 \<le> ao_rangeSize opts" and lo: "0 \<le> lo"
    and lohi: "getMinStoredBlock s = Some lo" "getMaxStoredBlock s = Some hi" "is_stored s lo"
    and bounds: "lower_bound opts lo \<le> upper_bound opts hi"
    and skip: "first_window opts lo \<le> pos"
      "\<And>a. first_window opts lo \<le> a \<Longrightarrow> a < pos \<Longrightarrow> ao_rangeSize opts dvd a \<Longrightarrow>
         ao_skipCompleted opts \<and> map_get (st_ranges s) (ao_rangeSize opts, a) \<noteq> None"
    and "done": "\<And>key. map_get (st_ranges s') key \<noteq> None \<longleftrightarrow> map_get (st_ranges s) key \<noteq> None \<or>
       fst key = ao_rangeSize opts \<and>
       reached (ao_stopAfterIncomplete opts) (ao_rangeSize opts) pos (last_window opts hi) s (snd key)"
  shows "covers opts s s'" "sound_rows opts s s'"
proof -
  let ?n = "ao_rangeSize opts"
  have wanted: "requested_window opts a" if "?n dvd a" "pos \<le> a" "a \<le> last_window opts hi" for a
    using run_window_requested [OF n that(1) _ that(3) bounds] skip(1) that(2) by simp
  have kept: "lo \<le> a" if "pos \<le> a" for a using first_window_aligned(2) [OF n lo] skip(1) that by simp
  show "covers opts s s'"
    unfolding covers_def
  proof (intro allI impI, elim conjE)
    fix a assume a: "requested_window opts a" "window_complete ?n s a" "\<not> (\<exists>e < a. blocking opts s e)"
    note inside = complete_inside [OF n a(2) lohi(1,2)]
    note at = requested_in_run(1,2) [OF n a(1) inside(1)]
    have dvd: "?n dvd a" using a(1) by (simp add: requested_window_def)
    show "map_get (st_ranges s') (?n, a) \<noteq> None"
    proof (cases "a < pos")
      case True
      then show ?thesis using skip(2) [OF at(1) _ dvd] "done" [of "(?n, a)"] by simp
    next
      case False
      have "window_complete ?n s e" if "ao_stopAfterIncomplete opts" "pos \<le> e" "e < a" "?n dvd e" for e
        using a(3) that wanted [OF that(4,2)] at(2) [OF inside(2)] kept [OF that(2)] lohi(3)
        unfolding blocking_def by fastforce
      then have "reached (ao_stopAfterIncomplete opts) ?n pos (last_window opts hi) s a"
        using False at(2) [OF inside(2)] dvd a(2) by (auto simp: reached_def)
      then show ?thesis using "done" [of "(?n, a)"] by simp
    qed
  qed
  show "sound_rows opts s s'"
    unfolding sound_rows_def
  proof (intro conjI allI impI)
    show "map_get (st_ranges s') key \<noteq> None" if "map_get (st_ranges s) key \<noteq> None" for key using "done" that by blast
  next
    fix key assume new: "map_get (st_ranges s') key \<noteq> None \<and> map_get (st_ranges s) key = None"
    then have key: "fst key = ?n" "reached (ao_stopAfterIncomplete opts) ?n pos (last_window opts hi) s (snd key)"
      using "done" [of key] by simp_all
    show "fst key = ?n" by (rule key)
    show "requested_window opts (snd key)" using key(2) wanted by (simp add: reached_def)
    show "window_complete ?n s (snd key)" using key(2) by (simp add: reached_def)
    fix e assume e: "e < snd key" "blocking opts s e"
    then have stop: "ao_stopAfterIncomplete opts" "requested_window opts e" "\<not> window_complete ?n s e" "?n dvd e"
      by (auto simp: blocking_def requested_window_def)
    obtain k where "k \<le> e" "is_stored s k" using e(2) by (auto simp: blocking_def)
    then have "lo \<le> e" using stored_between(1) [OF lohi(1,2), of k] by simp
    then have "first_window opts lo \<le> e" by (rule requested_in_run(1) [OF n stop(2)])
    moreover have "e < pos" using key(2) stop e(1) unfolding reached_def by (meson not_le)
    ultimately show "ao_skipCompleted opts" "map_get (st_ranges s) (?n, e) \<noteq> None" using skip(2) stop(4) by blast+
  qed
qed

lemma outside_covers:
  assumes "2 \<le> ao_rangeSize opts" "getMinStoredBlock s = Some lo" "getMaxStoredBlock s = Some hi"
    "upper_bound opts hi < lower_bound opts lo \<or> last_window opts hi < first_window opts lo"
  shows "covers opts s s"
  using assms requested_in_run [OF assms(1)] complete_inside [OF assms(1) _ assms(2,3)]
  unfolding covers_def by (meson leD order_trans)

lemma sound_rows_refl: "sound_rows opts s s"
  unfolding sound_rows_def by blast

lemma aggregate_run:
  assumes "aggregatable s" "isSupportedRangeSize (ao_rangeSize opts)"
  shows "\<exists>r trace s'. aggregateRanges number mean opts s = Inr (r, trace, s') \<and> st_blocks s' = st_blocks s \<and>
    ar_written r + ar_incomplete r = length trace \<and> covers opts s s' \<and> sound_rows opts s s'"
proof -
  let ?n = "ao_rangeSize opts"
  have n: "2 \<le> ?n" by (rule supported_positive [OF assms(2)])
  have rows: "rows_keyed s" "rows_readable s" "ranges_ok s" using assms(1) by (simp_all add: aggregatable_def)
  show ?thesis
  proof (cases "\<exists>n. is_stored s n")
    case False
    then have "stored_numbers s = []" using stored_numbers_set [of s] by auto
    then have "aggregateRanges number mean opts s = Inr (nothing_aggregated None None, [], s)"
      using assms(2) by (simp add: aggregateRanges_def assertSupportedRangeSize_def getMinStoredBlock_def Let_def)
    moreover have "covers opts s s" using False n by (fastforce simp: covers_def window_complete_def)
    ultimately show ?thesis using sound_rows_refl by (auto simp: nothing_aggregated_def)
  next
    case True
    then obtain lo hi where lohi: "getMinStoredBlock s = Some lo" "getMaxStoredBlock s = Some hi" "is_stored s lo"
      by (metis stored_bounds)
    have lo: "0 \<le> lo" using assms(1) lohi(3) by (simp add: aggregatable_def)
    note outside = outside_covers [OF n lohi(1,2)] sound_rows_refl [of opts s]
    show ?thesis
    proof (cases "upper_bound opts hi < lower_bound opts lo")
      case True
      then have "aggregateRanges number mean opts s = Inr (nothing_aggregated None None, [], s)"
        using assms(2) lohi
        by (simp add: aggregateRanges_def assertSupportedRangeSize_def Let_def flip: lower_bound_def upper_bound_def)
      then show ?thesis using outside True by (auto simp: nothing_aggregated_def)
    next
      case up: False
      let ?first = "first_window opts lo" and ?last = "last_window opts hi"
      have starts: "rangeStartFor (lower_bound opts lo) ?n = Inr (lower_bound opts lo - lower_bound opts lo mod ?n)"
        "rangeStartFor (upper_bound opts hi) ?n = Inr ?last"
        using rangeStartFor_floor [OF assms(2)] up bounds_requested(4) [of lo opts] lo by (simp_all add: last_window_def)
      show ?thesis
      proof (cases "?last < ?first")
        case True
        then have "aggregateRanges number mean opts s = Inr (nothing_aggregated (Some ?first) (Some ?last), [], s)"
          using assms(2) lohi starts up
          by (simp add: aggregateRanges_def assertSupportedRangeSize_def Let_def first_window_def flip: lower_bound_def upper_bound_def)
        then show ?thesis using outside True by (auto simp: nothing_aggregated_def)
      next
        case False
        obtain pos skipped where skip:
          "(if ao_skipCompleted opts then skip_complete ?n ?first ?last s else Inr (?first, 0)) = Inr (pos, skipped)"
          "?first \<le> pos" "?n dvd pos"
          "\<And>a. ?first \<le> a \<Longrightarrow> a < pos \<Longrightarrow> ?n dvd a \<Longrightarrow> ao_skipCompleted opts \<and> map_get (st_ranges s) (?n, a) \<noteq> None"
          using skip_complete_Inr [OF rows(3) assms(2) first_window_aligned(3,1) [OF n lo], of ?last]
            first_window_aligned(1) [OF n lo] by (cases "ao_skipCompleted opts") auto
        let ?w = "\<lparr>ws_written = 0, ws_incomplete = 0, ws_processedLast = None, ws_trace = [], ws_store = s\<rparr>"
        obtain w where w: "aggregate_windows number mean ?n (ao_stopAfterIncomplete opts) ?last pos ?w = Inr w"
          "windows_done (ao_stopAfterIncomplete opts) ?n pos ?last s ?w w"
          using aggregate_windows_done [OF assms(2) _ skip(3) rows(1,2), of ?w number mean "ao_stopAfterIncomplete opts" ?last] skip(2) first_window_aligned(3) [OF n lo]
          by fastforce
        have run: "\<exists>r. aggregateRanges number mean opts s = Inr (r, ws_trace w, ws_store w) \<and>
            ar_written r = ws_written w \<and> ar_incomplete r = ws_incomplete w"
          using assms(2) lohi starts up False skip(1) w(1)
          by (cases "ao_skipCompleted opts"; cases "lower_bound opts lo - lower_bound opts lo mod ?n < lo")
             (simp_all add: aggregateRanges_def assertSupportedRangeSize_def Let_def first_window_def flip: lower_bound_def upper_bound_def)
        have rows': "map_get (st_ranges (ws_store w)) key \<noteq> None \<longleftrightarrow> map_get (st_ranges s) key \<noteq> None \<or>
            fst key = ?n \<and> reached (ao_stopAfterIncomplete opts) ?n pos ?last s (snd key)" for key
          using w(2) unfolding windows_done_def by (cases key) simp
        have "covers opts s (ws_store w) \<and> sound_rows opts s (ws_store w)"
          using run_covers [OF n lo lohi leI [OF up] skip(2,4) rows'] by blast
        then show ?thesis using run w(2) unfolding windows_done_def by auto
      qed
    qed
  qed
qed

text \<open>
  C34. Aggregation is complete and sound: on a store whose rows can be read, a run returns, leaves the
  blocks alone and keeps every range row. Afterwards every requested window (aligned, and holding a number
  within \<open>fromBlock\<close> and \<open>toBlock\<close>) whose blocks are all stored has its row, also when completed windows are
  skipped; and a row the run added is that of such a window. A run told to stop at the first incomplete
  window makes the same promise up to that window: a complete window is only left out behind a blocking
  one, and a row is only added behind one that was skipped because its row was there already.
\<close>

theorem aggregation_covers:
  assumes "aggregatable s" and "isSupportedRangeSize (ao_rangeSize opts)"
  shows "\<exists>r trace s'. aggregateRanges number mean opts s = Inr (r, trace, s') \<and> st_blocks s' = st_blocks s \<and>
    ar_written r + ar_incomplete r = length trace \<and>
    (\<forall>start n. ao_rangeSize opts dvd start \<and> start \<le> n \<and> n < start + ao_rangeSize opts \<and> requested opts n \<and>
       (\<forall>k. start \<le> k \<and> k < start + ao_rangeSize opts \<longrightarrow> is_stored s k) \<and> \<not> (\<exists>e < start. blocking opts s e) \<longrightarrow>
       map_get (st_ranges s') (ao_rangeSize opts, start) \<noteq> None) \<and>
    (\<forall>key. map_get (st_ranges s) key \<noteq> None \<longrightarrow> map_get (st_ranges s') key \<noteq> None) \<and>
    (\<forall>size start. map_get (st_ranges s') (size, start) \<noteq> None \<and> map_get (st_ranges s) (size, start) = None \<longrightarrow>
       size = ao_rangeSize opts \<and> size dvd start \<and>
       (\<exists>n. start \<le> n \<and> n < start + size \<and> requested opts n) \<and>
       (\<forall>k. start \<le> k \<and> k < start + size \<longrightarrow> is_stored s k) \<and>
       (\<forall>e < start. blocking opts s e \<longrightarrow> ao_skipCompleted opts \<and> map_get (st_ranges s) (size, e) \<noteq> None))"
proof -
  obtain r trace s' where run: "aggregateRanges number mean opts s = Inr (r, trace, s')" "st_blocks s' = st_blocks s"
    "ar_written r + ar_incomplete r = length trace" "covers opts s s'" "sound_rows opts s s'"
    using aggregate_run [OF assms, of number mean] by blast
  have cov: "map_get (st_ranges s') (ao_rangeSize opts, start) \<noteq> None"
    if "ao_rangeSize opts dvd start \<and> start \<le> n \<and> n < start + ao_rangeSize opts \<and> requested opts n \<and>
       (\<forall>k. start \<le> k \<and> k < start + ao_rangeSize opts \<longrightarrow> is_stored s k) \<and> \<not> (\<exists>e < start. blocking opts s e)" for start n
  proof -
    have "requested_window opts start" using that unfolding requested_window_def by (intro conjI exI [of _ n]) simp_all
    moreover have "window_complete (ao_rangeSize opts) s start" using that by (simp add: window_complete_def)
    ultimately show ?thesis using run(4) that unfolding covers_def by (elim allE [of _ start]) simp
  qed
  have new: "size = ao_rangeSize opts \<and> size dvd start \<and> (\<exists>n. start \<le> n \<and> n < start + size \<and> requested opts n) \<and>
       (\<forall>k. start \<le> k \<and> k < start + size \<longrightarrow> is_stored s k) \<and>
       (\<forall>e < start. blocking opts s e \<longrightarrow> ao_skipCompleted opts \<and> map_get (st_ranges s) (size, e) \<noteq> None)"
    if "map_get (st_ranges s') (size, start) \<noteq> None \<and> map_get (st_ranges s) (size, start) = None" for size start
    using run(5) that unfolding sound_rows_def
    by (elim conjE allE [of _ "(size, start)"]) (auto simp: requested_window_def window_complete_def)
  have keep: "map_get (st_ranges s') key \<noteq> None" if "map_get (st_ranges s) key \<noteq> None" for key
    using run(5) that unfolding sound_rows_def by blast
  show ?thesis
    by (rule exI [of _ r], rule exI [of _ trace], rule exI [of _ s'], intro conjI allI run(1-3))
       (rule impI, rule cov keep new, assumption)+
qed

text \<open>Four blocks, and a run of which only the first window is asked for.\<close>

definition sample_blocks :: store where
  "sample_blocks = empty_store\<lparr>st_blocks := map (\<lambda>b. (sb_blockNumber b, b))
     (sample_pair @ map (\<lambda>n. sample_stored n ''2024-01-01T00:00:04.000Z'' ''10'') [6, 7])\<rparr>"

definition sample_options :: aggregate_options where
  "sample_options = \<lparr>ao_rangeSize = 2, ao_fromBlock = None, ao_toBlock = Some 5, ao_skipCompleted = True,
     ao_stopAfterIncomplete = False\<rparr>"

lemma sample_aggregatable: "aggregatable sample_blocks"
proof -
  let ?blocks = "sample_pair @ map (\<lambda>n. sample_stored n ''2024-01-01T00:00:04.000Z'' ''10'') [6, 7]"
  have "case map_result read_block ?blocks of Inl e \<Rightarrow> False | Inr rs \<Rightarrow> True" by code_simp
  then obtain rs where rs: "map_result read_block ?blocks = Inr rs" by (cases "map_result read_block ?blocks") simp_all
  have "\<forall>b \<in> set bs. \<exists>r. read_block b = Inr r" if "map_result read_block bs = Inr rs" for bs
    using that by (auto simp: map_result_Inr_iff in_set_conv_nth list_all2_conv_all_nth)
  from this [OF rs] have "\<forall>b \<in> set ?blocks. \<exists>r. read_block b = Inr r" .
  moreover have "map sb_blockNumber ?blocks = [5, 4, 6, 7]" by (simp add: sample_pair_def sample_stored_def)
  ultimately show ?thesis
    by (auto simp: aggregatable_def rows_keyed_def rows_readable_def ranges_ok_def sample_blocks_def empty_store_def
        is_stored_def map_ok_def comp_def sample_pair_def sample_stored_def split: if_splits)
qed

theorem aggregation_covers_witness:
  "\<exists>r trace s'. aggregateRanges Some concat sample_options sample_blocks = Inr (r, trace, s') \<and>
     map_get (st_ranges s') (2, 4) \<noteq> None \<and> map_get (st_ranges s') (2, 6) = None"
proof -
  have supported: "isSupportedRangeSize (ao_rangeSize sample_options)" by code_simp
  have stored: "is_stored sample_blocks k \<longleftrightarrow> k = 4 \<or> k = 5 \<or> k = 6 \<or> k = 7" for k
    by (auto simp: sample_blocks_def sample_pair_def sample_stored_def is_stored_def)
  have none: "map_get (st_ranges sample_blocks) (2, 6) = None" by (simp add: sample_blocks_def empty_store_def)
  have size: "ao_rangeSize sample_options = 2" by (simp add: sample_options_def)
  have asked: "requested sample_options k \<longleftrightarrow> k \<le> 5" for k by (simp add: sample_options_def requested_def clause_def)
  have free: "\<not> blocking sample_options sample_blocks e" for e by (simp add: blocking_def sample_options_def)
  note covers = aggregation_covers [OF sample_aggregatable supported, of Some concat, unfolded size]
  obtain r trace s' where run: "aggregateRanges Some concat sample_options sample_blocks = Inr (r, trace, s')"
    and cov: "\<forall>start n. 2 dvd start \<and> start \<le> n \<and> n < start + 2 \<and> requested sample_options n \<and>
       (\<forall>k. start \<le> k \<and> k < start + 2 \<longrightarrow> is_stored sample_blocks k) \<and> \<not> (\<exists>e < start. blocking sample_options sample_blocks e) \<longrightarrow>
       map_get (st_ranges s') (2, start) \<noteq> None"
    and only: "\<forall>size start. map_get (st_ranges s') (size, start) \<noteq> None \<and> map_get (st_ranges sample_blocks) (size, start) = None \<longrightarrow>
       size = 2 \<and> size dvd start \<and> (\<exists>n. start \<le> n \<and> n < start + size \<and> requested sample_options n) \<and>
       (\<forall>k. start \<le> k \<and> k < start + size \<longrightarrow> is_stored sample_blocks k) \<and>
       (\<forall>e < start. blocking sample_options sample_blocks e \<longrightarrow>
          ao_skipCompleted sample_options \<and> map_get (st_ranges sample_blocks) (size, e) \<noteq> None)"
    using covers by (elim exE conjE) (rule that)
  have "\<forall>k. 4 \<le> k \<and> k < 4 + 2 \<longrightarrow> is_stored sample_blocks k" unfolding stored by presburger
  then have "2 dvd (4 :: int) \<and> 4 \<le> (4 :: int) \<and> (4 :: int) < 4 + 2 \<and> requested sample_options 4 \<and>
      (\<forall>k. 4 \<le> k \<and> k < 4 + 2 \<longrightarrow> is_stored sample_blocks k) \<and> \<not> (\<exists>e < 4. blocking sample_options sample_blocks e)"
    using asked free by simp
  then have "map_get (st_ranges s') (2, 4) \<noteq> None" by (rule cov [THEN spec, THEN spec, THEN mp])
  moreover have "map_get (st_ranges s') (2, 6) = None"
  proof (rule ccontr)
    assume "map_get (st_ranges s') (2, 6) \<noteq> None"
    then obtain n where "6 \<le> n" "requested sample_options n" using only none by blast
    then show False using asked by simp
  qed
  ultimately show ?thesis using run by blast
qed

end
