(* ===== verification/Caches.thy ===== *)
theory Caches
  imports JsText
begin

text \<open>
  The two in-memory caches of the server: \<open>ResponseCache\<close> (src/src/responseCache.ts), bounded in entries
  and in bytes, and \<open>ValueCache\<close> (src/src/valueCache.ts), bounded in entries. A cache is a value; \<open>now\<close> is
  what its clock answers. A load in flight is the number of its marker: \<open>load\<close> answers from the cache,
  joins a load or starts one, and the continuation after the loader's promise settles is an operation
  of its own, so that everything may happen between the two.
\<close>

section \<open>Response cache\<close>

datatype body = Text string | Bytes "nat list"

record cached_response =
  re_status :: int
  re_body :: body
  re_headers :: "(string, string) jsmap option"

record cache_entry =
  ce_response :: cached_response
  ce_bytes :: int
  ce_expiresAt :: int

record cache_counters =
  co_hits :: nat
  co_misses :: nat
  co_coalesced :: nat
  co_invalidations :: nat
  co_evictions :: nat
  co_expirations :: nat

definition no_counts :: cache_counters where
  "no_counts = \<lparr>co_hits = 0, co_misses = 0, co_coalesced = 0, co_invalidations = 0, co_evictions = 0, co_expirations = 0\<rparr>"

text \<open>\<open>started\<close> counts the markers made; \<open>stale\<close> holds those marked.\<close>

record response_cache =
  ca_maxEntries :: int
  ca_maxBytes :: int
  ca_ttlMs :: int
  ca_entries :: "(string, cache_entry) jsmap"
  ca_inflight :: "(string, nat) jsmap"
  ca_stale :: "nat list"
  ca_started :: nat
  ca_totalBytes :: int
  ca_counts :: cache_counters

definition DEFAULT_RESPONSE_CACHE_MAX_ENTRIES :: int where
  "DEFAULT_RESPONSE_CACHE_MAX_ENTRIES = 10000"

definition DEFAULT_RESPONSE_CACHE_MAX_BYTES :: int where
  "DEFAULT_RESPONSE_CACHE_MAX_BYTES = 64 * 1024 * 1024"

definition DEFAULT_RESPONSE_CACHE_TTL_MS :: int where
  "DEFAULT_RESPONSE_CACHE_TTL_MS = 5 * 60 * 1000"

definition or_default :: "'a option \<Rightarrow> 'a \<Rightarrow> 'a" where
  "or_default v d = (case v of Some x \<Rightarrow> x | None \<Rightarrow> d)"

definition new_response_cache :: "int option \<Rightarrow> int option \<Rightarrow> int option \<Rightarrow> response_cache" where
  "new_response_cache maxEntries maxBytes ttlMs =
     \<lparr>ca_maxEntries = or_default maxEntries DEFAULT_RESPONSE_CACHE_MAX_ENTRIES,
      ca_maxBytes = or_default maxBytes DEFAULT_RESPONSE_CACHE_MAX_BYTES,
      ca_ttlMs = or_default ttlMs DEFAULT_RESPONSE_CACHE_TTL_MS,
      ca_entries = [], ca_inflight = [], ca_stale = [], ca_started = 0, ca_totalBytes = 0, ca_counts = no_counts\<rparr>"

text \<open>\<open>String.length\<close> counts UTF-16 units: one for each character, two for one of four bytes.\<close>

definition utf16_length :: "string \<Rightarrow> nat" where
  "utf16_length s = length (filter (\<lambda>c. \<not> is_cont c) s) + length (filter (\<lambda>c. 240 \<le> byte_of c) s)"

definition bodyBytes :: "body \<Rightarrow> int" where
  "bodyBytes b = (case b of Text s \<Rightarrow> int (utf16_length s) | Bytes bs \<Rightarrow> int (length bs))"

definition enabled :: "response_cache \<Rightarrow> bool" where
  "enabled c \<longleftrightarrow> ca_maxEntries c > 0 \<and> ca_maxBytes c > 0 \<and> ca_ttlMs c > 0"

definition get :: "int \<Rightarrow> string \<Rightarrow> response_cache \<Rightarrow> cached_response option \<times> response_cache" where
  "get now key c =
     (case map_get (ca_entries c) key of
        None \<Rightarrow> (None, c)
      | Some entry \<Rightarrow>
          if ce_expiresAt entry \<le> now then
            (None, c\<lparr>ca_entries := map_delete key (ca_entries c),
                     ca_totalBytes := ca_totalBytes c - ce_bytes entry,
                     ca_counts := (ca_counts c)\<lparr>co_expirations := co_expirations (ca_counts c) + 1\<rparr>\<rparr>)
          else (Some (ce_response entry),
                c\<lparr>ca_entries := map_set key entry (map_delete key (ca_entries c))\<rparr>))"

text \<open>The loop of \<open>set\<close>: the oldest entries go until there is room. It runs on an enabled cache.\<close>

fun evict ::
  "int \<Rightarrow> int \<Rightarrow> int \<Rightarrow> (string, cache_entry) jsmap \<Rightarrow> int \<Rightarrow> nat \<Rightarrow> (string, cache_entry) jsmap \<times> int \<times> nat" where
  "evict maxEntries maxBytes bytes [] totalBytes evictions = ([], totalBytes, evictions)"
| "evict maxEntries maxBytes bytes ((key, entry) # entries) totalBytes evictions =
     (if maxEntries \<le> int (length ((key, entry) # entries)) \<or> totalBytes + bytes > maxBytes
      then evict maxEntries maxBytes bytes entries (totalBytes - ce_bytes entry) (evictions + 1)
      else ((key, entry) # entries, totalBytes, evictions))"

definition set_entry :: "int \<Rightarrow> string \<Rightarrow> cached_response \<Rightarrow> response_cache \<Rightarrow> response_cache" where
  "set_entry now key response c =
     (if \<not> enabled c then c
      else
        let bytes = bodyBytes (re_body response) in
        if bytes > ca_maxBytes c then c
        else
          let (entries, total) =
                (case map_get (ca_entries c) key of
                   None \<Rightarrow> (ca_entries c, ca_totalBytes c)
                 | Some existing \<Rightarrow> (map_delete key (ca_entries c), ca_totalBytes c - ce_bytes existing));
              (kept, totalBytes, evictions) =
                evict (ca_maxEntries c) (ca_maxBytes c) bytes entries total (co_evictions (ca_counts c)) in
          c\<lparr>ca_entries := map_set key \<lparr>ce_response = response, ce_bytes = bytes, ce_expiresAt = now + ca_ttlMs c\<rparr> kept,
            ca_totalBytes := totalBytes + bytes,
            ca_counts := (ca_counts c)\<lparr>co_evictions := evictions\<rparr>\<rparr>)"

text \<open>What a call of \<open>load\<close> does before it waits.\<close>

datatype 'v load_answer = Hit 'v | Join nat | Run nat

definition load :: "int \<Rightarrow> string \<Rightarrow> response_cache \<Rightarrow> cached_response load_answer \<times> response_cache" where
  "load now key c =
     (let (cached, c) = get now key c in
      case cached of
        Some r \<Rightarrow> (Hit r, c\<lparr>ca_counts := (ca_counts c)\<lparr>co_hits := co_hits (ca_counts c) + 1\<rparr>\<rparr>)
      | None \<Rightarrow>
          let run = (Run (ca_started c),
                     c\<lparr>ca_inflight := map_set key (ca_started c) (ca_inflight c), ca_started := ca_started c + 1,
                       ca_counts := (ca_counts c)\<lparr>co_misses := co_misses (ca_counts c) + 1\<rparr>\<rparr>) in
          (case map_get (ca_inflight c) key of
             Some running \<Rightarrow>
               if running \<notin> set (ca_stale c)
               then (Join running, c\<lparr>ca_counts := (ca_counts c)\<lparr>co_coalesced := co_coalesced (ca_counts c) + 1\<rparr>\<rparr>)
               else run
           | None \<Rightarrow> run))"

text \<open>The continuation of load \<open>marker\<close>: the loader's result, or \<open>None\<close> when it threw.\<close>

definition finish_load :: "int \<Rightarrow> nat \<Rightarrow> string \<Rightarrow> cached_response option \<Rightarrow> response_cache \<Rightarrow> response_cache" where
  "finish_load now marker key result c =
     (let c = (case result of
                 Some r \<Rightarrow> if marker \<notin> set (ca_stale c) then set_entry now key r c else c
               | None \<Rightarrow> c) in
      if map_get (ca_inflight c) key = Some marker
      then c\<lparr>ca_inflight := map_delete key (ca_inflight c)\<rparr> else c)"

definition invalidate :: "string \<Rightarrow> response_cache \<Rightarrow> response_cache" where
  "invalidate key c =
     (let c = c\<lparr>ca_counts := (ca_counts c)\<lparr>co_invalidations := co_invalidations (ca_counts c) + 1\<rparr>\<rparr>;
          c = (case map_get (ca_entries c) key of
                 Some entry \<Rightarrow> c\<lparr>ca_entries := map_delete key (ca_entries c), ca_totalBytes := ca_totalBytes c - ce_bytes entry\<rparr>
               | None \<Rightarrow> c) in
      case map_get (ca_inflight c) key of
        Some running \<Rightarrow> c\<lparr>ca_stale := running # ca_stale c\<rparr>
      | None \<Rightarrow> c)"

definition clear :: "response_cache \<Rightarrow> response_cache" where
  "clear c = c\<lparr>ca_entries := [], ca_totalBytes := 0, ca_stale := map snd (ca_inflight c) @ ca_stale c\<rparr>"

record cache_stats =
  sx_entries :: nat
  sx_bytes :: int
  sx_counts :: cache_counters

definition stats :: "response_cache \<Rightarrow> cache_stats" where
  "stats c = \<lparr>sx_entries = length (ca_entries c), sx_bytes = ca_totalBytes c, sx_counts = ca_counts c\<rparr>"

section \<open>Value cache\<close>

record 'v value_entry =
  ve_value :: 'v
  ve_expiresAt :: int

record 'v value_cache =
  va_maxEntries :: int
  va_ttlMs :: int
  va_entries :: "(string, 'v value_entry) jsmap"
  va_inflight :: "(string, nat) jsmap"
  va_stale :: "nat list"
  va_started :: nat
  va_counts :: cache_counters

definition DEFAULT_VALUE_CACHE_MAX_ENTRIES :: int where
  "DEFAULT_VALUE_CACHE_MAX_ENTRIES = 500"

definition DEFAULT_VALUE_CACHE_TTL_MS :: int where
  "DEFAULT_VALUE_CACHE_TTL_MS = 5000"

definition new_value_cache :: "int option \<Rightarrow> int option \<Rightarrow> 'v value_cache" where
  "new_value_cache maxEntries ttlMs =
     \<lparr>va_maxEntries = or_default maxEntries DEFAULT_VALUE_CACHE_MAX_ENTRIES,
      va_ttlMs = or_default ttlMs DEFAULT_VALUE_CACHE_TTL_MS,
      va_entries = [], va_inflight = [], va_stale = [], va_started = 0, va_counts = no_counts\<rparr>"

definition value_enabled :: "'v value_cache \<Rightarrow> bool" where
  "value_enabled c \<longleftrightarrow> va_maxEntries c > 0 \<and> va_ttlMs c > 0"

definition value_get :: "int \<Rightarrow> string \<Rightarrow> 'v value_cache \<Rightarrow> 'v option \<times> 'v value_cache" where
  "value_get now key c =
     (case map_get (va_entries c) key of
        None \<Rightarrow> (None, c)
      | Some entry \<Rightarrow>
          if ve_expiresAt entry \<le> now then
            (None, c\<lparr>va_entries := map_delete key (va_entries c),
                     va_counts := (va_counts c)\<lparr>co_expirations := co_expirations (va_counts c) + 1\<rparr>\<rparr>)
          else (Some (ve_value entry), c\<lparr>va_entries := map_set key entry (map_delete key (va_entries c))\<rparr>))"

fun value_evict :: "int \<Rightarrow> (string, 'v value_entry) jsmap \<Rightarrow> nat \<Rightarrow> (string, 'v value_entry) jsmap \<times> nat" where
  "value_evict maxEntries [] evictions = ([], evictions)"
| "value_evict maxEntries (e # entries) evictions =
     (if maxEntries \<le> int (length (e # entries)) then value_evict maxEntries entries (evictions + 1)
      else (e # entries, evictions))"

definition value_set :: "int \<Rightarrow> string \<Rightarrow> 'v \<Rightarrow> 'v value_cache \<Rightarrow> 'v value_cache" where
  "value_set now key v c =
     (if \<not> value_enabled c then c
      else
        let (kept, evictions) = value_evict (va_maxEntries c) (map_delete key (va_entries c)) (co_evictions (va_counts c)) in
        c\<lparr>va_entries := map_set key \<lparr>ve_value = v, ve_expiresAt = now + va_ttlMs c\<rparr> kept,
          va_counts := (va_counts c)\<lparr>co_evictions := evictions\<rparr>\<rparr>)"

text \<open>A load in flight is joined whether or not it was marked stale.\<close>

definition value_load :: "int \<Rightarrow> string \<Rightarrow> 'v value_cache \<Rightarrow> 'v load_answer \<times> 'v value_cache" where
  "value_load now key c =
     (let (cached, c) = value_get now key c in
      case cached of
        Some v \<Rightarrow> (Hit v, c\<lparr>va_counts := (va_counts c)\<lparr>co_hits := co_hits (va_counts c) + 1\<rparr>\<rparr>)
      | None \<Rightarrow>
          (case map_get (va_inflight c) key of
             Some running \<Rightarrow> (Join running, c\<lparr>va_counts := (va_counts c)\<lparr>co_coalesced := co_coalesced (va_counts c) + 1\<rparr>\<rparr>)
           | None \<Rightarrow>
               (Run (va_started c),
                c\<lparr>va_inflight := map_set key (va_started c) (va_inflight c), va_started := va_started c + 1,
                  va_counts := (va_counts c)\<lparr>co_misses := co_misses (va_counts c) + 1\<rparr>\<rparr>)))"

definition value_finish :: "int \<Rightarrow> nat \<Rightarrow> string \<Rightarrow> 'v option \<Rightarrow> 'v value_cache \<Rightarrow> 'v value_cache" where
  "value_finish now marker key result c =
     (let c = (case result of
                 Some v \<Rightarrow> if marker \<notin> set (va_stale c) then value_set now key v c else c
               | None \<Rightarrow> c) in
      c\<lparr>va_inflight := map_delete key (va_inflight c)\<rparr>)"

definition value_invalidate :: "string \<Rightarrow> 'v value_cache \<Rightarrow> 'v value_cache" where
  "value_invalidate key c =
     (let c = c\<lparr>va_counts := (va_counts c)\<lparr>co_invalidations := co_invalidations (va_counts c) + 1\<rparr>,
                va_entries := map_delete key (va_entries c)\<rparr> in
      case map_get (va_inflight c) key of
        Some running \<Rightarrow> c\<lparr>va_stale := running # va_stale c\<rparr>
      | None \<Rightarrow> c)"

definition value_clear :: "'v value_cache \<Rightarrow> 'v value_cache" where
  "value_clear c = c\<lparr>va_entries := [], va_stale := map snd (va_inflight c) @ va_stale c\<rparr>"

record value_stats =
  vx_entries :: nat
  vx_counts :: cache_counters

definition value_stats :: "'v value_cache \<Rightarrow> value_stats" where
  "value_stats c = \<lparr>vx_entries = length (va_entries c), vx_counts = va_counts c\<rparr>"

end
