(* ===== verification/CacheFacts.thy ===== *)
theory CacheFacts
  imports Caches
begin

text \<open>
  What the caches promise: their bounds, and that nothing older than the last invalidation is served.
  The contract of a single-flight cache is a locale; the system of a database whose commits are
  announced by invalidations, and requests whose loads run in between, is its client, and both caches
  are interpretations.
\<close>

section \<open>The system around a cache\<close>

record ('c, 'v) cache_ops =
  op_load :: "int \<Rightarrow> string \<Rightarrow> 'c \<Rightarrow> 'v load_answer \<times> 'c"
  op_finish :: "int \<Rightarrow> nat \<Rightarrow> string \<Rightarrow> 'v option \<Rightarrow> 'c \<Rightarrow> 'c"
  op_invalidate :: "string \<Rightarrow> 'c \<Rightarrow> 'c"
  op_clear :: "'c \<Rightarrow> 'c"

text \<open>
  \<open>sy_db t\<close> is what a loader would compute for each key after the \<open>t\<close>-th commit. A key is pending from a
  commit that changes it to the next invalidation. Only requests that begin while their key is not
  pending are followed: they wait on a load since a time, and their answers are kept.
\<close>

record ('c, 'v) system =
  sy_cache :: 'c
  sy_db :: "nat \<Rightarrow> string \<Rightarrow> 'v"
  sy_time :: nat
  sy_pending :: "string set"
  sy_key :: "nat \<Rightarrow> string"
  sy_open :: "nat set"
  sy_read :: "nat \<Rightarrow> 'v option"
  sy_waiting :: "(nat \<times> string \<times> nat) set"
  sy_answers :: "(string \<times> nat \<times> 'v) set"

definition start_system :: "(string \<Rightarrow> 'v) \<Rightarrow> 'c \<Rightarrow> ('c, 'v) system" where
  "start_system db c = \<lparr>sy_cache = c, sy_db = (\<lambda>t. db), sy_time = 0, sy_pending = {}, sy_key = (\<lambda>i. []),
     sy_open = {}, sy_read = (\<lambda>i. None), sy_waiting = {}, sy_answers = {}\<rparr>"

definition followed :: "('c, 'v) system \<Rightarrow> string \<Rightarrow> 'a \<Rightarrow> 'a set" where
  "followed s k x = (if k \<in> sy_pending s then {} else {x})"

definition begin_read :: "('c, 'v) system \<Rightarrow> string \<Rightarrow> nat \<Rightarrow> 'c \<Rightarrow> ('c, 'v) system" where
  "begin_read s k i c = s\<lparr>sy_cache := c, sy_open := insert i (sy_open s), sy_key := (sy_key s)(i := k),
     sy_read := (sy_read s)(i := None), sy_waiting := sy_waiting s \<union> followed s k (i, k, sy_time s)\<rparr>"

definition settle :: "('c, 'v) system \<Rightarrow> nat \<Rightarrow> 'v option \<Rightarrow> 'c \<Rightarrow> ('c, 'v) system" where
  "settle s i r c = s\<lparr>sy_cache := c, sy_open := sy_open s - {i}, sy_waiting := {w \<in> sy_waiting s. fst w \<noteq> i},
     sy_answers := sy_answers s \<union> {(k, since, v). (i, k, since) \<in> sy_waiting s \<and> r = Some v}\<rparr>"

inductive serves :: "('c, 'v) cache_ops \<Rightarrow> 'c \<Rightarrow> ('c, 'v) system \<Rightarrow> bool" for ops c0 where
  Start: "serves ops c0 (start_system db c0)"
| Commit: "serves ops c0 s \<Longrightarrow> \<forall>k. k \<notin> K \<longrightarrow> db k = sy_db s (sy_time s) k \<Longrightarrow>
    serves ops c0 (s\<lparr>sy_time := Suc (sy_time s), sy_db := (sy_db s)(Suc (sy_time s) := db), sy_pending := sy_pending s \<union> K\<rparr>)"
| Announce: "serves ops c0 s \<Longrightarrow>
    serves ops c0 (s\<lparr>sy_cache := op_invalidate ops k (sy_cache s), sy_pending := sy_pending s - {k}\<rparr>)"
| AnnounceAll: "serves ops c0 s \<Longrightarrow> serves ops c0 (s\<lparr>sy_cache := op_clear ops (sy_cache s), sy_pending := {}\<rparr>)"
| Answer: "serves ops c0 s \<Longrightarrow> op_load ops now k (sy_cache s) = (Hit v, c) \<Longrightarrow>
    serves ops c0 (s\<lparr>sy_cache := c, sy_answers := sy_answers s \<union> followed s k (k, sy_time s, v)\<rparr>)"
| Wait: "serves ops c0 s \<Longrightarrow> op_load ops now k (sy_cache s) = (Join i, c) \<Longrightarrow>
    serves ops c0 (s\<lparr>sy_cache := c, sy_waiting := sy_waiting s \<union> followed s k (i, k, sy_time s)\<rparr>)"
| Begin: "serves ops c0 s \<Longrightarrow> op_load ops now k (sy_cache s) = (Run i, c) \<Longrightarrow> serves ops c0 (begin_read s k i c)"
| Read: "serves ops c0 s \<Longrightarrow> i \<in> sy_open s \<Longrightarrow> sy_read s i = None \<Longrightarrow>
    serves ops c0 (s\<lparr>sy_read := (sy_read s)(i := Some (sy_db s (sy_time s) (sy_key s i)))\<rparr>)"
| Finish: "serves ops c0 s \<Longrightarrow> i \<in> sy_open s \<Longrightarrow> sy_read s i = Some v \<Longrightarrow>
    serves ops c0 (settle s i (Some v) (op_finish ops now i (sy_key s i) (Some v) (sy_cache s)))"
| Fail: "serves ops c0 s \<Longrightarrow> i \<in> sy_open s \<Longrightarrow>
    serves ops c0 (settle s i None (op_finish ops now i (sy_key s i) None (sy_cache s)))"

section \<open>The contract\<close>

locale load_cache =
  fixes ops :: "('c, 'v) cache_ops"
    and ok :: "'c \<Rightarrow> bool"
    and contents :: "'c \<Rightarrow> string \<Rightarrow> 'v option"
    and flights :: "'c \<Rightarrow> string \<Rightarrow> nat option"
    and is_stale :: "'c \<Rightarrow> nat \<Rightarrow> bool"
    and started :: "'c \<Rightarrow> nat"
    and replaces :: bool
  assumes load_frame: "ok c \<Longrightarrow> op_load ops now k c = (a, c') \<Longrightarrow> ok c' \<and> contents c' \<subseteq>\<^sub>m contents c \<and> is_stale c' = is_stale c"
    and load_hit: "ok c \<Longrightarrow> op_load ops now k c = (Hit v, c') \<Longrightarrow>
      contents c k = Some v \<and> flights c' = flights c \<and> started c' = started c"
    and load_join: "op_load ops now k c = (Join i, c') \<Longrightarrow>
      flights c k = Some i \<and> (replaces \<longrightarrow> \<not> is_stale c i) \<and> flights c' = flights c \<and> started c' = started c"
    and load_run: "op_load ops now k c = (Run i, c') \<Longrightarrow>
      i = started c \<and> started c' = Suc i \<and> flights c' = (flights c)(k \<mapsto> i) \<and>
      (\<forall>j. flights c k = Some j \<longrightarrow> replaces \<and> is_stale c j)"
    and finish_contents: "ok c \<Longrightarrow> ok (op_finish ops now i k r c) \<and>
      (contents (op_finish ops now i k r c) k' = Some v \<longrightarrow> contents c k' = Some v \<or> (\<not> is_stale c i \<and> k' = k \<and> r = Some v))"
    and finish_flights: "replaces \<or> flights c k = Some i \<Longrightarrow>
      flights (op_finish ops now i k r c) = (if flights c k = Some i then (flights c)(k := None) else flights c)"
    and finish_frame: "is_stale (op_finish ops now i k r c) = is_stale c \<and> started (op_finish ops now i k r c) = started c"
    and invalidate_effect: "ok c \<Longrightarrow> ok (op_invalidate ops k c) \<and> contents (op_invalidate ops k c) = (contents c)(k := None) \<and>
      flights (op_invalidate ops k c) = flights c \<and> started (op_invalidate ops k c) = started c"
    and invalidate_stale: "is_stale (op_invalidate ops k c) j \<longleftrightarrow> is_stale c j \<or> flights c k = Some j"
    and clear_effect: "ok c \<Longrightarrow> ok (op_clear ops c) \<and> contents (op_clear ops c) = Map.empty \<and>
      flights (op_clear ops c) = flights c \<and> started (op_clear ops c) = started c"
    and clear_stale: "flights c k = Some j \<or> is_stale c j \<Longrightarrow> is_stale (op_clear ops c) j"
    and clear_stale_only: "ok c \<Longrightarrow> is_stale (op_clear ops c) j \<Longrightarrow> is_stale c j \<or> (\<exists>k. flights c k = Some j)"

text \<open>The parts of the invariant of a reachable system.\<close>

context load_cache begin

definition entries_fresh :: "('c, 'v) system \<Rightarrow> bool" where
  "entries_fresh s \<longleftrightarrow> (\<forall>k v. k \<notin> sy_pending s \<and> contents (sy_cache s) k = Some v \<longrightarrow> v = sy_db s (sy_time s) k)"

definition loads_fresh :: "('c, 'v) system \<Rightarrow> bool" where
  "loads_fresh s \<longleftrightarrow> (\<forall>i v. i \<in> sy_open s \<and> \<not> is_stale (sy_cache s) i \<and> sy_key s i \<notin> sy_pending s \<and> sy_read s i = Some v \<longrightarrow>
     v = sy_db s (sy_time s) (sy_key s i))"

definition loads_tracked :: "('c, 'v) system \<Rightarrow> bool" where
  "loads_tracked s \<longleftrightarrow> ok (sy_cache s) \<and>
     (\<forall>i \<in> sy_open s. i < started (sy_cache s) \<and>
        (flights (sy_cache s) (sy_key s i) = Some i \<or> replaces \<and> is_stale (sy_cache s) i)) \<and>
     (\<forall>k i. flights (sy_cache s) k = Some i \<longrightarrow> i \<in> sy_open s \<and> sy_key s i = k) \<and>
     (\<forall>i. is_stale (sy_cache s) i \<longrightarrow> i < started (sy_cache s))"

definition answered_in_time :: "('c, 'v) system \<Rightarrow> string \<Rightarrow> nat \<Rightarrow> 'v \<Rightarrow> bool" where
  "answered_in_time s k since v \<longleftrightarrow> (\<exists>t. since \<le> t \<and> t \<le> sy_time s \<and> v = sy_db s t k)"

definition requests_fresh :: "('c, 'v) system \<Rightarrow> bool" where
  "requests_fresh s \<longleftrightarrow>
     (\<forall>i k since. (i, k, since) \<in> sy_waiting s \<longrightarrow> i \<in> sy_open s \<and> sy_key s i = k \<and> since \<le> sy_time s \<and>
        (replaces \<longrightarrow> (\<forall>v. sy_read s i = Some v \<longrightarrow> answered_in_time s k since v))) \<and>
     (replaces \<longrightarrow> (\<forall>k since v. (k, since, v) \<in> sy_answers s \<longrightarrow> answered_in_time s k since v))"

definition fresh :: "('c, 'v) system \<Rightarrow> bool" where
  "fresh s \<longleftrightarrow> entries_fresh s \<and> loads_fresh s \<and> loads_tracked s \<and> requests_fresh s"

lemma fresh_commit:
  assumes "fresh s" "\<forall>k. k \<notin> K \<longrightarrow> db k = sy_db s (sy_time s) k"
  shows "fresh (s\<lparr>sy_time := Suc (sy_time s), sy_db := (sy_db s)(Suc (sy_time s) := db), sy_pending := sy_pending s \<union> K\<rparr>)"
    (is "fresh ?s")
proof -
  have keep: "answered_in_time ?s k since v" if "answered_in_time s k since v" for k since v
  proof -
    obtain t where t: "since \<le> t" "t \<le> sy_time s" "v = sy_db s t k" using \<open>answered_in_time s k since v\<close>
      by (auto simp: answered_in_time_def)
    then have "since \<le> t \<and> t \<le> sy_time ?s \<and> v = sy_db ?s t k" by simp
    then show ?thesis unfolding answered_in_time_def by blast
  qed
  have "entries_fresh ?s" "loads_fresh ?s" "loads_tracked ?s"
    using assms by (simp_all add: fresh_def entries_fresh_def loads_fresh_def loads_tracked_def)
  moreover have "requests_fresh ?s"
    using assms(1) keep unfolding fresh_def requests_fresh_def by (auto simp: le_SucI)
  ultimately show ?thesis by (simp add: fresh_def)
qed

lemma fresh_invalidate:
  assumes "fresh s"
  shows "fresh (s\<lparr>sy_cache := op_invalidate ops k (sy_cache s), sy_pending := sy_pending s - {k}\<rparr>)" (is "fresh ?s")
proof -
  have tracked: "loads_tracked s" and "ok (sy_cache s)" using assms by (simp_all add: fresh_def loads_tracked_def)
  note eff = invalidate_effect [OF this(2), of k]
  have "entries_fresh ?s" using assms eff by (auto simp: fresh_def entries_fresh_def)
  moreover have "loads_tracked ?s" using tracked eff by (auto simp: loads_tracked_def invalidate_stale)
  moreover have "loads_fresh ?s"
    using assms tracked eff by (auto simp: fresh_def loads_fresh_def loads_tracked_def invalidate_stale)
  moreover have "requests_fresh ?s" using assms by (simp add: fresh_def requests_fresh_def answered_in_time_def)
  ultimately show ?thesis by (simp add: fresh_def)
qed

lemma fresh_clear:
  assumes "fresh s"
  shows "fresh (s\<lparr>sy_cache := op_clear ops (sy_cache s), sy_pending := {}\<rparr>)" (is "fresh ?s")
proof -
  have tracked: "loads_tracked s" and ok: "ok (sy_cache s)" using assms by (simp_all add: fresh_def loads_tracked_def)
  note eff = clear_effect [OF ok]
  have stale: "is_stale (op_clear ops (sy_cache s)) i" if "i \<in> sy_open s" for i
    using tracked that clear_stale [of "sy_cache s" "sy_key s i" i] unfolding loads_tracked_def by blast
  have "i < started (sy_cache s)" if "is_stale (op_clear ops (sy_cache s)) i" for i
    using clear_stale_only [OF ok that] tracked unfolding loads_tracked_def by blast
  moreover have "is_stale (op_clear ops (sy_cache s)) i" if "is_stale (sy_cache s) i" for i using that clear_stale by blast
  ultimately have "loads_tracked ?s" using tracked eff unfolding loads_tracked_def by auto
  moreover have "entries_fresh ?s" "loads_fresh ?s" using eff stale by (auto simp: entries_fresh_def loads_fresh_def)
  moreover have "requests_fresh ?s" using assms by (simp add: fresh_def requests_fresh_def answered_in_time_def)
  ultimately show ?thesis by (simp add: fresh_def)
qed

lemma fresh_load:
  assumes "fresh s" "op_load ops now k (sy_cache s) = (a, c)"
  shows "ok c" "contents c j = Some v \<Longrightarrow> contents (sy_cache s) j = Some v" "is_stale c = is_stale (sy_cache s)"
proof -
  have "ok (sy_cache s)" using assms(1) by (simp add: fresh_def loads_tracked_def)
  from load_frame [OF this assms(2)] show "ok c" "is_stale c = is_stale (sy_cache s)" by simp_all
  from load_frame [OF \<open>ok (sy_cache s)\<close> assms(2)]
  show "contents c j = Some v \<Longrightarrow> contents (sy_cache s) j = Some v" by (auto simp: map_le_def dom_def)
qed

lemma fresh_answer:
  assumes "fresh s" "op_load ops now k (sy_cache s) = (Hit v, c)"
  shows "fresh (s\<lparr>sy_cache := c, sy_answers := sy_answers s \<union> followed s k (k, sy_time s, v)\<rparr>)" (is "fresh ?s")
proof -
  have ok: "ok (sy_cache s)" using assms(1) by (simp add: fresh_def loads_tracked_def)
  note hit = load_hit [OF ok assms(2)] and frame = fresh_load [OF assms]
  have "entries_fresh ?s" using assms(1) frame(2) unfolding fresh_def entries_fresh_def by (auto dest!: frame(2))
  moreover have "loads_fresh ?s" "loads_tracked ?s"
    using assms(1) hit frame(1,3) by (simp_all add: fresh_def loads_fresh_def loads_tracked_def)
  moreover have "k \<notin> sy_pending s \<Longrightarrow> v = sy_db s (sy_time s) k"
    using assms(1) hit by (simp add: fresh_def entries_fresh_def)
  then have "requests_fresh ?s"
    using assms(1) unfolding fresh_def requests_fresh_def answered_in_time_def followed_def by (auto split: if_splits)
  ultimately show ?thesis by (simp add: fresh_def)
qed

lemma fresh_wait:
  assumes "fresh s" "op_load ops now k (sy_cache s) = (Join i, c)"
  shows "fresh (s\<lparr>sy_cache := c, sy_waiting := sy_waiting s \<union> followed s k (i, k, sy_time s)\<rparr>)" (is "fresh ?s")
proof -
  note join = load_join [OF assms(2)] and frame = fresh_load [OF assms]
  have "entries_fresh ?s" using assms(1) frame(2) unfolding fresh_def entries_fresh_def by (auto dest!: frame(2))
  moreover have "loads_fresh ?s" "loads_tracked ?s"
    using assms(1) join frame(1,3) by (simp_all add: fresh_def loads_fresh_def loads_tracked_def)
  moreover have i: "i \<in> sy_open s" "sy_key s i = k"
    using assms(1) join unfolding fresh_def loads_tracked_def by blast+
  have "v = sy_db s (sy_time s) k" if "replaces" "k \<notin> sy_pending s" "sy_read s i = Some v" for v
    using assms(1) join i that unfolding fresh_def loads_fresh_def by blast
  then have "requests_fresh ?s"
    using assms(1) i unfolding fresh_def requests_fresh_def answered_in_time_def followed_def by (auto split: if_splits)
  ultimately show ?thesis by (simp add: fresh_def)
qed

lemma fresh_begin:
  assumes "fresh s" "op_load ops now k (sy_cache s) = (Run i, c)"
  shows "fresh (begin_read s k i c)" (is "fresh ?s")
proof -
  note run = load_run [OF assms(2)] and frame = fresh_load [OF assms]
  have tracked: "loads_tracked s" using assms(1) by (simp add: fresh_def)
  have new: "i \<notin> sy_open s" using tracked run unfolding loads_tracked_def by fastforce
  have "entries_fresh ?s"
    using assms(1) unfolding fresh_def entries_fresh_def begin_read_def by (auto dest!: frame(2))
  moreover have "loads_fresh ?s"
    using assms(1) new frame(3) unfolding fresh_def loads_fresh_def begin_read_def by auto
  moreover have "loads_tracked ?s"
  proof -
    have "j < started c \<and> (flights c (sy_key ?s j) = Some j \<or> replaces \<and> is_stale c j)" if "j \<in> sy_open ?s" for j
    proof (cases "j = i")
      case True
      then show ?thesis using run by (simp add: begin_read_def)
    next
      case False
      then have j: "j \<in> sy_open s" "sy_key ?s j = sy_key s j" using that by (simp_all add: begin_read_def)
      then have "j < started (sy_cache s)" "flights (sy_cache s) (sy_key s j) = Some j \<or> replaces \<and> is_stale (sy_cache s) j"
        using tracked unfolding loads_tracked_def by blast+
      then show ?thesis using run frame(3) j(2) by auto
    qed
    moreover have "j \<in> sy_open ?s \<and> sy_key ?s j = k'" if "flights c k' = Some j" for k' j
      using that run new tracked unfolding loads_tracked_def begin_read_def by (auto split: if_splits)
    moreover have "j < started c" if "is_stale c j" for j
      using that run frame(3) tracked unfolding loads_tracked_def by fastforce
    ultimately show ?thesis using frame(1) unfolding loads_tracked_def by (simp add: begin_read_def)
  qed
  moreover have "requests_fresh ?s"
    using assms(1) new unfolding fresh_def requests_fresh_def answered_in_time_def followed_def begin_read_def
    by (auto split: if_splits)
  ultimately show ?thesis by (simp add: fresh_def)
qed

lemma fresh_read:
  assumes "fresh s" "i \<in> sy_open s" "sy_read s i = None"
  shows "fresh (s\<lparr>sy_read := (sy_read s)(i := Some (sy_db s (sy_time s) (sy_key s i)))\<rparr>)" (is "fresh ?s")
proof -
  have "entries_fresh ?s" "loads_fresh ?s" "loads_tracked ?s"
    using assms by (simp_all add: fresh_def entries_fresh_def loads_fresh_def loads_tracked_def)
  moreover have "requests_fresh ?s"
    using assms(1) unfolding fresh_def requests_fresh_def answered_in_time_def by auto
  ultimately show ?thesis by (simp add: fresh_def)
qed

lemma fresh_settle:
  assumes "fresh s" "i \<in> sy_open s" "r = None \<or> r = sy_read s i"
  shows "fresh (settle s i r (op_finish ops now i (sy_key s i) r (sy_cache s)))" (is "fresh ?s")
proof -
  let ?c = "sy_cache s" and ?k = "sy_key s i"
  let ?c' = "op_finish ops now i ?k r ?c"
  have tracked: "loads_tracked s" and ok: "ok ?c" using assms(1) by (simp_all add: fresh_def loads_tracked_def)
  have owns: "replaces \<or> flights ?c ?k = Some i" using tracked assms(2) unfolding loads_tracked_def by blast
  note eff = finish_contents [OF ok, of now i ?k r] and frame = finish_frame [of now i ?k r ?c]
    and fl = finish_flights [OF owns, of now r]
  have "v = sy_db s (sy_time s) k" if "k \<notin> sy_pending s" "contents ?c' k = Some v" for k v
  proof -
    from eff that(2) consider "contents ?c k = Some v" | "\<not> is_stale ?c i" "k = ?k" "r = Some v" by blast
    then show ?thesis
    proof cases
      case 1
      then show ?thesis using assms(1) that(1) by (simp add: fresh_def entries_fresh_def)
    next
      case 2
      then show ?thesis using assms that(1) by (simp add: fresh_def loads_fresh_def)
    qed
  qed
  then have "entries_fresh ?s" by (simp add: entries_fresh_def settle_def)
  moreover have "loads_fresh ?s" using assms(1) frame by (simp add: fresh_def loads_fresh_def settle_def)
  moreover have "loads_tracked ?s"
  proof -
    have "j < started ?c' \<and> (flights ?c' (sy_key s j) = Some j \<or> replaces \<and> is_stale ?c' j)" if "j \<in> sy_open s - {i}" for j
    proof -
      have "j \<noteq> i" "j < started ?c" "flights ?c (sy_key s j) = Some j \<or> replaces \<and> is_stale ?c j"
        using tracked that unfolding loads_tracked_def by blast+
      then show ?thesis unfolding fl using frame by auto
    qed
    moreover have "j \<in> sy_open s - {i} \<and> sy_key s j = k" if "flights ?c' k = Some j" for k j
    proof -
      have "flights ?c k = Some j" "k \<noteq> ?k \<or> flights ?c ?k \<noteq> Some i" using that unfolding fl by (auto split: if_splits)
      moreover from this(1) have "j \<in> sy_open s" "sy_key s j = k" using tracked unfolding loads_tracked_def by blast+
      ultimately show ?thesis by auto
    qed
    ultimately show ?thesis using tracked eff frame unfolding loads_tracked_def by (simp add: settle_def)
  qed
  moreover have "requests_fresh ?s"
  proof -
    have req: "requests_fresh s" using assms(1) by (simp add: fresh_def)
    have same: "answered_in_time ?s k since v \<longleftrightarrow> answered_in_time s k since v" for k since v
      by (simp add: answered_in_time_def settle_def)
    have "answered_in_time s k since v" if "replaces" "(k, since, v) \<in> sy_answers ?s" for k since v
    proof -
      from that(2) consider "(k, since, v) \<in> sy_answers s" | "(i, k, since) \<in> sy_waiting s" "r = Some v"
        by (auto simp: settle_def)
      then show ?thesis
      proof cases
        case 1
        then show ?thesis using req that(1) unfolding requests_fresh_def by blast
      next
        case 2
        then have "sy_read s i = Some v" using assms(3) by simp
        then show ?thesis using req that(1) 2(1) unfolding requests_fresh_def by blast
      qed
    qed
    moreover have "j \<in> sy_open ?s \<and> sy_key ?s j = k \<and> since \<le> sy_time ?s \<and>
        (replaces \<longrightarrow> (\<forall>v. sy_read ?s j = Some v \<longrightarrow> answered_in_time s k since v))" if "(j, k, since) \<in> sy_waiting ?s" for j k since
    proof -
      have "(j, k, since) \<in> sy_waiting s" "j \<noteq> i" using that by (auto simp: settle_def)
      then show ?thesis using req unfolding requests_fresh_def by (auto simp: settle_def)
    qed
    ultimately show ?thesis unfolding requests_fresh_def same by blast
  qed
  ultimately show ?thesis by (simp add: fresh_def)
qed

lemma serves_fresh:
  assumes "serves ops c0 s" "ok c0" "contents c0 = Map.empty" "flights c0 = Map.empty" "\<And>j. \<not> is_stale c0 j"
  shows "fresh s"
  using assms(1)
proof induction
  case (Start db)
  show ?case using assms(2-5)
    by (simp add: fresh_def entries_fresh_def loads_fresh_def loads_tracked_def requests_fresh_def start_system_def)
next
  case (Finish s i v now)
  then show ?case using fresh_settle [of s i "Some v"] by simp
next
  case (Fail s i now)
  then show ?case using fresh_settle [of s i None] by simp
qed (simp_all add: fresh_commit fresh_invalidate fresh_clear fresh_answer fresh_wait fresh_begin fresh_read)

text \<open>What is cached is current, and where stale loads are not joined, no answer is older than its request.\<close>

lemma served_entry:
  assumes "serves ops c0 s" "ok c0" "contents c0 = Map.empty" "flights c0 = Map.empty" "\<And>j. \<not> is_stale c0 j"
    "k \<notin> sy_pending s" "contents (sy_cache s) k = Some v"
  shows "v = sy_db s (sy_time s) k"
  using serves_fresh [OF assms(1-5)] assms(6,7) by (simp add: fresh_def entries_fresh_def)

lemma served_answer:
  assumes "serves ops c0 s" "ok c0" "contents c0 = Map.empty" "flights c0 = Map.empty" "\<And>j. \<not> is_stale c0 j"
    "replaces" "(k, since, v) \<in> sy_answers s"
  shows "\<exists>t. since \<le> t \<and> t \<le> sy_time s \<and> v = sy_db s t k"
  using serves_fresh [OF assms(1-5)] assms(6,7) unfolding fresh_def requests_fresh_def answered_in_time_def by blast

end

section \<open>The two caches\<close>

lemma map_of_suffix:
  assumes "map_ok (xs @ ys)"
  shows "map_ok ys" "map_of ys k = Some v \<Longrightarrow> map_of (xs @ ys) k = Some v"
proof -
  show ok: "map_ok ys" using assms by (simp add: map_ok_def)
  show "map_of (xs @ ys) k = Some v" if "map_of ys k = Some v"
    using that assms ok by (simp only: map_get_in_set set_append Un_iff simp_thms)
qed

lemma map_of_drop:
  "map_ok m \<Longrightarrow> map_ok (drop n m)"
  "map_ok m \<Longrightarrow> map_of (drop n m) k = Some v \<Longrightarrow> map_of m k = Some v"
  using map_of_suffix [of "take n m" "drop n m"] by simp_all

lemma evict_drop: "\<exists>n. fst (evict maxEntries maxBytes bytes entries tally evictions) = drop n entries"
proof (induction maxEntries maxBytes bytes entries tally evictions rule: evict.induct)
  case (2 maxEntries maxBytes bytes key entry entries tally evictions)
  show ?case
  proof (cases "maxEntries \<le> int (length ((key, entry) # entries)) \<or> tally + bytes > maxBytes")
    case True
    with 2 obtain n where "fst (evict maxEntries maxBytes bytes entries (tally - ce_bytes entry) (evictions + 1)) = drop n entries" by auto
    then show ?thesis using True by (intro exI [of _ "Suc n"]) simp
  next
    case False
    then show ?thesis by (intro exI [of _ 0]) simp
  qed
qed simp

lemma value_evict_drop: "\<exists>n. fst (value_evict maxEntries entries evictions) = drop n entries"
proof (induction maxEntries entries evictions rule: value_evict.induct)
  case (2 maxEntries e entries evictions)
  show ?case
  proof (cases "maxEntries \<le> int (length (e # entries))")
    case True
    with 2 obtain n where "fst (value_evict maxEntries entries (evictions + 1)) = drop n entries" by auto
    then show ?thesis using True by (intro exI [of _ "Suc n"]) simp
  next
    case False
    then show ?thesis by (intro exI [of _ 0]) simp
  qed
qed simp

text \<open>What \<open>set\<close> leaves: the new entry, or nothing new, over a part of what was there.\<close>

lemma set_entry_effect:
  assumes "map_ok (ca_entries c)"
  shows "map_ok (ca_entries (set_entry now key r c)) \<and> ca_inflight (set_entry now key r c) = ca_inflight c \<and>
    ca_stale (set_entry now key r c) = ca_stale c \<and> ca_started (set_entry now key r c) = ca_started c \<and>
    (\<forall>k e. map_get (ca_entries (set_entry now key r c)) k = Some e \<longrightarrow>
       (k = key \<and> ce_response e = r) \<or> map_get (ca_entries c) k = Some e)"
proof (cases "enabled c \<and> bodyBytes (re_body r) \<le> ca_maxBytes c")
  case False
  then show ?thesis using assms by (auto simp: set_entry_def Let_def)
next
  case True
  define start where "start = (case map_get (ca_entries c) key of None \<Rightarrow> (ca_entries c, ca_totalBytes c)
     | Some existing \<Rightarrow> (map_delete key (ca_entries c), ca_totalBytes c - ce_bytes existing))"
  have start: "fst start = map_delete key (ca_entries c)"
    by (auto simp: start_def map_delete_absent split: option.splits)
  let ?ev = "evict (ca_maxEntries c) (ca_maxBytes c) (bodyBytes (re_body r)) (fst start) (snd start) (co_evictions (ca_counts c))"
  obtain n where n: "fst ?ev = drop n (fst start)" using evict_drop by blast
  have ok: "map_ok (fst ?ev)" unfolding n unfolding start by (rule map_of_drop(1)) (use assms in simp)
  have sub: "map_get (ca_entries c) k = Some e" if "map_get (fst ?ev) k = Some e" for k e
  proof -
    have "map_get (map_delete key (ca_entries c)) k = Some e"
      using that map_of_drop(2) [of "map_delete key (ca_entries c)" n k e] assms unfolding n unfolding start by simp
    then show ?thesis by (auto split: if_splits)
  qed
  have run: "set_entry now key r c =
      c\<lparr>ca_entries := map_set key \<lparr>ce_response = r, ce_bytes = bodyBytes (re_body r), ce_expiresAt = now + ca_ttlMs c\<rparr> (fst ?ev),
        ca_totalBytes := fst (snd ?ev) + bodyBytes (re_body r),
        ca_counts := (ca_counts c)\<lparr>co_evictions := snd (snd ?ev)\<rparr>\<rparr>"
    using True by (simp add: set_entry_def Let_def case_prod_unfold start_def)
  show ?thesis unfolding run using ok sub by (auto split: if_splits)
qed

lemma value_set_effect:
  assumes "map_ok (va_entries c)"
  shows "map_ok (va_entries (value_set now key r c)) \<and> va_inflight (value_set now key r c) = va_inflight c \<and>
    va_stale (value_set now key r c) = va_stale c \<and> va_started (value_set now key r c) = va_started c \<and>
    (\<forall>k e. map_get (va_entries (value_set now key r c)) k = Some e \<longrightarrow>
       (k = key \<and> ve_value e = r) \<or> map_get (va_entries c) k = Some e)"
proof (cases "value_enabled c")
  case False
  then show ?thesis using assms by (simp add: value_set_def)
next
  case True
  let ?m = "map_delete key (va_entries c)"
  let ?ev = "value_evict (va_maxEntries c) ?m (co_evictions (va_counts c))"
  obtain n where n: "fst ?ev = drop n ?m" using value_evict_drop by blast
  have ok: "map_ok (fst ?ev)" unfolding n by (rule map_of_drop(1)) (use assms in simp)
  have sub: "map_get (va_entries c) k = Some e" if "map_get (fst ?ev) k = Some e" for k e
  proof -
    have "map_get ?m k = Some e" using that map_of_drop(2) [of ?m n k e] assms unfolding n by simp
    then show ?thesis by (auto split: if_splits)
  qed
  have run: "value_set now key r c =
      c\<lparr>va_entries := map_set key \<lparr>ve_value = r, ve_expiresAt = now + va_ttlMs c\<rparr> (fst ?ev),
        va_counts := (va_counts c)\<lparr>co_evictions := snd ?ev\<rparr>\<rparr>"
    using True by (simp add: value_set_def case_prod_unfold Let_def)
  show ?thesis unfolding run using ok sub by (auto split: if_splits)
qed

definition response_ops :: "(response_cache, cached_response) cache_ops" where
  "response_ops = \<lparr>op_load = load, op_finish = finish_load, op_invalidate = invalidate, op_clear = clear\<rparr>"

definition value_ops :: "('v value_cache, 'v) cache_ops" where
  "value_ops = \<lparr>op_load = value_load, op_finish = value_finish, op_invalidate = value_invalidate, op_clear = value_clear\<rparr>"

definition response_contents :: "response_cache \<Rightarrow> string \<Rightarrow> cached_response option" where
  "response_contents c k = map_option ce_response (map_get (ca_entries c) k)"

definition value_contents :: "'v value_cache \<Rightarrow> string \<Rightarrow> 'v option" where
  "value_contents c k = map_option ve_value (map_get (va_entries c) k)"

lemma get_effect:
  assumes "map_ok (ca_entries c)" "get now key c = (r, c')"
  shows "map_ok (ca_entries c') \<and> response_contents c' \<subseteq>\<^sub>m response_contents c \<and>
    (\<forall>v. r = Some v \<longrightarrow> response_contents c key = Some v) \<and>
    ca_inflight c' = ca_inflight c \<and> ca_stale c' = ca_stale c \<and> ca_started c' = ca_started c"
  using assms
  by (auto simp: get_def response_contents_def map_le_def dom_def split: option.splits if_splits)

lemma value_get_effect:
  assumes "map_ok (va_entries c)" "value_get now key c = (r, c')"
  shows "map_ok (va_entries c') \<and> value_contents c' \<subseteq>\<^sub>m value_contents c \<and>
    (\<forall>v. r = Some v \<longrightarrow> value_contents c key = Some v) \<and>
    va_inflight c' = va_inflight c \<and> va_stale c' = va_stale c \<and> va_started c' = va_started c"
  using assms
  by (auto simp: value_get_def value_contents_def map_le_def dom_def split: option.splits if_splits)

lemma response_contents_frame [simp]:
  "response_contents (c\<lparr>ca_counts := x\<rparr>) = response_contents c"
  "response_contents (c\<lparr>ca_inflight := y\<rparr>) = response_contents c"
  "response_contents (c\<lparr>ca_stale := z\<rparr>) = response_contents c"
  "response_contents (c\<lparr>ca_started := n\<rparr>) = response_contents c"
  by (simp_all add: response_contents_def fun_eq_iff)

lemma value_contents_frame [simp]:
  "value_contents (c\<lparr>va_counts := x\<rparr>) = value_contents c"
  "value_contents (c\<lparr>va_inflight := y\<rparr>) = value_contents c"
  "value_contents (c\<lparr>va_stale := z\<rparr>) = value_contents c"
  "value_contents (c\<lparr>va_started := n\<rparr>) = value_contents c"
  by (simp_all add: value_contents_def fun_eq_iff)

lemma response_load_effect:
  assumes "load now k c = (a, c')"
  shows "map_ok (ca_entries c) \<Longrightarrow> map_ok (ca_entries c') \<and> response_contents c' \<subseteq>\<^sub>m response_contents c"
    "ca_stale c' = ca_stale c"
    "case a of
       Hit v \<Rightarrow> (map_ok (ca_entries c) \<longrightarrow> response_contents c k = Some v) \<and> ca_inflight c' = ca_inflight c \<and> ca_started c' = ca_started c
     | Join i \<Rightarrow> map_get (ca_inflight c) k = Some i \<and> i \<notin> set (ca_stale c) \<and> ca_inflight c' = ca_inflight c \<and> ca_started c' = ca_started c
     | Run i \<Rightarrow> i = ca_started c \<and> ca_started c' = Suc i \<and> ca_inflight c' = map_set k i (ca_inflight c) \<and>
         (\<forall>j. map_get (ca_inflight c) k = Some j \<longrightarrow> j \<in> set (ca_stale c))"
proof -
  obtain r c1 where g: "get now k c = (r, c1)" by (cases "get now k c")
  have frame: "ca_inflight c1 = ca_inflight c" "ca_stale c1 = ca_stale c" "ca_started c1 = ca_started c"
    using g by (auto simp: get_def split: option.splits if_splits)
  note ga = get_effect [OF _ g]
  show "map_ok (ca_entries c) \<Longrightarrow> map_ok (ca_entries c') \<and> response_contents c' \<subseteq>\<^sub>m response_contents c"
    using assms g ga by (auto simp: load_def Let_def split: option.splits if_splits)
  show "ca_stale c' = ca_stale c"
    using assms g frame by (auto simp: load_def Let_def split: option.splits if_splits)
  show "case a of
       Hit v \<Rightarrow> (map_ok (ca_entries c) \<longrightarrow> response_contents c k = Some v) \<and> ca_inflight c' = ca_inflight c \<and> ca_started c' = ca_started c
     | Join i \<Rightarrow> map_get (ca_inflight c) k = Some i \<and> i \<notin> set (ca_stale c) \<and> ca_inflight c' = ca_inflight c \<and> ca_started c' = ca_started c
     | Run i \<Rightarrow> i = ca_started c \<and> ca_started c' = Suc i \<and> ca_inflight c' = map_set k i (ca_inflight c) \<and>
         (\<forall>j. map_get (ca_inflight c) k = Some j \<longrightarrow> j \<in> set (ca_stale c))"
    using assms g frame ga by (auto simp: load_def Let_def split: option.splits if_splits)
qed

lemma value_load_effect:
  assumes "value_load now k c = (a, c')"
  shows "map_ok (va_entries c) \<Longrightarrow> map_ok (va_entries c') \<and> value_contents c' \<subseteq>\<^sub>m value_contents c"
    "va_stale c' = va_stale c"
    "case a of
       Hit v \<Rightarrow> (map_ok (va_entries c) \<longrightarrow> value_contents c k = Some v) \<and> va_inflight c' = va_inflight c \<and> va_started c' = va_started c
     | Join i \<Rightarrow> map_get (va_inflight c) k = Some i \<and> va_inflight c' = va_inflight c \<and> va_started c' = va_started c
     | Run i \<Rightarrow> i = va_started c \<and> va_started c' = Suc i \<and> va_inflight c' = map_set k i (va_inflight c) \<and>
         map_get (va_inflight c) k = None"
proof -
  obtain r c1 where g: "value_get now k c = (r, c1)" by (cases "value_get now k c")
  have frame: "va_inflight c1 = va_inflight c" "va_stale c1 = va_stale c" "va_started c1 = va_started c"
    using g by (auto simp: value_get_def split: option.splits if_splits)
  note ga = value_get_effect [OF _ g]
  show "map_ok (va_entries c) \<Longrightarrow> map_ok (va_entries c') \<and> value_contents c' \<subseteq>\<^sub>m value_contents c"
    using assms g ga by (auto simp: value_load_def split: option.splits if_splits)
  show "va_stale c' = va_stale c"
    using assms g frame by (auto simp: value_load_def split: option.splits if_splits)
  show "case a of
       Hit v \<Rightarrow> (map_ok (va_entries c) \<longrightarrow> value_contents c k = Some v) \<and> va_inflight c' = va_inflight c \<and> va_started c' = va_started c
     | Join i \<Rightarrow> map_get (va_inflight c) k = Some i \<and> va_inflight c' = va_inflight c \<and> va_started c' = va_started c
     | Run i \<Rightarrow> i = va_started c \<and> va_started c' = Suc i \<and> va_inflight c' = map_set k i (va_inflight c) \<and>
         map_get (va_inflight c) k = None"
    using assms g frame ga by (auto simp: value_load_def split: option.splits if_splits)
qed

definition response_ok :: "response_cache \<Rightarrow> bool" where
  "response_ok c \<longleftrightarrow> map_ok (ca_entries c) \<and> map_ok (ca_inflight c)"

definition value_ok :: "'v value_cache \<Rightarrow> bool" where
  "value_ok c \<longleftrightarrow> map_ok (va_entries c) \<and> map_ok (va_inflight c)"

lemma response_load_ok: "response_ok c \<Longrightarrow> load now k c = (a, c') \<Longrightarrow> response_ok c'"
  using response_load_effect [of now k c a c'] by (auto simp: response_ok_def split: load_answer.splits)

lemma value_load_ok: "value_ok c \<Longrightarrow> value_load now k c = (a, c') \<Longrightarrow> value_ok c'"
  using value_load_effect [of now k c a c'] by (auto simp: value_ok_def split: load_answer.splits)

lemma finish_load_effect:
  assumes "response_ok c"
  shows "response_ok (finish_load now i k r c) \<and>
    (response_contents (finish_load now i k r c) k' = Some v \<longrightarrow>
       response_contents c k' = Some v \<or> (i \<notin> set (ca_stale c) \<and> k' = k \<and> r = Some v))"
  using assms set_entry_effect [of c now k]
  by (cases r) (auto simp: finish_load_def response_ok_def response_contents_def Let_def)

lemma finish_load_frame:
  "map_get (ca_inflight (finish_load now i k r c)) =
     (if map_get (ca_inflight c) k = Some i then (map_get (ca_inflight c))(k := None) else map_get (ca_inflight c))"
  "ca_stale (finish_load now i k r c) = ca_stale c" "ca_started (finish_load now i k r c) = ca_started c"
  by (auto simp: finish_load_def set_entry_def Let_def split: option.splits prod.splits)

lemma value_finish_effect:
  assumes "value_ok c"
  shows "value_ok (value_finish now i k r c) \<and>
    (value_contents (value_finish now i k r c) k' = Some v \<longrightarrow>
       value_contents c k' = Some v \<or> (i \<notin> set (va_stale c) \<and> k' = k \<and> r = Some v))"
  using assms value_set_effect [of c now k]
  by (cases r) (auto simp: value_finish_def value_ok_def value_contents_def Let_def)

lemma value_finish_frame:
  "map_get (va_inflight (value_finish now i k r c)) = (map_get (va_inflight c))(k := None)"
  "va_stale (value_finish now i k r c) = va_stale c" "va_started (value_finish now i k r c) = va_started c"
  by (auto simp: value_finish_def value_set_def Let_def split: option.splits prod.splits)

lemma invalidate_effects:
  "response_ok c \<Longrightarrow> response_ok (invalidate k c)" "response_contents (invalidate k c) = (response_contents c)(k := None)"
  "ca_inflight (invalidate k c) = ca_inflight c" "ca_started (invalidate k c) = ca_started c"
  "j \<in> set (ca_stale (invalidate k c)) \<longleftrightarrow> j \<in> set (ca_stale c) \<or> map_get (ca_inflight c) k = Some j"
  by (auto simp: invalidate_def response_ok_def response_contents_def fun_eq_iff Let_def split: option.splits)

lemma value_invalidate_effects:
  "value_ok c \<Longrightarrow> value_ok (value_invalidate k c)" "value_contents (value_invalidate k c) = (value_contents c)(k := None)"
  "va_inflight (value_invalidate k c) = va_inflight c" "va_started (value_invalidate k c) = va_started c"
  "j \<in> set (va_stale (value_invalidate k c)) \<longleftrightarrow> j \<in> set (va_stale c) \<or> map_get (va_inflight c) k = Some j"
  by (auto simp: value_invalidate_def value_ok_def value_contents_def fun_eq_iff Let_def split: option.splits)

lemma in_flight_map: "map_ok m \<Longrightarrow> j \<in> snd ` set m \<longleftrightarrow> (\<exists>k. map_get m k = Some j)"
  by (force simp: map_get_in_set)

lemma in_flight: "map_get m k = Some j \<Longrightarrow> j \<in> snd ` set m"
  by (drule map_of_SomeD) force

interpretation response: load_cache response_ops response_ok response_contents "\<lambda>c. map_get (ca_inflight c)"
  "\<lambda>c j. j \<in> set (ca_stale c)" ca_started True
proof (unfold_locales, goal_cases)
  case (1 c now k a c')
  then show ?case using response_load_effect(1,2) [of now k c a c'] response_load_ok [of c now k a c']
    by (simp add: response_ops_def response_ok_def)
next
  case (2 c now k v c')
  then show ?case using response_load_effect(3) [of now k c "Hit v" c'] by (simp add: response_ops_def response_ok_def)
next
  case (3 now k c i c')
  then show ?case using response_load_effect(3) [of now k c "Join i" c'] by (simp add: response_ops_def)
next
  case (4 now k c i c')
  then show ?case using response_load_effect(3) [of now k c "Run i" c'] by (simp add: response_ops_def)
next
  case (5 c now i k r k' v)
  then show ?case using finish_load_effect [of c now i k r k' v] by (simp add: response_ops_def)
next
  case (12 c j)
  then show ?case by (auto simp: response_ops_def clear_def response_ok_def in_flight_map)
qed (auto simp: response_ops_def finish_load_frame invalidate_effects [unfolded response_ok_def] clear_def response_ok_def response_contents_def fun_eq_iff intro: in_flight)

interpretation counted: load_cache value_ops value_ok value_contents "\<lambda>c. map_get (va_inflight c)"
  "\<lambda>c j. j \<in> set (va_stale c)" va_started False
proof (unfold_locales, goal_cases)
  case (1 c now k a c')
  then show ?case using value_load_effect(1,2) [of now k c a c'] value_load_ok [of c now k a c']
    by (simp add: value_ops_def value_ok_def)
next
  case (2 c now k v c')
  then show ?case using value_load_effect(3) [of now k c "Hit v" c'] by (simp add: value_ops_def value_ok_def)
next
  case (3 now k c i c')
  then show ?case using value_load_effect(3) [of now k c "Join i" c'] by (simp add: value_ops_def)
next
  case (4 now k c i c')
  then show ?case using value_load_effect(3) [of now k c "Run i" c'] by (simp add: value_ops_def)
next
  case (5 c now i k r k' v)
  then show ?case using value_finish_effect [of c now i k r k' v] by (simp add: value_ops_def)
next
  case (12 c j)
  then show ?case by (auto simp: value_ops_def value_clear_def value_ok_def in_flight_map)
qed (auto simp: value_ops_def value_finish_frame value_invalidate_effects [unfolded value_ok_def] value_clear_def value_ok_def value_contents_def fun_eq_iff intro: in_flight)

section \<open>Bounds\<close>

text \<open>Any sequence of calls of a response cache, each with the clock it reads.\<close>

datatype cache_call =
    Get int string
  | Load int string
  | FinishLoad int nat string "cached_response option"
  | Invalidate string
  | Clear

fun run_call :: "cache_call \<Rightarrow> response_cache \<Rightarrow> response_cache" where
  "run_call (Get now key) c = snd (get now key c)"
| "run_call (Load now key) c = snd (load now key c)"
| "run_call (FinishLoad now marker key result) c = finish_load now marker key result c"
| "run_call (Invalidate key) c = invalidate key c"
| "run_call Clear c = clear c"

definition bytes_of :: "(string, cache_entry) jsmap \<Rightarrow> int" where
  "bytes_of m = sum_list (map (\<lambda>e. ce_bytes (snd e)) m)"

lemma bytes_of_simps [simp]: "bytes_of [] = 0" "bytes_of (e # m) = ce_bytes (snd e) + bytes_of m"
  "bytes_of (m @ n) = bytes_of m + bytes_of n"
  by (simp_all add: bytes_of_def)

lemma bytes_of_delete: "map_ok m \<Longrightarrow> map_get m k = Some e \<Longrightarrow> bytes_of (map_delete k m) = bytes_of m - ce_bytes e"
proof (induction m)
  case (Cons x m)
  then show ?case
    by (cases "fst x = k") (auto simp: map_ok_def AList.delete_eq map_delete_absent [unfolded AList.delete_eq] map_of_eq_None_iff)
qed simp

lemma length_delete: "map_ok m \<Longrightarrow> map_get m k = Some e \<Longrightarrow> Suc (length (map_delete k m)) = length m"
proof (induction m)
  case (Cons x m)
  then show ?case
    by (cases "fst x = k") (auto simp: map_ok_def AList.delete_eq map_delete_absent [unfolded AList.delete_eq] map_of_eq_None_iff)
qed simp

definition sized :: "(string, cache_entry) jsmap \<Rightarrow> bool" where
  "sized m \<longleftrightarrow> (\<forall>e \<in> snd ` set m. ce_bytes e = bodyBytes (re_body (ce_response e)))"

lemma sized_delete: "sized m \<Longrightarrow> sized (map_delete k m)"
  by (auto simp: sized_def AList.delete_eq)

definition bounded :: "response_cache \<Rightarrow> bool" where
  "bounded c \<longleftrightarrow> map_ok (ca_entries c) \<and> sized (ca_entries c) \<and> ca_totalBytes c = bytes_of (ca_entries c) \<and>
     int (length (ca_entries c)) \<le> max 0 (ca_maxEntries c) \<and> ca_totalBytes c \<le> max 0 (ca_maxBytes c)"

lemma bodyBytes_nonneg [simp]: "0 \<le> bodyBytes b"
  by (simp add: bodyBytes_def split: body.splits)

lemma bytes_of_nonneg: "sized m \<Longrightarrow> 0 \<le> bytes_of m"
  by (induction m) (auto simp: sized_def)

lemma evict_room:
  "evict maxEntries maxBytes bytes entries (bytes_of entries) evictions = (kept, tally, evictions') \<Longrightarrow> 0 < maxEntries \<Longrightarrow>
   bytes \<le> maxBytes \<Longrightarrow>
   tally = bytes_of kept \<and> int (length kept) < maxEntries \<and> tally + bytes \<le> maxBytes"
proof (induction maxEntries maxBytes bytes entries "bytes_of entries" evictions rule: evict.induct)
  case (2 maxEntries maxBytes bytes key entry entries evictions)
  show ?case
  proof (cases "maxEntries \<le> int (length ((key, entry) # entries)) \<or> bytes_of ((key, entry) # entries) + bytes > maxBytes")
    case True
    then show ?thesis using "2.prems" "2.hyps" [OF True] by simp
  next
    case False
    then show ?thesis using "2.prems" by auto
  qed
qed auto

lemma bounded_get: "bounded c \<Longrightarrow> bounded (snd (get now key c))"
proof -
  assume c: "bounded c"
  show ?thesis
  proof (cases "map_get (ca_entries c) key")
    case None
    then show ?thesis using c by (simp add: get_def)
  next
    case (Some e)
    note del = bytes_of_delete [of "ca_entries c" key e] length_delete [of "ca_entries c" key e] Some
    have size: "ce_bytes e = bodyBytes (re_body (ce_response e))"
      using c Some by (auto simp: bounded_def sized_def dest!: map_of_SomeD)
    have moved: "map_set key e (map_delete key (ca_entries c)) = map_delete key (ca_entries c) @ [(key, e)]"
      by (rule map_set_absent) simp
    have nonneg: "0 \<le> ce_bytes e" by (simp add: size)
    show ?thesis
    proof (cases "ce_expiresAt e \<le> now")
      case True
      then show ?thesis using c del nonneg sized_delete [of "ca_entries c" key] by (auto simp: bounded_def get_def)
    next
      case False
      then have "snd (get now key c) = c\<lparr>ca_entries := map_delete key (ca_entries c) @ [(key, e)]\<rparr>"
        using Some moved by (simp add: get_def)
      moreover have "map_ok (map_delete key (ca_entries c) @ [(key, e)])"
        using c map_ok_set [of "map_delete key (ca_entries c)" key e] moved by (simp add: bounded_def)
      moreover have "sized (map_delete key (ca_entries c) @ [(key, e)])"
        using c size sized_delete [of "ca_entries c" key] by (auto simp: bounded_def sized_def)
      ultimately show ?thesis using c del by (auto simp: bounded_def)
    qed
  qed
qed

lemma bounded_set:
  assumes "bounded c"
  shows "bounded (set_entry now key r c)"
proof (cases "enabled c \<and> bodyBytes (re_body r) \<le> ca_maxBytes c")
  case False
  then show ?thesis using assms by (auto simp: set_entry_def Let_def)
next
  case True
  let ?bytes = "bodyBytes (re_body r)" and ?m = "map_delete key (ca_entries c)"
  have start: "(case map_get (ca_entries c) key of None \<Rightarrow> (ca_entries c, ca_totalBytes c)
     | Some existing \<Rightarrow> (map_delete key (ca_entries c), ca_totalBytes c - ce_bytes existing)) = (?m, bytes_of ?m)"
    using assms bytes_of_delete [of "ca_entries c" key]
    by (auto simp: bounded_def map_delete_absent split: option.splits)
  obtain kept tally evictions where ev: "evict (ca_maxEntries c) (ca_maxBytes c) ?bytes ?m (bytes_of ?m) (co_evictions (ca_counts c)) = (kept, tally, evictions)"
    by (metis prod_cases3)
  have room: "tally = bytes_of kept" "int (length kept) < ca_maxEntries c" "tally + ?bytes \<le> ca_maxBytes c"
    using evict_room [OF ev] True by (simp_all add: enabled_def)
  obtain n where kept: "kept = drop n ?m"
    using evict_drop [of "ca_maxEntries c" "ca_maxBytes c" ?bytes ?m "bytes_of ?m" "co_evictions (ca_counts c)"] ev by auto
  have ok: "map_ok ?m" "sized ?m" using assms by (simp_all add: bounded_def sized_delete)
  then have "map_ok kept" "sized kept" unfolding kept
    by (auto simp: map_of_drop(1) sized_def dest!: in_set_dropD)
  moreover have "map_get kept key = None"
    using map_of_drop(2) [OF ok(1), of n key] by (cases "map_get kept key") (auto simp: kept)
  moreover from this have "map_set key e kept = kept @ [(key, e)]" for e by (rule map_set_absent)
  moreover from this have "map_ok (kept @ [(key, e)])" for e using map_ok_set [OF \<open>map_ok kept\<close>, of key e] by simp
  ultimately show ?thesis
    using room True ev start by (auto simp: set_entry_def Let_def bounded_def sized_def enabled_def)
qed

lemma bounded_frame [simp]:
  "bounded (c\<lparr>ca_counts := x\<rparr>) = bounded c" "bounded (c\<lparr>ca_inflight := y\<rparr>) = bounded c"
  "bounded (c\<lparr>ca_stale := z\<rparr>) = bounded c" "bounded (c\<lparr>ca_started := n\<rparr>) = bounded c"
  by (simp_all add: bounded_def)

lemma bounded_call: "bounded c \<Longrightarrow> bounded (run_call call c)"
proof (cases call)
  case (Get now key)
  then show "bounded c \<Longrightarrow> ?thesis" by (simp add: bounded_get)
next
  case (Load now key)
  then show "bounded c \<Longrightarrow> ?thesis"
    using bounded_get [of c now key] by (auto simp: load_def Let_def split: prod.splits option.splits)
next
  case (FinishLoad now marker key result)
  then show "bounded c \<Longrightarrow> ?thesis" by (auto simp: finish_load_def Let_def bounded_set split: option.splits)
next
  case (Invalidate key)
  show "bounded c \<Longrightarrow> ?thesis"
  proof (cases "map_get (ca_entries c) key")
    case (Some e)
    assume c: "bounded c"
    have "ce_bytes e = bodyBytes (re_body (ce_response e))"
      using c Some by (auto simp: bounded_def sized_def dest!: map_of_SomeD)
    then have "ce_bytes e = bodyBytes (re_body (ce_response e))" "0 \<le> ce_bytes e" by simp_all
    then show ?thesis
      using c Some Invalidate bytes_of_delete [of "ca_entries c" key e] length_delete [of "ca_entries c" key e]
        sized_delete [of "ca_entries c" key]
      by (auto simp: invalidate_def Let_def bounded_def simp del: bodyBytes_nonneg split: option.splits)
  qed (auto simp: Invalidate invalidate_def Let_def split: option.splits)
qed (simp add: clear_def bounded_def sized_def)

section \<open>Properties\<close>

lemma bounded_run: "bounded (fold run_call calls (new_response_cache maxEntries maxBytes ttlMs))"
proof -
  have "bounded c \<Longrightarrow> bounded (fold run_call calls c)" for c
    by (induction calls arbitrary: c) (simp_all add: bounded_call)
  moreover have "bounded (new_response_cache maxEntries maxBytes ttlMs)" by (simp add: new_response_cache_def bounded_def sized_def)
  ultimately show ?thesis by blast
qed

lemma run_call_limits:
  "ca_maxEntries (run_call call c) = ca_maxEntries c" "ca_maxBytes (run_call call c) = ca_maxBytes c"
  by (cases call; auto simp: get_def load_def finish_load_def set_entry_def invalidate_def clear_def Let_def
        split: option.splits prod.splits)+

text \<open>
  C39. The response cache keeps its budget: after any sequence of calls, whatever their keys, bodies,
  clocks and order, its keys are distinct, it holds at most the configured entries, and its running
  total is the size of the bodies it holds, at most the configured bytes.
\<close>

theorem response_cache_bounded:
  "(let c = fold run_call calls (new_response_cache maxEntries maxBytes ttlMs) in
    distinct (map fst (ca_entries c)) \<and>
    int (length (ca_entries c)) \<le> max 0 (or_default maxEntries DEFAULT_RESPONSE_CACHE_MAX_ENTRIES) \<and>
    ca_totalBytes c = sum_list (map (\<lambda>(k, e). bodyBytes (re_body (ce_response e))) (ca_entries c)) \<and>
    ca_totalBytes c \<le> max 0 (or_default maxBytes DEFAULT_RESPONSE_CACHE_MAX_BYTES))"
proof -
  let ?new = "new_response_cache maxEntries maxBytes ttlMs"
  let ?c = "fold run_call calls ?new"
  have "ca_maxEntries (fold run_call calls c) = ca_maxEntries c \<and> ca_maxBytes (fold run_call calls c) = ca_maxBytes c" for c
    by (induction calls arbitrary: c) (simp_all add: run_call_limits)
  then have "ca_maxEntries ?c = ca_maxEntries ?new" "ca_maxBytes ?c = ca_maxBytes ?new" by blast+
  moreover have "ca_maxEntries ?new = or_default maxEntries DEFAULT_RESPONSE_CACHE_MAX_ENTRIES"
    "ca_maxBytes ?new = or_default maxBytes DEFAULT_RESPONSE_CACHE_MAX_BYTES" by (simp_all add: new_response_cache_def)
  ultimately have limits: "ca_maxEntries ?c = or_default maxEntries DEFAULT_RESPONSE_CACHE_MAX_ENTRIES"
    "ca_maxBytes ?c = or_default maxBytes DEFAULT_RESPONSE_CACHE_MAX_BYTES" by (simp_all only:)
  have b: "bounded ?c" by (rule bounded_run)
  have "map (\<lambda>e. ce_bytes (snd e)) (ca_entries ?c) = map (\<lambda>(k, e). bodyBytes (re_body (ce_response e))) (ca_entries ?c)"
    using b by (auto simp: bounded_def sized_def intro!: map_cong)
  from arg_cong [OF this, of sum_list] show ?thesis
    using b unfolding Let_def limits [symmetric] bounded_def map_ok_def bytes_of_def by simp
qed

text \<open>
  C38. No response older than its request: in every run in which commits change what loaders would
  compute and invalidations announce them, with requests, reads and failures in any order, a cached
  entry of a key with no unannounced commit is what a loader would compute now, and a request that
  began when its key had none, whether it hit, joined a load or started one, is answered with what a
  loader would have computed at some moment since it began.
\<close>

theorem responses_are_fresh:
  assumes "serves response_ops (new_response_cache maxEntries maxBytes ttlMs) s"
  shows "(\<forall>now key r c. key \<notin> sy_pending s \<and> get now key (sy_cache s) = (Some r, c) \<longrightarrow> r = sy_db s (sy_time s) key) \<and>
    (\<forall>key since r. (key, since, r) \<in> sy_answers s \<longrightarrow> (\<exists>t. since \<le> t \<and> t \<le> sy_time s \<and> r = sy_db s t key))"
proof -
  let ?new = "new_response_cache maxEntries maxBytes ttlMs"
  have start: "response_ok ?new" "response_contents ?new = Map.empty" "map_get (ca_inflight ?new) = Map.empty"
    "\<And>j. j \<notin> set (ca_stale ?new)"
    by (simp_all add: new_response_cache_def response_ok_def response_contents_def fun_eq_iff)
  have entry: "response_contents (sy_cache s) key = Some r" if "get now key (sy_cache s) = (Some r, c)" for now key r c
    using that by (auto simp: get_def response_contents_def split: option.splits if_splits)
  show ?thesis
    using response.served_entry [OF assms start] response.served_answer [OF assms start] entry by blast
qed

definition sample_body :: "string \<Rightarrow> cached_response" where
  "sample_body t = \<lparr>re_status = 200, re_body = Text t, re_headers = None\<rparr>"

theorem responses_are_fresh_witness:
  "\<exists>s. serves response_ops (new_response_cache None None None) s \<and>
     (''k'', 0, sample_body ''[]'') \<in> sy_answers s \<and> (\<exists>t. t \<le> sy_time s \<and> sample_body ''[]'' = sy_db s t ''k'')"
proof -
  let ?new = "new_response_cache None None None"
  let ?start = "start_system (\<lambda>k. sample_body ''[]'') ?new"
  obtain c where c: "op_load response_ops 0 ''k'' (sy_cache ?start) = (Run 0, c)"
    by (simp add: response_ops_def load_def get_def start_system_def new_response_cache_def)
  let ?s1 = "begin_read ?start ''k'' 0 c"
  have s1: "serves response_ops ?new ?s1" by (rule serves.Begin [OF serves.Start c])
  have "0 \<in> sy_open ?s1" "sy_read ?s1 0 = None" by (simp_all add: begin_read_def)
  from serves.Read [OF s1 this] obtain s2 where s2: "serves response_ops ?new s2" "0 \<in> sy_open s2"
    "sy_read s2 0 = Some (sample_body ''[]'')" "(0, ''k'', 0) \<in> sy_waiting s2"
    by (force simp: begin_read_def start_system_def followed_def)
  from serves.Finish [OF s2(1-3)] obtain s3 where s3: "serves response_ops ?new s3" "(''k'', 0, sample_body ''[]'') \<in> sy_answers s3"
    using s2(4) by (force simp: settle_def)
  then show ?thesis using responses_are_fresh [OF s3(1)] by blast
qed

text \<open>The value cache joins a load that an invalidation already marked, so its answers can be older than the request.\<close>

lemma value_cache_joins_stale_load:
  "\<exists>s :: (nat value_cache, nat) system. serves value_ops (new_value_cache None None) s \<and> (''k'', 1, 0) \<in> sy_answers s \<and>
     \<not> (\<exists>t. 1 \<le> t \<and> t \<le> sy_time s \<and> 0 = sy_db s t ''k'')"
proof -
  let ?new = "new_value_cache None None :: nat value_cache"
  let ?start = "start_system (\<lambda>k. 0) ?new"
  define c where "c = snd (op_load value_ops 0 ''k'' (sy_cache ?start))"
  have c: "op_load value_ops 0 ''k'' (sy_cache ?start) = (Run 0, c)" and c_def: "map_get (va_inflight c) ''k'' = Some 0" "va_entries c = []"
    by (simp_all add: c_def value_ops_def value_load_def value_get_def start_system_def new_value_cache_def)
  have s1: "serves value_ops ?new (begin_read ?start ''k'' 0 c)" by (rule serves.Begin [OF serves.Start c])
  then obtain s1 where s1: "serves value_ops ?new s1" "s1 = begin_read ?start ''k'' 0 c" by blast
  have "0 \<in> sy_open s1" "sy_read s1 0 = None" by (simp_all add: s1(2) begin_read_def)
  from serves.Read [OF s1(1) this] obtain s2 where s2: "serves value_ops ?new s2" "s2 = s1\<lparr>sy_read := (sy_read s1)(0 := Some 0)\<rparr>"
    by (simp add: s1(2) begin_read_def start_system_def)
  have "\<forall>k. k \<notin> {''k''} \<longrightarrow> ((\<lambda>k. 0)(''k'' := 1)) k = sy_db s2 (sy_time s2) k"
    by (simp add: s2(2) s1(2) begin_read_def start_system_def)
  from serves.Commit [OF s2(1) this] obtain s3 where s3: "serves value_ops ?new s3"
    "s3 = s2\<lparr>sy_time := Suc (sy_time s2), sy_db := (sy_db s2)(Suc (sy_time s2) := (\<lambda>k. 0)(''k'' := 1)), sy_pending := sy_pending s2 \<union> {''k''}\<rparr>"
    by blast
  from serves.Announce [OF s3(1), of "''k''"] obtain s4 where s4: "serves value_ops ?new s4"
    "s4 = s3\<lparr>sy_cache := value_invalidate ''k'' (sy_cache s3), sy_pending := sy_pending s3 - {''k''}\<rparr>"
    by (simp add: value_ops_def)
  have cache: "sy_cache s3 = c" by (simp add: s3(2) s2(2) s1(2) begin_read_def)
  have "va_entries (value_invalidate ''k'' c) = []" using c_def by (simp add: value_invalidate_def)
  then obtain c' where c': "op_load value_ops 0 ''k'' (sy_cache s4) = (Join 0, c')"
    using c_def(1) by (simp add: s4(2) cache value_ops_def value_load_def value_get_def value_invalidate_effects)
  from serves.Wait [OF s4(1) c'] obtain s5 where s5: "serves value_ops ?new s5"
    "s5 = s4\<lparr>sy_cache := c', sy_waiting := sy_waiting s4 \<union> {(0, ''k'', 1)}\<rparr>"
    by (simp add: s4(2) s3(2) s2(2) s1(2) begin_read_def start_system_def followed_def)
  have five: "0 \<in> sy_open s5" "sy_read s5 0 = Some 0" "sy_time s5 = 1" "sy_db s5 1 ''k'' = 1"
    by (simp_all add: s5(2) s4(2) s3(2) s2(2) s1(2) begin_read_def start_system_def)
  define s6 where "s6 = settle s5 0 (Some 0) (op_finish value_ops 0 0 (sy_key s5 0) (Some 0) (sy_cache s5))"
  have s6: "serves value_ops ?new s6" "(''k'', 1, 0) \<in> sy_answers s6" "sy_time s6 = sy_time s5" "sy_db s6 = sy_db s5"
    using serves.Finish [OF s5(1) five(1,2), of 0] by (simp_all add: s6_def settle_def) (simp_all add: s5(2))
  have "\<not> (\<exists>t. 1 \<le> t \<and> t \<le> sy_time s6 \<and> 0 = sy_db s6 t ''k'')"
    using five(3,4) s6(3,4) by (metis le_antisym zero_neq_one)
  then show ?thesis using s6(1,2) by blast
qed

text \<open>What it keeps is current all the same.\<close>

lemma values_are_fresh:
  assumes "serves value_ops (new_value_cache maxEntries ttlMs) s" "key \<notin> sy_pending s"
    "value_get now key (sy_cache s) = (Some v, c)"
  shows "v = sy_db s (sy_time s) key"
proof -
  let ?new = "new_value_cache maxEntries ttlMs"
  have start: "value_ok ?new" "value_contents ?new = Map.empty" "map_get (va_inflight ?new) = Map.empty"
    "\<And>j. j \<notin> set (va_stale ?new)"
    by (simp_all add: new_value_cache_def value_ok_def value_contents_def fun_eq_iff)
  have "value_contents (sy_cache s) key = Some v"
    using assms(3) by (auto simp: value_get_def value_contents_def split: option.splits if_splits)
  then show ?thesis using counted.served_entry [OF assms(1) start assms(2)] by blast
qed

end
