(* ===== verification/KeyRing.thy ===== *)
theory KeyRing
  imports EntityValues
begin

text \<open>
  The rotating pool of API keys (src/src/rpcKeyRing.ts): the list syntax of the environment, the ring's
  round robin over the keys that are neither retired nor resting, what responses do to a key, and the
  sticky leases. A ring is a value; \<open>now\<close> is what its clock answers. What \<open>Number\<close> makes of the quota header
  is a parameter, as the numbers of a percentage are never computed with.
\<close>

section \<open>Key lists\<close>

text \<open>The length in bytes of the separator \<open>[\s,]\<close> at the head of a text, 0 for none.\<close>

fun separator_length :: "string \<Rightarrow> nat" where
  "separator_length [] = 0"
| "separator_length (a # s) =
     (if is_ws1 a \<or> a = CHR '','' then 1
      else case s of
        [] \<Rightarrow> 0
      | b # t \<Rightarrow> if is_ws2 a b then 2
               else case t of [] \<Rightarrow> 0 | c # _ \<Rightarrow> if is_ws3 a b c then 3 else 0)"

text \<open>\<open>value.split(/[\s,]+/)\<close>: \<open>piece\<close> is what was read since the last run of separators.\<close>

function split_keys :: "string \<Rightarrow> bool \<Rightarrow> string \<Rightarrow> string list" where
  "split_keys piece inside [] = [piece]"
| "split_keys piece inside (a # s) =
     (if separator_length (a # s) = 0 then split_keys (piece @ [a]) False s
      else if inside then split_keys piece True (drop (separator_length (a # s)) (a # s))
      else piece # split_keys [] True (drop (separator_length (a # s)) (a # s)))"
  by pat_completeness auto
termination
  by (relation "measure (\<lambda>(piece, inside, s). length s)") auto

definition add_key :: "string \<Rightarrow> string list \<Rightarrow> string list" where
  "add_key key seen = (if key = [] \<or> key \<in> set seen then seen else seen @ [key])"

definition parseRpcKeyList :: "string option \<Rightarrow> string list" where
  "parseRpcKeyList text =
     (case text of
        None \<Rightarrow> []
      | Some s \<Rightarrow> if s = [] then [] else fold (\<lambda>raw. add_key (js_trim raw)) (split_keys [] False s) [])"

text \<open>The parsed pool file: a list of texts, or an object whose \<open>keys\<close> are texts or objects with a \<open>key\<close>.\<close>

fun field_of :: "jsval \<Rightarrow> string \<Rightarrow> jsval" where
  "field_of (JObj fs) k = (case map_of fs k of Some v \<Rightarrow> v | None \<Rightarrow> JUndef)"
| "field_of _ k = JUndef"

fun text_of :: "jsval \<Rightarrow> string" where
  "text_of (JStr s) = s"
| "text_of _ = []"

fun pool_entry :: "jsval \<Rightarrow> string" where
  "pool_entry (JStr s) = s"
| "pool_entry (JObj fs) = text_of (field_of (JObj fs) ''key'')"
| "pool_entry _ = []"

fun parseRpcKeyPoolFile :: "jsval \<Rightarrow> string list" where
  "parseRpcKeyPoolFile (JArr xs) = filter (\<lambda>k. k \<noteq> []) (map text_of xs)"
| "parseRpcKeyPoolFile (JObj fs) =
     (case field_of (JObj fs) ''keys'' of
        JArr xs \<Rightarrow> fold (\<lambda>x. add_key (pool_entry x)) xs []
      | _ \<Rightarrow> [])"
| "parseRpcKeyPoolFile _ = []"

text \<open>
  The variables of the environment; \<open>read path\<close> is the parsed content of a file, or the error of reading or
  parsing it.
\<close>

record pool_env =
  pe_poolFile :: "string option"   \<comment> \<open>\<open>RPC_KEY_POOL_FILE\<close>\<close>
  pe_apiKeys :: "string option"    \<comment> \<open>\<open>SCANNER_RPC_API_KEYS\<close>\<close>
  pe_apiKey :: "string option"     \<comment> \<open>\<open>SCANNER_RPC_API_KEY\<close>\<close>

definition loadRpcKeyPool :: "pool_env \<Rightarrow> (string \<Rightarrow> string + jsval) \<Rightarrow> string + string list" where
  "loadRpcKeyPool env read =
     (let poolFile = (case pe_poolFile env of Some p \<Rightarrow> js_trim p | None \<Rightarrow> []) in
      if poolFile \<noteq> [] then bind_result (read poolFile) (\<lambda>v. Inr (parseRpcKeyPoolFile v))
      else
        let inline = parseRpcKeyList (pe_apiKeys env) in
        if inline \<noteq> [] then Inr inline else Inr (parseRpcKeyList (pe_apiKey env)))"

section \<open>The ring\<close>

record 'n key_state =
  ks_key :: string
  ks_exhaustedAtMs :: "int option"
  ks_cooldownUntilMs :: int
  ks_uses :: nat
  ks_quotaUsedPercent :: "'n option"

record 'n key_ring =
  kr_states :: "'n key_state list"
  kr_leases :: "(string, string) jsmap"
  kr_cursor :: nat
  kr_cooldownMs :: int

definition DEFAULT_RPC_KEY_COOLDOWN_MS :: int where
  "DEFAULT_RPC_KEY_COOLDOWN_MS = 1000"

definition fresh_key :: "string \<Rightarrow> 'n key_state" where
  "fresh_key key = \<lparr>ks_key = key, ks_exhaustedAtMs = None, ks_cooldownUntilMs = 0, ks_uses = 0, ks_quotaUsedPercent = None\<rparr>"

definition new_ring :: "string list \<Rightarrow> int option \<Rightarrow> 'n key_ring" where
  "new_ring keys cooldownMs =
     \<lparr>kr_states = map fresh_key (fold add_key keys []), kr_leases = [], kr_cursor = 0,
      kr_cooldownMs = (case cooldownMs of Some ms \<Rightarrow> ms | None \<Rightarrow> DEFAULT_RPC_KEY_COOLDOWN_MS)\<rparr>"

definition ring_size :: "'n key_ring \<Rightarrow> nat" where
  "ring_size r = length (kr_states r)"

definition offered_at :: "int \<Rightarrow> 'n key_state \<Rightarrow> bool" where
  "offered_at now k \<longleftrightarrow> ks_exhaustedAtMs k = None \<and> \<not> ks_cooldownUntilMs k > now"

definition use_key :: "nat \<Rightarrow> 'n key_ring \<Rightarrow> 'n key_ring" where
  "use_key i r = r\<lparr>kr_states := (kr_states r)[i := (kr_states r ! i)\<lparr>ks_uses := ks_uses (kr_states r ! i) + 1\<rparr>]\<rparr>"

text \<open>The loop over the offsets; the index found stays below the length, as it is taken modulo it.\<close>

definition next_key :: "int \<Rightarrow> 'n key_ring \<Rightarrow> string option \<times> 'n key_ring" where
  "next_key now r =
     (let n = length (kr_states r) in
      if n = 0 then (None, r)
      else
        case find (\<lambda>offset. offered_at now (kr_states r ! ((kr_cursor r + offset) mod n))) [0..<n] of
          Some offset \<Rightarrow>
            let i = (kr_cursor r + offset) mod n in
            (Some (ks_key (kr_states r ! i)), use_key i (r\<lparr>kr_cursor := (kr_cursor r + offset + 1) mod n\<rparr>))
        | None \<Rightarrow>
            let i = kr_cursor r mod n in
            (Some (ks_key (kr_states r ! i)), use_key i (r\<lparr>kr_cursor := (kr_cursor r + 1) mod n\<rparr>)))"

text \<open>\<open>find\<close> by key, and a write through the object found.\<close>

fun update_key :: "string \<Rightarrow> ('n key_state \<Rightarrow> 'n key_state) \<Rightarrow> 'n key_state list \<Rightarrow> 'n key_state list" where
  "update_key key f [] = []"
| "update_key key f (k # ks) = (if ks_key k = key then f k # ks else k # update_key key f ks)"

definition retire_at :: "int \<Rightarrow> 'n key_state \<Rightarrow> 'n key_state" where
  "retire_at now k = (if ks_exhaustedAtMs k = None then k\<lparr>ks_exhaustedAtMs := Some now\<rparr> else k)"

text \<open>\<open>number header\<close> is \<open>Number(header)\<close> when that is finite.\<close>

definition note_key :: "(string option \<Rightarrow> 'n option) \<Rightarrow> int \<Rightarrow> int \<Rightarrow> int \<Rightarrow> string option \<Rightarrow> string \<Rightarrow> 'n key_state \<Rightarrow> 'n key_state" where
  "note_key number now cooldownMs status header bodyText k =
     (let k = (case number header of Some p \<Rightarrow> k\<lparr>ks_quotaUsedPercent := Some p\<rparr> | None \<Rightarrow> k) in
      if status = 401 \<or> status = 403 then retire_at now k
      else if status = 429 then
        (if includes_text ''QUOTA_EXCEEDED'' bodyText then retire_at now k
         else k\<lparr>ks_cooldownUntilMs := now + cooldownMs\<rparr>)
      else k)"

definition noteResponse ::
  "(string option \<Rightarrow> 'n option) \<Rightarrow> int \<Rightarrow> string \<Rightarrow> int \<Rightarrow> string option \<Rightarrow> string \<Rightarrow> 'n key_ring \<Rightarrow> 'n key_ring" where
  "noteResponse number now key status header bodyText r =
     r\<lparr>kr_states := update_key key (note_key number now (kr_cooldownMs r) status header bodyText) (kr_states r)\<rparr>"

definition retire :: "int \<Rightarrow> string \<Rightarrow> 'n key_ring \<Rightarrow> 'n key_ring" where
  "retire now key r = r\<lparr>kr_states := update_key key (retire_at now) (kr_states r)\<rparr>"

definition lease_holds :: "string \<Rightarrow> 'n key_ring \<Rightarrow> string option" where
  "lease_holds ownerId r =
     (case map_get (kr_leases r) ownerId of
        None \<Rightarrow> None
      | Some current \<Rightarrow>
          (case find (\<lambda>k. ks_key k = current) (kr_states r) of
             Some k \<Rightarrow> if ks_exhaustedAtMs k = None then Some current else None
           | None \<Rightarrow> None))"

definition leaseFor :: "int \<Rightarrow> string \<Rightarrow> 'n key_ring \<Rightarrow> string option \<times> 'n key_ring" where
  "leaseFor now ownerId r =
     (case lease_holds ownerId r of
        Some current \<Rightarrow> (Some current, r)
      | None \<Rightarrow>
          (case next_key now r of
             (None, r') \<Rightarrow> (None, r'\<lparr>kr_leases := map_delete ownerId (kr_leases r')\<rparr>)
           | (Some key, r') \<Rightarrow> (Some key, r'\<lparr>kr_leases := map_set ownerId key (kr_leases r')\<rparr>)))"

definition usableCount :: "'n key_ring \<Rightarrow> nat" where
  "usableCount r = length (filter (\<lambda>k. ks_exhaustedAtMs k = None) (kr_states r))"

definition attachRpcKeyRing :: "pool_env \<Rightarrow> (string \<Rightarrow> string + jsval) \<Rightarrow> string + 'n key_ring option" where
  "attachRpcKeyRing env read =
     bind_result (loadRpcKeyPool env read) (\<lambda>keys. Inr (if keys = [] then None else Some (new_ring keys None)))"

text \<open>Keys are ASCII; the ellipsis is one character.\<close>

definition maskRpcKey :: "string \<Rightarrow> string" where
  "maskRpcKey key =
     (if length key \<le> 12 then take 4 key @ [CHR 0xE2, CHR 0x80, CHR 0xA6]
      else take 12 key @ [CHR 0xE2, CHR 0x80, CHR 0xA6] @ drop (length key - 4) key)"

record 'n ring_key_stats =
  rk_key :: string
  rk_uses :: nat
  rk_quotaUsedPercent :: "'n option"
  rk_exhausted :: bool
  rk_coolingDown :: bool

record 'n ring_stats =
  rg_total :: nat
  rg_usable :: nat
  rg_exhausted :: nat
  rg_coolingDown :: nat
  rg_keys :: "'n ring_key_stats list"

definition cooling_down :: "int \<Rightarrow> 'n key_state \<Rightarrow> bool" where
  "cooling_down now k \<longleftrightarrow> ks_exhaustedAtMs k = None \<and> ks_cooldownUntilMs k > now"

definition ring_stats :: "int \<Rightarrow> 'n key_ring \<Rightarrow> 'n ring_stats" where
  "ring_stats now r =
     \<lparr>rg_total = length (kr_states r), rg_usable = usableCount r,
      rg_exhausted = length (filter (\<lambda>k. ks_exhaustedAtMs k \<noteq> None) (kr_states r)),
      rg_coolingDown = length (filter (cooling_down now) (kr_states r)),
      rg_keys = map (\<lambda>k. \<lparr>rk_key = maskRpcKey (ks_key k), rk_uses = ks_uses k,
        rk_quotaUsedPercent = ks_quotaUsedPercent k, rk_exhausted = ks_exhaustedAtMs k \<noteq> None,
        rk_coolingDown = cooling_down now k\<rparr>) (kr_states r)\<rparr>"

end
