(* ===== verification/KeyRingFacts.thy ===== *)
theory KeyRingFacts
  imports KeyRing
begin

text \<open>
  The ring is fair: a key that stays usable is offered once in every round, whatever happens to the
  others, and a resting or retired key is offered only when there is no other.
\<close>

section \<open>Events\<close>

datatype ring_event =
    Next int
  | Lease int string
  | Note int string int "string option" string
  | Retire int string

text \<open>The keys the rotation hands out, and the ring after.\<close>

definition run_event :: "(string option \<Rightarrow> 'n option) \<Rightarrow> ring_event \<Rightarrow> 'n key_ring \<Rightarrow> string list \<times> 'n key_ring" where
  "run_event number e r =
     (case e of
        Next now \<Rightarrow> (case next_key now r of (k, r') \<Rightarrow> (case k of Some k \<Rightarrow> [k] | None \<Rightarrow> [], r'))
      | Lease now ownerId \<Rightarrow>
          (case leaseFor now ownerId r of
             (k, r') \<Rightarrow> (if lease_holds ownerId r = None then (case k of Some k \<Rightarrow> [k] | None \<Rightarrow> []) else [], r'))
      | Note now key status header bodyText \<Rightarrow> ([], noteResponse number now key status header bodyText r)
      | Retire now key \<Rightarrow> ([], retire now key r))"

fun offers :: "(string option \<Rightarrow> 'n option) \<Rightarrow> ring_event list \<Rightarrow> 'n key_ring \<Rightarrow> string list" where
  "offers number [] r = []"
| "offers number (e # es) r = fst (run_event number e r) @ offers number es (snd (run_event number e r))"

definition leaves_alone :: "string \<Rightarrow> ring_event \<Rightarrow> bool" where
  "leaves_alone key e \<longleftrightarrow> (case e of Note now k st h b \<Rightarrow> k \<noteq> key | Retire now k \<Rightarrow> k \<noteq> key | _ \<Rightarrow> True)"

definition rested :: "int \<Rightarrow> ring_event \<Rightarrow> bool" where
  "rested cooldownUntil e \<longleftrightarrow> (case e of Next now \<Rightarrow> cooldownUntil \<le> now | Lease now owner \<Rightarrow> cooldownUntil \<le> now | _ \<Rightarrow> True)"

definition ring_ok :: "'n key_ring \<Rightarrow> bool" where
  "ring_ok r \<longleftrightarrow> distinct (map ks_key (kr_states r)) \<and> (kr_states r \<noteq> [] \<longrightarrow> kr_cursor r < length (kr_states r))"

definition usable_entry :: "string \<Rightarrow> int \<Rightarrow> nat \<Rightarrow> 'n key_ring \<Rightarrow> bool" where
  "usable_entry key cooldownUntil i r \<longleftrightarrow> i < length (kr_states r) \<and> ks_key (kr_states r ! i) = key \<and>
     ks_exhaustedAtMs (kr_states r ! i) = None \<and> ks_cooldownUntilMs (kr_states r ! i) = cooldownUntil"

section \<open>Updates\<close>

lemma update_key_map:
  assumes "\<And>k. ks_key (f k) = ks_key k"
  shows "map ks_key (update_key key f ks) = map ks_key ks" "length (update_key key f ks) = length ks"
    "i < length ks \<Longrightarrow> ks_key (ks ! i) \<noteq> key \<Longrightarrow> update_key key f ks ! i = ks ! i"
proof -
  show "map ks_key (update_key key f ks) = map ks_key ks" using assms by (induction ks) auto
  show "length (update_key key f ks) = length ks" by (induction ks) auto
  show "i < length ks \<Longrightarrow> ks_key (ks ! i) \<noteq> key \<Longrightarrow> update_key key f ks ! i = ks ! i"
    by (induction ks arbitrary: i) (auto simp: nth_Cons split: nat.splits)
qed

lemma keep_key [simp]:
  "ks_key (retire_at now k) = ks_key k" "ks_key (note_key number now ms status header bodyText k) = ks_key k"
  by (auto simp: retire_at_def note_key_def Let_def split: option.splits)

lemma use_key_frame:
  "length (kr_states (use_key i r)) = length (kr_states r)" "map ks_key (kr_states (use_key i r)) = map ks_key (kr_states r)"
  "kr_cursor (use_key i r) = kr_cursor r" "usable_entry key c j (use_key i r) = usable_entry key c j r"
proof -
  show "map ks_key (kr_states (use_key i r)) = map ks_key (kr_states r)"
    by (cases "i < length (kr_states r)") (simp_all add: use_key_def map_update list_update_same_conv list_update_beyond)
  show "usable_entry key c j (use_key i r) = usable_entry key c j r"
    by (cases "i = j") (auto simp: use_key_def usable_entry_def)
qed (simp_all add: use_key_def)

section \<open>The rotation\<close>

definition ring_distance :: "nat \<Rightarrow> nat \<Rightarrow> nat \<Rightarrow> nat" where
  "ring_distance c i n = (if c \<le> i then i - c else i + n - c)"

lemma ring_distance_reach: "c < n \<Longrightarrow> i < n \<Longrightarrow> (c + ring_distance c i n) mod n = i \<and> ring_distance c i n < n"
  by (auto simp: ring_distance_def)

lemma ring_distance_step:
  assumes "c < n" "i < n" "offset < ring_distance c i n"
  shows "ring_distance ((c + offset + 1) mod n) i n = ring_distance c i n - offset - 1"
proof (cases "c + offset + 1 < n")
  case True
  then show ?thesis using assms by (auto simp: ring_distance_def split: if_splits)
next
  case False
  then have "(c + offset + 1) mod n = c + offset + 1 - n" using assms by (simp add: ring_distance_def le_mod_geq split: if_splits)
  then show ?thesis using assms False by (auto simp: ring_distance_def split: if_splits)
qed

lemma find_first: "find P [0..<n] = Some x \<Longrightarrow> P x \<and> x < n \<and> (\<forall>y < x. \<not> P y)"
  by (auto simp: find_Some_iff)

lemma next_key_frame:
  assumes "ring_ok r" "next_key now r = (k, r')"
  shows "ring_ok r'" "kr_leases r' = kr_leases r" "length (kr_states r') = length (kr_states r)"
    "usable_entry key c i r' = usable_entry key c i r"
proof -
  have "r' = r \<or> (kr_states r \<noteq> [] \<and> (\<exists>i c. c < length (kr_states r) \<and> r' = use_key i (r\<lparr>kr_cursor := c\<rparr>)))"
  proof (cases "kr_states r = []")
    case True
    then show ?thesis using assms(2) by (simp add: next_key_def)
  next
    case False
    then have "\<exists>i x. r' = use_key i (r\<lparr>kr_cursor := x mod length (kr_states r)\<rparr>)"
      using assms(2) by (auto simp: next_key_def Let_def split: option.splits)
    then show ?thesis using False by (metis length_greater_0_conv mod_less_divisor)
  qed
  then show "ring_ok r'" "kr_leases r' = kr_leases r" "length (kr_states r') = length (kr_states r)"
    "usable_entry key c i r' = usable_entry key c i r"
    using assms(1) by (auto simp: ring_ok_def use_key_frame) (auto simp: use_key_def usable_entry_def)
qed

text \<open>One turn of the rotation either offers the key or comes nearer to it.\<close>

lemma next_key_turn:
  assumes "ring_ok r" "usable_entry key c i r" "c \<le> now" "next_key now r = (k, r')"
  shows "k = Some key \<or> (k \<noteq> None \<and> ring_distance (kr_cursor r') i (length (kr_states r)) < ring_distance (kr_cursor r) i (length (kr_states r)))"
proof -
  let ?n = "length (kr_states r)" and ?c = "kr_cursor r"
  have i: "i < ?n" "ks_key (kr_states r ! i) = key" "offered_at now (kr_states r ! i)"
    using assms(2,3) by (auto simp: usable_entry_def offered_at_def)
  have c: "?c < ?n" using assms(1) i(1) by (auto simp: ring_ok_def)
  let ?d = "ring_distance ?c i ?n"
  have d: "(?c + ?d) mod ?n = i" "?d < ?n" using ring_distance_reach [OF c i(1)] by simp_all
  define P where "P offset = offered_at now (kr_states r ! ((?c + offset) mod ?n))" for offset
  have "P ?d" using d i(3) by (simp add: P_def)
  then have "find P [0..<?n] \<noteq> None" using d(2) by (auto simp: find_None_iff)
  then obtain x where x: "find P [0..<?n] = Some x" by blast
  have le: "x \<le> ?d" using find_first [OF x] \<open>P ?d\<close> by (meson not_le)
  have run: "k = Some (ks_key (kr_states r ! ((?c + x) mod ?n)))" "kr_cursor r' = (?c + x + 1) mod ?n"
    using assms(4) x i(1) by (auto simp: next_key_def P_def [abs_def] use_key_frame Let_def split: if_splits)
  show ?thesis
  proof (cases "x = ?d")
    case True
    then show ?thesis using run(1) d(1) i(2) by simp
  next
    case False
    then have less: "x < ?d" using le by simp
    then show ?thesis using run ring_distance_step [OF c i(1) less] by simp
  qed
qed

section \<open>Any events\<close>

text \<open>An event rotates the ring, leaves it as it is, or writes through one key.\<close>

lemma run_event_cases:
  assumes "run_event number e r = (ks, r')"
  obtains (turn) now k r1 L where "next_key now r = (k, r1)" "r' = r1\<lparr>kr_leases := L\<rparr>"
      "ks = (case k of Some k \<Rightarrow> [k] | None \<Rightarrow> [])" "e = Next now \<or> (\<exists>owner. e = Lease now owner)"
    | (idle) "ks = []" "r' = r"
    | (note_key) key f where "ks = []" "r' = r\<lparr>kr_states := update_key key f (kr_states r)\<rparr>"
      "\<And>k. ks_key (f k) = ks_key k" "\<not> leaves_alone key e"
proof (cases e)
  case (Next now)
  obtain k r1 where n: "next_key now r = (k, r1)" by (cases "next_key now r")
  show ?thesis by (rule turn [OF n, of "kr_leases r1"]) (use assms Next n in \<open>simp_all add: run_event_def\<close>)
next
  case (Lease now owner)
  show ?thesis
  proof (cases "lease_holds owner r")
    case (Some current)
    show ?thesis by (rule idle) (use assms Lease Some in \<open>simp_all add: run_event_def leaseFor_def\<close>)
  next
    case None
    obtain k r1 where n: "next_key now r = (k, r1)" by (cases "next_key now r")
    show ?thesis
      by (rule turn [OF n, of "kr_leases r'"])
         (use assms Lease None n in \<open>auto simp: run_event_def leaseFor_def split: option.splits\<close>)
  qed
next
  case (Note now key status header bodyText)
  show ?thesis
    by (rule note_key [of key "note_key number now (kr_cooldownMs r) status header bodyText"])
       (use assms Note in \<open>simp_all add: run_event_def noteResponse_def leaves_alone_def\<close>)
next
  case (Retire now key)
  show ?thesis
    by (rule note_key [of key "retire_at now"]) (use assms Retire in \<open>simp_all add: run_event_def retire_def leaves_alone_def\<close>)
qed

lemma update_ring:
  assumes "ring_ok r" "\<And>k. ks_key (f k) = ks_key k"
  shows "ring_ok (r\<lparr>kr_states := update_key key f (kr_states r)\<rparr>)"
    "usable_entry k c i r \<Longrightarrow> k \<noteq> key \<Longrightarrow> usable_entry k c i (r\<lparr>kr_states := update_key key f (kr_states r)\<rparr>)"
proof -
  note u = update_key_map [of f, OF assms(2)]
  have "kr_states r \<noteq> []" if "update_key key f (kr_states r) \<noteq> []"
    using that u(2) [of key "kr_states r"] by (metis length_0_conv)
  then show "ring_ok (r\<lparr>kr_states := update_key key f (kr_states r)\<rparr>)" using assms(1) u(1,2) by (simp add: ring_ok_def)
  show "usable_entry k c i r \<Longrightarrow> k \<noteq> key \<Longrightarrow> usable_entry k c i (r\<lparr>kr_states := update_key key f (kr_states r)\<rparr>)"
    using u(2,3) by (auto simp: usable_entry_def)
qed

lemma leases_frame [simp]:
  "ring_ok (r\<lparr>kr_leases := L\<rparr>) = ring_ok r" "usable_entry key c i (r\<lparr>kr_leases := L\<rparr>) = usable_entry key c i r"
  by (simp_all add: ring_ok_def usable_entry_def)

text \<open>The key is offered before the distance to it is used up.\<close>

lemma offered_in_a_round:
  assumes "ring_ok r" "usable_entry key c i r" "\<forall>e \<in> set es. leaves_alone key e \<and> rested c e"
    "ring_distance (kr_cursor r) i (length (kr_states r)) < length (offers number es r)"
  shows "key \<in> set (offers number es r)"
  using assms
proof (induction es arbitrary: r)
  case Nil
  then show ?case by simp
next
  case (Cons e es)
  obtain ks r' where e: "run_event number e r = (ks, r')" by (cases "run_event number e r")
  have alone: "leaves_alone key e" "rested c e" and later: "\<forall>e \<in> set es. leaves_alone key e \<and> rested c e"
    using Cons.prems(3) by simp_all
  have offers: "offers number (e # es) r = ks @ offers number es r'" by (simp add: e)
  from e show ?case
  proof (cases rule: run_event_cases)
    case (turn now k r1 L)
    have now: "c \<le> now" using turn(4) alone(2) by (auto simp: rested_def)
    note frame = next_key_frame [OF Cons.prems(1) turn(1)]
    from next_key_turn [OF Cons.prems(1,2) now turn(1)] show ?thesis
    proof
      assume "k = Some key"
      then show ?thesis using turn(3) offers by simp
    next
      assume near: "k \<noteq> None \<and> ring_distance (kr_cursor r1) i (length (kr_states r)) < ring_distance (kr_cursor r) i (length (kr_states r))"
      have "length ks \<le> 1" using turn(3) by (simp split: option.splits)
      then have "ring_distance (kr_cursor r') i (length (kr_states r')) < length (offers number es r')"
        using Cons.prems(4) near turn(2) frame(3) unfolding offers by simp
      moreover have "ring_ok r'" "usable_entry key c i r'" using frame(1,4) Cons.prems(2) turn(2) by simp_all
      ultimately have "key \<in> set (offers number es r')" using Cons.IH later by blast
      then show ?thesis using offers by simp
    qed
  next
    case idle
    then show ?thesis using Cons.IH [OF Cons.prems(1,2) later] Cons.prems(4) unfolding offers by simp
  next
    case (note_key k f)
    have "k \<noteq> key" using note_key(4) alone(1) by blast
    then have "ring_ok r'" "usable_entry key c i r'" "length (kr_states r') = length (kr_states r)" "kr_cursor r' = kr_cursor r"
      using update_ring(1) [where key = k, OF Cons.prems(1) note_key(3)] Cons.prems(2) note_key(2) update_key_map(2) [of f, OF note_key(3)]
        update_ring(2) [where key = k and k = key and c = c and i = i, OF Cons.prems(1) note_key(3)]
      by simp_all
    then show ?thesis using Cons.IH [of r'] later Cons.prems(4) note_key(1) unfolding offers by simp
  qed
qed

section \<open>Property\<close>

lemma run_event_ok:
  assumes "ring_ok r"
  shows "ring_ok (snd (run_event number e r))"
proof -
  obtain ks r' where e: "run_event number e r = (ks, r')" by (cases "run_event number e r")
  then show ?thesis
  proof (cases rule: run_event_cases)
    case (turn now k r1 L)
    then show ?thesis using next_key_frame(1) [OF assms turn(1)] e by simp
  next
    case (note_key key f)
    then show ?thesis using update_ring(1) [where key = key, OF assms note_key(3)] e by simp
  qed (use assms e in simp)
qed

definition run_ring :: "(string option \<Rightarrow> 'n option) \<Rightarrow> ring_event list \<Rightarrow> 'n key_ring \<Rightarrow> 'n key_ring" where
  "run_ring number es r = fold (\<lambda>e r. snd (run_event number e r)) es r"

lemma add_key_distinct: "distinct ks \<Longrightarrow> distinct (fold add_key keys ks)"
  by (induction keys arbitrary: ks) (auto simp: add_key_def)

lemma run_ring_ok: "ring_ok (run_ring number es (new_ring keys cooldownMs))"
proof -
  have "ring_ok r \<Longrightarrow> ring_ok (fold (\<lambda>e r. snd (run_event number e r)) es r)" for r
    by (induction es arbitrary: r) (simp_all add: run_event_ok)
  moreover have "ring_ok (new_ring keys cooldownMs)"
    using add_key_distinct [of "[]" keys] by (simp add: ring_ok_def new_ring_def comp_def fresh_key_def)
  ultimately show ?thesis by (simp add: run_ring_def)
qed

text \<open>
  C40. The ring rotates fairly: in whatever state responses, retirements and leases have left it, a
  key that is neither retired nor resting is offered before as many keys are handed out as the ring
  holds, whatever happens meanwhile to the other keys; and as long as some key is neither retired nor
  resting, only such a key is offered.
\<close>

theorem key_ring_rotates:
  assumes "r = run_ring number before (new_ring keys cooldownMs)" and "k \<in> set (kr_states r)"
    and "ks_exhaustedAtMs k = None" and "\<forall>e \<in> set es. leaves_alone (ks_key k) e \<and> rested (ks_cooldownUntilMs k) e"
    and "length (kr_states r) \<le> length (offers number es r)"
  shows "ks_key k \<in> set (offers number es r) \<and>
    (\<forall>now key r'. next_key now r = (Some key, r') \<and> (\<exists>s \<in> set (kr_states r). offered_at now s) \<longrightarrow>
       (\<exists>s \<in> set (kr_states r). ks_key s = key \<and> offered_at now s))"
proof
  have ok: "ring_ok r" unfolding assms(1) by (rule run_ring_ok)
  obtain i where i: "i < length (kr_states r)" "kr_states r ! i = k" using assms(2) by (auto simp: in_set_conv_nth)
  have "kr_cursor r < length (kr_states r)" using ok i(1) by (auto simp: ring_ok_def)
  then have "ring_distance (kr_cursor r) i (length (kr_states r)) < length (offers number es r)"
    using ring_distance_reach [of "kr_cursor r" "length (kr_states r)" i] i(1) assms(5) by linarith
  moreover have "usable_entry (ks_key k) (ks_cooldownUntilMs k) i r" using i assms(3) by (simp add: usable_entry_def)
  ultimately show "ks_key k \<in> set (offers number es r)" using offered_in_a_round [OF ok] assms(4) by blast
  show "\<forall>now key r'. next_key now r = (Some key, r') \<and> (\<exists>s \<in> set (kr_states r). offered_at now s) \<longrightarrow>
       (\<exists>s \<in> set (kr_states r). ks_key s = key \<and> offered_at now s)"
  proof (intro allI impI, elim conjE bexE)
    fix now key r' s
    assume run: "next_key now r = (Some key, r')" and s: "s \<in> set (kr_states r)" "offered_at now s"
    let ?n = "length (kr_states r)" and ?P = "\<lambda>offset. offered_at now (kr_states r ! ((kr_cursor r + offset) mod length (kr_states r)))"
    obtain j where j: "j < ?n" "kr_states r ! j = s" using s(1) by (auto simp: in_set_conv_nth)
    have "kr_cursor r < ?n" using ok j(1) by (auto simp: ring_ok_def)
    from ring_distance_reach [OF this j(1)] have "\<exists>offset < ?n. ?P offset" using s(2) j(2) by auto
    then have "find ?P [0..<?n] \<noteq> None" by (auto simp: find_None_iff)
    then obtain x where x: "find ?P [0..<?n] = Some x" by blast
    have "key = ks_key (kr_states r ! ((kr_cursor r + x) mod ?n))"
      using run x j(1) by (auto simp: next_key_def Let_def split: if_splits)
    moreover have "0 < ?n" using j(1) by linarith
    then have "(kr_cursor r + x) mod ?n < ?n" by (rule mod_less_divisor)
    ultimately show "\<exists>s \<in> set (kr_states r). ks_key s = key \<and> offered_at now s"
      using find_first [OF x] by (metis nth_mem)
  qed
qed

theorem key_ring_rotates_witness:
  "''b'' \<in> set (offers (\<lambda>h. Some (0 :: nat)) [Next 5, Retire 5 ''a'', Next 6] (new_ring [''a'', ''b'', ''a''] None))"
proof -
  let ?r = "new_ring [''a'', ''b'', ''a''] None :: nat key_ring" and ?es = "[Next 5, Retire 5 ''a'', Next 6]"
  have states: "kr_states ?r = [fresh_key ''a'', fresh_key ''b'']" by (simp add: new_ring_def add_key_def)
  have "?r = run_ring (\<lambda>h. Some 0) [] ?r" by (simp add: run_ring_def)
  moreover have "length (offers (\<lambda>h. Some 0) ?es ?r) = 2" by code_simp
  ultimately show ?thesis
    using key_ring_rotates [of ?r "\<lambda>h. Some 0" "[]" "[''a'', ''b'', ''a'']" None "fresh_key ''b''" ?es] states
    by (simp add: fresh_key_def leaves_alone_def rested_def del: offers.simps)
qed

end
