(* ===== verification/EntityStore.thy ===== *)
theory EntityStore
  imports Storage EntityEvents EntityQuerySql
begin

text \<open>
  The tables of the entity index and the statements run on them (src/src/entityIndexStorage.ts): the
  operations of a set of entities with their receipt events, the refold that replaces the versions of
  those entities, the bookkeeping of the fold, and the reads behind the query endpoint. The scanner's
  tables are those of \<open>Storage\<close> and are only read. The one column of theirs this file needs and
  \<open>Storage\<close> leaves out is \<open>transaction_operations.scanned_at\<close>: it is the argument \<open>stamp\<close>, the instant
  (in microseconds) at which the row with a primary key was written. Where a statement leaves the order
  of its rows open, the order of first occurrence is taken.
\<close>

section \<open>Tables\<close>

record stored_attribute_json =
  sj_name :: string
  sj_typeId :: int
  sj_indexed :: bool
  sj_valueHex :: string
  sj_valueNum :: "string option"

text \<open>
  A row of \<open>entity_versions\<close>: the columns copied as they are, and the two that are converted. The
  columns read back with \<open>::text\<close> and \<open>Number\<close> or \<open>BigInt\<close> come back as the integers written.
\<close>

record version_row =
  vr_columns :: entity_version             \<comment> \<open>with an empty schema name and no attributes\<close>
  vr_schema_name :: "string option"        \<comment> \<open>bytea\<close>
  vr_attributes :: "stored_attribute_json list"

record attribute_row =
  ar_entity_key :: string
  ar_version :: int
  ar_name :: string
  ar_type_id :: int
  ar_indexed :: bool
  ar_value_bytes :: string
  ar_value_num :: "int option"
  ar_current :: bool

datatype genesis_status = GNone | GWaiting | GRunning | GDone | GUnavailable | GFailed

datatype genesis_phase = Walk | Repair

datatype genesis_source_kind = FromRpc | FromDump

record genesis_import =
  gi_importId :: "string option"
  gi_status :: genesis_status
  gi_phase :: "genesis_phase option"
  gi_source :: "genesis_source_kind option"
  gi_chainId :: "string option"
  gi_genesisHash :: "string option"
  gi_total :: int
  gi_imported :: int
  gi_cursor :: "string option"
  gi_repairAfterKey :: "string option"
  gi_startedAt :: string
  gi_finishedAt :: "string option"
  gi_error :: "string option"

record live_reading =
  lv_count :: int
  lv_block :: int

text \<open>The two projection tables and the keys of the state table, one field each.\<close>

record entity_index =
  ix_versions :: "version_row list"
  ix_attributes :: "attribute_row list"
  ix_floor :: "int option"
  ix_through :: "int option"
  ix_watermark :: "int option"             \<comment> \<open>an instant of the database clock, in microseconds\<close>
  ix_lastFoldAt :: "string option"
  ix_genesis :: "genesis_import option"
  ix_live :: "live_reading option"

definition empty_index :: entity_index where
  "empty_index = \<lparr>ix_versions = [], ix_attributes = [], ix_floor = None, ix_through = None,
     ix_watermark = None, ix_lastFoldAt = None, ix_genesis = None, ix_live = None\<rparr>"

datatype index_error =
    FoldFailed fold_error
  | StatementFailed storage_error
  | CompileFailed compile_error
  | StateNotANumber string

definition wrap_error :: "('e \<Rightarrow> 'f) \<Rightarrow> 'e + 'a \<Rightarrow> 'f + 'a" where
  "wrap_error f r = (case r of Inl e \<Rightarrow> Inl (f e) | Inr x \<Rightarrow> Inr x)"

lemma wrap_error_Inr [simp, result_simps]: "wrap_error f r = Inr x \<longleftrightarrow> r = Inr x"
  by (simp add: wrap_error_def split: sum.splits)

section \<open>Rows\<close>

definition stored_json :: "stored_attribute \<Rightarrow> stored_attribute_json" where
  "stored_json a =
     \<lparr>sj_name = sa_name a, sj_typeId = sa_typeId a, sj_indexed = sa_indexed a,
      sj_valueHex = utf8Hex (valueText (sa_value a)),
      sj_valueNum = map_option int_to_dec (valueNum (sa_value a))\<rparr>"

definition read_json :: "stored_attribute_json \<Rightarrow> stored_attribute" where
  "read_json j =
     \<lparr>sa_name = sj_name j, sa_typeId = sj_typeId j, sa_indexed = sj_indexed j,
      sa_value = \<lparr>valueText = fromUtf8Hex (sj_valueHex j), valueNum = Option.bind (sj_valueNum j) BigInt_of\<rparr>\<rparr>"

definition versionRow :: "entity_version \<Rightarrow> version_row" where
  "versionRow v =
     \<lparr>vr_columns = v\<lparr>v_schemaName := None, v_attributes := []\<rparr>,
      vr_schema_name = map_option utf8_bytes (v_schemaName v),
      vr_attributes = map stored_json (v_attributes v)\<rparr>"

definition mapVersionRow :: "version_row \<Rightarrow> entity_version" where
  "mapVersionRow r =
     (vr_columns r)\<lparr>v_schemaName := map_option bytesToText (vr_schema_name r),
                   v_attributes := map read_json (vr_attributes r)\<rparr>"

definition attributeRows :: "entity_version list \<Rightarrow> attribute_row list" where
  "attributeRows versions =
     concat (map (\<lambda>v. map (\<lambda>a.
       \<lparr>ar_entity_key = v_entityKey v, ar_version = v_version v, ar_name = sa_name a, ar_type_id = sa_typeId a,
        ar_indexed = sa_indexed a, ar_value_bytes = utf8_bytes (valueText (sa_value a)),
        ar_value_num = valueNum (sa_value a), ar_current = (v_toBlock v = None \<and> \<not> v_deleted v)\<rparr>)
       (v_attributes v)) versions)"

abbreviation row_key :: "version_row \<Rightarrow> string" where
  "row_key r \<equiv> v_entityKey (vr_columns r)"

definition version_key :: "version_row \<Rightarrow> string \<times> int" where
  "version_key r = (row_key r, v_version (vr_columns r))"

definition attribute_key :: "attribute_row \<Rightarrow> string \<times> int \<times> string" where
  "attribute_key r = (ar_entity_key r, ar_version r, ar_name r)"

section \<open>The operations of a set of entities\<close>

definition foldKeyBatches_width :: "int \<Rightarrow> nat" where
  "foldKeyBatches_width n = nat (max 1 n)"

function key_batches :: "nat \<Rightarrow> 'a list \<Rightarrow> 'a list list" where
  "key_batches width keys =
     (if keys = [] then [] else if width = 0 then [keys] else take width keys # key_batches width (drop width keys))"
  by auto
termination by (relation "measure (\<lambda>(width, keys). length keys)") auto

declare key_batches.simps [simp del]

definition foldKeyBatches :: "string list \<Rightarrow> int \<Rightarrow> string list list" where
  "foldKeyBatches keys n = key_batches (foldKeyBatches_width n) keys"

type_synonym tx_key = "int \<times> nat"

definition tx_of :: "op_row \<Rightarrow> tx_key" where
  "tx_of r = (or_blockNumber r, or_position r)"

definition tx_of_log :: "log_row \<Rightarrow> tx_key" where
  "tx_of_log l = (lr_blockNumber l, lr_position l)"

definition compare_triples :: "int \<times> int \<times> int \<Rightarrow> int \<times> int \<times> int \<Rightarrow> int" where
  "compare_triples a b =
     (if fst a \<noteq> fst b then fst a - fst b
      else if fst (snd a) \<noteq> fst (snd b) then fst (snd a) - fst (snd b)
      else snd (snd a) - snd (snd b))"

definition op_order_key :: "op_row \<Rightarrow> int \<times> int \<times> int" where
  "op_order_key r = (or_blockNumber r, int (or_position r), o_opIndex (or_operation r))"

definition compare_op_rows :: "op_row \<times> tx_row \<Rightarrow> op_row \<times> tx_row \<Rightarrow> int" where
  "compare_op_rows a b = compare_triples (op_order_key (fst a)) (op_order_key (fst b))"

definition compare_log_rows :: "log_row \<Rightarrow> log_row \<Rightarrow> int" where
  "compare_log_rows a b =
     compare_triples (lr_blockNumber a, int (lr_position a), lr_logIndex a)
       (lr_blockNumber b, int (lr_position b), lr_logIndex b)"

text \<open>The operation rows joined with the row of their transaction.\<close>

definition joined_rows :: "store \<Rightarrow> (op_row \<times> tx_row) list" where
  "joined_rows s =
     concat (map (\<lambda>r. map (Pair r)
       (filter (\<lambda>t. tr_blockNumber t = or_blockNumber r \<and> it_position (tr_transaction t) = or_position r)
         (st_transactions s))) (st_operations s))"

definition has_key :: "op_row \<Rightarrow> string list \<Rightarrow> bool" where
  "has_key r keys = (case o_entityKey (or_operation r) of Some k \<Rightarrow> k \<in> set keys | None \<Rightarrow> False)"

text \<open>The transactions \<open>txs\<close> of the statements: those that touch one of the keys.\<close>

definition entity_txs :: "string list \<Rightarrow> int \<Rightarrow> store \<Rightarrow> tx_key list" where
  "entity_txs keys through s =
     remdups (map tx_of (filter (\<lambda>r. has_key r keys \<and> or_blockNumber r \<le> through) (st_operations s)))"

definition operation_rows :: "string list \<Rightarrow> int \<Rightarrow> store \<Rightarrow> (op_row \<times> tx_row) list" where
  "operation_rows keys through s =
     js_sort compare_op_rows (filter (\<lambda>p. tx_of (fst p) \<in> set (entity_txs keys through s)) (joined_rows s))"

definition registry_logs :: "string list \<Rightarrow> int \<Rightarrow> store \<Rightarrow> log_row list" where
  "registry_logs keys through s =
     js_sort compare_log_rows
       (filter (\<lambda>l. tx_of_log l \<in> set (entity_txs keys through s) \<and> to_lower (lr_address l) = ARKIV_REGISTRY_ADDRESS)
         (st_logs s))"

definition event_log_of :: "log_row \<Rightarrow> event_log" where
  "event_log_of l =
     \<lparr>el_logIndex = lr_logIndex l, el_address = lr_address l, el_topic0 = lr_topic0 l, el_topic1 = lr_topic1 l,
      el_topic2 = lr_topic2 l, el_topic3 = lr_topic3 l, el_data = lr_data l\<rparr>"

text \<open>A row that is skipped, or the record it becomes. The two amounts are NUMERIC columns.\<close>

definition operation_record :: "op_row \<times> tx_row \<Rightarrow> entity_op option" where
  "operation_record p =
     (let (r, t) = p; oper = or_operation r; tx = tr_transaction t in
      if it_status tx = Some ''0'' then None
      else case (o_entityKey oper, it_from tx) of
        (Some key, Some sender) \<Rightarrow>
          if key = [] \<or> sender = [] then None
          else Some \<lparr>r_blockNumber = or_blockNumber r, r_position = int (or_position r),
                 r_opIndex = o_opIndex oper, r_operationType = o_operationType oper,
                 r_entityKey = to_lower key, r_sender = to_lower sender,
                 r_creationFlags = o_creationFlags oper,
                 r_attributes = fromStoredOperationAttributes (o_attributes oper),
                 r_expiresAt = Option.bind (o_expiresAt oper) BigInt_of,
                 r_minLifetime = Option.bind (o_minLifetime oper) BigInt_of,
                 r_newOwner = o_newOwner oper, r_event = None\<rparr>
      | _ \<Rightarrow> None)"

text \<open>\<open>map.set(key, [...(map.get(key) ?? []), x])\<close>, in place.\<close>

definition push_at :: "'k \<times> 'v \<Rightarrow> ('k, 'v list) jsmap \<Rightarrow> ('k, 'v list) jsmap" where
  "push_at kx m = map_set (fst kx) ((case map_get m (fst kx) of None \<Rightarrow> [] | Some l \<Rightarrow> l) @ [snd kx]) m"

definition list_at :: "('k, 'v list) jsmap \<Rightarrow> 'k \<Rightarrow> 'v list" where
  "list_at m k = (case map_get m k of None \<Rightarrow> [] | Some l \<Rightarrow> l)"

definition logsByTx :: "log_row list \<Rightarrow> (tx_key, event_log list) jsmap" where
  "logsByTx rows = fold push_at (map (\<lambda>l. (tx_of_log l, event_log_of l)) rows) []"

definition keyed_records :: "(op_row \<times> tx_row) list \<Rightarrow> (tx_key \<times> entity_op) list" where
  "keyed_records rows = List.map_filter (\<lambda>p. map_option (Pair (tx_of (fst p))) (operation_record p)) rows"

definition opsByTx :: "(op_row \<times> tx_row) list \<Rightarrow> (tx_key, entity_op list) jsmap" where
  "opsByTx rows = fold push_at (keyed_records rows) []"

definition take_wanted :: "string list \<Rightarrow> entity_op list \<Rightarrow> (string, entity_op list) jsmap \<Rightarrow> (string, entity_op list) jsmap" where
  "take_wanted wanted ops byKey =
     fold (\<lambda>oper m. if r_entityKey oper \<in> set wanted then push_at (r_entityKey oper, oper) m else m) ops byKey"

definition attach_tx ::
  "string list \<Rightarrow> (tx_key, event_log list) jsmap \<Rightarrow> tx_key \<times> entity_op list \<Rightarrow>
   (string, entity_op list) jsmap \<Rightarrow> fold_error + (string, entity_op list) jsmap" where
  "attach_tx wanted logs txOps byKey =
     bind_result (case map_get logs (fst txOps) of
         None \<Rightarrow> Inr (snd txOps) | Some txLogs \<Rightarrow> attachEventsToOps (snd txOps) txLogs)
       (\<lambda>ops. Inr (take_wanted wanted ops byKey))"

definition loadEntityOps :: "string list \<Rightarrow> int \<Rightarrow> store \<Rightarrow> fold_error + (string, entity_op list) jsmap" where
  "loadEntityOps keys through s =
     (if keys = [] then Inr []
      else fold_result (attach_tx (map to_lower keys) (logsByTx (registry_logs keys through s)))
             (opsByTx (operation_rows keys through s)) [])"

section \<open>The refold\<close>

definition is_genesis_row :: "version_row \<Rightarrow> bool" where
  "is_genesis_row r \<longleftrightarrow> v_version (vr_columns r) = 0 \<and> v_fromBlock (vr_columns r) = 0"

definition loadGenesisBases :: "string list \<Rightarrow> entity_index \<Rightarrow> (string, entity_version) jsmap" where
  "loadGenesisBases keys ix =
     fold (\<lambda>r. map_set (row_key r) (mapVersionRow r))
       (filter (\<lambda>r. row_key r \<in> set (map to_lower keys) \<and> is_genesis_row r) (ix_versions ix)) []"

definition replaceVersions :: "string list \<Rightarrow> entity_version list \<Rightarrow> entity_index \<Rightarrow> storage_error + entity_index" where
  "replaceVersions keys versions ix =
     (let keyList = map to_lower keys;
          attributes = filter (\<lambda>r. ar_entity_key r \<notin> set keyList) (ix_attributes ix);
          rows = filter (\<lambda>r. row_key r \<notin> set keyList) (ix_versions ix) in
      bind_result (insert_rows version_key (map versionRow versions) rows) (\<lambda>rows'.
      bind_result (insert_rows attribute_key (attributeRows versions) attributes) (\<lambda>attributes'.
      Inr (ix\<lparr>ix_versions := rows', ix_attributes := attributes'\<rparr>))))"

definition refold_key ::
  "(string \<Rightarrow> string) \<Rightarrow> (string, entity_op list) jsmap \<Rightarrow> (string, entity_version) jsmap \<Rightarrow> string \<Rightarrow>
   fold_error + entity_version list" where
  "refold_key keccak opsByKey bases key =
     foldEntityVersions keccak (to_lower key) (list_at opsByKey (to_lower key)) (map_get bases (to_lower key))"

definition refold_batch ::
  "(string \<Rightarrow> string) \<Rightarrow> int \<Rightarrow> store \<Rightarrow> string list \<Rightarrow> entity_index \<times> nat \<times> nat \<Rightarrow>
   index_error + entity_index \<times> nat \<times> nat" where
  "refold_batch keccak through s batch acc =
     (let (ix, entities, written) = acc in
      bind_result (wrap_error FoldFailed (loadEntityOps batch through s)) (\<lambda>opsByKey.
      bind_result (wrap_error FoldFailed
          (map_result (refold_key keccak opsByKey (loadGenesisBases batch ix)) batch)) (\<lambda>histories.
      bind_result (wrap_error StatementFailed (replaceVersions batch (concat histories) ix)) (\<lambda>ix'.
      Inr (ix', entities + length batch, written + length (concat histories))))))"

definition refoldEntities ::
  "(string \<Rightarrow> string) \<Rightarrow> int \<Rightarrow> string list \<Rightarrow> int \<Rightarrow> store \<Rightarrow> entity_index \<Rightarrow>
   index_error + entity_index \<times> nat \<times> nat" where
  "refoldEntities keccak foldKeyBatch keys through s ix =
     fold_result (refold_batch keccak through s) (foldKeyBatches keys foldKeyBatch) (ix, 0, 0)"

text \<open>\<open>ON CONFLICT DO NOTHING\<close>, row by row: a row whose key is there already is left out.\<close>

definition insert_missing :: "('r \<Rightarrow> 'k) \<Rightarrow> 'r list \<Rightarrow> 'r list \<Rightarrow> 'r list" where
  "insert_missing key rows table =
     fold (\<lambda>r acc. if key r \<in> set (map key acc) then acc else acc @ [r]) rows table"

definition insertGenesisVersions :: "entity_version list \<Rightarrow> entity_index \<Rightarrow> entity_index" where
  "insertGenesisVersions versions ix =
     ix\<lparr>ix_versions := insert_missing version_key (map versionRow versions) (ix_versions ix),
        ix_attributes := insert_missing attribute_key (attributeRows versions) (ix_attributes ix)\<rparr>"

section \<open>Where the fold stands\<close>

definition CHUNK_PLAN_BLOCKS :: nat where
  "CHUNK_PLAN_BLOCKS = 5000"

definition getIndexedHead :: "store \<Rightarrow> index_error + int option" where
  "getIndexedHead s =
     (case getStateValue LAST_SUCCESSFUL_BLOCK_KEY s of
        None \<Rightarrow> Inr None
      | Some v \<Rightarrow> (case BigInt_of v of Some i \<Rightarrow> Inr (Some i) | None \<Rightarrow> Inl (StateNotANumber v)))"

definition is_create_row :: "op_row \<Rightarrow> bool" where
  "is_create_row r \<longleftrightarrow> o_operationType (or_operation r) = 1"

definition countKeylessCreatesBelow :: "int \<Rightarrow> store \<Rightarrow> nat" where
  "countKeylessCreatesBelow block s =
     length (filter (\<lambda>r. is_create_row r \<and> o_entityKey (or_operation r) = None \<and> or_blockNumber r < block \<and>
       \<not> list_ex (\<lambda>t. tr_blockNumber t = or_blockNumber r \<and> it_position (tr_transaction t) = or_position r \<and>
           it_status (tr_transaction t) = Some ''0'') (st_transactions s)) (st_operations s))"

definition storedEveryBlockBelow :: "int \<Rightarrow> store \<Rightarrow> bool" where
  "storedEveryBlockBelow limit_block s =
     (if limit_block \<le> 0 then True
      else if 0 \<notin> set (map fst (st_blocks s)) then False
      else int (length (filter (\<lambda>n. n < limit_block) (map fst (st_blocks s)))) = limit_block)"

definition min_of :: "int list \<Rightarrow> int option" where
  "min_of ns = (if ns = [] then None else Some (foldl min (hd ns) ns))"

definition detectFloorBlock :: "store \<Rightarrow> int option" where
  "detectFloorBlock s =
     min_of (map or_blockNumber
       (filter (\<lambda>r. is_create_row r \<and> o_entityKey (or_operation r) \<noteq> None) (st_operations s)))"

definition keyed_rows_between :: "int \<Rightarrow> int \<Rightarrow> store \<Rightarrow> op_row list" where
  "keyed_rows_between afterBlock throughBlock s =
     filter (\<lambda>r. afterBlock < or_blockNumber r \<and> or_blockNumber r \<le> throughBlock \<and>
       o_entityKey (or_operation r) \<noteq> None) (st_operations s)"

text \<open>\<open>GROUP BY block_number ORDER BY block_number LIMIT\<close>.\<close>

definition chunk_groups :: "int \<Rightarrow> int \<Rightarrow> store \<Rightarrow> (int \<times> nat) list" where
  "chunk_groups afterBlock head s =
     (let blocks = map or_blockNumber (keyed_rows_between afterBlock head s) in
      map (\<lambda>b. (b, length (filter (\<lambda>b'. b' = b) blocks))) (take CHUNK_PLAN_BLOCKS (sort (remdups blocks))))"

fun plan_loop :: "nat \<Rightarrow> nat \<Rightarrow> (int \<times> nat) list \<Rightarrow> int option" where
  "plan_loop maxOps tot [] = None"
| "plan_loop maxOps tot ((b, ops) # rows) =
     (if tot + ops \<ge> maxOps then Some b else plan_loop maxOps (tot + ops) rows)"

definition planChunkEnd :: "int \<Rightarrow> int \<Rightarrow> nat \<Rightarrow> store \<Rightarrow> int" where
  "planChunkEnd afterBlock head maxOps s =
     (let rows = chunk_groups afterBlock head s in
      case plan_loop maxOps 0 rows of
        Some b \<Rightarrow> b
      | None \<Rightarrow> if length rows = CHUNK_PLAN_BLOCKS then fst (last rows) else head)"

definition keys_of :: "op_row list \<Rightarrow> string list" where
  "keys_of rows = remdups (List.map_filter (\<lambda>r. o_entityKey (or_operation r)) rows)"

definition keysTouchedBetween :: "int \<Rightarrow> int \<Rightarrow> store \<Rightarrow> string list" where
  "keysTouchedBetween afterBlock throughBlock s = keys_of (keyed_rows_between afterBlock throughBlock s)"

type_synonym stamps = "int \<times> nat \<times> int \<Rightarrow> int"

definition op_primary_key :: "op_row \<Rightarrow> int \<times> nat \<times> int" where
  "op_primary_key r = (or_blockNumber r, or_position r, o_opIndex (or_operation r))"

definition keysScannedSince :: "int \<Rightarrow> int \<Rightarrow> stamps \<Rightarrow> store \<Rightarrow> string list" where
  "keysScannedSince since throughBlock stamp s =
     keys_of (filter (\<lambda>r. stamp (op_primary_key r) > since \<and> or_blockNumber r \<le> throughBlock) (st_operations s))"

definition genesisKeysWithOperations :: "int \<Rightarrow> string option \<Rightarrow> nat \<Rightarrow> store \<Rightarrow> entity_index \<Rightarrow> string list" where
  "genesisKeysWithOperations throughBlock afterKey limit s ix =
     take limit (sort (remdups (filter (\<lambda>k. k > (case afterKey of None \<Rightarrow> [] | Some a \<Rightarrow> a) \<and>
         list_ex (\<lambda>r. row_key r = k \<and> is_genesis_row r) (ix_versions ix))
       (map to_lower (List.map_filter (\<lambda>r. o_entityKey (or_operation r))
         (filter (\<lambda>r. or_blockNumber r \<le> throughBlock) (st_operations s)))))))"

section \<open>Reads\<close>

text \<open>An attribute row as the value it compares by.\<close>

definition row_attribute :: "attribute_row \<Rightarrow> stored_attribute" where
  "row_attribute r =
     \<lparr>sa_name = ar_name r, sa_typeId = ar_type_id r, sa_indexed = ar_indexed r,
      sa_value = \<lparr>valueText = ar_value_bytes r, valueNum = ar_value_num r\<rparr>\<rparr>"

text \<open>What a condition over \<open>v\<close> sees: the columns, and the attribute rows of that version.\<close>

definition condition_view :: "entity_index \<Rightarrow> version_row \<Rightarrow> entity_version" where
  "condition_view ix r =
     (vr_columns r)\<lparr>v_attributes := map row_attribute
       (filter (\<lambda>a. ar_entity_key a = row_key r \<and> ar_version a = v_version (vr_columns r)) (ix_attributes ix))\<rparr>"

definition liveFilter :: "bool \<Rightarrow> int \<Rightarrow> version_row \<Rightarrow> bool" where
  "liveFilter atHead block r =
     (let v = vr_columns r in
      if atHead then v_toBlock v = None \<and> v_fromBlock v \<le> block \<and> \<not> v_deleted v \<and> v_expiresAt v > block
      else v_fromBlock v \<le> block \<and> (case v_toBlock v of None \<Rightarrow> True | Some t \<Rightarrow> t > block) \<and> \<not> v_deleted v \<and>
           v_expiresAt v > block)"

record cursor_position =
  cp_createdAt :: int
  cp_position :: int
  cp_opIndex :: int

definition cursor_key :: "cursor_position \<Rightarrow> int \<times> int \<times> int" where
  "cursor_key c = (cp_createdAt c, cp_position c, cp_opIndex c)"

definition result_key :: "version_row \<Rightarrow> int \<times> int \<times> int" where
  "result_key r = (v_createdAt (vr_columns r), v_createdPosition (vr_columns r), v_createdOpIndex (vr_columns r))"

definition compare_results :: "version_row \<Rightarrow> version_row \<Rightarrow> int" where
  "compare_results a b = compare_triples (result_key a) (result_key b)"

text \<open>The rows a compiled condition holds on; a cast that fails, or a parameter that is missing, fails the statement.\<close>

definition condition_holds :: "nat \<Rightarrow> sql_param list \<Rightarrow> sql_expr \<Rightarrow> entity_index \<Rightarrow> version_row \<Rightarrow> bool" where
  "condition_holds offset params e ix r = (eval_sql offset params (condition_view ix r) e = Some True)"

record query_page =
  qp_entities :: "entity_version list"
  qp_hasMore :: bool

definition matching_rows :: "query_ast \<Rightarrow> int \<Rightarrow> bool \<Rightarrow> entity_index \<Rightarrow> index_error + version_row list" where
  "matching_rows ast block atHead ix =
     bind_result (wrap_error CompileFailed (compileNode 1 ast [])) (\<lambda>(e, params).
     Inr (filter (\<lambda>r. liveFilter atHead block r \<and> condition_holds 1 params e ix r) (ix_versions ix)))"

definition queryEntities ::
  "query_ast \<Rightarrow> int \<Rightarrow> bool \<Rightarrow> nat \<Rightarrow> cursor_position option \<Rightarrow> entity_index \<Rightarrow> index_error + query_page" where
  "queryEntities ast block atHead limit after_position ix =
     bind_result (matching_rows ast block atHead ix) (\<lambda>live.
     let selected = filter (\<lambda>r. case after_position of None \<Rightarrow> True
                       | Some c \<Rightarrow> compare_triples (cursor_key c) (result_key r) < 0) live;
         rows = take (limit + 1) (js_sort compare_results selected) in
     Inr \<lparr>qp_entities = map mapVersionRow (take limit rows), qp_hasMore = (length rows > limit)\<rparr>)"

definition countEntities :: "query_ast \<Rightarrow> int \<Rightarrow> bool \<Rightarrow> entity_index \<Rightarrow> index_error + nat" where
  "countEntities ast block atHead ix =
     bind_result (matching_rows ast block atHead ix) (\<lambda>rows. Inr (length rows))"

definition first_row :: "version_row list \<Rightarrow> entity_version option" where
  "first_row rows = (case rows of [] \<Rightarrow> None | r # _ \<Rightarrow> Some (mapVersionRow r))"

definition getEntity :: "string \<Rightarrow> int \<Rightarrow> bool \<Rightarrow> entity_index \<Rightarrow> entity_version option" where
  "getEntity entityKey block atHead ix =
     first_row (filter (\<lambda>r. liveFilter atHead block r \<and> row_key r = to_lower entityKey) (ix_versions ix))"

definition compare_versions :: "version_row \<Rightarrow> version_row \<Rightarrow> int" where
  "compare_versions a b = v_version (vr_columns a) - v_version (vr_columns b)"

definition getLatestVersion :: "string \<Rightarrow> entity_index \<Rightarrow> entity_version option" where
  "getLatestVersion entityKey ix =
     first_row (js_sort (\<lambda>a b. compare_versions b a)
       (filter (\<lambda>r. row_key r = to_lower entityKey) (ix_versions ix)))"

definition getEntityVersions :: "string \<Rightarrow> entity_index \<Rightarrow> entity_version list" where
  "getEntityVersions entityKey ix =
     map mapVersionRow (js_sort compare_versions (filter (\<lambda>r. row_key r = to_lower entityKey) (ix_versions ix)))"

definition refreshLiveEntities :: "int \<Rightarrow> entity_index \<Rightarrow> entity_index" where
  "refreshLiveEntities block ix =
     ix\<lparr>ix_live := Some \<lparr>lv_count = int (length (filter (liveFilter True block) (ix_versions ix))), lv_block = block\<rparr>\<rparr>"

section \<open>Readiness\<close>

datatype readiness_reason = Ready | GenesisPending | GenesisRunning | GenesisFailed | GenesisUnavailable

fun status_text :: "genesis_status \<Rightarrow> string" where
  "status_text GNone = ''none''"
| "status_text GWaiting = ''waiting''"
| "status_text GRunning = ''running''"
| "status_text GDone = ''done''"
| "status_text GUnavailable = ''unavailable''"
| "status_text GFailed = ''failed''"

record readiness =
  rd_ready :: bool
  rd_reason :: readiness_reason
  rd_generation :: string

definition genesisReadiness :: "genesis_import option \<Rightarrow> bool \<Rightarrow> readiness" where
  "genesisReadiness state managed =
     (let generation =
            (case state of None \<Rightarrow> ''none''
             | Some g \<Rightarrow> (case gi_importId g of Some i \<Rightarrow> i | None \<Rightarrow> gi_startedAt g)) @ '':'' @
            (case state of None \<Rightarrow> ''pending'' | Some g \<Rightarrow> status_text (gi_status g));
          status = map_option gi_status state in
      if status = Some GDone \<or> (\<not> managed \<and> (state = None \<or> status = Some GNone))
      then \<lparr>rd_ready = True, rd_reason = Ready, rd_generation = generation\<rparr>
      else \<lparr>rd_ready = False,
            rd_reason = (if status = Some GRunning then GenesisRunning
                         else if status = Some GFailed then GenesisFailed
                         else if status = Some GUnavailable then GenesisUnavailable
                         else GenesisPending),
            rd_generation = generation\<rparr>)"

end
