(* ===== verification/EntityLoad.thy ===== *)
theory EntityLoad
  imports EntityStore
begin

text \<open>
  The operations of an entity as the fold gets them (\<open>loadEntityOps\<close> of src/src/entityIndexStorage.ts):
  whatever other keys are loaded with it, an entity's operations are those of the transactions that touch
  it, each transaction paired with its own receipt events, in chain order.
\<close>

section \<open>Grouping\<close>

lemma list_at_push_at [simp]:
  "list_at (push_at kx m) k = (if k = fst kx then list_at m k @ [snd kx] else list_at m k)"
  by (simp add: list_at_def push_at_def)

lemma list_at_Nil [simp]: "list_at [] k = []"
  by (simp add: list_at_def)

lemma list_at_fold_push: "list_at (fold push_at kxs m) k = list_at m k @ map snd (filter (\<lambda>kx. fst kx = k) kxs)"
  by (induction kxs arbitrary: m) auto

lemma map_ok_push_at [simp, intro]: "map_ok m \<Longrightarrow> map_ok (push_at kx m)"
  by (simp add: push_at_def)

lemma map_ok_fold_push: "map_ok m \<Longrightarrow> map_ok (fold push_at kxs m)"
  by (induction kxs arbitrary: m) auto

text \<open>The keys of the grouped map, in the order they were first met.\<close>

definition firsts :: "'k list \<Rightarrow> 'k list" where
  "firsts ks = fold (\<lambda>k acc. if k \<in> set acc then acc else acc @ [k]) ks []"

lemma map_fst_update: "map fst (map_set k v m) = (if k \<in> set (map fst m) then map fst m else map fst m @ [k])"
  by (induction m) auto

lemma keys_fold_push:
  "map fst (fold push_at kxs m) = fold (\<lambda>k acc. if k \<in> set acc then acc else acc @ [k]) (map fst kxs) (map fst m)"
  by (induction kxs arbitrary: m) (simp_all add: push_at_def map_fst_update)

lemma keys_grouped: "map fst (fold push_at kxs []) = firsts (map fst kxs)"
  by (simp add: keys_fold_push firsts_def)

lemma grouped_eq: "fold push_at kxs [] = map (\<lambda>k. (k, map snd (filter (\<lambda>kx. fst kx = k) kxs))) (firsts (map fst kxs))"
proof -
  let ?m = "fold push_at kxs []"
  have ok: "map_ok ?m" by (rule map_ok_fold_push) simp
  have "?m = map (\<lambda>k. (k, list_at ?m k)) (map fst ?m)"
  proof (rule nth_equalityI)
    fix i assume "i < length ?m"
    then have "map_get ?m (fst (?m ! i)) = Some (snd (?m ! i))"
      using ok by (simp add: map_get_in_set)
    then show "?m ! i = map (\<lambda>k. (k, list_at ?m k)) (map fst ?m) ! i"
      using \<open>i < length ?m\<close> by (simp add: list_at_def)
  qed simp
  then show ?thesis by (simp add: keys_grouped list_at_fold_push)
qed

lemma firsts_append_acc:
  "fold (\<lambda>k acc. if k \<in> set acc then acc else acc @ [k]) ks acc =
    acc @ filter (\<lambda>k. k \<notin> set acc) (fold (\<lambda>k acc. if k \<in> set acc then acc else acc @ [k]) ks [])"
proof (induction ks arbitrary: acc rule: rev_induct)
  case (snoc k ks)
  let ?f = "\<lambda>k acc. if k \<in> set acc then acc else acc @ [k]"
  show ?case using snoc [of acc] by auto
qed simp

lemma set_firsts [simp]: "set (firsts ks) = set ks"
proof -
  have "set (fold (\<lambda>k acc. if k \<in> set acc then acc else acc @ [k]) ks acc) = set acc \<union> set ks" for acc
    by (induction ks arbitrary: acc) auto
  then show ?thesis by (simp add: firsts_def)
qed

lemma distinct_firsts: "distinct (firsts ks)"
proof -
  have "distinct acc \<Longrightarrow> distinct (fold (\<lambda>k acc. if k \<in> set acc then acc else acc @ [k]) ks acc)" for acc
    by (induction ks arbitrary: acc) auto
  then show ?thesis by (simp add: firsts_def)
qed

lemma firsts_snoc: "firsts (ks @ [k]) = (if k \<in> set ks then firsts ks else firsts ks @ [k])"
proof -
  have "set (firsts ks) = set ks" by simp
  then show ?thesis unfolding firsts_def by simp
qed

lemma firsts_Nil [simp]: "firsts [] = []"
  by (simp add: firsts_def)

lemma firsts_filter: "firsts (filter P ks) = filter P (firsts ks)"
  by (induction ks rule: rev_induct) (auto simp: firsts_snoc)

section \<open>One transaction\<close>

text \<open>The joined rows and the logs of the whole database in the statements' order.\<close>

definition all_rows :: "store \<Rightarrow> (op_row \<times> tx_row) list" where
  "all_rows s = js_sort compare_op_rows (joined_rows s)"

definition all_logs :: "store \<Rightarrow> log_row list" where
  "all_logs s = js_sort compare_log_rows (filter (\<lambda>l. to_lower (lr_address l) = ARKIV_REGISTRY_ADDRESS) (st_logs s))"

lemma compare_triples_order:
  "compare_triples a b \<le> 0 \<or> compare_triples b a \<le> 0"
  "compare_triples a b \<le> 0 \<Longrightarrow> compare_triples b c \<le> 0 \<Longrightarrow> compare_triples a c \<le> 0"
  by (auto simp: compare_triples_def split: if_splits)

interpretation op_rows_order: js_comparator compare_op_rows
  using compare_triples_order by unfold_locales (auto simp: compare_op_rows_def)

interpretation log_rows_order: js_comparator compare_log_rows
  using compare_triples_order by unfold_locales (simp add: compare_log_rows_def, unfold compare_log_rows_def, blast)

definition tx_records :: "store \<Rightarrow> tx_key \<Rightarrow> entity_op list" where
  "tx_records s tx = List.map_filter operation_record (filter (\<lambda>p. tx_of (fst p) = tx) (all_rows s))"

definition tx_events :: "store \<Rightarrow> tx_key \<Rightarrow> event_log list" where
  "tx_events s tx = map event_log_of (filter (\<lambda>l. tx_of_log l = tx) (all_logs s))"

definition tx_applied :: "store \<Rightarrow> tx_key \<Rightarrow> fold_error + entity_op list" where
  "tx_applied s tx =
     (if tx_events s tx = [] then Inr (tx_records s tx) else attachEventsToOps (tx_records s tx) (tx_events s tx))"

text \<open>The transactions with an applied operation, in chain order, and those that touch an entity.\<close>

definition applied_txs :: "store \<Rightarrow> tx_key list" where
  "applied_txs s = firsts (map fst (keyed_records (all_rows s)))"

definition touches :: "store \<Rightarrow> string \<Rightarrow> tx_key \<Rightarrow> bool" where
  "touches s key tx \<longleftrightarrow> (\<exists>r \<in> set (st_operations s). tx_of r = tx \<and> o_entityKey (or_operation r) = Some key)"

text \<open>The operations of one entity: a function of the transactions that touch it.\<close>

definition key_ops :: "store \<Rightarrow> int \<Rightarrow> string \<Rightarrow> fold_error + entity_op list" where
  "key_ops s through key =
     bind_result (map_result (tx_applied s) (filter (\<lambda>tx. touches s key tx \<and> fst tx \<le> through) (applied_txs s)))
       (\<lambda>txs. Inr (filter (\<lambda>oper. r_entityKey oper = key) (concat txs)))"

definition lower_keys :: "store \<Rightarrow> bool" where
  "lower_keys s \<longleftrightarrow>
     (\<forall>r \<in> set (st_operations s). \<forall>k. o_entityKey (or_operation r) = Some k \<longrightarrow> to_lower k = k)"

lemma entity_txs_set:
  "set (entity_txs keys through s) = {tx. \<exists>k \<in> set keys. touches s k tx \<and> fst tx \<le> through}"
  by (auto simp: entity_txs_def touches_def has_key_def tx_of_def split: option.splits)

lemma operation_rows_eq:
  "operation_rows keys through s = filter (\<lambda>p. tx_of (fst p) \<in> set (entity_txs keys through s)) (all_rows s)"
  by (simp add: operation_rows_def all_rows_def op_rows_order.js_sort_filter)

lemma registry_logs_eq:
  "registry_logs keys through s = filter (\<lambda>l. tx_of_log l \<in> set (entity_txs keys through s)) (all_logs s)"
proof -
  have "filter (\<lambda>l. tx_of_log l \<in> T \<and> to_lower (lr_address l) = ARKIV_REGISTRY_ADDRESS) ls =
      filter (\<lambda>l. tx_of_log l \<in> T) (filter (\<lambda>l. to_lower (lr_address l) = ARKIV_REGISTRY_ADDRESS) ls)" for T ls
    by (auto intro: filter_cong)
  then show ?thesis by (simp only: registry_logs_def all_logs_def log_rows_order.js_sort_filter)
qed

lemma keyed_records_filter:
  "keyed_records (filter (\<lambda>p. Q (tx_of (fst p))) rows) = filter (\<lambda>kx. Q (fst kx)) (keyed_records rows)"
  by (induction rows) (simp_all add: keyed_records_def map_filter_simps split: option.splits)

lemma keyed_records_at:
  "map snd (filter (\<lambda>kx. fst kx = tx) (keyed_records rows)) =
    List.map_filter operation_record (filter (\<lambda>p. tx_of (fst p) = tx) rows)"
  by (induction rows) (simp_all add: keyed_records_def map_filter_simps split: option.splits)

lemma opsByTx_eq:
  "opsByTx (operation_rows keys through s) =
    map (\<lambda>tx. (tx, tx_records s tx)) (filter (\<lambda>tx. tx \<in> set (entity_txs keys through s)) (applied_txs s))"
proof -
  let ?T = "set (entity_txs keys through s)"
  have rows: "keyed_records (operation_rows keys through s) = filter (\<lambda>kx. fst kx \<in> ?T) (keyed_records (all_rows s))"
    unfolding operation_rows_eq by (rule keyed_records_filter [where Q = "\<lambda>tx. tx \<in> ?T"])
  have txs: "firsts (map fst (filter (\<lambda>kx. fst kx \<in> ?T) (keyed_records (all_rows s)))) =
      filter (\<lambda>tx. tx \<in> ?T) (applied_txs s)"
    unfolding applied_txs_def firsts_filter [symmetric] by (simp add: filter_map comp_def)
  have "map snd (filter (\<lambda>kx. fst kx = tx) (filter (\<lambda>kx. fst kx \<in> ?T) (keyed_records (all_rows s)))) = tx_records s tx"
    if "tx \<in> ?T" for tx
  proof -
    have "filter (\<lambda>kx. fst kx = tx) (filter (\<lambda>kx. fst kx \<in> ?T) (keyed_records (all_rows s))) =
        filter (\<lambda>kx. fst kx = tx) (keyed_records (all_rows s))"
      using that by (auto intro: filter_cong)
    then show ?thesis by (simp add: tx_records_def keyed_records_at)
  qed
  then show ?thesis by (auto simp: opsByTx_def grouped_eq rows txs)
qed

lemma logsByTx_at:
  assumes "tx \<in> set (entity_txs keys through s)"
  shows "list_at (logsByTx (registry_logs keys through s)) tx = tx_events s tx"
proof -
  let ?T = "set (entity_txs keys through s)"
  have "filter (\<lambda>l. tx_of_log l = tx) (filter (\<lambda>l. tx_of_log l \<in> ?T) (all_logs s)) = filter (\<lambda>l. tx_of_log l = tx) (all_logs s)"
    using assms by (auto intro: filter_cong)
  then show ?thesis by (simp add: logsByTx_def list_at_fold_push registry_logs_eq tx_events_def filter_map comp_def)
qed

lemma fold_push_nonempty: "map_get (fold push_at kxs m) k = Some l \<Longrightarrow> \<forall>k l. map_get m k = Some l \<longrightarrow> l \<noteq> [] \<Longrightarrow> l \<noteq> []"
proof (induction kxs arbitrary: m)
  case (Cons kx kxs)
  have "\<forall>k l. map_get (push_at kx m) k = Some l \<longrightarrow> l \<noteq> []" using Cons.prems(2) by (auto simp: push_at_def)
  then show ?case using Cons.IH [of "push_at kx m"] Cons.prems(1) by simp
qed auto

lemma attach_tx_applied:
  assumes "tx \<in> set (entity_txs keys through s)"
  shows "attach_tx wanted (logsByTx (registry_logs keys through s)) (tx, tx_records s tx) m =
    bind_result (tx_applied s tx) (\<lambda>ops. Inr (take_wanted wanted ops m))"
proof (cases "map_get (logsByTx (registry_logs keys through s)) tx")
  case None
  then have "tx_events s tx = []" using logsByTx_at [OF assms] by (simp add: list_at_def)
  then show ?thesis using None by (simp add: attach_tx_def tx_applied_def)
next
  case (Some ls)
  then have "ls = tx_events s tx" using logsByTx_at [OF assms] by (simp add: list_at_def)
  moreover have "ls \<noteq> []" using fold_push_nonempty Some by (fastforce simp: logsByTx_def)
  ultimately show ?thesis using Some by (simp add: attach_tx_def tx_applied_def)
qed

section \<open>The operations of one entity\<close>

lemma list_at_take_wanted:
  "list_at (take_wanted wanted ops m) k =
    list_at m k @ (if k \<in> set wanted then filter (\<lambda>oper. r_entityKey oper = k) ops else [])"
  by (induction ops arbitrary: m) (auto simp: take_wanted_def)

lemma attach_loop:
  assumes "fold_result (attach_tx wanted (logsByTx (registry_logs keys through s)))
      (map (\<lambda>tx. (tx, tx_records s tx)) txs) m = Inr m'" "set txs \<subseteq> set (entity_txs keys through s)"
  shows "\<exists>opss. map_result (tx_applied s) txs = Inr opss \<and>
    (\<forall>k \<in> set wanted. list_at m' k = list_at m k @ filter (\<lambda>oper. r_entityKey oper = k) (concat opss))"
  using assms
proof (induction txs arbitrary: m)
  case (Cons tx txs)
  from Cons.prems obtain ops where ops: "tx_applied s tx = Inr ops"
    "fold_result (attach_tx wanted (logsByTx (registry_logs keys through s)))
      (map (\<lambda>tx. (tx, tx_records s tx)) txs) (take_wanted wanted ops m) = Inr m'"
    by (auto simp: attach_tx_applied bind_result_eq_Inr)
  from Cons.IH [OF ops(2)] Cons.prems(2) obtain opss where "map_result (tx_applied s) txs = Inr opss"
    "\<forall>k \<in> set wanted. list_at m' k =
        list_at (take_wanted wanted ops m) k @ filter (\<lambda>oper. r_entityKey oper = k) (concat opss)"
    by auto
  then show ?case using ops(1) by (auto simp: list_at_take_wanted)
qed simp

text \<open>Pairing with events changes nothing but the event of a record.\<close>

abbreviation without_event :: "entity_op \<Rightarrow> entity_op" where
  "without_event oper \<equiv> oper\<lparr>r_event := None\<rparr>"

lemma attach_frame: "attachEventsToOps ops logs = Inr ops' \<Longrightarrow> map without_event ops' = map without_event ops"
proof -
  have keep: "(map without_event xs)[i := y] = map without_event xs" if "i < length xs \<longrightarrow> y = without_event (xs ! i)"
    for xs i y
    using that by (cases "i < length xs") (simp_all add: list_update_same_conv list_update_beyond)
  have step: "map without_event (snd st') = map without_event (snd st)"
    if "attach_step iop st = Inr st'"
      "fst iop < length (snd st) \<longrightarrow> without_event (snd iop) = without_event (snd st ! fst iop)"
    for iop st st'
    using that by (cases iop; cases st)
      (auto simp: attach_step_def Let_def bind_result_eq_Inr map_update keep
        split: option.splits list.splits if_splits)
  have "map without_event (snd st') = map without_event (snd st)"
    if "fold_result attach_step iops st = Inr st'"
      "\<forall>iop \<in> set iops. fst iop < length (snd st) \<longrightarrow> without_event (snd iop) = map without_event (snd st) ! fst iop"
    for iops st st'
    using that
  proof (induction iops arbitrary: st)
    case (Cons iop iops)
    then obtain s1 where s1: "attach_step iop st = Inr s1" "fold_result attach_step iops s1 = Inr st'"
      by (auto simp: bind_result_eq_Inr)
    have same: "map without_event (snd s1) = map without_event (snd st)" using step [OF s1(1)] Cons.prems(2) by simp
    then have "length (snd s1) = length (snd st)" by (metis length_map)
    then show ?case using Cons.IH [OF s1(2)] Cons.prems(2) same by simp
  qed simp
  moreover assume "attachEventsToOps ops logs = Inr ops'"
  then obtain q where "fold_result attach_step (js_sort (\<lambda>a b. compareOps (snd a) (snd b)) (zip [0..<length ops] ops))
      (event_queues logs, ops) = Inr (q, ops')"
    by (auto simp: attachEventsToOps_def bind_result_eq_Inr)
  ultimately show ?thesis by (fastforce simp: set_zip)
qed

lemma map_without_event:
  assumes "map without_event ops' = map without_event ops" "\<And>oper e. f (oper\<lparr>r_event := e\<rparr>) = f oper"
  shows "map f ops' = map f ops"
proof -
  have "map f ops' = map f (map without_event ops')" by (simp add: assms(2) comp_def)
  also have "\<dots> = map f ops" unfolding assms(1) by (simp add: assms(2) comp_def)
  finally show ?thesis .
qed

lemma tx_applied_frame: "tx_applied s tx = Inr ops \<Longrightarrow> map without_event ops = map without_event (tx_records s tx)"
  using attach_frame by (auto simp: tx_applied_def split: if_splits)

lemma tx_applied_map:
  assumes "tx_applied s tx = Inr ops" "\<And>oper e. f (oper\<lparr>r_event := e\<rparr>) = f oper"
  shows "map f ops = map f (tx_records s tx)"
  by (rule map_without_event [OF tx_applied_frame [OF assms(1)] assms(2)])

lemma record_key: "operation_record (r, t) = Some oper \<Longrightarrow> \<exists>k. o_entityKey (or_operation r) = Some k \<and> r_entityKey oper = to_lower k"
  by (auto simp: operation_record_def Let_def split: option.splits if_splits)

lemma joined_rows_op: "(r, t) \<in> set (joined_rows s) \<Longrightarrow> r \<in> set (st_operations s)"
  by (auto simp: joined_rows_def)

lemma tx_records_touches:
  assumes "lower_keys s" "oper \<in> set (tx_records s tx)"
  shows "touches s (r_entityKey oper) tx"
proof -
  obtain r t where rt: "(r, t) \<in> set (joined_rows s)" "tx_of r = tx" "operation_record (r, t) = Some oper"
    using assms(2) by (auto simp: tx_records_def map_filter_def all_rows_def)
  then obtain k where "o_entityKey (or_operation r) = Some k" "r_entityKey oper = to_lower k" using record_key by blast
  then show ?thesis using assms(1) rt joined_rows_op by (fastforce simp: touches_def lower_keys_def)
qed

lemma untouched_tx:
  assumes "lower_keys s" "tx_applied s tx = Inr ops" "\<not> touches s k tx"
  shows "filter (\<lambda>oper. r_entityKey oper = k) ops = []"
proof -
  have "k \<notin> set (map r_entityKey (tx_records s tx))"
    unfolding set_map using tx_records_touches [OF assms(1)] assms(3) by blast
  then have "k \<notin> set (map r_entityKey ops)" using tx_applied_map [OF assms(2), of r_entityKey] by simp
  then show ?thesis by (auto simp: filter_empty_conv)
qed

lemma map_result_filter:
  assumes "map_result (tx_applied s) txs = Inr opss" "lower_keys s"
    and "\<And>tx. tx \<in> set txs \<Longrightarrow> \<not> Q tx \<Longrightarrow> \<not> touches s k tx"
  shows "\<exists>opss'. map_result (tx_applied s) (filter Q txs) = Inr opss' \<and>
    filter (\<lambda>oper. r_entityKey oper = k) (concat opss') = filter (\<lambda>oper. r_entityKey oper = k) (concat opss)"
  using assms(1,3)
proof (induction txs arbitrary: opss)
  case (Cons tx txs)
  then obtain ops opss1 where ops: "tx_applied s tx = Inr ops" "map_result (tx_applied s) txs = Inr opss1" "opss = ops # opss1"
    by (auto simp: bind_result_eq_Inr)
  from Cons.IH [OF ops(2)] Cons.prems(2) obtain opss' where "map_result (tx_applied s) (filter Q txs) = Inr opss'"
    "filter (\<lambda>oper. r_entityKey oper = k) (concat opss') = filter (\<lambda>oper. r_entityKey oper = k) (concat opss1)"
    by auto
  then show ?case using ops untouched_tx [OF assms(2) ops(1), of k] Cons.prems(2) [of tx] by auto
qed simp

lemma loadEntityOps_key:
  assumes "loadEntityOps keys through s = Inr m" "lower_keys s" "k \<in> set keys" "to_lower k = k"
  shows "key_ops s through k = Inr (list_at m k)"
proof -
  let ?T = "set (entity_txs keys through s)"
  let ?txs = "filter (\<lambda>tx. tx \<in> ?T) (applied_txs s)"
  have nonempty: "keys \<noteq> []" using assms(3) by auto
  have "fold_result (attach_tx (map to_lower keys) (logsByTx (registry_logs keys through s)))
      (map (\<lambda>tx. (tx, tx_records s tx)) ?txs) [] = Inr m"
    using assms(1) nonempty by (simp add: loadEntityOps_def opsByTx_eq)
  then obtain opss where opss: "map_result (tx_applied s) ?txs = Inr opss"
    "\<forall>k \<in> set (map to_lower keys). list_at m k = filter (\<lambda>oper. r_entityKey oper = k) (concat opss)"
    using attach_loop [of "map to_lower keys" keys through s ?txs "[]" m] by auto
  have "k \<in> set (map to_lower keys)" using assms(3,4) by (metis image_eqI set_map)
  then have at_k: "list_at m k = filter (\<lambda>oper. r_entityKey oper = k) (concat opss)" using opss(2) by blast
  obtain opss' where opss': "map_result (tx_applied s) (filter (\<lambda>tx. touches s k tx \<and> fst tx \<le> through) ?txs) = Inr opss'"
    "filter (\<lambda>oper. r_entityKey oper = k) (concat opss') = filter (\<lambda>oper. r_entityKey oper = k) (concat opss)"
    using map_result_filter [OF opss(1) assms(2), of "\<lambda>tx. touches s k tx \<and> fst tx \<le> through" k]
    by (auto simp: entity_txs_set)
  have "filter (\<lambda>tx. touches s k tx \<and> fst tx \<le> through) ?txs = filter (\<lambda>tx. touches s k tx \<and> fst tx \<le> through) (applied_txs s)"
    using assms(3) by (auto simp: entity_txs_set intro: filter_cong)
  then show ?thesis using opss' at_k by (simp add: key_ops_def)
qed

end
