(* ===== verification/EntityRefold.thy ===== *)
theory EntityRefold
  imports EntityLoad StorageFacts
begin

text \<open>
  What a refold does to the projection tables (\<open>refoldEntities\<close> of src/src/entityIndexStorage.ts), key by
  key: the rows of each key it is given become the versions rebuilt from that key's operations on top of
  its genesis state, no other key's rows change, and the attribute table keeps mirroring the version
  table. Then, which keys' operations the save of a block (src/src/storage.ts) can change.
\<close>

section \<open>Where versions come from\<close>

lemma push_parts [simp]:
  "fs_attributes (push st attrs w) = attrs" "fs_versions (push st attrs w) = push_version (fs_versions st) w"
  by (simp_all add: push_def)

lemma fold_step_pushed:
  assumes "fold_step keccak key oper st = Inr st'"
  shows "st' = st \<or> (let w = last (fs_versions st') in
    st' = push st (fs_attributes st') w \<and> v_fromBlock w = r_blockNumber oper \<and>
    (case current st of None \<Rightarrow> r_operationType oper = OPERATION_CREATE \<and> v_entityKey w = key
     | Some cur \<Rightarrow> v_entityKey w = v_entityKey cur))"
  using assms
  by (auto simp: fold_step_def Let_def bind_result_eq_Inr withAttributes_def created_version_def next_version_def
      split: option.splits if_splits)

lemma fold_step_pushes:
  assumes "fold_step keccak key oper st = Inr st'"
  obtains (same) "st' = st"
  | (pushed) attrs w where "st' = push st attrs w" "v_fromBlock w = r_blockNumber oper"
      "current st = None \<Longrightarrow> r_operationType oper = OPERATION_CREATE \<and> v_entityKey w = key"
      "\<And>cur. current st = Some cur \<Longrightarrow> v_entityKey w = v_entityKey cur"
  using fold_step_pushed [OF assms] by (auto simp: Let_def split: option.splits)

text \<open>
  The history of an entity: its own key everywhere, its genesis state first if it has one, and every
  other version from a block an operation is in, so never from block 0.
\<close>

definition from_history :: "string \<Rightarrow> entity_version option \<Rightarrow> entity_version list \<Rightarrow> bool" where
  "from_history key base vs \<longleftrightarrow>
     (\<forall>v \<in> set vs. v_entityKey v = key) \<and>
     (case base of None \<Rightarrow> \<forall>v \<in> set vs. 1 \<le> v_fromBlock v
      | Some g \<Rightarrow> \<exists>t rest. vs = g\<lparr>v_toBlock := t\<rparr> # rest \<and> (\<forall>v \<in> set rest. 1 \<le> v_fromBlock v))"

lemma from_history_push:
  assumes "from_history key base vs" "v_entityKey w = key" "1 \<le> v_fromBlock w"
  shows "from_history key base (push_version vs w)"
proof (cases base)
  case None
  then show ?thesis using assms by (auto simp: from_history_def push_version_def dest: in_set_butlastD)
next
  case (Some g)
  then obtain t rest where vs: "vs = g\<lparr>v_toBlock := t\<rparr> # rest" "\<forall>v \<in> set rest. 1 \<le> v_fromBlock v"
    using assms(1) by (auto simp: from_history_def)
  show ?thesis
  proof (cases rest)
    case Nil
    then show ?thesis using vs Some assms by (auto simp: from_history_def push_version_def)
  next
    case (Cons u us)
    then have "push_version vs w = g\<lparr>v_toBlock := t\<rparr> # push_version rest w" using vs by (simp add: push_version_def)
    moreover have "\<forall>v \<in> set (push_version rest w). 1 \<le> v_fromBlock v" "\<forall>v \<in> set (push_version rest w). v_entityKey v = key"
      using vs Cons assms by (auto simp: push_version_def from_history_def dest: in_set_butlastD split: if_splits)
    ultimately show ?thesis using Some vs assms(1) by (auto simp: from_history_def)
  qed
qed

definition genesis_ok :: "entity_version \<Rightarrow> bool" where
  "genesis_ok g \<longleftrightarrow>
     v_version g = 0 \<and> v_fromBlock g = 0 \<and> v_toBlock g = None \<and> \<not> v_deleted g \<and> version_ok g \<and>
     to_lower (v_entityKey g) = v_entityKey g \<and> mapVersionRow (versionRow g) = g"

text \<open>A stored genesis state is where the fold starts from again, whenever it ended.\<close>

lemma genesis_start:
  assumes "genesis_ok g"
  shows "fold_start (Some (g\<lparr>v_toBlock := t\<rparr>)) = \<lparr>fs_versions = [g], fs_attributes = base_attributes g\<rparr>"
proof -
  have names: "names_sorted (v_attributes g)" and sum: "v_bytesSize g = fst (summarizeAttributes (v_attributes g))"
    "v_schemaName g = snd (summarizeAttributes (v_attributes g))"
    using assms by (simp_all add: genesis_ok_def version_ok_def)
  have "map snd (base_attributes g) = v_attributes g"
    using names by (simp add: base_attributes_eq names_sorted_def comp_def)
  then have "sortedAttributes (base_attributes g) = v_attributes g"
    using names by (simp add: sortedAttributes_def names_sorted_def names_order.js_sort_sorted_id)
  moreover have "base_attributes (g\<lparr>v_toBlock := t\<rparr>) = base_attributes g" by (simp add: base_attributes_def)
  moreover have "withAttributes (g\<lparr>v_toBlock := None, v_deleted := False\<rparr>) (v_attributes g) = g"
    using assms sum by (cases g) (simp add: withAttributes_def genesis_ok_def)
  ultimately show ?thesis by (simp add: fold_start_def push_def push_version_def)
qed

lemma fold_history:
  assumes "foldEntityVersions keccak key ops base = Inr vs" "\<forall>oper \<in> set ops. 1 \<le> r_blockNumber oper"
    and "\<forall>g. base = Some g \<longrightarrow> genesis_ok g \<and> v_entityKey g = key"
  shows "from_history key base vs"
proof -
  obtain st where st: "fold_result (fold_step keccak key) (js_sort compareOps ops) (fold_start base) = Inr st"
    "vs = fs_versions st"
    by (rule foldEntityVersionsE [OF assms(1)])
  have "from_history key base (fs_versions st)"
  proof (rule fold_result_invariant [OF st(1)])
    show "from_history key base (fs_versions (fold_start base))"
    proof (cases base)
      case None
      then show ?thesis by (simp add: from_history_def fold_start_def)
    next
      case (Some g)
      then have "fold_start base = \<lparr>fs_versions = [g], fs_attributes = base_attributes g\<rparr>"
        using genesis_start [of g "v_toBlock g"] assms(3) by simp
      then show ?thesis using Some assms(3) by (auto simp: from_history_def intro!: exI [of _ "v_toBlock g"])
    qed
    fix oper s t
    assume oper: "oper \<in> set (js_sort compareOps ops)" and hist: "from_history key base (fs_versions s)"
      and run: "fold_step keccak key oper s = Inr t"
    have first: "1 \<le> r_blockNumber oper" using oper assms(2) by simp
    have key: "v_entityKey cur = key" if "current s = Some cur" for cur
      using hist that by (auto simp: from_history_def current_def split: if_splits)
    from run show "from_history key base (fs_versions t)"
    proof (cases rule: fold_step_pushes)
      case (pushed attrs w)
      then have "v_entityKey w = key" using key by (cases "current s") auto
      then show ?thesis using pushed hist first by (simp add: from_history_push)
    qed (use hist in simp)
  qed
  then show ?thesis using st(2) by simp
qed

text \<open>Without a create and without a genesis state there is nothing to fold.\<close>

lemma fold_without_create:
  assumes "foldEntityVersions keccak key ops None = Inr vs" "\<forall>oper \<in> set ops. r_operationType oper \<noteq> OPERATION_CREATE"
  shows "vs = []"
proof -
  obtain st where st: "fold_result (fold_step keccak key) (js_sort compareOps ops) (fold_start None) = Inr st"
    "vs = fs_versions st"
    by (rule foldEntityVersionsE [OF assms(1)])
  have "fs_versions st = []"
  proof (rule fold_result_invariant [OF st(1)])
    show "fs_versions (fold_start None) = []" by (simp add: fold_start_def)
    fix oper s t
    assume *: "oper \<in> set (js_sort compareOps ops)" "fs_versions s = []" "fold_step keccak key oper s = Inr t"
    from *(3) show "fs_versions t = []"
      by (cases rule: fold_step_pushes) (use * assms(2) in \<open>auto simp: current_def\<close>)
  qed
  then show ?thesis using st(2) by simp
qed

section \<open>Refolding\<close>

definition rows_of :: "entity_index \<Rightarrow> string \<Rightarrow> version_row list" where
  "rows_of ix key = filter (\<lambda>r. row_key r = key) (ix_versions ix)"

definition base_of :: "version_row list \<Rightarrow> entity_version option" where
  "base_of rows = (case rev (filter is_genesis_row rows) of [] \<Rightarrow> None | r # _ \<Rightarrow> Some (mapVersionRow r))"

text \<open>The reference: one entity rebuilt from its operations alone.\<close>

definition rebuilt :: "(string \<Rightarrow> string) \<Rightarrow> store \<Rightarrow> int \<Rightarrow> string \<Rightarrow> entity_version option \<Rightarrow> fold_error + entity_version list" where
  "rebuilt keccak s through key base =
     bind_result (key_ops s through key) (\<lambda>ops. foldEntityVersions keccak key ops base)"

lemma bases_at:
  "map_get (fold (\<lambda>r. map_set (row_key r) (mapVersionRow r)) rows m) k =
    (case rev (filter (\<lambda>r. row_key r = k) rows) of [] \<Rightarrow> map_get m k | r # _ \<Rightarrow> Some (mapVersionRow r))"
  by (induction rows rule: rev_induct) auto

lemma loadGenesisBases_at:
  assumes "k \<in> set keys" "to_lower k = k"
  shows "map_get (loadGenesisBases keys ix) k = base_of (rows_of ix k)"
proof -
  have "k \<in> to_lower ` set keys" using assms by (metis imageI)
  then have "filter (\<lambda>r. row_key r = k) (filter (\<lambda>r. row_key r \<in> set (map to_lower keys) \<and> is_genesis_row r) (ix_versions ix)) =
      filter is_genesis_row (rows_of ix k)"
    by (auto simp: rows_of_def intro: filter_cong)
  then show ?thesis by (simp add: loadGenesisBases_def bases_at base_of_def split: list.splits)
qed

text \<open>The attribute table always holds the attributes of the version rows.\<close>

definition mirrored :: "entity_index \<Rightarrow> bool" where
  "mirrored ix \<longleftrightarrow> (\<exists>vs. ix_versions ix = map versionRow vs \<and> ix_attributes ix = attributeRows vs)"

lemma row_key_versionRow [simp]: "row_key (versionRow v) = v_entityKey v"
  by (simp add: versionRow_def)

lemma attributeRows_filter:
  "filter (\<lambda>r. Q (ar_entity_key r)) (attributeRows vs) = attributeRows (filter (\<lambda>v. Q (v_entityKey v)) vs)"
  by (induction vs) (auto simp: attributeRows_def filter_map comp_def)

lemma attributeRows_append [simp]: "attributeRows (vs @ ws) = attributeRows vs @ attributeRows ws"
  by (simp add: attributeRows_def)

lemma replaceVersions_effect:
  assumes "replaceVersions keys vs ix = Inr ix'"
  shows "ix' = ix\<lparr>ix_versions := filter (\<lambda>r. row_key r \<notin> to_lower ` set keys) (ix_versions ix) @ map versionRow vs,
      ix_attributes := filter (\<lambda>r. ar_entity_key r \<notin> to_lower ` set keys) (ix_attributes ix) @ attributeRows vs\<rparr>"
  using assms by (auto simp: replaceVersions_def Let_def bind_result_eq_Inr insert_rows_Inr)

lemma replaceVersions_mirrored:
  assumes "replaceVersions keys vs ix = Inr ix'" "mirrored ix"
  shows "mirrored ix'"
proof -
  obtain ws where ws: "ix_versions ix = map versionRow ws" "ix_attributes ix = attributeRows ws"
    using assms(2) by (auto simp: mirrored_def)
  let ?ws = "filter (\<lambda>v. v_entityKey v \<notin> to_lower ` set keys) ws @ vs"
  have "ix_versions ix' = map versionRow ?ws" "ix_attributes ix' = attributeRows ?ws"
    unfolding replaceVersions_effect [OF assms(1)]
    by (simp_all add: ws filter_map comp_def attributeRows_filter [where Q = "\<lambda>k. k \<notin> to_lower ` set keys"])
  then show ?thesis unfolding mirrored_def by blast
qed

definition base_kept :: "entity_version option \<Rightarrow> version_row list \<Rightarrow> bool" where
  "base_kept base rows \<longleftrightarrow>
     (case base of None \<Rightarrow> base_of rows = None | Some g \<Rightarrow> \<exists>t. base_of rows = Some (g\<lparr>v_toBlock := t\<rparr>))"

lemma fold_base_kept:
  assumes "base_kept base rows" "\<forall>g. base = Some g \<longrightarrow> genesis_ok g"
  shows "foldEntityVersions keccak key ops (base_of rows) = foldEntityVersions keccak key ops base"
proof (cases base)
  case (Some g)
  then obtain t where "base_of rows = Some (g\<lparr>v_toBlock := t\<rparr>)" using assms(1) by (auto simp: base_kept_def)
  moreover have "fold_start (Some (g\<lparr>v_toBlock := t\<rparr>)) = fold_start (Some g)"
    using genesis_start [of g t] genesis_start [of g "v_toBlock g"] assms(2) Some by simp
  ultimately show ?thesis using Some by (simp add: foldEntityVersions_def)
qed (use assms(1) in \<open>simp add: base_kept_def\<close>)

lemma is_genesis_versionRow [simp]: "is_genesis_row (versionRow v) \<longleftrightarrow> v_version v = 0 \<and> v_fromBlock v = 0"
  by (simp add: is_genesis_row_def versionRow_def)

lemma from_history_kept:
  assumes "from_history key base vs" "\<forall>g. base = Some g \<longrightarrow> genesis_ok g"
  shows "base_kept base (map versionRow vs)"
proof (cases base)
  case None
  then have "filter is_genesis_row (map versionRow vs) = []"
    using assms(1) by (force simp: from_history_def filter_empty_conv)
  then show ?thesis using None by (simp add: base_kept_def base_of_def)
next
  case (Some g)
  then obtain t rest where vs: "vs = g\<lparr>v_toBlock := t\<rparr> # rest" "\<forall>v \<in> set rest. 1 \<le> v_fromBlock v"
    using assms(1) by (auto simp: from_history_def)
  have g: "genesis_ok g" using assms(2) Some by simp
  have "filter is_genesis_row (map versionRow rest) = []" using vs(2) by (force simp: filter_empty_conv)
  then have "base_of (map versionRow vs) = Some (mapVersionRow (versionRow (g\<lparr>v_toBlock := t\<rparr>)))"
    using g by (simp add: vs base_of_def genesis_ok_def)
  moreover have "mapVersionRow (versionRow (g\<lparr>v_toBlock := t\<rparr>)) = (mapVersionRow (versionRow g))\<lparr>v_toBlock := t\<rparr>"
    by (simp add: mapVersionRow_def versionRow_def)
  ultimately show ?thesis using g Some by (auto simp: base_kept_def genesis_ok_def)
qed

definition after_genesis :: "store \<Rightarrow> bool" where
  "after_genesis s \<longleftrightarrow> (\<forall>r \<in> set (st_operations s). 1 \<le> or_blockNumber r)"

lemma record_block: "operation_record (r, t) = Some oper \<Longrightarrow>
    r_blockNumber oper = or_blockNumber r \<and> r_operationType oper = o_operationType (or_operation r)"
  by (auto simp: operation_record_def Let_def split: option.splits if_splits)

lemma key_ops_records:
  assumes "key_ops s through k = Inr ops" "oper \<in> set ops"
  shows "\<exists>r t. (r, t) \<in> set (joined_rows s) \<and> or_blockNumber r = r_blockNumber oper \<and>
    o_operationType (or_operation r) = r_operationType oper \<and>
    (\<exists>k'. o_entityKey (or_operation r) = Some k' \<and> to_lower k' = k)"
proof -
  obtain opss where opss: "map_result (tx_applied s) (filter (\<lambda>tx. touches s k tx \<and> fst tx \<le> through) (applied_txs s)) = Inr opss"
    "ops = filter (\<lambda>oper. r_entityKey oper = k) (concat opss)"
    using assms(1) by (auto simp: key_ops_def bind_result_eq_Inr)
  then obtain ops1 where "ops1 \<in> set opss" "oper \<in> set ops1" "r_entityKey oper = k" using assms(2) by auto
  then obtain tx where tx: "tx_applied s tx = Inr ops1" using map_result_set [OF opss(1)] by blast
  let ?f = "\<lambda>oper. (r_blockNumber oper, r_operationType oper, r_entityKey oper)"
  have "map ?f ops1 = map ?f (tx_records s tx)" by (rule tx_applied_map [OF tx]) simp
  from arg_cong [OF this, of set] have "?f ` set ops1 = ?f ` set (tx_records s tx)" unfolding set_map .
  moreover have "?f oper \<in> ?f ` set ops1" using \<open>oper \<in> set ops1\<close> by (rule imageI)
  ultimately have "?f oper \<in> ?f ` set (tx_records s tx)" by (simp only:)
  then obtain oper' where "?f oper = ?f oper'" "oper' \<in> set (tx_records s tx)" by (rule imageE)
  then obtain r t where rt: "(r, t) \<in> set (joined_rows s)" "operation_record (r, t) = Some oper'"
    by (auto simp: tx_records_def map_filter_def all_rows_def)
  have "r_blockNumber oper' = r_blockNumber oper" "r_operationType oper' = r_operationType oper" "r_entityKey oper' = k"
    using \<open>?f oper = ?f oper'\<close> \<open>r_entityKey oper = k\<close> by simp_all
  then have "or_blockNumber r = r_blockNumber oper" "o_operationType (or_operation r) = r_operationType oper"
    "\<exists>k'. o_entityKey (or_operation r) = Some k' \<and> to_lower k' = k"
    using record_block [OF rt(2)] record_key [OF rt(2)] by auto
  then show ?thesis using rt(1) by blast
qed

lemma key_ops_below:
  assumes "key_ops s through k = Inr ops" "oper \<in> set ops"
  shows "r_blockNumber oper \<le> through"
proof -
  let ?txs = "filter (\<lambda>tx. touches s k tx \<and> fst tx \<le> through) (applied_txs s)"
  obtain opss where opss: "map_result (tx_applied s) ?txs = Inr opss" "ops = filter (\<lambda>oper. r_entityKey oper = k) (concat opss)"
    using assms(1) by (auto simp: key_ops_def bind_result_eq_Inr)
  then obtain ops1 where "ops1 \<in> set opss" "oper \<in> set ops1" using assms(2) by auto
  then obtain tx where tx: "tx \<in> set ?txs" "tx_applied s tx = Inr ops1" using map_result_set [OF opss(1)] by blast
  have "map r_blockNumber ops1 = map r_blockNumber (tx_records s tx)" by (rule tx_applied_map [OF tx(2)]) simp
  from arg_cong [OF this, of set] have "r_blockNumber oper \<in> r_blockNumber ` set (tx_records s tx)"
    using \<open>oper \<in> set ops1\<close> by (metis imageI set_map)
  then obtain oper' where "r_blockNumber oper = r_blockNumber oper'" "oper' \<in> set (tx_records s tx)" by (rule imageE)
  moreover from this obtain r t where "tx_of r = tx" "operation_record (r, t) = Some oper'"
    by (auto simp: tx_records_def map_filter_def)
  ultimately show ?thesis using tx(1) record_block by (auto simp: tx_of_def)
qed

lemma concat_of_key:
  assumes "map_result f keys = Inr vss" "distinct keys" "k \<in> set keys" "f k = Inr vs"
    and "\<And>k vs. k \<in> set keys \<Longrightarrow> f k = Inr vs \<Longrightarrow> \<forall>v \<in> set vs. v_entityKey v = k"
  shows "filter (\<lambda>v. v_entityKey v = k) (concat vss) = vs"
  using assms
proof (induction keys arbitrary: vss)
  case (Cons key keys)
  then obtain ws wss where ws: "f key = Inr ws" "map_result f keys = Inr wss" "vss = ws # wss"
    by (auto simp: bind_result_eq_Inr)
  have own: "\<forall>v \<in> set ws. v_entityKey v = key" using Cons.prems(5) ws(1) by simp
  show ?case
  proof (cases "k = key")
    case True
    have "\<forall>v \<in> set (concat wss). v_entityKey v \<in> set keys"
      using map_result_set [OF ws(2)] Cons.prems(5) by fastforce
    then have "filter (\<lambda>v. v_entityKey v = k) (concat wss) = []"
      using True Cons.prems(2) by (auto simp: filter_empty_conv)
    then show ?thesis using True ws own Cons.prems(4) by (auto simp: filter_id_conv)
  next
    case False
    then have "filter (\<lambda>v. v_entityKey v = k) ws = []" using own by (auto simp: filter_empty_conv)
    then show ?thesis using Cons.IH [OF ws(2)] Cons.prems False ws(3) by auto
  qed
qed simp

text \<open>What one refold promises of an entity.\<close>

definition refolded ::
  "(string \<Rightarrow> string) \<Rightarrow> store \<Rightarrow> int \<Rightarrow> (string \<Rightarrow> entity_version option) \<Rightarrow> string \<Rightarrow> entity_index \<Rightarrow> bool" where
  "refolded keccak s through genesis k ix \<longleftrightarrow>
     (\<exists>vs. rebuilt keccak s through k (genesis k) = Inr vs \<and> rows_of ix k = map versionRow vs)"

definition bases_kept :: "(string \<Rightarrow> entity_version option) \<Rightarrow> entity_index \<Rightarrow> bool" where
  "bases_kept genesis ix \<longleftrightarrow> (\<forall>k. to_lower k = k \<longrightarrow> base_kept (genesis k) (rows_of ix k))"

definition genesis_known :: "(string \<Rightarrow> entity_version option) \<Rightarrow> bool" where
  "genesis_known genesis \<longleftrightarrow> (\<forall>k g. genesis k = Some g \<longrightarrow> genesis_ok g \<and> v_entityKey g = k)"

lemma rebuilt_history:
  assumes "rebuilt keccak s through k (genesis k) = Inr vs" "after_genesis s" "genesis_known genesis"
  shows "from_history k (genesis k) vs"
proof -
  obtain ops where ops: "key_ops s through k = Inr ops" "foldEntityVersions keccak k ops (genesis k) = Inr vs"
    using assms(1) by (auto simp: rebuilt_def bind_result_eq_Inr)
  have "\<forall>oper \<in> set ops. 1 \<le> r_blockNumber oper"
    using key_ops_records [OF ops(1)] joined_rows_op assms(2) by (fastforce simp: after_genesis_def)
  then show ?thesis using fold_history [OF ops(2)] assms(3) by (auto simp: genesis_known_def)
qed

lemma refold_batch_effect:
  assumes run: "refold_batch keccak through s batch (ix, e, w) = Inr (ix', e', w')"
    and store: "lower_keys s" "after_genesis s"
    and batch: "distinct batch" "\<forall>k \<in> set batch. to_lower k = k"
    and bases: "genesis_known genesis" "bases_kept genesis ix"
  shows "\<forall>k. k \<notin> set batch \<longrightarrow> rows_of ix' k = rows_of ix k"
    "\<forall>k \<in> set batch. refolded keccak s through genesis k ix'"
    "mirrored ix \<Longrightarrow> mirrored ix'" "ix' = ix\<lparr>ix_versions := ix_versions ix', ix_attributes := ix_attributes ix'\<rparr>"
proof -
  from run obtain m vss where m: "loadEntityOps batch through s = Inr m"
    and vss: "map_result (refold_key keccak m (loadGenesisBases batch ix)) batch = Inr vss"
    and ix': "replaceVersions batch (concat vss) ix = Inr ix'"
    by (auto simp: refold_batch_def bind_result_eq_Inr)
  have lower: "to_lower ` set batch = set batch" using batch(2) by force
  note effect = replaceVersions_effect [OF ix', unfolded lower]
  show "mirrored ix \<Longrightarrow> mirrored ix'" by (rule replaceVersions_mirrored [OF ix'])
  show "ix' = ix\<lparr>ix_versions := ix_versions ix', ix_attributes := ix_attributes ix'\<rparr>" by (simp add: effect)
  have one: "rebuilt keccak s through k (genesis k) = Inr vs \<and> (\<forall>v \<in> set vs. v_entityKey v = k)"
    if k: "k \<in> set batch" and vs: "refold_key keccak m (loadGenesisBases batch ix) k = Inr vs" for k vs
  proof -
    have low: "to_lower k = k" using k batch(2) by blast
    have "foldEntityVersions keccak k (list_at m k) (base_of (rows_of ix k)) = Inr vs"
      using vs by (simp add: refold_key_def low loadGenesisBases_at [OF k low])
    then have "foldEntityVersions keccak k (list_at m k) (genesis k) = Inr vs"
      using fold_base_kept [of "genesis k" "rows_of ix k"] bases low by (simp add: bases_kept_def genesis_known_def)
    then have "rebuilt keccak s through k (genesis k) = Inr vs"
      using loadEntityOps_key [OF m store(1) k low] by (simp add: rebuilt_def)
    then show ?thesis using rebuilt_history [OF _ store(2) bases(1)] by (auto simp: from_history_def)
  qed
  have others: "\<forall>v \<in> set (concat vss). v_entityKey v \<in> set batch"
    using map_result_set [OF vss] one by fastforce
  have rows: "rows_of ix' k = (if k \<in> set batch then [] else rows_of ix k) @ map versionRow (filter (\<lambda>v. v_entityKey v = k) (concat vss))"
    for k
  proof -
    have "filter (\<lambda>r. row_key r = k) (filter (\<lambda>r. row_key r \<notin> set batch) (ix_versions ix)) =
        (if k \<in> set batch then [] else rows_of ix k)"
      by (auto simp: rows_of_def filter_empty_conv intro: filter_cong)
    then show ?thesis by (simp add: effect rows_of_def filter_map comp_def)
  qed
  show "\<forall>k. k \<notin> set batch \<longrightarrow> rows_of ix' k = rows_of ix k"
  proof (intro allI impI)
    fix k assume "k \<notin> set batch"
    moreover from this have "filter (\<lambda>v. v_entityKey v = k) (concat vss) = []" using others by (auto simp: filter_empty_conv)
    ultimately show "rows_of ix' k = rows_of ix k" by (simp add: rows)
  qed
  show "\<forall>k \<in> set batch. refolded keccak s through genesis k ix'"
  proof
    fix k assume k: "k \<in> set batch"
    obtain vs where vs: "refold_key keccak m (loadGenesisBases batch ix) k = Inr vs"
      using vss k by (metis in_set_conv_nth map_result_nth)
    have "filter (\<lambda>v. v_entityKey v = k) (concat vss) = vs"
      by (rule concat_of_key [OF vss batch(1) k vs]) (use one in blast)
    then show "refolded keccak s through genesis k ix'" using rows [of k] k one [OF k vs] by (simp add: refolded_def)
  qed
qed

lemma concat_key_batches: "concat (key_batches width keys) = keys"
proof (induction width keys rule: key_batches.induct)
  case (1 width keys)
  then show ?case by (subst key_batches.simps) (simp add: 1)
qed

lemma concat_foldKeyBatches [simp]: "concat (foldKeyBatches keys n) = keys"
  by (simp add: foldKeyBatches_def concat_key_batches)

lemma refold_batches_effect:
  assumes "fold_result (refold_batch keccak through s) batches (ix, e, w) = Inr (ix', e', w')"
    and "lower_keys s" "after_genesis s" "genesis_known genesis" "bases_kept genesis ix"
    and "distinct (concat batches)" "\<forall>k \<in> set (concat batches). to_lower k = k"
  shows "(\<forall>k. k \<notin> set (concat batches) \<longrightarrow> rows_of ix' k = rows_of ix k) \<and>
    (\<forall>k \<in> set (concat batches). refolded keccak s through genesis k ix') \<and>
    (mirrored ix \<longrightarrow> mirrored ix') \<and> bases_kept genesis ix' \<and>
    ix' = ix\<lparr>ix_versions := ix_versions ix', ix_attributes := ix_attributes ix'\<rparr>"
  using assms
proof (induction batches arbitrary: ix e w)
  case Nil
  then show ?case by simp
next
  case (Cons batch batches)
  from Cons.prems(1) obtain ix1 e1 w1 where one: "refold_batch keccak through s batch (ix, e, w) = Inr (ix1, e1, w1)"
    and rest: "fold_result (refold_batch keccak through s) batches (ix1, e1, w1) = Inr (ix', e', w')"
    by (auto simp: bind_result_eq_Inr)
  have "distinct batch" "\<forall>k \<in> set batch. to_lower k = k" using Cons.prems(6,7) by auto
  note effect = refold_batch_effect [OF one Cons.prems(2,3) this Cons.prems(4,5)]
  have kept: "base_kept (genesis k) (map versionRow vs)" if "rebuilt keccak s through k (genesis k) = Inr vs" for k vs
    using from_history_kept [OF rebuilt_history [OF that Cons.prems(3,4)]] Cons.prems(4) by (simp add: genesis_known_def)
  have "base_kept (genesis k) (rows_of ix1 k)" if "to_lower k = k" for k
    using effect(1,2) that Cons.prems(5) kept by (cases "k \<in> set batch") (auto simp: refolded_def bases_kept_def)
  then have bases: "bases_kept genesis ix1" by (simp add: bases_kept_def)
  have "distinct (concat batches)" "\<forall>k \<in> set (concat batches). to_lower k = k" using Cons.prems(6,7) by auto
  note IH = Cons.IH [OF rest Cons.prems(2,3,4) bases this]
  have apart: "k \<notin> set (concat batches)" if "k \<in> set batch" for k using Cons.prems(6) that by auto
  have "refolded keccak s through genesis k ix'" if "k \<in> set batch" for k
    using effect(2) IH apart [OF that] that by (simp add: refolded_def)
  moreover have "ix' = ix\<lparr>ix_versions := ix_versions ix', ix_attributes := ix_attributes ix'\<rparr>"
  proof -
    have "ix' = (ix\<lparr>ix_versions := ix_versions ix1, ix_attributes := ix_attributes ix1\<rparr>)
        \<lparr>ix_versions := ix_versions ix', ix_attributes := ix_attributes ix'\<rparr>"
      using IH effect(4) by metis
    then show ?thesis by simp
  qed
  ultimately show ?case using effect(1,3) IH by auto
qed

lemma refoldEntities_effect:
  assumes "refoldEntities keccak batch keys through s ix = Inr (ix', e, w)"
    and "lower_keys s" "after_genesis s" "genesis_known genesis" "bases_kept genesis ix"
    and "distinct keys" "\<forall>k \<in> set keys. to_lower k = k"
  shows "\<forall>k. k \<notin> set keys \<longrightarrow> rows_of ix' k = rows_of ix k"
    "\<forall>k \<in> set keys. refolded keccak s through genesis k ix'"
    "mirrored ix \<longrightarrow> mirrored ix'" "bases_kept genesis ix'"
    "ix' = ix\<lparr>ix_versions := ix_versions ix', ix_attributes := ix_attributes ix'\<rparr>"
  using refold_batches_effect [OF assms(1) [unfolded refoldEntities_def] assms(2-5)] assms(6,7) by simp_all

lemma refoldEntities_frame:
  assumes "refoldEntities keccak batch keys through s ix = Inr (ix', e, w)"
  shows "ix' = ix\<lparr>ix_versions := ix_versions ix', ix_attributes := ix_attributes ix'\<rparr>"
proof -
  let ?P = "\<lambda>acc. fst acc = ix\<lparr>ix_versions := ix_versions (fst acc), ix_attributes := ix_attributes (fst acc)\<rparr>"
  have "?P (ix', e, w)"
  proof (rule fold_result_invariant [OF assms [unfolded refoldEntities_def], where P = ?P])
    fix batch acc acc'
    assume inv: "?P acc" and run: "refold_batch keccak through s batch acc = Inr acc'"
    obtain vs where "replaceVersions batch vs (fst acc) = Inr (fst acc')"
      using run by (cases acc) (auto simp: refold_batch_def bind_result_eq_Inr)
    from replaceVersions_effect [OF this]
    have "fst acc' = (fst acc)\<lparr>ix_versions := ix_versions (fst acc'), ix_attributes := ix_attributes (fst acc')\<rparr>" by simp
    then show "?P acc'" by (subst (asm) inv) simp
  qed simp
  then show ?thesis by simp
qed

section \<open>What a block's save changes\<close>

definition outside :: "int \<Rightarrow> store \<Rightarrow> store \<Rightarrow> bool" where
  "outside n s s' \<longleftrightarrow>
     filter (\<lambda>r. or_blockNumber r \<noteq> n) (st_operations s') = filter (\<lambda>r. or_blockNumber r \<noteq> n) (st_operations s) \<and>
     filter (\<lambda>t. tr_blockNumber t \<noteq> n) (st_transactions s') = filter (\<lambda>t. tr_blockNumber t \<noteq> n) (st_transactions s) \<and>
     filter (\<lambda>l. lr_blockNumber l \<noteq> n) (st_logs s') = filter (\<lambda>l. lr_blockNumber l \<noteq> n) (st_logs s)"

lemma filter_refine:
  "filter Q xs = filter Q ys \<Longrightarrow> (\<And>x. P x \<Longrightarrow> Q x) \<Longrightarrow> filter P xs = filter P ys"
proof -
  assume eq: "filter Q xs = filter Q ys" and imp: "\<And>x. P x \<Longrightarrow> Q x"
  have "filter P zs = filter P (filter Q zs)" for zs using imp by (auto intro: filter_cong)
  then show ?thesis by (metis eq)
qed

lemma outside_rows:
  assumes "outside n s s'"
  shows "filter (\<lambda>p. or_blockNumber (fst p) \<noteq> n) (all_rows s') = filter (\<lambda>p. or_blockNumber (fst p) \<noteq> n) (all_rows s)"
proof -
  have joined: "filter (\<lambda>p. or_blockNumber (fst p) \<noteq> n) (joined_rows s) =
      concat (map (\<lambda>r. map (Pair r)
        (filter (\<lambda>t. tr_blockNumber t = or_blockNumber r \<and> it_position (tr_transaction t) = or_position r)
          (filter (\<lambda>t. tr_blockNumber t \<noteq> n) (st_transactions s)))) (filter (\<lambda>r. or_blockNumber r \<noteq> n) (st_operations s)))"
    for s
  proof -
    have "filter (\<lambda>p. or_blockNumber (fst p) \<noteq> n) (concat (map (\<lambda>r. map (Pair r) (filter (M r) txs)) ops)) =
        concat (map (\<lambda>r. map (Pair r) (filter (M r) (filter (\<lambda>t. tr_blockNumber t \<noteq> n) txs)))
          (filter (\<lambda>r. or_blockNumber r \<noteq> n) ops))"
      if M: "\<And>r t. M r t \<Longrightarrow> tr_blockNumber t = or_blockNumber r" for M ops and txs :: "tx_row list"
    proof (induction ops)
      case (Cons r ops)
      have "filter (M r) (filter (\<lambda>t. tr_blockNumber t \<noteq> n) txs) = filter (M r) txs" if "or_blockNumber r \<noteq> n"
        using that M by (auto intro: filter_cong)
      then show ?case using Cons by (simp add: filter_map comp_def)
    qed simp
    from this [of "\<lambda>r t. tr_blockNumber t = or_blockNumber r \<and> it_position (tr_transaction t) = or_position r",
        OF conjunct1]
    show ?thesis unfolding joined_rows_def .
  qed
  have "filter (\<lambda>p. or_blockNumber (fst p) \<noteq> n) (joined_rows s') = filter (\<lambda>p. or_blockNumber (fst p) \<noteq> n) (joined_rows s)"
    unfolding joined using assms by (simp add: outside_def)
  then show ?thesis unfolding all_rows_def op_rows_order.js_sort_filter [symmetric] by simp
qed

lemma outside_tx:
  assumes "outside n s s'" "fst tx \<noteq> n"
  shows "tx_records s' tx = tx_records s tx" "tx_events s' tx = tx_events s tx" "tx_applied s' tx = tx_applied s tx"
    "touches s' k tx = touches s k tx"
proof -
  have "filter (\<lambda>p. tx_of (fst p) = tx) (all_rows s') = filter (\<lambda>p. tx_of (fst p) = tx) (all_rows s)"
    by (rule filter_refine [OF outside_rows [OF assms(1)]]) (use assms(2) in \<open>auto simp: tx_of_def\<close>)
  then show records: "tx_records s' tx = tx_records s tx" by (simp add: tx_records_def)
  have "filter (\<lambda>l. to_lower (lr_address l) = ARKIV_REGISTRY_ADDRESS \<and> tx_of_log l = tx) (st_logs s') =
      filter (\<lambda>l. to_lower (lr_address l) = ARKIV_REGISTRY_ADDRESS \<and> tx_of_log l = tx) (st_logs s)"
    by (rule filter_refine [where Q = "\<lambda>l. lr_blockNumber l \<noteq> n"])
       (use assms in \<open>auto simp: outside_def tx_of_log_def\<close>)
  then show events: "tx_events s' tx = tx_events s tx"
    by (simp add: tx_events_def all_logs_def log_rows_order.js_sort_filter [symmetric] conj_commute)
  show "tx_applied s' tx = tx_applied s tx" by (simp add: tx_applied_def records events)
  have "filter (\<lambda>r. tx_of r = tx) (st_operations s') = filter (\<lambda>r. tx_of r = tx) (st_operations s)"
    by (rule filter_refine [where Q = "\<lambda>r. or_blockNumber r \<noteq> n"])
       (use assms in \<open>auto simp: outside_def tx_of_def\<close>)
  moreover have "touches s k tx \<longleftrightarrow>
      (\<exists>r \<in> set (filter (\<lambda>r. tx_of r = tx) (st_operations s)). o_entityKey (or_operation r) = Some k)" for s
    by (auto simp: touches_def)
  ultimately show "touches s' k tx = touches s k tx" by (simp only:)
qed

lemma outside_txs:
  assumes "outside n s s'"
  shows "filter (\<lambda>tx. fst tx \<noteq> n) (applied_txs s') = filter (\<lambda>tx. fst tx \<noteq> n) (applied_txs s)"
proof -
  have "filter (\<lambda>tx. fst tx \<noteq> n) (applied_txs s) =
      firsts (map fst (keyed_records (filter (\<lambda>p. or_blockNumber (fst p) \<noteq> n) (all_rows s))))" for s
  proof -
    have "keyed_records (filter (\<lambda>p. or_blockNumber (fst p) \<noteq> n) rows) = filter (\<lambda>kx. fst (fst kx) \<noteq> n) (keyed_records rows)"
      for rows using keyed_records_filter [of "\<lambda>tx. fst tx \<noteq> n" rows] by (simp add: tx_of_def)
    then show ?thesis by (simp add: applied_txs_def firsts_filter [symmetric] filter_map comp_def)
  qed
  then show ?thesis by (simp add: outside_rows [OF assms])
qed

lemma key_ops_outside:
  assumes "outside n s s'" "\<And>tx. fst tx = n \<Longrightarrow> n \<le> through \<Longrightarrow> \<not> touches s k tx \<and> \<not> touches s' k tx"
  shows "key_ops s' through k = key_ops s through k"
proof -
  have near: "touches s' k tx \<and> fst tx \<le> through \<longleftrightarrow> touches s k tx \<and> fst tx \<le> through \<and> fst tx \<noteq> n"
    "touches s k tx \<and> fst tx \<le> through \<longleftrightarrow> touches s k tx \<and> fst tx \<le> through \<and> fst tx \<noteq> n" for tx
    by (cases "fst tx = n"; use assms(2) [of tx] outside_tx(4) [OF assms(1), of tx k] in auto)+
  have "filter (\<lambda>tx. touches s' k tx \<and> fst tx \<le> through) (applied_txs s') =
      filter (\<lambda>tx. touches s k tx \<and> fst tx \<le> through) (filter (\<lambda>tx. fst tx \<noteq> n) (applied_txs s'))"
    unfolding near(1) by (simp add: conj_ac)
  also have "\<dots> = filter (\<lambda>tx. touches s k tx \<and> fst tx \<le> through) (applied_txs s)"
    unfolding outside_txs [OF assms(1)] by (subst (2) near(2)) (simp add: conj_ac)
  finally have txs: "filter (\<lambda>tx. touches s' k tx \<and> fst tx \<le> through) (applied_txs s') =
      filter (\<lambda>tx. touches s k tx \<and> fst tx \<le> through) (applied_txs s)" .
  have "map_result (tx_applied s') (filter (\<lambda>tx. touches s k tx \<and> fst tx \<le> through) (applied_txs s)) =
      map_result (tx_applied s) (filter (\<lambda>tx. touches s k tx \<and> fst tx \<le> through) (applied_txs s))"
  proof (rule map_result_cong)
    fix tx assume "tx \<in> set (filter (\<lambda>tx. touches s k tx \<and> fst tx \<le> through) (applied_txs s))"
    then have "fst tx \<noteq> n" using near(2) [of tx] by simp
    then show "tx_applied s' tx = tx_applied s tx" by (rule outside_tx(3) [OF assms(1)])
  qed simp
  then show ?thesis by (simp add: key_ops_def txs)
qed

lemma key_ops_beyond:
  assumes "\<And>tx. touches s k tx \<Longrightarrow> fst tx \<le> b \<Longrightarrow> fst tx \<le> a" "a \<le> b"
  shows "key_ops s b k = key_ops s a k"
proof -
  have "filter (\<lambda>tx. touches s k tx \<and> fst tx \<le> b) (applied_txs s) = filter (\<lambda>tx. touches s k tx \<and> fst tx \<le> a) (applied_txs s)"
    using assms by (auto intro!: filter_cong)
  then show ?thesis by (simp add: key_ops_def)
qed

lemma rows_replaced:
  assumes "insert_rows key rows (filter (\<lambda>r. f r \<noteq> n) table) = Inr t" "\<forall>r \<in> set rows. f r = n"
  shows "filter (\<lambda>r. f r \<noteq> n) t = filter (\<lambda>r. f r \<noteq> n) table"
  using assms by (auto simp: insert_rows_Inr filter_empty_conv)

lemma save_outside:
  assumes "saveBlockMetrics m p ts cands ops bals s = Inr s'"
  shows "outside (bm_blockNumber m) s s'" "lower_keys s \<Longrightarrow> lower_keys s'"
    "ts = None \<Longrightarrow> st_operations s' = st_operations s \<and> st_transactions s' = st_transactions s \<and> st_logs s' = st_logs s"
proof -
  let ?s = "s\<lparr>st_blocks := upsert_block m (st_blocks s)\<rparr>"
  obtain s2 where s2: "stage_rows m ts ops ?s = Inr s2" "st_transactions s' = st_transactions s2"
    "st_logs s' = st_logs s2" "st_operations s' = st_operations s2"
    using saveBlockMetrics_fields [OF assms] by blast
  have "outside (bm_blockNumber m) s s' \<and> (lower_keys s \<longrightarrow> lower_keys s')"
  proof (cases ts)
    case None
    then have "s2 = ?s" using s2(1) by (simp add: stage_rows_def)
    then show ?thesis using s2 by (simp add: outside_def lower_keys_def)
  next
    case (Some t)
    then obtain s1 where s1: "replaceTransactionsForBlock m t ?s = Inr s1" "replaceOperationsForBlock m ops s1 = Inr s2"
      using s2(1) by (auto simp: stage_rows_def bind_result_eq_Inr)
    obtain logs rows where tr: "s1 = ?s\<lparr>st_logs := logs, st_transactions := rows\<rparr>"
      "replaceLogsForBlock (bm_blockNumber m) t (st_logs ?s) = Inr logs"
      "insert_rows (\<lambda>r. (tr_blockNumber r, it_position (tr_transaction r))) (map (tx_row_of m) t)
         (filter (\<lambda>r. tr_blockNumber r \<noteq> bm_blockNumber m) (st_transactions ?s)) = Inr rows"
      using replaceTransactions_fields [OF s1(1)] by blast
    obtain orows sent where oper: "s2 = s1\<lparr>st_operations := orows, st_notified := sent\<rparr>"
      "insert_rows (\<lambda>r. (or_blockNumber r, or_position r, o_opIndex (or_operation r))) (op_rows m ops)
         (filter (\<lambda>r. or_blockNumber r \<noteq> bm_blockNumber m) (st_operations s1)) = Inr orows"
      using replaceOperations_fields [OF s1(2)] by blast
    have "filter (\<lambda>r. or_blockNumber r \<noteq> bm_blockNumber m) orows = filter (\<lambda>r. or_blockNumber r \<noteq> bm_blockNumber m) (st_operations s1)"
      by (rule rows_replaced [OF oper(2)]) (auto simp: op_row_of_def)
    moreover have "filter (\<lambda>r. tr_blockNumber r \<noteq> bm_blockNumber m) rows = filter (\<lambda>r. tr_blockNumber r \<noteq> bm_blockNumber m) (st_transactions ?s)"
      by (rule rows_replaced [OF tr(3)]) (auto simp: tx_row_of_def)
    moreover have "filter (\<lambda>r. lr_blockNumber r \<noteq> bm_blockNumber m) logs = filter (\<lambda>r. lr_blockNumber r \<noteq> bm_blockNumber m) (st_logs ?s)"
      by (rule rows_replaced [OF tr(2) [unfolded replaceLogsForBlock_def]]) (auto simp: log_row_of_def)
    ultimately have "outside (bm_blockNumber m) s s'" using s2 tr(1) oper(1) by (simp add: outside_def)
    moreover have "set orows \<subseteq> set (op_rows m ops) \<union> set (st_operations s)"
      using oper(2) tr(1) by (auto simp: insert_rows_Inr)
    then have "lower_keys s \<longrightarrow> lower_keys s'"
      using s2(4) oper(1) by (fastforce simp: lower_keys_def op_row_of_def)
    ultimately show ?thesis by blast
  qed
  then show "outside (bm_blockNumber m) s s'" "lower_keys s \<Longrightarrow> lower_keys s'" by blast+
  show "st_operations s' = st_operations s \<and> st_transactions s' = st_transactions s \<and> st_logs s' = st_logs s" if "ts = None"
    using that s2 by (auto simp: stage_rows_def)
qed

end
