(* ===== verification/Projector.thy ===== *)
theory Projector
  imports EntityRefold
begin

text \<open>
  The loop that keeps the entity index folded up to the scanner's head (src/src/entityProjector.ts):
  where the fold starts, one chunk of the forward fold, the refold of operations that were written below
  the fold point, a tick, and the spacing of attempts. What a tick reads of the world is in its
  arguments: the scanner's tables (with the instants their operation rows were written at), the
  database clock, the host clock, and whether another backend holds the fold lock. Log lines, the
  counters they print and the progress file are left out.
\<close>

section \<open>Settings\<close>

definition DEFAULT_POLL_MS :: int where
  "DEFAULT_POLL_MS = 2000"

definition DEFAULT_MAX_OPS_PER_CHUNK :: nat where
  "DEFAULT_MAX_OPS_PER_CHUNK = 20000"

definition DEFAULT_LATE_SCAN_INTERVAL_MS :: int where
  "DEFAULT_LATE_SCAN_INTERVAL_MS = 60000"

definition DEFAULT_LATE_SCAN_OVERLAP_MS :: int where
  "DEFAULT_LATE_SCAN_OVERLAP_MS = 120000"

definition DEFAULT_MAX_TICK_MS :: int where
  "DEFAULT_MAX_TICK_MS = 30000"

definition DEFAULT_LIVE_COUNT_INTERVAL_MS :: int where
  "DEFAULT_LIVE_COUNT_INTERVAL_MS = 60000"

definition MAX_RETRY_MS :: int where
  "MAX_RETRY_MS = 60000"

definition LIVE_COUNT_DUTY_FACTOR :: int where
  "LIVE_COUNT_DUTY_FACTOR = 20"

definition DEFAULT_FOLD_KEY_BATCH :: int where
  "DEFAULT_FOLD_KEY_BATCH = 1000"

record projector_config =
  pc_maxOpsPerChunk :: nat
  pc_lateScanIntervalMs :: int
  pc_lateScanOverlapMs :: int
  pc_maxTickMs :: int
  pc_liveCountIntervalMs :: int
  pc_floorOverride :: "int option"
  pc_foldKeyBatch :: int

definition default_projector :: projector_config where
  "default_projector =
     \<lparr>pc_maxOpsPerChunk = DEFAULT_MAX_OPS_PER_CHUNK, pc_lateScanIntervalMs = DEFAULT_LATE_SCAN_INTERVAL_MS,
      pc_lateScanOverlapMs = DEFAULT_LATE_SCAN_OVERLAP_MS, pc_maxTickMs = DEFAULT_MAX_TICK_MS,
      pc_liveCountIntervalMs = DEFAULT_LIVE_COUNT_INTERVAL_MS, pc_floorOverride = None,
      pc_foldKeyBatch = DEFAULT_FOLD_KEY_BATCH\<rparr>"

definition retryDelayMs :: "nat \<Rightarrow> int \<Rightarrow> int \<Rightarrow> int" where
  "retryDelayMs failures pollMs capMs = (if failures = 0 then pollMs else min (pollMs * 2 ^ (failures - 1)) capMs)"

text \<open>One turn of the loop of \<open>start\<close>: the failures in a row and the wait before the next attempt.\<close>

definition after_attempt :: "int \<Rightarrow> bool \<Rightarrow> nat \<Rightarrow> nat \<times> int" where
  "after_attempt pollMs succeeded failures =
     (if succeeded then (0, pollMs) else (failures + 1, retryDelayMs (failures + 1) pollMs MAX_RETRY_MS))"

section \<open>Chunks\<close>

text \<open>\<open>None\<close> is \<open>undefined\<close>: another backend holds the lock, or the genesis import owns the index.\<close>

definition withFoldLock :: "bool \<Rightarrow> (index_error + 'a option) \<Rightarrow> index_error + 'a option" where
  "withFoldLock free body = (if free then body else Inr None)"

definition genesis_allows :: "entity_index \<Rightarrow> bool" where
  "genesis_allows ix =
     (case ix_genesis ix of None \<Rightarrow> True | Some g \<Rightarrow> gi_status g = GDone \<or> gi_status g = GNone)"

definition foldChunk ::
  "(string \<Rightarrow> string) \<Rightarrow> projector_config \<Rightarrow> bool \<Rightarrow> string list \<Rightarrow> int \<Rightarrow> string \<Rightarrow> store \<Rightarrow> entity_index \<Rightarrow>
   index_error + (entity_index \<times> nat \<times> nat) option" where
  "foldChunk keccak config free keys chunkEnd nowIso s ix =
     withFoldLock free
       (if \<not> genesis_allows ix then Inr None
        else bind_result (refoldEntities keccak (pc_foldKeyBatch config) keys chunkEnd s ix) (\<lambda>(ix', entities, versions).
          Inr (Some (ix'\<lparr>ix_through := Some chunkEnd, ix_lastFoldAt := Some nowIso\<rparr>, entities, versions))))"

section \<open>Late arrivals\<close>

text \<open>\<open>new Date(Date.parse(watermark) - overlap).toISOString()\<close>: the parse drops the microseconds.\<close>

definition late_since :: "projector_config \<Rightarrow> int \<Rightarrow> int" where
  "late_since config watermark = (watermark div 1000 - pc_lateScanOverlapMs config) * 1000"

definition late_fold ::
  "(string \<Rightarrow> string) \<Rightarrow> projector_config \<Rightarrow> bool \<Rightarrow> string list \<Rightarrow> int \<Rightarrow> store \<Rightarrow> entity_index \<Rightarrow>
   index_error + (entity_index \<times> nat \<times> nat) option" where
  "late_fold keccak config free keys through s ix =
     withFoldLock free
       (if \<not> genesis_allows ix then Inr None
        else bind_result (refoldEntities keccak (pc_foldKeyBatch config) keys through s ix) (\<lambda>r. Inr (Some r)))"

definition lower_floor :: "projector_config \<Rightarrow> int option \<Rightarrow> store \<Rightarrow> entity_index \<Rightarrow> entity_index" where
  "lower_floor config floor s ix =
     (case (pc_floorOverride config, floor, detectFloorBlock s) of
        (None, Some f, Some detected) \<Rightarrow> if detected < f then ix\<lparr>ix_floor := Some detected\<rparr> else ix
      | _ \<Rightarrow> ix)"

text \<open>The index it leaves, and the number of keys refolded or \<open>undefined\<close>.\<close>

definition refoldLateArrivals ::
  "(string \<Rightarrow> string) \<Rightarrow> projector_config \<Rightarrow> bool \<Rightarrow> int \<Rightarrow> int option \<Rightarrow> int \<Rightarrow> int option \<Rightarrow> stamps \<Rightarrow> store \<Rightarrow>
   entity_index \<Rightarrow> entity_index \<times> (index_error + nat option)" where
  "refoldLateArrivals keccak config free now watermark through floor stamp s ix =
     (case watermark of
        None \<Rightarrow> (ix\<lparr>ix_watermark := Some now\<rparr>, Inr (Some 0))
      | Some w \<Rightarrow>
          let keys = keysScannedSince (late_since config w) through stamp s in
          if keys = [] then (ix\<lparr>ix_watermark := Some now\<rparr>, Inr (Some 0))
          else case late_fold keccak config free keys through s ix of
              Inl e \<Rightarrow> (ix, Inl e)
            | Inr None \<Rightarrow> (ix, Inr None)
            | Inr (Some (ix', _, _)) \<Rightarrow>
                ((lower_floor config floor s ix')\<lparr>ix_watermark := Some now\<rparr>, Inr (Some (length keys))))"

section \<open>Where the fold starts\<close>

definition knownFromBlockZero :: "projector_config \<Rightarrow> int \<Rightarrow> store \<Rightarrow> entity_index \<Rightarrow> bool" where
  "knownFromBlockZero config floor s ix =
     (pc_floorOverride config = None \<and> floor > 0 \<and> map_option gi_status (ix_genesis ix) = Some GNone \<and>
      storedEveryBlockBelow floor s \<and> countKeylessCreatesBelow floor s = 0)"

definition detected_floor :: "projector_config \<Rightarrow> store \<Rightarrow> int option" where
  "detected_floor config s =
     (case pc_floorOverride config of Some f \<Rightarrow> Some f | None \<Rightarrow> detectFloorBlock s)"

text \<open>The start of a tick on an index without a floor; \<open>None\<close>: no keyed create is stored yet.\<close>

definition start_fold :: "projector_config \<Rightarrow> int \<Rightarrow> int \<Rightarrow> store \<Rightarrow> entity_index \<Rightarrow> entity_index option" where
  "start_fold config now head s ix =
     (let detected = detected_floor config s;
          floor = (if knownFromBlockZero config (case detected of Some d \<Rightarrow> d | None \<Rightarrow> head + 1) s ix
                   then Some 0 else detected) in
      map_option (\<lambda>f. ix\<lparr>ix_floor := Some f, ix_through := Some (f - 1), ix_watermark := Some now\<rparr>) floor)"

section \<open>A tick\<close>

text \<open>A chunk ends after the fold point and not beyond the head, so the loop comes to an end.\<close>

lemma chunk_groups_blocks: "(b, n) \<in> set (chunk_groups a h s) \<Longrightarrow> a < b \<and> b \<le> h"
  by (auto simp: chunk_groups_def Let_def keyed_rows_between_def dest!: in_set_takeD)

lemma plan_loop_block: "plan_loop maxOps tot rows = Some b \<Longrightarrow> \<exists>n. (b, n) \<in> set rows"
  by (induction maxOps tot rows rule: plan_loop.induct) (auto split: if_splits)

lemma planChunkEnd_bounds: "a < h \<Longrightarrow> a < planChunkEnd a h maxOps s \<and> planChunkEnd a h maxOps s \<le> h"
proof -
  assume ah: "a < h"
  let ?rows = "chunk_groups a h s"
  have "fst (last ?rows) > a \<and> fst (last ?rows) \<le> h" if "length ?rows = CHUNK_PLAN_BLOCKS"
  proof -
    have "?rows \<noteq> []" using that by (auto simp: CHUNK_PLAN_BLOCKS_def)
    then have "last ?rows \<in> set ?rows" by simp
    then show ?thesis using chunk_groups_blocks by (metis prod.collapse)
  qed
  then show ?thesis
    using ah plan_loop_block [of maxOps 0 ?rows] chunk_groups_blocks
    by (fastforce simp: planChunkEnd_def Let_def split: option.splits)
qed

record tick_result =
  tk_head :: "int option"
  tk_projectedThroughBlock :: "int option"
  tk_chunksFolded :: nat
  tk_entitiesRefolded :: nat
  tk_lateKeysRefolded :: nat
  tk_lockHeldElsewhere :: bool

text \<open>
  What the tick sees: the database clock; the host clock where the tick reads it (at the check of the
  late scan and after it, before the chunks, before each chunk, around the live count) and the text of
  its instants; whether each of its transactions finds the lock free; and whether the genesis stage
  reported a repair or an import that is done.
\<close>

record tick_world =
  tw_now :: int
  tw_lateCheckAt :: int
  tw_lateDoneAt :: int
  tw_startedAt :: int
  tw_clock :: "nat \<Rightarrow> int"
  tw_iso :: "nat \<Rightarrow> string"
  tw_late_lock :: bool
  tw_chunk_lock :: "nat \<Rightarrow> bool"
  tw_countCheckAt :: int
  tw_countedAt :: int
  tw_countMs :: int
  tw_genesis_changed :: bool

text \<open>What is committed stays when a later chunk throws.\<close>

function fold_loop ::
  "(string \<Rightarrow> string) \<Rightarrow> projector_config \<Rightarrow> tick_world \<Rightarrow> store \<Rightarrow> int \<Rightarrow> nat \<Rightarrow> int \<Rightarrow> tick_result \<Rightarrow> entity_index \<Rightarrow>
   entity_index \<times> (index_error + tick_result)" where
  "fold_loop keccak config env s head i through result ix =
     (if \<not> (through < head \<and> tw_clock env i - tw_startedAt env < pc_maxTickMs config) then (ix, Inr result)
      else
        let chunkEnd = planChunkEnd through head (pc_maxOpsPerChunk config) s;
            keys = keysTouchedBetween through chunkEnd s in
        case foldChunk keccak config (tw_chunk_lock env i) keys chunkEnd (tw_iso env i) s ix of
          Inl e \<Rightarrow> (ix, Inl e)
        | Inr None \<Rightarrow> (ix, Inr (result\<lparr>tk_lockHeldElsewhere := True\<rparr>))
        | Inr (Some (ix', entities, _)) \<Rightarrow>
            fold_loop keccak config env s head (i + 1) chunkEnd
              (result\<lparr>tk_chunksFolded := tk_chunksFolded result + 1,
                      tk_entitiesRefolded := tk_entitiesRefolded result + entities,
                      tk_projectedThroughBlock := Some chunkEnd\<rparr>) ix')"
  by auto
termination
proof (relation "measure (\<lambda>(keccak, config, env, s, head, i, through, result, ix). nat (head - through))")
  fix config :: projector_config and s through head chunkEnd and env :: tick_world and i
  assume "\<not> \<not> (through < head \<and> tw_clock env i - tw_startedAt env < pc_maxTickMs config)"
    and "chunkEnd = planChunkEnd through head (pc_maxOpsPerChunk config) s"
  then have "nat (head - chunkEnd) < nat (head - through)"
    using planChunkEnd_bounds [of through head "pc_maxOpsPerChunk config" s] by simp
  then show "((keccak, config, env, s, head, i + 1, chunkEnd, r', ix'), (keccak, config, env, s, head, i, through, r, ix))
      \<in> measure (\<lambda>(keccak, config, env, s, head, i, through, result, ix). nat (head - through))"
    for keccak r r' ix ix' by simp
qed simp

declare fold_loop.simps [simp del]

record projector_state =
  ps_lastLateScanAt :: int
  ps_lastLiveCountAt :: int
  ps_lastLiveCountMs :: int

definition live_count_due :: "projector_config \<Rightarrow> projector_state \<Rightarrow> int \<Rightarrow> bool \<Rightarrow> bool" where
  "live_count_due config st now changed =
     (if ps_lastLiveCountAt st \<noteq> 0
      then changed \<and> \<not> now - ps_lastLiveCountAt st <
             max (pc_liveCountIntervalMs config) (LIVE_COUNT_DUTY_FACTOR * ps_lastLiveCountMs st)
      else True)"

text \<open>The second stage of a tick: history below the floor may be complete now, then the late arrivals.\<close>

definition complete_floor :: "projector_config \<Rightarrow> store \<Rightarrow> entity_index \<Rightarrow> entity_index" where
  "complete_floor config s ix =
     (case ix_floor ix of
        Some f \<Rightarrow> if f > 0 \<and> knownFromBlockZero config f s ix then ix\<lparr>ix_floor := Some 0\<rparr> else ix
      | None \<Rightarrow> ix)"

definition late_stage ::
  "(string \<Rightarrow> string) \<Rightarrow> projector_config \<Rightarrow> tick_world \<Rightarrow> stamps \<Rightarrow> store \<Rightarrow> projector_state \<Rightarrow> int \<Rightarrow> entity_index \<Rightarrow>
   entity_index \<times> projector_state \<times> (index_error + nat option)" where
  "late_stage keccak config env stamp s st through ix =
     (if tw_lateCheckAt env - ps_lastLateScanAt st \<ge> pc_lateScanIntervalMs config then
        let ix1 = complete_floor config s ix;
            (ix2, outcome) = refoldLateArrivals keccak config (tw_late_lock env) (tw_now env) (ix_watermark ix1) through
              (ix_floor ix1) stamp s ix1 in
        (ix2, (case outcome of Inr (Some _) \<Rightarrow> st\<lparr>ps_lastLateScanAt := tw_lateDoneAt env\<rparr> | _ \<Rightarrow> st), outcome)
      else (ix, st, Inr (Some 0)))"

definition maybeRefreshLiveEntities ::
  "projector_config \<Rightarrow> tick_world \<Rightarrow> int \<Rightarrow> bool \<Rightarrow> projector_state \<Rightarrow> entity_index \<Rightarrow> entity_index \<times> projector_state" where
  "maybeRefreshLiveEntities config env through changed st ix =
     (if live_count_due config st (tw_countCheckAt env) changed
      then (refreshLiveEntities through ix,
            st\<lparr>ps_lastLiveCountAt := tw_countedAt env, ps_lastLiveCountMs := tw_countMs env\<rparr>)
      else (ix, st))"

text \<open>
  One tick once the genesis stage lets it go on (\<open>blocked\<close> and \<open>lockHeldElsewhere\<close> of its outcome are
  false).
\<close>

definition tick ::
  "(string \<Rightarrow> string) \<Rightarrow> projector_config \<Rightarrow> tick_world \<Rightarrow> stamps \<Rightarrow> store \<Rightarrow> projector_state \<Rightarrow> entity_index \<Rightarrow>
   entity_index \<times> projector_state \<times> (index_error + tick_result)" where
  "tick keccak config env stamp s st ix =
     (case getIndexedHead s of
        Inl e \<Rightarrow> (ix, st, Inl e)
      | Inr indexed \<Rightarrow>
          let result = \<lparr>tk_head = indexed, tk_projectedThroughBlock = ix_through ix, tk_chunksFolded = 0,
                        tk_entitiesRefolded = 0, tk_lateKeysRefolded = 0, tk_lockHeldElsewhere = False\<rparr> in
          case indexed of
            None \<Rightarrow> (ix, st, Inr result)
          | Some head \<Rightarrow>
              (case (if ix_floor ix = None then start_fold config (tw_now env) head s ix else Some ix) of
                 None \<Rightarrow> (ix, st, Inr result)
               | Some ix1 \<Rightarrow>
                   let through = (case (ix_through ix1, ix_floor ix1) of
                                    (Some t, _) \<Rightarrow> t | (None, Some f) \<Rightarrow> f - 1 | (None, None) \<Rightarrow> -1);
                       result1 = result\<lparr>tk_projectedThroughBlock := Some through\<rparr>;
                       (ix2, st2, late) = late_stage keccak config env stamp s st through ix1 in
                   (case late of
                      Inl e \<Rightarrow> (ix2, st2, Inl e)
                    | Inr None \<Rightarrow> (ix2, st2, Inr (result1\<lparr>tk_lockHeldElsewhere := True\<rparr>))
                    | Inr (Some lateKeys) \<Rightarrow>
                        let (ix3, folded) = fold_loop keccak config env s head 0 through
                              (result1\<lparr>tk_lateKeysRefolded := lateKeys\<rparr>) ix2 in
                        (case folded of
                           Inl e \<Rightarrow> (ix3, st2, Inl e)
                         | Inr result3 \<Rightarrow>
                             let (ix4, st4) = maybeRefreshLiveEntities config env
                                   (case tk_projectedThroughBlock result3 of Some t \<Rightarrow> t | None \<Rightarrow> through)
                                   (tk_chunksFolded result3 > 0 \<or> tk_lateKeysRefolded result3 > 0 \<or> tw_genesis_changed env)
                                   st2 ix3 in
                             (ix4, st4, Inr result3)))))"

end
