(* ===== verification/GenesisImport.thy ===== *)
theory GenesisImport
  imports EntityStore
begin

text \<open>
  The entities a chain was born with, as a node answers them at block 0 (src/src/entityGenesis.ts): the
  calls to the node with their retries, the version an answered entity becomes, and the walk over its
  pages. What the node answers is an argument; delays and log lines are left out.
\<close>

section \<open>The node\<close>

definition GENESIS_PAGE_SIZE :: nat where
  "GENESIS_PAGE_SIZE = 200"

definition JSON_RPC_CURSOR_EXPIRED :: int where
  "JSON_RPC_CURSOR_EXPIRED = - 32005"

definition MAX_GENESIS_POSITION :: int where
  "MAX_GENESIS_POSITION = 2 ^ 31 - 1"

definition DEFAULT_ATTEMPTS :: nat where
  "DEFAULT_ATTEMPTS = 5"

definition RETRYABLE_STATUS :: "int list" where
  "RETRYABLE_STATUS = [429, 502, 503, 504]"

datatype genesis_error =
    GenesisSourceUnavailable int
  | GenesisRpcError int
  | GenesisEntityError
  | TransportError

record genesis_page =
  gp_data :: "jsval list"
  gp_blockNumber :: string
  gp_cursor :: "string option"

record genesis_chain =
  gc_chainId :: int
  gc_genesisHash :: "string option"
  gc_stateRoot :: "string option"

text \<open>What one HTTP request gives: no answer, or a status and a body (\<open>None\<close> is malformed JSON).\<close>

datatype node_reply = Unreachable | Reply int "jsval option"

definition status_ok :: "int \<Rightarrow> bool" where
  "status_ok status \<longleftrightarrow> 200 \<le> status \<and> status \<le> 299"

definition rpc_body :: "int \<Rightarrow> jsval \<Rightarrow> genesis_error + jsval" where
  "rpc_body requestId body =
     (case obj_fields body of
        None \<Rightarrow> Inl TransportError
      | Some members \<Rightarrow>
          (case obj_fields (obj_get members ''error'') of
             Some err \<Rightarrow>
               let code = (case obj_get err ''code'' of JInt c \<Rightarrow> c | _ \<Rightarrow> 0) in
               if code = - 32006 \<or> code = - 32601 then Inl (GenesisSourceUnavailable code) else Inl (GenesisRpcError code)
           | None \<Rightarrow> if obj_get members ''id'' \<noteq> JInt requestId then Inl TransportError else Inr (obj_get members ''result'')))"

text \<open>
  \<open>call\<close>: the attempts of one call, the first being number \<open>attempt\<close>, with \<open>nextId\<close> the id of its
  request; the answers to come are \<open>replies\<close>. The id of the next call is returned with the result.
\<close>

function rpc_call :: "nat \<Rightarrow> (int \<Rightarrow> node_reply) \<Rightarrow> nat \<Rightarrow> int \<Rightarrow> (genesis_error + jsval) \<times> int" where
  "rpc_call attempts replies attempt nextId =
     (case replies nextId of
        Unreachable \<Rightarrow>
          if attempt \<ge> attempts then (Inl TransportError, nextId + 1)
          else rpc_call attempts replies (attempt + 1) (nextId + 1)
      | Reply status body \<Rightarrow>
          if status \<in> set RETRYABLE_STATUS \<and> attempt < attempts
          then rpc_call attempts replies (attempt + 1) (nextId + 1)
          else if \<not> status_ok status then (Inl TransportError, nextId + 1)
          else case body of
            None \<Rightarrow> (Inl TransportError, nextId + 1)
          | Some b \<Rightarrow> (rpc_body nextId b, nextId + 1))"
  by auto
termination by (relation "measure (\<lambda>(attempts, replies, attempt, nextId). attempts - attempt)") auto

declare rpc_call.simps [simp del]

definition isHexQuantity :: "jsval \<Rightarrow> bool" where
  "isHexQuantity value = (case value of JStr s \<Rightarrow> hex_literal s \<noteq> None | _ \<Rightarrow> False)"

definition quantity_of :: "jsval \<Rightarrow> int" where
  "quantity_of value = (case hex_literal (str_of value) of None \<Rightarrow> 0 | Some n \<Rightarrow> int n)"

definition lower_field :: "jsval \<Rightarrow> string \<Rightarrow> string option" where
  "lower_field block name =
     (case obj_fields block of None \<Rightarrow> None | Some members \<Rightarrow> map_option to_lower (opt_str (obj_get members name)))"

text \<open>\<open>describe\<close>, \<open>count\<close> and \<open>page\<close> of the source, on the results of their calls.\<close>

definition read_chain :: "jsval \<Rightarrow> jsval \<Rightarrow> genesis_error + genesis_chain" where
  "read_chain chainId block =
     (if \<not> isHexQuantity chainId then Inl TransportError
      else Inr \<lparr>gc_chainId = quantity_of chainId, gc_genesisHash = lower_field block ''hash'',
             gc_stateRoot = lower_field block ''stateRoot''\<rparr>)"

definition read_count :: "jsval \<Rightarrow> genesis_error + int" where
  "read_count answer =
     (case answer of
        JInt n \<Rightarrow> if n < 0 then Inl TransportError else Inr n
      | JStr s \<Rightarrow> if isHexQuantity answer then Inr (Number_of (quantity_of answer)) else Inl TransportError
      | _ \<Rightarrow> Inl TransportError)"

definition read_page :: "jsval \<Rightarrow> genesis_error + genesis_page" where
  "read_page answer =
     (case obj_fields answer of
        None \<Rightarrow> Inl GenesisEntityError
      | Some members \<Rightarrow>
          if \<not> isArray (obj_get members ''data'') \<or> \<not> isHexQuantity (obj_get members ''blockNumber'') then Inl GenesisEntityError
          else
            let cursor = obj_get members ''cursor'' in
            if cursor \<noteq> JUndef \<and> (\<not> isString cursor \<or> str_of cursor = []) then Inl GenesisEntityError
            else Inr \<lparr>gp_data = arr_of (obj_get members ''data''), gp_blockNumber = str_of (obj_get members ''blockNumber''),
                   gp_cursor = opt_str cursor\<rparr>)"

definition GENESIS_SELECT :: jsval where
  "GENESIS_SELECT =
     JObj (map (\<lambda>name. (name, JBool True))
       [''key'', ''owner'', ''creator'', ''createdAt'', ''updatedAt'', ''expiresAt'', ''creationFlags'', ''attributeSchema'',
        ''attributes''])"

definition page_params :: "string option \<Rightarrow> nat \<Rightarrow> jsval list" where
  "page_params cursor limit =
     [JStr ''*'', JObj ([(''atBlock'', JStr ''0x0''), (''select'', GENESIS_SELECT), (''limit'', JInt (int limit))] @
        (case cursor of None \<Rightarrow> [] | Some c \<Rightarrow> [(''cursor'', JStr c)]))]"

text \<open>
  The source: its three questions with their retries, the next request's id threaded through them. A node
  answers a method and its parameters, request by request.
\<close>

type_synonym node = "string \<Rightarrow> jsval list \<Rightarrow> int \<Rightarrow> node_reply"

definition source_describe :: "node \<Rightarrow> nat \<Rightarrow> int \<Rightarrow> (genesis_error + genesis_chain) \<times> int" where
  "source_describe node attempts nextId =
     (case rpc_call attempts (node ''eth_chainId'' []) 1 nextId of
        (Inl e, nextId) \<Rightarrow> (Inl e, nextId)
      | (Inr chainId, nextId) \<Rightarrow>
          if \<not> isHexQuantity chainId then (Inl TransportError, nextId)
          else let (block, nextId) = rpc_call attempts (node ''eth_getBlockByNumber'' [JStr ''0x0'', JBool False]) 1 nextId in
            (bind_result block (read_chain chainId), nextId))"

definition source_count :: "node \<Rightarrow> nat \<Rightarrow> int \<Rightarrow> (genesis_error + int) \<times> int" where
  "source_count node attempts nextId =
     (let (answer, nextId) = rpc_call attempts (node ''arkiv_getEntityCount'' [JObj [(''block'', JInt 0)]]) 1 nextId in
      (bind_result answer read_count, nextId))"

definition source_page :: "node \<Rightarrow> nat \<Rightarrow> int \<Rightarrow> string option \<Rightarrow> nat \<Rightarrow> (genesis_error + genesis_page) \<times> int" where
  "source_page node attempts nextId cursor limit =
     (let (answer, nextId) = rpc_call attempts (node ''arkiv_query'' (page_params cursor limit)) 1 nextId in
      (bind_result answer read_page, nextId))"

section \<open>Wire entity to version 0\<close>

definition genesis_check :: "bool \<Rightarrow> genesis_error + unit" where
  "genesis_check ok = (if ok then Inr () else Inl GenesisEntityError)"

definition is_hex_text :: "nat \<Rightarrow> jsval \<Rightarrow> bool" where
  "is_hex_text digits value = (case value of JStr s \<Rightarrow> isHexOfLength s digits | _ \<Rightarrow> False)"

definition genesis_flags :: "jsval \<Rightarrow> genesis_error + int option" where
  "genesis_flags flags =
     (if flags = JUndef \<or> flags = JNull then Inr None
      else case obj_fields flags of
        None \<Rightarrow> Inl GenesisEntityError
      | Some members \<Rightarrow>
          (case obj_get members ''raw'' of
             JInt raw \<Rightarrow> if raw < 0 \<or> raw > 255 then Inl GenesisEntityError else Inr (Some raw)
           | JNonInt raw \<Rightarrow> Inl GenesisEntityError
           | _ \<Rightarrow> Inr (Some ((if obj_get members ''readonly'' = JBool True then 1 else 0) +
                 (if obj_get members ''permissionlessExtension'' = JBool True then 2 else 0)))))"

definition schema_entry :: "jsval \<Rightarrow> (string, bool) jsmap \<Rightarrow> genesis_error + (string, bool) jsmap" where
  "schema_entry entry m =
     (case obj_fields entry of
        None \<Rightarrow> Inl GenesisEntityError
      | Some members \<Rightarrow>
          (case (obj_get members ''name'', obj_get members ''indexed'') of
             (JStr name, JBool indexed) \<Rightarrow> Inr (map_set name indexed m)
           | _ \<Rightarrow> Inl GenesisEntityError))"

definition genesis_schema :: "jsval \<Rightarrow> genesis_error + (string, bool) jsmap" where
  "genesis_schema schema =
     (if schema = JUndef \<or> schema = JNull then Inr []
      else case schema of JArr entries \<Rightarrow> fold_result schema_entry entries [] | _ \<Rightarrow> Inl GenesisEntityError)"

definition tag_of_name :: "string \<Rightarrow> attribute_type option" where
  "tag_of_name name = find (\<lambda>tag. tag_name tag = name) (map snd TYPE_TAGS_BY_ID)"

text \<open>One cell; the names of the cells before it are those of the attributes read so far.\<close>

definition genesis_cell ::
  "(string \<Rightarrow> string) \<Rightarrow> (string, bool) jsmap \<Rightarrow> jsval \<Rightarrow> stored_attribute list \<Rightarrow> genesis_error + stored_attribute list" where
  "genesis_cell keccak indexedByName cell attributes =
     (case obj_fields cell of
        None \<Rightarrow> Inl GenesisEntityError
      | Some members \<Rightarrow>
          (case (obj_get members ''name'', obj_get members ''type'') of
             (JStr name, JStr type) \<Rightarrow>
               if name = [] \<or> name \<in> set (map sa_name attributes) then Inl GenesisEntityError
               else (case (tag_of_name type, map_get indexedByName name) of
                 (Some tag, Some indexed) \<Rightarrow>
                   if indexed \<and> tag = TBytes then Inl GenesisEntityError
                   else (case fromWireAttributeValue keccak tag (obj_get members ''value'') of
                     None \<Rightarrow> Inl GenesisEntityError
                   | Some stored \<Rightarrow>
                       Inr (attributes @ [\<lparr>sa_name = name, sa_typeId = TYPE_IDS tag, sa_indexed = indexed, sa_value = stored\<rparr>]))
               | _ \<Rightarrow> Inl GenesisEntityError)
           | _ \<Rightarrow> Inl GenesisEntityError))"

definition genesis_attributes ::
  "(string \<Rightarrow> string) \<Rightarrow> (string, bool) jsmap \<Rightarrow> jsval \<Rightarrow> genesis_error + stored_attribute list" where
  "genesis_attributes keccak indexedByName cells =
     (case cells of
        JUndef \<Rightarrow> Inr []
      | JArr cs \<Rightarrow> bind_result (fold_result (genesis_cell keccak indexedByName) cs []) (\<lambda>attributes.
          Inr (js_sort compare_names attributes))
      | _ \<Rightarrow> Inl GenesisEntityError)"

definition genesisEntityToVersion :: "(string \<Rightarrow> string) \<Rightarrow> jsval \<Rightarrow> int \<Rightarrow> genesis_error + entity_version" where
  "genesisEntityToVersion keccak entity position =
     (case obj_fields entity of
        None \<Rightarrow> Inl GenesisEntityError
      | Some members \<Rightarrow>
          let key = obj_get members ''key''; owner = obj_get members ''owner''; creator = obj_get members ''creator'';
              createdAt = obj_get members ''createdAt''; updatedAt = obj_get members ''updatedAt'';
              expiresAt = obj_get members ''expiresAt'' in
          bind_result (genesis_check (is_hex_text 64 key)) (\<lambda>_.
          bind_result (genesis_check (0 \<le> position \<and> position \<le> MAX_GENESIS_POSITION)) (\<lambda>_.
          bind_result (genesis_check (isHexQuantity createdAt \<and> quantity_of createdAt = 0)) (\<lambda>_.
          bind_result (genesis_check (isHexQuantity updatedAt \<and> quantity_of updatedAt = 0)) (\<lambda>_.
          bind_result (genesis_check (isHexQuantity expiresAt \<and> 0 < quantity_of expiresAt \<and> quantity_of expiresAt \<le> U64_MAX)) (\<lambda>_.
          bind_result (genesis_flags (obj_get members ''creationFlags'')) (\<lambda>flags.
          bind_result (genesis_schema (obj_get members ''attributeSchema'')) (\<lambda>indexedByName.
          bind_result (genesis_attributes keccak indexedByName (obj_get members ''attributes'')) (\<lambda>attributes.
          bind_result (genesis_check (is_hex_text 40 owner)) (\<lambda>_.
          bind_result (genesis_check (is_hex_text 40 creator)) (\<lambda>_.
          Inr \<lparr>v_entityKey = to_lower (str_of key), v_version = 0, v_fromBlock = 0, v_fromPosition = position,
             v_fromOpIndex = 0, v_toBlock = None, v_deleted = False, v_owner = to_lower (str_of owner),
             v_creator = to_lower (str_of creator), v_createdAt = 0, v_createdPosition = position, v_createdOpIndex = 0,
             v_updatedAt = 0, v_expiresAt = quantity_of expiresAt, v_creationFlags = flags,
             v_bytesSize = fst (summarizeAttributes attributes), v_schemaName = snd (summarizeAttributes attributes),
             v_attributes = attributes\<rparr>)))))))))))"

section \<open>The walk\<close>

record walk_page =
  wp_versions :: "entity_version list"
  wp_cursor :: "string option"
  wp_imported :: int

text \<open>\<open>BigInt(page.blockNumber)\<close> of a page that \<open>read_page\<close> accepted.\<close>

definition page_block :: "genesis_page \<Rightarrow> int" where
  "page_block page = quantity_of (JStr (gp_blockNumber page))"

definition page_versions :: "(string \<Rightarrow> string) \<Rightarrow> int \<Rightarrow> jsval list \<Rightarrow> genesis_error + entity_version list" where
  "page_versions keccak imported data =
     map_result (\<lambda>(offset, entity). genesisEntityToVersion keccak entity (imported + int offset)) (enumerate 0 data)"

text \<open>One turn of the walk, after \<open>imported\<close> entities and with the cursor the page was asked for.\<close>

definition walk_turn ::
  "(string \<Rightarrow> string) \<Rightarrow> int \<Rightarrow> string option \<Rightarrow> int \<Rightarrow> genesis_error + genesis_page \<Rightarrow> genesis_error + walk_page" where
  "walk_turn keccak counted cursor imported answer =
     bind_result answer (\<lambda>page.
     bind_result (genesis_check (page_block page = 0)) (\<lambda>_.
     bind_result (genesis_check (\<not> (gp_cursor page \<noteq> None \<and> gp_cursor page = cursor))) (\<lambda>_.
     bind_result (genesis_check (\<not> (gp_cursor page \<noteq> None \<and> gp_data page = []))) (\<lambda>_.
     bind_result (genesis_check (\<not> imported + int (length (gp_data page)) > counted)) (\<lambda>_.
     bind_result (page_versions keccak imported (gp_data page)) (\<lambda>versions.
     Inr \<lparr>wp_versions = versions, wp_cursor = gp_cursor page, wp_imported = imported + int (length versions)\<rparr>))))))"

definition walk_begins :: "int \<Rightarrow> int \<Rightarrow> genesis_error + unit" where
  "walk_begins counted imported =
     bind_result (genesis_check (\<not> counted > MAX_GENESIS_POSITION)) (\<lambda>_. genesis_check (\<not> imported > counted))"

end
