(* ===== verification/GenesisStage.thy ===== *)
theory GenesisStage
  imports Projector GenesisImport
begin

text \<open>
  The genesis stage of a projector's tick (src/src/entityProjector.ts): the probe that asks the node once,
  the walk that pages the genesis entities in and commits them a batch at a time, its restart and failure,
  and the repair that refolds the genesis entities with operations. Each transaction is a function on
  the index, guarded by the import's row as it is then; between two of them other backends may commit,
  which is an argument. The progress file and log lines are left out, and so are message texts.
\<close>

definition DEFAULT_GENESIS_RPC_LIMIT :: int where
  "DEFAULT_GENESIS_RPC_LIMIT = 1000000"

definition DEFAULT_GENESIS_BATCH_ENTITIES :: nat where
  "DEFAULT_GENESIS_BATCH_ENTITIES = 5000"

definition DEFAULT_GENESIS_PROBE_RETRY_MS :: int where
  "DEFAULT_GENESIS_PROBE_RETRY_MS = 60000"

definition GENESIS_CURSOR_RESTART_LIMIT :: nat where
  "GENESIS_CURSOR_RESTART_LIMIT = 3"

datatype genesis_mode = GenesisAuto | GenesisOff | GenesisManaged

record genesis_config =
  gn_hasSource :: bool
  gn_mode :: genesis_mode
  gn_rpcLimit :: int
  gn_batchEntities :: nat
  gn_pageSize :: nat
  gn_probeRetryMs :: int

definition default_genesis :: genesis_config where
  "default_genesis =
     \<lparr>gn_hasSource = True, gn_mode = GenesisAuto, gn_rpcLimit = DEFAULT_GENESIS_RPC_LIMIT,
      gn_batchEntities = DEFAULT_GENESIS_BATCH_ENTITIES, gn_pageSize = GENESIS_PAGE_SIZE,
      gn_probeRetryMs = DEFAULT_GENESIS_PROBE_RETRY_MS\<rparr>"

record stage_outcome =
  so_status :: "genesis_status option"
  so_imported :: nat
  so_repaired :: nat
  so_blocked :: bool
  so_lockHeldElsewhere :: bool

definition GENESIS_IDLE :: stage_outcome where
  "GENESIS_IDLE = \<lparr>so_status = None, so_imported = 0, so_repaired = 0, so_blocked = False, so_lockHeldElsewhere = False\<rparr>"

definition stage_blocked :: stage_outcome where
  "stage_blocked = GENESIS_IDLE\<lparr>so_status := Some GRunning, so_blocked := True\<rparr>"

text \<open>
  What the stage of one tick sees: the node's answers (\<open>ge_page k\<close> is the \<open>k\<close>-th page it asks for); whether
  its \<open>k\<close>-th transaction finds the lock free and what other backends have made of the index by then; whether
  its time is up, or the projector was told to stop, after its \<open>k\<close>-th page or batch; and the clocks.
\<close>

record stage_world =
  ge_describe :: "genesis_error + genesis_chain"
  ge_count :: "genesis_error + int"
  ge_page :: "nat \<Rightarrow> string option \<Rightarrow> genesis_error + genesis_page"
  ge_lock :: "nat \<Rightarrow> bool"
  ge_others :: "nat \<Rightarrow> entity_index \<Rightarrow> entity_index"
  ge_outOfTime :: "nat \<Rightarrow> bool"
  ge_stopped :: "nat \<Rightarrow> bool"
  ge_clock :: int
  ge_now :: int
  ge_iso :: string

text \<open>What the projector keeps between ticks: the last probe and the restarts in a row.\<close>

record stage_memory =
  sm_lastProbeAt :: int
  sm_cursorRestarts :: nat

section \<open>Transactions\<close>

definition record_probe :: "genesis_import \<Rightarrow> entity_index \<Rightarrow> entity_index option" where
  "record_probe next ix = (if ix_genesis ix \<noteq> None then None else Some (ix\<lparr>ix_genesis := Some next\<rparr>))"

definition walking :: "genesis_import \<Rightarrow> bool" where
  "walking g \<longleftrightarrow> gi_status g = GRunning \<and> gi_phase g = Some Walk \<and> gi_source g = Some FromRpc"

text \<open>A batch of the walk, if the row still says what the walk last wrote; \<open>None\<close>: it moved.\<close>

definition commit_walk ::
  "string option \<times> int \<Rightarrow> entity_version list \<Rightarrow> string option \<Rightarrow> int \<Rightarrow> bool \<Rightarrow> entity_index \<Rightarrow> entity_index option" where
  "commit_walk seen rows cursor imported finished ix =
     (case ix_genesis ix of
        None \<Rightarrow> None
      | Some recorded \<Rightarrow>
          if \<not> walking recorded \<or> gi_imported recorded \<noteq> snd seen \<or> gi_cursor recorded \<noteq> fst seen then None
          else Some ((insertGenesisVersions rows ix)\<lparr>ix_genesis := Some
            (recorded\<lparr>gi_imported := imported, gi_cursor := cursor,
                     gi_phase := (if finished then Some Repair else gi_phase recorded)\<rparr>)\<rparr>))"

definition restart_walk :: "entity_index \<Rightarrow> entity_index" where
  "restart_walk ix =
     (case ix_genesis ix of
        None \<Rightarrow> ix
      | Some recorded \<Rightarrow>
          if \<not> walking recorded then ix else ix\<lparr>ix_genesis := Some (recorded\<lparr>gi_cursor := None, gi_imported := 0\<rparr>)\<rparr>)"

definition fail_import :: "string \<Rightarrow> entity_index \<Rightarrow> entity_index" where
  "fail_import atIso ix =
     (case ix_genesis ix of
        None \<Rightarrow> ix
      | Some recorded \<Rightarrow>
          if gi_status recorded \<noteq> GRunning then ix
          else ix\<lparr>ix_genesis := Some (recorded\<lparr>gi_status := GFailed, gi_phase := None, gi_finishedAt := Some atIso, gi_error := Some []\<rparr>)\<rparr>)"

definition repairing :: "genesis_import \<Rightarrow> genesis_import \<Rightarrow> bool" where
  "repairing state recorded \<longleftrightarrow>
     gi_status recorded = GRunning \<and> gi_phase recorded = Some Repair \<and> gi_startedAt recorded = gi_startedAt state \<and>
     gi_importId recorded = gi_importId state"

text \<open>The floor set to block 0; the first fold point and watermark if there is none yet.\<close>

definition set_floor :: "genesis_import \<Rightarrow> int \<Rightarrow> entity_index \<Rightarrow> entity_index option" where
  "set_floor state now ix =
     (case ix_genesis ix of
        None \<Rightarrow> None
      | Some recorded \<Rightarrow>
          if \<not> repairing state recorded then None
          else if ix_floor ix = Some 0 then Some ix
          else Some (ix\<lparr>ix_floor := Some 0,
                 ix_through := (case ix_through ix of None \<Rightarrow> Some 0 | Some t \<Rightarrow> Some t),
                 ix_watermark := (case ix_watermark ix of None \<Rightarrow> Some now | Some w \<Rightarrow> Some w)\<rparr>))"

definition finish_import :: "string \<Rightarrow> genesis_import \<Rightarrow> genesis_import" where
  "finish_import atIso g = g\<lparr>gi_status := GDone, gi_phase := None, gi_repairAfterKey := None, gi_finishedAt := Some atIso\<rparr>"

text \<open>One batch of the repair; \<open>Inr None\<close>: the row moved.\<close>

definition repair_batch ::
  "(string \<Rightarrow> string) \<Rightarrow> projector_config \<Rightarrow> genesis_import \<Rightarrow> string option \<Rightarrow> string list \<Rightarrow> int \<Rightarrow> bool \<Rightarrow> string \<Rightarrow> store \<Rightarrow>
   entity_index \<Rightarrow> index_error + entity_index option" where
  "repair_batch keccak config state expectedAfter keys through finished atIso s ix =
     (case ix_genesis ix of
        None \<Rightarrow> Inr None
      | Some recorded \<Rightarrow>
          if \<not> repairing state recorded \<or> gi_repairAfterKey recorded \<noteq> expectedAfter then Inr None
          else bind_result
            (if keys = [] then Inr ix
             else bind_result (refoldEntities keccak (pc_foldKeyBatch config) keys through s ix) (\<lambda>(ix', _, _). Inr ix'))
            (\<lambda>ix'. Inr (Some (ix'\<lparr>ix_genesis := Some
               (if finished then finish_import atIso recorded
                else recorded\<lparr>gi_repairAfterKey := Some (last keys)\<rparr>)\<rparr>))))"

section \<open>The repair\<close>

definition keyed_lower :: "store \<Rightarrow> string set" where
  "keyed_lower s = set (map to_lower (List.map_filter (\<lambda>r. o_entityKey (or_operation r)) (st_operations s)))"

definition resume_key :: "string option \<Rightarrow> string" where
  "resume_key afterKey = (case afterKey of None \<Rightarrow> [] | Some a \<Rightarrow> a)"

lemma genesis_keys_after:
  assumes "x \<in> set (genesisKeysWithOperations through afterKey limit s ix)"
  shows "resume_key afterKey < x" "x \<in> keyed_lower s"
proof -
  have "x \<in> set (filter (\<lambda>k. k > (case afterKey of None \<Rightarrow> [] | Some a \<Rightarrow> a) \<and>
         list_ex (\<lambda>r. row_key r = k \<and> is_genesis_row r) (ix_versions ix))
       (map to_lower (List.map_filter (\<lambda>r. o_entityKey (or_operation r))
         (filter (\<lambda>r. or_blockNumber r \<le> through) (st_operations s)))))"
    using assms unfolding genesisKeysWithOperations_def by (drule_tac in_set_takeD) (simp only: set_sort set_remdups)
  then have x: "resume_key afterKey < x" "x \<in> to_lower ` set (List.map_filter (\<lambda>r. o_entityKey (or_operation r))
         (filter (\<lambda>r. or_blockNumber r \<le> through) (st_operations s)))"
    by (simp_all add: resume_key_def)
  show "resume_key afterKey < x" by (rule x(1))
  have "set (List.map_filter (\<lambda>r. o_entityKey (or_operation r)) (filter P xs)) \<subseteq>
      set (List.map_filter (\<lambda>r. o_entityKey (or_operation r)) xs)" for P xs
    by (auto simp: map_filter_def)
  then show "x \<in> keyed_lower s" using x(2) by (auto simp: keyed_lower_def)
qed

lemma repair_measure:
  assumes "genesisKeysWithOperations through afterKey limit s ix \<noteq> []"
  shows "card {x \<in> keyed_lower s. resume_key (Some (last (genesisKeysWithOperations through afterKey limit s ix))) < x}
    < card {x \<in> keyed_lower s. resume_key afterKey < x}"
proof -
  let ?k = "last (genesisKeysWithOperations through afterKey limit s ix)"
  have k: "resume_key afterKey < ?k" "?k \<in> keyed_lower s" using genesis_keys_after [OF last_in_set [OF assms]] by blast+
  then have "{x \<in> keyed_lower s. ?k < x} \<subset> {x \<in> keyed_lower s. resume_key afterKey < x}" by auto
  moreover have "finite (keyed_lower s)" by (simp add: keyed_lower_def)
  ultimately have "card {x \<in> keyed_lower s. ?k < x} < card {x \<in> keyed_lower s. resume_key afterKey < x}"
    by (simp add: psubset_card_mono)
  then show ?thesis by (simp add: resume_key_def)
qed

function repair_loop ::
  "(string \<Rightarrow> string) \<Rightarrow> projector_config \<Rightarrow> genesis_config \<Rightarrow> stage_world \<Rightarrow> store \<Rightarrow> genesis_import \<Rightarrow> int \<Rightarrow> nat \<Rightarrow>
   string option \<Rightarrow> nat \<Rightarrow> entity_index \<Rightarrow> entity_index \<times> (index_error + stage_outcome)" where
  "repair_loop keccak config gn env s state through k afterKey repaired ix =
     (let keys = genesisKeysWithOperations through afterKey (gn_batchEntities gn) s ix;
          finished = length keys < gn_batchEntities gn;
          ix1 = ge_others env k ix in
      if \<not> ge_lock env k then (ix1, Inr (stage_blocked\<lparr>so_repaired := repaired, so_lockHeldElsewhere := True\<rparr>))
      else case repair_batch keccak config state afterKey keys through finished (ge_iso env) s ix1 of
        Inl e \<Rightarrow> (ix1, Inl e)
      | Inr None \<Rightarrow> (ix1, Inr (stage_blocked\<lparr>so_repaired := repaired\<rparr>))
      | Inr (Some ix2) \<Rightarrow>
          if finished then (ix2, Inr (GENESIS_IDLE\<lparr>so_status := Some GDone, so_repaired := repaired + length keys\<rparr>))
          else if keys = [] \<or> ge_stopped env k \<or> ge_outOfTime env k
          then (ix2, Inr (stage_blocked\<lparr>so_repaired := repaired + length keys\<rparr>))
          else repair_loop keccak config gn env s state through (k + 1) (Some (last keys)) (repaired + length keys) ix2)"
  by auto
termination
  by (relation "measure (\<lambda>(keccak, config, gn, env, s, state, through, k, afterKey, repaired, ix).
        card {x \<in> keyed_lower s. resume_key afterKey < x})") (simp, simp add: repair_measure)

declare repair_loop.simps [simp del]

definition repairGenesis ::
  "(string \<Rightarrow> string) \<Rightarrow> projector_config \<Rightarrow> genesis_config \<Rightarrow> stage_world \<Rightarrow> store \<Rightarrow> genesis_import \<Rightarrow> nat \<Rightarrow> entity_index \<Rightarrow>
   entity_index \<times> (index_error + stage_outcome)" where
  "repairGenesis keccak config gn env s state k ix =
     (let ix1 = ge_others env k ix in
      if \<not> ge_lock env k then (ix1, Inr (stage_blocked\<lparr>so_lockHeldElsewhere := True\<rparr>))
      else case set_floor state (ge_now env) ix1 of
        None \<Rightarrow> (ix1, Inr stage_blocked)
      | Some ix2 \<Rightarrow>
          repair_loop keccak config gn env s state (case ix_through ix2 of None \<Rightarrow> 0 | Some t \<Rightarrow> t) (k + 1)
            (gi_repairAfterKey state) 0 ix2)"

section \<open>The walk\<close>

text \<open>The errors that end an import, and the one that only ends an attempt.\<close>

definition walk_failed ::
  "stage_world \<Rightarrow> genesis_error \<Rightarrow> nat \<Rightarrow> nat \<Rightarrow> nat \<Rightarrow> entity_index \<Rightarrow>
   entity_index \<times> nat \<times> (index_error + stage_outcome) option" where
  "walk_failed env e k importedNow restarts ix =
     (let ix1 = ge_others env k ix;
          fails = (if ge_lock env k then fail_import (ge_iso env) ix1 else ix1, 0 :: nat,
                   Some (Inr (GENESIS_IDLE\<lparr>so_status := Some GFailed, so_imported := importedNow\<rparr>))) in
      case e of
        TransportError \<Rightarrow> (ix, restarts, None)
      | GenesisRpcError code \<Rightarrow>
          if code = JSON_RPC_CURSOR_EXPIRED
          then if restarts + 1 > GENESIS_CURSOR_RESTART_LIMIT then fails
               else (if ge_lock env k then restart_walk ix1 else ix1, restarts + 1,
                     Some (Inr (stage_blocked\<lparr>so_imported := importedNow\<rparr>)))
          else (fst fails, restarts, snd (snd fails))
      | _ \<Rightarrow> (fst fails, restarts, snd (snd fails)))"

lemma walk_turn_grows:
  assumes "walk_turn keccak counted cursor imported answer = Inr page"
  shows "wp_imported page \<le> counted" "imported \<le> wp_imported page" "wp_cursor page \<noteq> None \<Longrightarrow> imported < wp_imported page"
  using assms map_result_length
  by (auto simp: walk_turn_def genesis_check_def bind_result_eq_Inr page_versions_def split: if_splits dest!: map_result_length)

text \<open>
  The pages from \<open>cursor\<close> on, \<open>imported\<close> entities in; \<open>pending\<close> are the versions since the last commit and
  \<open>expected\<close> is what the row said then. The page counter also numbers the commits.
\<close>

function walk_loop ::
  "(string \<Rightarrow> string) \<Rightarrow> projector_config \<Rightarrow> genesis_config \<Rightarrow> stage_world \<Rightarrow> store \<Rightarrow> int \<Rightarrow> nat \<Rightarrow> string option \<Rightarrow> int \<Rightarrow>
   entity_version list \<Rightarrow> string option \<times> int \<Rightarrow> nat \<Rightarrow> nat \<Rightarrow> entity_index \<Rightarrow>
   entity_index \<times> nat \<times> (index_error + stage_outcome) option" where
  "walk_loop keccak config gn env s counted k cursor imported pending expected importedNow restarts ix =
     (case walk_turn keccak counted cursor imported (ge_page env k cursor) of
        Inl e \<Rightarrow> walk_failed env e k importedNow restarts ix
      | Inr page \<Rightarrow>
          let restarts' = (if cursor \<noteq> None then 0 else restarts);
              rows = pending @ wp_versions page;
              lastPage = (wp_cursor page = None) in
          if lastPage \<and> wp_imported page \<noteq> counted then walk_failed env GenesisEntityError k importedNow restarts' ix
          else if length rows < gn_batchEntities gn \<and> \<not> lastPage \<and> \<not> ge_outOfTime env k
          then walk_loop keccak config gn env s counted (k + 1) (wp_cursor page) (wp_imported page) rows expected importedNow
                 restarts' ix
          else
            let ix1 = ge_others env k ix in
            if \<not> ge_lock env k
            then (ix1, restarts', Some (Inr (stage_blocked\<lparr>so_imported := importedNow, so_lockHeldElsewhere := True\<rparr>)))
            else case commit_walk expected rows (wp_cursor page) (wp_imported page) lastPage ix1 of
              None \<Rightarrow> (ix1, restarts', Some (Inr (stage_blocked\<lparr>so_imported := importedNow\<rparr>)))
            | Some ix2 \<Rightarrow>
                let importedNow' = importedNow + length rows in
                if lastPage then
                  (case ix_genesis ix2 of
                     None \<Rightarrow> (ix2, restarts', Some (Inr (stage_blocked\<lparr>so_imported := importedNow'\<rparr>)))
                   | Some handed \<Rightarrow>
                       let (ix3, outcome) = repairGenesis keccak config gn env s handed (k + 1) ix2 in
                       (ix3, restarts', Some (bind_result outcome (\<lambda>o1. Inr (o1\<lparr>so_imported := importedNow'\<rparr>)))))
                else if ge_outOfTime env k \<or> ge_stopped env k
                then (ix2, restarts', Some (Inr (stage_blocked\<lparr>so_imported := importedNow'\<rparr>)))
                else walk_loop keccak config gn env s counted (k + 1) (wp_cursor page) (wp_imported page) []
                       (wp_cursor page, wp_imported page) importedNow' restarts' ix2)"
  by auto
termination
  by (relation "measure (\<lambda>(keccak, config, gn, env, s, counted, k, cursor, imported, pending, expected, importedNow, restarts, ix).
        nat (counted - imported))")
     (use walk_turn_grows in \<open>fastforce+\<close>)

declare walk_loop.simps [simp del]

text \<open>\<open>None\<close> as the outcome is an exception that is reported: the next tick resumes from the row.\<close>

definition walkGenesis ::
  "(string \<Rightarrow> string) \<Rightarrow> projector_config \<Rightarrow> genesis_config \<Rightarrow> stage_world \<Rightarrow> store \<Rightarrow> genesis_import \<Rightarrow> nat \<Rightarrow> entity_index \<Rightarrow>
   entity_index \<times> nat \<times> (index_error + stage_outcome) option" where
  "walkGenesis keccak config gn env s state restarts ix =
     (if gi_source state \<noteq> Some FromRpc then (ix, restarts, Some (Inr stage_blocked))
      else if \<not> gn_hasSource gn then (ix, restarts, Some (Inr stage_blocked))
      else case walk_begins (gi_total state) (gi_imported state) of
        Inl e \<Rightarrow> walk_failed env e 1 0 restarts ix
      | Inr _ \<Rightarrow>
          walk_loop keccak config gn env s (gi_total state) 1 (gi_cursor state) (gi_imported state) []
            (gi_cursor state, gi_imported state) 0 restarts ix)"

section \<open>The probe\<close>

definition getScannerChainId :: "store \<Rightarrow> index_error + int option" where
  "getScannerChainId s =
     (case getStateValue ''chain_id'' s of
        None \<Rightarrow> Inr None
      | Some v \<Rightarrow> if v = [] then Inr None
          else (case BigInt_of v of Some i \<Rightarrow> Inr (Some i) | None \<Rightarrow> Inl (StateNotANumber v)))"

definition getStoredBlockHash :: "int \<Rightarrow> store \<Rightarrow> string option" where
  "getStoredBlockHash n s =
     (case Option.bind (map_get (st_blocks s) n) sb_blockHash of
        None \<Rightarrow> None | Some h \<Rightarrow> if h = [] then None else Some (to_lower h))"

definition blank_import :: "string \<Rightarrow> genesis_import" where
  "blank_import atIso =
     \<lparr>gi_importId = None, gi_status = GNone, gi_phase = None, gi_source = None, gi_chainId = None, gi_genesisHash = None,
      gi_total = 0, gi_imported = 0, gi_cursor = None, gi_repairAfterKey = None, gi_startedAt = atIso, gi_finishedAt = None,
      gi_error = None\<rparr>"

definition probe_failed :: "string \<Rightarrow> genesis_import \<Rightarrow> genesis_import" where
  "probe_failed atIso g = g\<lparr>gi_status := GFailed, gi_finishedAt := Some atIso, gi_error := Some []\<rparr>"

definition probe_counted :: "genesis_config \<Rightarrow> string \<Rightarrow> genesis_import \<Rightarrow> int \<Rightarrow> genesis_import" where
  "probe_counted gn atIso known counted =
     (if counted = 0 then known\<lparr>gi_status := GNone, gi_finishedAt := Some atIso\<rparr>
      else if counted > MAX_GENESIS_POSITION then probe_failed atIso (known\<lparr>gi_total := counted\<rparr>)
      else if counted > gn_rpcLimit gn then known\<lparr>gi_total := counted, gi_status := GWaiting\<rparr>
      else known\<lparr>gi_total := counted, gi_status := GRunning, gi_phase := Some Walk, gi_source := Some FromRpc\<rparr>)"

text \<open>The state a probe would record; \<open>None\<close>: the node, or the database, could not be reached.\<close>

definition probe_next :: "genesis_config \<Rightarrow> stage_world \<Rightarrow> store \<Rightarrow> genesis_import option" where
  "probe_next gn env s =
     (let unavailable = Some ((blank_import (ge_iso env))
            \<lparr>gi_status := GUnavailable, gi_finishedAt := Some (ge_iso env), gi_error := Some []\<rparr>) in
      case ge_describe env of
        Inl (GenesisSourceUnavailable _) \<Rightarrow> unavailable
      | Inl _ \<Rightarrow> None
      | Inr chain \<Rightarrow>
          let known = (blank_import (ge_iso env))\<lparr>gi_chainId := Some (int_to_dec (gc_chainId chain)), gi_genesisHash := gc_genesisHash chain\<rparr> in
          (case getScannerChainId s of
             Inl _ \<Rightarrow> None
           | Inr indexedChainId \<Rightarrow>
               if indexedChainId \<noteq> None \<and> indexedChainId \<noteq> Some (gc_chainId chain) then Some (probe_failed (ge_iso env) known)
               else if getStoredBlockHash 0 s \<noteq> None \<and> gc_genesisHash chain \<noteq> None \<and> getStoredBlockHash 0 s \<noteq> gc_genesisHash chain
               then Some (probe_failed (ge_iso env) known)
               else (case ge_count env of
                   Inl (GenesisSourceUnavailable _) \<Rightarrow> unavailable
                 | Inl _ \<Rightarrow> None
                 | Inr counted \<Rightarrow> Some (probe_counted gn (ge_iso env) known counted))))"

definition probe_skipped :: "projector_config \<Rightarrow> genesis_config \<Rightarrow> stage_world \<Rightarrow> stage_memory \<Rightarrow> bool" where
  "probe_skipped config gn env mem \<longleftrightarrow>
     \<not> gn_hasSource gn \<or> gn_mode gn \<noteq> GenesisAuto \<or>
     (case pc_floorOverride config of Some f \<Rightarrow> f > 0 | None \<Rightarrow> False) \<or>
     (sm_lastProbeAt mem \<noteq> 0 \<and> ge_clock env - sm_lastProbeAt mem < gn_probeRetryMs gn)"

definition probeGenesis ::
  "(string \<Rightarrow> string) \<Rightarrow> projector_config \<Rightarrow> genesis_config \<Rightarrow> stage_world \<Rightarrow> store \<Rightarrow> stage_memory \<Rightarrow> entity_index \<Rightarrow>
   entity_index \<times> stage_memory \<times> (index_error + stage_outcome) option" where
  "probeGenesis keccak config gn env s mem ix =
     (if probe_skipped config gn env mem then (ix, mem, Some (Inr GENESIS_IDLE))
      else case probe_next gn env s of
        None \<Rightarrow> (ix, mem\<lparr>sm_lastProbeAt := ge_clock env\<rparr>, Some (Inr GENESIS_IDLE))
      | Some next \<Rightarrow>
          let ix1 = ge_others env 0 ix in
          if \<not> ge_lock env 0 then (ix1, mem, Some (Inr (GENESIS_IDLE\<lparr>so_lockHeldElsewhere := True\<rparr>)))
          else case record_probe next ix1 of
            None \<Rightarrow> (ix1, mem, Some (Inr (GENESIS_IDLE\<lparr>so_blocked := True\<rparr>)))
          | Some ix2 \<Rightarrow>
              if gi_status next \<noteq> GRunning then (ix2, mem, Some (Inr (GENESIS_IDLE\<lparr>so_status := Some (gi_status next)\<rparr>)))
              else
                let (ix3, restarts, outcome) = walkGenesis keccak config gn env s next (sm_cursorRestarts mem) ix2 in
                (ix3, mem\<lparr>sm_cursorRestarts := restarts\<rparr>, outcome))"

section \<open>The stage\<close>

definition runGenesisStage ::
  "(string \<Rightarrow> string) \<Rightarrow> projector_config \<Rightarrow> genesis_config \<Rightarrow> stage_world \<Rightarrow> store \<Rightarrow> stage_memory \<Rightarrow> entity_index \<Rightarrow>
   entity_index \<times> stage_memory \<times> (index_error + stage_outcome) option" where
  "runGenesisStage keccak config gn env s mem ix =
     (case ix_genesis ix of
        None \<Rightarrow>
          if gn_mode gn = GenesisManaged then (ix, mem, Some (Inr (GENESIS_IDLE\<lparr>so_blocked := True\<rparr>)))
          else probeGenesis keccak config gn env s mem ix
      | Some state \<Rightarrow>
          if gi_status state \<noteq> GRunning
          then (ix, mem, Some (Inr (GENESIS_IDLE\<lparr>so_status := Some (gi_status state),
                  so_blocked := (gi_status state \<noteq> GDone \<and>
                    (gn_mode gn = GenesisManaged \<or> gi_status state \<in> {GWaiting, GFailed, GUnavailable}))\<rparr>)))
          else if gi_phase state = Some Repair
          then let (ix', outcome) = repairGenesis keccak config gn env s state 0 ix in (ix', mem, Some outcome)
          else
            let (ix', restarts, outcome) = walkGenesis keccak config gn env s state (sm_cursorRestarts mem) ix in
            (ix', mem\<lparr>sm_cursorRestarts := restarts\<rparr>, outcome))"

section \<open>A whole tick\<close>

record whole_tick_result =
  wt_genesisStatus :: "genesis_status option"
  wt_genesisEntitiesImported :: nat
  wt_genesisKeysRepaired :: nat
  wt_tick :: tick_result

definition whole_tick_of :: "stage_outcome \<Rightarrow> tick_result \<Rightarrow> whole_tick_result" where
  "whole_tick_of genesis r =
     \<lparr>wt_genesisStatus = so_status genesis, wt_genesisEntitiesImported = so_imported genesis,
      wt_genesisKeysRepaired = so_repaired genesis, wt_tick = r\<rparr>"

text \<open>The genesis stage, then the fold unless the import owns the index; \<open>None\<close> is a reported exception of the stage.\<close>

definition whole_tick ::
  "(string \<Rightarrow> string) \<Rightarrow> projector_config \<Rightarrow> genesis_config \<Rightarrow> stage_world \<Rightarrow> tick_world \<Rightarrow> stamps \<Rightarrow> store \<Rightarrow>
   stage_memory \<Rightarrow> projector_state \<Rightarrow> entity_index \<Rightarrow>
   entity_index \<times> stage_memory \<times> projector_state \<times> (index_error + whole_tick_result) option" where
  "whole_tick keccak config gn genv env stamp s mem st ix =
     (case getIndexedHead s of
        Inl e \<Rightarrow> (ix, mem, st, Some (Inl e))
      | Inr head \<Rightarrow>
          let (ix1, mem1, stage) = runGenesisStage keccak config gn genv s mem ix in
          (case stage of
             None \<Rightarrow> (ix1, mem1, st, None)
           | Some (Inl e) \<Rightarrow> (ix1, mem1, st, Some (Inl e))
           | Some (Inr genesis) \<Rightarrow>
               let r = \<lparr>tk_head = head, tk_projectedThroughBlock = ix_through ix1, tk_chunksFolded = 0,
                        tk_entitiesRefolded = 0, tk_lateKeysRefolded = 0, tk_lockHeldElsewhere = so_lockHeldElsewhere genesis\<rparr> in
               if so_lockHeldElsewhere genesis \<or> so_blocked genesis \<or> head = None
               then (ix1, mem1, st, Some (Inr (whole_tick_of genesis r)))
               else
                 let env1 = env\<lparr>tw_genesis_changed := so_repaired genesis > 0 \<or> so_status genesis = Some GDone\<rparr>;
                     (ix2, st2, folded) = tick keccak config env1 stamp s st ix1 in
                 (ix2, mem1, st2, Some (bind_result folded (\<lambda>t. Inr (whole_tick_of genesis t))))))"

end
