(* ===== verification/Projection.thy ===== *)
theory Projection
  imports GenesisStage
begin

text \<open>
  The projector beside the scanner: every transaction either of them commits as one step, in any order
  that the code allows. The genesis import (src/src/entityProjector.ts) is part of it: \<open>gs\<close> are the
  versions of the entities the node answers for block 0, in its order.
\<close>

text \<open>
  What one backend's projector holds between its transactions: the keys of a planned chunk, those of a
  late scan with the instant it will record, or those of a batch of the genesis repair.
\<close>

datatype pending =
    Idle
  | Planned "string list" int int         \<comment> \<open>keys, fold point they were planned after, chunk end\<close>
  | Scanned "string list" int int         \<comment> \<open>keys, fold point, instant of the scan\<close>
  | Marking int                           \<comment> \<open>the late keys are refolded; the instant is not recorded yet\<close>
  | Repairing "string list" "string option" int bool  \<comment> \<open>keys, the key they come after, fold point, whether they are the last\<close>

record projection =
  pw_store :: store
  pw_stamp :: stamps
  pw_clock :: int
  pw_index :: entity_index
  pw_pending :: pending

definition restamp :: "int \<Rightarrow> int \<Rightarrow> stamps \<Rightarrow> stamps" where
  "restamp n t stamp = (\<lambda>key. if fst key = n then t else stamp key)"

definition block_keys :: "int \<Rightarrow> store \<Rightarrow> string set" where
  "block_keys n s = {k. \<exists>r \<in> set (st_operations s). or_blockNumber r = n \<and> o_entityKey (or_operation r) = Some k}"

text \<open>The row a probe records, when the node's answers are about the entities \<open>gs\<close>.\<close>

definition probed :: "entity_version list \<Rightarrow> genesis_import \<Rightarrow> bool" where
  "probed gs g \<longleftrightarrow>
     gi_repairAfterKey g = None \<and> gi_status g \<noteq> GDone \<and> (gi_status g = GNone \<longrightarrow> gs = []) \<and>
     (gi_status g = GRunning \<longrightarrow> gi_phase g = Some Walk \<and> gi_imported g = 0)"

text \<open>
  An entity of the genesis is never created again: an entity's key is derived from its creator and a
  counter.
\<close>

definition never_created :: "entity_version list \<Rightarrow> store \<Rightarrow> bool" where
  "never_created gs s \<longleftrightarrow>
     (\<forall>r \<in> set (st_operations s). is_create_row r \<longrightarrow>
        (\<forall>k. o_entityKey (or_operation r) = Some k \<longrightarrow> k \<notin> v_entityKey ` set gs))"

definition same_rows :: "store \<Rightarrow> store \<Rightarrow> bool" where
  "same_rows s s' \<longleftrightarrow>
     st_operations s' = st_operations s \<and> st_transactions s' = st_transactions s \<and> st_logs s' = st_logs s"

text \<open>
  Everything that can happen, in any order: time passes; the scanner, the gap filler or the backfill
  saves a block, whose rows carry the instant its transaction began; the scanner's other writes; and
  the transactions of one projector, the genesis import's among them, each on what is committed by then,
  between which anything else may happen, and after any of which the attempt may end (an error, a lock
  held elsewhere, a restart).
\<close>

inductive projects ::
  "(string \<Rightarrow> string) \<Rightarrow> projector_config \<Rightarrow> entity_version list \<Rightarrow> projection \<Rightarrow> projection \<Rightarrow> bool"
  for keccak config gs where
  Passes: "pw_clock w \<le> c \<Longrightarrow> projects keccak config gs w (w\<lparr>pw_clock := c\<rparr>)"
| Saves: "saveBlockMetrics m p ts cands ops bals (pw_store w) = Inr s' \<Longrightarrow>
    pw_clock w - pc_lateScanOverlapMs config * 1000 < t \<Longrightarrow>
    block_keys (bm_blockNumber m) (pw_store w) \<subseteq> block_keys (bm_blockNumber m) s' \<Longrightarrow> after_genesis s' \<Longrightarrow>
    never_created gs s' \<Longrightarrow>
    projects keccak config gs w
      (w\<lparr>pw_store := s', pw_stamp := (if ts = None then pw_stamp w else restamp (bm_blockNumber m) t (pw_stamp w))\<rparr>)"
| Writes: "same_rows (pw_store w) s' \<Longrightarrow> projects keccak config gs w (w\<lparr>pw_store := s'\<rparr>)"
| Probes: "pw_pending w = Idle \<Longrightarrow> probed gs next \<Longrightarrow> record_probe next (pw_index w) = Some ix' \<Longrightarrow>
    projects keccak config gs w (w\<lparr>pw_index := ix'\<rparr>)"
| Commits: "pw_pending w = Idle \<Longrightarrow> rows = take (length rows) (drop (nat (snd seen)) gs) \<Longrightarrow>
    (finished \<Longrightarrow> int (length gs) \<le> snd seen + int (length rows)) \<Longrightarrow>
    commit_walk seen rows cursor (snd seen + int (length rows)) finished (pw_index w) = Some ix' \<Longrightarrow>
    projects keccak config gs w (w\<lparr>pw_index := ix'\<rparr>)"
| Restarts: "pw_pending w = Idle \<Longrightarrow> projects keccak config gs w (w\<lparr>pw_index := restart_walk (pw_index w)\<rparr>)"
| Fails: "pw_pending w = Idle \<Longrightarrow> projects keccak config gs w (w\<lparr>pw_index := fail_import atIso (pw_index w)\<rparr>)"
| Floors: "pw_pending w = Idle \<Longrightarrow> set_floor state now (pw_index w) = Some ix' \<Longrightarrow> now \<le> pw_clock w \<Longrightarrow>
    projects keccak config gs w (w\<lparr>pw_index := ix'\<rparr>)"
| Selects: "pw_pending w = Idle \<Longrightarrow> ix_through (pw_index w) = Some t \<Longrightarrow> ix_genesis (pw_index w) = Some g \<Longrightarrow>
    gi_status g = GRunning \<Longrightarrow> gi_phase g = Some Repair \<Longrightarrow> 0 < limit \<Longrightarrow>
    keys = genesisKeysWithOperations t (gi_repairAfterKey g) limit (pw_store w) (pw_index w) \<Longrightarrow>
    projects keccak config gs w (w\<lparr>pw_pending := Repairing keys (gi_repairAfterKey g) t (length keys < limit)\<rparr>)"
| Repairs: "pw_pending w = Repairing keys afterKey t finished \<Longrightarrow>
    repair_batch keccak config state afterKey keys t finished atIso (pw_store w) (pw_index w) = Inr (Some ix') \<Longrightarrow>
    projects keccak config gs w (w\<lparr>pw_index := ix', pw_pending := Idle\<rparr>)"
| Starts: "pw_pending w = Idle \<Longrightarrow> ix_floor (pw_index w) = None \<Longrightarrow>
    start_fold config now head (pw_store w) (pw_index w) = Some ix' \<Longrightarrow> now \<le> pw_clock w \<Longrightarrow>
    projects keccak config gs w (w\<lparr>pw_index := ix'\<rparr>)"
| Plans: "pw_pending w = Idle \<Longrightarrow> ix_through (pw_index w) = Some a \<Longrightarrow> a < e \<Longrightarrow>
    projects keccak config gs w (w\<lparr>pw_pending := Planned (keysTouchedBetween a e (pw_store w)) a e\<rparr>)"
| Folds: "pw_pending w = Planned keys a e \<Longrightarrow>
    foldChunk keccak config True keys e nowIso (pw_store w) (pw_index w) = Inr (Some (ix', n, v)) \<Longrightarrow>
    projects keccak config gs w (w\<lparr>pw_index := ix', pw_pending := Idle\<rparr>)"
| Scans: "pw_pending w = Idle \<Longrightarrow> ix_through (pw_index w) = Some a \<Longrightarrow> ix_watermark (pw_index w) = Some wm \<Longrightarrow>
    wm \<le> now \<Longrightarrow> now \<le> pw_clock w \<Longrightarrow>
    projects keccak config gs w
      (w\<lparr>pw_pending := Scanned (keysScannedSince (late_since config wm) a (pw_stamp w) (pw_store w)) a now\<rparr>)"
| Refolds: "pw_pending w = Scanned keys a now \<Longrightarrow> keys \<noteq> [] \<Longrightarrow>
    late_fold keccak config True keys a (pw_store w) (pw_index w) = Inr (Some (ix', n, v)) \<Longrightarrow>
    projects keccak config gs w (w\<lparr>pw_index := ix', pw_pending := Marking now\<rparr>)"
| Skips: "pw_pending w = Scanned [] a now \<Longrightarrow> projects keccak config gs w (w\<lparr>pw_pending := Marking now\<rparr>)"
| Marks: "pw_pending w = Marking now \<Longrightarrow>
    projects keccak config gs w (w\<lparr>pw_index := (pw_index w)\<lparr>ix_watermark := Some now\<rparr>, pw_pending := Idle\<rparr>)"
| Lowers: "ix_floor (pw_index w) \<noteq> None \<Longrightarrow>
    projects keccak config gs w (w\<lparr>pw_index := (pw_index w)\<lparr>ix_floor := Some f\<rparr>\<rparr>)"
| Counts: "projects keccak config gs w (w\<lparr>pw_index := refreshLiveEntities b (pw_index w)\<rparr>)"
| Drops: "projects keccak config gs w (w\<lparr>pw_pending := Idle\<rparr>)"

inductive_cases projectsE: "projects keccak config gs w w'"

definition initial_projection :: "stamps \<Rightarrow> int \<Rightarrow> projection" where
  "initial_projection stamp c =
     \<lparr>pw_store = empty_store, pw_stamp = stamp, pw_clock = c, pw_index = empty_index, pw_pending = Idle\<rparr>"

inductive projected ::
  "(string \<Rightarrow> string) \<Rightarrow> projector_config \<Rightarrow> entity_version list \<Rightarrow> projection \<Rightarrow> bool"
  for keccak config gs where
  Initial: "projected keccak config gs (initial_projection stamp c)"
| Step: "projected keccak config gs w \<Longrightarrow> projects keccak config gs w w' \<Longrightarrow> projected keccak config gs w'"


end
