(* ===== verification/ProjectionRows.thy ===== *)
theory ProjectionRows
  imports Projection
begin

text \<open>
  The invariant of the projection, and what a write of the scanner and a refold do to it: the stored
  history of an entity is the one rebuilt from its genesis state and all its operations up to the fold
  point, unless the next late scan is due to refold it, or the repair of the genesis import still is.
\<close>

section \<open>The invariant\<close>

definition genesis_of :: "entity_version list \<Rightarrow> string \<Rightarrow> entity_version option" where
  "genesis_of gs = map_of (map (\<lambda>g. (v_entityKey g, g)) gs)"

definition seed_ok :: "entity_version list \<Rightarrow> bool" where
  "seed_ok gs \<longleftrightarrow> list_all genesis_ok gs \<and> list_all (\<lambda>g. v_entityKey g \<noteq> []) gs \<and> distinct (map v_entityKey gs)"

definition waiting :: "stamps \<Rightarrow> store \<Rightarrow> int \<Rightarrow> int \<Rightarrow> string \<Rightarrow> bool" where
  "waiting stamp s t since k \<longleftrightarrow>
     (\<exists>r \<in> set (st_operations s). o_entityKey (or_operation r) = Some k \<and> or_blockNumber r \<le> t \<and>
        since < stamp (op_primary_key r))"

definition settled ::
  "(string \<Rightarrow> string) \<Rightarrow> store \<Rightarrow> int \<Rightarrow> (string \<Rightarrow> entity_version option) \<Rightarrow> entity_index \<Rightarrow> string \<Rightarrow> bool" where
  "settled keccak s t genesis ix k \<longleftrightarrow>
     (\<forall>vs. rebuilt keccak s t k (genesis k) = Inr vs \<longrightarrow> rows_of ix k = map versionRow vs)"

text \<open>The genesis state of an entity, once its row is in the index.\<close>

definition known_base :: "entity_version list \<Rightarrow> entity_index \<Rightarrow> string \<Rightarrow> entity_version option" where
  "known_base gs ix k = (if base_of (rows_of ix k) = None then None else genesis_of gs k)"

definition seeded_only :: "entity_version list \<Rightarrow> entity_index \<Rightarrow> string \<Rightarrow> bool" where
  "seeded_only gs ix k \<longleftrightarrow> (\<exists>g. known_base gs ix k = Some g \<and> rows_of ix k = [versionRow g])"

text \<open>The repair has not come to an entity: the import is neither done nor past its key.\<close>

definition needs_repair :: "entity_index \<Rightarrow> string \<Rightarrow> bool" where
  "needs_repair ix k \<longleftrightarrow>
     (case ix_genesis ix of
        None \<Rightarrow> False
      | Some g \<Rightarrow>
          gi_status g \<noteq> GDone \<and> gi_status g \<noteq> GNone \<and>
          \<not> (gi_phase g = Some Repair \<and> (\<exists>a. gi_repairAfterKey g = Some a \<and> k \<le> a)))"

definition fresh :: "(string \<Rightarrow> string) \<Rightarrow> store \<Rightarrow> int \<Rightarrow> entity_version list \<Rightarrow> entity_index \<Rightarrow> string \<Rightarrow> bool" where
  "fresh keccak s t gs ix k \<longleftrightarrow>
     settled keccak s t (known_base gs ix) ix k \<or> (needs_repair ix k \<and> seeded_only gs ix k)"

definition up_to_date :: "(string \<Rightarrow> string) \<Rightarrow> entity_version list \<Rightarrow> projection \<Rightarrow> int \<Rightarrow> int \<Rightarrow> bool" where
  "up_to_date keccak gs w t since \<longleftrightarrow>
     (\<forall>k. to_lower k = k \<longrightarrow>
        fresh keccak (pw_store w) t gs (pw_index w) k \<or> waiting (pw_stamp w) (pw_store w) t since k)"

definition untouched :: "store \<Rightarrow> int \<Rightarrow> int \<Rightarrow> string \<Rightarrow> bool" where
  "untouched s a e k \<longleftrightarrow>
     (\<forall>r \<in> set (st_operations s). o_entityKey (or_operation r) = Some k \<longrightarrow> \<not> (a < or_blockNumber r \<and> or_blockNumber r \<le> e))"

definition plan_covers :: "projector_config \<Rightarrow> entity_version list \<Rightarrow> projection \<Rightarrow> int \<Rightarrow> int \<Rightarrow> bool" where
  "plan_covers config gs w t wm \<longleftrightarrow>
     (case pw_pending w of
        Idle \<Rightarrow> True
      | Planned keys a e \<Rightarrow>
          t = a \<and> a < e \<and> distinct keys \<and> (\<forall>k \<in> set keys. to_lower k = k) \<and>
          (\<forall>k. to_lower k = k \<longrightarrow> k \<notin> set keys \<longrightarrow>
             untouched (pw_store w) a e k \<or> waiting (pw_stamp w) (pw_store w) e (late_since config wm) k)
      | Scanned keys a now \<Rightarrow>
          t = a \<and> wm \<le> now \<and> now \<le> pw_clock w \<and> distinct keys \<and> (\<forall>k \<in> set keys. to_lower k = k) \<and>
          (\<forall>k. to_lower k = k \<longrightarrow> k \<notin> set keys \<longrightarrow>
             waiting (pw_stamp w) (pw_store w) t (late_since config wm) k \<longrightarrow>
             waiting (pw_stamp w) (pw_store w) t (late_since config now) k)
      | Marking now \<Rightarrow> wm \<le> now \<and> now \<le> pw_clock w
      | Repairing keys afterKey a finished \<Rightarrow>
          t = a \<and> distinct keys \<and> (\<forall>k \<in> set keys. to_lower k = k) \<and> (keys = [] \<longrightarrow> finished) \<and>
          (\<forall>k. to_lower k = k \<longrightarrow> k \<notin> set keys \<longrightarrow> genesis_of gs k \<noteq> None \<longrightarrow> resume_key afterKey < k \<longrightarrow>
             finished \<or> k \<le> last keys \<longrightarrow>
             untouched (pw_store w) 0 t k \<or> waiting (pw_stamp w) (pw_store w) t (late_since config wm) k))"

definition imported_upto :: "entity_version list \<Rightarrow> nat \<Rightarrow> entity_index \<Rightarrow> bool" where
  "imported_upto gs n ix \<longleftrightarrow> (\<forall>g \<in> set (take n gs). base_of (rows_of ix (v_entityKey g)) \<noteq> None)"

definition import_ok :: "entity_version list \<Rightarrow> entity_index \<Rightarrow> bool" where
  "import_ok gs ix \<longleftrightarrow>
     (case ix_genesis ix of
        None \<Rightarrow> \<forall>k. to_lower k = k \<longrightarrow> base_of (rows_of ix k) = None
      | Some g \<Rightarrow>
          (gi_repairAfterKey g \<noteq> None \<longrightarrow> gi_phase g = Some Repair \<longrightarrow> ix_through ix \<noteq> None) \<and>
          (case gi_status g of
             GNone \<Rightarrow> gs = []
           | GDone \<Rightarrow> imported_upto gs (length gs) ix \<and> ix_through ix \<noteq> None
           | GRunning \<Rightarrow>
               (gi_phase g = Some Walk \<longrightarrow>
                  gi_repairAfterKey g = None \<and> 0 \<le> gi_imported g \<and> imported_upto gs (nat (gi_imported g)) ix) \<and>
               (gi_phase g = Some Repair \<longrightarrow> imported_upto gs (length gs) ix)
           | _ \<Rightarrow> True))"

text \<open>An entity of the genesis has no row before its genesis state is in.\<close>

definition unborn_ok :: "entity_version list \<Rightarrow> entity_index \<Rightarrow> bool" where
  "unborn_ok gs ix \<longleftrightarrow>
     (\<forall>k. to_lower k = k \<longrightarrow> genesis_of gs k \<noteq> None \<longrightarrow> base_of (rows_of ix k) = None \<longrightarrow> rows_of ix k = [])"

definition rows_ok :: "entity_version list \<Rightarrow> entity_index \<Rightarrow> bool" where
  "rows_ok gs ix \<longleftrightarrow> mirrored ix \<and> import_ok gs ix \<and> unborn_ok gs ix \<and> bases_kept (known_base gs ix) ix"

definition projection_ok ::
  "(string \<Rightarrow> string) \<Rightarrow> projector_config \<Rightarrow> entity_version list \<Rightarrow> projection \<Rightarrow> bool" where
  "projection_ok keccak config gs w \<longleftrightarrow>
     lower_keys (pw_store w) \<and> after_genesis (pw_store w) \<and> never_created gs (pw_store w) \<and> rows_ok gs (pw_index w) \<and>
     (ix_through (pw_index w) = None \<longleftrightarrow> ix_floor (pw_index w) = None) \<and>
     (case ix_through (pw_index w) of
        None \<Rightarrow>
          pw_pending w = Idle \<and> ix_watermark (pw_index w) = None \<and>
          (\<forall>k. to_lower k = k \<longrightarrow> rows_of (pw_index w) k = [] \<or> seeded_only gs (pw_index w) k)
      | Some t \<Rightarrow>
          (\<exists>wm. ix_watermark (pw_index w) = Some wm \<and> wm \<le> pw_clock w \<and>
             (case pw_pending w of
                Marking now \<Rightarrow> up_to_date keccak gs w t (late_since config now)
              | _ \<Rightarrow> up_to_date keccak gs w t (late_since config wm)) \<and>
             plan_covers config gs w t wm))"

subsection \<open>Keys\<close>

lemma set_keys_of: "set (keys_of rows) = {k. \<exists>r \<in> set rows. o_entityKey (or_operation r) = Some k}"
  by (force simp: keys_of_def map_filter_def)

lemma distinct_keys_of [simp]: "distinct (keys_of rows)"
  by (simp add: keys_of_def)

lemma set_keysTouchedBetween:
  "set (keysTouchedBetween a e s) =
    {k. \<exists>r \<in> set (st_operations s). o_entityKey (or_operation r) = Some k \<and> a < or_blockNumber r \<and> or_blockNumber r \<le> e}"
  by (auto simp: keysTouchedBetween_def set_keys_of keyed_rows_between_def)

lemma set_keysScannedSince:
  "set (keysScannedSince since t stamp s) = {k. waiting stamp s t since k}"
  by (auto simp: keysScannedSince_def set_keys_of waiting_def)

lemma keys_lower:
  "lower_keys s \<Longrightarrow> \<forall>k \<in> set (keysTouchedBetween a e s). to_lower k = k"
  "lower_keys s \<Longrightarrow> \<forall>k \<in> set (keysScannedSince since t stamp s). to_lower k = k"
  by (auto simp: set_keysTouchedBetween set_keysScannedSince waiting_def lower_keys_def)

lemma late_since_le: "wm \<le> c \<Longrightarrow> late_since config wm \<le> c - pc_lateScanOverlapMs config * 1000"
proof -
  assume "wm \<le> c"
  moreover have "wm div 1000 * 1000 \<le> wm" by simp
  ultimately show ?thesis by (simp add: late_since_def algebra_simps)
qed

lemma late_since_mono: "a \<le> b \<Longrightarrow> late_since config a \<le> late_since config b"
  by (simp add: late_since_def zdiv_mono1)

lemma waiting_mono:
  "waiting stamp s t since k \<Longrightarrow> t \<le> t' \<Longrightarrow> since' \<le> since \<Longrightarrow> waiting stamp s t' since' k"
  by (force simp: waiting_def)

lemma up_to_date_since: "up_to_date keccak gs w t since \<Longrightarrow> since' \<le> since \<Longrightarrow> up_to_date keccak gs w t since'"
  unfolding up_to_date_def using waiting_mono by blast

subsection \<open>A block is saved\<close>

lemma touches_block: "touches s k tx \<Longrightarrow> k \<in> block_keys (fst tx) s"
  by (auto simp: touches_def block_keys_def tx_of_def)

lemma outside_row:
  assumes "outside n s s'" "or_blockNumber r \<noteq> n"
  shows "r \<in> set (st_operations s') \<longleftrightarrow> r \<in> set (st_operations s)"
proof -
  have "r \<in> set (filter (\<lambda>r. or_blockNumber r \<noteq> n) (st_operations s')) \<longleftrightarrow>
      r \<in> set (filter (\<lambda>r. or_blockNumber r \<noteq> n) (st_operations s))"
    using assms(1) by (simp only: outside_def)
  then show ?thesis using assms(2) by simp
qed

lemma restamp_key [simp]: "restamp n t stamp (op_primary_key r) = (if or_blockNumber r = n then t else stamp (op_primary_key r))"
  by (simp add: restamp_def op_primary_key_def)

lemma waiting_new: "k \<in> block_keys n s' \<Longrightarrow> n \<le> t \<Longrightarrow> since < t' \<Longrightarrow> waiting (restamp n t' stamp) s' t since k"
  by (auto simp: block_keys_def waiting_def)

lemma waiting_saved:
  assumes "outside n s s'" "block_keys n s \<subseteq> block_keys n s'" "since < t'" "waiting stamp s t since k"
  shows "waiting (restamp n t' stamp) s' t since k"
proof -
  obtain r where r: "r \<in> set (st_operations s)" "o_entityKey (or_operation r) = Some k" "or_blockNumber r \<le> t"
    "since < stamp (op_primary_key r)" using assms(4) by (auto simp: waiting_def)
  show ?thesis
  proof (cases "or_blockNumber r = n")
    case True
    then have "k \<in> block_keys n s'" using r assms(2) by (auto simp: block_keys_def)
    then show ?thesis using waiting_new True r(3) assms(3) by blast
  next
    case False
    then show ?thesis using r outside_row [OF assms(1) False] unfolding waiting_def by auto
  qed
qed

lemma settled_saved:
  assumes "outside n s s'" "block_keys n s \<subseteq> block_keys n s'" "since < t'" "settled keccak s t genesis ix k"
  shows "settled keccak s' t genesis ix k \<or> waiting (restamp n t' stamp) s' t since k"
proof (cases "k \<in> block_keys n s' \<and> n \<le> t")
  case True
  then show ?thesis using waiting_new assms(3) by blast
next
  case False
  have "key_ops s' t k = key_ops s t k"
    by (rule key_ops_outside [OF assms(1)]) (use False assms(2) touches_block in blast)
  then show ?thesis using assms(4) by (simp add: settled_def rebuilt_def)
qed

lemma waiting_before:
  assumes "outside n s s'" "waiting (restamp n t' stamp) s' t since k"
  shows "waiting stamp s t since k \<or> (k \<in> block_keys n s' \<and> n \<le> t)"
proof -
  obtain r where r: "r \<in> set (st_operations s')" "o_entityKey (or_operation r) = Some k" "or_blockNumber r \<le> t"
    "since < restamp n t' stamp (op_primary_key r)" using assms(2) by (auto simp: waiting_def)
  then show ?thesis
  proof (cases "or_blockNumber r = n")
    case True
    then show ?thesis using r by (auto simp: block_keys_def)
  next
    case False
    then show ?thesis using r outside_row [OF assms(1) False] unfolding waiting_def by auto
  qed
qed

lemma same_rows_ops: "same_rows s s' \<Longrightarrow> key_ops s' t k = key_ops s t k"
proof -
  assume "same_rows s s'"
  then have "outside n s s'" "touches s' k = touches s k" for n by (auto simp: same_rows_def outside_def touches_def)
  moreover have "\<exists>n. \<forall>r \<in> set (st_operations s). or_blockNumber r \<noteq> n"
  proof -
    have "finite (or_blockNumber ` set (st_operations s))" by simp
    then obtain n where "n \<notin> or_blockNumber ` set (st_operations s)"
      by (metis ex_new_if_finite infinite_UNIV_int)
    then show ?thesis by (metis imageI)
  qed
  then obtain n where "\<forall>r \<in> set (st_operations s). or_blockNumber r \<noteq> n" ..
  then have "\<not> touches s k tx" if "fst tx = n" for tx using that by (auto simp: touches_def tx_of_def)
  ultimately show ?thesis using key_ops_outside by metis
qed


lemma fresh_saved:
  assumes "outside n s s'" "block_keys n s \<subseteq> block_keys n s'" "since < t'" "fresh keccak s t gs ix k"
  shows "fresh keccak s' t gs ix k \<or> waiting (restamp n t' stamp) s' t since k"
  using assms(4) settled_saved [OF assms(1-3)] unfolding fresh_def by blast

lemma untouched_saved:
  assumes "outside n s s'" "untouched s a e k" "\<not> (k \<in> block_keys n s' \<and> n \<le> e)"
  shows "untouched s' a e k"
  unfolding untouched_def
proof (intro ballI impI)
  fix r assume r: "r \<in> set (st_operations s')" "o_entityKey (or_operation r) = Some k"
  show "\<not> (a < or_blockNumber r \<and> or_blockNumber r \<le> e)"
  proof (cases "or_blockNumber r = n")
    case True
    then show ?thesis using r assms(3) by (auto simp: block_keys_def)
  next
    case False
    then show ?thesis using r outside_row [OF assms(1) False] assms(2) by (auto simp: untouched_def)
  qed
qed

lemma untouched_or_waiting_saved:
  assumes "outside n s s'" "block_keys n s \<subseteq> block_keys n s'" "since < t'"
    and "untouched s a e k \<or> waiting stamp s e since k"
  shows "untouched s' a e k \<or> waiting (restamp n t' stamp) s' e since k"
proof (cases "k \<in> block_keys n s' \<and> n \<le> e")
  case True
  then show ?thesis using waiting_new assms(3) by blast
next
  case False
  then show ?thesis using assms(4) untouched_saved [OF assms(1)] waiting_saved [OF assms(1-3)] by blast
qed

lemma same_rows_facts:
  assumes "same_rows s s'"
  shows "lower_keys s' = lower_keys s" "after_genesis s' = after_genesis s" "never_created gs s' = never_created gs s"
    "waiting stamp s' t since k = waiting stamp s t since k" "fresh keccak s' t gs ix k = fresh keccak s t gs ix k"
    "untouched s' a e k = untouched s a e k"
  using assms same_rows_ops [OF assms]
  by (simp_all add: same_rows_def lower_keys_def after_genesis_def never_created_def waiting_def fresh_def settled_def
      rebuilt_def untouched_def)

lemma same_rows_ok:
  "projection_ok keccak config gs w \<Longrightarrow> same_rows (pw_store w) s' \<Longrightarrow> projection_ok keccak config gs (w\<lparr>pw_store := s'\<rparr>)"
  using same_rows_facts [of "pw_store w" s']
  by (simp add: projection_ok_def up_to_date_def plan_covers_def cong: option.case_cong pending.case_cong)

lemma saves_ok:
  assumes ok: "projection_ok keccak config gs w" and out: "outside n (pw_store w) s'"
    and keys: "block_keys n (pw_store w) \<subseteq> block_keys n s'"
    and store: "lower_keys s'" "after_genesis s'" "never_created gs s'"
    and t: "pw_clock w - pc_lateScanOverlapMs config * 1000 < t"
  shows "projection_ok keccak config gs (w\<lparr>pw_store := s', pw_stamp := restamp n t (pw_stamp w)\<rparr>)"
proof (cases "ix_through (pw_index w)")
  case None
  then show ?thesis using ok store by (simp add: projection_ok_def)
next
  case (Some h)
  let ?w = "w\<lparr>pw_store := s', pw_stamp := restamp n t (pw_stamp w)\<rparr>"
  obtain wm where wm: "ix_watermark (pw_index w) = Some wm" "wm \<le> pw_clock w" "plan_covers config gs w h wm"
    "case pw_pending w of Marking now \<Rightarrow> up_to_date keccak gs w h (late_since config now)
     | _ \<Rightarrow> up_to_date keccak gs w h (late_since config wm)"
    using ok Some by (auto simp: projection_ok_def)
  have since: "late_since config c < t" if "c \<le> pw_clock w" for c using late_since_le [OF that] t by (metis order_le_less_trans)
  have date: "up_to_date keccak gs ?w h (late_since config c)"
    if "c \<le> pw_clock w" "up_to_date keccak gs w h (late_since config c)" for c
    using that(2) waiting_saved [OF out keys since [OF that(1)]] fresh_saved [OF out keys since [OF that(1)]]
    unfolding up_to_date_def by simp blast
  note moved = waiting_saved [OF out keys since] and still = untouched_or_waiting_saved [OF out keys since]
  have "plan_covers config gs ?w h wm"
  proof (cases "pw_pending w")
    case (Planned ks a e)
    then show ?thesis using wm(3) still [OF wm(2)] by (simp add: plan_covers_def)
  next
    case (Scanned ks a now)
    have now: "now \<le> pw_clock w" and cov: "\<forall>k. to_lower k = k \<longrightarrow> k \<notin> set ks \<longrightarrow>
        waiting (pw_stamp w) (pw_store w) h (late_since config wm) k \<longrightarrow>
        waiting (pw_stamp w) (pw_store w) h (late_since config now) k"
      using wm(3) unfolding plan_covers_def Scanned pending.case by blast+
    have "waiting (restamp n t (pw_stamp w)) s' h (late_since config now) k"
      if k: "to_lower k = k" "k \<notin> set ks" and wait: "waiting (restamp n t (pw_stamp w)) s' h (late_since config wm) k" for k
      using waiting_before [OF out wait]
    proof
      assume "waiting (pw_stamp w) (pw_store w) h (late_since config wm) k"
      then have "waiting (pw_stamp w) (pw_store w) h (late_since config now) k"
        using cov k by blast
      then show ?thesis by (rule moved [OF now])
    next
      assume "k \<in> block_keys n s' \<and> n \<le> h"
      then show ?thesis using waiting_new since [OF now] by blast
    qed
    then show ?thesis using wm(3) Scanned by (simp add: plan_covers_def)
  next
    case (Repairing ks afterKey a finished)
    then show ?thesis using wm(3) still [OF wm(2)] by (simp add: plan_covers_def) blast
  qed (use wm(3) in \<open>simp_all add: plan_covers_def\<close>)
  moreover have "now \<le> pw_clock w" if "pw_pending w = Marking now" for now
    using wm(3) that by (simp add: plan_covers_def)
  ultimately show ?thesis using ok store Some wm date by (auto simp: projection_ok_def split: pending.splits)
qed

section \<open>Genesis states\<close>

lemma seed_okD:
  assumes "seed_ok gs" "g \<in> set gs"
  shows "genesis_ok g" "v_entityKey g \<noteq> []" "to_lower (v_entityKey g) = v_entityKey g" "genesis_of gs (v_entityKey g) = Some g"
proof -
  show ok: "genesis_ok g" "v_entityKey g \<noteq> []" using assms by (auto simp: seed_ok_def list_all_iff)
  then show "to_lower (v_entityKey g) = v_entityKey g" by (simp add: genesis_ok_def)
  have "distinct (map fst (map (\<lambda>g. (v_entityKey g, g)) gs))" using assms(1) by (simp add: seed_ok_def comp_def)
  then show "genesis_of gs (v_entityKey g) = Some g"
    unfolding genesis_of_def by (rule map_of_is_SomeI) (use assms(2) in auto)
qed

lemma genesis_of_SomeD: "genesis_of gs k = Some g \<Longrightarrow> g \<in> set gs \<and> v_entityKey g = k"
  by (auto simp: genesis_of_def dest!: map_of_SomeD)

lemma genesis_of_known: "seed_ok gs \<Longrightarrow> genesis_known (genesis_of gs)"
  using genesis_of_SomeD seed_okD(1) by (auto simp: genesis_known_def)

lemma base_of_own: "genesis_ok g \<Longrightarrow> base_of [versionRow g] = Some g"
  by (simp add: base_of_def genesis_ok_def)

lemma base_of_Nil [simp]: "base_of [] = None"
  by (simp add: base_of_def)

lemma base_of_row: "base_of rows \<noteq> None \<longleftrightarrow> (\<exists>r \<in> set rows. is_genesis_row r)"
proof -
  have "base_of rows \<noteq> None \<longleftrightarrow> filter is_genesis_row rows \<noteq> []" by (simp add: base_of_def split: list.splits)
  then show ?thesis by (auto simp: filter_empty_conv)
qed

lemma base_of_SomeD: "base_of rows = Some g \<Longrightarrow> \<exists>r \<in> set rows. is_genesis_row r \<and> mapVersionRow r = g"
proof -
  assume "base_of rows = Some g"
  then obtain r rs where r: "rev (filter is_genesis_row rows) = r # rs" "mapVersionRow r = g"
    by (auto simp: base_of_def split: list.splits)
  then have "r \<in> set (rev (filter is_genesis_row rows))" by simp
  then show ?thesis using r(2) by auto
qed

text \<open>The genesis states the fold works with, whenever it may: all of them once the import is done, none before.\<close>

definition expected_base :: "entity_version list \<Rightarrow> entity_index \<Rightarrow> string \<Rightarrow> entity_version option" where
  "expected_base gs ix k =
     (case ix_genesis ix of Some g \<Rightarrow> if gi_status g = GDone then genesis_of gs k else None | None \<Rightarrow> None)"

lemma imported_all: "imported_upto gs (length gs) ix \<Longrightarrow> known_base gs ix k = genesis_of gs k"
  by (cases "genesis_of gs k") (auto simp: imported_upto_def known_base_def dest: genesis_of_SomeD)

lemma allowed_base:
  assumes "import_ok gs ix" "genesis_allows ix" "to_lower k = k"
  shows "known_base gs ix k = expected_base gs ix k"
proof (cases "ix_genesis ix")
  case None
  then show ?thesis using assms by (simp add: import_ok_def known_base_def expected_base_def)
next
  case (Some g)
  then have "gi_status g = GDone \<or> gi_status g = GNone" using assms(2) by (simp add: genesis_allows_def)
  then show ?thesis
  proof
    assume "gi_status g = GDone"
    then show ?thesis using assms(1) Some imported_all [of gs ix k] by (simp add: import_ok_def expected_base_def)
  next
    assume "gi_status g = GNone"
    then show ?thesis using assms(1) Some by (simp add: import_ok_def expected_base_def known_base_def genesis_of_def)
  qed
qed

lemma allowed_repair: "genesis_allows ix \<Longrightarrow> \<not> needs_repair ix k"
  by (auto simp: genesis_allows_def needs_repair_def split: option.splits)

lemma expected_known: "seed_ok gs \<Longrightarrow> genesis_known (expected_base gs ix)"
  using genesis_of_known by (auto simp: genesis_known_def expected_base_def split: option.splits if_splits)

lemma expected_choice: "expected_base gs ix k = None \<or> expected_base gs ix k = genesis_of gs k"
  by (auto simp: expected_base_def split: option.splits)

lemma settled_cong: "genesis k = genesis' k \<Longrightarrow> rows_of ix k = rows_of ix' k \<Longrightarrow>
    settled keccak s t genesis ix k = settled keccak s t genesis' ix' k"
  by (simp add: settled_def)

lemma bases_kept_cong: "(\<And>k. to_lower k = k \<Longrightarrow> genesis k = genesis' k) \<Longrightarrow> bases_kept genesis ix = bases_kept genesis' ix"
  by (simp add: bases_kept_def)

lemma kept_known:
  assumes "bases_kept genesis ix" "to_lower k = k" "genesis k = None \<or> genesis k = genesis_of gs k"
  shows "known_base gs ix k = genesis k"
proof -
  have "base_kept (genesis k) (rows_of ix k)" using assms(1,2) by (simp add: bases_kept_def)
  then show ?thesis using assms(3) by (cases "genesis k") (auto simp: base_kept_def known_base_def)
qed

text \<open>Frames: what depends on the rows and the import's row alone.\<close>

lemma index_frame:
  assumes "\<And>k. rows_of ix' k = rows_of ix k"
  shows "known_base gs ix' = known_base gs ix" "unborn_ok gs ix' = unborn_ok gs ix" "seeded_only gs ix' = seeded_only gs ix"
    "bases_kept genesis ix' = bases_kept genesis ix" "imported_upto gs n ix' = imported_upto gs n ix"
    "settled keccak s t genesis ix' k = settled keccak s t genesis ix k"
  by (simp_all add: known_base_def fun_eq_iff unborn_ok_def seeded_only_def bases_kept_def settled_def imported_upto_def assms)

lemma import_ok_frame:
  assumes "import_ok gs ix" "seed_ok gs" "ix_genesis ix' = ix_genesis ix" "ix_through ix \<noteq> None \<Longrightarrow> ix_through ix' \<noteq> None"
    and "\<And>k. to_lower k = k \<Longrightarrow> known_base gs ix' k = known_base gs ix k"
    and "\<And>k. to_lower k = k \<Longrightarrow> base_of (rows_of ix' k) = None \<longleftrightarrow> base_of (rows_of ix k) = None"
  shows "import_ok gs ix'"
proof -
  have low: "to_lower (v_entityKey g) = v_entityKey g" if "g \<in> set gs" for g using seed_okD(3) [OF assms(2) that] .
  have upto: "imported_upto gs n ix' = imported_upto gs n ix" for n
    unfolding imported_upto_def using low assms(6) in_set_takeD by (metis (no_types, opaque_lifting))
  have none: "(\<forall>k. to_lower k = k \<longrightarrow> base_of (rows_of ix' k) = None) = (\<forall>k. to_lower k = k \<longrightarrow> base_of (rows_of ix k) = None)"
    using assms(6) by blast
  show ?thesis using assms(1,3,4) unfolding import_ok_def upto none assms(3)
    by (auto split: option.splits genesis_status.splits)
qed

section \<open>A refold keeps the rows\<close>

lemma never_created_fold:
  assumes "rebuilt keccak s t k None = Inr vs" "never_created gs s" "lower_keys s" "genesis_of gs k \<noteq> None"
  shows "vs = []"
proof -
  obtain ops where ops: "key_ops s t k = Inr ops" "foldEntityVersions keccak k ops None = Inr vs"
    using assms(1) by (auto simp: rebuilt_def bind_result_eq_Inr)
  have "r_operationType oper \<noteq> OPERATION_CREATE" if oper: "oper \<in> set ops" for oper
  proof
    assume create: "r_operationType oper = OPERATION_CREATE"
    obtain r tx k' where r: "(r, tx) \<in> set (joined_rows s)" "o_operationType (or_operation r) = r_operationType oper"
      "o_entityKey (or_operation r) = Some k'" "to_lower k' = k"
      using key_ops_records [OF ops(1) oper] by blast
    have row: "r \<in> set (st_operations s)" by (rule joined_rows_op [OF r(1)])
    then have "to_lower k' = k'" using assms(3) r(3) by (auto simp: lower_keys_def)
    then have "k' \<in> v_entityKey ` set gs" using r(4) assms(4) genesis_of_SomeD by (auto simp: image_iff)
    then show False using assms(2) row r(2,3) create by (auto simp: never_created_def is_create_row_def OPERATION_CREATE_def)
  qed
  then show ?thesis using fold_without_create [OF ops(2)] by blast
qed

lemma refold_rows_ok:
  assumes run: "refoldEntities keccak batch keys t s ix = Inr (ix', e, w)"
    and store: "lower_keys s" "after_genesis s" "never_created gs s" and rows: "rows_ok gs ix" "seed_ok gs"
    and keys: "distinct keys" "\<forall>k \<in> set keys. to_lower k = k"
    and known: "\<And>k. to_lower k = k \<Longrightarrow> known_base gs ix k = genesis k"
    and choice: "\<And>k. genesis k = None \<or> genesis k = genesis_of gs k" and "genesis_known genesis"
  shows "rows_ok gs ix'" "\<forall>k. k \<notin> set keys \<longrightarrow> rows_of ix' k = rows_of ix k"
    "\<forall>k \<in> set keys. settled keccak s t (known_base gs ix') ix' k"
    "\<forall>k. to_lower k = k \<longrightarrow> known_base gs ix' k = known_base gs ix k"
    "ix' = ix\<lparr>ix_versions := ix_versions ix', ix_attributes := ix_attributes ix'\<rparr>"
proof -
  have "bases_kept genesis ix" using rows(1) bases_kept_cong [of "known_base gs ix" genesis ix] known by (simp add: rows_ok_def)
  note effect = refoldEntities_effect [OF run store(1,2) assms(11) this keys]
  show "\<forall>k. k \<notin> set keys \<longrightarrow> rows_of ix' k = rows_of ix k" by (rule effect(1))
  show frame: "ix' = ix\<lparr>ix_versions := ix_versions ix', ix_attributes := ix_attributes ix'\<rparr>" by (rule effect(5))
  have known': "known_base gs ix' k = genesis k" if "to_lower k = k" for k by (rule kept_known [OF effect(4) that choice])
  then show "\<forall>k. to_lower k = k \<longrightarrow> known_base gs ix' k = known_base gs ix k" using known by simp
  show "\<forall>k \<in> set keys. settled keccak s t (known_base gs ix') ix' k"
    using effect(2) keys(2) known' by (auto simp: refolded_def settled_def)
  have based: "base_of (rows_of i k) = None \<longleftrightarrow> genesis k = None" if "to_lower k = k" "bases_kept genesis i" for i k
  proof -
    have "base_kept (genesis k) (rows_of i k)" using that by (simp add: bases_kept_def)
    then show ?thesis by (cases "genesis k") (auto simp: base_kept_def)
  qed
  have same: "base_of (rows_of ix' k) = None \<longleftrightarrow> base_of (rows_of ix k) = None" if "to_lower k = k" for k
    using based [OF that] effect(4) \<open>bases_kept genesis ix\<close> by blast
  have "unborn_ok gs ix'"
    unfolding unborn_ok_def
  proof (intro allI impI)
    fix k assume k: "to_lower k = k" "genesis_of gs k \<noteq> None" "base_of (rows_of ix' k) = None"
    show "rows_of ix' k = []"
    proof (cases "k \<in> set keys")
      case True
      then obtain vs where vs: "rebuilt keccak s t k (genesis k) = Inr vs" "rows_of ix' k = map versionRow vs"
        using effect(2) by (auto simp: refolded_def)
      have "genesis k = None" using based [OF k(1) effect(4)] k(3) by blast
      then show ?thesis using never_created_fold [OF _ store(3,1) k(2)] vs by auto
    next
      case False
      then show ?thesis using effect(1) rows(1) k same [OF k(1)] by (auto simp: rows_ok_def unborn_ok_def)
    qed
  qed
  moreover have "import_ok gs ix'"
  proof (rule import_ok_frame [of gs ix])
    show "import_ok gs ix" using rows(1) by (simp add: rows_ok_def)
    show "ix_genesis ix' = ix_genesis ix" by (subst frame) simp
    show "ix_through ix \<noteq> None \<Longrightarrow> ix_through ix' \<noteq> None" by (subst frame) simp
  qed (use known known' same rows(2) in auto)
  moreover have "bases_kept (known_base gs ix') ix'" using effect(4) bases_kept_cong [of "known_base gs ix'" genesis ix'] known' by simp
  ultimately show "rows_ok gs ix'" using rows(1) effect(3) by (simp add: rows_ok_def)
qed

end
