(* ===== verification/ImportSteps.thy ===== *)
theory ImportSteps
  imports ProjectionRows
begin

text \<open>
  The transactions of the genesis import against the invariant of the projection: the probe, the batches
  of the walk, its restart and failure, the start of the fold, and the batches of the repair.
\<close>

section \<open>A batch of the walk\<close>

lemma insert_missing_distinct:
  "distinct (map key rows) \<Longrightarrow> insert_missing key rows table = table @ filter (\<lambda>r. key r \<notin> key ` set table) rows"
proof (induction rows arbitrary: table)
  case (Cons r rows)
  have distinct: "distinct (map key rows)" and "key r \<notin> key ` set rows" using Cons.prems by simp_all
  then have apart: "\<forall>x \<in> set rows. key x \<noteq> key r" by (metis imageI)
  show ?case
  proof (cases "key r \<in> key ` set table")
    case True
    then have "insert_missing key (r # rows) table = insert_missing key rows table" by (simp add: insert_missing_def)
    then show ?thesis using True Cons.IH [OF distinct, of table] by simp
  next
    case False
    then have "insert_missing key (r # rows) table = insert_missing key rows (table @ [r])" by (simp add: insert_missing_def)
    also have "\<dots> = table @ r # filter (\<lambda>x. key x \<notin> key ` set (table @ [r])) rows" using Cons.IH [OF distinct, of "table @ [r]"] by simp
    also have "filter (\<lambda>x. key x \<notin> key ` set (table @ [r])) rows = filter (\<lambda>x. key x \<notin> key ` set table) rows"
      by (rule filter_cong) (use apart in auto)
    finally show ?thesis using False by simp
  qed
qed (simp add: insert_missing_def)

abbreviation key_version :: "entity_version \<Rightarrow> string \<times> int" where
  "key_version v \<equiv> (v_entityKey v, v_version v)"

lemma version_key_row [simp]: "version_key (versionRow v) = key_version v"
  by (simp add: version_key_def versionRow_def)

lemma attribute_keys_of:
  "map attribute_key (attributeRows [v]) = map (\<lambda>a. (v_entityKey v, v_version v, sa_name a)) (v_attributes v)"
  by (simp add: attributeRows_def attribute_key_def comp_def)

lemma attribute_keys_distinct:
  assumes "distinct (map key_version vs)" "\<forall>v \<in> set vs. version_ok v"
  shows "distinct (map attribute_key (attributeRows vs))"
  using assms
proof (induction vs)
  case (Cons v vs)
  note own = attribute_keys_of [of v]
  have "distinct (map sa_name (v_attributes v))" using Cons.prems(2) by (simp add: version_ok_def names_sorted_def)
  then have "distinct (map (\<lambda>a. (v_entityKey v, v_version v, sa_name a)) (v_attributes v))"
    by (auto simp: distinct_map inj_on_def)
  moreover have "(fst p, fst (snd p)) \<in> key_version ` set vs" if "p \<in> set (map attribute_key (attributeRows vs))" for p
    using that by (auto simp: attributeRows_def attribute_key_def)
  moreover have "attributeRows (v # vs) = attributeRows [v] @ attributeRows vs"
    using attributeRows_append [of "[v]" vs] by simp
  ultimately show ?case using Cons own by (fastforce simp del: attributeRows_append)
qed (simp add: attributeRows_def)

text \<open>The rows of a batch that are not in yet.\<close>

definition new_rows :: "entity_version list \<Rightarrow> entity_index \<Rightarrow> entity_version list" where
  "new_rows rows ix = filter (\<lambda>v. base_of (rows_of ix (v_entityKey v)) = None) rows"

lemma row_of_key: "r \<in> set (rows_of ix k) \<longleftrightarrow> r \<in> set (ix_versions ix) \<and> row_key r = k"
  by (auto simp: rows_of_def)

lemma genesis_row_key: "is_genesis_row r \<Longrightarrow> version_key r = (row_key r, 0)"
  by (simp add: is_genesis_row_def version_key_def)

lemma base_row_there:
  assumes "rows_ok gs ix" "seed_ok gs" "v \<in> set gs"
  shows "(v_entityKey v, 0) \<in> version_key ` set (ix_versions ix) \<longleftrightarrow> base_of (rows_of ix (v_entityKey v)) \<noteq> None"
proof
  assume "(v_entityKey v, 0) \<in> version_key ` set (ix_versions ix)"
  then obtain r where "r \<in> set (ix_versions ix)" "row_key r = v_entityKey v" by (auto simp: version_key_def)
  then have "rows_of ix (v_entityKey v) \<noteq> []" by (auto simp: rows_of_def filter_empty_conv)
  then show "base_of (rows_of ix (v_entityKey v)) \<noteq> None"
    using assms seed_okD [OF assms(2,3)] by (auto simp: rows_ok_def unborn_ok_def)
next
  assume "base_of (rows_of ix (v_entityKey v)) \<noteq> None"
  then obtain r where "r \<in> set (rows_of ix (v_entityKey v))" "is_genesis_row r" unfolding base_of_row by blast
  then show "(v_entityKey v, 0) \<in> version_key ` set (ix_versions ix)"
    using genesis_row_key by (force simp: row_of_key)
qed

lemma base_attribute_there:
  assumes "rows_ok gs ix" "seed_ok gs" "v \<in> set gs" "a \<in> set (v_attributes v)"
  shows "(v_entityKey v, 0, sa_name a) \<in> attribute_key ` set (ix_attributes ix) \<longleftrightarrow> base_of (rows_of ix (v_entityKey v)) \<noteq> None"
proof -
  obtain vs where vs: "ix_versions ix = map versionRow vs" "ix_attributes ix = attributeRows vs"
    using assms(1) by (auto simp: rows_ok_def mirrored_def)
  note v = seed_okD [OF assms(2,3)]
  show ?thesis
  proof
    assume "(v_entityKey v, 0, sa_name a) \<in> attribute_key ` set (ix_attributes ix)"
    then obtain w where "w \<in> set vs" "v_entityKey w = v_entityKey v" "v_version w = 0"
      by (auto simp: vs(2) attributeRows_def attribute_key_def)
    then have "version_key (versionRow w) = (v_entityKey v, 0)" "versionRow w \<in> set (ix_versions ix)" by (simp_all add: vs(1))
    then have "(v_entityKey v, 0) \<in> version_key ` set (ix_versions ix)" by (metis imageI)
    then show "base_of (rows_of ix (v_entityKey v)) \<noteq> None" using base_row_there [OF assms(1-3)] by blast
  next
    assume based: "base_of (rows_of ix (v_entityKey v)) \<noteq> None"
    then have "known_base gs ix (v_entityKey v) = Some v" using v(4) by (simp add: known_base_def)
    then obtain t where "base_of (rows_of ix (v_entityKey v)) = Some (v\<lparr>v_toBlock := t\<rparr>)"
      using assms(1) v(3) by (fastforce simp: rows_ok_def bases_kept_def base_kept_def)
    then obtain r where r: "r \<in> set (rows_of ix (v_entityKey v))" "is_genesis_row r" "mapVersionRow r = v\<lparr>v_toBlock := t\<rparr>"
      by (auto dest: base_of_SomeD)
    then obtain w where w: "w \<in> set vs" "r = versionRow w" by (auto simp: row_of_key vs(1))
    have "map sa_name (v_attributes w) = map sa_name (v_attributes (mapVersionRow r))"
      by (simp add: w(2) mapVersionRow_def versionRow_def stored_json_def read_json_def comp_def)
    then have "map sa_name (v_attributes w) = map sa_name (v_attributes v)" by (simp add: r(3))
    then obtain b where "b \<in> set (v_attributes w)" "sa_name b = sa_name a"
      using assms(4) by (metis (no_types, opaque_lifting) imageE imageI list.set_map)
    moreover have "v_entityKey w = v_entityKey v" "v_version w = 0" using r(1,2) w(2) by (simp_all add: row_of_key)
    ultimately have "(v_entityKey v, 0, sa_name a) \<in> set (map attribute_key (attributeRows [w]))"
      unfolding attribute_keys_of by (auto simp: image_iff intro!: bexI [of _ b])
    moreover have "set (attributeRows [w]) \<subseteq> set (ix_attributes ix)" using w(1) by (auto simp: vs(2) attributeRows_def)
    ultimately show "(v_entityKey v, 0, sa_name a) \<in> attribute_key ` set (ix_attributes ix)" by auto
  qed
qed

lemma insert_effect:
  assumes "rows_ok gs ix" "seed_ok gs" "set rows \<subseteq> set gs" "distinct (map v_entityKey rows)"
  shows "ix_versions (insertGenesisVersions rows ix) = ix_versions ix @ map versionRow (new_rows rows ix)"
    "ix_attributes (insertGenesisVersions rows ix) = ix_attributes ix @ attributeRows (new_rows rows ix)"
proof -
  have ok: "genesis_ok v" "v \<in> set gs" if "v \<in> set rows" for v using that assms(2,3) seed_okD(1) by blast+
  have pairs: "distinct (map key_version rows)" using assms(4) by (auto simp: distinct_map inj_on_def)
  have version: "version_key (versionRow v) \<notin> version_key ` set (ix_versions ix) \<longleftrightarrow> base_of (rows_of ix (v_entityKey v)) = None"
    if "v \<in> set rows" for v
    using base_row_there [OF assms(1,2) ok(2) [OF that]] ok(1) [OF that] by (simp add: genesis_ok_def)
  have "insert_missing version_key (map versionRow rows) (ix_versions ix) =
      ix_versions ix @ filter (\<lambda>r. version_key r \<notin> version_key ` set (ix_versions ix)) (map versionRow rows)"
    by (rule insert_missing_distinct) (use pairs in \<open>simp add: comp_def\<close>)
  also have "filter (\<lambda>r. version_key r \<notin> version_key ` set (ix_versions ix)) (map versionRow rows) = map versionRow (new_rows rows ix)"
    unfolding filter_map new_rows_def comp_def using version by (auto intro!: arg_cong [where f = "map versionRow"] filter_cong)
  finally show "ix_versions (insertGenesisVersions rows ix) = ix_versions ix @ map versionRow (new_rows rows ix)"
    by (simp add: insertGenesisVersions_def)
  have attribute: "attribute_key r \<notin> attribute_key ` set (ix_attributes ix) \<longleftrightarrow> base_of (rows_of ix (ar_entity_key r)) = None"
    if r: "r \<in> set (attributeRows rows)" for r
  proof -
    obtain v a where v: "v \<in> set rows" "a \<in> set (v_attributes v)" "ar_entity_key r = v_entityKey v" "ar_version r = v_version v"
      "ar_name r = sa_name a" using r by (auto simp: attributeRows_def)
    then have "attribute_key r = (v_entityKey v, 0, sa_name a)" using ok(1) [OF v(1)] by (simp add: attribute_key_def genesis_ok_def)
    then show ?thesis using base_attribute_there [OF assms(1,2) ok(2) [OF v(1)] v(2)] v(3) by simp
  qed
  have "insert_missing attribute_key (attributeRows rows) (ix_attributes ix) =
      ix_attributes ix @ filter (\<lambda>r. attribute_key r \<notin> attribute_key ` set (ix_attributes ix)) (attributeRows rows)"
    by (rule insert_missing_distinct, rule attribute_keys_distinct [OF pairs]) (use ok(1) in \<open>simp add: genesis_ok_def\<close>)
  also have "filter (\<lambda>r. attribute_key r \<notin> attribute_key ` set (ix_attributes ix)) (attributeRows rows) =
      filter (\<lambda>r. base_of (rows_of ix (ar_entity_key r)) = None) (attributeRows rows)"
    by (rule filter_cong) (use attribute in auto)
  also have "\<dots> = attributeRows (new_rows rows ix)"
    unfolding new_rows_def by (rule attributeRows_filter [where Q = "\<lambda>k. base_of (rows_of ix k) = None"])
  finally show "ix_attributes (insertGenesisVersions rows ix) = ix_attributes ix @ attributeRows (new_rows rows ix)"
    by (simp add: insertGenesisVersions_def)
qed

lemma insert_rows_of:
  assumes "rows_ok gs ix" "seed_ok gs" "set rows \<subseteq> set gs" "distinct (map v_entityKey rows)" "to_lower k = k"
  shows "rows_of (insertGenesisVersions rows ix) k =
    (case genesis_of rows k of None \<Rightarrow> rows_of ix k
     | Some g \<Rightarrow> if base_of (rows_of ix k) = None then [versionRow g] else rows_of ix k)"
proof -
  have one: "filter (\<lambda>v. v_entityKey v = k) rows = (case genesis_of rows k of None \<Rightarrow> [] | Some g \<Rightarrow> [g])"
    using assms(4)
  proof (induction rows)
    case (Cons g rows)
    have "filter (\<lambda>v. v_entityKey v = k) rows = []" if "v_entityKey g = k"
      using Cons.prems that unfolding filter_empty_conv by (metis distinct.simps(2) imageI list.simps(9) set_map)
    then show ?case using Cons by (auto simp: genesis_of_def)
  qed (simp add: genesis_of_def)
  have "filter (\<lambda>v. v_entityKey v = k) (new_rows rows ix) =
      filter (\<lambda>v. base_of (rows_of ix k) = None) (filter (\<lambda>v. v_entityKey v = k) rows)"
    by (auto simp: new_rows_def intro: filter_cong)
  also have "\<dots> = (case genesis_of rows k of None \<Rightarrow> [] | Some g \<Rightarrow> if base_of (rows_of ix k) = None then [g] else [])"
    by (simp add: one split: option.splits)
  finally have new: "filter (\<lambda>v. v_entityKey v = k) (new_rows rows ix) =
      (case genesis_of rows k of None \<Rightarrow> [] | Some g \<Rightarrow> if base_of (rows_of ix k) = None then [g] else [])" .
  have "rows_of ix k = []" if "genesis_of rows k = Some g" "base_of (rows_of ix k) = None" for g
  proof -
    have "g \<in> set gs" "v_entityKey g = k" using genesis_of_SomeD [OF that(1)] assms(3) by auto
    then have "genesis_of gs k \<noteq> None" using seed_okD(4) [OF assms(2), of g] by auto
    then show ?thesis using assms(1,5) that(2) by (simp add: rows_ok_def unborn_ok_def)
  qed
  moreover have "rows_of (insertGenesisVersions rows ix) k =
      rows_of ix k @ map versionRow (filter (\<lambda>v. v_entityKey v = k) (new_rows rows ix))"
    by (simp add: rows_of_def insert_effect(1) [OF assms(1-4)] filter_map comp_def)
  ultimately show ?thesis by (auto simp: new split: option.splits)
qed

lemma insert_mirrored:
  assumes "rows_ok gs ix" "seed_ok gs" "set rows \<subseteq> set gs" "distinct (map v_entityKey rows)"
  shows "mirrored (insertGenesisVersions rows ix)"
proof -
  obtain vs where "ix_versions ix = map versionRow vs" "ix_attributes ix = attributeRows vs"
    using assms(1) by (auto simp: rows_ok_def mirrored_def)
  then have "ix_versions (insertGenesisVersions rows ix) = map versionRow (vs @ new_rows rows ix)"
    "ix_attributes (insertGenesisVersions rows ix) = attributeRows (vs @ new_rows rows ix)"
    by (simp_all add: insert_effect [OF assms])
  then show ?thesis unfolding mirrored_def by blast
qed

section \<open>The transactions of the import\<close>

lemma rows_frame [simp]:
  "rows_of (ix\<lparr>ix_through := x\<rparr>) = rows_of ix" "rows_of (ix\<lparr>ix_lastFoldAt := l\<rparr>) = rows_of ix"
  "rows_of (ix\<lparr>ix_watermark := x\<rparr>) = rows_of ix" "rows_of (ix\<lparr>ix_floor := x\<rparr>) = rows_of ix"
  "rows_of (ix\<lparr>ix_live := lv\<rparr>) = rows_of ix" "rows_of (ix\<lparr>ix_genesis := g\<rparr>) = rows_of ix"
  by (simp_all add: rows_of_def fun_eq_iff)

lemma fresh_frame:
  assumes "fresh keccak s t gs ix k" "rows_of ix' k = rows_of ix k" "needs_repair ix k \<Longrightarrow> needs_repair ix' k"
  shows "fresh keccak s t gs ix' k"
  using assms by (auto simp: fresh_def settled_def known_base_def seeded_only_def)

text \<open>A transaction that only writes the row of the import.\<close>

lemma import_row_ok:
  assumes ok: "projection_ok keccak config gs w" and idle: "pw_pending w = Idle"
    and ix': "ix' = (pw_index w)\<lparr>ix_genesis := g\<rparr>" and imp: "import_ok gs ix'"
    and rep: "\<And>k. needs_repair (pw_index w) k \<Longrightarrow> needs_repair ix' k"
  shows "projection_ok keccak config gs (w\<lparr>pw_index := ix'\<rparr>)"
proof -
  have rows: "rows_of ix' k = rows_of (pw_index w) k" for k by (simp add: ix')
  note frame = index_frame [OF rows]
  have "rows_ok gs ix'" using ok imp by (simp add: projection_ok_def rows_ok_def frame) (simp add: ix' mirrored_def)
  moreover have "up_to_date keccak gs (w\<lparr>pw_index := ix'\<rparr>) t since" if "up_to_date keccak gs w t since" for t since
    using that fresh_frame [OF _ rows rep] unfolding up_to_date_def by simp blast
  moreover have "ix_through ix' = ix_through (pw_index w)" "ix_floor ix' = ix_floor (pw_index w)"
    "ix_watermark ix' = ix_watermark (pw_index w)" by (simp_all add: ix')
  ultimately show ?thesis using ok idle
    by (auto simp: projection_ok_def frame plan_covers_def rows split: option.splits)
qed

lemma probes_ok:
  assumes ok: "projection_ok keccak config gs w" and idle: "pw_pending w = Idle" and "probed gs next"
    and step: "record_probe next (pw_index w) = Some ix'"
  shows "projection_ok keccak config gs (w\<lparr>pw_index := ix'\<rparr>)"
proof -
  have ix': "ix' = (pw_index w)\<lparr>ix_genesis := Some next\<rparr>" and none: "ix_genesis (pw_index w) = None"
    using step by (auto simp: record_probe_def split: if_splits)
  show ?thesis
  proof (rule import_row_ok [OF ok idle ix'])
    show "import_ok gs ix'"
      using \<open>probed gs next\<close> by (auto simp: import_ok_def ix' probed_def imported_upto_def split: genesis_status.splits)
    show "needs_repair ix' k" if "needs_repair (pw_index w) k" for k
      using that none by (simp add: needs_repair_def)
  qed
qed

lemma restarts_ok:
  assumes ok: "projection_ok keccak config gs w" and idle: "pw_pending w = Idle"
  shows "projection_ok keccak config gs (w\<lparr>pw_index := restart_walk (pw_index w)\<rparr>)"
proof (cases "restart_walk (pw_index w) = pw_index w")
  case True
  then show ?thesis using ok by simp
next
  case False
  then obtain g where g: "ix_genesis (pw_index w) = Some g" "walking g"
    "restart_walk (pw_index w) = (pw_index w)\<lparr>ix_genesis := Some (g\<lparr>gi_cursor := None, gi_imported := 0\<rparr>)\<rparr>"
    by (auto simp: restart_walk_def split: option.splits if_splits)
  have imp: "import_ok gs (pw_index w)" using ok by (simp add: projection_ok_def rows_ok_def)
  show ?thesis
  proof (rule import_row_ok [OF ok idle g(3)])
    show "import_ok gs (restart_walk (pw_index w))"
      using imp g by (simp add: import_ok_def walking_def imported_upto_def)
    show "needs_repair (restart_walk (pw_index w)) k" if "needs_repair (pw_index w) k" for k
      using that g by (simp add: needs_repair_def)
  qed
qed

lemma fails_ok:
  assumes ok: "projection_ok keccak config gs w" and idle: "pw_pending w = Idle"
  shows "projection_ok keccak config gs (w\<lparr>pw_index := fail_import atIso (pw_index w)\<rparr>)"
proof (cases "fail_import atIso (pw_index w) = pw_index w")
  case True
  then show ?thesis using ok by simp
next
  case False
  then obtain g where g: "ix_genesis (pw_index w) = Some g" "gi_status g = GRunning"
    "fail_import atIso (pw_index w) = (pw_index w)\<lparr>ix_genesis := Some
       (g\<lparr>gi_status := GFailed, gi_phase := None, gi_finishedAt := Some atIso, gi_error := Some []\<rparr>)\<rparr>"
    by (auto simp: fail_import_def split: option.splits if_splits)
  show ?thesis
    by (rule import_row_ok [OF ok idle g(3)]) (use g in \<open>simp_all add: import_ok_def needs_repair_def\<close>)
qed

lemma imported_upto_add:
  "imported_upto gs n ix \<Longrightarrow> (\<And>g. g \<in> set (take m (drop n gs)) \<Longrightarrow> base_of (rows_of ix (v_entityKey g)) \<noteq> None) \<Longrightarrow>
   imported_upto gs (n + m) ix"
  by (auto simp: imported_upto_def take_add)

lemma commits_ok:
  assumes ok: "projection_ok keccak config gs w" and idle: "pw_pending w = Idle" and seed: "seed_ok gs"
    and slice: "rows = take (length rows) (drop (nat (snd seen)) gs)"
    and last: "finished \<Longrightarrow> int (length gs) \<le> snd seen + int (length rows)"
    and step: "commit_walk seen rows cursor (snd seen + int (length rows)) finished (pw_index w) = Some ix'"
  shows "projection_ok keccak config gs (w\<lparr>pw_index := ix'\<rparr>)"
proof -
  let ?ix = "pw_index w" and ?n = "nat (snd seen)"
  obtain g where g: "ix_genesis ?ix = Some g" "walking g" "gi_imported g = snd seen"
    and ix': "ix' = (insertGenesisVersions rows ?ix)\<lparr>ix_genesis := Some
        (g\<lparr>gi_imported := snd seen + int (length rows), gi_cursor := cursor,
           gi_phase := (if finished then Some Repair else gi_phase g)\<rparr>)\<rparr>"
    using step by (auto simp: commit_walk_def split: option.splits if_splits)
  have rows_ok: "rows_ok gs ?ix" using ok by (simp add: projection_ok_def)
  then have imp: "gi_repairAfterKey g = None" "0 \<le> snd seen" "imported_upto gs ?n ?ix"
    using g by (simp_all add: rows_ok_def import_ok_def walking_def)
  have "set rows \<subseteq> set gs" using slice by (metis in_set_dropD in_set_takeD subsetI)
  moreover have "distinct (map v_entityKey rows)"
    using seed slice by (metis distinct_drop distinct_take drop_map seed_ok_def take_map)
  ultimately have inserted: "set rows \<subseteq> set gs" "distinct (map v_entityKey rows)" by blast+
  have rows_of: "rows_of ix' k = (case genesis_of rows k of None \<Rightarrow> rows_of ?ix k
     | Some g \<Rightarrow> if base_of (rows_of ?ix k) = None then [versionRow g] else rows_of ?ix k)" if "to_lower k = k" for k
    using insert_rows_of [OF rows_ok seed inserted that] by (simp add: ix')
  have repair: "needs_repair ix' k" for k using g(2) imp(1) by (simp add: needs_repair_def ix' walking_def)
  have seen: "rows_of ix' k = rows_of ?ix k \<or> (rows_of ix' k = [versionRow g0] \<and> genesis_of gs k = Some g0 \<and> genesis_ok g0)"
    if k: "to_lower k = k" and g0: "genesis_of rows k = None \<or> genesis_of rows k = Some g0" for k g0
  proof (cases "genesis_of rows k")
    case (Some g1)
    then have "g0 \<in> set gs" "v_entityKey g0 = k" using g0 inserted(1) by (auto dest: genesis_of_SomeD)
    then have "genesis_of gs k = Some g0" "genesis_ok g0" using seed_okD [OF seed] by blast+
    then show ?thesis using rows_of [OF k] Some g0 by auto
  qed (use rows_of [OF k] in simp)
  have cases: "rows_of ix' k = rows_of ?ix k \<or>
      (\<exists>g0. rows_of ix' k = [versionRow g0] \<and> known_base gs ix' k = Some g0 \<and> base_kept (Some g0) (rows_of ix' k))"
    if k: "to_lower k = k" for k
  proof -
    obtain g0 where "genesis_of rows k = None \<or> genesis_of rows k = Some g0" by (cases "genesis_of rows k") auto
    from seen [OF k this] show ?thesis
    proof
      assume new: "rows_of ix' k = [versionRow g0] \<and> genesis_of gs k = Some g0 \<and> genesis_ok g0"
      then have "base_of (rows_of ix' k) = Some g0" using base_of_own by simp
      moreover from this have "base_kept (Some g0) (rows_of ix' k)"
        unfolding base_kept_def option.case by (intro exI [of _ "v_toBlock g0"]) simp
      ultimately show ?thesis using new by (simp add: known_base_def)
    qed blast
  qed
  have stay: "base_of (rows_of ix' k) \<noteq> None" if "to_lower k = k" "base_of (rows_of ?ix k) \<noteq> None" for k
    using cases [OF that(1)] that(2) by (auto simp: base_kept_def)
  have come: "base_of (rows_of ix' (v_entityKey v)) \<noteq> None" if v: "v \<in> set rows" for v
  proof -
    have "v \<in> set gs" using v inserted(1) by blast
    note v' = seed_okD [OF seed this]
    have "genesis_of rows (v_entityKey v) = Some v"
      unfolding genesis_of_def by (rule map_of_is_SomeI) (use inserted(2) v in \<open>auto simp: comp_def\<close>)
    then show ?thesis using rows_of [OF v'(3)] stay [OF v'(3)] base_of_own [OF v'(1)] by (auto split: if_splits)
  qed
  have upto: "imported_upto gs (?n + length rows) ix'"
  proof (rule imported_upto_add)
    show "imported_upto gs ?n ix'"
      using imp(3) stay seed_okD(3) [OF seed] unfolding imported_upto_def by (meson in_set_takeD)
    show "base_of (rows_of ix' (v_entityKey v)) \<noteq> None" if "v \<in> set (take (length rows) (drop ?n gs))" for v
      using come that slice by simp
  qed
  have "imported_upto gs (length gs) ix'" if "finished"
    using upto last [OF that] imp(2) by (simp add: imported_upto_def nat_le_iff)
  moreover have "nat (snd seen + int (length rows)) = ?n + length rows" using imp(2) by simp
  ultimately have "import_ok gs ix'"
    using g(2) imp(1,2) upto by (auto simp: import_ok_def ix' walking_def)
  moreover have "unborn_ok gs ix'"
    unfolding unborn_ok_def
  proof (intro allI impI)
    fix k assume k: "to_lower k = k" "genesis_of gs k \<noteq> None" "base_of (rows_of ix' k) = None"
    then have "rows_of ix' k = rows_of ?ix k" using cases [OF k(1)] by (auto simp: base_kept_def)
    then show "rows_of ix' k = []" using k rows_ok by (simp add: rows_ok_def unborn_ok_def)
  qed
  moreover have "bases_kept (known_base gs ix') ix'"
    unfolding bases_kept_def
  proof (intro allI impI)
    fix k assume k: "to_lower k = k"
    have "base_kept (known_base gs ?ix k) (rows_of ?ix k)" using k rows_ok by (simp add: rows_ok_def bases_kept_def)
    moreover have "known_base gs ix' k = known_base gs ?ix k" if "rows_of ix' k = rows_of ?ix k"
      using that by (simp add: known_base_def)
    ultimately show "base_kept (known_base gs ix' k) (rows_of ix' k)" using cases [OF k] by auto
  qed
  moreover have "mirrored ix'"
    using insert_mirrored [OF rows_ok seed inserted] by (simp add: ix' mirrored_def)
  ultimately have "rows_ok gs ix'" by (simp add: rows_ok_def)
  moreover have "up_to_date keccak gs (w\<lparr>pw_index := ix'\<rparr>) t since" if date: "up_to_date keccak gs w t since" for t since
    unfolding up_to_date_def
  proof (intro allI impI)
    fix k assume k: "to_lower k = k"
    show "fresh keccak (pw_store (w\<lparr>pw_index := ix'\<rparr>)) t gs (pw_index (w\<lparr>pw_index := ix'\<rparr>)) k \<or>
        waiting (pw_stamp (w\<lparr>pw_index := ix'\<rparr>)) (pw_store (w\<lparr>pw_index := ix'\<rparr>)) t since k"
      using cases [OF k]
    proof
      assume "rows_of ix' k = rows_of ?ix k"
      then show ?thesis using date k fresh_frame [of keccak "pw_store w" t gs ?ix k ix'] repair
        unfolding up_to_date_def by auto
    qed (use repair in \<open>auto simp: fresh_def seeded_only_def\<close>)
  qed
  moreover have "rows_of ix' k = [] \<or> seeded_only gs ix' k"
    if "rows_of ?ix k = [] \<or> seeded_only gs ?ix k" "to_lower k = k" for k
    using cases [OF that(2)] that(1) by (auto simp: seeded_only_def known_base_def)
  moreover have "ix_through ix' = ix_through ?ix" "ix_floor ix' = ix_floor ?ix" "ix_watermark ix' = ix_watermark ?ix"
    by (simp_all add: ix' insertGenesisVersions_def)
  ultimately show ?thesis using ok idle
    by (auto simp: projection_ok_def plan_covers_def split: option.splits)
qed

lemma key_ops_none: "(\<And>tx. touches s k tx \<Longrightarrow> \<not> fst tx \<le> t) \<Longrightarrow> key_ops s t k = Inr []"
proof -
  assume none: "\<And>tx. touches s k tx \<Longrightarrow> \<not> fst tx \<le> t"
  have "filter (\<lambda>tx. touches s k tx \<and> fst tx \<le> t) (applied_txs s) = []"
    using none by (auto simp: filter_empty_conv)
  then show ?thesis by (simp add: key_ops_def)
qed

lemma fold_nothing: "genesis_ok g \<Longrightarrow> foldEntityVersions keccak k [] (Some g) = Inr [g]"
  using genesis_start [of g "v_toBlock g"] by (simp add: foldEntityVersions_def)

lemma untouched_ops:
  assumes "untouched s 0 t k" "after_genesis s"
  shows "key_ops s t k = Inr []"
proof (rule key_ops_none)
  fix tx assume "touches s k tx"
  then obtain r where r: "r \<in> set (st_operations s)" "o_entityKey (or_operation r) = Some k" "fst tx = or_blockNumber r"
    by (auto simp: touches_def tx_of_def)
  then have "1 \<le> or_blockNumber r" using assms(2) by (simp add: after_genesis_def)
  then show "\<not> fst tx \<le> t" using assms(1) r by (auto simp: untouched_def)
qed

text \<open>An entity without operations is its genesis state.\<close>

lemma seeded_settled:
  assumes "key_ops s t k = Inr []" "seeded_only gs ix k" "seed_ok gs"
  shows "settled keccak s t (known_base gs ix) ix k"
proof -
  obtain g where g: "known_base gs ix k = Some g" "rows_of ix k = [versionRow g]" using assms(2) by (auto simp: seeded_only_def)
  then have "genesis_of gs k = Some g" by (simp add: known_base_def split: if_splits)
  then have "genesis_ok g" using seed_okD(1) [OF assms(3)] genesis_of_SomeD by blast
  then show ?thesis by (simp add: settled_def rebuilt_def assms(1) g fold_nothing)
qed

lemma unknown_settled:
  assumes "\<And>vs. rebuilt keccak s t k None = Inr vs \<Longrightarrow> vs = []" "rows_of ix k = []"
  shows "settled keccak s t (known_base gs ix) ix k"
  using assms by (simp add: settled_def known_base_def)

subsection \<open>The index starts\<close>

lemma min_of_le: "min_of ns = Some m \<Longrightarrow> n \<in> set ns \<Longrightarrow> m \<le> n" for n :: int
proof -
  have step: "foldl min a ns \<le> a \<and> (\<forall>n \<in> set ns. foldl min a ns \<le> n)" for a and ns :: "int list"
  proof (induction ns arbitrary: a)
    case (Cons x ns)
    then show ?case by (smt (verit) foldl_Cons set_ConsD)
  qed simp
  assume "min_of ns = Some m" "n \<in> set ns"
  then show "m \<le> n" using step by (auto simp: min_of_def split: if_splits)
qed

lemma floor_creates:
  assumes "start_fold config now head s ix = Some ix'" "pc_floorOverride config = None" "after_genesis s"
  shows "\<exists>f. ix' = ix\<lparr>ix_floor := Some f, ix_through := Some (f - 1), ix_watermark := Some now\<rparr> \<and>
    (\<forall>r \<in> set (st_operations s). is_create_row r \<longrightarrow> o_entityKey (or_operation r) \<noteq> None \<longrightarrow> f \<le> or_blockNumber r)"
proof -
  have "f \<le> or_blockNumber r" if "detectFloorBlock s = Some f" "r \<in> set (st_operations s)" "is_create_row r"
    "o_entityKey (or_operation r) \<noteq> None" for f r
    by (rule min_of_le [OF that(1) [unfolded detectFloorBlock_def]]) (use that in auto)
  moreover have "0 \<le> or_blockNumber r" if "r \<in> set (st_operations s)" for r
    using assms(3) that by (auto simp: after_genesis_def)
  moreover have "\<exists>f. ix' = ix\<lparr>ix_floor := Some f, ix_through := Some (f - 1), ix_watermark := Some now\<rparr> \<and>
      (f = 0 \<or> detectFloorBlock s = Some f)"
  proof (cases "knownFromBlockZero config (case detectFloorBlock s of None \<Rightarrow> head + 1 | Some d \<Rightarrow> d) s ix")
    case True
    then show ?thesis using assms(1,2)
      by (intro exI [of _ 0]) (simp add: start_fold_def Let_def detected_floor_def)
  next
    case False
    then show ?thesis using assms(1,2) by (auto simp: start_fold_def Let_def detected_floor_def)
  qed
  ultimately show ?thesis by blast
qed

lemma no_creates_fold:
  assumes "rebuilt keccak s t k None = Inr vs"
    and "\<forall>r \<in> set (st_operations s). is_create_row r \<longrightarrow> o_entityKey (or_operation r) \<noteq> None \<longrightarrow> t < or_blockNumber r"
  shows "vs = []"
proof -
  obtain ops where ops: "key_ops s t k = Inr ops" "foldEntityVersions keccak k ops None = Inr vs"
    using assms(1) by (auto simp: rebuilt_def bind_result_eq_Inr)
  have "r_operationType oper \<noteq> OPERATION_CREATE" if oper: "oper \<in> set ops" for oper
  proof
    assume create: "r_operationType oper = OPERATION_CREATE"
    obtain r tx k' where r: "(r, tx) \<in> set (joined_rows s)" "or_blockNumber r = r_blockNumber oper"
      "o_operationType (or_operation r) = r_operationType oper" "o_entityKey (or_operation r) = Some k'"
      using key_ops_records [OF ops(1) oper] by blast
    have "t < r_blockNumber oper"
      using assms(2) joined_rows_op [OF r(1)] r create by (auto simp: is_create_row_def OPERATION_CREATE_def)
    moreover have "r_blockNumber oper \<le> t" by (rule key_ops_below [OF ops(1) oper])
    ultimately show False by simp
  qed
  then show ?thesis using fold_without_create [OF ops(2)] by blast
qed

text \<open>
  What starting the fold leaves, with the first fold point below every create or at block 0: an entity that
  has no row yet gets none, and one that has its genesis row alone keeps it.
\<close>

lemma first_fold_ok:
  assumes ok: "projection_ok keccak config gs w" and idle: "pw_pending w = Idle" and none: "ix_through (pw_index w) = None"
    and seed: "seed_ok gs" and now: "now \<le> pw_clock w"
    and ix': "ix' = (pw_index w)\<lparr>ix_floor := Some f, ix_through := Some t, ix_watermark := Some now\<rparr>"
    and creates: "\<And>r. r \<in> set (st_operations (pw_store w)) \<Longrightarrow> is_create_row r \<Longrightarrow> o_entityKey (or_operation r) \<noteq> None \<Longrightarrow>
      t < or_blockNumber r"
  shows "projection_ok keccak config gs (w\<lparr>pw_index := ix'\<rparr>)"
proof -
  let ?ix = "pw_index w" and ?s = "pw_store w"
  have rows: "rows_of ix' k = rows_of ?ix k" for k by (simp add: ix')
  note frame = index_frame [OF rows]
  have old: "import_ok gs ?ix" "rows_ok gs ?ix" "after_genesis ?s"
    "\<And>k. to_lower k = k \<Longrightarrow> rows_of ?ix k = [] \<or> seeded_only gs ?ix k"
    using ok none by (simp_all add: projection_ok_def rows_ok_def)
  have "import_ok gs ix'"
    by (rule import_ok_frame [OF old(1) seed]) (simp_all add: ix' none rows frame [unfolded ix'])
  then have "rows_ok gs ix'" using old(2) by (simp add: rows_ok_def frame) (simp add: mirrored_def ix')
  moreover have "up_to_date keccak gs (w\<lparr>pw_index := ix'\<rparr>) t since" for since
  proof -
    have "fresh keccak ?s t gs ix' k" if k: "to_lower k = k" for k
    proof (cases "rows_of ?ix k = []")
      case True
      have "settled keccak ?s t (known_base gs ix') ix' k"
        by (rule unknown_settled) (use no_creates_fold [of keccak ?s t k] creates True rows in auto)
      then show ?thesis by (simp add: fresh_def)
    next
      case False
      then have only: "seeded_only gs ?ix k" using old(4) [OF k] by blast
      then have based: "base_of (rows_of ?ix k) \<noteq> None" by (auto simp: seeded_only_def known_base_def split: if_splits)
      have "needs_repair ix' k"
      proof (cases "ix_genesis ?ix")
        case None
        then show ?thesis using old(1) based k by (simp add: import_ok_def)
      next
        case (Some g)
        have "gi_status g \<noteq> GNone"
          using old(1) Some only by (auto simp: import_ok_def seeded_only_def known_base_def genesis_of_def split: if_splits)
        moreover have "gi_status g \<noteq> GDone" "gi_phase g = Some Repair \<longrightarrow> gi_repairAfterKey g = None"
          using old(1) Some none by (auto simp: import_ok_def)
        ultimately show ?thesis using Some by (auto simp: needs_repair_def ix')
      qed
      then show ?thesis using only by (simp add: fresh_def frame)
    qed
    then show ?thesis by (simp add: up_to_date_def)
  qed
  ultimately show ?thesis using ok idle now by (simp add: projection_ok_def plan_covers_def ix')
qed

lemma starts_ok:
  assumes ok: "projection_ok keccak config gs w" and idle: "pw_pending w = Idle" and none: "ix_floor (pw_index w) = None"
    and start: "start_fold config now head (pw_store w) (pw_index w) = Some ix'" and now: "now \<le> pw_clock w"
    and override: "pc_floorOverride config = None" and seed: "seed_ok gs"
  shows "projection_ok keccak config gs (w\<lparr>pw_index := ix'\<rparr>)"
proof -
  have store: "after_genesis (pw_store w)" "ix_through (pw_index w) = None" using ok none by (simp_all add: projection_ok_def)
  obtain f where f: "ix' = (pw_index w)\<lparr>ix_floor := Some f, ix_through := Some (f - 1), ix_watermark := Some now\<rparr>"
    "\<forall>r \<in> set (st_operations (pw_store w)). is_create_row r \<longrightarrow> o_entityKey (or_operation r) \<noteq> None \<longrightarrow> f \<le> or_blockNumber r"
    using floor_creates [OF start override store(1)] by blast
  show ?thesis by (rule first_fold_ok [OF ok idle store(2) seed now f(1)]) (use f(2) in auto)
qed

lemma same_index_ok:
  assumes ok: "projection_ok keccak config gs w" and seed: "seed_ok gs" and rows: "\<And>k. rows_of ix' k = rows_of (pw_index w) k"
    and tables: "ix_versions ix' = ix_versions (pw_index w)" "ix_attributes ix' = ix_attributes (pw_index w)"
    and same: "ix_through ix' = ix_through (pw_index w)" "ix_watermark ix' = ix_watermark (pw_index w)"
    "ix_floor ix' = None \<longleftrightarrow> ix_floor (pw_index w) = None" "ix_genesis ix' = ix_genesis (pw_index w)"
  shows "projection_ok keccak config gs (w\<lparr>pw_index := ix'\<rparr>)"
proof -
  note frame = index_frame [OF rows]
  have repair: "needs_repair ix' k = needs_repair (pw_index w) k" for k by (simp add: needs_repair_def same(4))
  have "import_ok gs ix'" if "import_ok gs (pw_index w)"
    by (rule import_ok_frame [OF that seed same(4)]) (simp_all add: same(1) rows frame)
  then have "rows_ok gs ix'" using ok tables by (simp add: projection_ok_def rows_ok_def frame mirrored_def)
  moreover have "up_to_date keccak gs (w\<lparr>pw_index := ix'\<rparr>) t since = up_to_date keccak gs w t since" for t since
    by (simp add: up_to_date_def fresh_def repair frame)
  moreover have "plan_covers config gs (w\<lparr>pw_index := ix'\<rparr>) t wm = plan_covers config gs w t wm" for t wm
    by (simp add: plan_covers_def cong: pending.case_cong)
  ultimately show ?thesis using ok same
    by (simp add: projection_ok_def frame rows cong: option.case_cong pending.case_cong)
qed

lemma floors_ok:
  assumes ok: "projection_ok keccak config gs w" and idle: "pw_pending w = Idle"
    and step: "set_floor state now (pw_index w) = Some ix'" and now: "now \<le> pw_clock w" and seed: "seed_ok gs"
  shows "projection_ok keccak config gs (w\<lparr>pw_index := ix'\<rparr>)"
proof (cases "ix_through (pw_index w)")
  case None
  then have "ix_floor (pw_index w) = None" "ix_watermark (pw_index w) = None" using ok by (simp_all add: projection_ok_def)
  then have "ix' = (pw_index w)\<lparr>ix_floor := Some 0, ix_through := Some 0, ix_watermark := Some now\<rparr>"
    using step None by (auto simp: set_floor_def split: option.splits if_splits)
  then show ?thesis
    by (rule first_fold_ok [OF ok idle None seed now]) (use ok in \<open>auto simp: projection_ok_def after_genesis_def\<close>)
next
  case (Some t)
  then obtain f wm where "ix_floor (pw_index w) = Some f" "ix_watermark (pw_index w) = Some wm"
    using ok by (auto simp: projection_ok_def)
  then have "ix' = pw_index w \<or> ix' = (pw_index w)\<lparr>ix_floor := Some 0, ix_through := Some t, ix_watermark := Some wm\<rparr>"
    using step Some by (auto simp: set_floor_def split: option.splits if_splits)
  then show ?thesis
  proof
    assume "ix' = (pw_index w)\<lparr>ix_floor := Some 0, ix_through := Some t, ix_watermark := Some wm\<rparr>"
    then show ?thesis
      using \<open>ix_floor (pw_index w) = Some f\<close> \<open>ix_watermark (pw_index w) = Some wm\<close> Some
      by (intro same_index_ok [OF ok seed]) simp_all
  qed (use ok in simp)
qed

subsection \<open>The repair\<close>

lemma taken_covers:
  fixes xs :: "'a :: linorder list"
  assumes "sorted xs" "k \<in> set xs" "k \<notin> set (take n xs)" "0 < n"
  shows "n \<le> length (take n xs) \<and> last (take n xs) < k"
proof -
  have len: "n < length xs" using assms(2,3) by (metis not_le take_all)
  have "k \<in> set (drop n xs)" using assms(2,3) by (metis UnE append_take_drop_id set_append)
  moreover have "last (take n xs) \<in> set (take n xs)" using assms(4) len by (intro last_in_set) auto
  moreover have "sorted (take n xs @ drop n xs)" using assms(1) by simp
  ultimately have "last (take n xs) \<le> k" unfolding sorted_append by blast
  moreover have "last (take n xs) \<noteq> k" using \<open>last (take n xs) \<in> set (take n xs)\<close> assms(3) by auto
  ultimately show ?thesis using len by simp
qed

lemma genesis_keys_cover:
  assumes "lower_keys s" "to_lower k = k" "base_of (rows_of ix k) \<noteq> None" "resume_key afterKey < k" "0 < limit"
    and keys: "keys = genesisKeysWithOperations t afterKey limit s ix"
    and "k \<notin> set keys" "length keys < limit \<or> k \<le> last keys"
  shows "untouched s 0 t k"
proof (rule ccontr)
  assume "\<not> untouched s 0 t k"
  then obtain r where r: "r \<in> set (st_operations s)" "o_entityKey (or_operation r) = Some k" "or_blockNumber r \<le> t"
    by (auto simp: untouched_def)
  let ?all = "sort (remdups (filter (\<lambda>k. k > (case afterKey of None \<Rightarrow> [] | Some a \<Rightarrow> a) \<and>
         list_ex (\<lambda>r. row_key r = k \<and> is_genesis_row r) (ix_versions ix))
       (map to_lower (List.map_filter (\<lambda>r. o_entityKey (or_operation r))
         (filter (\<lambda>r. or_blockNumber r \<le> t) (st_operations s))))))"
  have keys': "keys = take limit ?all" by (simp add: keys genesisKeysWithOperations_def)
  have "to_lower k \<in> set (map to_lower (List.map_filter (\<lambda>r. o_entityKey (or_operation r))
      (filter (\<lambda>r. or_blockNumber r \<le> t) (st_operations s))))"
    using r by (force simp: map_filter_def image_iff)
  then have "k \<in> set ?all"
    using assms(2-4) unfolding base_of_row by (auto simp: resume_key_def row_of_key list_ex_iff)
  moreover have "sorted ?all" by simp
  ultimately have "limit \<le> length keys \<and> last keys < k"
    unfolding keys' using assms(5,7) by (intro taken_covers) (simp_all add: keys')
  then show False using assms(8) by auto
qed

lemma genesis_keys_lower:
  assumes "lower_keys s" "k \<in> set (genesisKeysWithOperations t afterKey limit s ix)"
  shows "to_lower k = k"
proof -
  have "k \<in> keyed_lower s" by (rule genesis_keys_after(2) [OF assms(2)])
  then show ?thesis using assms(1) by (auto simp: keyed_lower_def map_filter_def lower_keys_def)
qed

lemma selects_ok:
  assumes ok: "projection_ok keccak config gs w" and idle: "pw_pending w = Idle" and through: "ix_through (pw_index w) = Some t"
    and g: "ix_genesis (pw_index w) = Some g" "gi_status g = GRunning" "gi_phase g = Some Repair" and limit: "0 < limit"
    and keys: "keys = genesisKeysWithOperations t (gi_repairAfterKey g) limit (pw_store w) (pw_index w)"
  shows "projection_ok keccak config gs (w\<lparr>pw_pending := Repairing keys (gi_repairAfterKey g) t (length keys < limit)\<rparr>)"
proof -
  let ?w = "w\<lparr>pw_pending := Repairing keys (gi_repairAfterKey g) t (length keys < limit)\<rparr>"
  have lower: "lower_keys (pw_store w)" using ok by (simp add: projection_ok_def)
  have "imported_upto gs (length gs) (pw_index w)" using ok g by (simp add: projection_ok_def rows_ok_def import_ok_def)
  then have based: "base_of (rows_of (pw_index w) k) \<noteq> None" if "genesis_of gs k \<noteq> None" for k
    using imported_all [of gs "pw_index w" k] that by (auto simp: known_base_def split: if_splits)
  have "distinct keys" by (simp add: keys genesisKeysWithOperations_def)
  moreover have "\<forall>k \<in> set keys. to_lower k = k" using genesis_keys_lower [OF lower] by (auto simp: keys)
  moreover have "keys = [] \<longrightarrow> length keys < limit" using limit by simp
  moreover have "untouched (pw_store w) 0 t k"
    if "to_lower k = k" "k \<notin> set keys" "genesis_of gs k \<noteq> None" "resume_key (gi_repairAfterKey g) < k"
      "length keys < limit \<or> k \<le> last keys" for k
    by (rule genesis_keys_cover [OF lower that(1) based [OF that(3)] that(4) limit keys that(2,5)])
  ultimately have "plan_covers config gs ?w t wm" for wm
    unfolding plan_covers_def by simp
  then show ?thesis using ok through idle by (auto simp: projection_ok_def up_to_date_def)
qed

lemma repairs_ok:
  assumes ok: "projection_ok keccak config gs w" and seed: "seed_ok gs" and pend: "pw_pending w = Repairing keys afterKey t finished"
    and run: "repair_batch keccak config state afterKey keys t finished atIso (pw_store w) (pw_index w) = Inr (Some ix')"
  shows "projection_ok keccak config gs (w\<lparr>pw_index := ix', pw_pending := Idle\<rparr>)"
proof -
  let ?s = "pw_store w" and ?ix = "pw_index w"
  obtain h where h: "ix_through ?ix = Some h" using ok pend by (cases "ix_through ?ix") (auto simp: projection_ok_def)
  obtain wm where wm: "ix_watermark ?ix = Some wm" "wm \<le> pw_clock w" "plan_covers config gs w h wm"
    "up_to_date keccak gs w h (late_since config wm)"
    using ok h pend by (auto simp: projection_ok_def)
  have plan: "h = t" "distinct keys" "\<forall>k \<in> set keys. to_lower k = k" "keys = [] \<Longrightarrow> finished"
    "\<And>k. to_lower k = k \<Longrightarrow> k \<notin> set keys \<Longrightarrow> genesis_of gs k \<noteq> None \<Longrightarrow> resume_key afterKey < k \<Longrightarrow>
       finished \<or> k \<le> last keys \<Longrightarrow> untouched ?s 0 t k \<or> waiting (pw_stamp w) ?s t (late_since config wm) k"
    using wm(3) unfolding plan_covers_def pend pending.case by blast+
  have store: "lower_keys ?s" "after_genesis ?s" "never_created gs ?s" and rows: "rows_ok gs ?ix"
    using ok by (simp_all add: projection_ok_def)
  obtain g ix1 where g: "ix_genesis ?ix = Some g" "gi_status g = GRunning" "gi_phase g = Some Repair" "gi_repairAfterKey g = afterKey"
    and ix1: "keys = [] \<and> ix1 = ?ix \<or> (\<exists>n v. refoldEntities keccak (pc_foldKeyBatch config) keys t ?s ?ix = Inr (ix1, n, v))"
    and ix': "ix' = ix1\<lparr>ix_genesis := Some (if finished then finish_import atIso g else g\<lparr>gi_repairAfterKey := Some (last keys)\<rparr>)\<rparr>"
    using run by (fastforce simp: repair_batch_def repairing_def bind_result_eq_Inr split: option.splits if_splits)
  have all: "imported_upto gs (length gs) ?ix" using rows g by (simp add: rows_ok_def import_ok_def)
  have effect: "rows_ok gs ix1" "\<forall>k. k \<notin> set keys \<longrightarrow> rows_of ix1 k = rows_of ?ix k"
    "\<forall>k \<in> set keys. settled keccak ?s t (known_base gs ix1) ix1 k"
    "ix1 = ?ix\<lparr>ix_versions := ix_versions ix1, ix_attributes := ix_attributes ix1\<rparr>"
  proof -
    note refold = refold_rows_ok [OF _ store rows seed plan(2,3) imported_all [OF all] _ genesis_of_known [OF seed]]
    show "rows_ok gs ix1" using ix1 refold(1) rows by blast
    show "\<forall>k. k \<notin> set keys \<longrightarrow> rows_of ix1 k = rows_of ?ix k" using ix1 refold(2) by blast
    show "\<forall>k \<in> set keys. settled keccak ?s t (known_base gs ix1) ix1 k" using ix1 refold(3) by fastforce
    show "ix1 = ?ix\<lparr>ix_versions := ix_versions ix1, ix_attributes := ix_attributes ix1\<rparr>" using ix1 refold(5) by fastforce
  qed
  have same: "ix_genesis ix1 = Some g" "ix_through ix1 = Some t" "ix_watermark ix1 = Some wm" "ix_floor ix1 = ix_floor ?ix"
    using arg_cong [OF effect(4), of ix_genesis] arg_cong [OF effect(4), of ix_through] arg_cong [OF effect(4), of ix_watermark]
      arg_cong [OF effect(4), of ix_floor] g(1) h wm(1) plan(1) by simp_all
  have rows': "rows_of ix' k = rows_of ix1 k" for k by (simp add: ix')
  note frame = index_frame [OF rows']
  have "import_ok gs ix'"
    using effect(1) g same by (auto simp: rows_ok_def import_ok_def ix' finish_import_def imported_upto_def)
  then have "rows_ok gs ix'" using effect(1) by (simp add: rows_ok_def frame) (simp add: ix' mirrored_def)
  moreover have "fresh keccak ?s t gs ix' k \<or> waiting (pw_stamp w) ?s t (late_since config wm) k" if low: "to_lower k = k" for k
  proof (cases "k \<in> set keys")
    case True
    then show ?thesis using effect(3) by (simp add: fresh_def frame)
  next
    case False
    then have k: "rows_of ix' k = rows_of ?ix k" using effect(2) rows' by simp
    have "fresh keccak ?s t gs ?ix k \<or> waiting (pw_stamp w) ?s t (late_since config wm) k"
      using wm(4) low plan(1) by (simp add: up_to_date_def)
    moreover have ?thesis if need: "needs_repair ?ix k" "seeded_only gs ?ix k"
    proof -
      have only: "seeded_only gs ix' k" using need(2) k by (simp add: seeded_only_def known_base_def)
      obtain g0 where "known_base gs ?ix k = Some g0" using need(2) by (auto simp: seeded_only_def)
      then have gk: "genesis_of gs k = Some g0" by (simp add: known_base_def split: if_splits)
      then have "k \<noteq> []" using seed_okD(2) [OF seed] genesis_of_SomeD by blast
      then have "[] < k" by (cases k) auto
      then have after: "resume_key afterKey < k" using need(1) g by (auto simp: needs_repair_def resume_key_def split: option.splits)
      show ?thesis
      proof (cases "finished \<or> k \<le> last keys")
        case True
        then have "untouched ?s 0 t k \<or> waiting (pw_stamp w) ?s t (late_since config wm) k" using plan(5) low False gk after by simp
        then show ?thesis using seeded_settled [OF untouched_ops [OF _ store(2)] only seed] by (auto simp: fresh_def)
      next
        case False
        then have "needs_repair ix' k" using g by (simp add: needs_repair_def ix')
        then show ?thesis using only by (simp add: fresh_def)
      qed
    qed
    moreover have ?thesis if "settled keccak ?s t (known_base gs ?ix) ?ix k"
      using that k by (simp add: fresh_def settled_def known_base_def)
    ultimately show ?thesis unfolding fresh_def by blast
  qed
  then have "up_to_date keccak gs (w\<lparr>pw_index := ix', pw_pending := Idle\<rparr>) t (late_since config wm)"
    by (simp add: up_to_date_def)
  ultimately show ?thesis using ok h wm(1,2) store same plan(1) by (simp add: projection_ok_def plan_covers_def ix')
qed

end
