(* ===== verification/ArkivRpc.thy ===== *)
theory ArkivRpc
  imports EntityStore
begin

text \<open>
  The entity read methods served from the index (src/src/arkivJsonRpc.ts): the selection a caller may
  ask for, the cursors that resume a page, the options and their checks in the order of the source, the
  entity as it is answered, and the methods \<open>arkiv_query\<close> and \<open>arkiv_getEntityCount\<close>. A request makes two
  reads, of the fold's progress and of the rows; each is an argument. The statement timeout of
  \<open>withReadTimeout\<close> is not modelled, and the texts of messages are constructors.
\<close>

unbundle bit_operations_syntax

section \<open>Errors\<close>

datatype arkiv_error =
    InvalidParams
  | CursorError
  | QueryRefused query_error_body
  | BlockAboveHead int int
  | BlockBelowFloor int int
  | IndexIncomplete readiness_reason
  | NothingProjected
  | StorageThrew index_error
  | BufferRange

definition JSON_RPC_CURSOR_ERROR :: int where
  "JSON_RPC_CURSOR_ERROR = - 32005"

definition JSON_RPC_BLOCK_UNAVAILABLE :: int where
  "JSON_RPC_BLOCK_UNAVAILABLE = - 32006"

definition JSON_RPC_INVALID_PARAMS :: int where
  "JSON_RPC_INVALID_PARAMS = - 32602"

definition JSON_RPC_SERVER_ERROR :: int where
  "JSON_RPC_SERVER_ERROR = - 32000"

text \<open>The code of a \<open>JsonRpcError\<close>; \<open>None\<close> is any other exception.\<close>

fun arkiv_error_code :: "arkiv_error \<Rightarrow> int option" where
  "arkiv_error_code InvalidParams = Some JSON_RPC_INVALID_PARAMS"
| "arkiv_error_code CursorError = Some JSON_RPC_CURSOR_ERROR"
| "arkiv_error_code (QueryRefused body) = Some (qb_code body)"
| "arkiv_error_code (BlockAboveHead b h) = Some JSON_RPC_BLOCK_UNAVAILABLE"
| "arkiv_error_code (BlockBelowFloor b f) = Some JSON_RPC_BLOCK_UNAVAILABLE"
| "arkiv_error_code (IndexIncomplete r) = Some JSON_RPC_SERVER_ERROR"
| "arkiv_error_code NothingProjected = Some JSON_RPC_SERVER_ERROR"
| "arkiv_error_code (StorageThrew e) = None"
| "arkiv_error_code BufferRange = None"

section \<open>The selection\<close>

definition DEFAULT_PAGE_SIZE :: int where
  "DEFAULT_PAGE_SIZE = 100"

definition MAX_PAGE_SIZE :: int where
  "MAX_PAGE_SIZE = 200"

definition MAX_SELECTED_ATTRIBUTES :: nat where
  "MAX_SELECTED_ATTRIBUTES = 256"

definition SELECT_FIELDS :: "string list" where
  "SELECT_FIELDS =
     [''key'', ''owner'', ''creator'', ''createdAt'', ''updatedAt'', ''expiresAt'', ''creationFlags'',
      ''attributeSchema'', ''attributes'']"

datatype attribute_projection = AttrOff | AttrAll | AttrNamed "string list"

record selection =
  se_key :: bool
  se_owner :: bool
  se_creator :: bool
  se_createdAt :: bool
  se_updatedAt :: bool
  se_expiresAt :: bool
  se_creationFlags :: bool
  se_attributeSchema :: bool
  se_attributes :: attribute_projection

definition defaultProjection :: selection where
  "defaultProjection =
     \<lparr>se_key = True, se_owner = False, se_creator = False, se_createdAt = False, se_updatedAt = False,
      se_expiresAt = False, se_creationFlags = False, se_attributeSchema = False, se_attributes = AttrOff\<rparr>"

text \<open>\<open>/^[A-Za-z][A-Za-z0-9._-]{0,31}$/\<close>.\<close>

definition protocol_char :: "char \<Rightarrow> bool" where
  "protocol_char c \<longleftrightarrow> is_alpha c \<or> is_digit c \<or> c = CHR ''.'' \<or> c = CHR ''_'' \<or> c = CHR ''-''"

definition isProtocolName :: "string \<Rightarrow> bool" where
  "isProtocolName name =
     (case name of [] \<Rightarrow> False | c # rest \<Rightarrow> is_alpha c \<and> list_all protocol_char rest \<and> length rest \<le> 31)"

definition add_name :: "string \<Rightarrow> string list \<Rightarrow> string list" where
  "add_name name names = (if name \<in> set names then names else names @ [name])"

definition select_name :: "string \<times> jsval \<Rightarrow> string list \<Rightarrow> arkiv_error + string list" where
  "select_name entry names =
     (if \<not> isProtocolName (fst entry) \<or> \<not> isBoolean (snd entry) then Inl InvalidParams
      else Inr (if snd entry = JBool True then add_name (fst entry) names else names))"

definition set_flag :: "string \<Rightarrow> bool \<Rightarrow> selection \<Rightarrow> selection" where
  "set_flag name b p =
     (if name = ''key'' then p\<lparr>se_key := b\<rparr>
      else if name = ''owner'' then p\<lparr>se_owner := b\<rparr>
      else if name = ''creator'' then p\<lparr>se_creator := b\<rparr>
      else if name = ''createdAt'' then p\<lparr>se_createdAt := b\<rparr>
      else if name = ''updatedAt'' then p\<lparr>se_updatedAt := b\<rparr>
      else if name = ''expiresAt'' then p\<lparr>se_expiresAt := b\<rparr>
      else if name = ''creationFlags'' then p\<lparr>se_creationFlags := b\<rparr>
      else if name = ''attributeSchema'' then p\<lparr>se_attributeSchema := b\<rparr>
      else p\<lparr>se_attributes := (if b then AttrAll else AttrOff)\<rparr>)"

definition select_field :: "string \<times> jsval \<Rightarrow> selection \<Rightarrow> arkiv_error + selection" where
  "select_field entry p =
     (let (name, value) = entry in
      if name \<notin> set SELECT_FIELDS then Inl InvalidParams
      else case (if name = ''attributes'' then obj_fields value else None) of
        Some entries \<Rightarrow>
          if length entries > MAX_SELECTED_ATTRIBUTES then Inl InvalidParams
          else bind_result (fold_result select_name entries []) (\<lambda>names. Inr (p\<lparr>se_attributes := AttrNamed names\<rparr>))
      | None \<Rightarrow> (case value of JBool b \<Rightarrow> Inr (set_flag name b p) | _ \<Rightarrow> Inl InvalidParams))"

definition parseProjection :: "jsval \<Rightarrow> arkiv_error + selection" where
  "parseProjection select =
     (if select = JUndef then Inr defaultProjection
      else case obj_fields select of
        None \<Rightarrow> Inl InvalidParams
      | Some entries \<Rightarrow> fold_result select_field entries defaultProjection)"

definition flag_byte :: "bool \<Rightarrow> char" where
  "flag_byte b = char_of (if b then 1 else 0 :: nat)"

definition projectionFingerprint :: "selection \<Rightarrow> string" where
  "projectionFingerprint p =
     map flag_byte
       [se_key p, se_owner p, se_creator p, se_createdAt p, se_updatedAt p, se_expiresAt p, se_creationFlags p,
        se_attributeSchema p] @
     (case se_attributes p of
        AttrOff \<Rightarrow> [char_of (0 :: nat)]
      | AttrAll \<Rightarrow> [char_of (1 :: nat)]
      | AttrNamed names \<Rightarrow> char_of (2 :: nat) # concat (map (\<lambda>n. utf8_bytes n @ [char_of (0 :: nat)]) (sort names)))"

section \<open>Cursors\<close>

definition BINDING_LENGTH :: nat where
  "BINDING_LENGTH = 16"

text \<open>The \<open>w\<close> bytes of a number, highest first; writing one that does not fit throws a \<open>RangeError\<close>.\<close>

fun be_bytes :: "nat \<Rightarrow> nat \<Rightarrow> string" where
  "be_bytes 0 n = []"
| "be_bytes (Suc w) n = be_bytes w (n div 256) @ [char_of (n mod 256)]"

definition be_value :: "string \<Rightarrow> nat" where
  "be_value bytes = foldl (\<lambda>n c. 256 * n + byte_of c) 0 bytes"

definition write_be :: "nat \<Rightarrow> int \<Rightarrow> arkiv_error + string" where
  "write_be w i = (if i < 0 \<or> i \<ge> 256 ^ w then Inl BufferRange else Inr (be_bytes w (nat i)))"

text \<open>\<open>keccak256\<close> of bytes is that of their hex form.\<close>

definition cursorBinding :: "(string \<Rightarrow> string) \<Rightarrow> string \<Rightarrow> int \<Rightarrow> string \<Rightarrow> arkiv_error + string" where
  "cursorBinding keccak query block fingerprint =
     bind_result (write_be 8 (int (length (utf8_bytes query)))) (\<lambda>len.
     bind_result (write_be 8 block) (\<lambda>height.
     let preimage = ''arkiv.index.cursor'' @ len @ utf8_bytes query @ height @ fingerprint in
     Inr (take BINDING_LENGTH (hex_bytes (drop 2 (keccak (''0x'' @ bytes_hex preimage)))))))"

definition encodeCursor :: "cursor_position \<Rightarrow> string \<Rightarrow> arkiv_error + string" where
  "encodeCursor position binding =
     bind_result (write_be 8 (cp_createdAt position)) (\<lambda>createdAt.
     bind_result (write_be 4 (cp_position position)) (\<lambda>pos.
     bind_result (write_be 4 (cp_opIndex position)) (\<lambda>opIndex.
     let start = binding @ replicate (BINDING_LENGTH - length binding) (char_of (0 :: nat)) in
     Inr (''0x'' @ bytes_hex (start @ createdAt @ pos @ opIndex)))))"

definition MAX_CURSOR_CREATED_AT :: int where
  "MAX_CURSOR_CREATED_AT = 2 ^ 63 - 1"

definition decodeCursor :: "jsval \<Rightarrow> string \<Rightarrow> arkiv_error + cursor_position" where
  "decodeCursor token binding =
     (if \<not> isHexOfBytes 32 token then Inl CursorError
      else
        let raw = hex_bytes (drop 2 (str_of token)) in
        if take BINDING_LENGTH raw \<noteq> binding then Inl CursorError
        else
          let createdAt = int (be_value (take 8 (drop BINDING_LENGTH raw))) in
          if createdAt > MAX_CURSOR_CREATED_AT then Inl CursorError
          else Inr \<lparr>cp_createdAt = createdAt, cp_position = int (be_value (take 4 (drop (BINDING_LENGTH + 8) raw))),
                 cp_opIndex = int (be_value (take 4 (drop (BINDING_LENGTH + 12) raw)))\<rparr>)"

section \<open>Options\<close>

record query_options =
  qo_atBlock :: "int option"
  qo_select :: jsval
  qo_limit :: jsval
  qo_cursor :: "jsval option"

definition QUERY_OPTION_FIELDS :: "string list" where
  "QUERY_OPTION_FIELDS = [''atBlock'', ''select'', ''limit'', ''cursor'']"

text \<open>The body of \<open>/^0x(?:0|[1-9a-fA-F][0-9a-fA-F]*)$/\<close>.\<close>

definition quantity_body :: "string \<Rightarrow> bool" where
  "quantity_body body \<longleftrightarrow> body = ''0'' \<or> (all_hex body \<and> hd body \<noteq> CHR ''0'')"

definition parseQuantity :: "jsval \<Rightarrow> arkiv_error + int" where
  "parseQuantity value =
     (case value of
        JInt i \<Rightarrow> if \<not> is_safe_integer i \<or> i < 0 then Inl InvalidParams else Inr i
      | JStr s \<Rightarrow>
          (case strip_0x s of
             None \<Rightarrow> Inl InvalidParams
           | Some body \<Rightarrow>
               if \<not> quantity_body body then Inl InvalidParams
               else if int (hex_val body) > U64_MAX then Inl InvalidParams else Inr (int (hex_val body)))
      | _ \<Rightarrow> Inl InvalidParams)"

definition resolve_page_limit :: "int option \<Rightarrow> arkiv_error + int" where
  "resolve_page_limit requested =
     (case requested of
        None \<Rightarrow> Inr DEFAULT_PAGE_SIZE
      | Some n \<Rightarrow> if n < 1 \<or> n > MAX_PAGE_SIZE then Inl InvalidParams else Inr n)"

definition parse_optional :: "jsval option \<Rightarrow> arkiv_error + int option" where
  "parse_optional value =
     (case value of None \<Rightarrow> Inr None | Some v \<Rightarrow> bind_result (parseQuantity v) (\<lambda>i. Inr (Some i)))"

definition parseQueryOptions :: "jsval \<Rightarrow> arkiv_error + query_options" where
  "parseQueryOptions raw =
     (case (if raw = JUndef then Some [] else obj_fields raw) of
        None \<Rightarrow> Inl InvalidParams
      | Some options \<Rightarrow>
          if \<not> list_all (\<lambda>f. fst f \<in> set QUERY_OPTION_FIELDS) options then Inl InvalidParams
          else bind_result (parse_optional (map_of options ''atBlock'')) (\<lambda>atBlock.
            Inr \<lparr>qo_atBlock = atBlock, qo_select = obj_get options ''select'', qo_limit = obj_get options ''limit'',
                 qo_cursor = map_of options ''cursor''\<rparr>))"

section \<open>Entity to wire\<close>

definition flags_json :: "int option \<Rightarrow> jsval" where
  "flags_json flags =
     (case flags of
        None \<Rightarrow> JNull
      | Some f \<Rightarrow> JObj [(''raw'', JInt f), (''readonly'', JBool (f AND 1 \<noteq> 0)),
          (''permissionlessExtension'', JBool (f AND 2 \<noteq> 0))])"

definition type_text :: "int \<Rightarrow> string" where
  "type_text typeId = (case map_get TYPE_TAGS_BY_ID typeId of None \<Rightarrow> ''unknown'' | Some tag \<Rightarrow> tag_name tag)"

definition schema_json :: "stored_attribute \<Rightarrow> jsval" where
  "schema_json a =
     JObj [(''name'', JStr (sa_name a)), (''type'', JStr (type_text (sa_typeId a))), (''indexed'', JBool (sa_indexed a))]"

definition attribute_json :: "stored_attribute \<Rightarrow> jsval" where
  "attribute_json a =
     JObj [(''name'', JStr (sa_name a)), (''type'', JStr (type_text (sa_typeId a))),
       (''value'', case map_get TYPE_TAGS_BY_ID (sa_typeId a) of
          None \<Rightarrow> JNull | Some tag \<Rightarrow> wireAttributeValue tag (sa_value a))]"

definition wanted_attribute :: "attribute_projection \<Rightarrow> stored_attribute \<Rightarrow> bool" where
  "wanted_attribute p a = (case p of AttrOff \<Rightarrow> False | AttrAll \<Rightarrow> True | AttrNamed names \<Rightarrow> sa_name a \<in> set names)"

definition projectEntity :: "entity_version \<Rightarrow> selection \<Rightarrow> jsval" where
  "projectEntity e p =
     JObj (
       (if se_key p then [(''key'', JStr (v_entityKey e))] else []) @
       (if se_owner p then [(''owner'', JStr (v_owner e))] else []) @
       (if se_creator p then [(''creator'', JStr (v_creator e))] else []) @
       (if se_createdAt p then [(''createdAt'', JStr (hexQuantity (v_createdAt e)))] else []) @
       (if se_updatedAt p then [(''updatedAt'', JStr (hexQuantity (v_updatedAt e)))] else []) @
       (if se_expiresAt p then [(''expiresAt'', JStr (hexQuantity (v_expiresAt e)))] else []) @
       (if se_creationFlags p then [(''creationFlags'', flags_json (v_creationFlags e))] else []) @
       (if se_attributeSchema p then [(''attributeSchema'', JArr (map schema_json (v_attributes e)))] else []) @
       (if se_attributes p \<noteq> AttrOff
        then [(''attributes'', JArr (map attribute_json (filter (wanted_attribute (se_attributes p)) (v_attributes e))))]
        else []))"

section \<open>Methods\<close>

record index_progress =
  ip_floorBlock :: "int option"
  ip_projectedThroughBlock :: "int option"
  ip_readiness :: readiness

definition getProgress :: "bool \<Rightarrow> entity_index \<Rightarrow> index_progress" where
  "getProgress managedGenesis ix =
     \<lparr>ip_floorBlock = ix_floor ix, ip_projectedThroughBlock = ix_through ix,
      ip_readiness = genesisReadiness (ix_genesis ix) managedGenesis\<rparr>"

text \<open>The parser always ends with an answer of its own, so the last case of \<open>parseQuery\<close> never occurs.\<close>

definition parseQuery :: "(string \<Rightarrow> string) \<Rightarrow> string \<Rightarrow> arkiv_error + query_ast" where
  "parseQuery keccak text =
     (case parseEntityQuery keccak text of
        Inr ast \<Rightarrow> Inr ast
      | Inl (QueryParseError kind pos) \<Rightarrow> Inl (QueryRefused (queryErrorBody kind pos text))
      | Inl OutOfFuel \<Rightarrow> Inl BufferRange)"

definition resolveBlock :: "index_progress \<Rightarrow> int option \<Rightarrow> arkiv_error + int \<times> bool" where
  "resolveBlock progress requested =
     (if \<not> rd_ready (ip_readiness progress) then Inl (IndexIncomplete (rd_reason (ip_readiness progress)))
      else case ip_projectedThroughBlock progress of
        None \<Rightarrow> Inl NothingProjected
      | Some head \<Rightarrow>
          (case requested of
             None \<Rightarrow> Inr (head, True)
           | Some b \<Rightarrow>
               if b > head then Inl (BlockAboveHead b head)
               else case ip_floorBlock progress of
                 Some f \<Rightarrow> if b < f then Inl (BlockBelowFloor b f) else Inr (b, b = head)
               | None \<Rightarrow> Inr (b, b = head)))"

definition cursorPosition :: "entity_version \<Rightarrow> cursor_position" where
  "cursorPosition e =
     \<lparr>cp_createdAt = v_createdAt e, cp_position = v_createdPosition e, cp_opIndex = v_createdOpIndex e\<rparr>"

definition request_cursor :: "query_options \<Rightarrow> string \<Rightarrow> arkiv_error + cursor_position option" where
  "request_cursor options binding =
     (case qo_cursor options of
        None \<Rightarrow> Inr None
      | Some token \<Rightarrow>
          if qo_atBlock options = None then Inl CursorError
          else bind_result (decodeCursor token binding) (\<lambda>c. Inr (Some c)))"

definition next_cursor :: "query_page \<Rightarrow> string \<Rightarrow> arkiv_error + (string \<times> jsval) list" where
  "next_cursor page binding =
     (if qp_hasMore page \<and> qp_entities page \<noteq> []
      then bind_result (encodeCursor (cursorPosition (last (qp_entities page))) binding) (\<lambda>t. Inr [(''cursor'', JStr t)])
      else Inr [])"

text \<open>The parameters of \<open>arkiv_query\<close>, and what it does once they are read.\<close>

definition query_params :: "jsval list \<Rightarrow> arkiv_error + string \<times> jsval" where
  "query_params params =
     (case params of
        [JStr query] \<Rightarrow> Inr (query, JUndef)
      | [JStr query, options] \<Rightarrow> Inr (query, options)
      | _ \<Rightarrow> Inl InvalidParams)"

definition arkiv_query ::
  "(string \<Rightarrow> string) \<Rightarrow> index_progress \<Rightarrow> entity_index \<Rightarrow> jsval list \<Rightarrow> arkiv_error + jsval" where
  "arkiv_query keccak progress ix params =
     bind_result (query_params params) (\<lambda>(query, raw).
     bind_result (parseQuery keccak query) (\<lambda>ast.
     bind_result (parseQueryOptions raw) (\<lambda>options.
     bind_result (resolveBlock progress (qo_atBlock options)) (\<lambda>(block, atHead).
     bind_result (parseProjection (qo_select options)) (\<lambda>p.
     bind_result (bind_result (parse_optional (if qo_limit options = JUndef then None else Some (qo_limit options)))
       resolve_page_limit) (\<lambda>limit.
     bind_result (cursorBinding keccak query block (projectionFingerprint p)) (\<lambda>binding.
     bind_result (request_cursor options binding) (\<lambda>resume.
     bind_result (wrap_error StorageThrew (queryEntities ast block atHead (nat limit) resume ix)) (\<lambda>page.
     bind_result (next_cursor page binding) (\<lambda>cursor.
     Inr (JObj ([(''data'', JArr (map (\<lambda>e. projectEntity e p) (qp_entities page))),
                 (''blockNumber'', JStr (hexQuantity block))] @ cursor))))))))))))"

definition requested_count_block :: "(string \<times> jsval) list \<Rightarrow> arkiv_error + int option" where
  "requested_count_block request =
     (let block = obj_get request ''block'' in
      if block = JUndef \<or> block = JNull then Inr None
      else case block of
        JInt i \<Rightarrow> if \<not> is_safe_integer i \<or> i < 0 then Inl InvalidParams else Inr (Some i)
      | _ \<Rightarrow> Inl InvalidParams)"

definition requested_count_query :: "(string \<Rightarrow> string) \<Rightarrow> (string \<times> jsval) list \<Rightarrow> arkiv_error + query_ast" where
  "requested_count_query keccak request =
     (let query = obj_get request ''query'' in
      if query = JUndef \<or> query = JNull then Inr All
      else case query of JStr s \<Rightarrow> parseQuery keccak s | _ \<Rightarrow> Inl InvalidParams)"

definition arkiv_getEntityCount ::
  "(string \<Rightarrow> string) \<Rightarrow> index_progress \<Rightarrow> entity_index \<Rightarrow> jsval list \<Rightarrow> arkiv_error + jsval" where
  "arkiv_getEntityCount keccak progress ix params =
     (if length params > 1 then Inl InvalidParams
      else
        let first = (case params of [] \<Rightarrow> JUndef | p # _ \<Rightarrow> p) in
        case (if first = JUndef \<or> first = JNull then Some [] else obj_fields first) of
          None \<Rightarrow> Inl InvalidParams
        | Some request \<Rightarrow>
            bind_result (requested_count_block request) (\<lambda>requested.
            bind_result (resolveBlock progress requested) (\<lambda>(block, atHead).
            bind_result (requested_count_query keccak request) (\<lambda>ast.
            bind_result (wrap_error StorageThrew (countEntities ast block atHead ix)) (\<lambda>n. Inr (JInt (int n)))))))"

end
