(* ===== verification/ArkivCursors.thy ===== *)
theory ArkivCursors
  imports ArkivRpc
begin

text \<open>
  The cursors of the entity queries read back, and a selection's fingerprint determines what it selects
  (src/src/arkivJsonRpc.ts).
\<close>

section \<open>Cursors\<close>

lemma be_value_snoc [simp]: "be_value (bs @ [c]) = 256 * be_value bs + byte_of c"
  by (simp add: be_value_def)

lemma be_value_Nil [simp]: "be_value [] = 0"
  by (simp add: be_value_def)

lemma length_be_bytes [simp]: "length (be_bytes w n) = w"
  by (induction w arbitrary: n) auto

lemma be_value_bytes: "n < 256 ^ w \<Longrightarrow> be_value (be_bytes w n) = n"
proof (induction w arbitrary: n)
  case (Suc w)
  then have "n div 256 < 256 ^ w" by (simp add: less_mult_imp_div_less mult.commute)
  then show ?case using Suc.IH by simp
qed simp

lemma be_value_less: "be_value bs < 256 ^ length bs"
proof (induction bs rule: rev_induct)
  case (snoc c bs)
  have "256 * v + b < 256 * p" if "v < p" "b < 256" for v b p :: nat using that by linarith
  note step = this [OF snoc nat_of_char_less_256]
  from step [of c] show ?case by simp
qed simp

lemma be_bytes_value: "be_bytes (length bs) (be_value bs) = bs"
proof (induction bs rule: rev_induct)
  case (snoc c bs)
  have "byte_of c < 256" by (rule nat_of_char_less_256)
  then show ?case using snoc by simp
qed simp

lemma write_be_ok: "0 \<le> i \<Longrightarrow> i < 256 ^ w \<Longrightarrow> write_be w i = Inr (be_bytes w (nat i))"
  by (simp add: write_be_def)

lemma hex_char_lower: "d < 16 \<Longrightarrow> is_lower_hex (hex_char d)"
  by (auto simp: is_lower_hex_def is_digit_def hex_char_def)

lemma bytes_hex_shape [simp]: "length (bytes_hex s) = 2 * length s" "list_all is_lower_hex (bytes_hex s)"
proof -
  have "byte_of c div 16 < 16" "byte_of c mod 16 < 16" for c :: char
    using nat_of_char_less_256 [of c] by (auto intro: div_less_iff_less_mult [THEN iffD2])
  then show "list_all is_lower_hex (bytes_hex s)" by (auto simp: bytes_hex_def list_all_iff hex_char_lower)
  show "length (bytes_hex s) = 2 * length s" by (induction s) (simp_all add: bytes_hex_def)
qed

lemma hex_char_digit: "is_lower_hex c \<Longrightarrow> hex_char (hex_digit_val c) = c \<and> hex_digit_val c < 16 \<and> is_hex_digit c"
  by (auto simp: is_lower_hex_def is_digit_def hex_char_def hex_digit_val_def is_hex_digit_def Let_def)

lemma bytes_hex_hex_bytes: "list_all is_lower_hex s \<Longrightarrow> even (length s) \<Longrightarrow> bytes_hex (hex_bytes s) = s"
proof (induction s rule: hex_bytes.induct)
  case (1 a b s)
  then have "is_lower_hex a" "is_lower_hex b" by simp_all
  note a = hex_char_digit [OF this(1)] and b = hex_char_digit [OF this(2)]
  have "byte_of (char_of (16 * hex_digit_val a + hex_digit_val b)) = 16 * hex_digit_val a + hex_digit_val b"
    using a b by (simp add: of_char_of)
  then show ?case using 1 a b by (simp add: bytes_hex_def)
qed (auto simp: bytes_hex_def)

lemma length_hex_bytes: "list_all is_hex_digit s \<Longrightarrow> length (hex_bytes s) = length s div 2"
  by (induction s rule: hex_bytes.induct) auto

text \<open>What the result of \<open>keccak256\<close> looks like.\<close>

definition keccak_text :: "(string \<Rightarrow> string) \<Rightarrow> bool" where
  "keccak_text keccak \<longleftrightarrow> (\<forall>x. isHexOfLength (keccak x) 64)"

lemma length_binding:
  assumes "keccak_text keccak" "cursorBinding keccak query block fp = Inr binding"
  shows "length binding = BINDING_LENGTH"
proof -
  obtain preimage where b: "binding = take BINDING_LENGTH (hex_bytes (drop 2 (keccak preimage)))"
    using assms(2) by (auto simp: cursorBinding_def bind_result_eq_Inr Let_def)
  obtain body where "keccak preimage = CHR ''0'' # CHR ''x'' # body" "length body = 64" "list_all is_hex_digit body"
  proof -
    have "isHexOfLength (keccak preimage) 64" using assms(1) by (simp add: keccak_text_def)
    then obtain b where "strip_0x (keccak preimage) = Some b" "length b = 64" "list_all is_hex_digit b"
      by (cases "strip_0x (keccak preimage)") (simp_all add: isHexOfLength_def)
    then show thesis using that [of b] by (simp add: strip_0x_Some)
  qed
  then show ?thesis by (simp add: b length_hex_bytes BINDING_LENGTH_def)
qed

lemma cursorBinding_total:
  assumes "0 \<le> block" "block \<le> U64_MAX" "length (utf8_bytes query) \<le> MAX_QUERY_BYTES"
  shows "\<exists>binding. cursorBinding keccak query block fp = Inr binding"
  using assms by (simp add: cursorBinding_def write_be_def Let_def U64_MAX_def MAX_QUERY_BYTES_def)

definition position_in_range :: "cursor_position \<Rightarrow> bool" where
  "position_in_range c \<longleftrightarrow>
     0 \<le> cp_createdAt c \<and> cp_createdAt c \<le> MAX_CURSOR_CREATED_AT \<and> 0 \<le> cp_position c \<and> cp_position c < 2 ^ 32 \<and>
     0 \<le> cp_opIndex c \<and> cp_opIndex c < 2 ^ 32"

lemma decode_encoded:
  assumes "length binding = BINDING_LENGTH" "position_in_range c"
  shows "\<exists>t. encodeCursor c binding = Inr t \<and> decodeCursor (JStr t) binding = Inr c"
proof -
  let ?raw = "binding @ be_bytes 8 (nat (cp_createdAt c)) @ be_bytes 4 (nat (cp_position c)) @ be_bytes 4 (nat (cp_opIndex c))"
  let ?t = "CHR ''0'' # CHR ''x'' # bytes_hex ?raw"
  have range: "0 \<le> cp_createdAt c" "cp_createdAt c < 256 ^ 8" "0 \<le> cp_position c" "cp_position c < 256 ^ 4"
    "0 \<le> cp_opIndex c" "cp_opIndex c < 256 ^ 4" "cp_createdAt c \<le> MAX_CURSOR_CREATED_AT"
    using assms(2) by (auto simp: position_in_range_def MAX_CURSOR_CREATED_AT_def)
  have enc: "encodeCursor c binding = Inr ?t"
    using range assms(1) by (simp add: encodeCursor_def write_be_ok Let_def)
  have len: "length ?raw = 32" using assms(1) by (simp add: BINDING_LENGTH_def)
  have "be_value (be_bytes 8 (nat (cp_createdAt c))) = nat (cp_createdAt c)"
    "be_value (be_bytes 4 (nat (cp_position c))) = nat (cp_position c)"
    "be_value (be_bytes 4 (nat (cp_opIndex c))) = nat (cp_opIndex c)"
    using range by (simp_all add: be_value_bytes)
  moreover have "isHexOfBytes 32 (JStr ?t)" using len by (simp add: isHexOfBytes_def)
  ultimately have "decodeCursor (JStr ?t) binding = Inr c"
    using range assms(1) by (simp add: decodeCursor_def str_of_def hex_bytes_bytes_hex Let_def BINDING_LENGTH_def)
  with enc show ?thesis by blast
qed

lemma encode_decoded:
  assumes "length binding = BINDING_LENGTH" "decodeCursor token binding = Inr c"
  shows "position_in_range c \<and> (\<exists>t. token = JStr t \<and> encodeCursor c binding = Inr t)"
proof -
  obtain t where token: "token = JStr t" "isHexOfBytes 32 token"
    using assms(2) by (cases token) (auto simp: decodeCursor_def isHexOfBytes_def split: if_splits)
  then obtain body where body: "t = CHR ''0'' # CHR ''x'' # body" "list_all is_lower_hex body" "length body = 64"
    by (auto simp: isHexOfBytes_def strip_0x_Some split: option.splits)
  let ?raw = "hex_bytes body"
  have digits: "list_all is_hex_digit body" using body(2) hex_char_digit by (auto simp: list_all_iff)
  have len: "length ?raw = 32" using length_hex_bytes [OF digits] body(3) by simp
  let ?a = "take 8 (drop 16 ?raw)" and ?p = "take 4 (drop 24 ?raw)" and ?i = "take 4 (drop 28 ?raw)"
  have c: "take 16 ?raw = binding" "int (be_value ?a) \<le> MAX_CURSOR_CREATED_AT"
    "c = \<lparr>cp_createdAt = int (be_value ?a), cp_position = int (be_value ?p), cp_opIndex = int (be_value ?i)\<rparr>"
    using assms(2) token body by (auto simp: decodeCursor_def str_of_def Let_def BINDING_LENGTH_def split: if_splits)
  have lens: "length ?a = 8" "length ?p = 4" "length ?i = 4" using len by simp_all
  have less: "be_value ?a < 256 ^ 8" "be_value ?p < 256 ^ 4" "be_value ?i < 256 ^ 4"
    using be_value_less [of ?a] be_value_less [of ?p] be_value_less [of ?i] lens by simp_all
  have bytes: "be_bytes 8 (be_value ?a) = ?a" "be_bytes 4 (be_value ?p) = ?p" "be_bytes 4 (be_value ?i) = ?i"
    using be_bytes_value [of ?a] be_bytes_value [of ?p] be_bytes_value [of ?i] lens by simp_all
  have split: "?raw = take 16 ?raw @ ?a @ ?p @ ?i"
  proof -
    have "drop 16 ?raw = ?a @ drop 24 ?raw" using append_take_drop_id [of 8 "drop 16 ?raw"] by simp
    moreover have "drop 24 ?raw = ?p @ drop 28 ?raw" using append_take_drop_id [of 4 "drop 24 ?raw"] by simp
    moreover have "?i = drop 28 ?raw" using len by simp
    ultimately show ?thesis using append_take_drop_id [of 16 ?raw] by metis
  qed
  have fits: "int (be_value ?a) < 256 ^ 8" "int (be_value ?p) < 256 ^ 4" "int (be_value ?i) < 256 ^ 4"
    using less by (simp_all del: of_nat_power add: of_nat_power [symmetric] zless_nat_eq_int_zless)
  have "encodeCursor c binding = Inr (CHR ''0'' # CHR ''x'' # bytes_hex (binding @ ?a @ ?p @ ?i))"
    using assms(1) fits bytes by (simp add: c(3) encodeCursor_def write_be_ok Let_def)
  moreover have "bytes_hex (binding @ ?a @ ?p @ ?i) = body"
    using split c(1) bytes_hex_hex_bytes [OF body(2)] body(3) by simp
  moreover have "position_in_range c" using c fits by (simp add: position_in_range_def)
  ultimately show ?thesis using token body by simp
qed

section \<open>The selection a cursor is bound to\<close>

lemma protocol_name_bytes:
  assumes "isProtocolName n"
  shows "utf8_bytes n = n" "char_of (0 :: nat) \<notin> set n"
proof -
  have chars: "\<forall>c \<in> set n. byte_of c < 128 \<and> byte_of c \<noteq> 0"
    using assms by (auto simp: isProtocolName_def protocol_char_def is_alpha_def is_digit_def list_all_iff split: list.splits)
  have "\<not> has_lone_surrogate s" if "\<forall>c \<in> set s. byte_of c < 128" for s :: string
    using that by (induction s rule: has_lone_surrogate.induct) auto
  then show "utf8_bytes n = n" using chars by (simp add: utf8_bytes_id)
  show "char_of (0 :: nat) \<notin> set n" using chars by fastforce
qed

lemma terminated_eq:
  assumes "\<forall>n \<in> set xs. z \<notin> set n" "\<forall>n \<in> set ys. z \<notin> set n"
    and "concat (map (\<lambda>n. n @ [z]) xs) = concat (map (\<lambda>n. n @ [z]) ys)"
  shows "xs = ys"
  using assms
proof (induction xs arbitrary: ys)
  case (Cons x xs)
  then obtain y ys' where ys: "ys = y # ys'" by (cases ys) auto
  have eq: "x @ z # concat (map (\<lambda>n. n @ [z]) xs) = y @ z # concat (map (\<lambda>n. n @ [z]) ys')" using Cons.prems(3) ys by simp
  have "x = takeWhile (\<lambda>c. c \<noteq> z) (x @ z # concat (map (\<lambda>n. n @ [z]) xs))" using Cons.prems(1) by (subst takeWhile_append2) auto
  moreover have "y = takeWhile (\<lambda>c. c \<noteq> z) (y @ z # concat (map (\<lambda>n. n @ [z]) ys'))" using Cons.prems(2) ys by (subst takeWhile_append2) auto
  ultimately have "x = y" using eq by metis
  then have rest: "concat (map (\<lambda>n. n @ [z]) xs) = concat (map (\<lambda>n. n @ [z]) ys')" using eq by simp
  have "xs = ys'" by (rule Cons.IH) (use Cons.prems(1,2) ys rest in auto)
  then show ?case using \<open>x = y\<close> ys by simp
qed (auto simp: concat_eq_Nil_conv)

definition names_legal :: "selection \<Rightarrow> bool" where
  "names_legal p \<longleftrightarrow>
     (case se_attributes p of AttrNamed names \<Rightarrow> distinct names \<and> (\<forall>n \<in> set names. isProtocolName n) | _ \<Rightarrow> True)"

lemma select_names_legal:
  assumes "fold_result select_name entries [] = Inr names"
  shows "distinct names \<and> (\<forall>n \<in> set names. isProtocolName n)"
  by (rule fold_result_invariant [OF assms, where P = "\<lambda>ns. distinct ns \<and> (\<forall>n \<in> set ns. isProtocolName n)"])
     (auto simp: select_name_def add_name_def split: if_splits)

lemma parseProjection_legal:
  assumes "parseProjection select = Inr p"
  shows "names_legal p"
proof (cases "select = JUndef")
  case False
  then obtain entries where e: "fold_result select_field entries defaultProjection = Inr p"
    using assms by (auto simp: parseProjection_def split: option.splits)
  show ?thesis
  proof (rule fold_result_invariant [OF e])
    show "names_legal q'" if "names_legal q" "select_field x q = Inr q'" for x q q'
      using that select_names_legal
      by (auto simp: select_field_def names_legal_def set_flag_def bind_result_eq_Inr Let_def
          split: if_splits option.splits jsval.splits prod.splits)
  qed (simp add: names_legal_def defaultProjection_def)
qed (use assms in \<open>auto simp: parseProjection_def names_legal_def defaultProjection_def\<close>)

lemma flag_byte_eq [simp]: "flag_byte a = flag_byte b \<longleftrightarrow> a = b"
  by (auto simp: flag_byte_def)

text \<open>Selections that answer every entity alike.\<close>

lemma fingerprint_selects:
  assumes "names_legal p" "names_legal q" "projectionFingerprint p = projectionFingerprint q"
  shows "projectEntity e p = projectEntity e q"
proof -
  have flags: "se_key p = se_key q" "se_owner p = se_owner q" "se_creator p = se_creator q" "se_createdAt p = se_createdAt q"
    "se_updatedAt p = se_updatedAt q" "se_expiresAt p = se_expiresAt q" "se_creationFlags p = se_creationFlags q"
    "se_attributeSchema p = se_attributeSchema q"
    using assms(3) by (simp_all add: projectionFingerprint_def)
  have "se_attributes p = AttrOff \<longleftrightarrow> se_attributes q = AttrOff"
    "wanted_attribute (se_attributes p) a = wanted_attribute (se_attributes q) a" for a
  proof -
    have codes: "char_of (0 :: nat) \<noteq> (char_of (1 :: nat) :: char)" "char_of (0 :: nat) \<noteq> (char_of (2 :: nat) :: char)"
      "char_of (1 :: nat) \<noteq> (char_of (2 :: nat) :: char)"
      by (simp_all add: char_of_eq_iff)
    have "set ns = set ms" if "se_attributes p = AttrNamed ns" "se_attributes q = AttrNamed ms" for ns ms
    proof -
      have legal: "\<forall>n \<in> set ns. isProtocolName n" "\<forall>n \<in> set ms. isProtocolName n"
        using that assms(1,2) by (simp_all add: names_legal_def)
      have "concat (map (\<lambda>n. utf8_bytes n @ [char_of (0 :: nat)]) xs) = concat (map (\<lambda>n. n @ [char_of (0 :: nat)]) xs)"
        if "\<forall>n \<in> set xs. isProtocolName n" for xs
        using that protocol_name_bytes(1) by (induction xs) auto
      then have "sort ns = sort ms"
        using assms(3) that legal protocol_name_bytes(2)
        by (intro terminated_eq [of "sort ns" "char_of (0 :: nat)" "sort ms"]) (simp_all add: projectionFingerprint_def)
      then show ?thesis by (metis set_sort)
    qed
    then show "se_attributes p = AttrOff \<longleftrightarrow> se_attributes q = AttrOff"
      "wanted_attribute (se_attributes p) a = wanted_attribute (se_attributes q) a"
      using assms(3) codes
      by (auto simp: projectionFingerprint_def wanted_attribute_def split: attribute_projection.splits)
  qed
  then have "se_attributes p = AttrOff \<longleftrightarrow> se_attributes q = AttrOff"
    "wanted_attribute (se_attributes p) = wanted_attribute (se_attributes q)" by (simp_all add: fun_eq_iff)
  then show ?thesis using flags by (simp add: projectEntity_def)
qed

end
