(* ===== verification/GenesisFacts.thy ===== *)
theory GenesisFacts
  imports GenesisImport ArkivCursors EntityRefold
begin

text \<open>
  What the import makes of an answered entity: a well formed version, and the reading as the inverse of
  the answer the index itself gives.
\<close>

section \<open>What an accepted entity is\<close>

lemma genesis_check_eq [simp]: "genesis_check b = Inr u \<longleftrightarrow> b"
  by (simp add: genesis_check_def)

lemma isHexOfLength_to_lower: "isHexOfLength s n \<Longrightarrow> isHexOfLength (to_lower s) n \<and> to_lower (to_lower s) = to_lower s"
  by (simp add: isHexOfLength_lower)

text \<open>A version as the import writes it: alive since block 0, at its place in the node's order, its values canonical.\<close>

definition genesis_shape :: "int \<Rightarrow> entity_version \<Rightarrow> bool" where
  "genesis_shape position v \<longleftrightarrow>
     v_version v = 0 \<and> v_fromBlock v = 0 \<and> v_fromPosition v = position \<and> v_fromOpIndex v = 0 \<and> v_toBlock v = None \<and>
     \<not> v_deleted v \<and> v_createdAt v = 0 \<and> v_createdPosition v = position \<and> v_createdOpIndex v = 0 \<and> v_updatedAt v = 0 \<and>
     0 \<le> position \<and> position \<le> MAX_GENESIS_POSITION \<and>
     isHexOfLength (v_entityKey v) 64 \<and> to_lower (v_entityKey v) = v_entityKey v \<and>
     isHexOfLength (v_owner v) 40 \<and> to_lower (v_owner v) = v_owner v \<and>
     isHexOfLength (v_creator v) 40 \<and> to_lower (v_creator v) = v_creator v \<and>
     0 < v_expiresAt v \<and> v_expiresAt v \<le> U64_MAX \<and>
     (\<forall>f. v_creationFlags v = Some f \<longrightarrow> 0 \<le> f \<and> f \<le> 255) \<and>
     version_ok v \<and> (\<forall>a \<in> set (v_attributes v). sa_name a \<noteq> [])"

lemma genesis_flags_byte: "genesis_flags value = Inr (Some f) \<Longrightarrow> 0 \<le> f \<and> f \<le> 255"
  by (auto simp: genesis_flags_def split: if_splits option.splits jsval.splits)

definition cells_ok :: "stored_attribute list \<Rightarrow> bool" where
  "cells_ok as \<longleftrightarrow> distinct (map sa_name as) \<and> (\<forall>a \<in> set as. attribute_ok a \<and> sa_name a \<noteq> [])"

lemma genesis_cell_ok:
  assumes "cells_ok as" "genesis_cell keccak m cell as = Inr as'"
  shows "cells_ok as'"
proof -
  obtain members where members: "obj_fields cell = Some members" using assms(2) by (auto simp: genesis_cell_def split: option.splits)
  obtain name type where texts: "obj_get members ''name'' = JStr name" "obj_get members ''type'' = JStr type"
    using assms(2) members by (auto simp: genesis_cell_def split: jsval.splits)
  obtain tag indexed stored where cell: "name \<noteq> []" "name \<notin> set (map sa_name as)" "\<not> (indexed \<and> tag = TBytes)"
    "fromWireAttributeValue keccak tag (obj_get members ''value'') = Some stored"
    "as' = as @ [\<lparr>sa_name = name, sa_typeId = TYPE_IDS tag, sa_indexed = indexed, sa_value = stored\<rparr>]"
    using assms(2) members texts by (auto simp: genesis_cell_def split: option.splits if_splits)
  have "stored_ok tag stored" by (rule fromWire_ok [OF cell(4)])
  then have "attribute_ok \<lparr>sa_name = name, sa_typeId = TYPE_IDS tag, sa_indexed = indexed, sa_value = stored\<rparr>"
    using cell(3) by (auto intro!: attribute_okI)
  then show ?thesis using assms(1) cell by (auto simp: cells_ok_def)
qed

lemma genesis_attributes_ok:
  assumes "genesis_attributes keccak m cells = Inr as"
  shows "names_sorted as" "\<forall>a \<in> set as. sa_name a \<noteq> []"
proof -
  have "names_sorted as \<and> (\<forall>a \<in> set as. sa_name a \<noteq> [])"
  proof (cases cells)
    case (JArr cs)
    then obtain bs where bs: "fold_result (genesis_cell keccak m) cs [] = Inr bs" "as = js_sort compare_names bs"
      using assms by (auto simp: genesis_attributes_def bind_result_eq_Inr)
    have "cells_ok bs"
    proof (rule fold_result_invariant [OF bs(1), where P = cells_ok])
      show "cells_ok []" by (simp add: cells_ok_def)
    qed (rule genesis_cell_ok)
    moreover have "mset (map sa_name as) = mset (map sa_name bs)" by (simp add: bs(2))
    then have "distinct (map sa_name as) = distinct (map sa_name bs)" by (rule mset_eq_imp_distinct_iff)
    ultimately show ?thesis using names_order.sorted_js_sort [of bs] by (auto simp: names_sorted_def cells_ok_def bs(2))
  qed (use assms in \<open>auto simp: genesis_attributes_def names_sorted_def\<close>)
  then show "names_sorted as" "\<forall>a \<in> set as. sa_name a \<noteq> []" by blast+
qed

lemma genesis_entity_shape:
  assumes "genesisEntityToVersion keccak entity position = Inr v"
  shows "genesis_shape position v"
proof -
  obtain members where members: "obj_fields entity = Some members"
    using assms by (auto simp: genesisEntityToVersion_def split: option.splits)
  let ?get = "obj_get members"
  obtain flags m as where parts: "is_hex_text 64 (?get ''key'')" "0 \<le> position" "position \<le> MAX_GENESIS_POSITION"
    "0 < quantity_of (?get ''expiresAt'')" "quantity_of (?get ''expiresAt'') \<le> U64_MAX"
    "genesis_flags (?get ''creationFlags'') = Inr flags" "genesis_attributes keccak m (?get ''attributes'') = Inr as"
    "is_hex_text 40 (?get ''owner'')" "is_hex_text 40 (?get ''creator'')"
    and v: "v = \<lparr>v_entityKey = to_lower (str_of (?get ''key'')), v_version = 0, v_fromBlock = 0, v_fromPosition = position,
             v_fromOpIndex = 0, v_toBlock = None, v_deleted = False, v_owner = to_lower (str_of (?get ''owner'')),
             v_creator = to_lower (str_of (?get ''creator'')), v_createdAt = 0, v_createdPosition = position, v_createdOpIndex = 0,
             v_updatedAt = 0, v_expiresAt = quantity_of (?get ''expiresAt''), v_creationFlags = flags,
             v_bytesSize = fst (summarizeAttributes as), v_schemaName = snd (summarizeAttributes as), v_attributes = as\<rparr>"
    using assms members by (auto simp: genesisEntityToVersion_def Let_def bind_result_eq_Inr)
  have hex: "isHexOfLength (to_lower (str_of x)) n" if "is_hex_text n x" for n x
    using that isHexOfLength_to_lower by (cases x) (auto simp: is_hex_text_def str_of_def)
  have "\<forall>f. flags = Some f \<longrightarrow> 0 \<le> f \<and> f \<le> 255" using genesis_flags_byte parts(6) by blast
  then show ?thesis
    using parts(2-5) hex [OF parts(1)] hex [OF parts(8)] hex [OF parts(9)]
      genesis_attributes_ok [OF parts(7)]
    by (simp add: genesis_shape_def v version_ok_def)
qed

section \<open>The answer of the index reads back\<close>

text \<open>The selection the import asks for: everything.\<close>

definition everything :: selection where
  "everything =
     \<lparr>se_key = True, se_owner = True, se_creator = True, se_createdAt = True, se_updatedAt = True, se_expiresAt = True,
      se_creationFlags = True, se_attributeSchema = True, se_attributes = AttrAll\<rparr>"

lemma genesis_select_everything: "parseProjection GENESIS_SELECT = Inr everything"
  by (simp add: GENESIS_SELECT_def parseProjection_def everything_def select_field_def SELECT_FIELDS_def set_flag_def
      defaultProjection_def)

lemma type_names: "map_get TYPE_TAGS_BY_ID (TYPE_IDS tag) = Some tag" "tag_of_name (tag_name tag) = Some tag"
  by (cases tag; simp add: TYPE_TAGS_BY_ID_def tag_of_name_def)+

lemma schema_reads:
  assumes "distinct (map sa_name as)"
  shows "genesis_schema (JArr (map schema_json as)) = Inr (map (\<lambda>a. (sa_name a, sa_indexed a)) as)"
proof -
  have "fold_result schema_entry (map schema_json as) m = Inr (m @ map (\<lambda>a. (sa_name a, sa_indexed a)) as)"
    if "distinct (map sa_name as)" "sa_name ` set as \<inter> fst ` set m = {}" for m
    using that
  proof (induction as arbitrary: m)
    case (Cons a as)
    have "map_get m (sa_name a) = None" using Cons.prems(2) by (force simp: map_of_eq_None_iff)
    then have "schema_entry (schema_json a) m = Inr (m @ [(sa_name a, sa_indexed a)])"
      by (simp add: schema_entry_def schema_json_def obj_get_def map_set_absent)
    moreover have "sa_name ` set as \<inter> fst ` set (m @ [(sa_name a, sa_indexed a)]) = {}" using Cons.prems by auto
    ultimately show ?case using Cons.IH [of "m @ [(sa_name a, sa_indexed a)]"] Cons.prems(1) by simp
  qed simp
  from this [OF assms, of "[]"] show ?thesis by (simp add: genesis_schema_def)
qed

lemma cell_reads:
  assumes "attribute_ok a" "sa_typeId a \<noteq> TYPE_IDS TBytes" "sa_name a \<noteq> []" "sa_name a \<notin> set (map sa_name as)"
    and "map_get m (sa_name a) = Some (sa_indexed a)"
  shows "genesis_cell keccak m (attribute_json a) as = Inr (as @ [a])"
proof -
  obtain tag where tag: "sa_typeId a = TYPE_IDS tag" "stored_ok tag (sa_value a)" using assms(1) by (auto simp: attribute_ok_def)
  then have "tag \<noteq> TBytes" using assms(2) by auto
  then have "fromWireAttributeValue keccak tag (wireAttributeValue tag (sa_value a)) = Some (sa_value a)"
    using wire_roundtrip [OF tag(2)] by blast
  then show ?thesis
    using assms(3-5) \<open>tag \<noteq> TBytes\<close>
    by (simp add: genesis_cell_def attribute_json_def obj_get_def type_text_def tag(1) type_names
        del: TYPE_IDS.simps fromWireAttributeValue.simps wireAttributeValue.simps)
qed

lemma cells_read:
  assumes "distinct (map sa_name as)" "\<forall>a \<in> set as. attribute_ok a \<and> sa_typeId a \<noteq> TYPE_IDS TBytes \<and> sa_name a \<noteq> []"
  shows "fold_result (genesis_cell keccak (map (\<lambda>a. (sa_name a, sa_indexed a)) as)) (map attribute_json as) [] = Inr as"
proof -
  have get: "map_get (map (\<lambda>a. (sa_name a, sa_indexed a)) as) (sa_name a) = Some (sa_indexed a)" if "a \<in> set as" for a
    using that assms(1) by (intro map_of_is_SomeI) (auto simp: comp_def)
  have "fold_result (genesis_cell keccak (map (\<lambda>a. (sa_name a, sa_indexed a)) as)) (map attribute_json bs) cs = Inr (cs @ bs)"
    if "set bs \<subseteq> set as" "distinct (map sa_name (cs @ bs))" for cs bs
    using that
  proof (induction bs arbitrary: cs)
    case (Cons b bs)
    then have b: "b \<in> set as" by simp
    have "genesis_cell keccak (map (\<lambda>a. (sa_name a, sa_indexed a)) as) (attribute_json b) cs = Inr (cs @ [b])"
      using assms(2) b get [OF b] Cons.prems(2) by (intro cell_reads) auto
    then show ?case using Cons.IH [of "cs @ [b]"] Cons.prems by simp
  qed simp
  from this [of as "[]"] assms(1) show ?thesis by simp
qed

lemma quantity_of_hex: "0 \<le> i \<Longrightarrow> isHexQuantity (JStr (hexQuantity i)) \<and> quantity_of (JStr (hexQuantity i)) = i"
  by (simp add: isHexQuantity_def quantity_of_def str_of_def hex_literal_quantity)

lemma everything_members:
  "obj_fields (projectEntity v everything) = Some
     [(''key'', JStr (v_entityKey v)), (''owner'', JStr (v_owner v)), (''creator'', JStr (v_creator v)),
      (''createdAt'', JStr (hexQuantity (v_createdAt v))), (''updatedAt'', JStr (hexQuantity (v_updatedAt v))),
      (''expiresAt'', JStr (hexQuantity (v_expiresAt v))), (''creationFlags'', flags_json (v_creationFlags v)),
      (''attributeSchema'', JArr (map schema_json (v_attributes v))), (''attributes'', JArr (map attribute_json (v_attributes v)))]"
  by (simp add: projectEntity_def everything_def wanted_attribute_def)

lemma genesis_answer_reads:
  assumes "genesis_shape position v" "\<forall>a \<in> set (v_attributes v). sa_typeId a \<noteq> TYPE_IDS TBytes"
  shows "genesisEntityToVersion keccak (projectEntity v everything) position = Inr v"
proof -
  have shape: "v_version v = 0" "v_fromBlock v = 0" "v_fromPosition v = position" "v_fromOpIndex v = 0" "v_toBlock v = None"
    "v_deleted v = False" "v_createdAt v = 0" "v_createdPosition v = position" "v_createdOpIndex v = 0" "v_updatedAt v = 0"
    "0 \<le> position" "position \<le> MAX_GENESIS_POSITION" "isHexOfLength (v_entityKey v) 64" "to_lower (v_entityKey v) = v_entityKey v"
    "isHexOfLength (v_owner v) 40" "to_lower (v_owner v) = v_owner v" "isHexOfLength (v_creator v) 40"
    "to_lower (v_creator v) = v_creator v" "0 < v_expiresAt v" "v_expiresAt v \<le> U64_MAX"
    "\<forall>f. v_creationFlags v = Some f \<longrightarrow> 0 \<le> f \<and> f \<le> 255" and ok: "version_ok v"
    and names: "\<forall>a \<in> set (v_attributes v). sa_name a \<noteq> []"
    using assms(1) by (simp_all add: genesis_shape_def)
  have attrs: "names_sorted (v_attributes v)" "v_bytesSize v = fst (summarizeAttributes (v_attributes v))"
    "v_schemaName v = snd (summarizeAttributes (v_attributes v))"
    using ok by (simp_all add: version_ok_def)
  have flags: "genesis_flags (flags_json (v_creationFlags v)) = Inr (v_creationFlags v)"
    using shape(21) by (cases "v_creationFlags v") (auto simp: genesis_flags_def flags_json_def obj_get_def)
  have dist: "distinct (map sa_name (v_attributes v))" using attrs(1) by (simp add: names_sorted_def)
  have "genesis_attributes keccak (map (\<lambda>a. (sa_name a, sa_indexed a)) (v_attributes v)) (JArr (map attribute_json (v_attributes v))) =
      Inr (v_attributes v)"
    using cells_read [OF dist, of keccak] assms(2) names attrs(1) names_order.js_sort_sorted_id [of "v_attributes v"]
    by (simp add: genesis_attributes_def names_sorted_def)
  moreover have "isHexQuantity (JStr (hexQuantity (v_expiresAt v)))" "quantity_of (JStr (hexQuantity (v_expiresAt v))) = v_expiresAt v"
    using shape(19) quantity_of_hex [of "v_expiresAt v"] by simp_all
  moreover have "isHexQuantity (JStr (hexQuantity 0))" "quantity_of (JStr (hexQuantity 0)) = 0" using quantity_of_hex [of 0] by simp_all
  ultimately have "genesisEntityToVersion keccak (projectEntity v everything) position =
      Inr (\<lparr>v_entityKey = v_entityKey v, v_version = 0, v_fromBlock = 0, v_fromPosition = position,
             v_fromOpIndex = 0, v_toBlock = None, v_deleted = False, v_owner = v_owner v,
             v_creator = v_creator v, v_createdAt = 0, v_createdPosition = position, v_createdOpIndex = 0,
             v_updatedAt = 0, v_expiresAt = v_expiresAt v, v_creationFlags = v_creationFlags v,
             v_bytesSize = v_bytesSize v, v_schemaName = v_schemaName v, v_attributes = v_attributes v\<rparr>)"
    unfolding genesisEntityToVersion_def everything_members
    using shape attrs(2,3) flags schema_reads [OF dist]
    by (simp add: obj_get_def is_hex_text_def str_of_def genesis_check_def)
  also have "\<lparr>v_entityKey = v_entityKey v, v_version = 0, v_fromBlock = 0, v_fromPosition = position,
             v_fromOpIndex = 0, v_toBlock = None, v_deleted = False, v_owner = v_owner v,
             v_creator = v_creator v, v_createdAt = 0, v_createdPosition = position, v_createdOpIndex = 0,
             v_updatedAt = 0, v_expiresAt = v_expiresAt v, v_creationFlags = v_creationFlags v,
             v_bytesSize = v_bytesSize v, v_schemaName = v_schemaName v, v_attributes = v_attributes v\<rparr> = v"
    using shape by (cases v) simp
  finally show ?thesis .
qed

lemma genesis_shape_ok: "genesis_shape position v \<Longrightarrow> mapVersionRow (versionRow v) = v \<Longrightarrow> genesis_ok v"
  by (simp add: genesis_shape_def genesis_ok_def)

section \<open>A sample entity\<close>

definition sample_genesis :: jsval where
  "sample_genesis =
     JObj [(''key'', JStr (''0x'' @ replicate 62 (CHR ''0'') @ ''AB'')), (''owner'', JStr (''0x'' @ replicate 40 (CHR ''A''))),
       (''creator'', JStr (''0x'' @ replicate 40 (CHR ''b''))), (''createdAt'', JStr ''0x0''), (''updatedAt'', JStr ''0x0''),
       (''expiresAt'', JStr ''0x64''), (''creationFlags'', JObj [(''readonly'', JBool True)]),
       (''attributeSchema'', JArr [JObj [(''name'', JStr ''rank''), (''indexed'', JBool True)],
          JObj [(''name'', JStr ''label''), (''indexed'', JBool False)]]),
       (''attributes'', JArr [JObj [(''name'', JStr ''rank''), (''type'', JStr ''u64''), (''value'', JStr ''0x7'')],
          JObj [(''name'', JStr ''label''), (''type'', JStr ''str''), (''value'', JStr ''one'')]])]"

definition sample_genesis_version :: entity_version where
  "sample_genesis_version =
     (case genesisEntityToVersion (\<lambda>_. []) sample_genesis 0 of Inr v \<Rightarrow> v | Inl _ \<Rightarrow> undefined)"

lemma sample_genesis_accepted:
  "genesisEntityToVersion (\<lambda>_. []) sample_genesis 0 = Inr sample_genesis_version"
  "map (\<lambda>a. (sa_name a, sa_typeId a)) (v_attributes sample_genesis_version) = [(''label'', 8), (''rank'', 3)]"
proof -
  have "case genesisEntityToVersion (\<lambda>_. []) sample_genesis 0 of Inl _ \<Rightarrow> False
    | Inr v \<Rightarrow> map (\<lambda>a. (sa_name a, sa_typeId a)) (v_attributes v) = [(''label'', 8), (''rank'', 3)]"
    by code_simp
  then show "genesisEntityToVersion (\<lambda>_. []) sample_genesis 0 = Inr sample_genesis_version"
    "map (\<lambda>a. (sa_name a, sa_typeId a)) (v_attributes sample_genesis_version) = [(''label'', 8), (''rank'', 3)]"
    by (simp_all add: sample_genesis_version_def split: sum.splits)
qed

section \<open>Properties\<close>

text \<open>
  An entity the import accepts becomes one well formed version: version 0, live since block 0 at its
  place in the node's order, with lower-case hex key, owner and creator, an expiry in 64 bits, flags in a byte and
  canonical attributes sorted by name, each once. If no attribute is of type bytes (whose content the index
  does not keep), the index's own answer for that version with everything selected is an entity that the
  import of another index reads back as the same version.
\<close>

theorem genesis_entity_roundtrip:
  assumes "genesisEntityToVersion keccak entity position = Inr v"
  shows "genesis_shape position v \<and>
    ((\<forall>a \<in> set (v_attributes v). sa_typeId a \<noteq> TYPE_IDS TBytes) \<longrightarrow>
      genesisEntityToVersion keccak (projectEntity v everything) position = Inr v)"
  using genesis_entity_shape [OF assms] genesis_answer_reads by blast

theorem genesis_entity_roundtrip_witness:
  "genesisEntityToVersion (\<lambda>_. []) (projectEntity sample_genesis_version everything) 0 = Inr sample_genesis_version"
proof -
  have "sa_typeId a \<noteq> TYPE_IDS TBytes" if "a \<in> set (v_attributes sample_genesis_version)" for a
  proof -
    have "(sa_name a, sa_typeId a) \<in> set [(''label'', 8), (''rank'', 3)]"
      unfolding sample_genesis_accepted(2) [symmetric] using that by force
    then show ?thesis by auto
  qed
  then show ?thesis using genesis_entity_roundtrip [OF sample_genesis_accepted(1)] by blast
qed

end
