(* ===== verification/ProjectorFacts.thy ===== *)
theory ProjectorFacts
  imports ImportSteps GenesisFacts
begin

text \<open>
  The projection against its contract: whatever the scanner writes while the projector folds and imports,
  and wherever an attempt ends, the stored history of an entity follows its operations.
\<close>

subsection \<open>The fold\<close>

lemma foldChunk_effect:
  assumes "foldChunk keccak config True keys e nowIso s ix = Inr (Some (ix', n, v))"
  shows "\<exists>ix1 n v. refoldEntities keccak (pc_foldKeyBatch config) keys e s ix = Inr (ix1, n, v) \<and>
    ix' = ix1\<lparr>ix_through := Some e, ix_lastFoldAt := Some nowIso\<rparr>"
  using assms by (auto simp: foldChunk_def withFoldLock_def bind_result_eq_Inr split: if_splits)

lemma foldChunk_frame:
  assumes "foldChunk keccak config True keys e nowIso s ix = Inr (Some (ix', n, v))"
  shows "ix_through ix' = Some e" "ix_watermark ix' = ix_watermark ix" "ix_floor ix' = ix_floor ix" "ix_genesis ix' = ix_genesis ix"
proof -
  obtain ix1 n1 v1 where run: "refoldEntities keccak (pc_foldKeyBatch config) keys e s ix = Inr (ix1, n1, v1)"
    "ix' = ix1\<lparr>ix_through := Some e, ix_lastFoldAt := Some nowIso\<rparr>"
    using foldChunk_effect [OF assms] by blast
  note frame = refoldEntities_frame [OF run(1)]
  have "ix_watermark ix1 = ix_watermark ix" "ix_floor ix1 = ix_floor ix" "ix_genesis ix1 = ix_genesis ix"
    by (subst frame; simp)+
  then show "ix_through ix' = Some e" "ix_watermark ix' = ix_watermark ix" "ix_floor ix' = ix_floor ix" "ix_genesis ix' = ix_genesis ix"
    by (simp_all add: run(2))
qed

lemma late_fold_effect:
  assumes "late_fold keccak config True keys a s ix = Inr (Some (ix', n, v))"
  shows "refoldEntities keccak (pc_foldKeyBatch config) keys a s ix = Inr (ix', n, v)"
  using assms by (auto simp: late_fold_def withFoldLock_def bind_result_eq_Inr split: if_splits)


lemma foldChunk_allowed: "foldChunk keccak config True keys e nowIso s ix = Inr (Some r) \<Longrightarrow> genesis_allows ix"
  by (auto simp: foldChunk_def withFoldLock_def split: if_splits)

lemma late_fold_allowed: "late_fold keccak config True keys a s ix = Inr (Some r) \<Longrightarrow> genesis_allows ix"
  by (auto simp: late_fold_def withFoldLock_def split: if_splits)

text \<open>What a refold does where it is allowed.\<close>

lemma allowed_refold:
  assumes run: "refoldEntities keccak batch keys t s ix = Inr (ix', n, v)"
    and store: "lower_keys s" "after_genesis s" "never_created gs s" and rows: "rows_ok gs ix" "seed_ok gs"
    and keys: "distinct keys" "\<forall>k \<in> set keys. to_lower k = k" and allowed: "genesis_allows ix"
  shows "rows_ok gs ix'" "\<forall>k. k \<notin> set keys \<longrightarrow> rows_of ix' k = rows_of ix k"
    "\<forall>k \<in> set keys. settled keccak s t (known_base gs ix') ix' k"
    "ix' = ix\<lparr>ix_versions := ix_versions ix', ix_attributes := ix_attributes ix'\<rparr>"
proof -
  have imp: "import_ok gs ix" using rows(1) by (simp add: rows_ok_def)
  note refold = refold_rows_ok [OF run store rows keys allowed_base [OF imp allowed] expected_choice expected_known [OF rows(2)]]
  show "rows_ok gs ix'" by (rule refold(1))
  show "\<forall>k. k \<notin> set keys \<longrightarrow> rows_of ix' k = rows_of ix k" by (rule refold(2))
  show "\<forall>k \<in> set keys. settled keccak s t (known_base gs ix') ix' k" by (rule refold(3))
  show "ix' = ix\<lparr>ix_versions := ix_versions ix', ix_attributes := ix_attributes ix'\<rparr>" by (rule refold(5))
qed

lemma fresh_settled: "fresh keccak s t gs ix k \<Longrightarrow> genesis_allows ix \<Longrightarrow> settled keccak s t (known_base gs ix) ix k"
  using allowed_repair by (simp add: fresh_def)

lemma settled_known: "settled keccak s t (known_base gs ix) ix k \<Longrightarrow> rows_of ix' k = rows_of ix k \<Longrightarrow>
    settled keccak s t (known_base gs ix') ix' k"
  by (simp add: settled_def known_base_def)

lemma untouched_beyond: "untouched s a e k \<Longrightarrow> a \<le> e \<Longrightarrow> key_ops s e k = key_ops s a k"
  by (rule key_ops_beyond) (auto simp: untouched_def touches_def tx_of_def)

lemma folds_ok:
  assumes seed: "seed_ok gs" and ok: "projection_ok keccak config gs w" and pend: "pw_pending w = Planned keys a e"
    and run: "foldChunk keccak config True keys e nowIso (pw_store w) (pw_index w) = Inr (Some (ix', n, v))"
  shows "projection_ok keccak config gs (w\<lparr>pw_index := ix', pw_pending := Idle\<rparr>)"
proof -
  let ?s = "pw_store w"
  obtain t where t: "ix_through (pw_index w) = Some t" using ok pend by (cases "ix_through (pw_index w)") (auto simp: projection_ok_def)
  obtain wm where wm: "ix_watermark (pw_index w) = Some wm" "wm \<le> pw_clock w" "plan_covers config gs w t wm"
    "up_to_date keccak gs w t (late_since config wm)"
    using ok t pend by (auto simp: projection_ok_def)
  have plan: "t = a" "a < e" "distinct keys" "\<forall>k \<in> set keys. to_lower k = k"
    "\<And>k. to_lower k = k \<Longrightarrow> k \<notin> set keys \<Longrightarrow>
       untouched ?s a e k \<or> waiting (pw_stamp w) ?s e (late_since config wm) k"
    using wm(3) unfolding plan_covers_def pend pending.case by blast+
  have store: "lower_keys ?s" "after_genesis ?s" "never_created gs ?s" and rows: "rows_ok gs (pw_index w)"
    using ok by (simp_all add: projection_ok_def)
  note allowed = foldChunk_allowed [OF run]
  obtain ix1 n1 v1 where run1: "refoldEntities keccak (pc_foldKeyBatch config) keys e ?s (pw_index w) = Inr (ix1, n1, v1)"
    "ix' = ix1\<lparr>ix_through := Some e, ix_lastFoldAt := Some nowIso\<rparr>"
    using foldChunk_effect [OF run] by blast
  note effect = allowed_refold [OF run1(1) store rows seed plan(3,4) allowed]
  have same: "ix_floor ix1 = ix_floor (pw_index w)" "ix_watermark ix1 = ix_watermark (pw_index w)" "ix_genesis ix1 = ix_genesis (pw_index w)"
    using arg_cong [OF effect(4), of ix_floor] arg_cong [OF effect(4), of ix_watermark] arg_cong [OF effect(4), of ix_genesis] by simp_all
  have rows': "rows_of ix' k = rows_of ix1 k" for k by (simp add: run1(2))
  note frame = index_frame [OF rows']
  have "settled keccak ?s e (known_base gs ix1) ix1 k \<or> waiting (pw_stamp w) ?s e (late_since config wm) k"
    if low: "to_lower k = k" for k
  proof (cases "k \<in> set keys")
    case False
    have "settled keccak ?s e (known_base gs ix1) ix1 k" if calm: "\<not> waiting (pw_stamp w) ?s e (late_since config wm) k"
    proof -
      have "\<not> waiting (pw_stamp w) ?s a (late_since config wm) k"
        using calm waiting_mono [of "pw_stamp w" ?s a "late_since config wm" k e "late_since config wm"] plan(2) by auto
      then have "settled keccak ?s a (known_base gs (pw_index w)) (pw_index w) k"
        using wm(4) low plan(1) fresh_settled [OF _ allowed] unfolding up_to_date_def by blast
      then have "settled keccak ?s a (known_base gs ix1) ix1 k" using effect(2) False by (auto intro: settled_known)
      moreover have "key_ops ?s e k = key_ops ?s a k" by (rule untouched_beyond) (use plan(2,5) low False calm in auto)
      ultimately show ?thesis by (simp add: settled_def rebuilt_def)
    qed
    then show ?thesis by blast
  qed (use effect(3) in blast)
  then have "up_to_date keccak gs (w\<lparr>pw_index := ix', pw_pending := Idle\<rparr>) e (late_since config wm)"
    by (auto simp: up_to_date_def fresh_def frame)
  moreover have "import_ok gs ix'"
    by (rule import_ok_frame [of gs ix1]) (use effect(1) seed in \<open>simp_all add: rows_ok_def frame rows'\<close>, simp_all add: run1(2))
  then have "rows_ok gs ix'" using effect(1) by (simp add: rows_ok_def frame) (simp add: run1(2) mirrored_def)
  ultimately show ?thesis using ok t wm(1,2) store same by (simp add: projection_ok_def plan_covers_def run1(2))
qed

lemma refolds_ok:
  assumes seed: "seed_ok gs" and ok: "projection_ok keccak config gs w" and pend: "pw_pending w = Scanned keys a now"
    and run: "keys = [] \<and> ix' = pw_index w \<or>
      late_fold keccak config True keys a (pw_store w) (pw_index w) = Inr (Some (ix', n, v))"
  shows "projection_ok keccak config gs (w\<lparr>pw_index := ix', pw_pending := Marking now\<rparr>)"
proof -
  let ?s = "pw_store w"
  obtain t where t: "ix_through (pw_index w) = Some t" using ok pend by (cases "ix_through (pw_index w)") (auto simp: projection_ok_def)
  obtain wm where wm: "ix_watermark (pw_index w) = Some wm" "wm \<le> pw_clock w" "plan_covers config gs w t wm"
    "up_to_date keccak gs w t (late_since config wm)"
    using ok t pend by (auto simp: projection_ok_def)
  have plan: "t = a" "wm \<le> now" "now \<le> pw_clock w" "distinct keys" "\<forall>k \<in> set keys. to_lower k = k"
    "\<And>k. to_lower k = k \<Longrightarrow> k \<notin> set keys \<Longrightarrow> waiting (pw_stamp w) ?s t (late_since config wm) k \<Longrightarrow>
       waiting (pw_stamp w) ?s t (late_since config now) k"
    using wm(3) unfolding plan_covers_def pend pending.case by blast+
  have store: "lower_keys ?s" "after_genesis ?s" "never_created gs ?s" and rows: "rows_ok gs (pw_index w)"
    using ok by (simp_all add: projection_ok_def)
  have effect: "rows_ok gs ix'" "\<forall>k. k \<notin> set keys \<longrightarrow> rows_of ix' k = rows_of (pw_index w) k"
    "\<forall>k \<in> set keys. settled keccak ?s t (known_base gs ix') ix' k"
    "ix' = (pw_index w)\<lparr>ix_versions := ix_versions ix', ix_attributes := ix_attributes ix'\<rparr>"
  proof -
    note refold = allowed_refold [OF late_fold_effect store rows seed plan(4,5) late_fold_allowed]
    show "rows_ok gs ix'" using run refold(1) rows by blast
    show "\<forall>k. k \<notin> set keys \<longrightarrow> rows_of ix' k = rows_of (pw_index w) k" using run refold(2) by blast
    show "\<forall>k \<in> set keys. settled keccak ?s t (known_base gs ix') ix' k" using run refold(3) plan(1) by fastforce
    show "ix' = (pw_index w)\<lparr>ix_versions := ix_versions ix', ix_attributes := ix_attributes ix'\<rparr>" using run refold(4) by fastforce
  qed
  have same: "ix_floor ix' = ix_floor (pw_index w)" "ix_watermark ix' = ix_watermark (pw_index w)"
    "ix_through ix' = ix_through (pw_index w)" "ix_genesis ix' = ix_genesis (pw_index w)"
    using arg_cong [OF effect(4), of ix_floor] arg_cong [OF effect(4), of ix_watermark] arg_cong [OF effect(4), of ix_through]
      arg_cong [OF effect(4), of ix_genesis] by simp_all
  have "fresh keccak ?s t gs ix' k \<or> waiting (pw_stamp w) ?s t (late_since config now) k" if low: "to_lower k = k" for k
  proof (cases "k \<in> set keys")
    case False
    then have "rows_of ix' k = rows_of (pw_index w) k" using effect(2) by blast
    moreover have "fresh keccak ?s t gs (pw_index w) k \<or> waiting (pw_stamp w) ?s t (late_since config wm) k"
      using wm(4) low by (simp add: up_to_date_def)
    ultimately show ?thesis using plan(6) [OF low False] fresh_frame [of keccak ?s t gs "pw_index w" k ix'] same(4)
      by (auto simp: needs_repair_def)
  qed (use effect(3) in \<open>simp add: fresh_def\<close>)
  then have "up_to_date keccak gs (w\<lparr>pw_index := ix', pw_pending := Marking now\<rparr>) t (late_since config now)"
    by (simp add: up_to_date_def)
  then show ?thesis using ok t wm(1,2) store same effect(1) plan(2,3) by (simp add: projection_ok_def plan_covers_def)
qed

subsection \<open>Every step\<close>

lemma drops_ok:
  assumes "projection_ok keccak config gs w"
  shows "projection_ok keccak config gs (w\<lparr>pw_pending := Idle\<rparr>)"
proof (cases "ix_through (pw_index w)")
  case (Some t)
  then obtain wm where wm: "ix_watermark (pw_index w) = Some wm" "plan_covers config gs w t wm" "wm \<le> pw_clock w"
    "case pw_pending w of Marking now \<Rightarrow> up_to_date keccak gs w t (late_since config now)
     | _ \<Rightarrow> up_to_date keccak gs w t (late_since config wm)"
    using assms by (auto simp: projection_ok_def)
  have "up_to_date keccak gs w t (late_since config wm)"
    using wm(2,4) up_to_date_since late_since_mono by (auto simp: plan_covers_def split: pending.splits)
  then show ?thesis using assms Some wm by (simp add: projection_ok_def plan_covers_def up_to_date_def)
qed (use assms in \<open>simp add: projection_ok_def\<close>)

lemma passes_ok:
  assumes "projection_ok keccak config gs w" "pw_clock w \<le> c"
  shows "projection_ok keccak config gs (w\<lparr>pw_clock := c\<rparr>)"
proof (cases "ix_through (pw_index w)")
  case (Some t)
  then obtain wm where wm: "ix_watermark (pw_index w) = Some wm" "plan_covers config gs w t wm" "wm \<le> pw_clock w"
    "case pw_pending w of Marking now \<Rightarrow> up_to_date keccak gs w t (late_since config now)
     | _ \<Rightarrow> up_to_date keccak gs w t (late_since config wm)"
    using assms(1) by (auto simp: projection_ok_def)
  have "plan_covers config gs (w\<lparr>pw_clock := c\<rparr>) t wm"
    using wm(2) assms(2) unfolding plan_covers_def by (cases "pw_pending w") auto
  moreover have "up_to_date keccak gs (w\<lparr>pw_clock := c\<rparr>) t since = up_to_date keccak gs w t since" for since
    by (simp add: up_to_date_def)
  ultimately show ?thesis using assms Some wm by (simp add: projection_ok_def cong: pending.case_cong)
qed (use assms in \<open>simp add: projection_ok_def\<close>)

lemma plans_ok:
  assumes ok: "projection_ok keccak config gs w" and "pw_pending w = Idle" "ix_through (pw_index w) = Some a" "a < e"
  shows "projection_ok keccak config gs (w\<lparr>pw_pending := Planned (keysTouchedBetween a e (pw_store w)) a e\<rparr>)"
proof -
  have lower: "lower_keys (pw_store w)" using ok by (simp add: projection_ok_def)
  let ?keys = "keysTouchedBetween a e (pw_store w)"
  have "distinct ?keys" by (simp add: keysTouchedBetween_def)
  moreover have "untouched (pw_store w) a e k" if "k \<notin> set ?keys" for k
    using that unfolding set_keysTouchedBetween untouched_def by blast
  ultimately show ?thesis using assms keys_lower(1) [OF lower]
    by (simp add: projection_ok_def plan_covers_def up_to_date_def)
qed

lemma scans_ok:
  assumes ok: "projection_ok keccak config gs w" and "pw_pending w = Idle" "ix_through (pw_index w) = Some a"
    "ix_watermark (pw_index w) = Some wm" "wm \<le> now" "now \<le> pw_clock w"
  shows "projection_ok keccak config gs
    (w\<lparr>pw_pending := Scanned (keysScannedSince (late_since config wm) a (pw_stamp w) (pw_store w)) a now\<rparr>)"
proof -
  have lower: "lower_keys (pw_store w)" using ok by (simp add: projection_ok_def)
  let ?keys = "keysScannedSince (late_since config wm) a (pw_stamp w) (pw_store w)"
  have "distinct ?keys" by (simp add: keysScannedSince_def)
  moreover have "\<not> waiting (pw_stamp w) (pw_store w) a (late_since config wm) k" if "k \<notin> set ?keys" for k
    using that unfolding set_keysScannedSince by blast
  ultimately show ?thesis using assms keys_lower(2) [OF lower]
    by (simp add: projection_ok_def plan_covers_def up_to_date_def)
qed

lemma marks_ok:
  assumes ok: "projection_ok keccak config gs w" and pend: "pw_pending w = Marking now" and seed: "seed_ok gs"
  shows "projection_ok keccak config gs (w\<lparr>pw_index := (pw_index w)\<lparr>ix_watermark := Some now\<rparr>, pw_pending := Idle\<rparr>)"
proof -
  let ?ix = "(pw_index w)\<lparr>ix_watermark := Some now\<rparr>"
  obtain t where t: "ix_through (pw_index w) = Some t" using ok pend by (cases "ix_through (pw_index w)") (auto simp: projection_ok_def)
  have w: "up_to_date keccak gs w t (late_since config now)" "now \<le> pw_clock w" "rows_ok gs (pw_index w)"
    using ok t pend by (auto simp: projection_ok_def plan_covers_def)
  have rows: "rows_of ?ix k = rows_of (pw_index w) k" for k by simp
  note frame = index_frame [OF rows]
  have "import_ok gs ?ix"
    by (rule import_ok_frame [of gs "pw_index w"]) (use w(3) seed in \<open>simp_all add: rows_ok_def frame\<close>)
  then have "rows_ok gs ?ix" using w(3) by (simp add: rows_ok_def frame) (simp add: mirrored_def)
  moreover have "up_to_date keccak gs (w\<lparr>pw_index := ?ix, pw_pending := Idle\<rparr>) t (late_since config now)"
    using w(1) by (simp add: up_to_date_def fresh_def frame) (simp add: needs_repair_def)
  ultimately show ?thesis using ok t w(2) by (simp add: projection_ok_def plan_covers_def)
qed

lemma projects_ok:
  assumes step: "projects keccak config gs w w'" and ok: "projection_ok keccak config gs w"
    and seed: "seed_ok gs" and override: "pc_floorOverride config = None"
  shows "projection_ok keccak config gs w'"
  using step
proof cases
  case (Saves m p ts cands ops bals s' t)
  note out = save_outside [OF Saves(2)]
  have "lower_keys s'" using out(2) ok by (simp add: projection_ok_def)
  then show ?thesis
  proof (cases "ts = None")
    case True
    then have "same_rows (pw_store w) s'" using out(3) by (simp add: same_rows_def)
    then show ?thesis using same_rows_ok [OF ok] Saves(1) True by simp
  next
    case False
    then have "w' = w\<lparr>pw_store := s', pw_stamp := restamp (bm_blockNumber m) t (pw_stamp w)\<rparr>"
      using Saves(1) False by (cases ts) simp_all
    then show ?thesis using saves_ok [OF ok out(1) Saves(4) \<open>lower_keys s'\<close> Saves(5,6,3)] by simp
  qed
next
  case (Commits rows seen finished cursor ix')
  show ?thesis unfolding Commits(1) by (rule commits_ok [OF ok Commits(2) seed Commits(3) _ Commits(5)]) (rule Commits(4))
next
  case (Lowers f)
  then show ?thesis using same_index_ok [OF ok seed, of "(pw_index w)\<lparr>ix_floor := Some f\<rparr>"] by simp
next
  case (Counts b)
  then show ?thesis using same_index_ok [OF ok seed, of "refreshLiveEntities b (pw_index w)"] by (simp add: refreshLiveEntities_def)
next
  case (Skips a now)
  then show ?thesis using refolds_ok [OF seed ok, of "[]" a now "pw_index w"] by simp
next
  case (Refolds keys a now ix' n v)
  then show ?thesis using refolds_ok [OF seed ok, of keys a now ix' n v] by simp
qed (simp_all add: passes_ok [OF ok] same_rows_ok [OF ok] probes_ok [OF ok] restarts_ok [OF ok] fails_ok [OF ok]
    floors_ok [OF ok _ _ _ seed] selects_ok [OF ok] repairs_ok [OF ok seed] starts_ok [OF ok _ _ _ _ override seed] plans_ok [OF ok]
    folds_ok [OF seed ok] scans_ok [OF ok] marks_ok [OF ok _ seed] drops_ok [OF ok])

lemma projected_ok:
  assumes "projected keccak config gs w" "seed_ok gs" "pc_floorOverride config = None"
  shows "projection_ok keccak config gs w"
  using assms(1)
proof induction
  case (Initial stamp c)
  have "rows_of empty_index k = []" for k by (simp add: rows_of_def empty_index_def)
  then show ?case
    by (simp add: projection_ok_def initial_projection_def empty_store_def lower_keys_def rows_ok_def import_ok_def
        unborn_ok_def bases_kept_def known_base_def base_kept_def never_created_def after_genesis_def)
       (simp add: empty_index_def mirrored_def attributeRows_def)
next
  case (Step w w')
  then show ?case using projects_ok assms(2,3) by blast
qed

section \<open>Properties\<close>

lemma same_rows_reads:
  assumes "same_rows s s'"
  shows "detectFloorBlock s' = detectFloorBlock s" "keysTouchedBetween a e s' = keysTouchedBetween a e s"
    "keysScannedSince since t stamp s' = keysScannedSince since t stamp s"
  using assms by (simp_all add: same_rows_def detectFloorBlock_def keysTouchedBetween_def keyed_rows_between_def keysScannedSince_def)

lemma foldChunk_same_rows:
  assumes "same_rows s s'"
  shows "foldChunk keccak config free keys e nowIso s' ix = foldChunk keccak config free keys e nowIso s ix"
proof -
  have "loadEntityOps ks t s' = loadEntityOps ks t s" for ks t
    using assms by (simp add: same_rows_def loadEntityOps_def operation_rows_def registry_logs_def entity_txs_def joined_rows_def)
  then have "refold_batch keccak t s' batch acc = refold_batch keccak t s batch acc" for t batch acc
    by (simp add: refold_batch_def)
  then have "refold_batch keccak t s' = refold_batch keccak t s" for t by (simp add: fun_eq_iff)
  then show ?thesis by (simp add: foldChunk_def refoldEntities_def)
qed

text \<open>A chain whose block 5 creates an entity, scanned, then projected.\<close>

definition sample_create :: arkiv_operation where
  "sample_create =
     \<lparr>o_opIndex = 0, o_operationType = 1, o_operation = ''create'', o_entityKey = Some ''0xk'', o_salt = None,
      o_creationFlags = Some 0, o_expiresAt = Some ''100'', o_minLifetime = Some ''10'', o_newOwner = None,
      o_bytesSize = 0, o_schemaName = None, o_attributes = [], o_error = None\<rparr>"

definition sample_sender :: inspected_transaction where
  "sample_sender = (sample_inspected 1 ''7'')\<lparr>it_from := Some ''0xs''\<rparr>"

definition sample_create_saved :: "storage_error + store" where
  "sample_create_saved =
     saveBlockMetrics (sample_metrics 5) LastSuccessfulBlock (Some [sample_sender]) []
       (Some [\<lparr>to_position = 1, to_hash = ''0xh'', to_operations = [sample_create]\<rparr>]) None empty_store"

definition sample_create_store :: store where
  "sample_create_store = (case sample_create_saved of Inr s \<Rightarrow> s | Inl _ \<Rightarrow> empty_store)"

lemma sample_create_stored: "sample_create_saved = Inr sample_create_store"
proof -
  have "case sample_create_saved of Inr s \<Rightarrow> True | Inl _ \<Rightarrow> False" by code_simp
  then obtain s where s: "sample_create_saved = Inr s" by (auto split: sum.splits)
  show ?thesis unfolding sample_create_store_def s by simp
qed

text \<open>The rows of that store, and the fold computed on them.\<close>

definition sample_tables :: store where
  "sample_tables = empty_store
     \<lparr>st_operations := [\<lparr>or_blockNumber = 5, or_position = 1, or_hash = ''0xh'', or_blockDate = ''2024-01-01T00:00:00.000Z'',
        or_operation = sample_create\<rparr>],
      st_transactions := [\<lparr>tr_blockNumber = 5, tr_blockDate = ''2024-01-01T00:00:00.000Z'',
        tr_baseBlockFeeWei = bm_baseBlockFeeWei (sample_metrics 5),
        tr_transaction = sample_sender\<lparr>it_logs := None\<rparr>, tr_logCount = Some 0\<rparr>]\<rparr>"

lemma sample_same: "same_rows sample_tables sample_create_store"
  unfolding same_rows_def by code_simp

definition sample_started :: entity_index where
  "sample_started = empty_index\<lparr>ix_floor := Some 5, ix_through := Some 4, ix_watermark := Some 1000000000\<rparr>"

definition sample_fold :: "index_error + (entity_index \<times> nat \<times> nat) option" where
  "sample_fold = foldChunk (\<lambda>_. []) default_projector True [''0xk''] 5 [] sample_tables sample_started"

definition sample_folded :: entity_index where
  "sample_folded = (case sample_fold of Inr (Some (ix, _)) \<Rightarrow> ix | _ \<Rightarrow> empty_index)"

lemma sample_fold_done: "\<exists>n v. sample_fold = Inr (Some (sample_folded, n, v))"
proof -
  have "case sample_fold of Inr (Some r) \<Rightarrow> True | _ \<Rightarrow> False" by code_simp
  then obtain ix n v where r: "sample_fold = Inr (Some (ix, n, v))" by (auto split: sum.splits option.splits)
  show ?thesis unfolding sample_folded_def r by simp
qed

definition sample_history :: "fold_error + entity_version list" where
  "sample_history = rebuilt (\<lambda>_. []) sample_tables 5 ''0xk'' None"

lemma sample_history_done: "\<exists>vs. sample_history = Inr vs \<and> vs \<noteq> []"
proof -
  have "case sample_history of Inr vs \<Rightarrow> vs \<noteq> [] | _ \<Rightarrow> False" by code_simp
  then show ?thesis by (auto split: sum.splits)
qed

lemma sample_reads:
  "after_genesis sample_tables" "detectFloorBlock sample_tables = Some 5" "keysTouchedBetween 4 5 sample_tables = [''0xk'']"
  "keysScannedSince (late_since default_projector 1000000000) 5 (restamp 5 0 (\<lambda>_. 0)) sample_tables = []"
  unfolding after_genesis_def by code_simp+

definition sample_world :: "entity_index \<Rightarrow> pending \<Rightarrow> projection" where
  "sample_world ix p =
     \<lparr>pw_store = sample_create_store, pw_stamp = restamp 5 0 (\<lambda>_. 0), pw_clock = 1000000000, pw_index = ix, pw_pending = p\<rparr>"

lemma sample_begun: "projected (\<lambda>_. []) default_projector [] (sample_world sample_started Idle)"
proof -
  let ?P = "projected (\<lambda>_. []) default_projector []"
  let ?w0 = "initial_projection (\<lambda>_. 0) 0"
  let ?w1 = "?w0\<lparr>pw_store := sample_create_store, pw_stamp := restamp 5 0 (pw_stamp ?w0)\<rparr>"
  have keys: "block_keys n empty_store \<subseteq> X" for n X by (simp add: block_keys_def empty_store_def)
  have after: "after_genesis sample_create_store" using same_rows_facts(2) [OF sample_same] sample_reads(1) by simp
  have never: "never_created [] sample_create_store" by (simp add: never_created_def)
  have block: "bm_blockNumber (sample_metrics 5) = 5" by code_simp
  have "projects (\<lambda>_. []) default_projector [] ?w0 ?w1"
    using projects.Saves [of _ _ _ _ _ _ ?w0, unfolded initial_projection_def projection.simps,
        OF sample_create_stored [unfolded sample_create_saved_def], of default_projector 0 "[]" "\<lambda>_. []"] keys after never
    by (simp add: initial_projection_def block default_projector_def DEFAULT_LATE_SCAN_OVERLAP_MS_def)
  then have w1: "?P ?w1" by (rule projected.Step [OF projected.Initial])
  have w2: "?P (sample_world empty_index Idle)"
    using projected.Step [OF w1 projects.Passes [of ?w1 1000000000]] by (simp add: initial_projection_def sample_world_def)
  have "start_fold default_projector 1000000000 5 sample_create_store empty_index = Some sample_started"
    by (simp add: start_fold_def detected_floor_def default_projector_def same_rows_reads [OF sample_same] sample_reads
        knownFromBlockZero_def empty_index_def sample_started_def)
  then show ?thesis
    using projected.Step [OF w2 projects.Starts [of "sample_world empty_index Idle" default_projector 1000000000 5 sample_started]]
    by (simp add: sample_world_def empty_index_def)
qed

lemma sample_projected: "projected (\<lambda>_. []) default_projector [] (sample_world sample_folded Idle)"
proof -
  let ?P = "projected (\<lambda>_. []) default_projector []"
  let ?keys = "[''0xk'']"
  have w4: "?P (sample_world sample_started (Planned ?keys 4 5))"
    using projected.Step [OF sample_begun projects.Plans [of "sample_world sample_started Idle" 4 5]]
    by (simp add: sample_world_def sample_started_def same_rows_reads [OF sample_same] sample_reads)
  obtain n v where "sample_fold = Inr (Some (sample_folded, n, v))" using sample_fold_done by blast
  then show ?thesis
    using projected.Step [OF w4 projects.Folds [of "sample_world sample_started (Planned ?keys 4 5)" ?keys 4 5
      "\<lambda>_. []" default_projector "[]" sample_folded n v "[]"]]
    by (simp add: sample_world_def sample_fold_def foldChunk_same_rows [OF sample_same])
qed

text \<open>
  C2. However scanner, projector and genesis import interleave (blocks saved, saved again or filled in below
  the fold point, chunks planned and folded, late scans, pages of the import committed, restarted or given up,
  attempts ending anywhere), with the fold at block \<open>t\<close> the version rows of an entity are those rebuilt from
  all its operations up to \<open>t\<close> on top of its genesis state if that is in, or an operation of it at or below
  \<open>t\<close> was written after the recorded watermark less the overlap, so that the next late scan refolds it, or
  its genesis state alone is in and the import's repair has not come to it; and the attribute table always
  holds exactly the attributes of the version rows. Assumed: the floor is not pinned and the genesis
  entities are well formed; the step relation itself says that a block's transaction commits within the
  overlap, that a rescan finds again every entity key of its block, that block 0 has no operation, and that no
  block creates an entity of the genesis.
\<close>

theorem index_follows_chain:
  assumes "projected keccak config gs w" "seed_ok gs" "pc_floorOverride config = None"
    and "ix_through (pw_index w) = Some t" "to_lower k = k"
    and "rebuilt keccak (pw_store w) t k (known_base gs (pw_index w) k) = Inr vs"
  shows "mirrored (pw_index w) \<and>
    (\<exists>wm. ix_watermark (pw_index w) = Some wm \<and>
      (rows_of (pw_index w) k = map versionRow vs \<or>
       k \<in> set (keysScannedSince (late_since config wm) t (pw_stamp w) (pw_store w)) \<or>
       needs_repair (pw_index w) k \<and> seeded_only gs (pw_index w) k))"
proof -
  have "projection_ok keccak config gs (w\<lparr>pw_pending := Idle\<rparr>)" by (rule drops_ok [OF projected_ok [OF assms(1-3)]])
  then show ?thesis using assms(4-6)
    by (auto simp: projection_ok_def rows_ok_def up_to_date_def fresh_def settled_def set_keysScannedSince)
qed

theorem index_follows_chain_witness:
  "\<exists>vs. sample_history = Inr vs \<and> vs \<noteq> [] \<and> rows_of sample_folded ''0xk'' = map versionRow vs"
proof -
  obtain vs where vs: "sample_history = Inr vs" "vs \<noteq> []" using sample_history_done by blast
  obtain n v where "sample_fold = Inr (Some (sample_folded, n, v))" using sample_fold_done by blast
  then have through: "ix_through sample_folded = Some 5" "ix_watermark sample_folded = Some 1000000000" "ix_genesis sample_folded = None"
    using foldChunk_frame [of "\<lambda>_. []" default_projector "[''0xk'']" 5 "[]" sample_tables sample_started sample_folded n v]
    by (simp_all add: sample_fold_def sample_started_def empty_index_def)
  have "rows_of sample_folded ''0xk'' = map versionRow vs"
    using index_follows_chain [OF sample_projected, of 5 "''0xk''" vs] through vs(1)
    by (simp add: seed_ok_def default_projector_def sample_world_def sample_history_def genesis_of_def known_base_def to_lower_def
        to_lower_char_def same_rows_reads [OF sample_same] sample_reads(4) [unfolded default_projector_def] rebuilt_def
        same_rows_ops [OF sample_same] needs_repair_def)
  then show ?thesis using vs by blast
qed

text \<open>The import of one entity on an index that has folded nothing.\<close>

lemma sample_genesis_ok: "genesis_ok sample_genesis_version" "v_entityKey sample_genesis_version \<noteq> []"
proof -
  have shape: "genesis_shape 0 sample_genesis_version" by (rule genesis_entity_shape [OF sample_genesis_accepted(1)])
  have "case genesisEntityToVersion (\<lambda>_. []) sample_genesis 0 of Inr v \<Rightarrow> mapVersionRow (versionRow v) = v \<and> v_entityKey v \<noteq> [] | Inl _ \<Rightarrow> False"
    by code_simp
  then have row: "mapVersionRow (versionRow sample_genesis_version) = sample_genesis_version" "v_entityKey sample_genesis_version \<noteq> []"
    by (simp_all add: sample_genesis_accepted(1))
  show "genesis_ok sample_genesis_version" by (rule genesis_shape_ok [OF shape row(1)])
  show "v_entityKey sample_genesis_version \<noteq> []" by (rule row(2))
qed

definition sample_import :: genesis_import where
  "sample_import =
     \<lparr>gi_importId = None, gi_status = GRunning, gi_phase = Some Walk, gi_source = Some FromRpc, gi_chainId = Some ''1'',
      gi_genesisHash = None, gi_total = 1, gi_imported = 0, gi_cursor = None, gi_repairAfterKey = None, gi_startedAt = [],
      gi_finishedAt = None, gi_error = None\<rparr>"

definition sample_handed :: genesis_import where
  "sample_handed = sample_import\<lparr>gi_imported := 1, gi_phase := Some Repair\<rparr>"

definition sample_walked :: entity_index where
  "sample_walked = (insertGenesisVersions [sample_genesis_version] empty_index)\<lparr>ix_genesis := Some sample_handed\<rparr>"

definition sample_floored :: entity_index where
  "sample_floored = sample_walked\<lparr>ix_floor := Some 0, ix_through := Some 0, ix_watermark := Some 0\<rparr>"

definition sample_imported :: entity_index where
  "sample_imported = sample_floored\<lparr>ix_genesis := Some (finish_import [] sample_handed)\<rparr>"

definition sample_node_world :: "entity_index \<Rightarrow> pending \<Rightarrow> projection" where
  "sample_node_world ix p =
     \<lparr>pw_store = empty_store, pw_stamp = (\<lambda>_. 0), pw_clock = 0, pw_index = ix, pw_pending = p\<rparr>"

lemma sample_imports: "projected keccak default_projector [sample_genesis_version] (sample_node_world sample_imported Idle)"
proof -
  let ?gs = "[sample_genesis_version]"
  let ?P = "projected keccak default_projector ?gs"
  let ?ix1 = "empty_index\<lparr>ix_genesis := Some sample_import\<rparr>"
  have tables: "ix_through sample_walked = None" "ix_floor sample_walked = None" "ix_watermark sample_walked = None"
    by (simp_all add: sample_walked_def insertGenesisVersions_def empty_index_def)
  have handed: "repairing sample_handed sample_handed" "gi_repairAfterKey sample_handed = None" "ix_genesis sample_walked = Some sample_handed"
    by (simp_all add: repairing_def sample_handed_def sample_import_def sample_walked_def)
  have w0: "?P (sample_node_world empty_index Idle)"
    using projected.Initial [of keccak default_projector ?gs "\<lambda>_. 0" 0] by (simp add: sample_node_world_def initial_projection_def)
  have "probed ?gs sample_import" by (simp add: probed_def sample_import_def)
  then have w1: "?P (sample_node_world ?ix1 Idle)"
    using projected.Step [OF w0 projects.Probes [of "sample_node_world empty_index Idle" ?gs sample_import ?ix1]]
    by (simp add: sample_node_world_def record_probe_def empty_index_def)
  have "commit_walk (None, 0) ?gs None 1 True ?ix1 = Some sample_walked"
    by (simp add: commit_walk_def walking_def sample_import_def sample_handed_def sample_walked_def insertGenesisVersions_def)
  then have w2: "?P (sample_node_world sample_walked Idle)"
    using projected.Step [OF w1 projects.Commits [of "sample_node_world ?ix1 Idle" ?gs "(None, 0)" ?gs True None sample_walked]]
    by (simp add: sample_node_world_def)
  have "set_floor sample_handed 0 sample_walked = Some sample_floored"
    by (simp add: set_floor_def handed sample_floored_def tables)
  then have w3: "?P (sample_node_world sample_floored Idle)"
    using projected.Step [OF w2 projects.Floors [of "sample_node_world sample_walked Idle" sample_handed 0 sample_floored]]
    by (simp add: sample_node_world_def initial_projection_def)
  have row: "ix_genesis sample_floored = Some sample_handed" "ix_through sample_floored = Some 0"
    by (simp_all add: sample_floored_def sample_walked_def)
  have "genesisKeysWithOperations 0 None 1 empty_store sample_floored = []"
    by (simp add: genesisKeysWithOperations_def empty_store_def map_filter_def)
  then have w4: "?P (sample_node_world sample_floored (Repairing [] None 0 True))"
    using projected.Step [OF w3 projects.Selects [of "sample_node_world sample_floored Idle" 0 sample_handed 1 "[]"]] row
    by (simp add: sample_node_world_def initial_projection_def sample_handed_def sample_import_def)
  have "repair_batch keccak default_projector sample_handed None [] 0 True [] empty_store sample_floored = Inr (Some sample_imported)"
    by (simp add: repair_batch_def row handed sample_imported_def)
  then show ?thesis
    using projected.Step [OF w4 projects.Repairs [of "sample_node_world sample_floored (Repairing [] None 0 True)" "[]" None 0 True
      keccak default_projector sample_handed "[]" sample_imported]]
    by (simp add: sample_node_world_def initial_projection_def)
qed

text \<open>
  C5. Once the import is recorded as done, however often it was interrupted, restarted or repeated and
  whatever was scanned and folded meanwhile, every entity of the genesis is in: its first row is its genesis
  state (ended, if an operation changed it), and its rows are that state with all its operations up to the
  fold point on top, unless the next late scan refolds it.
\<close>

theorem genesis_import_sound:
  assumes "projected keccak config gs w" "seed_ok gs" "pc_floorOverride config = None"
    and "ix_genesis (pw_index w) = Some g" "gi_status g = GDone" "v \<in> set gs"
  shows "\<exists>t wm toBlock. ix_through (pw_index w) = Some t \<and> ix_watermark (pw_index w) = Some wm \<and>
    base_of (rows_of (pw_index w) (v_entityKey v)) = Some (v\<lparr>v_toBlock := toBlock\<rparr>) \<and>
    (\<forall>vs. rebuilt keccak (pw_store w) t (v_entityKey v) (Some v) = Inr vs \<longrightarrow>
       rows_of (pw_index w) (v_entityKey v) = map versionRow vs \<or>
       v_entityKey v \<in> set (keysScannedSince (late_since config wm) t (pw_stamp w) (pw_store w)))"
proof -
  let ?ix = "pw_index w" and ?k = "v_entityKey v"
  have ok: "projection_ok keccak config gs (w\<lparr>pw_pending := Idle\<rparr>)" by (rule drops_ok [OF projected_ok [OF assms(1-3)]])
  then have rows: "rows_ok gs ?ix" by (simp add: projection_ok_def)
  note v = seed_okD [OF assms(2,6)]
  have known: "imported_upto gs (length gs) ?ix" "ix_through ?ix \<noteq> None"
    using rows assms(4,5) by (simp_all add: rows_ok_def import_ok_def)
  then obtain t where t: "ix_through ?ix = Some t" by blast
  have base: "known_base gs ?ix ?k = Some v" using imported_all [OF known(1)] v(4) by simp
  then obtain toBlock where kept: "base_of (rows_of ?ix ?k) = Some (v\<lparr>v_toBlock := toBlock\<rparr>)"
    using rows v(3) by (fastforce simp: rows_ok_def bases_kept_def base_kept_def)
  have "\<not> needs_repair ?ix ?k" using assms(4,5) by (simp add: needs_repair_def)
  then have "\<exists>wm. ix_watermark ?ix = Some wm \<and> (\<forall>vs. rebuilt keccak (pw_store w) t ?k (Some v) = Inr vs \<longrightarrow>
       rows_of ?ix ?k = map versionRow vs \<or> ?k \<in> set (keysScannedSince (late_since config wm) t (pw_stamp w) (pw_store w)))"
    using ok t v(3) base by (auto simp: projection_ok_def up_to_date_def fresh_def settled_def set_keysScannedSince)
  then show ?thesis using t kept by blast
qed

theorem genesis_import_sound_witness:
  "\<exists>toBlock. base_of (rows_of sample_imported (v_entityKey sample_genesis_version)) = Some (sample_genesis_version\<lparr>v_toBlock := toBlock\<rparr>)"
proof -
  have "seed_ok [sample_genesis_version]" by (simp add: seed_ok_def sample_genesis_ok)
  moreover have "ix_genesis (pw_index (sample_node_world sample_imported Idle)) = Some (finish_import [] sample_handed)"
    by (simp add: sample_node_world_def sample_imported_def)
  moreover have "gi_status (finish_import [] sample_handed) = GDone" by (simp add: finish_import_def)
  moreover have "pc_floorOverride default_projector = None" by (simp add: default_projector_def)
  ultimately obtain toBlock where
    "base_of (rows_of (pw_index (sample_node_world sample_imported Idle)) (v_entityKey sample_genesis_version)) =
      Some (sample_genesis_version\<lparr>v_toBlock := toBlock\<rparr>)"
    using genesis_import_sound [OF sample_imports, of "finish_import [] sample_handed" sample_genesis_version "\<lambda>_. []"] by auto
  then show ?thesis unfolding sample_node_world_def projection.simps by blast
qed

end
