(* ===== verification/ProjectorLiveness.thy ===== *)
theory ProjectorLiveness
  imports ProjectorFacts
begin

text \<open>
  A refold of readable operations succeeds, and so does a tick over a database that keeps still: it brings
  the projection to the head of the chain.
\<close>

section \<open>A refold of readable operations succeeds\<close>

definition decodable :: "event_log \<Rightarrow> bool" where
  "decodable lg \<longleftrightarrow> (\<forall>topic0. \<exists>ev. decodeEvent topic0 lg = Inr ev)"

text \<open>
  What the decoder contract and the engine promise: every triple of an applied operation reads, and no
  word of an event exceeds its type.
\<close>

definition chain_readable :: "(string \<Rightarrow> string) \<Rightarrow> store \<Rightarrow> bool" where
  "chain_readable keccak s \<longleftrightarrow>
     (\<forall>p \<in> set (joined_rows s). \<forall>oper. operation_record p = Some oper \<longrightarrow> readable keccak oper) \<and>
     (\<forall>l \<in> set (st_logs s). decodable (event_log_of l))"

definition queues_decodable :: "event_queues \<Rightarrow> bool" where
  "queues_decodable qs \<longleftrightarrow> (\<forall>t q lg. map_get qs t = Some q \<longrightarrow> lg \<in> set q \<longrightarrow> decodable lg)"

lemma queues_decodable_set: "queues_decodable qs \<Longrightarrow> \<forall>lg \<in> set q. decodable lg \<Longrightarrow> queues_decodable (map_set t q qs)"
  by (auto simp: queues_decodable_def)

lemma event_queues_decodable:
  assumes "\<forall>lg \<in> set logs. decodable lg"
  shows "queues_decodable (event_queues logs)"
proof -
  have step: "queues_decodable (queue_log lg qs)" if "queues_decodable qs" "decodable lg" for lg qs
    using that by (auto simp: queue_log_def Let_def queues_decodable_def split: option.splits)
  have "queues_decodable (fold queue_log ls qs)" if "queues_decodable qs" "\<forall>lg \<in> set ls. decodable lg" for ls qs
    using that by (induction ls arbitrary: qs) (auto simp: step)
  from this [of "[]" "js_sort compare_logs logs"] show ?thesis
    using assms by (simp add: event_queues_def) (simp add: queues_decodable_def)
qed

lemma attach_total:
  assumes "\<forall>lg \<in> set logs. decodable lg"
  shows "\<exists>ops'. attachEventsToOps ops logs = Inr ops'"
proof -
  have step: "\<exists>st'. attach_step iop st = Inr st' \<and> queues_decodable (fst st')" if q: "queues_decodable (fst st)" for iop st
  proof -
    obtain i oper qs os where st: "iop = (i, oper)" "st = (qs, os)" by (cases iop; cases st)
    have "\<exists>ev. decodeEvent t lg = Inr ev" if "map_get qs t = Some (lg # rest)" for t lg rest
      using q that st by (auto simp: queues_decodable_def decodable_def)
    moreover have "queues_decodable (map_set t rest qs)" if "map_get qs t = Some (lg # rest)" for t lg rest
      using q that st by (intro queues_decodable_set) (auto simp: queues_decodable_def)
    ultimately show ?thesis using q
      by (fastforce simp: attach_step_def st Let_def split: option.splits list.splits)
  qed
  let ?walk = "js_sort (\<lambda>a b. compareOps (snd a) (snd b)) (zip [0..<length ops] ops)"
  have "\<exists>st. fold_result attach_step ?walk (event_queues logs, ops) = Inr st \<and> queues_decodable (fst st)"
    by (rule fold_result_total) (use step event_queues_decodable [OF assms] in simp_all)
  then obtain st where "fold_result attach_step ?walk (event_queues logs, ops) = Inr st" by blast
  then show ?thesis by (simp add: attachEventsToOps_def)
qed

lemma tx_applied_total:
  assumes "chain_readable keccak s"
  shows "\<exists>ops. tx_applied s tx = Inr ops"
proof -
  have "\<forall>lg \<in> set (tx_events s tx). decodable lg"
    using assms by (auto simp: chain_readable_def tx_events_def all_logs_def)
  then show ?thesis using attach_total by (simp add: tx_applied_def)
qed

lemma key_ops_total:
  assumes "chain_readable keccak s"
  obtains ops where "key_ops s through k = Inr ops" "\<forall>oper \<in> set ops. readable keccak oper"
proof -
  let ?txs = "filter (\<lambda>tx. touches s k tx \<and> fst tx \<le> through) (applied_txs s)"
  obtain opss where opss: "map_result (tx_applied s) ?txs = Inr opss"
    using map_result_total [of ?txs "tx_applied s"] tx_applied_total [OF assms] by blast
  let ?ops = "filter (\<lambda>oper. r_entityKey oper = k) (concat opss)"
  have ops: "readable keccak oper" if oper: "oper \<in> set ?ops" for oper
  proof -
    obtain ops1 where ops1: "oper \<in> set ops1" "ops1 \<in> set opss" using oper by auto
    then obtain tx where tx: "oper \<in> set ops1" "tx_applied s tx = Inr ops1" using map_result_set [OF opss] by blast
    have "map r_attributes ops1 = map r_attributes (tx_records s tx)" by (rule tx_applied_map [OF tx(2)]) simp
    from arg_cong [OF this, of set] have "r_attributes oper \<in> r_attributes ` set (tx_records s tx)"
      using tx(1) by (metis imageI set_map)
    then obtain oper' where oper': "r_attributes oper = r_attributes oper'" "oper' \<in> set (tx_records s tx)" by (rule imageE)
    then have "readable keccak oper'"
      using assms by (auto simp: chain_readable_def tx_records_def map_filter_def all_rows_def)
    then show ?thesis using oper'(1) by (simp add: readable_def)
  qed
  have "key_ops s through k = Inr ?ops" using opss by (simp add: key_ops_def)
  then show ?thesis by (rule that) (use ops in blast)
qed

lemma rebuilt_total:
  assumes "chain_readable keccak s"
  shows "\<exists>vs. rebuilt keccak s through k base = Inr vs"
proof -
  obtain ops where "key_ops s through k = Inr ops" "\<forall>oper \<in> set ops. readable keccak oper"
    by (rule key_ops_total [OF assms])
  then show ?thesis using foldEntityVersions_total [of ops keccak k base] by (simp add: rebuilt_def)
qed

lemma loadEntityOps_total:
  assumes "chain_readable keccak s"
  shows "\<exists>m. loadEntityOps keys through s = Inr m"
proof (cases "keys = []")
  case False
  let ?T = "set (entity_txs keys through s)"
  have "\<exists>t. attach_tx (map to_lower keys) (logsByTx (registry_logs keys through s)) p m = Inr t"
    if p: "p \<in> set (map (\<lambda>tx. (tx, tx_records s tx)) (filter (\<lambda>tx. tx \<in> ?T) (applied_txs s)))" for p m
  proof -
    obtain tx where "p = (tx, tx_records s tx)" "tx \<in> ?T" using p by auto
    moreover obtain ops where "tx_applied s tx = Inr ops" using tx_applied_total [OF assms] by blast
    ultimately show ?thesis by (simp add: attach_tx_applied)
  qed
  then obtain m where "fold_result (attach_tx (map to_lower keys) (logsByTx (registry_logs keys through s)))
      (map (\<lambda>tx. (tx, tx_records s tx)) (filter (\<lambda>tx. tx \<in> ?T) (applied_txs s))) [] = Inr m"
    using fold_result_total [where P = "\<lambda>_. True"] by meson
  then show ?thesis using False by (simp add: loadEntityOps_def opsByTx_eq)
qed (simp add: loadEntityOps_def)

lemma rebuilt_shape:
  assumes "rebuilt keccak s through k (genesis k) = Inr vs" "after_genesis s" "genesis_known genesis"
  shows "distinct (map v_version vs)" "\<forall>v \<in> set vs. version_ok v" "\<forall>v \<in> set vs. v_entityKey v = k"
proof -
  obtain ops where ops: "key_ops s through k = Inr ops" "foldEntityVersions keccak k ops (genesis k) = Inr vs"
    using assms(1) by (auto simp: rebuilt_def bind_result_eq_Inr)
  have late: "\<forall>oper \<in> set ops. 1 \<le> r_blockNumber oper"
    using key_ops_records [OF ops(1)] joined_rows_op assms(2) by (fastforce simp: after_genesis_def)
  have base: "genesis_ok g" if "genesis k = Some g" for g using assms(3) that by (simp add: genesis_known_def)
  have "base_ok (genesis k) ops"
    using late base by (fastforce simp: base_ok_def starts_before_def genesis_ok_def split: option.splits)
  then show "distinct (map v_version vs)" by (rule linked_distinct [OF versions_linked [OF ops(2)]])
  have "base_valid (genesis k)"
    using base by (auto simp: base_valid_def genesis_ok_def version_ok_def names_sorted_def split: option.splits)
  then show "\<forall>v \<in> set vs. version_ok v" by (rule versions_well_formed [OF ops(2)])
  show "\<forall>v \<in> set vs. v_entityKey v = k" using rebuilt_history [OF assms] by (simp add: from_history_def)
qed

lemma concat_key_versions:
  assumes "map_result f keys = Inr vss" "distinct keys"
    and "\<And>k vs. k \<in> set keys \<Longrightarrow> f k = Inr vs \<Longrightarrow> (\<forall>v \<in> set vs. v_entityKey v = k) \<and> distinct (map v_version vs)"
  shows "distinct (map key_version (concat vss)) \<and> (\<forall>v \<in> set (concat vss). v_entityKey v \<in> set keys)"
  using assms
proof (induction keys arbitrary: vss)
  case (Cons k keys)
  then obtain vs wss where vs: "f k = Inr vs" "map_result f keys = Inr wss" "vss = vs # wss"
    by (auto simp: bind_result_eq_Inr)
  have own: "\<forall>v \<in> set vs. v_entityKey v = k" "distinct (map v_version vs)" using Cons.prems(3) vs(1) by auto
  have rest: "distinct (map key_version (concat wss))" "\<forall>v \<in> set (concat wss). v_entityKey v \<in> set keys"
    using Cons.IH [OF vs(2)] Cons.prems(2,3) by auto
  have "distinct (map key_version vs)" using own by (auto simp: distinct_map inj_on_def)
  moreover have "key_version ` set vs \<inter> key_version ` set (concat wss) = {}"
    using own(1) rest(2) Cons.prems(2) by force
  ultimately have "distinct (map key_version (concat vss))" using rest(1) vs(3) by simp
  moreover have "\<forall>v \<in> set (concat vss). v_entityKey v \<in> set (k # keys)" using own(1) rest(2) vs(3) by auto
  ultimately show ?case by blast
qed simp

lemma refold_batch_total:
  assumes "lower_keys s" "after_genesis s" "distinct batch" "\<forall>k \<in> set batch. to_lower k = k"
    and "genesis_known genesis" "bases_kept genesis ix" "chain_readable keccak s"
  shows "\<exists>r. refold_batch keccak through s batch (ix, e, w) = Inr r"
proof -
  obtain m where m: "loadEntityOps batch through s = Inr m" using loadEntityOps_total [OF assms(7)] by blast
  have one: "\<exists>vs. refold_key keccak m (loadGenesisBases batch ix) k = Inr vs \<and> rebuilt keccak s through k (genesis k) = Inr vs"
    if k: "k \<in> set batch" for k
  proof -
    have low: "to_lower k = k" using k assms(4) by blast
    obtain vs where vs: "rebuilt keccak s through k (genesis k) = Inr vs" using rebuilt_total [OF assms(7)] by blast
    then have "foldEntityVersions keccak k (list_at m k) (genesis k) = Inr vs"
      using loadEntityOps_key [OF m assms(1) k low] by (simp add: rebuilt_def)
    then have "refold_key keccak m (loadGenesisBases batch ix) k = Inr vs"
      using fold_base_kept [of "genesis k" "rows_of ix k"] assms(5,6) low
      by (simp add: refold_key_def low loadGenesisBases_at [OF k low] bases_kept_def genesis_known_def)
    then show ?thesis using vs by blast
  qed
  obtain vss where vss: "map_result (refold_key keccak m (loadGenesisBases batch ix)) batch = Inr vss"
    using map_result_total [of batch] one by meson
  have shape: "(\<forall>v \<in> set vs. v_entityKey v = k) \<and> distinct (map v_version vs) \<and> (\<forall>v \<in> set vs. version_ok v)"
    if "k \<in> set batch" "refold_key keccak m (loadGenesisBases batch ix) k = Inr vs" for k vs
    using one [OF that(1)] that(2) rebuilt_shape [of keccak s through k genesis vs] assms(2,5) by auto
  have keys: "distinct (map key_version (concat vss))" "\<forall>v \<in> set (concat vss). v_entityKey v \<in> set batch"
    using concat_key_versions [OF vss assms(3)] shape by blast+
  have "\<forall>v \<in> set (concat vss). version_ok v"
    using map_result_set [OF vss] shape by fastforce
  then have "distinct (map attribute_key (attributeRows (concat vss)))" by (rule attribute_keys_distinct [OF keys(1)])
  moreover have lower: "to_lower ` set batch = set batch" using assms(4) by force
  moreover have "set (map version_key (map versionRow (concat vss))) \<inter>
      set (map version_key (filter (\<lambda>r. row_key r \<notin> set batch) (ix_versions ix))) = {}"
    using keys(2) by (fastforce simp: version_key_def)
  moreover have "set (map attribute_key (attributeRows (concat vss))) \<inter>
      set (map attribute_key (filter (\<lambda>r. ar_entity_key r \<notin> set batch) (ix_attributes ix))) = {}"
    using keys(2) by (fastforce simp: attributeRows_def attribute_key_def)
  moreover have "distinct (map version_key (map versionRow (concat vss)))" using keys(1) by (simp add: comp_def)
  ultimately have "\<exists>ix'. replaceVersions batch (concat vss) ix = Inr ix'"
    by (simp add: replaceVersions_def Let_def insert_rows_def lower)
  then show ?thesis using m vss by (auto simp: refold_batch_def wrap_error_def)
qed

lemma refoldEntities_total:
  assumes "lower_keys s" "after_genesis s" "genesis_known genesis" "bases_kept genesis ix"
    and "distinct keys" "\<forall>k \<in> set keys. to_lower k = k" "chain_readable keccak s"
  shows "\<exists>r. refoldEntities keccak batch keys through s ix = Inr r"
proof -
  have "\<exists>r. fold_result (refold_batch keccak through s) batches (ix, e, w) = Inr r"
    if "distinct (concat batches)" "\<forall>k \<in> set (concat batches). to_lower k = k" "bases_kept genesis ix" for batches ix e w
    using that
  proof (induction batches arbitrary: ix e w)
    case (Cons b batches)
    have b: "distinct b" "\<forall>k \<in> set b. to_lower k = k" using Cons.prems by auto
    obtain ix1 e1 w1 where one: "refold_batch keccak through s b (ix, e, w) = Inr (ix1, e1, w1)"
      using refold_batch_total [OF assms(1,2) b assms(3) Cons.prems(3) assms(7)] by (metis prod_cases3)
    have "fold_result (refold_batch keccak through s) [b] (ix, e, w) = Inr (ix1, e1, w1)" using one by simp
    from refold_batches_effect [OF this assms(1-3) Cons.prems(3)] b have "bases_kept genesis ix1" by simp
    then show ?case using Cons one by simp
  qed simp
  from this [of "foldKeyBatches keys batch" ix 0 0] show ?thesis
    using assms(4-6) unfolding refoldEntities_def concat_foldKeyBatches by blast
qed

section \<open>A tick over a quiet database\<close>

text \<open>Every entity's rows are those rebuilt from all its operations up to block \<open>t\<close>.\<close>

definition brought_to ::
  "(string \<Rightarrow> string) \<Rightarrow> store \<Rightarrow> (string \<Rightarrow> entity_version option) \<Rightarrow> int \<Rightarrow> entity_index \<Rightarrow> bool" where
  "brought_to keccak s genesis t ix \<longleftrightarrow>
     bases_kept genesis ix \<and> genesis_allows ix \<and> ix_through ix = Some t \<and>
     (\<forall>k. to_lower k = k \<longrightarrow> refolded keccak s t genesis k ix)"

definition unhindered :: "projector_config \<Rightarrow> tick_world \<Rightarrow> bool" where
  "unhindered config env \<longleftrightarrow>
     tw_late_lock env \<and> (\<forall>i. tw_chunk_lock env i) \<and> (\<forall>i. tw_clock env i - tw_startedAt env < pc_maxTickMs config)"

lemma brought_frame:
  assumes "brought_to keccak s genesis t ix" "\<And>k. rows_of ix' k = rows_of ix k" "ix_genesis ix' = ix_genesis ix"
    "ix_through ix' = ix_through ix"
  shows "brought_to keccak s genesis t ix'"
  using assms by (simp add: brought_to_def bases_kept_def genesis_allows_def refolded_def)

lemma fold_loop_brings:
  assumes "lower_keys s" "after_genesis s" "genesis_known genesis" "chain_readable keccak s" "unhindered config env"
    and "brought_to keccak s genesis through ix" "through \<le> head"
  shows "\<exists>ix' r. fold_loop keccak config env s head i through result ix = (ix', Inr r) \<and>
    brought_to keccak s genesis head ix' \<and> tk_lockHeldElsewhere r = tk_lockHeldElsewhere result \<and>
    ix_floor ix' = ix_floor ix"
  using assms(6,7)
proof (induction "nat (head - through)" arbitrary: i through result ix rule: less_induct)
  case less
  show ?case
  proof (cases "through < head")
    case False
    then show ?thesis using less.prems by (subst fold_loop.simps) simp
  next
    case True
    let ?e = "planChunkEnd through head (pc_maxOpsPerChunk config) s"
    let ?keys = "keysTouchedBetween through ?e s"
    have e: "through < ?e" "?e \<le> head" using planChunkEnd_bounds [OF True] by blast+
    have keys: "distinct ?keys" "\<forall>k \<in> set ?keys. to_lower k = k"
      using keys_lower(1) [OF assms(1)] by (simp_all add: keysTouchedBetween_def)
    have bases: "bases_kept genesis ix" and old: "\<And>k. to_lower k = k \<Longrightarrow> refolded keccak s through genesis k ix"
      using less.prems(1) by (simp_all add: brought_to_def)
    obtain ix1 n v where run: "refoldEntities keccak (pc_foldKeyBatch config) ?keys ?e s ix = Inr (ix1, n, v)"
      using refoldEntities_total [OF assms(1,2,3) bases keys assms(4)] by (metis prod_cases3)
    let ?ix = "ix1\<lparr>ix_through := Some ?e, ix_lastFoldAt := Some (tw_iso env i)\<rparr>"
    have chunk: "foldChunk keccak config True ?keys ?e (tw_iso env i) s ix = Inr (Some (?ix, n, v))"
      using run less.prems(1) by (simp add: foldChunk_def withFoldLock_def brought_to_def)
    note effect = refoldEntities_effect [OF run assms(1,2,3) bases keys]
    note frame = foldChunk_frame [OF chunk]
    have "refolded keccak s ?e genesis k ix1" if low: "to_lower k = k" for k
    proof (cases "k \<in> set ?keys")
      case False
      have "key_ops s ?e k = key_ops s through k"
        by (rule key_ops_beyond) (use False e in \<open>auto simp: set_keysTouchedBetween touches_def tx_of_def\<close>)
      then show ?thesis using old [OF low] effect(1) False by (simp add: refolded_def rebuilt_def)
    qed (use effect(2) in blast)
    then have brought: "brought_to keccak s genesis ?e ?ix"
      using effect(4) less.prems(1) frame(4) by (simp add: brought_to_def refolded_def bases_kept_def genesis_allows_def)
    have smaller: "nat (head - ?e) < nat (head - through)" using e by simp
    let ?result = "result\<lparr>tk_chunksFolded := tk_chunksFolded result + 1,
        tk_entitiesRefolded := tk_entitiesRefolded result + n, tk_projectedThroughBlock := Some ?e\<rparr>"
    have "fold_loop keccak config env s head i through result ix = fold_loop keccak config env s head (i + 1) ?e ?result ?ix"
      using True assms(5) chunk by (subst fold_loop.simps) (simp add: unhindered_def Let_def)
    then show ?thesis using less.hyps [OF smaller brought e(2), of "i + 1" ?result] frame(3) by simp
  qed
qed

lemma late_stage_brings:
  assumes ok: "projection_ok keccak config gs w" "pw_pending w = Idle" "ix_through (pw_index w) = Some t"
    and readable: "chain_readable keccak (pw_store w)" "genesis_allows (pw_index w)" "unhindered config env" "seed_ok gs"
    and due: "tw_lateCheckAt env - ps_lastLateScanAt st \<ge> pc_lateScanIntervalMs config"
  shows "\<exists>ix' st' n. late_stage keccak config env (pw_stamp w) (pw_store w) st t (pw_index w) = (ix', st', Inr (Some n)) \<and>
    brought_to keccak (pw_store w) (expected_base gs (pw_index w)) t ix'"
proof -
  let ?s = "pw_store w" and ?G = "expected_base gs (pw_index w)"
  obtain wm where wm: "ix_watermark (pw_index w) = Some wm" "up_to_date keccak gs w t (late_since config wm)"
    and rows: "rows_ok gs (pw_index w)" and store: "lower_keys ?s" "after_genesis ?s"
    using ok by (auto simp: projection_ok_def)
  have base: "known_base gs (pw_index w) k = ?G k" if "to_lower k = k" for k
    using allowed_base [OF _ readable(2) that] rows by (simp add: rows_ok_def)
  then have bases: "bases_kept ?G (pw_index w)" using rows bases_kept_cong [of "known_base gs (pw_index w)" ?G "pw_index w"] by (simp add: rows_ok_def)
  have date: "settled keccak ?s t ?G (pw_index w) k \<or> waiting (pw_stamp w) ?s t (late_since config wm) k" if "to_lower k = k" for k
    using wm(2) that fresh_settled [OF _ readable(2)] base [OF that] unfolding up_to_date_def settled_def by metis
  let ?ix = "complete_floor config ?s (pw_index w)"
  let ?keys = "keysScannedSince (late_since config wm) t (pw_stamp w) ?s"
  have ix: "rows_of ?ix = rows_of (pw_index w)" "ix_watermark ?ix = Some wm" "ix_genesis ?ix = ix_genesis (pw_index w)"
    "ix_through ?ix = Some t"
    using wm(1) ok(3) by (simp_all add: complete_floor_def split: option.splits)
  have bases1: "bases_kept ?G ?ix" using bases by (simp add: bases_kept_def ix)
  have settled: "refolded keccak ?s t ?G k ?ix" if "to_lower k = k" "k \<notin> set ?keys" for k
    using date [OF that(1)] that rebuilt_total [OF readable(1), of t k "?G k"]
    by (auto simp: set_keysScannedSince settled_def refolded_def ix)
  have keys: "distinct ?keys" "\<forall>k \<in> set ?keys. to_lower k = k"
    using keys_lower(2) [OF store(1)] by (simp_all add: keysScannedSince_def)
  have allows: "genesis_allows ?ix" using readable(2) by (simp add: genesis_allows_def ix)
  have "\<exists>ix' n. refoldLateArrivals keccak config True (tw_now env) (ix_watermark ?ix) t (ix_floor ?ix) (pw_stamp w) ?s ?ix =
      (ix', Inr (Some n)) \<and> brought_to keccak ?s ?G t ix'"
  proof (cases "?keys = []")
    case True
    have "brought_to keccak ?s ?G t ?ix" using settled True bases1 allows ix(4) by (simp add: brought_to_def)
    then have "brought_to keccak ?s ?G t (?ix\<lparr>ix_watermark := Some (tw_now env)\<rparr>)" by (rule brought_frame) simp_all
    then show ?thesis using True by (simp add: refoldLateArrivals_def ix)
  next
    case False
    obtain ix1 n v where run: "refoldEntities keccak (pc_foldKeyBatch config) ?keys t ?s ?ix = Inr (ix1, n, v)"
      using refoldEntities_total [OF store expected_known [OF readable(4)] bases1 keys readable(1)] by (metis prod_cases3)
    note effect = refoldEntities_effect [OF run store expected_known [OF readable(4)] bases1 keys]
    have frame: "ix_genesis ix1 = ix_genesis ?ix" "ix_through ix1 = ix_through ?ix"
      by (subst effect(5); simp)+
    have "refolded keccak ?s t ?G k ix1" if "to_lower k = k" for k
      using effect(1,2) settled [OF that] by (cases "k \<in> set ?keys") (simp_all add: refolded_def)
    then have "brought_to keccak ?s ?G t ix1"
      using effect(4) allows frame ix(4) by (simp add: brought_to_def genesis_allows_def)
    then have "brought_to keccak ?s ?G t ((lower_floor config (ix_floor ?ix) ?s ix1)\<lparr>ix_watermark := Some (tw_now env)\<rparr>)"
      by (rule brought_frame) (simp_all add: lower_floor_def split: option.splits)
    then show ?thesis using False run allows
      by (simp add: refoldLateArrivals_def ix late_fold_def withFoldLock_def Let_def)
  qed
  then show ?thesis using due readable(3) by (auto simp: late_stage_def Let_def unhindered_def)
qed

section \<open>Property\<close>

text \<open>The tick that folds the sample chain.\<close>

definition sample_tick_world :: tick_world where
  "sample_tick_world =
     \<lparr>tw_now = 1000000000, tw_lateCheckAt = 1000000, tw_lateDoneAt = 1000001, tw_startedAt = 1000000,
      tw_clock = (\<lambda>_. 1000002), tw_iso = (\<lambda>_. []), tw_late_lock = True, tw_chunk_lock = (\<lambda>_. True),
      tw_countCheckAt = 1000003, tw_countedAt = 1000004, tw_countMs = 1, tw_genesis_changed = False\<rparr>"

definition sample_projector_state :: projector_state where
  "sample_projector_state = \<lparr>ps_lastLateScanAt = 0, ps_lastLiveCountAt = 0, ps_lastLiveCountMs = 0\<rparr>"

lemma sample_head: "getIndexedHead sample_create_store = Inr (Some 5)"
proof -
  have "(case getIndexedHead sample_create_store of Inr (Some n) \<Rightarrow> n = 5 | _ \<Rightarrow> False)" by code_simp
  then show ?thesis by (auto split: sum.splits option.splits)
qed

lemma sample_chain_readable: "chain_readable keccak sample_create_store"
proof -
  have "joined_rows sample_create_store = joined_rows sample_tables" "st_logs sample_create_store = []"
    using sample_same by (simp_all add: same_rows_def joined_rows_def sample_tables_def empty_store_def)
  moreover have "\<forall>p \<in> set (joined_rows sample_tables). \<forall>oper. operation_record p = Some oper \<longrightarrow> readable keccak oper"
    by (auto simp: joined_rows_def sample_tables_def operation_record_def Let_def readable_def sample_create_def
        fromStoredOperationAttributes_def
        split: if_splits option.splits)
  ultimately show ?thesis by (simp add: chain_readable_def)
qed

text \<open>
  C3. A tick catches up. From any state that scanner and projector reach with the fold point at or below the
  indexed head, a tick whose late scan is due, which finds the lock free and is not out of time, over rows that
  can be read, ends without an exception with the fold point at the head and, for every entity, exactly the
  version rows rebuilt from all its operations on top of its genesis state: what was waiting for the late scan
  is settled too.
\<close>

theorem tick_catches_up:
  assumes "projected keccak config gs w" "seed_ok gs" "pc_floorOverride config = None"
    and "ix_through (pw_index w) = Some t" "getIndexedHead (pw_store w) = Inr (Some head)" "t \<le> head"
    and "chain_readable keccak (pw_store w)" "genesis_allows (pw_index w)" "unhindered config env"
    and "tw_lateCheckAt env - ps_lastLateScanAt st \<ge> pc_lateScanIntervalMs config"
  shows "\<exists>ix' st' r. tick keccak config env (pw_stamp w) (pw_store w) st (pw_index w) = (ix', st', Inr r) \<and>
    \<not> tk_lockHeldElsewhere r \<and> ix_through ix' = Some head \<and>
    (\<forall>k. to_lower k = k \<longrightarrow>
       (\<exists>vs. rebuilt keccak (pw_store w) head k (expected_base gs (pw_index w) k) = Inr vs \<and>
          rows_of ix' k = map versionRow vs))"
proof -
  let ?w = "w\<lparr>pw_pending := Idle\<rparr>" and ?s = "pw_store w"
  have ok: "projection_ok keccak config gs ?w" by (rule drops_ok [OF projected_ok [OF assms(1-3)]])
  have store: "lower_keys ?s" "after_genesis ?s" "ix_floor (pw_index w) \<noteq> None"
    using ok assms(4) by (auto simp: projection_ok_def)
  obtain ix2 st2 n where late: "late_stage keccak config env (pw_stamp w) ?s st t (pw_index w) = (ix2, st2, Inr (Some n))"
    "brought_to keccak ?s (expected_base gs (pw_index w)) t ix2"
    using late_stage_brings [OF ok, of t env st] assms by auto
  let ?r = "\<lparr>tk_head = Some head, tk_projectedThroughBlock = Some t, tk_chunksFolded = 0, tk_entitiesRefolded = 0,
      tk_lateKeysRefolded = n, tk_lockHeldElsewhere = False\<rparr>"
  obtain ix3 r where loop: "fold_loop keccak config env ?s head 0 t ?r ix2 = (ix3, Inr r)"
    "brought_to keccak ?s (expected_base gs (pw_index w)) head ix3" "tk_lockHeldElsewhere r = False"
    using fold_loop_brings [OF store(1,2) expected_known [OF assms(2)] assms(7,9) late(2) assms(6), of 0 ?r] by auto
  obtain ix4 st4 where count: "maybeRefreshLiveEntities config env (case tk_projectedThroughBlock r of Some t \<Rightarrow> t | None \<Rightarrow> t)
      (tk_chunksFolded r > 0 \<or> tk_lateKeysRefolded r > 0 \<or> tw_genesis_changed env) st2 ix3 = (ix4, st4)"
    by (rule prod.exhaust)
  obtain f where floor: "ix_floor (pw_index w) = Some f" using store(3) by blast
  have "tick keccak config env (pw_stamp w) ?s st (pw_index w) = (ix4, st4, Inr r)"
    unfolding tick_def Let_def assms(4,5) floor using late(1) loop(1) count
    by (simp add: assms(4) floor cong: option.case_cong)
  moreover have "brought_to keccak ?s (expected_base gs (pw_index w)) head ix4"
    by (rule brought_frame [OF loop(2)])
       (use count in \<open>auto simp: maybeRefreshLiveEntities_def refreshLiveEntities_def split: if_splits\<close>)
  ultimately show ?thesis using loop(3) by (auto simp: brought_to_def refolded_def)
qed

theorem tick_catches_up_witness:
  "\<exists>ix' st' r vs. tick (\<lambda>_. []) default_projector sample_tick_world (restamp 5 0 (\<lambda>_. 0)) sample_create_store
       sample_projector_state sample_started = (ix', st', Inr r) \<and>
     ix_through ix' = Some 5 \<and> sample_history = Inr vs \<and> vs \<noteq> [] \<and> rows_of ix' ''0xk'' = map versionRow vs"
proof -
  obtain vs where vs: "sample_history = Inr vs" "vs \<noteq> []" using sample_history_done by blast
  have low: "to_lower ''0xk'' = ''0xk''" by (simp add: to_lower_def to_lower_char_def)
  have rebuilt: "rebuilt (\<lambda>_. []) sample_create_store 5 ''0xk'' None = Inr vs"
    using vs(1) by (simp add: sample_history_def rebuilt_def same_rows_ops [OF sample_same])
  have "unhindered default_projector sample_tick_world"
    by (simp add: unhindered_def sample_tick_world_def default_projector_def DEFAULT_MAX_TICK_MS_def)
  moreover have "pc_floorOverride default_projector = None" by (simp add: default_projector_def)
  moreover have "tw_lateCheckAt sample_tick_world - ps_lastLateScanAt sample_projector_state \<ge>
      pc_lateScanIntervalMs default_projector"
    by (simp add: default_projector_def sample_tick_world_def sample_projector_state_def DEFAULT_LATE_SCAN_INTERVAL_MS_def)
  moreover have "pw_store (sample_world sample_started Idle) = sample_create_store"
    "pw_stamp (sample_world sample_started Idle) = restamp 5 0 (\<lambda>_. 0)"
    "ix_through (pw_index (sample_world sample_started Idle)) = Some 4"
    "genesis_allows (pw_index (sample_world sample_started Idle))"
    "pw_index (sample_world sample_started Idle) = sample_started"
    by (simp_all add: sample_world_def sample_started_def empty_index_def genesis_allows_def)
  moreover have "expected_base [] sample_started = (\<lambda>_. None)"
    by (simp add: expected_base_def sample_started_def empty_index_def fun_eq_iff)
  ultimately obtain ix' st' r where
    "tick (\<lambda>_. []) default_projector sample_tick_world (restamp 5 0 (\<lambda>_. 0)) sample_create_store
       sample_projector_state sample_started = (ix', st', Inr r)" "ix_through ix' = Some 5"
    "\<forall>k. to_lower k = k \<longrightarrow> (\<exists>vs. rebuilt (\<lambda>_. []) sample_create_store 5 k None = Inr vs \<and>
       rows_of ix' k = map versionRow vs)"
    using tick_catches_up [OF sample_begun, of 4 5 sample_tick_world sample_projector_state]
      sample_head sample_chain_readable [of "\<lambda>_. []"] by (auto simp: seed_ok_def)
  moreover from this(3) low have "rows_of ix' ''0xk'' = map versionRow vs"
    using rebuilt by fastforce
  ultimately show ?thesis using vs by blast
qed

end
