(* ===== verification/ProjectorSteps.thy ===== *)
theory ProjectorSteps
  imports ProjectorLiveness
begin

text \<open>
  The projector's tick against the step relation of the projection: whatever the code of a tick does, it
  does by steps of the relation, from one rest (no transaction of the projector under way) to another.
\<close>

section \<open>Steps between two rests\<close>

text \<open>The projection with another index, between two transactions of the projector.\<close>

definition at_rest :: "projection \<Rightarrow> entity_index \<Rightarrow> projection" where
  "at_rest w ix =
     \<lparr>pw_store = pw_store w, pw_stamp = pw_stamp w, pw_clock = pw_clock w, pw_index = ix, pw_pending = Idle\<rparr>"

lemma at_rest_simps [simp]:
  "pw_index (at_rest w ix) = ix" "pw_pending (at_rest w ix) = Idle" "pw_store (at_rest w ix) = pw_store w"
  "pw_stamp (at_rest w ix) = pw_stamp w" "pw_clock (at_rest w ix) = pw_clock w"
  "(at_rest w ix)\<lparr>pw_index := ix'\<rparr> = at_rest w ix'" "(at_rest w ix)\<lparr>pw_index := ix', pw_pending := Idle\<rparr> = at_rest w ix'"
  "at_rest w ix\<lparr>pw_pending := p, pw_index := ix', pw_pending := Idle\<rparr> = at_rest w ix'"
  "(at_rest w ix)\<lparr>pw_pending := p\<rparr>\<lparr>pw_index := ix', pw_pending := Idle\<rparr> = at_rest w ix'"
  by (simp_all add: at_rest_def)

definition reaches ::
  "(string \<Rightarrow> string) \<Rightarrow> projector_config \<Rightarrow> entity_version list \<Rightarrow> projection \<Rightarrow> entity_index \<Rightarrow> bool" where
  "reaches keccak config gs w ix \<longleftrightarrow> projected keccak config gs (at_rest w ix)"

lemma reaches_step:
  "reaches keccak config gs w ix \<Longrightarrow> projects keccak config gs (at_rest w ix) (at_rest w ix') \<Longrightarrow> reaches keccak config gs w ix'"
  unfolding reaches_def by (rule projected.Step)

lemma reaches_two_steps:
  "reaches keccak config gs w ix \<Longrightarrow> projects keccak config gs (at_rest w ix) w1 \<Longrightarrow>
   projects keccak config gs w1 (at_rest w ix') \<Longrightarrow> reaches keccak config gs w ix'"
  unfolding reaches_def by (blast intro: projected.Step)

lemma reaches_ok:
  "reaches keccak config gs w ix \<Longrightarrow> seed_ok gs \<Longrightarrow> pc_floorOverride config = None \<Longrightarrow> projection_ok keccak config gs (at_rest w ix)"
  unfolding reaches_def by (rule projected_ok)

lemma reaches_started:
  assumes "reaches keccak config gs w ix" "seed_ok gs" "pc_floorOverride config = None" "ix_floor ix \<noteq> None"
  obtains t wm where "ix_through ix = Some t" "ix_watermark ix = Some wm" "wm \<le> pw_clock w"
  using reaches_ok [OF assms(1-3)] assms(4) by (auto simp: projection_ok_def split: option.splits)

lemma reaches_lowers:
  "reaches keccak config gs w ix \<Longrightarrow> ix_floor ix \<noteq> None \<Longrightarrow> reaches keccak config gs w (ix\<lparr>ix_floor := Some f\<rparr>)"
  using reaches_step [of keccak config gs w ix "ix\<lparr>ix_floor := Some f\<rparr>"] projects.Lowers [of "at_rest w ix"] by simp

lemma reaches_counts: "reaches keccak config gs w ix \<Longrightarrow> reaches keccak config gs w (refreshLiveEntities b ix)"
  using reaches_step [of keccak config gs w ix "refreshLiveEntities b ix"] projects.Counts [of keccak config gs "at_rest w ix"] by simp

lemma reaches_folds:
  assumes "reaches keccak config gs w ix" "ix_through ix = Some a" "a < e"
    and "foldChunk keccak config free (keysTouchedBetween a e (pw_store w)) e nowIso (pw_store w) ix = Inr (Some (ix', n, v))"
  shows "reaches keccak config gs w ix'"
proof -
  have "free" using assms(4) by (cases free) (simp_all add: foldChunk_def withFoldLock_def)
  let ?w = "(at_rest w ix)\<lparr>pw_pending := Planned (keysTouchedBetween a e (pw_store w)) a e\<rparr>"
  have "projects keccak config gs (at_rest w ix) ?w"
    using projects.Plans [of "at_rest w ix" a e keccak config gs] assms(2,3) by simp
  moreover have "projects keccak config gs ?w (at_rest w ix')"
    using projects.Folds [of ?w "keysTouchedBetween a e (pw_store w)" a e keccak config nowIso ix' n v gs] assms(4) \<open>free\<close>
    by (simp add: at_rest_def)
  ultimately show ?thesis using reaches_two_steps assms(1) by blast
qed

text \<open>A late scan, whether it finds keys or not, with the floor lowered before its instant is recorded.\<close>

lemma reaches_late:
  assumes ix: "reaches keccak config gs w ix" "ix_through ix = Some a" "ix_watermark ix = Some wm" "wm \<le> now" "now \<le> pw_clock w"
    and keys: "keys = keysScannedSince (late_since config wm) a (pw_stamp w) (pw_store w)"
    and run: "keys = [] \<and> ix' = ix \<or> keys \<noteq> [] \<and> late_fold keccak config free keys a (pw_store w) ix = Inr (Some (ix', n, v))"
    and lowered: "ix'' = ix' \<or> (ix_floor ix' \<noteq> None \<and> ix'' = ix'\<lparr>ix_floor := Some f\<rparr>)"
  shows "reaches keccak config gs w (ix''\<lparr>ix_watermark := Some now\<rparr>)"
proof -
  let ?P = "projected keccak config gs"
  let ?w1 = "(at_rest w ix)\<lparr>pw_pending := Scanned keys a now\<rparr>"
  let ?w2 = "(at_rest w ix')\<lparr>pw_pending := Marking now\<rparr>" and ?w3 = "(at_rest w ix'')\<lparr>pw_pending := Marking now\<rparr>"
  have w1: "?P ?w1"
    using projected.Step [OF ix(1) [unfolded reaches_def] projects.Scans [of "at_rest w ix" a wm now]] ix keys by simp
  have w2: "?P ?w2"
  proof (cases "keys = []")
    case True
    then show ?thesis using projected.Step [OF w1 projects.Skips [of ?w1 a now]] run by (simp add: at_rest_def)
  next
    case False
    then have "free" using run by (cases free) (simp_all add: late_fold_def withFoldLock_def)
    then show ?thesis using projected.Step [OF w1 projects.Refolds [of ?w1 keys a now keccak config ix' n v]] run False
      by (simp add: at_rest_def)
  qed
  have w3: "?P ?w3"
    using lowered
  proof
    assume "ix_floor ix' \<noteq> None \<and> ix'' = ix'\<lparr>ix_floor := Some f\<rparr>"
    then show ?thesis using projected.Step [OF w2 projects.Lowers [of ?w2 keccak config gs f]] by (simp add: at_rest_def)
  qed (use w2 in simp)
  show ?thesis
    using projected.Step [OF w3 projects.Marks [of ?w3 now]] by (simp add: reaches_def at_rest_def)
qed

section \<open>A tick takes steps\<close>

lemma fold_loop_reaches:
  assumes "reaches keccak config gs w ix" "ix_through ix = Some through"
  shows "reaches keccak config gs w (fst (fold_loop keccak config env (pw_store w) head i through result ix))"
  using assms
proof (induction "nat (head - through)" arbitrary: i through result ix rule: less_induct)
  case less
  show ?case
  proof (cases "through < head \<and> tw_clock env i - tw_startedAt env < pc_maxTickMs config")
    case False
    then show ?thesis using less.prems by (subst fold_loop.simps) (simp only: if_True not_not simp_thms fst_conv)
  next
    case True
    let ?e = "planChunkEnd through head (pc_maxOpsPerChunk config) (pw_store w)"
    let ?run = "foldChunk keccak config (tw_chunk_lock env i) (keysTouchedBetween through ?e (pw_store w)) ?e (tw_iso env i) (pw_store w) ix"
    have e: "through < ?e" "?e \<le> head" using planChunkEnd_bounds [of through head] True by blast+
    show ?thesis
    proof (cases "\<exists>ix1 n v. ?run = Inr (Some (ix1, n, v))")
      case True
      then obtain ix1 n v where run: "?run = Inr (Some (ix1, n, v))" by blast
      have "ix_through ix1 = Some ?e"
      proof -
        have "tw_chunk_lock env i" using run by (cases "tw_chunk_lock env i") (simp_all add: foldChunk_def withFoldLock_def)
        then show ?thesis using foldChunk_frame(1) run by simp
      qed
      moreover have "nat (head - ?e) < nat (head - through)" using e by simp
      ultimately show ?thesis
        using less.hyps [of ?e ix1] reaches_folds [OF less.prems(1,2) e(1) run] \<open>through < head \<and> _\<close> run
        by (subst fold_loop.simps) (simp add: Let_def)
    next
      case False
      then show ?thesis using less.prems(1) \<open>through < head \<and> _\<close>
        by (subst fold_loop.simps) (auto simp: Let_def split: sum.splits option.splits)
    qed
  qed
qed

lemma complete_floor_reaches:
  "reaches keccak config gs w ix \<Longrightarrow> reaches keccak config gs w (complete_floor config (pw_store w) ix)"
  using reaches_lowers by (auto simp: complete_floor_def split: option.splits)

lemma late_stage_reaches:
  assumes ix: "reaches keccak config gs w ix" "ix_through ix = Some t" "ix_floor ix \<noteq> None"
    and ok: "seed_ok gs" "pc_floorOverride config = None" and clock: "pw_clock w = tw_now env"
  shows "reaches keccak config gs w (fst (late_stage keccak config env (pw_stamp w) (pw_store w) st t ix))"
    "ix_through (fst (late_stage keccak config env (pw_stamp w) (pw_store w) st t ix)) = Some t"
proof -
  let ?ix = "complete_floor config (pw_store w) ix"
  have start: "reaches keccak config gs w ?ix" by (rule complete_floor_reaches [OF ix(1)])
  have same: "ix_through ?ix = Some t" "ix_floor ?ix \<noteq> None" using ix(2,3) by (auto simp: complete_floor_def split: option.splits)
  obtain wm where wm: "ix_watermark ?ix = Some wm" "wm \<le> pw_clock w"
    by (rule reaches_started [OF start ok same(2)])
  let ?keys = "keysScannedSince (late_since config wm) t (pw_stamp w) (pw_store w)"
  let ?run = "late_fold keccak config (tw_late_lock env) ?keys t (pw_store w) ?ix"
  let ?out = "refoldLateArrivals keccak config (tw_late_lock env) (tw_now env) (ix_watermark ?ix) t (ix_floor ?ix) (pw_stamp w) (pw_store w) ?ix"
  have "reaches keccak config gs w (fst ?out) \<and> ix_through (fst ?out) = Some t"
  proof (cases "?keys = []")
    case True
    then show ?thesis
      using reaches_late [OF start same(1) wm(1), of "tw_now env" "[]" ?ix] clock wm same by (simp add: refoldLateArrivals_def)
  next
    case False
    show ?thesis
    proof (cases "\<exists>ix1 n v. ?run = Inr (Some (ix1, n, v))")
      case True
      then obtain ix1 n v where run: "?run = Inr (Some (ix1, n, v))" by blast
      then have "tw_late_lock env" by (cases "tw_late_lock env") (simp_all add: late_fold_def withFoldLock_def)
      then have eff: "refoldEntities keccak (pc_foldKeyBatch config) ?keys t (pw_store w) ?ix = Inr (ix1, n, v)"
        using late_fold_effect run by simp
      have frame: "ix_floor ix1 = ix_floor ?ix" "ix_through ix1 = Some t"
        by (subst refoldEntities_frame [OF eff], simp add: same)+
      let ?low = "lower_floor config (ix_floor ?ix) (pw_store w) ix1"
      have "?low = ix1 \<or> (ix_floor ix1 \<noteq> None \<and> ?low = ix1\<lparr>ix_floor := Some (the (detectFloorBlock (pw_store w)))\<rparr>)"
        using same(2) frame by (auto simp: lower_floor_def split: option.splits)
      then have "reaches keccak config gs w (?low\<lparr>ix_watermark := Some (tw_now env)\<rparr>)"
        by (intro reaches_late [OF start same(1) wm(1)]) (use clock wm False run in auto)
      moreover have "ix_through ?low = Some t" using frame by (simp add: lower_floor_def split: option.splits)
      ultimately show ?thesis using False run by (simp add: refoldLateArrivals_def wm(1) Let_def)
    next
      case False
      then show ?thesis using start same(1) \<open>?keys \<noteq> []\<close>
        by (auto simp: refoldLateArrivals_def wm(1) Let_def split: sum.splits option.splits)
    qed
  qed
  then show "reaches keccak config gs w (fst (late_stage keccak config env (pw_stamp w) (pw_store w) st t ix))"
    "ix_through (fst (late_stage keccak config env (pw_stamp w) (pw_store w) st t ix)) = Some t"
    using ix(1,2) by (auto simp: late_stage_def Let_def split: prod.splits)
qed

text \<open>How far a tick comes, and the index it leaves.\<close>

lemma tick_run:
  assumes "fst (tick keccak config env stamp s st ix) \<noteq> ix"
  obtains head ix1 t ix2 st2 late where
    "(if ix_floor ix = None then start_fold config (tw_now env) head s ix else Some ix) = Some ix1"
    "t = (case (ix_through ix1, ix_floor ix1) of (Some t, _) \<Rightarrow> t | (None, Some f) \<Rightarrow> f - 1 | (None, None) \<Rightarrow> -1)"
    "late_stage keccak config env stamp s st t ix1 = (ix2, st2, late)"
    "fst (tick keccak config env stamp s st ix) = ix2 \<or>
     (\<exists>r ix3 folded. fold_loop keccak config env s head 0 t r ix2 = (ix3, folded) \<and>
        (fst (tick keccak config env stamp s st ix) = ix3 \<or> (\<exists>b. fst (tick keccak config env stamp s st ix) = refreshLiveEntities b ix3)))"
proof -
  obtain head ix1 where head: "getIndexedHead s = Inr (Some head)"
    and ix1: "(if ix_floor ix = None then start_fold config (tw_now env) head s ix else Some ix) = Some ix1"
    using assms by (auto simp: tick_def Let_def split: sum.splits option.splits)
  define t where "t = (case (ix_through ix1, ix_floor ix1) of (Some t, _) \<Rightarrow> t | (None, Some f) \<Rightarrow> f - 1 | (None, None) \<Rightarrow> -1)"
  obtain ix2 st2 late where late: "late_stage keccak config env stamp s st t ix1 = (ix2, st2, late)" by (rule prod_cases3)
  let ?r0 = "\<lparr>tk_head = Some head, tk_projectedThroughBlock = ix_through ix, tk_chunksFolded = 0, tk_entitiesRefolded = 0,
      tk_lateKeysRefolded = 0, tk_lockHeldElsewhere = False\<rparr>\<lparr>tk_projectedThroughBlock := Some t\<rparr>"
  have run: "tick keccak config env stamp s st ix =
      (case late of
         Inl e \<Rightarrow> (ix2, st2, Inl e)
       | Inr None \<Rightarrow> (ix2, st2, Inr (?r0\<lparr>tk_lockHeldElsewhere := True\<rparr>))
       | Inr (Some n) \<Rightarrow>
           (case fold_loop keccak config env s head 0 t (?r0\<lparr>tk_lateKeysRefolded := n\<rparr>) ix2 of
              (ix3, Inl e) \<Rightarrow> (ix3, st2, Inl e)
            | (ix3, Inr r) \<Rightarrow>
                (case maybeRefreshLiveEntities config env (case tk_projectedThroughBlock r of None \<Rightarrow> t | Some t \<Rightarrow> t)
                    (tk_chunksFolded r > 0 \<or> tk_lateKeysRefolded r > 0 \<or> tw_genesis_changed env) st2 ix3 of
                   (ix4, st4) \<Rightarrow> (ix4, st4, Inr r))))"
    unfolding tick_def Let_def head ix1 sum.case option.case
    unfolding t_def [symmetric]
    unfolding late prod.case by (rule refl)
  have "fst (tick keccak config env stamp s st ix) = ix2 \<or>
     (\<exists>r ix3 folded. fold_loop keccak config env s head 0 t r ix2 = (ix3, folded) \<and>
        (fst (tick keccak config env stamp s st ix) = ix3 \<or> (\<exists>b. fst (tick keccak config env stamp s st ix) = refreshLiveEntities b ix3)))"
  proof (cases "\<exists>n. late = Inr (Some n)")
    case False
    then show ?thesis by (auto simp: run split: sum.splits option.splits)
  next
    case True
    then obtain n where n: "late = Inr (Some n)" by blast
    let ?r = "?r0\<lparr>tk_lateKeysRefolded := n\<rparr>"
    obtain ix3 folded where loop: "fold_loop keccak config env s head 0 t ?r ix2 = (ix3, folded)" by (rule prod.exhaust)
    have "fst (tick keccak config env stamp s st ix) = ix3 \<or> (\<exists>b. fst (tick keccak config env stamp s st ix) = refreshLiveEntities b ix3)"
    proof (cases folded)
      case (Inl e)
      show ?thesis unfolding run n sum.case option.case loop prod.case Inl by simp
    next
      case (Inr r)
      obtain ix4 st4 where count: "maybeRefreshLiveEntities config env (case tk_projectedThroughBlock r of None \<Rightarrow> t | Some t \<Rightarrow> t)
          (0 < tk_chunksFolded r \<or> 0 < tk_lateKeysRefolded r \<or> tw_genesis_changed env) st2 ix3 = (ix4, st4)" by (rule prod.exhaust)
      have "fst (tick keccak config env stamp s st ix) = ix4" unfolding run n sum.case option.case loop prod.case Inr count by simp
      moreover have "ix4 = ix3 \<or> (\<exists>b. ix4 = refreshLiveEntities b ix3)"
        using count by (auto simp: maybeRefreshLiveEntities_def split: if_splits)
      ultimately show ?thesis by simp
    qed
    then show ?thesis using loop by blast
  qed
  then show ?thesis using that ix1 t_def late by blast
qed

lemma start_fold_floor:
  "(if ix_floor ix = None then start_fold config now head s ix else Some ix) = Some ix1 \<Longrightarrow> ix_floor ix1 \<noteq> None"
  by (auto simp: start_fold_def Let_def split: if_splits)

lemma tick_reaches:
  assumes ix: "reaches keccak config gs w ix" and ok: "seed_ok gs" "pc_floorOverride config = None" and clock: "pw_clock w = tw_now env"
  shows "reaches keccak config gs w (fst (tick keccak config env (pw_stamp w) (pw_store w) st ix))"
proof (cases "fst (tick keccak config env (pw_stamp w) (pw_store w) st ix) = ix")
  case False
  then show ?thesis
  proof (rule tick_run)
    fix head ix1 t ix2 st2 late
    assume ix1: "(if ix_floor ix = None then start_fold config (tw_now env) head (pw_store w) ix else Some ix) = Some ix1"
      and t: "t = (case (ix_through ix1, ix_floor ix1) of (Some t, _) \<Rightarrow> t | (None, Some f) \<Rightarrow> f - 1 | (None, None) \<Rightarrow> -1)"
      and late: "late_stage keccak config env (pw_stamp w) (pw_store w) st t ix1 = (ix2, st2, late)"
      and result: "fst (tick keccak config env (pw_stamp w) (pw_store w) st ix) = ix2 \<or>
        (\<exists>r ix3 folded. fold_loop keccak config env (pw_store w) head 0 t r ix2 = (ix3, folded) \<and>
          (fst (tick keccak config env (pw_stamp w) (pw_store w) st ix) = ix3 \<or>
           (\<exists>b. fst (tick keccak config env (pw_stamp w) (pw_store w) st ix) = refreshLiveEntities b ix3)))"
    note floor = start_fold_floor [OF ix1]
    have started: "reaches keccak config gs w ix1"
    proof (cases "ix_floor ix = None")
      case True
      then show ?thesis
        using reaches_step [OF ix projects.Starts [of "at_rest w ix" config "tw_now env" head ix1, simplified]] ix1 clock by simp
    qed (use ix ix1 in auto)
    obtain t1 wm where "ix_through ix1 = Some t1" by (rule reaches_started [OF started ok floor])
    then have through: "ix_through ix1 = Some t" using t by simp
    have ix2: "reaches keccak config gs w ix2" "ix_through ix2 = Some t"
      using late_stage_reaches [OF started through floor ok clock, of st] late by simp_all
    have "reaches keccak config gs w ix3" if "fold_loop keccak config env (pw_store w) head 0 t r ix2 = (ix3, folded)" for r ix3 folded
      using fold_loop_reaches [OF ix2, of env head 0 r] that by simp
    then show ?thesis using result ix2(1) reaches_counts by auto
  qed
qed (use ix in simp)

end
