(* ===== verification/GenesisSteps.thy ===== *)
theory GenesisSteps
  imports ProjectorSteps
begin

text \<open>
  The genesis stage of a tick against the step relation: the probe, the walk over the node's pages with its
  batches, restarts and failures, and the repair take only steps of the relation, whatever the node
  answers, as long as the pages it does answer are those of one list of entities.
\<close>

section \<open>The genesis stage takes steps\<close>

text \<open>
  A node that serves the entities \<open>es\<close>, which become the versions \<open>gs\<close>: \<open>pos\<close> is how far a cursor has come, and
  a page that is answered holds the entities from there on. It may fail to answer, in any way.
\<close>

definition converts :: "(string \<Rightarrow> string) \<Rightarrow> jsval list \<Rightarrow> entity_version list \<Rightarrow> bool" where
  "converts keccak es gs \<longleftrightarrow>
     length gs = length es \<and> (\<forall>i < length es. genesisEntityToVersion keccak (es ! i) (int i) = Inr (gs ! i))"

definition node_serves :: "jsval list \<Rightarrow> (string option \<Rightarrow> nat) \<Rightarrow> stage_world \<Rightarrow> bool" where
  "node_serves es pos env \<longleftrightarrow>
     pos None = 0 \<and>
     (case ge_count env of Inl _ \<Rightarrow> True | Inr n \<Rightarrow> n = int (length es)) \<and>
     (\<forall>k cursor page. ge_page env k cursor = Inr page \<longrightarrow>
        gp_data page = take (length (gp_data page)) (drop (pos cursor) es) \<and>
        (\<forall>c. gp_cursor page = Some c \<longrightarrow> pos (Some c) = pos cursor + length (gp_data page)))"

text \<open>The row of a walk under way agrees with the node.\<close>

definition row_serves :: "entity_version list \<Rightarrow> (string option \<Rightarrow> nat) \<Rightarrow> entity_index \<Rightarrow> bool" where
  "row_serves gs pos ix \<longleftrightarrow>
     (\<forall>g. ix_genesis ix = Some g \<longrightarrow> gi_status g = GRunning \<longrightarrow> gi_phase g \<noteq> Some Repair \<longrightarrow>
        gi_total g = int (length gs) \<and> gi_imported g = int (pos (gi_cursor g)))"

definition quiet :: "stage_world \<Rightarrow> bool" where
  "quiet env \<longleftrightarrow> (\<forall>k. ge_others env k = id)"

text \<open>What a stage keeps: it has come where it is by steps, and its row agrees with the node.\<close>

definition stage_ok ::
  "(string \<Rightarrow> string) \<Rightarrow> projector_config \<Rightarrow> entity_version list \<Rightarrow> (string option \<Rightarrow> nat) \<Rightarrow> projection \<Rightarrow> entity_index \<Rightarrow> bool" where
  "stage_ok keccak config gs pos w ix \<longleftrightarrow> reaches keccak config gs w ix \<and> row_serves gs pos ix"

lemma page_versions_slice:
  assumes "converts keccak es gs" "page_versions keccak (int n) data = Inr vs" "data = take m (drop n es)"
  shows "vs = take m (drop n gs)" "length vs = length data"
proof -
  have vs: "map_result (\<lambda>(offset, entity). genesisEntityToVersion keccak entity (int n + int offset)) (enumerate 0 data) = Inr vs"
    using assms(2) by (simp add: page_versions_def)
  show len: "length vs = length data" using map_result_length [OF vs] by simp
  show "vs = take m (drop n gs)"
  proof (rule nth_equalityI)
    show "length vs = length (take m (drop n gs))" using len assms(1,3) by (simp add: converts_def)
    fix i assume i: "i < length vs"
    then have "n + i < length es" "i < m" using len assms(3) by auto
    then have "data ! i = es ! (n + i)" using assms(3) by simp
    moreover have "genesisEntityToVersion keccak (data ! i) (int n + int i) = Inr (vs ! i)"
      using map_result_nth [OF vs, of i] i len by (simp add: nth_enumerate_eq)
    moreover have "genesisEntityToVersion keccak (es ! (n + i)) (int (n + i)) = Inr (gs ! (n + i))"
      using assms(1) \<open>n + i < length es\<close> unfolding converts_def by blast
    ultimately have "vs ! i = gs ! (n + i)" by simp
    then show "vs ! i = take m (drop n gs) ! i" using \<open>i < m\<close> \<open>n + i < length es\<close> assms(1) by (simp add: converts_def)
  qed
qed

lemma walk_failed_ok:
  assumes "stage_ok keccak config gs pos w ix" "quiet env" "pos None = 0"
  shows "stage_ok keccak config gs pos w (fst (walk_failed env e k n r ix))"
proof -
  have ix: "reaches keccak config gs w ix" "row_serves gs pos ix" using assms(1) by (simp_all add: stage_ok_def)
  have "reaches keccak config gs w (fail_import iso ix)" for iso
    using reaches_step [OF ix(1) projects.Fails [of "at_rest w ix" keccak config gs iso, simplified]] .
  moreover have "row_serves gs pos (fail_import iso ix)" for iso
  proof (cases "fail_import iso ix = ix")
    case False
    then obtain g where "fail_import iso ix = ix\<lparr>ix_genesis := Some
        (g\<lparr>gi_status := GFailed, gi_phase := None, gi_finishedAt := Some iso, gi_error := Some []\<rparr>)\<rparr>"
      by (auto simp: fail_import_def split: option.splits if_splits)
    then show ?thesis by (simp add: row_serves_def)
  qed (use ix(2) in simp)
  ultimately have failed: "stage_ok keccak config gs pos w (fail_import iso ix)" for iso by (simp add: stage_ok_def)
  have "reaches keccak config gs w (restart_walk ix)"
    using reaches_step [OF ix(1) projects.Restarts [of "at_rest w ix" keccak config gs, simplified]] .
  moreover have "row_serves gs pos (restart_walk ix)"
  proof (cases "restart_walk ix = ix")
    case False
    then obtain g where g: "ix_genesis ix = Some g" "walking g"
      "restart_walk ix = ix\<lparr>ix_genesis := Some (g\<lparr>gi_cursor := None, gi_imported := 0\<rparr>)\<rparr>"
      by (auto simp: restart_walk_def split: option.splits if_splits)
    then show ?thesis using ix(2) assms(3) by (simp add: row_serves_def walking_def)
  qed (use ix(2) in simp)
  ultimately have restarted: "stage_ok keccak config gs pos w (restart_walk ix)" by (simp add: stage_ok_def)
  show ?thesis
    using assms(1,2) failed restarted by (auto simp: walk_failed_def Let_def quiet_def split: genesis_error.splits)
qed

lemma repair_step_ok:
  assumes ok: "stage_ok keccak config gs pos w ix" and through: "ix_through ix = Some through" and limit: "0 < limit"
    and keys: "keys = genesisKeysWithOperations through afterKey limit (pw_store w) ix"
    and run: "repair_batch keccak config state afterKey keys through (length keys < limit) atIso (pw_store w) ix = Inr (Some ix2)"
  shows "stage_ok keccak config gs pos w ix2" "ix_through ix2 = Some through"
    "\<exists>g. ix_genesis ix = Some g \<and> repairing state g \<and>
      ix_genesis ix2 = Some (if length keys < limit then finish_import atIso g else g\<lparr>gi_repairAfterKey := Some (last keys)\<rparr>)"
proof -
  let ?fin = "length keys < limit"
  obtain g ix1 where g: "ix_genesis ix = Some g" "repairing state g" "gi_repairAfterKey g = afterKey"
    and ix1: "keys = [] \<and> ix1 = ix \<or> (\<exists>n v. refoldEntities keccak (pc_foldKeyBatch config) keys through (pw_store w) ix = Inr (ix1, n, v))"
    and ix2: "ix2 = ix1\<lparr>ix_genesis := Some (if ?fin then finish_import atIso g else g\<lparr>gi_repairAfterKey := Some (last keys)\<rparr>)\<rparr>"
    using run by (fastforce simp: repair_batch_def bind_result_eq_Inr split: option.splits if_splits)
  have running: "gi_status g = GRunning" "gi_phase g = Some Repair" using g(2) by (simp_all add: repairing_def)
  have "ix_through ix1 = ix_through ix"
    using ix1
  proof
    assume "\<exists>n v. refoldEntities keccak (pc_foldKeyBatch config) keys through (pw_store w) ix = Inr (ix1, n, v)"
    then obtain n v where "refoldEntities keccak (pc_foldKeyBatch config) keys through (pw_store w) ix = Inr (ix1, n, v)" by blast
    then show ?thesis by (subst refoldEntities_frame) simp_all
  qed simp
  then show "ix_through ix2 = Some through" by (simp add: ix2 through)
  show "\<exists>g. ix_genesis ix = Some g \<and> repairing state g \<and>
      ix_genesis ix2 = Some (if ?fin then finish_import atIso g else g\<lparr>gi_repairAfterKey := Some (last keys)\<rparr>)"
    using g by (simp add: ix2)
  let ?w = "(at_rest w ix)\<lparr>pw_pending := Repairing keys afterKey through ?fin\<rparr>"
  have "projects keccak config gs (at_rest w ix) ?w"
    using projects.Selects [of "at_rest w ix" through g limit keys keccak config gs] through g running limit keys by simp
  moreover have "projects keccak config gs ?w (at_rest w ix2)"
    using projects.Repairs [of ?w keys afterKey through ?fin keccak config state atIso ix2 gs] run by (simp add: at_rest_def)
  ultimately have "reaches keccak config gs w ix2" using reaches_two_steps ok by (auto simp: stage_ok_def)
  moreover have "row_serves gs pos ix2" using running by (auto simp: row_serves_def ix2 finish_import_def)
  ultimately show "stage_ok keccak config gs pos w ix2" by (simp add: stage_ok_def)
qed

lemma repair_loop_ok:
  assumes "stage_ok keccak config gs pos w ix" "quiet env" "ix_through ix = Some through" "0 < gn_batchEntities gn"
  shows "stage_ok keccak config gs pos w (fst (repair_loop keccak config gn env (pw_store w) state through k afterKey repaired ix))"
  using assms(1,3)
proof (induction "card {x \<in> keyed_lower (pw_store w). resume_key afterKey < x}" arbitrary: k afterKey repaired ix rule: less_induct)
  case less
  let ?s = "pw_store w"
  let ?keys = "genesisKeysWithOperations through afterKey (gn_batchEntities gn) ?s ix"
  let ?fin = "length ?keys < gn_batchEntities gn"
  let ?run = "repair_batch keccak config state afterKey ?keys through ?fin (ge_iso env) ?s ix"
  have others: "ge_others env k ix = ix" using assms(2) by (simp add: quiet_def)
  show ?case
  proof (cases "ge_lock env k \<and> (\<exists>ix2. ?run = Inr (Some ix2))")
    case False
    then show ?thesis using less.prems(1)
      by (subst repair_loop.simps) (auto simp: Let_def others split: sum.splits option.splits)
  next
    case True
    then obtain ix2 where run: "?run = Inr (Some ix2)" and lock: "ge_lock env k" by blast
    note step = repair_step_ok [OF less.prems assms(4) refl run]
    show ?thesis
    proof (cases "?fin \<or> ?keys = [] \<or> ge_stopped env k \<or> ge_outOfTime env k")
      case True
      then show ?thesis using step(1) lock run by (subst repair_loop.simps) (auto simp: Let_def others)
    next
      case False
      then have "card {x \<in> keyed_lower ?s. resume_key (Some (last ?keys)) < x} < card {x \<in> keyed_lower ?s. resume_key afterKey < x}"
        using repair_measure by blast
      then show ?thesis using less.hyps [OF _ step(1,2), of "Some (last ?keys)"] False lock run
        by (subst repair_loop.simps) (simp add: Let_def others)
    qed
  qed
qed

lemma repairGenesis_ok:
  assumes ok: "stage_ok keccak config gs pos w ix" and env: "quiet env" "0 < gn_batchEntities gn" "ge_now env \<le> pw_clock w"
    and seed: "seed_ok gs" "pc_floorOverride config = None"
  shows "stage_ok keccak config gs pos w (fst (repairGenesis keccak config gn env (pw_store w) state k ix))"
proof -
  have others: "ge_others env k ix = ix" using env(1) by (simp add: quiet_def)
  show ?thesis
  proof (cases "ge_lock env k \<and> (\<exists>ix2. set_floor state (ge_now env) ix = Some ix2)")
    case False
    then show ?thesis using ok by (auto simp: repairGenesis_def Let_def others split: option.splits)
  next
    case True
    then obtain ix2 where floor: "set_floor state (ge_now env) ix = Some ix2" and lock: "ge_lock env k" by blast
    have "reaches keccak config gs w ix2"
      using reaches_step [of keccak config gs w ix ix2] projects.Floors [of "at_rest w ix" state "ge_now env" ix2 keccak config gs]
        ok floor env(3) by (simp add: stage_ok_def)
    moreover have "ix_genesis ix2 = ix_genesis ix" "ix_floor ix2 \<noteq> None"
      using floor by (auto simp: set_floor_def split: option.splits if_splits)
    ultimately have ok2: "stage_ok keccak config gs pos w ix2" "ix_floor ix2 \<noteq> None"
      using ok by (simp_all add: stage_ok_def row_serves_def)
    obtain t wm where t: "ix_through ix2 = Some t"
      by (rule reaches_started [of keccak config gs w ix2, OF _ seed ok2(2)]) (use ok2(1) in \<open>simp add: stage_ok_def\<close>)
    show ?thesis using repair_loop_ok [OF ok2(1) env(1) t env(2)] t
      by (simp add: repairGenesis_def Let_def others lock floor)
  qed
qed

lemma walk_turn_parts:
  assumes "walk_turn keccak counted cursor imported answer = Inr page"
  obtains p where "answer = Inr p" "page_versions keccak imported (gp_data p) = Inr (wp_versions page)"
    "wp_cursor page = gp_cursor p" "wp_imported page = imported + int (length (wp_versions page))"
  using assms by (auto simp: walk_turn_def bind_result_eq_Inr)

text \<open>The versions since the last commit are the next of the genesis.\<close>

definition pending_slice :: "entity_version list \<Rightarrow> string option \<times> int \<Rightarrow> entity_version list \<Rightarrow> int \<Rightarrow> bool" where
  "pending_slice gs expected pending imported \<longleftrightarrow>
     0 \<le> snd expected \<and> snd expected + int (length pending) = imported \<and>
     pending = take (length pending) (drop (nat (snd expected)) gs)"

lemma page_slice:
  assumes "walk_turn keccak counted cursor imported answer = Inr page" "converts keccak es gs" "imported = int (pos cursor)"
    and "\<And>p. answer = Inr p \<Longrightarrow> gp_data p = take (length (gp_data p)) (drop (pos cursor) es) \<and>
        (\<forall>c. gp_cursor p = Some c \<longrightarrow> pos (Some c) = pos cursor + length (gp_data p))"
    and "pending_slice gs expected pending imported"
  shows "pending_slice gs expected (pending @ wp_versions page) (wp_imported page)"
    "wp_cursor page \<noteq> None \<Longrightarrow> wp_imported page = int (pos (wp_cursor page))"
proof -
  obtain p where p: "answer = Inr p" "page_versions keccak imported (gp_data p) = Inr (wp_versions page)"
    "wp_cursor page = gp_cursor p" "wp_imported page = imported + int (length (wp_versions page))"
    by (rule walk_turn_parts [OF assms(1)])
  have data: "gp_data p = take (length (gp_data p)) (drop (pos cursor) es)"
    "\<And>c. gp_cursor p = Some c \<Longrightarrow> pos (Some c) = pos cursor + length (gp_data p)"
    using assms(4) [OF p(1)] by auto
  note slice = page_versions_slice [OF assms(2) p(2) [unfolded assms(3)] data(1)]
  have window: "0 \<le> snd expected" "snd expected + int (length pending) = imported"
    "pending = take (length pending) (drop (nat (snd expected)) gs)" using assms(5) by (simp_all add: pending_slice_def)
  have "pos cursor = nat (snd expected) + length pending" using assms(3) window(1,2) by linarith
  then have "wp_versions page = take (length (wp_versions page)) (drop (length pending) (drop (nat (snd expected)) gs))"
    using slice by (simp add: add.commute)
  then have all: "pending @ wp_versions page = take (length (pending @ wp_versions page)) (drop (nat (snd expected)) gs)"
    using window(3) by (metis length_append take_add)
  show "pending_slice gs expected (pending @ wp_versions page) (wp_imported page)"
    unfolding pending_slice_def
  proof (intro conjI)
    show "snd expected + int (length (pending @ wp_versions page)) = wp_imported page" using window(2) p(4) by simp
  qed (rule window(1), rule all)
  show "wp_imported page = int (pos (wp_cursor page))" if "wp_cursor page \<noteq> None"
    using that p(3,4) data(2) slice(2) assms(3) by auto
qed

lemma commit_step_ok:
  assumes ok: "stage_ok keccak config gs pos w ix" and slice: "pending_slice gs expected rows imported"
    and last: "finished \<Longrightarrow> imported = int (length gs)" and next_pos: "\<not> finished \<Longrightarrow> imported = int (pos cursor)"
    and run: "commit_walk expected rows cursor imported finished ix = Some ix2"
  shows "stage_ok keccak config gs pos w ix2"
    "\<exists>g. ix_genesis ix = Some g \<and> walking g \<and> ix_genesis ix2 = Some (g\<lparr>gi_imported := imported, gi_cursor := cursor,
       gi_phase := (if finished then Some Repair else gi_phase g)\<rparr>)"
proof -
  have rows: "rows = take (length rows) (drop (nat (snd expected)) gs)" and sum: "snd expected + int (length rows) = imported"
    using slice by (simp_all add: pending_slice_def)
  obtain g where g: "ix_genesis ix = Some g" "walking g"
    and ix2: "ix_genesis ix2 = Some (g\<lparr>gi_imported := imported, gi_cursor := cursor, gi_phase := (if finished then Some Repair else gi_phase g)\<rparr>)"
    using run by (auto simp: commit_walk_def split: option.splits if_splits)
  then show "\<exists>g. ix_genesis ix = Some g \<and> walking g \<and> ix_genesis ix2 = Some (g\<lparr>gi_imported := imported, gi_cursor := cursor,
       gi_phase := (if finished then Some Repair else gi_phase g)\<rparr>)" by blast
  have last': "finished \<Longrightarrow> int (length gs) \<le> snd expected + int (length rows)" unfolding sum using last by simp
  have run': "commit_walk expected rows cursor (snd expected + int (length rows)) finished (pw_index (at_rest w ix)) = Some ix2"
    unfolding sum using run by simp
  have "projects keccak config gs (at_rest w ix) ((at_rest w ix)\<lparr>pw_index := ix2\<rparr>)"
    by (rule projects.Commits [OF _ rows last' run']) simp_all
  then have "reaches keccak config gs w ix2" using reaches_step ok by (auto simp: stage_ok_def)
  moreover have "gi_total g = int (length gs)" using ok g by (simp add: stage_ok_def row_serves_def walking_def)
  then have "row_serves gs pos ix2" using next_pos by (cases finished) (simp_all add: row_serves_def ix2)
  ultimately show "stage_ok keccak config gs pos w ix2" by (simp add: stage_ok_def)
qed

lemma walk_loop_ok:
  assumes "quiet env" "0 < gn_batchEntities gn" "ge_now env \<le> pw_clock w" "seed_ok gs" "pc_floorOverride config = None"
    and "converts keccak es gs" "node_serves es pos env"
  shows "stage_ok keccak config gs pos w ix \<Longrightarrow> counted = int (length gs) \<Longrightarrow> imported = int (pos cursor) \<Longrightarrow>
    pending_slice gs expected pending imported \<Longrightarrow> s = pw_store w \<Longrightarrow>
    stage_ok keccak config gs pos w
      (fst (walk_loop keccak config gn env s counted k cursor imported pending expected importedNow restarts ix))"
  using assms
proof (induction keccak config gn env s counted k cursor imported pending expected importedNow restarts ix rule: walk_loop.induct)
  case (1 keccak config gn env s counted k cursor imported pending expected importedNow restarts ix)
  note ok = "1.prems"(1) and counted = "1.prems"(2) and imported = "1.prems"(3) and window = "1.prems"(4) and s = "1.prems"(5)
    and env = "1.prems"(6-8) and seed = "1.prems"(9,10) and node = "1.prems"(11,12)
  have others: "ge_others env k ix = ix" for k ix using env(1) by (simp add: quiet_def)
  have none: "pos None = 0" using node(2) by (simp add: node_serves_def)
  show ?case
  proof (cases "walk_turn keccak counted cursor imported (ge_page env k cursor)")
    case (Inl e)
    then show ?thesis using walk_failed_ok [OF ok env(1) none] by (subst walk_loop.simps) simp
  next
    case (Inr page)
    let ?rows = "pending @ wp_versions page" and ?last = "wp_cursor page = None"
    let ?restarts = "if cursor \<noteq> None then 0 else restarts"
    have page: "gp_data p = take (length (gp_data p)) (drop (pos cursor) es) \<and>
        (\<forall>c. gp_cursor p = Some c \<longrightarrow> pos (Some c) = pos cursor + length (gp_data p))" if "ge_page env k cursor = Inr p" for p
      using node(2) that by (simp add: node_serves_def)
    have slice: "pending_slice gs expected ?rows (wp_imported page)"
      "wp_cursor page \<noteq> None \<Longrightarrow> wp_imported page = int (pos (wp_cursor page))"
      by (rule page_slice [OF Inr node(1) imported page window]; assumption)+
    show ?thesis
    proof (cases "?last \<and> wp_imported page \<noteq> counted")
      case True
      then show ?thesis using walk_failed_ok [OF ok env(1) none] Inr by (subst walk_loop.simps) (simp add: Let_def)
    next
      case full: False
      show ?thesis
      proof (cases "length ?rows < gn_batchEntities gn \<and> \<not> ?last \<and> \<not> ge_outOfTime env k")
        case True
        then have "stage_ok keccak config gs pos w (fst (walk_loop keccak config gn env s counted (k + 1) (wp_cursor page)
            (wp_imported page) ?rows expected importedNow ?restarts ix))"
          using "1.IH"(1) [OF Inr refl refl refl full True ok counted slice(2) slice(1) s env seed node] by simp
        then show ?thesis using Inr full True by (subst walk_loop.simps) (auto simp: Let_def)
      next
        case flush: False
        let ?run = "commit_walk expected ?rows (wp_cursor page) (wp_imported page) ?last ix"
        show ?thesis
        proof (cases "ge_lock env k \<and> (\<exists>ix2. ?run = Some ix2)")
          case False
          then show ?thesis using ok Inr full flush
            by (subst walk_loop.simps) (auto simp: Let_def others split: option.splits)
        next
          case True
          then obtain ix2 where run: "?run = Some ix2" and lock: "ge_lock env k" by blast
          have last: "wp_imported page = int (length gs)" if ?last using full counted that by simp
          note ok2 = commit_step_ok(1) [OF ok slice(1) last slice(2) run]
          show ?thesis
          proof (cases ?last)
            case True
            show ?thesis
            proof (cases "ix_genesis ix2")
              case None
              then show ?thesis using ok2 Inr full flush lock run True by (subst walk_loop.simps) (simp add: Let_def others)
            next
              case (Some handed)
              obtain ix3 o3 where repair: "repairGenesis keccak config gn env s handed (k + 1) ix2 = (ix3, o3)" by (rule prod.exhaust)
              have "stage_ok keccak config gs pos w (fst (repairGenesis keccak config gn env s handed (k + 1) ix2))"
                unfolding s by (rule repairGenesis_ok [OF ok2 env seed])
              then have "stage_ok keccak config gs pos w ix3" using repair by simp
              then show ?thesis using Inr full flush lock run True Some repair
                by (subst walk_loop.simps) (simp add: Let_def others)
            qed
          next
            case more: False
            show ?thesis
            proof (cases "ge_outOfTime env k \<or> ge_stopped env k")
              case True
              then show ?thesis using ok2 Inr full flush lock run more by (subst walk_loop.simps) (auto simp: Let_def others)
            next
              case False
              have lock': "\<not> \<not> ge_lock env k" using lock by simp
              have run': "commit_walk expected ?rows (wp_cursor page) (wp_imported page) ?last (ge_others env k ix) = Some ix2"
                using run by (simp add: others)
              have start: "pending_slice gs (wp_cursor page, wp_imported page) [] (wp_imported page)"
                using slice(2) [OF more] by (simp add: pending_slice_def)
              have "stage_ok keccak config gs pos w (fst (walk_loop keccak config gn env s counted (k + 1) (wp_cursor page)
                  (wp_imported page) [] (wp_cursor page, wp_imported page) (importedNow + length ?rows) ?restarts ix2))"
                using "1.IH"(2) [OF Inr refl refl refl full flush refl lock' run' refl more False ok2 counted slice(2) start s env seed node]
                  more by simp
              then show ?thesis using Inr full flush lock run more False
                by (subst walk_loop.simps) (auto simp: Let_def others)
            qed
          qed
        qed
      qed
    qed
  qed
qed

lemma walkGenesis_ok:
  assumes ok: "stage_ok keccak config gs pos w ix" and env: "quiet env" "0 < gn_batchEntities gn" "ge_now env \<le> pw_clock w"
    and seed: "seed_ok gs" "pc_floorOverride config = None" and node: "converts keccak es gs" "node_serves es pos env"
    and state: "gi_total state = int (length gs)" "gi_imported state = int (pos (gi_cursor state))"
  shows "stage_ok keccak config gs pos w (fst (walkGenesis keccak config gn env (pw_store w) state restarts ix))"
proof -
  have none: "pos None = 0" using node(2) by (simp add: node_serves_def)
  have "stage_ok keccak config gs pos w (fst (walk_loop keccak config gn env (pw_store w) (gi_total state) 1 (gi_cursor state)
      (gi_imported state) [] (gi_cursor state, gi_imported state) 0 restarts ix))"
    by (rule walk_loop_ok [OF env seed node ok state]) (simp_all add: pending_slice_def state(2))
  then show ?thesis using ok walk_failed_ok [OF ok env(1) none] by (auto simp: walkGenesis_def split: sum.splits)
qed

lemma probe_next_probed:
  assumes "probe_next gn env s = Some g" "node_serves es pos env" "length gs = length es"
  shows "probed gs g" "gi_status g = GRunning \<Longrightarrow> gi_total g = int (length gs) \<and> gi_imported g = int (pos (gi_cursor g))"
proof -
  have none: "pos None = 0" using assms(2) by (simp add: node_serves_def)
  have count: "n = int (length gs)" if "ge_count env = Inr n" for n using assms(2,3) that by (simp add: node_serves_def)
  have all: "probed gs g \<and> (gi_status g = GRunning \<longrightarrow> gi_total g = int (length gs) \<and> gi_imported g = int (pos (gi_cursor g)))"
    if "g = probe_counted gn iso ((blank_import iso)\<lparr>gi_chainId := c, gi_genesisHash := h\<rparr>) n" "n = int (length gs)" for n iso c h
    using none by (auto simp: that probe_counted_def blank_import_def probe_failed_def probed_def)
  have bad: "probed gs (probe_failed iso ((blank_import iso)\<lparr>gi_chainId := c, gi_genesisHash := h\<rparr>))"
    "gi_status (probe_failed iso ((blank_import iso)\<lparr>gi_chainId := c, gi_genesisHash := h\<rparr>)) \<noteq> GRunning"
    "probed gs ((blank_import iso)\<lparr>gi_status := GUnavailable, gi_finishedAt := f, gi_error := e\<rparr>)" for iso c h f e
    by (simp_all add: probe_failed_def blank_import_def probed_def)
  show "probed gs g" "gi_status g = GRunning \<Longrightarrow> gi_total g = int (length gs) \<and> gi_imported g = int (pos (gi_cursor g))"
    using assms(1) all [OF _ count] bad
    by (auto simp: probe_next_def Let_def split: sum.splits genesis_error.splits if_splits)
qed

lemma probeGenesis_ok:
  assumes ok: "stage_ok keccak config gs pos w ix" and env: "quiet env" "0 < gn_batchEntities gn" "ge_now env \<le> pw_clock w"
    and seed: "seed_ok gs" "pc_floorOverride config = None" and node: "converts keccak es gs" "node_serves es pos env"
  shows "stage_ok keccak config gs pos w (fst (probeGenesis keccak config gn env (pw_store w) mem ix))"
proof (cases "\<not> probe_skipped config gn env mem \<and> ge_lock env 0 \<and>
    (\<exists>g ix2. probe_next gn env (pw_store w) = Some g \<and> record_probe g ix = Some ix2)")
  case False
  have others: "ge_others env 0 ix = ix" using env(1) by (simp add: quiet_def)
  show ?thesis using ok False by (auto simp: probeGenesis_def Let_def others split: option.splits)
next
  case True
  then obtain g ix2 where probe: "probe_next gn env (pw_store w) = Some g" and stored: "record_probe g ix = Some ix2" by blast
  have others: "ge_others env 0 ix = ix" using env(1) by (simp add: quiet_def)
  note g = probe_next_probed [OF probe node(2)]
  have len: "length gs = length es" using node(1) by (simp add: converts_def)
  have "reaches keccak config gs w ix2"
    using reaches_step [of keccak config gs w ix ix2] projects.Probes [of "at_rest w ix" gs g ix2 keccak config]
      ok stored g(1) [OF len] by (simp add: stage_ok_def)
  moreover have "ix_genesis ix2 = Some g" using stored by (auto simp: record_probe_def split: if_splits)
  ultimately have ok2: "stage_ok keccak config gs pos w ix2" using g(2) [OF len] by (simp add: stage_ok_def row_serves_def)
  show ?thesis
  proof (cases "gi_status g = GRunning")
    case True
    note walk = walkGenesis_ok [OF ok2 env seed node conjunct1 [OF g(2) [OF len True]] conjunct2 [OF g(2) [OF len True]]]
    obtain ix3 r o3 where run: "walkGenesis keccak config gn env (pw_store w) g (sm_cursorRestarts mem) ix2 = (ix3, r, o3)" by (rule prod_cases3)
    then have "stage_ok keccak config gs pos w ix3" using walk [of "sm_cursorRestarts mem"] by simp
    then show ?thesis using \<open>\<not> probe_skipped config gn env mem \<and> _\<close> probe stored True run
      by (simp add: probeGenesis_def Let_def others)
  next
    case False
    then show ?thesis using \<open>\<not> probe_skipped config gn env mem \<and> _\<close> probe stored ok2
      by (simp add: probeGenesis_def Let_def others)
  qed
qed

lemma runGenesisStage_ok:
  assumes ok: "stage_ok keccak config gs pos w ix" and env: "quiet env" "0 < gn_batchEntities gn" "ge_now env \<le> pw_clock w"
    and seed: "seed_ok gs" "pc_floorOverride config = None" and node: "converts keccak es gs" "node_serves es pos env"
  shows "stage_ok keccak config gs pos w (fst (runGenesisStage keccak config gn env (pw_store w) mem ix))"
proof (cases "ix_genesis ix")
  case None
  then show ?thesis using ok probeGenesis_ok [OF ok env seed node] by (simp add: runGenesisStage_def)
next
  case (Some g)
  show ?thesis
  proof (cases "gi_status g = GRunning")
    case False
    then show ?thesis using ok Some by (simp add: runGenesisStage_def)
  next
    case running: True
    show ?thesis
    proof (cases "gi_phase g = Some Repair")
      case True
      obtain ix1 o1 where run: "repairGenesis keccak config gn env (pw_store w) g 0 ix = (ix1, o1)" by (rule prod.exhaust)
      then have "stage_ok keccak config gs pos w ix1" using repairGenesis_ok [OF ok env seed, of g 0] by simp
      then show ?thesis using Some running True run by (simp add: runGenesisStage_def)
    next
      case False
      then have row: "gi_total g = int (length gs)" "gi_imported g = int (pos (gi_cursor g))"
        using ok Some running by (simp_all add: stage_ok_def row_serves_def)
      obtain ix1 r o1 where run: "walkGenesis keccak config gn env (pw_store w) g (sm_cursorRestarts mem) ix = (ix1, r, o1)" by (rule prod_cases3)
      then have "stage_ok keccak config gs pos w ix1" using walkGenesis_ok [OF ok env seed node row, of "sm_cursorRestarts mem"] by simp
      then show ?thesis using Some running False run by (simp add: runGenesisStage_def)
    qed
  qed
qed

lemma fold_genesis_frame:
  "ix_genesis (fst (fold_loop keccak config env s head i through result ix)) = ix_genesis ix"
proof (induction "nat (head - through)" arbitrary: i through result ix rule: less_induct)
  case less
  show ?case
  proof (cases "through < head \<and> tw_clock env i - tw_startedAt env < pc_maxTickMs config")
    case False
    then show ?thesis by (subst fold_loop.simps) (simp only: if_True not_not simp_thms fst_conv)
  next
    case True
    let ?e = "planChunkEnd through head (pc_maxOpsPerChunk config) s"
    let ?run = "foldChunk keccak config (tw_chunk_lock env i) (keysTouchedBetween through ?e s) ?e (tw_iso env i) s ix"
    have e: "nat (head - ?e) < nat (head - through)" using planChunkEnd_bounds [of through head] True by simp
    have "ix_genesis ix1 = ix_genesis ix" if "?run = Inr (Some (ix1, n, v))" for ix1 n v
    proof -
      have "tw_chunk_lock env i" using that by (cases "tw_chunk_lock env i") (simp_all add: foldChunk_def withFoldLock_def)
      then show ?thesis using foldChunk_frame(4) that by simp
    qed
    then show ?thesis using less [OF e] True
      by (subst fold_loop.simps) (simp add: Let_def split: sum.splits option.splits prod.splits)
  qed
qed

end
