(* ===== verification/TickSteps.thy ===== *)
theory TickSteps
  imports GenesisSteps
begin

text \<open>
  A whole tick, the genesis stage and the fold, takes steps of the relation, so the contract of the
  projection is a contract of the code; with a node of one entity that a first tick imports.
\<close>

lemma tick_genesis_frame:
  "ix_genesis (fst (tick keccak config env stamp s st ix)) = ix_genesis ix"
proof -
  have start: "ix_genesis ix1 = ix_genesis ix" if "start_fold config now head s ix = Some ix1" for ix1 now head
    using that by (auto simp: start_fold_def Let_def split: if_splits)
  have complete: "ix_genesis (complete_floor config s ix1) = ix_genesis ix1" for ix1
    by (simp add: complete_floor_def split: option.splits)
  have refold: "ix_genesis ix2 = ix_genesis ix1" if "late_fold keccak config free keys t s ix1 = Inr (Some (ix2, n, v))" for free keys t ix1 ix2 n v
  proof -
    have "free" using that by (cases free) (simp_all add: late_fold_def withFoldLock_def)
    then have "refoldEntities keccak (pc_foldKeyBatch config) keys t s ix1 = Inr (ix2, n, v)" using that late_fold_effect by simp
    then show ?thesis by (subst refoldEntities_frame) simp_all
  qed
  have low: "ix_genesis (lower_floor config f s ix1) = ix_genesis ix1" for f ix1
    by (simp add: lower_floor_def split: option.splits)
  have late: "ix_genesis (fst (refoldLateArrivals keccak config free now wm t f stamp s ix1)) = ix_genesis ix1" for free now wm t f ix1
    by (auto simp: refoldLateArrivals_def Let_def low split: option.splits sum.splits prod.splits dest: refold)
  have stage: "ix_genesis ix2 = ix_genesis ix1" if "late_stage keccak config env stamp s st t ix1 = (ix2, st2, o2)" for t ix1 ix2 st2 o2
    using that late [of "tw_late_lock env" "tw_now env" _ t _ "complete_floor config s ix1"] complete [of ix1]
    by (auto simp: late_stage_def Let_def split: if_splits prod.splits) (metis fst_conv)
  have loop: "ix_genesis ix2 = ix_genesis ix1" if "fold_loop keccak config env s head i t r ix1 = (ix2, o2)" for head i t r ix1 ix2 o2
    using fold_genesis_frame [of keccak config env s head i t r ix1] that by simp
  show ?thesis
  proof (cases "fst (tick keccak config env stamp s st ix) = ix")
    case False
    then show ?thesis
    proof (rule tick_run)
      fix head ix1 t ix2 st2 late
      assume ix1: "(if ix_floor ix = None then start_fold config (tw_now env) head s ix else Some ix) = Some ix1"
        and ix2: "late_stage keccak config env stamp s st t ix1 = (ix2, st2, late)"
        and result: "fst (tick keccak config env stamp s st ix) = ix2 \<or>
          (\<exists>r ix3 folded. fold_loop keccak config env s head 0 t r ix2 = (ix3, folded) \<and>
            (fst (tick keccak config env stamp s st ix) = ix3 \<or>
             (\<exists>b. fst (tick keccak config env stamp s st ix) = refreshLiveEntities b ix3)))"
      have "ix_genesis ix1 = ix_genesis ix" using ix1 start by (auto split: if_splits)
      then have "ix_genesis ix2 = ix_genesis ix" using stage [OF ix2] by simp
      then show ?thesis using result loop by (auto simp: refreshLiveEntities_def)
    qed
  qed simp
qed

section \<open>Property\<close>

text \<open>A node with one genesis entity, found, imported and repaired by the first tick.\<close>

definition sample_page :: genesis_page where
  "sample_page = \<lparr>gp_data = [sample_genesis], gp_blockNumber = ''0x0'', gp_cursor = None\<rparr>"

definition sample_stage :: stage_world where
  "sample_stage =
     \<lparr>ge_describe = Inr \<lparr>gc_chainId = 1, gc_genesisHash = None, gc_stateRoot = None\<rparr>, ge_count = Inr 1,
      ge_page = (\<lambda>k c. if c = None then Inr sample_page else Inl TransportError),
      ge_lock = (\<lambda>k. True), ge_others = (\<lambda>k. id), ge_outOfTime = (\<lambda>k. False), ge_stopped = (\<lambda>k. False),
      ge_clock = 1, ge_now = 0, ge_iso = []\<rparr>"

definition sample_pos :: "string option \<Rightarrow> nat" where
  "sample_pos c = (if c = None then 0 else 1)"

definition sample_memory :: stage_memory where
  "sample_memory = \<lparr>sm_lastProbeAt = 0, sm_cursorRestarts = 0\<rparr>"

lemma sample_stage_simps:
  "ge_lock sample_stage k" "ge_others sample_stage k = id" "ge_iso sample_stage = []" "ge_now sample_stage = 0"
  "ge_page sample_stage k None = Inr sample_page"
  by (simp_all add: sample_stage_def)

lemma sample_walk_turn:
  "walk_turn (\<lambda>_. []) 1 None 0 (Inr sample_page) =
     Inr \<lparr>wp_versions = [sample_genesis_version], wp_cursor = None, wp_imported = 1\<rparr>"
proof -
  have "page_block sample_page = 0" by code_simp
  moreover have "page_versions (\<lambda>_. []) 0 [sample_genesis] = Inr [sample_genesis_version]"
    by (simp add: page_versions_def sample_genesis_accepted(1))
  ultimately show ?thesis by (simp add: walk_turn_def genesis_check_def sample_page_def)
qed

lemma sample_repair:
  "fst (repairGenesis (\<lambda>_. []) default_projector default_genesis sample_stage empty_store sample_handed k sample_walked) = sample_imported"
proof -
  have floor: "set_floor sample_handed 0 sample_walked = Some sample_floored"
    by (simp add: set_floor_def sample_walked_def sample_floored_def repairing_def sample_handed_def sample_import_def
        insertGenesisVersions_def empty_index_def)
  have keys: "genesisKeysWithOperations through None limit empty_store ix = []" for through limit ix
    by (simp add: genesisKeysWithOperations_def empty_store_def map_filter_simps)
  have batch: "repair_batch (\<lambda>_. []) default_projector sample_handed None [] 0 True [] empty_store sample_floored = Inr (Some sample_imported)"
    by (simp add: repair_batch_def sample_floored_def sample_imported_def repairing_def sample_walked_def sample_handed_def
        sample_import_def finish_import_def)
  have "0 < gn_batchEntities default_genesis" by (simp add: default_genesis_def DEFAULT_GENESIS_BATCH_ENTITIES_def)
  moreover have "gi_repairAfterKey sample_handed = None" "ix_through sample_floored = Some 0"
    by (simp_all add: sample_handed_def sample_import_def sample_floored_def)
  ultimately show ?thesis
    by (simp add: repairGenesis_def floor sample_stage_simps repair_loop.simps keys batch)
qed

lemma sample_walk:
  "fst (walkGenesis (\<lambda>_. []) default_projector default_genesis sample_stage empty_store sample_import 0
     (empty_index\<lparr>ix_genesis := Some sample_import\<rparr>)) = sample_imported"
proof -
  have commit: "commit_walk (None, 0) [sample_genesis_version] None 1 True (empty_index\<lparr>ix_genesis := Some sample_import\<rparr>) = Some sample_walked"
    by (simp add: commit_walk_def walking_def sample_walked_def sample_handed_def sample_import_def insertGenesisVersions_def empty_index_def)
  have handed: "ix_genesis sample_walked = Some sample_handed" by (simp add: sample_walked_def)
  have state: "gi_source sample_import = Some FromRpc" "gi_total sample_import = 1" "gi_imported sample_import = 0"
    "gi_cursor sample_import = None" "gn_hasSource default_genesis"
    by (simp_all add: sample_import_def default_genesis_def)
  have begins: "walk_begins 1 0 = Inr ()" by (simp add: walk_begins_def genesis_check_def MAX_GENESIS_POSITION_def)
  obtain ix3 o3 where rep: "repairGenesis (\<lambda>_. []) default_projector default_genesis sample_stage empty_store sample_handed (Suc (Suc 0)) sample_walked = (ix3, o3)"
    by (rule prod.exhaust)
  have ix3: "ix3 = sample_imported" using sample_repair [of "Suc (Suc 0)"] rep by simp
  show ?thesis
    by (simp add: walkGenesis_def state begins walk_loop.simps sample_stage_simps sample_walk_turn commit handed rep ix3)
qed

lemma sample_whole_tick:
  "fst (whole_tick (\<lambda>_. []) default_projector default_genesis sample_stage env (\<lambda>_. 0) empty_store sample_memory st empty_index) =
     sample_imported"
proof -
  have head: "getIndexedHead empty_store = Inr None" by code_simp
  have probe: "probe_next default_genesis sample_stage empty_store = Some sample_import" by code_simp
  have go: "\<not> probe_skipped default_projector default_genesis sample_stage sample_memory" by code_simp
  have running: "gi_status sample_import = GRunning" by (simp add: sample_import_def)
  have fresh: "ix_genesis empty_index = None" "gn_mode default_genesis \<noteq> GenesisManaged" "sm_cursorRestarts sample_memory = 0"
    by (simp_all add: empty_index_def default_genesis_def sample_memory_def)
  have recorded: "record_probe sample_import empty_index = Some (empty_index\<lparr>ix_genesis := Some sample_import\<rparr>)"
    by (simp add: record_probe_def empty_index_def)
  obtain ix3 r3 o3 where walk: "walkGenesis (\<lambda>_. []) default_projector default_genesis sample_stage empty_store sample_import 0
     (empty_index\<lparr>ix_genesis := Some sample_import\<rparr>) = (ix3, r3, o3)" by (rule prod_cases3)
  have "ix3 = sample_imported" using sample_walk walk by simp
  then have "\<exists>mem o1. runGenesisStage (\<lambda>_. []) default_projector default_genesis sample_stage empty_store sample_memory empty_index =
      (sample_imported, mem, o1)"
    using walk by (simp add: runGenesisStage_def fresh probeGenesis_def go probe recorded running sample_stage_simps)
  then obtain mem o1 where stage: "runGenesisStage (\<lambda>_. []) default_projector default_genesis sample_stage empty_store sample_memory empty_index =
      (sample_imported, mem, o1)" by blast
  show ?thesis by (simp add: whole_tick_def head stage split: option.splits sum.splits)
qed

text \<open>
  C4. The step relation is what the code does. A whole tick of the projector (the genesis stage, with its probe,
  its walk over the node's pages, restarts, failure and repair, then start, late scan, chunks and live count)
  over a store that keeps still only takes steps of the relation that the contract is proved for, so that
  whatever holds along it holds after the tick, however it ended. Assumed of the node: it serves one list of
  entities, each answered page holding those from its cursor on; it may fail to answer in any way. The
  clocks agree, no other backend writes the index during the tick, and a batch holds at least one entity. That
  the row of a walk under way says how far its cursor has come (\<open>row_serves\<close>) is true of an index without an
  import, and the tick keeps it, so the theorem applies tick after tick.
\<close>

theorem whole_tick_takes_steps:
  assumes "projected keccak config gs w" "pw_pending w = Idle" "seed_ok gs" "pc_floorOverride config = None"
    and "converts keccak es gs" "node_serves es pos genv" "row_serves gs pos (pw_index w)"
    and "quiet genv" "0 < gn_batchEntities gn" "ge_now genv \<le> tw_now env" "pw_clock w = tw_now env"
    and "whole_tick keccak config gn genv env (pw_stamp w) (pw_store w) mem st (pw_index w) = (ix', mem', st', outcome)"
  shows "projected keccak config gs (w\<lparr>pw_index := ix'\<rparr>) \<and> row_serves gs pos ix'"
proof -
  have rest: "at_rest w (pw_index w) = w" "at_rest w ix' = w\<lparr>pw_index := ix'\<rparr>" using assms(2) by (simp_all add: at_rest_def)
  have "stage_ok keccak config gs pos w (pw_index w)" using assms(1,7) by (simp add: stage_ok_def reaches_def rest)
  note stage = runGenesisStage_ok [OF this assms(8,9) _ assms(3-6)]
  obtain ix1 mem1 o1 where run: "runGenesisStage keccak config gn genv (pw_store w) mem (pw_index w) = (ix1, mem1, o1)" by (rule prod_cases3)
  have ok1: "stage_ok keccak config gs pos w ix1" using stage [of mem] assms(10,11) run by simp
  have tick: "stage_ok keccak config gs pos w (fst (tick keccak config (env\<lparr>tw_genesis_changed := b\<rparr>) (pw_stamp w) (pw_store w) st ix1))" for b
    using tick_reaches [of keccak config gs w ix1 "env\<lparr>tw_genesis_changed := b\<rparr>" st] ok1 assms(3,4,11)
      tick_genesis_frame [of keccak config "env\<lparr>tw_genesis_changed := b\<rparr>" "pw_stamp w" "pw_store w" st ix1]
    by (simp add: stage_ok_def row_serves_def)
  have "stage_ok keccak config gs pos w ix'"
    using assms(12) ok1 tick \<open>stage_ok keccak config gs pos w (pw_index w)\<close>
    by (auto simp: whole_tick_def Let_def run split: sum.splits option.splits if_splits prod.splits) (metis fst_conv)+
  then show ?thesis by (simp add: stage_ok_def reaches_def rest)
qed

theorem whole_tick_takes_steps_witness:
  "\<exists>env st mem' st' outcome.
     whole_tick (\<lambda>_. []) default_projector default_genesis sample_stage env (\<lambda>_. 0) empty_store sample_memory st empty_index =
       (sample_imported, mem', st', outcome) \<and>
     map_option gi_status (ix_genesis sample_imported) = Some GDone \<and>
     projected (\<lambda>_. []) default_projector [sample_genesis_version] (sample_node_world sample_imported Idle)"
proof -
  let ?w = "sample_node_world empty_index Idle" and ?env = "sample_tick_world\<lparr>tw_now := 0\<rparr>"
  have start: "projected (\<lambda>_. []) default_projector [sample_genesis_version] ?w"
    using projected.Initial [of "\<lambda>_. []" default_projector "[sample_genesis_version]" "\<lambda>_. 0" 0]
    by (simp add: sample_node_world_def initial_projection_def)
  have idle: "pw_pending ?w = Idle" "pw_clock ?w = 0" "pw_stamp ?w = (\<lambda>_. 0)" "pw_store ?w = empty_store" "pw_index ?w = empty_index"
    by (simp_all add: sample_node_world_def)
  have seed: "seed_ok [sample_genesis_version]" by (simp add: seed_ok_def sample_genesis_ok)
  have floor: "pc_floorOverride default_projector = None" by (simp add: default_projector_def)
  have conv: "converts (\<lambda>_. []) [sample_genesis] [sample_genesis_version]"
    by (simp add: converts_def sample_genesis_accepted(1))
  have node: "node_serves [sample_genesis] sample_pos sample_stage"
    by (auto simp: node_serves_def sample_pos_def sample_stage_def sample_page_def split: if_splits)
  have row: "row_serves [sample_genesis_version] sample_pos (pw_index ?w)"
    unfolding idle by (simp add: row_serves_def empty_index_def)
  have quiet: "quiet sample_stage" "0 < gn_batchEntities default_genesis" "ge_now sample_stage \<le> 0"
    by (simp_all add: quiet_def sample_stage_def default_genesis_def DEFAULT_GENESIS_BATCH_ENTITIES_def)
  obtain ix' mem' st' outcome where run: "whole_tick (\<lambda>_. []) default_projector default_genesis sample_stage ?env (pw_stamp ?w) (pw_store ?w)
      sample_memory sample_projector_state (pw_index ?w) = (ix', mem', st', outcome)" by (rule prod_cases4)
  then have ix': "ix' = sample_imported" using sample_whole_tick [of ?env sample_projector_state] unfolding idle by simp
  have "projected (\<lambda>_. []) default_projector [sample_genesis_version] (?w\<lparr>pw_index := ix'\<rparr>)"
    using whole_tick_takes_steps [OF start idle(1) seed floor conv node row quiet(1,2) _ _ run] quiet(3) idle(2) by simp
  moreover have "?w\<lparr>pw_index := ix'\<rparr> = sample_node_world sample_imported Idle" by (simp add: sample_node_world_def ix')
  moreover have "map_option gi_status (ix_genesis sample_imported) = Some GDone"
    by (simp add: sample_imported_def finish_import_def)
  ultimately show ?thesis using run unfolding idle ix' by metis
qed

end
