(* ===== verification/ArkivRpcFacts.thy ===== *)
theory ArkivRpcFacts
  imports ArkivCursors EntityRefold
begin

text \<open>
  Paging through a query (src/src/arkivJsonRpc.ts over the reads of entityIndexStorage.ts) answers exactly
  the entities that match it.
\<close>

section \<open>What a page holds\<close>

lemma length_utf8_bytes [simp]: "length (utf8_bytes s) = length s"
  by (induction s rule: utf8_bytes.induct) auto

lemma utf8_bytes_idem [simp]: "utf8_bytes (utf8_bytes s) = utf8_bytes s"
proof (induction s rule: utf8_bytes.induct)
  case (1 a b c s)
  show ?case
  proof (cases "byte_of a = 0xED \<and> 0xA0 \<le> byte_of b")
    case True
    have "utf8_bytes (char_of (0xEF :: nat) # char_of (0xBF :: nat) # char_of (0xBD :: nat) # x) =
        char_of (0xEF :: nat) # char_of (0xBF :: nat) # char_of (0xBD :: nat) # utf8_bytes x" for x
    proof (cases x)
      case (Cons d y)
      then show ?thesis by (cases y) auto
    qed simp
    then show ?thesis using True 1 by simp
  next
    case False
    then have step: "utf8_bytes (a # b # c # s) = a # utf8_bytes (b # c # s)" by auto
    have "length (utf8_bytes (b # c # s)) = Suc (Suc (length s))" by simp
    then obtain d e y where y: "utf8_bytes (b # c # s) = d # e # y" by (metis length_Suc_conv)
    moreover have "0xA0 \<le> byte_of (hd (utf8_bytes (b # c # s))) \<longrightarrow> 0xA0 \<le> byte_of b" by (cases s) auto
    ultimately have d: "0xA0 \<le> byte_of d \<longrightarrow> 0xA0 \<le> byte_of b" by simp
    have "utf8_bytes (a # d # e # y) = a # utf8_bytes (d # e # y)" using False d by auto
    then show ?thesis using y 1(2) [OF False] unfolding step by simp
  qed
qed auto

lemma linked_valid_unique:
  "linked vs \<Longrightarrow> v \<in> set vs \<Longrightarrow> u \<in> set vs \<Longrightarrow> valid_at b v \<Longrightarrow> valid_at b u \<Longrightarrow> v = u"
proof (induction vs)
  case (Cons w vs)
  have apart: False if "valid_at b w" "valid_at b x" "x \<in> set vs" for x
    using linked_starts [OF Cons.prems(1) that(3)] that(1,2) by (auto simp: valid_at_def)
  have "linked vs" using Cons.prems(1) by (cases vs) simp_all
  then show ?case using Cons apart by auto
qed simp

definition creation :: "entity_version \<Rightarrow> int \<times> int \<times> int" where
  "creation v = (v_createdAt v, v_createdPosition v, v_createdOpIndex v)"

definition live_at :: "int \<Rightarrow> entity_version \<Rightarrow> bool" where
  "live_at b v \<longleftrightarrow> valid_at b v \<and> \<not> v_deleted v \<and> b < v_expiresAt v"

text \<open>A version without its end, which later folds fill in.\<close>

definition open_ended :: "entity_version \<Rightarrow> entity_version" where
  "open_ended v = v\<lparr>v_toBlock := None\<rparr>"

text \<open>
  A version whose columns hold what it was built with: its texts have a UTF-8 form, its numbers are
  within the columns.
\<close>

definition storable :: "entity_version \<Rightarrow> bool" where
  "storable v \<longleftrightarrow> mapVersionRow (versionRow v) = v \<and> position_in_range (cursorPosition v)"

text \<open>
  An index folded up to block \<open>through\<close>: its rows are those of versions that form one chain per entity,
  begin at or below that block and are created where nothing else is; the attribute rows are theirs.
\<close>

definition index_serves :: "entity_index \<Rightarrow> int \<Rightarrow> entity_version list \<Rightarrow> bool" where
  "index_serves ix through vs \<longleftrightarrow>
     ix_through ix = Some through \<and> ix_versions ix = map versionRow vs \<and> ix_attributes ix = attributeRows vs \<and>
     (\<forall>k. linked (filter (\<lambda>v. v_entityKey v = k) vs)) \<and>
     (\<forall>v \<in> set vs. storable v \<and> v_fromBlock v \<le> through) \<and>
     (\<forall>v \<in> set vs. \<forall>u \<in> set vs. creation v = creation u \<longrightarrow> v_entityKey v = v_entityKey u)"

lemma index_servesD:
  assumes "index_serves ix through vs"
  shows "ix_through ix = Some through" "ix_versions ix = map versionRow vs" "ix_attributes ix = attributeRows vs"
    "linked (filter (\<lambda>v. v_entityKey v = k) vs)" "v \<in> set vs \<Longrightarrow> storable v" "v \<in> set vs \<Longrightarrow> v_fromBlock v \<le> through"
    "v \<in> set vs \<Longrightarrow> u \<in> set vs \<Longrightarrow> creation v = creation u \<Longrightarrow> v_entityKey v = v_entityKey u"
  using assms unfolding index_serves_def by blast+

definition compare_creations :: "entity_version \<Rightarrow> entity_version \<Rightarrow> int" where
  "compare_creations v u = compare_triples (creation v) (creation u)"

lemma compare_triples_facts:
  "compare_triples a a = 0" "compare_triples a b = 0 \<longleftrightarrow> a = b" "compare_triples a b < 0 \<longleftrightarrow> \<not> compare_triples b a \<le> 0"
  "compare_triples a b < 0 \<Longrightarrow> compare_triples b c < 0 \<Longrightarrow> compare_triples a c < 0"
  by (auto simp: compare_triples_def prod_eq_iff split: if_splits)

interpretation creations_order: js_comparator compare_creations
  using compare_triples_order by unfold_locales (simp add: compare_creations_def, unfold compare_creations_def, blast)

interpretation results_order: js_comparator compare_results
  using compare_triples_order by unfold_locales (simp add: compare_results_def, unfold compare_results_def, blast)

lemma compare_results_row [simp]: "compare_results (versionRow v) (versionRow u) = compare_creations v u"
  by (simp add: compare_results_def compare_creations_def result_key_def creation_def versionRow_def)

lemma distinct_versions:
  assumes "\<And>k. linked (filter (\<lambda>v. v_entityKey v = k) vs)"
  shows "distinct (map (\<lambda>v. (v_entityKey v, v_version v)) vs)"
proof -
  have "distinct (map (\<lambda>v. (v_entityKey v, v_version v)) us)"
    if "\<And>k. distinct (map v_version (filter (\<lambda>v. v_entityKey v = k) us))" for us
    using that
  proof (induction us)
    case (Cons u us)
    have "distinct (map v_version (filter (\<lambda>v. v_entityKey v = k) us))" for k
      using Cons.prems [of k] by (cases "v_entityKey u = k") simp_all
    moreover have "\<forall>v \<in> set us. v_entityKey v = v_entityKey u \<longrightarrow> v_version v \<noteq> v_version u"
      using Cons.prems [of "v_entityKey u"] by (auto simp: image_iff)
    ultimately show ?case using Cons.IH by force
  qed simp
  then show ?thesis using assms linked_distinct by blast
qed

lemma distinct_keyed: "distinct (map f vs) \<Longrightarrow> distinct vs"
  by (simp add: distinct_map)

text \<open>The condition sees the attributes of the row's own version.\<close>

lemma view_attributes:
  assumes "distinct (map (\<lambda>v. (v_entityKey v, v_version v)) vs)" "v \<in> set vs"
  shows "filter (\<lambda>a. ar_entity_key a = v_entityKey v \<and> ar_version a = v_version v) (attributeRows vs) = attributeRows [v]"
  using assms
proof (induction vs)
  case (Cons u us)
  let ?own = "\<lambda>a. ar_entity_key a = v_entityKey v \<and> ar_version a = v_version v"
  have split: "attributeRows (u # us) = attributeRows [u] @ attributeRows us" by (simp add: attributeRows_def)
  have none: "filter ?own (attributeRows ws) = []" if "(v_entityKey v, v_version v) \<notin> (\<lambda>v. (v_entityKey v, v_version v)) ` set ws" for ws
  proof -
    have "(ar_entity_key a, ar_version a) \<in> (\<lambda>v. (v_entityKey v, v_version v)) ` set ws" if "a \<in> set (attributeRows ws)" for a
      using that by (auto simp: attributeRows_def)
    then show ?thesis using that by (metis (mono_tags, lifting) filter_False)
  qed
  have all: "filter ?own (attributeRows [v]) = attributeRows [v]"
    by (auto simp: attributeRows_def filter_id_conv)
  show ?case
  proof (cases "u = v")
    case True
    then have "filter ?own (attributeRows us) = []" using Cons.prems(1) by (intro none) auto
    then show ?thesis using True all split by simp
  next
    case False
    then have v: "v \<in> set us" using Cons.prems(2) by simp
    then have "filter ?own (attributeRows [u]) = []" using Cons.prems(1) by (intro none) (auto simp: image_iff)
    then show ?thesis using Cons v split by simp
  qed
qed simp

lemma value_matches_row:
  "value_matches op q \<lparr>valueText = utf8_bytes (valueText s), valueNum = valueNum s\<rparr> = value_matches op q s"
  by (cases "numeric_value q"; cases "valueNum s") (simp_all add: value_matches_def)

lemma matches_view:
  assumes "v_attributes w = map row_attribute (attributeRows [v])"
    and "v_owner w = v_owner v" "v_creator w = v_creator v" "v_entityKey w = v_entityKey v"
    "v_expiresAt w = v_expiresAt v" "v_createdAt w = v_createdAt v"
  shows "matches q w = matches q v"
proof -
  have attr: "indexed_attribute w name tag P = indexed_attribute v name tag P"
    if "\<And>s. P \<lparr>valueText = utf8_bytes (valueText s), valueNum = valueNum s\<rparr> = P s" for name tag P
    using that assms(1) by (auto simp: indexed_attribute_def attributeRows_def row_attribute_def)
  have fields: "field_matches op f x w = field_matches op f x v" for op f x
    by (cases f) (simp_all add: assms(2-) split: option.split)
  have prefixes: "indexed_attribute w name TStr (\<lambda>x. prefix p (utf8_bytes (valueText x))) =
      indexed_attribute v name TStr (\<lambda>x. prefix p (utf8_bytes (valueText x)))" for name p
    by (rule attr) simp
  have numbers: "indexed_attribute w name tag (value_matches op x) = indexed_attribute v name tag (value_matches op x)" for name tag op x
    by (rule attr) (simp add: value_matches_row)
  show ?thesis
  proof (induction q)
    case (Compare op key x)
    then show ?case by (cases key) (simp_all add: numbers fields)
  next
    case (StartsWith key s)
    then show ?case by (cases key) (simp_all add: prefixes)
  qed simp_all
qed

lemma condition_view_matches:
  assumes "distinct (map (\<lambda>v. (v_entityKey v, v_version v)) vs)" "v \<in> set vs" "ix_attributes ix = attributeRows vs"
  shows "matches q (condition_view ix (versionRow v)) = matches q v"
proof (rule matches_view)
  show "v_attributes (condition_view ix (versionRow v)) = map row_attribute (attributeRows [v])"
    using view_attributes [OF assms(1,2)] assms(3) by (simp add: condition_view_def versionRow_def)
qed (simp_all add: condition_view_def versionRow_def)

text \<open>The condition of an accepted query holds on the rows whose version it matches.\<close>

lemma matching_rows_of:
  assumes "parseEntityQuery keccak query = Inr q" "index_serves ix through vs"
  shows "matching_rows q block atHead ix =
    Inr (map versionRow (filter (\<lambda>v. liveFilter atHead block (versionRow v) \<and> matches q v) vs))"
proof -
  have vs: "ix_versions ix = map versionRow vs" "ix_attributes ix = attributeRows vs"
    "distinct (map (\<lambda>v. (v_entityKey v, v_version v)) vs)" "\<forall>v \<in> set vs. storable v"
    using index_servesD [OF assms(2)] distinct_versions [of vs] by blast+
  have "\<exists>e params. compileNode 1 q [] = Inr (e, params) \<and>
      (\<forall>w. v_createdAt w \<le> I64_MAX \<longrightarrow> eval_sql 1 params w e = Some (matches q w))"
  proof (cases "q = All")
    case False
    then have ok: "ast_ok q" using parseEntityQuery_sound [OF assms(1)] by blast
    have "v_createdAt (undefined\<lparr>v_createdAt := 0\<rparr>) \<le> I64_MAX" by (simp add: I64_MAX_def)
    from compileNode_correct [OF this ok, of 1 "[]"] obtain e params where e: "compileNode 1 q [] = Inr (e, params)" by blast
    have "eval_sql 1 params w e = Some (matches q w)" if "v_createdAt w \<le> I64_MAX" for w
      using compileNode_correct [OF that ok, of 1 "[]"] e by (metis append_Nil2 Inr_inject Pair_inject)
    then show ?thesis using e by blast
  qed simp
  then obtain e params where e: "compileNode 1 q [] = Inr (e, params)"
    "\<forall>w. v_createdAt w \<le> I64_MAX \<longrightarrow> eval_sql 1 params w e = Some (matches q w)" by blast
  have "condition_holds 1 params e ix (versionRow v) = matches q v" if v: "v \<in> set vs" for v
  proof -
    have "v_createdAt v \<le> I64_MAX"
      using vs(4) v by (auto simp: storable_def position_in_range_def cursorPosition_def MAX_CURSOR_CREATED_AT_def I64_MAX_def)
    then have "v_createdAt (condition_view ix (versionRow v)) \<le> I64_MAX" by (simp add: condition_view_def versionRow_def)
    then show ?thesis using e(2) condition_view_matches [OF vs(3) v vs(2)] by (simp add: condition_holds_def)
  qed
  then have "filter (\<lambda>r. liveFilter atHead block r \<and> condition_holds 1 params e ix r) (map versionRow vs) =
      map versionRow (filter (\<lambda>v. liveFilter atHead block (versionRow v) \<and> matches q v) vs)"
    by (simp add: filter_map comp_def cong: filter_cong conj_cong)
  then show ?thesis using e(1) vs(1) by (simp add: matching_rows_def wrap_error_def)
qed

lemma linked_ends: "linked us \<Longrightarrow> v \<in> set us \<Longrightarrow> v_toBlock v = Some t \<Longrightarrow> \<exists>u \<in> set us. v_fromBlock u = t"
proof (induction us rule: linked.induct)
  case (3 w u us)
  show ?case
  proof (cases "v = w")
    case True
    then show ?thesis using 3 by simp
  next
    case False
    then show ?thesis using 3 by auto
  qed
qed auto

text \<open>At the head the shorter filter selects the same rows, since a version that ended did so at or below the head.\<close>

lemma liveFilter_live:
  assumes "index_serves ix through vs" "v \<in> set vs" "atHead \<longrightarrow> block = through"
  shows "liveFilter atHead block (versionRow v) = live_at block v"
proof -
  have "t \<le> through" if t: "v_toBlock v = Some t" for t
  proof -
    let ?us = "filter (\<lambda>u. v_entityKey u = v_entityKey v) vs"
    have us: "linked ?us" "v \<in> set ?us" using index_servesD(4) [OF assms(1)] assms(2) by simp_all
    obtain u where "u \<in> set ?us" "v_fromBlock u = t" using linked_ends [OF us t] by blast
    then show ?thesis using index_servesD(6) [OF assms(1)] by auto
  qed
  then show ?thesis using assms(3)
    by (cases "v_toBlock v") (auto simp: liveFilter_def live_at_def valid_at_def versionRow_def Let_def)
qed

lemma open_ended_frame [simp]:
  "creation (open_ended v) = creation v" "projectEntity (open_ended v) p = projectEntity v p"
  "matches q (open_ended v) = matches q v" "cursorPosition (open_ended v) = cursorPosition v"
proof -
  show "matches q (open_ended v) = matches q v"
  proof (induction q)
    case (Compare op key x)
    then show ?case
    proof (cases key)
      case (Builtin f)
      then show ?thesis by (cases f) (simp_all add: open_ended_def split: option.split)
    qed (simp add: open_ended_def indexed_attribute_def)
  next
    case (StartsWith key s)
    then show ?case by (cases key) (simp_all add: open_ended_def indexed_attribute_def)
  qed simp_all
qed (simp_all add: open_ended_def creation_def projectEntity_def cursorPosition_def)

text \<open>The versions live at a block, in the order they are answered.\<close>

definition answer_list :: "query_ast \<Rightarrow> int \<Rightarrow> entity_version list \<Rightarrow> entity_version list" where
  "answer_list q block vs = js_sort compare_creations (filter (\<lambda>v. live_at block v \<and> matches q v) vs)"

definition created_before :: "entity_version \<Rightarrow> entity_version \<Rightarrow> bool" where
  "created_before v u \<longleftrightarrow> compare_creations v u < 0"

lemma one_live_per_creation:
  assumes "index_serves ix through vs" "v \<in> set vs" "u \<in> set vs" "live_at b v" "live_at b u" "creation v = creation u"
  shows "v = u"
proof -
  let ?us = "filter (\<lambda>w. v_entityKey w = v_entityKey v) vs"
  have "v_entityKey v = v_entityKey u" by (rule index_servesD(7) [OF assms(1-3,6)])
  then have "linked ?us" "v \<in> set ?us" "u \<in> set ?us" using index_servesD(4) [OF assms(1)] assms(2,3) by simp_all
  then show ?thesis using assms(4,5) by (intro linked_valid_unique [of ?us v u b]) (simp_all add: live_at_def)
qed

lemma sorted_strict:
  assumes "sorted_wrt (\<lambda>v u. compare_creations v u \<le> 0) xs" "distinct (map creation xs)"
  shows "sorted_wrt created_before xs"
proof -
  have strict: "created_before v u" if "compare_creations v u \<le> 0" "creation v \<noteq> creation u" for v u
    using that compare_triples_facts(2) [of "creation v" "creation u"] by (simp add: compare_creations_def created_before_def)
  show ?thesis using assms
  proof (induction xs)
    case (Cons x xs)
    have "created_before x y" if "y \<in> set xs" for y using Cons.prems that by (intro strict) auto
    then show ?case using Cons by simp
  qed simp
qed

lemma answer_list_facts:
  assumes "index_serves ix through vs"
  shows "sorted_wrt created_before (answer_list q b vs)"
    "set (answer_list q b vs) = {v \<in> set vs. live_at b v \<and> matches q v}"
proof -
  let ?live = "filter (\<lambda>v. live_at b v \<and> matches q v) vs"
  have "distinct vs" by (rule distinct_keyed [OF distinct_versions [OF index_servesD(4) [OF assms]]])
  then have "distinct ?live" by simp
  moreover have "inj_on creation (set ?live)"
    using one_live_per_creation [OF assms] by (auto simp: inj_on_def)
  ultimately have "distinct (map creation ?live)" by (simp add: distinct_map)
  moreover have "mset (map creation (answer_list q b vs)) = mset (map creation ?live)"
    by (simp add: answer_list_def)
  ultimately have "distinct (map creation (answer_list q b vs))" by (metis mset_eq_imp_distinct_iff)
  moreover have "sorted_wrt (\<lambda>v u. compare_creations v u \<le> 0) (answer_list q b vs)"
    unfolding answer_list_def by (rule creations_order.sorted_js_sort)
  ultimately show "sorted_wrt created_before (answer_list q b vs)" by (rule sorted_strict [rotated])
  show "set (answer_list q b vs) = {v \<in> set vs. live_at b v \<and> matches q v}" by (auto simp: answer_list_def)
qed

lemma sorted_strict_unique:
  assumes "sorted_wrt created_before xs" "sorted_wrt created_before ys" "set xs = set ys"
  shows "xs = ys"
proof -
  have strict: "\<not> created_before v v" "created_before v u \<Longrightarrow> \<not> created_before u v" for v u
    using compare_triples_facts(3) [of "creation v" "creation u"] by (auto simp: created_before_def compare_creations_def compare_triples_facts(1))
  have dist: "distinct zs" if "sorted_wrt created_before zs" for zs
    using that strict(1) by (induction zs) auto
  have weak: "sorted_wrt (\<lambda>v u. compare_creations v u \<le> 0) zs" if "sorted_wrt created_before zs" for zs
    by (rule sorted_wrt_mono_rel [OF _ that]) (simp add: created_before_def)
  have order: "v = u" if vu: "v \<in> set xs" "u \<in> set xs" "compare_creations v u \<le> 0" "compare_creations u v \<le> 0" for v u
  proof -
    obtain i j where ij: "i < length xs" "j < length xs" "v = xs ! i" "u = xs ! j" using vu(1,2) by (auto simp: in_set_conv_nth)
    have "\<not> created_before v u" "\<not> created_before u v"
      using vu(3,4) compare_triples_facts(3) [of "creation v" "creation u"] compare_triples_facts(3) [of "creation u" "creation v"]
      by (simp_all add: created_before_def compare_creations_def)
    then have "\<not> i < j" "\<not> j < i" using sorted_wrt_nth_less [OF assms(1)] ij by blast+
    then show ?thesis using ij by simp
  qed
  show ?thesis
    by (rule creations_order.sorted_unique) (use weak dist assms order in \<open>simp_all add: set_eq_iff_mset_eq_distinct [symmetric]\<close>)
qed

lemma later_elements:
  "sorted_wrt created_before xs \<Longrightarrow> n < length xs \<Longrightarrow> filter (created_before (xs ! n)) xs = drop (Suc n) xs"
proof (induction xs arbitrary: n)
  case (Cons x xs)
  have self: "\<not> created_before x x" by (simp add: created_before_def compare_creations_def compare_triples_facts(1))
  have behind: "\<not> created_before u x" if "u \<in> set xs" for u
    using Cons.prems(1) that compare_triples_facts(3) [of "creation x" "creation u"]
    by (auto simp: created_before_def compare_creations_def)
  show ?case
  proof (cases n)
    case 0
    then show ?thesis using Cons.prems(1) self by (simp add: filter_id_conv)
  next
    case (Suc m)
    then show ?thesis using Cons behind by simp
  qed
qed simp

lemma queryEntities_page:
  assumes "parseEntityQuery keccak query = Inr q" "index_serves ix through vs" "atHead \<longrightarrow> block = through"
    and "n \<le> length (answer_list q block vs)"
    and "resume = (if n = 0 then None else Some (cursorPosition (answer_list q block vs ! (n - 1))))"
  shows "queryEntities q block atHead limit resume ix =
    Inr \<lparr>qp_entities = take limit (drop n (answer_list q block vs)),
      qp_hasMore = (limit < length (answer_list q block vs) - n)\<rparr>"
proof -
  let ?M = "answer_list q block vs"
  let ?live = "filter (\<lambda>v. live_at block v \<and> matches q v) vs"
  have key: "cursor_key (cursorPosition v) = creation v" "result_key (versionRow v) = creation v" for v
    by (simp_all add: cursor_key_def cursorPosition_def creation_def result_key_def versionRow_def)
  have rows: "matching_rows q block atHead ix = Inr (map versionRow ?live)"
    using matching_rows_of [OF assms(1,2)] liveFilter_live [OF assms(2) _ assms(3)]
    by (simp cong: filter_cong conj_cong)
  let ?behind = "\<lambda>r. case resume of None \<Rightarrow> True | Some c \<Rightarrow> compare_triples (cursor_key c) (result_key r) < 0"
  have "filter (\<lambda>v. ?behind (versionRow v)) ?M = drop n ?M"
  proof (cases n)
    case (Suc m)
    then have "m < length ?M" using assms(4) by simp
    from later_elements [OF answer_list_facts(1) [OF assms(2)] this] show ?thesis
      using Suc assms(5) by (simp add: key created_before_def [abs_def] compare_creations_def)
  qed (use assms(5) in simp)
  moreover have "js_sort compare_results (filter ?behind (map versionRow ?live)) =
      map versionRow (filter (\<lambda>v. ?behind (versionRow v)) ?M)"
    unfolding filter_map comp_def answer_list_def creations_order.js_sort_filter [symmetric]
    by (rule js_sort_map) simp
  ultimately have sorted: "js_sort compare_results (filter ?behind (map versionRow ?live)) = map versionRow (drop n ?M)"
    by simp
  have "mapVersionRow (versionRow v) = v" if "v \<in> set ?M" for v
    using that index_servesD(5) [OF assms(2)] answer_list_facts(2) [OF assms(2)] by (auto simp: storable_def)
  then have "map (\<lambda>v. mapVersionRow (versionRow v)) (take limit (drop n ?M)) = take limit (drop n ?M)"
    by (intro map_idI) (meson in_set_dropD in_set_takeD)
  then show ?thesis
    unfolding queryEntities_def rows bind_result_simps Let_def sorted
    by (simp add: take_map [symmetric] min_def comp_def)
qed

section \<open>A request and its answer\<close>

lemma hd_to_digits: "1 < b \<Longrightarrow> n \<noteq> 0 \<Longrightarrow> hd (to_digits b n) \<noteq> 0"
proof (induction b n rule: to_digits.induct)
  case (1 b n)
  show ?case
  proof (cases "n < b")
    case True
    then show ?thesis using 1 by (subst to_digits.simps) simp
  next
    case False
    then have "n div b \<noteq> 0" using 1 by (simp add: div_eq_0_iff)
    then have "hd (to_digits b (n div b)) \<noteq> 0" using 1 False by simp
    then show ?thesis using 1 False by (subst to_digits.simps) simp
  qed
qed

lemma parseQuantity_hex:
  assumes "0 \<le> b" "b \<le> U64_MAX"
  shows "parseQuantity (JStr (hexQuantity b)) = Inr b"
proof -
  have "quantity_body (nat_to_hex (nat b))"
  proof (cases "b = 0")
    case True
    have "to_digits 16 0 = [0]" by (subst to_digits.simps) simp
    then show ?thesis using True by (simp add: quantity_body_def nat_to_hex_def) (simp add: hex_char_def char_of_eq_iff)
  next
    case False
    let ?d = "hd (to_digits 16 (nat b))"
    have d: "?d \<noteq> 0" "?d < 16"
      using False assms(1) hd_to_digits [of 16 "nat b"] to_digits_bounded [of 16 ?d "nat b"] by simp_all
    then have "hex_char ?d \<noteq> CHR ''0''" by (metis hex_char_lits(1) hex_digit_val_char zero_less_numeral)
    moreover have "hd (nat_to_hex (nat b)) = hex_char ?d" by (simp add: nat_to_hex_def hd_map)
    ultimately show ?thesis by (simp add: quantity_body_def)
  qed
  then show ?thesis using assms by (simp add: parseQuantity_def hexQuantity_def)
qed

text \<open>The request for a page: the block pinned, the selection and limit, and the cursor of the page before.\<close>

definition page_request :: "string \<Rightarrow> int \<Rightarrow> jsval \<Rightarrow> int \<Rightarrow> jsval option \<Rightarrow> jsval list" where
  "page_request query block select limit token =
     [JStr query, JObj ([(''atBlock'', JStr (hexQuantity block)), (''select'', select), (''limit'', JInt limit)] @
        (case token of None \<Rightarrow> [] | Some t \<Rightarrow> [(''cursor'', t)]))]"

lemma parse_page_options:
  assumes "0 \<le> block" "block \<le> U64_MAX"
  shows "parseQueryOptions (JObj ([(''atBlock'', JStr (hexQuantity block)), (''select'', select), (''limit'', JInt limit)] @
        (case token of None \<Rightarrow> [] | Some t \<Rightarrow> [(''cursor'', t)]))) =
    Inr \<lparr>qo_atBlock = Some block, qo_select = select, qo_limit = JInt limit, qo_cursor = token\<rparr>"
  using parseQuantity_hex [OF assms]
  by (cases token) (simp_all add: parseQueryOptions_def QUERY_OPTION_FIELDS_def parse_optional_def obj_get_def)

text \<open>A block the index answers for.\<close>

definition covers :: "bool \<Rightarrow> int \<Rightarrow> entity_index \<Rightarrow> bool" where
  "covers managed block ix \<longleftrightarrow>
     rd_ready (genesisReadiness (ix_genesis ix) managed) \<and>
     (case ix_through ix of None \<Rightarrow> False | Some head \<Rightarrow> block \<le> head) \<and>
     (case ix_floor ix of None \<Rightarrow> True | Some f \<Rightarrow> f \<le> block)"

lemma resolveBlock_covered:
  assumes "covers managed block ix" "ix_through ix = Some through"
  shows "resolveBlock (getProgress managed ix) (Some block) = Inr (block, block = through)"
  using assms by (auto simp: resolveBlock_def getProgress_def covers_def split: option.splits)

lemma arkiv_query_page:
  assumes "keccak_text keccak" "parseEntityQuery keccak query = Inr q" "parseProjection select = Inr p"
    and "1 \<le> limit" "limit \<le> MAX_PAGE_SIZE" "0 \<le> block" "block \<le> U64_MAX"
    and "index_serves ix through vs" "covers managed block ix"
    and "cursorBinding keccak query block (projectionFingerprint p) = Inr binding"
    and "n \<le> length (answer_list q block vs)"
    and "case token of None \<Rightarrow> n = 0
      | Some t \<Rightarrow> n \<noteq> 0 \<and> decodeCursor t binding = Inr (cursorPosition (answer_list q block vs ! (n - 1)))"
  shows "\<exists>cursor. arkiv_query keccak (getProgress managed ix) ix (page_request query block select limit token) =
      Inr (JObj ([(''data'', JArr (map (\<lambda>e. projectEntity e p) (take (nat limit) (drop n (answer_list q block vs))))),
        (''blockNumber'', JStr (hexQuantity block))] @ cursor)) \<and>
    (if nat limit < length (answer_list q block vs) - n
     then \<exists>t. cursor = [(''cursor'', JStr t)] \<and>
       decodeCursor (JStr t) binding = Inr (cursorPosition (answer_list q block vs ! (n + nat limit - 1)))
     else cursor = [])"
proof -
  let ?M = "answer_list q block vs" and ?L = "nat limit"
  let ?resume = "if n = 0 then None else Some (cursorPosition (?M ! (n - 1)))"
  let ?options = "\<lparr>qo_atBlock = Some block, qo_select = select, qo_limit = JInt limit, qo_cursor = token\<rparr>"
  have limit: "resolve_page_limit (Some limit) = Inr limit" "parseQuantity (JInt limit) = Inr limit"
    using assms(4,5) by (simp_all add: resolve_page_limit_def parseQuantity_def is_safe_integer_def max_safe_integer_def MAX_PAGE_SIZE_def)
  have resume: "request_cursor ?options binding = Inr ?resume"
    using assms(12) by (cases token) (simp_all add: request_cursor_def)
  have page: "queryEntities q block (block = through) ?L ?resume ix =
      Inr \<lparr>qp_entities = take ?L (drop n ?M), qp_hasMore = (?L < length ?M - n)\<rparr>"
    by (rule queryEntities_page [OF assms(2,8) _ assms(11)]) simp_all
  let ?page = "\<lparr>qp_entities = take ?L (drop n ?M), qp_hasMore = (?L < length ?M - n)\<rparr>"
  have len: "length binding = BINDING_LENGTH" by (rule length_binding [OF assms(1,10)])
  have answer: "arkiv_query keccak (getProgress managed ix) ix (page_request query block select limit token) =
      bind_result (next_cursor ?page binding) (\<lambda>cursor.
        Inr (JObj ([(''data'', JArr (map (\<lambda>e. projectEntity e p) (take ?L (drop n ?M)))),
          (''blockNumber'', JStr (hexQuantity block))] @ cursor)))"
    unfolding arkiv_query_def page_request_def
    using assms(2,3,10) page resume limit resolveBlock_covered [OF assms(9) index_servesD(1) [OF assms(8)]]
      parse_page_options [OF assms(6,7)]
    by (simp add: query_params_def parseQuery_def parse_optional_def wrap_error_def)
  show ?thesis
  proof (cases "?L < length ?M - n")
    case True
    have L: "0 < ?L" using assms(4) by simp
    then have ne: "take ?L (drop n ?M) \<noteq> []" and last: "last (take ?L (drop n ?M)) = ?M ! (n + ?L - 1)"
      using True by (simp_all add: last_conv_nth min_def)
    have "?M ! (n + ?L - 1) \<in> set vs"
      using True L answer_list_facts(2) [OF assms(8), of q block] nth_mem [of "n + ?L - 1" ?M] by auto
    then have "position_in_range (cursorPosition (?M ! (n + ?L - 1)))"
      using index_servesD(5) [OF assms(8)] by (simp add: storable_def)
    from decode_encoded [OF len this] obtain t where
      t: "encodeCursor (cursorPosition (?M ! (n + ?L - 1))) binding = Inr t"
        "decodeCursor (JStr t) binding = Inr (cursorPosition (?M ! (n + ?L - 1)))" by blast
    have "next_cursor ?page binding = Inr [(''cursor'', JStr t)]"
      using True ne last t(1) by (simp add: next_cursor_def)
    then show ?thesis unfolding answer using True t(2) by simp
  next
    case False
    then have "next_cursor ?page binding = Inr []" by (simp add: next_cursor_def)
    then show ?thesis unfolding answer using False by simp
  qed
qed

section \<open>Following the cursors\<close>

text \<open>
  A caller that asks for page after page until an answer has no cursor; the \<open>i\<close>-th request finds the
  index in the state \<open>ixs i\<close>. \<open>None\<close>: there is a cursor left after that many pages.
\<close>

fun read_pages ::
  "(string \<Rightarrow> string) \<Rightarrow> bool \<Rightarrow> (nat \<Rightarrow> entity_index) \<Rightarrow> (jsval option \<Rightarrow> jsval list) \<Rightarrow> nat \<Rightarrow> nat \<Rightarrow>
   jsval option \<Rightarrow> (arkiv_error + jsval list) option" where
  "read_pages keccak managed ixs request 0 i token = None"
| "read_pages keccak managed ixs request (Suc fuel) i token =
     (case arkiv_query keccak (getProgress managed (ixs i)) (ixs i) (request token) of
        Inl e \<Rightarrow> Some (Inl e)
      | Inr answer \<Rightarrow>
          let fields = the (obj_fields answer); page = arr_of (obj_get fields ''data'') in
          (case map_of fields ''cursor'' of
             None \<Rightarrow> Some (Inr page)
           | Some t \<Rightarrow>
               map_option (\<lambda>r. bind_result r (\<lambda>rest. Inr (page @ rest)))
                 (read_pages keccak managed ixs request fuel (Suc i) (Some t))))"

definition entities_at :: "int \<Rightarrow> entity_version list \<Rightarrow> entity_version set" where
  "entities_at block vs = open_ended ` {v \<in> set vs. live_at block v}"

lemma answer_list_same:
  assumes "index_serves ix a vs" "index_serves ix' a' us" "entities_at block vs = entities_at block us"
  shows "map open_ended (answer_list q block vs) = map open_ended (answer_list q block us)"
proof (rule sorted_strict_unique)
  have opened: "sorted_wrt created_before (map open_ended xs)" if "sorted_wrt created_before xs" for xs
    using that by (simp add: sorted_wrt_map created_before_def [abs_def] compare_creations_def)
  show "sorted_wrt created_before (map open_ended (answer_list q block vs))"
    "sorted_wrt created_before (map open_ended (answer_list q block us))"
    by (rule opened [OF answer_list_facts(1) [OF assms(1)]], rule opened [OF answer_list_facts(1) [OF assms(2)]])
  have "open_ended ` {v \<in> set ws. live_at block v \<and> matches q v} = {e \<in> entities_at block ws. matches q e}" for ws
    by (auto simp: entities_at_def)
  then show "set (map open_ended (answer_list q block vs)) = set (map open_ended (answer_list q block us))"
    using assms(3) answer_list_facts(2) [OF assms(1)] answer_list_facts(2) [OF assms(2)] by simp
qed

lemma read_pages_from:
  assumes hash: "keccak_text keccak" and parse: "parseEntityQuery keccak query = Inr q" "parseProjection select = Inr p"
    and limit: "1 \<le> limit" "limit \<le> MAX_PAGE_SIZE" and block: "0 \<le> block" "block \<le> U64_MAX"
    and state: "\<And>i. index_serves (ixs i) (through i) (vss i)" "\<And>i. covers managed block (ixs i)"
      "\<And>i. map open_ended (answer_list q block (vss i)) = es"
    and binding: "cursorBinding keccak query block (projectionFingerprint p) = Inr binding"
    and start: "n \<le> length es"
      "case token of None \<Rightarrow> n = 0 | Some t \<Rightarrow> n \<noteq> 0 \<and> decodeCursor t binding = Inr (cursorPosition (es ! (n - 1)))"
    and fuel: "length es - n < fuel"
  shows "read_pages keccak managed ixs (page_request query block select limit) fuel i token =
    Some (Inr (map (\<lambda>e. projectEntity e p) (drop n es)))"
  using start fuel
proof (induction fuel arbitrary: n i token)
  case (Suc fuel)
  let ?M = "answer_list q block (vss i)" and ?L = "nat limit"
  have es: "es = map open_ended ?M" using state(3) by simp
  have at: "cursorPosition (es ! m) = cursorPosition (?M ! m)" if "m < length es" for m using that es by simp
  have projected: "map (\<lambda>e. projectEntity e p) (take ?L (drop n ?M)) = map (\<lambda>e. projectEntity e p) (take ?L (drop n es))"
    by (simp add: es take_map drop_map comp_def)
  have len: "length ?M = length es" by (simp add: es)
  have token: "case token of None \<Rightarrow> n = 0
      | Some t \<Rightarrow> n \<noteq> 0 \<and> decodeCursor t binding = Inr (cursorPosition (?M ! (n - 1)))"
    using Suc.prems(1,2) at [of "n - 1"] by (cases token) auto
  have n: "n \<le> length ?M" using Suc.prems(1) len by simp
  obtain cursor where answer:
    "arkiv_query keccak (getProgress managed (ixs i)) (ixs i) (page_request query block select limit token) =
      Inr (JObj ([(''data'', JArr (map (\<lambda>e. projectEntity e p) (take ?L (drop n ?M)))),
        (''blockNumber'', JStr (hexQuantity block))] @ cursor))"
    "if ?L < length ?M - n
     then \<exists>t. cursor = [(''cursor'', JStr t)] \<and> decodeCursor (JStr t) binding = Inr (cursorPosition (?M ! (n + ?L - 1)))
     else cursor = []"
    using arkiv_query_page [OF hash parse limit block state(1,2) binding n token] by blast
  show ?case
  proof (cases "?L < length es - n")
    case True
    then obtain t where t: "cursor = [(''cursor'', JStr t)]"
      "decodeCursor (JStr t) binding = Inr (cursorPosition (?M ! (n + ?L - 1)))"
      using answer(2) len by auto
    have "read_pages keccak managed ixs (page_request query block select limit) fuel (Suc i) (Some (JStr t)) =
        Some (Inr (map (\<lambda>e. projectEntity e p) (drop (n + ?L) es)))"
    proof (rule Suc.IH)
      show "case Some (JStr t) of None \<Rightarrow> n + ?L = 0
        | Some t \<Rightarrow> n + ?L \<noteq> 0 \<and> decodeCursor t binding = Inr (cursorPosition (es ! (n + ?L - 1)))"
        using t(2) at [of "n + ?L - 1"] True limit(1) by simp
    qed (use True Suc.prems(3) limit(1) in auto)
    moreover have "take ?L (drop n es) @ drop (n + ?L) es = drop n es"
      by (metis add.commute append_take_drop_id drop_drop)
    ultimately show ?thesis
      using answer(1) t(1) projected
      by (simp add: Let_def obj_get_def arr_of_def map_append [symmetric] del: map_append)
  next
    case False
    then have "cursor = []" "take ?L (drop n es) = drop n es" using answer(2) len by auto
    then show ?thesis using answer(1) projected by (simp add: Let_def obj_get_def arr_of_def)
  qed
qed simp

text \<open>Three entities; between the pages the first is updated in a later block.\<close>

definition sample_live :: "string \<Rightarrow> int \<Rightarrow> int \<Rightarrow> int option \<Rightarrow> entity_version" where
  "sample_live key version start stop =
     \<lparr>v_entityKey = key, v_version = version, v_fromBlock = start, v_fromPosition = 0, v_fromOpIndex = 0, v_toBlock = stop,
      v_deleted = False, v_owner = ''0xo'', v_creator = ''0xo'', v_createdAt = 5,
      v_createdPosition = (if key = ''0xa'' then 0 else if key = ''0xb'' then 1 else 2), v_createdOpIndex = 0,
      v_updatedAt = start, v_expiresAt = 100, v_creationFlags = Some 0, v_bytesSize = 0, v_schemaName = None,
      v_attributes = [\<lparr>sa_name = ''a'', sa_typeId = 2, sa_indexed = True,
        sa_value = \<lparr>valueText = ''4'', valueNum = Some 4\<rparr>\<rparr>]\<rparr>"

definition sample_before :: "entity_version list" where
  "sample_before = [sample_live ''0xa'' 0 5 None, sample_live ''0xb'' 0 5 None, sample_live ''0xc'' 0 5 None]"

definition sample_after :: "entity_version list" where
  "sample_after = [sample_live ''0xb'' 0 5 None, sample_live ''0xc'' 0 5 None, sample_live ''0xa'' 0 5 (Some 9),
     sample_live ''0xa'' 1 9 None]"

definition sample_state :: "nat \<Rightarrow> entity_index" where
  "sample_state i =
     (let vs = if i = 0 then sample_before else sample_after in
      empty_index\<lparr>ix_versions := map versionRow vs, ix_attributes := attributeRows vs, ix_floor := Some 1,
        ix_through := Some (if i = 0 then 8 else 9)\<rparr>)"

definition sample_keccak :: "string \<Rightarrow> string" where
  "sample_keccak s = ''0x'' @ replicate 64 CHR ''0''"

lemma sample_live_facts [simp]:
  "v_entityKey (sample_live k n a z) = k" "v_version (sample_live k n a z) = n" "v_fromBlock (sample_live k n a z) = a"
  "v_toBlock (sample_live k n a z) = z" "v_deleted (sample_live k n a z) = False" "v_expiresAt (sample_live k n a z) = 100"
  "storable (sample_live k n a z)" "succeeds (sample_live k n a z) (sample_live k m b y) \<longleftrightarrow> m = n + 1 \<and> a \<le> b"
  "creation (sample_live k n a z) = creation (sample_live k' n' a' z') \<longleftrightarrow>
     (if k = ''0xa'' then 0 else if k = ''0xb'' then 1 else 2 :: int) = (if k' = ''0xa'' then 0 else if k' = ''0xb'' then 1 else 2)"
proof -
  have "read_json (stored_json \<lparr>sa_name = ''a'', sa_typeId = 2, sa_indexed = True, sa_value = \<lparr>valueText = ''4'', valueNum = Some 4\<rparr>\<rparr>) =
      \<lparr>sa_name = ''a'', sa_typeId = 2, sa_indexed = True, sa_value = \<lparr>valueText = ''4'', valueNum = Some 4\<rparr>\<rparr>"
    by code_simp
  then show "storable (sample_live k n a z)"
    by (simp add: storable_def sample_live_def mapVersionRow_def versionRow_def position_in_range_def cursorPosition_def
        MAX_CURSOR_CREATED_AT_def)
qed (auto simp: sample_live_def succeeds_def creation_def)

lemma sample_serves: "index_serves (sample_state i) (if i = 0 then 8 else 9) (if i = 0 then sample_before else sample_after)"
proof (cases "i = 0")
  case True
  then show ?thesis by (auto simp: index_serves_def sample_state_def sample_before_def)
next
  case False
  then show ?thesis by (auto simp: index_serves_def sample_state_def sample_after_def)
qed

text \<open>
  The two reads of one request: with a fold committed between them, the shorter filter of the head misses
  an entity that is live at the block the request answers for.
\<close>

lemma head_read_misses_entity:
  "case queryEntities All 8 True 100 None (sample_state 1) of
     Inr page \<Rightarrow> map v_entityKey (qp_entities page) = [''0xb'', ''0xc''] | Inl _ \<Rightarrow> False"
  "live_at 8 (sample_live ''0xa'' 0 5 (Some 9))"
  by code_simp (simp add: live_at_def valid_at_def)

text \<open>The cursor of a position in that query.\<close>

definition sample_binding :: string where
  "sample_binding = replicate 16 (char_of (0 :: nat))"

lemma sample_binding_of: "cursorBinding sample_keccak ''a'' 8 [] = Inr sample_binding"
  by code_simp

definition sample_position :: cursor_position where
  "sample_position = \<lparr>cp_createdAt = 5, cp_position = 1, cp_opIndex = 0\<rparr>"

lemma sample_keccak_text: "keccak_text sample_keccak"
  by (simp add: keccak_text_def isHexOfLength_def sample_keccak_def is_hex_digit_def is_digit_def list_all_iff)

section \<open>Properties\<close>

text \<open>
  C6. Paging answers exactly the matches. For an accepted query, selection and limit and a block the index
  covers, asking page after page with the cursor of the answer before ends, and the pages in a row are the
  projections of exactly the entities that are live at the block and match the query, each once, in the order
  they were created: also when the projector folds on between the requests, as long as the entities live at
  the block stay what they are and each request reads one state of the index. Assumed of the index: one chain
  of versions per entity, none begun above the fold point, values that fit their columns, and different
  creations for different entities; of \<open>keccak256\<close> that it returns 32 bytes in hex.
\<close>

theorem query_pages_complete:
  assumes "keccak_text keccak" "parseEntityQuery keccak query = Inr q" "parseProjection select = Inr p"
    and "1 \<le> limit" "limit \<le> MAX_PAGE_SIZE" "0 \<le> block" "block \<le> U64_MAX"
    and "\<And>i. index_serves (ixs i) (through i) (vss i) \<and> covers managed block (ixs i) \<and> entities_at block (vss i) = live"
  shows "\<exists>es. sorted_wrt created_before es \<and> set es = {e \<in> live. matches q e} \<and>
    (\<forall>fuel > length es. read_pages keccak managed ixs (page_request query block select limit) fuel 0 None =
      Some (Inr (map (\<lambda>e. projectEntity e p) es)))"
proof -
  let ?M = "\<lambda>i. answer_list q block (vss i)"
  let ?es = "map open_ended (?M 0)"
  have serves: "index_serves (ixs i) (through i) (vss i)" "covers managed block (ixs i)" "entities_at block (vss i) = live" for i
    using assms(8) by simp_all
  have same: "map open_ended (?M i) = ?es" for i
    by (rule answer_list_same [OF serves(1) serves(1)]) (simp add: serves(3))
  have "length (utf8_bytes query) \<le> MAX_QUERY_BYTES"
    using assms(2) by (auto simp: parseEntityQuery_def Let_def split: if_splits)
  then obtain binding where binding: "cursorBinding keccak query block (projectionFingerprint p) = Inr binding"
    using cursorBinding_total [OF assms(6,7)] by blast
  have "read_pages keccak managed ixs (page_request query block select limit) fuel 0 None =
      Some (Inr (map (\<lambda>e. projectEntity e p) ?es))" if "fuel > length ?es" for fuel
    using read_pages_from [where n = 0 and token = None and ixs = ixs and vss = vss and through = through and es = ?es,
        OF assms(1-7) serves(1,2) same binding _ _ ] that by simp
  moreover have "sorted_wrt created_before ?es"
    using answer_list_facts(1) [OF serves(1)] by (simp add: sorted_wrt_map created_before_def [abs_def] compare_creations_def)
  moreover have "set ?es = {e \<in> live. matches q e}"
    using answer_list_facts(2) [OF serves(1) [of 0]] serves(3) [of 0] by (auto simp: entities_at_def)
  ultimately show ?thesis by blast
qed

theorem query_pages_complete_witness:
  "\<exists>es. sorted_wrt created_before es \<and> set es = {e \<in> entities_at 8 sample_before. matches (Compare OpGt (User ''a'') (VI32 3)) e} \<and>
    (\<forall>fuel > length es. read_pages sample_keccak False sample_state (page_request ''a > 3'' 8 JUndef 1) fuel 0 None =
      Some (Inr (map (\<lambda>e. projectEntity e defaultProjection) es)))"
proof (rule query_pages_complete [where through = "\<lambda>i. if i = 0 then 8 else 9" and vss = "\<lambda>i. if i = 0 then sample_before else sample_after"])
  show "keccak_text sample_keccak"
    by (simp add: keccak_text_def isHexOfLength_def sample_keccak_def is_hex_digit_def is_digit_def list_all_iff)
  show "parseEntityQuery sample_keccak ''a > 3'' = Inr (Compare OpGt (User ''a'') (VI32 3))" by code_simp
  show "parseProjection JUndef = Inr defaultProjection" by (simp add: parseProjection_def)
  have "entities_at 8 (if i = 0 then sample_before else sample_after) = entities_at 8 sample_before" for i :: nat
  proof -
    have opened: "open_ended (sample_live k n a z) = sample_live k n a None" for k n a z
      by (simp add: open_ended_def sample_live_def)
    have live: "live_at 8 (sample_live k n a z) \<longleftrightarrow> a \<le> 8 \<and> (case z of None \<Rightarrow> True | Some t \<Rightarrow> 8 < t)" for k n a z
      by (simp add: live_at_def valid_at_def)
    have listed: "entities_at 8 vs = set (map open_ended (filter (live_at 8) vs))" for vs by (auto simp: entities_at_def)
    show ?thesis
      unfolding listed by (cases "i = 0") (auto simp: sample_before_def sample_after_def opened live)
  qed
  moreover have "covers False 8 (sample_state i)" for i
    by (simp add: covers_def sample_state_def empty_index_def genesisReadiness_def Let_def)
  ultimately show "\<And>i. index_serves (sample_state i) (if i = 0 then 8 else 9) (if i = 0 then sample_before else sample_after) \<and>
      covers False 8 (sample_state i) \<and> entities_at 8 (if i = 0 then sample_before else sample_after) = entities_at 8 sample_before"
    using sample_serves by blast
qed (simp_all add: MAX_PAGE_SIZE_def U64_MAX_def)

text \<open>
  C23. A cursor stands for one position. Under the binding of a query, block and selection, a token is accepted
  exactly when it is the text that encodes a position of the result order within its ranges, and it then reads
  back as that position; every other token is refused as a cursor error.
\<close>

theorem cursor_roundtrip:
  assumes "keccak_text keccak" "cursorBinding keccak query block fingerprint = Inr binding"
  shows "(decodeCursor token binding = Inr c \<longleftrightarrow>
      position_in_range c \<and> (\<exists>t. token = JStr t \<and> encodeCursor c binding = Inr t)) \<and>
    (decodeCursor token binding = Inl e \<longrightarrow> e = CursorError)"
proof -
  note len = length_binding [OF assms]
  have "decodeCursor token binding = Inr c" if "position_in_range c" "token = JStr t" "encodeCursor c binding = Inr t" for t
    using decode_encoded [OF len that(1)] that(2,3) by auto
  then have "decodeCursor token binding = Inr c \<longleftrightarrow>
      position_in_range c \<and> (\<exists>t. token = JStr t \<and> encodeCursor c binding = Inr t)"
    using encode_decoded [OF len] by blast
  moreover have "decodeCursor token binding = Inl e \<Longrightarrow> e = CursorError"
    by (auto simp: decodeCursor_def Let_def split: if_splits)
  ultimately show ?thesis by blast
qed

theorem cursor_roundtrip_witness:
  "\<exists>t. encodeCursor sample_position sample_binding = Inr t \<and> decodeCursor (JStr t) sample_binding = Inr sample_position"
proof -
  obtain t where t: "encodeCursor sample_position sample_binding = Inr t"
    by (auto simp: encodeCursor_def write_be_def sample_position_def Let_def)
  then have "decodeCursor (JStr t) sample_binding = Inr sample_position"
    using cursor_roundtrip [OF sample_keccak_text sample_binding_of, of "JStr t" sample_position]
    by (simp add: position_in_range_def sample_position_def MAX_CURSOR_CREATED_AT_def)
  with t show ?thesis by blast
qed

end
