(* ===== verification/Spec2Isabelle.thy ===== *)
theory Spec2Isabelle
  imports EntityEvents DecoderContract EntityQueryPrint EntityQuerySql GapFiller Aggregator CacheFacts KeyRingFacts TickSteps ArkivRpcFacts
begin

text \<open>
  A verification development of the Arkiv chain indexer (src/src/*.ts). The indexer walks a chain
  through a node's JSON-RPC, stores each block with its transactions, logs and decoded registry
  operations in Postgres, aggregates ranges of blocks, folds the operations of each entity into its
  versions, and answers queries over them.

  \<^bold>\<open>Parts and theories.\<close> Names in the theories are those of the source; a suffix or prefix is added where a
  name clashes with the library.

    \<^item> \<open>Prelude\<close>, \<open>JsText\<close>, \<open>JsDate\<close>: what the source uses of JavaScript. A throwing computation is a sum
      whose left side is the exception (\<open>bind_result\<close>, \<open>map_result\<close>, \<open>fold_result\<close>); a \<open>Map\<close> is an association
      list in insertion order (\<open>map_get\<close>, \<open>map_set\<close>, \<open>map_delete\<close>); \<open>Array.sort\<close> is \<open>js_sort\<close>, whose laws hold in
      the locale \<open>js_comparator\<close>, interpreted on each comparator; a string is the byte list of its
      generalised UTF-8 form; a bigint is an \<open>int\<close>.
    \<^item> \<open>RpcTypes\<close> (types.ts, math.ts, transactionFilter.ts): blocks, transactions, receipts, hex quantities.
    \<^item> \<open>EntityValues\<close> (entityValues.ts): attribute types, their stored and wire forms and decimals.
    \<^item> \<open>ArkivOperations\<close>, \<open>DecoderContract\<close> (arkivOperations.ts): the decoder service's answers, the keys of
      created entities, the walk over a block, and what is accepted, kept and read back.
    \<^item> \<open>EntityIndex\<close>, \<open>EntityHistory\<close>, \<open>EntityEvents\<close> (entityIndex.ts): the fold of operations into versions and
      the pairing of operations with receipt logs; the history is refined to the engine's state.
    \<^item> \<open>EntityQueryLanguage\<close>, \<open>EntityQueryFacts\<close>, \<open>EntityQueryPrint\<close> (entityQueryLanguage.ts): lexer and parser of
      queries; \<open>EntityQuerySql\<close> (entityQuerySql.ts): their compilation to a SQL condition.
    \<^item> \<open>BlockInspector\<close>, \<open>Metrics\<close> (blockInspector.ts, metrics.ts): a block's transactions and statistics.
    \<^item> \<open>Ranges\<close> (ranges.ts), \<open>Aggregator\<close> (aggregator.ts): statistics of ranges of blocks and the run that
      writes them.
    \<^item> \<open>Storage\<close>, \<open>StorageFacts\<close> (storage.ts): the tables the scanner writes, its cursors, the binding to a
      genesis block, the gap query, the transaction records.
    \<^item> \<open>Scanner\<close>, \<open>ScannerFacts\<close> (scanner.ts), \<open>GapFiller\<close> (fillGaps.ts): reading blocks forward and backward
      and filling the holes.
    \<^item> \<open>Caches\<close>, \<open>CacheFacts\<close> (responseCache.ts, valueCache.ts): the two caches with single-flight loads.
    \<^item> \<open>KeyRing\<close>, \<open>KeyRingFacts\<close> (rpcKeyRing.ts): the rotating pool of API keys.
    \<^item> \<open>EntityStore\<close>, \<open>EntityLoad\<close>, \<open>EntityRefold\<close> (entityIndexStorage.ts): the version and attribute rows of the
      entity index, the loading of operations from the scanner's tables, the refold, and the reads.
    \<^item> \<open>GenesisImport\<close>, \<open>GenesisFacts\<close> (entityGenesis.ts): the node as the source of the entities of block 0, their
      conversion into versions, the pages of a walk; an accepted entity is well formed and reads back.
    \<^item> \<open>Projector\<close>, \<open>GenesisStage\<close> (entityProjector.ts): a tick of the loop that keeps the index folded up to the
      scanner's head, as functions: the fold, and before it the stage that imports the genesis (probe, walk,
      restart, failure, repair).
    \<^item> \<open>Projection\<close>, \<open>ProjectionRows\<close>, \<open>ImportSteps\<close>, \<open>ProjectorFacts\<close>: the transactions of projector and scanner as one
      step relation, and the invariant of its reachable states: the index follows the chain.
    \<^item> \<open>ProjectorLiveness\<close>: a tick brings the index to the head. \<open>ProjectorSteps\<close>, \<open>GenesisSteps\<close>, \<open>TickSteps\<close>: a whole
      tick only takes steps of the relation, so what holds of the relation holds of the code.
    \<^item> \<open>ArkivRpc\<close>, \<open>ArkivCursors\<close>, \<open>ArkivRpcFacts\<close> (arkivJsonRpc.ts): the query methods over the index, with
      their selections and cursors.

  The scanner calls the metrics, the inspector and the decoder on what the node answers and hands the
  result to \<open>saveBlockMetrics\<close>; the gap filler calls the same \<open>scanOneBlock\<close>; the aggregator reads the stored
  blocks back through the same storage model. The fold reads the operations the decoder accepted: the
  lemma \<open>applied_operations_fold\<close> says that what the one keeps never stops the other. The projector reads what
  \<open>saveBlockMetrics\<close> stored, folds it and replaces the rows of the entities it touched; \<open>projects\<close> is the step
  relation in which its transactions and the scanner's interleave, and \<open>projection_ok\<close> its invariant.
  The node's genesis entities come in by the projector's genesis stage, in batches beside the fold and below every
  operation; the repair then refolds the entities of the genesis that have operations.

  \<^bold>\<open>Interfaces.\<close> Each is a locale whose laws the providing component proves by interpretation:
  \<open>js_comparator\<close> (the comparators), \<open>strict_ranking\<close> (the order of transaction records), \<open>progress_store\<close> (what
  the scanner's loops need of storage), \<open>load_cache\<close> (a single-flight cache, interpreted on both caches).

  \<^bold>\<open>World, fuel and time.\<close> The node, the decoder, the batcher collector and the clock answer the \<open>t\<close>-th attempt
  from a function \<open>world t\<close>, so that any sequence of answers and failures is covered. Loops of the source that
  retry for ever take fuel; the value \<open>None\<close> is a run still going when it is spent. The safety
  properties hold for every fuel; the liveness properties give the fuel: as many tries as the node
  needs to answer once (\<open>scanner_keeps_up\<close>), or none at all, where the recursion is bounded by its data. The instants operation rows were
  written at are a function of their primary key (\<open>stamps\<close>), in microseconds; the database clock, the host
  clock where a tick reads it, and whether the fold lock is free are in the arguments of a tick.

  \<^bold>\<open>Parameters.\<close> keccak256, the compressed length of zstd, the HTTP exchanges with the decoder and with the
  node, and the floating-point mean are arguments of the definitions that use them; no property assumes more of them than
  its statement says.

  \<^bold>\<open>Not modelled.\<close> HTTP routing and the eth_ methods of JSON-RPC (server.ts, jsonRpc.ts), which are glue over
  storage queries; most read queries of storage.ts, which are SQL text; the projector's progress file, the
  schema set-up and statistics of the entity index; the offline import of a genesis dump and its bootstrap, accounts,
  load agents, search, process metrics, entry points, scripts and the React frontend. Log lines, sleeps
  and message texts of errors are left out; errors themselves are values. Reads of the database that only fail
  with the connection (a cursor, the gap query, the fold state) do not fail in the model, and columns filled with
  \<open>NOW()\<close> are outside the state, but for the instants operation rows were written at.
\<close>

end
